(* ===== verification/Prelude.thy ===== *)
theory Prelude
  imports Main "HOL-Library.Sublist" "HOL-Library.List_Lexorder" "HOL-Library.Char_ord"
begin

text \<open>
  Shared by every component: the error type of the crate, the result type, the iterator
  idioms of the Rust source (\<^verbatim>\<open>find_map\<close>, \<^verbatim>\<open>max_by_key\<close>), decimal printing,
  saturating and checked 64-bit arithmetic, and \<^verbatim>\<open>BTreeMap\<close> as an association list in
  key order.
\<close>

section \<open>Errors and results\<close>

text \<open>
  \<^verbatim>\<open>AegisError\<close> of \<^verbatim>\<open>error.rs\<close>. \<^verbatim>\<open>Io\<close> and \<^verbatim>\<open>Json\<close> wrap errors of
  the standard library and of serde; only their text is kept.
\<close>

datatype aegis_error =
    InvalidConfig string
  | InvalidPlan string
  | Unsupported string
  | MissingFile string
  | Io string
  | Json string

type_synonym 'a aegis_result = "aegis_error + 'a"

text \<open>The \<^verbatim>\<open>?\<close> operator.\<close>

definition res_bind :: "'a aegis_result \<Rightarrow> ('a \<Rightarrow> 'b aegis_result) \<Rightarrow> 'b aegis_result" where
  "res_bind r f = (case r of Inl e \<Rightarrow> Inl e | Inr x \<Rightarrow> f x)"

definition ok_or :: "aegis_error \<Rightarrow> 'a option \<Rightarrow> 'a aegis_result" where
  "ok_or e x = (case x of None \<Rightarrow> Inl e | Some v \<Rightarrow> Inr v)"

named_theorems res_simps \<open>evaluation and inversion of result pipelines\<close>

lemma res_bind_Inl [simp]: "res_bind (Inl e) f = Inl e"
  by (simp add: res_bind_def)

lemma res_bind_Inr [simp]: "res_bind (Inr x) f = f x"
  by (simp add: res_bind_def)

lemma res_bind_eq_Inr [res_simps]: "res_bind r f = Inr y \<longleftrightarrow> (\<exists>x. r = Inr x \<and> f x = Inr y)"
  by (cases r) auto

lemma res_bind_eq_Inl [res_simps]:
  "res_bind r f = Inl e \<longleftrightarrow> r = Inl e \<or> (\<exists>x. r = Inr x \<and> f x = Inl e)"
  by (cases r) auto

lemma ok_or_simps [simp]: "ok_or e None = Inl e" "ok_or e (Some v) = Inr v"
  by (simp_all add: ok_or_def)

lemma ok_or_eq_Inr [res_simps]: "ok_or e x = Inr v \<longleftrightarrow> x = Some v"
  by (cases x) auto

lemma ok_or_eq_Inl [res_simps]: "ok_or e x = Inl e' \<longleftrightarrow> x = None \<and> e' = e"
  by (cases x) auto

section \<open>Iterator idioms\<close>

lemma list_all2_mem: "list_all2 P xs ys \<Longrightarrow> y \<in> set ys \<Longrightarrow> \<exists>x \<in> set xs. P x y"
  by (induction rule: list_all2_induct) auto

fun find_map :: "('a \<Rightarrow> 'b option) \<Rightarrow> 'a list \<Rightarrow> 'b option" where
  "find_map f [] = None"
| "find_map f (x # xs) = (case f x of None \<Rightarrow> find_map f xs | Some y \<Rightarrow> Some y)"

lemma find_map_Some: "find_map f xs = Some y \<Longrightarrow> \<exists>x \<in> set xs. f x = Some y"
  by (induction xs) (auto split: option.splits)

lemma find_map_None: "find_map f xs = None \<longleftrightarrow> (\<forall>x \<in> set xs. f x = None)"
  by (induction xs) (auto split: option.splits)

text \<open>
  \<^verbatim>\<open>Iterator::max_by_key\<close> returns the last of the elements with the greatest key.
\<close>

fun max_by_key_from :: "('a \<Rightarrow> 'k::linorder) \<Rightarrow> 'a \<Rightarrow> 'a list \<Rightarrow> 'a" where
  "max_by_key_from k best [] = best"
| "max_by_key_from k best (x # xs) = max_by_key_from k (if k best \<le> k x then x else best) xs"

definition max_by_key :: "('a \<Rightarrow> 'k::linorder) \<Rightarrow> 'a list \<Rightarrow> 'a option" where
  "max_by_key k xs = (case xs of [] \<Rightarrow> None | x # ys \<Rightarrow> Some (max_by_key_from k x ys))"

lemma max_by_key_from_in: "max_by_key_from k b xs \<in> insert b (set xs)"
  by (induction xs arbitrary: b) auto

lemma max_by_key_from_ge:
  "x \<in> insert b (set xs) \<Longrightarrow> k x \<le> k (max_by_key_from k b xs)"
proof (induction xs arbitrary: b x)
  case Nil
  then show ?case by simp
next
  case (Cons y ys)
  show ?case
  proof (cases "x \<in> set ys")
    case True
    then show ?thesis using Cons.IH [of x "if k b \<le> k y then y else b"] by simp
  next
    case False
    with Cons.prems have "k x \<le> k (if k b \<le> k y then y else b)" by auto
    also have "\<dots> \<le> k (max_by_key_from k (if k b \<le> k y then y else b) ys)"
      using Cons.IH [of "if k b \<le> k y then y else b" "if k b \<le> k y then y else b"] by simp
    finally show ?thesis by simp
  qed
qed

lemma max_by_key_None [simp]: "max_by_key k xs = None \<longleftrightarrow> xs = []"
  by (cases xs) (auto simp: max_by_key_def)

lemma max_by_key_in: "max_by_key k xs = Some x \<Longrightarrow> x \<in> set xs"
  using max_by_key_from_in [of k "hd xs" "tl xs"] by (cases xs) (auto simp: max_by_key_def)

lemma max_by_key_ge: "max_by_key k xs = Some x \<Longrightarrow> y \<in> set xs \<Longrightarrow> k y \<le> k x"
  using max_by_key_from_ge [of y "hd xs" "tl xs" k] by (cases xs) (auto simp: max_by_key_def)

text \<open>Concatenating parts of one length.\<close>

lemma concat_const_length: "(\<And>x. x \<in> set xs \<Longrightarrow> length (f x) = n) \<Longrightarrow> length (concat (map f xs)) = length xs * n"
  by (induction xs) simp_all

lemma concat_map_nth:
  assumes "\<And>i. i < n \<Longrightarrow> length (g i) = k" "i < n" "j < k"
  shows "concat (map g [0..<n]) ! (i * k + j) = g i ! j"
  using assms
proof (induction n)
  case (Suc n)
  have len: "length (concat (map g [0..<n])) = n * k"
    using concat_const_length [of "[0..<n]" g k] Suc.prems(1) by simp
  show ?case
  proof (cases "i < n")
    case True
    then have "Suc i * k \<le> n * k" by (intro mult_le_mono1) simp
    then have "i * k + j < n * k" using Suc.prems(3) by simp
    then show ?thesis using Suc True len by (simp add: nth_append)
  next
    case False
    then have "i = n" using Suc.prems(2) by simp
    then show ?thesis using len by (simp add: nth_append)
  qed
qed simp

text \<open>\<^verbatim>\<open>Iterator::max().unwrap_or(0)\<close> over byte counts.\<close>

definition max_or_zero :: "nat list \<Rightarrow> nat" where
  "max_or_zero xs = foldr max xs 0"

lemma max_or_zero_simps [simp]:
  "max_or_zero [] = 0" "max_or_zero (x # xs) = max x (max_or_zero xs)"
  by (simp_all add: max_or_zero_def)

lemma max_or_zero_ge: "x \<in> set xs \<Longrightarrow> x \<le> max_or_zero xs"
  by (induction xs) auto

lemma max_or_zero_in: "xs \<noteq> [] \<Longrightarrow> max_or_zero xs \<in> set xs"
proof (induction xs)
  case (Cons x xs)
  then show ?case by (cases xs) (auto simp: max_def)
qed simp

lemma upt_join: "i \<le> j \<Longrightarrow> j \<le> k \<Longrightarrow> [i..<j] @ [j..<k] = [i..<k]"
  by (metis le_add_diff_inverse upt_add_eq_append)

section \<open>Machine arithmetic\<close>

text \<open>
  \<^verbatim>\<open>usize\<close> and \<^verbatim>\<open>u64\<close> are 64 bits wide on the targets of the engine. Values are
  natural numbers; the saturating and checked operations the source calls are written out
  here, and wrap-around is written with \<open>mod\<close> where the source's plain operators can
  reach it. \<^verbatim>\<open>saturating_sub\<close> is the subtraction of \<open>nat\<close>.
\<close>

definition u64_max :: nat where
  "u64_max = 2 ^ 64 - 1"

definition saturating_add :: "nat \<Rightarrow> nat \<Rightarrow> nat" where
  "saturating_add a b = min u64_max (a + b)"

definition saturating_mul :: "nat \<Rightarrow> nat \<Rightarrow> nat" where
  "saturating_mul a b = min u64_max (a * b)"

definition checked_mul :: "nat \<Rightarrow> nat \<Rightarrow> nat option" where
  "checked_mul a b = (if a * b \<le> u64_max then Some (a * b) else None)"

definition wrapping_add :: "nat \<Rightarrow> nat \<Rightarrow> nat" where
  "wrapping_add a b = (a + b) mod 2 ^ 64"

definition checked_add :: "nat \<Rightarrow> nat \<Rightarrow> nat option" where
  "checked_add a b = (if a + b \<le> u64_max then Some (a + b) else None)"

text \<open>The \<^verbatim>\<open>u32\<close> forms; \<^verbatim>\<open>as u32\<close> keeps the low 32 bits.\<close>

definition u32_max :: nat where
  "u32_max = 2 ^ 32 - 1"

definition as_u32 :: "nat \<Rightarrow> nat" where
  "as_u32 n = n mod 2 ^ 32"

definition checked_add_u32 :: "nat \<Rightarrow> nat \<Rightarrow> nat option" where
  "checked_add_u32 a b = (if a + b \<le> u32_max then Some (a + b) else None)"

definition checked_mul_u32 :: "nat \<Rightarrow> nat \<Rightarrow> nat option" where
  "checked_mul_u32 a b = (if a * b \<le> u32_max then Some (a * b) else None)"

definition div_ceil :: "nat \<Rightarrow> nat \<Rightarrow> nat" where
  "div_ceil a b = (a + b - 1) div b"

lemma wrapping_add_exact: "a + b \<le> u64_max \<Longrightarrow> wrapping_add a b = a + b"
  by (simp add: wrapping_add_def u64_max_def)

lemma saturating_add_exact: "a + b \<le> u64_max \<Longrightarrow> saturating_add a b = a + b"
  by (simp add: saturating_add_def)

lemma saturating_mul_exact: "a * b \<le> u64_max \<Longrightarrow> saturating_mul a b = a * b"
  by (simp add: saturating_mul_def)

lemma saturating_add_le: "saturating_add a b \<le> u64_max"
  by (simp add: saturating_add_def)

lemma saturating_mul_le: "saturating_mul a b \<le> u64_max"
  by (simp add: saturating_mul_def)

lemma saturating_mono:
  "a \<le> a' \<Longrightarrow> b \<le> b' \<Longrightarrow> saturating_add a b \<le> saturating_add a' b'"
  "a \<le> a' \<Longrightarrow> b \<le> b' \<Longrightarrow> saturating_mul a b \<le> saturating_mul a' b'"
  by (auto simp: saturating_add_def saturating_mul_def min_le_iff_disj mult_le_mono)

lemma checked_mul_Some: "checked_mul a b = Some c \<longleftrightarrow> c = a * b \<and> a * b \<le> u64_max"
  by (auto simp: checked_mul_def)

lemma checked_mul_None: "checked_mul a b = None \<longleftrightarrow> u64_max < a * b"
  by (auto simp: checked_mul_def)

lemma checked_add_Some: "checked_add a b = Some c \<longleftrightarrow> c = a + b \<and> a + b \<le> u64_max"
  by (auto simp: checked_add_def)

lemma checked_u32_Some:
  "checked_add_u32 a b = Some c \<longleftrightarrow> c = a + b \<and> a + b \<le> u32_max"
  "checked_mul_u32 a b = Some c \<longleftrightarrow> c = a * b \<and> a * b \<le> u32_max"
  by (auto simp: checked_add_u32_def checked_mul_u32_def)

lemma as_u32_small: "n \<le> u32_max \<Longrightarrow> as_u32 n = n"
  by (simp add: as_u32_def u32_max_def)

lemma as_u32_le: "as_u32 n \<le> u32_max"
proof -
  have "n mod 2 ^ 32 < 2 ^ 32" by (rule mod_less_divisor) simp
  then show ?thesis by (simp add: as_u32_def u32_max_def)
qed

lemma div_ceil_covers: "0 < b \<Longrightarrow> a \<le> div_ceil a b * b"
proof -
  assume b: "0 < b"
  have "a + b - 1 = (a + b - 1) div b * b + (a + b - 1) mod b" by simp
  moreover have "(a + b - 1) mod b < b" using b by simp
  ultimately show ?thesis unfolding div_ceil_def by linarith
qed

lemma div_less_ceil: "0 < b \<Longrightarrow> i < a \<Longrightarrow> i div b < div_ceil a b"
  using div_ceil_covers [of b a] by (simp add: div_less_iff_less_mult)

section \<open>Decimal printing\<close>

definition digit_char :: "nat \<Rightarrow> char" where
  "digit_char d = char_of (48 + d)"

definition hex_digit :: "nat \<Rightarrow> char" where
  "hex_digit d = char_of (if d < 10 then 48 + d else 87 + d)"

fun show_nat :: "nat \<Rightarrow> string" where
  "show_nat n = (if n < 10 then [digit_char n] else show_nat (n div 10) @ [digit_char (n mod 10)])"

declare show_nat.simps [simp del]

lemma digit_char_inj: "a < 10 \<Longrightarrow> b < 10 \<Longrightarrow> digit_char a = digit_char b \<Longrightarrow> a = b"
  by (auto simp: digit_char_def dest: arg_cong [where f = "of_char :: char \<Rightarrow> nat"])

lemma show_nat_nonempty [simp]: "show_nat n \<noteq> []" "[] \<noteq> show_nat n"
  by (subst show_nat.simps; simp)+

lemma show_nat_inj: "show_nat a = show_nat b \<Longrightarrow> a = b"
proof (induction a arbitrary: b rule: show_nat.induct)
  case (1 a)
  show ?case
  proof (cases "a < 10 \<or> b < 10")
    case True
    with "1.prems" show ?thesis
      by (auto simp: show_nat.simps [of a] show_nat.simps [of b]
          dest: digit_char_inj split: if_splits)
  next
    case False
    with "1.prems" have "show_nat (a div 10) = show_nat (b div 10)"
      and "digit_char (a mod 10) = digit_char (b mod 10)"
      by (auto simp: show_nat.simps [of a] show_nat.simps [of b])
    with False have "a div 10 = b div 10" "a mod 10 = b mod 10"
      using "1.IH" [of "b div 10"] digit_char_inj [of "a mod 10" "b mod 10"] by auto
    then show ?thesis by (metis div_mult_mod_eq)
  qed
qed

section \<open>Ordered maps\<close>

text \<open>
  \<^verbatim>\<open>BTreeMap\<close>: an association list in strictly increasing key order, so that iteration
  is in key order as in the source. Lookup is \<open>map_of\<close>.
\<close>

type_synonym ('k, 'v) btree_map = "('k \<times> 'v) list"

fun bt_insert :: "'k::linorder \<Rightarrow> 'v \<Rightarrow> ('k, 'v) btree_map \<Rightarrow> ('k, 'v) btree_map" where
  "bt_insert k v [] = [(k, v)]"
| "bt_insert k v ((k', v') # m) =
     (if k < k' then (k, v) # (k', v') # m
      else if k = k' then (k, v) # m
      else (k', v') # bt_insert k v m)"

definition bt_or_insert :: "'k::linorder \<Rightarrow> 'v \<Rightarrow> ('k, 'v) btree_map \<Rightarrow> ('k, 'v) btree_map" where
  "bt_or_insert k v m = (case map_of m k of None \<Rightarrow> bt_insert k v m | Some _ \<Rightarrow> m)"

definition bt_wf :: "('k::linorder, 'v) btree_map \<Rightarrow> bool" where
  "bt_wf m \<longleftrightarrow> sorted_wrt (<) (map fst m)"

lemma bt_wf_simps [simp]:
  "bt_wf []" "bt_wf ((k, v) # m) \<longleftrightarrow> (\<forall>k' \<in> fst ` set m. k < k') \<and> bt_wf m"
  by (auto simp: bt_wf_def)

lemma fst_set_bt_insert [simp]: "fst ` set (bt_insert k v m) = insert k (fst ` set m)"
  by (induction k v m rule: bt_insert.induct) auto

lemma bt_wf_insert [simp, intro]: "bt_wf m \<Longrightarrow> bt_wf (bt_insert k v m)"
  by (induction k v m rule: bt_insert.induct) (auto simp: not_less)

lemma map_of_bt_insert [simp]: "map_of (bt_insert k v m) = (map_of m)(k \<mapsto> v)"
  by (induction k v m rule: bt_insert.induct) (auto simp: fun_eq_iff)

lemma bt_wf_or_insert [simp, intro]: "bt_wf m \<Longrightarrow> bt_wf (bt_or_insert k v m)"
  by (simp add: bt_or_insert_def split: option.split)

lemma map_of_bt_or_insert:
  "map_of (bt_or_insert k v m) x = (if x = k \<and> map_of m k = None then Some v else map_of m x)"
  by (auto simp: bt_or_insert_def split: option.split)

lemma bt_wf_distinct: "bt_wf m \<Longrightarrow> distinct (map fst m)"
  by (simp add: bt_wf_def strict_sorted_iff)

lemma map_of_eq_set: "bt_wf m \<Longrightarrow> map_of m k = Some v \<longleftrightarrow> (k, v) \<in> set m"
  by (meson bt_wf_distinct map_of_eq_Some_iff)

end
