(* ===== verification/RustStr.thy ===== *)
theory RustStr
  imports Prelude
begin

text \<open>
  The operations of \<^verbatim>\<open>str\<close> and \<^verbatim>\<open>String\<close> that the source calls. A value of type
  \<open>string\<close> is the sequence of UTF-8 bytes of a Rust string, so lengths, offsets and slices
  are byte offsets as in Rust. The patterns the source searches for are ASCII, so a byte-wise
  match is a character match. White space is trimmed in its UTF-8 encoding.
\<close>

section \<open>Searching\<close>

text \<open>\<^verbatim>\<open>s.find(pat)\<close>: the byte offset of the first occurrence.\<close>

fun str_find :: "string \<Rightarrow> string \<Rightarrow> nat option" where
  "str_find pat [] = (if pat = [] then Some 0 else None)"
| "str_find pat (c # cs) =
     (if prefix pat (c # cs) then Some 0 else map_option Suc (str_find pat cs))"

definition str_contains :: "string \<Rightarrow> string \<Rightarrow> bool" where
  "str_contains s pat \<longleftrightarrow> str_find pat s \<noteq> None"

lemma str_find_Some:
  "str_find pat s = Some i \<Longrightarrow>
     i + length pat \<le> length s \<and> s = take i s @ pat @ drop (i + length pat) s"
proof (induction s arbitrary: i)
  case Nil
  then show ?case by (auto split: if_splits)
next
  case (Cons c cs)
  show ?case
  proof (cases "prefix pat (c # cs)")
    case True
    then obtain zs where "c # cs = pat @ zs" by (auto simp: prefix_def)
    moreover have "i = 0" using Cons.prems True by simp
    ultimately show ?thesis by simp
  next
    case False
    with Cons.prems obtain j where "str_find pat cs = Some j" "i = Suc j"
      by auto
    with Cons.IH show ?thesis by simp
  qed
qed

lemma str_find_shrink:
  "str_find m s = Some i \<Longrightarrow> m \<noteq> [] \<Longrightarrow> length s - (i + length m) < length s"
  by (drule str_find_Some) (cases m; auto)

lemma str_find_prefix: "prefix pat s \<Longrightarrow> str_find pat s = Some 0"
  by (cases s) auto

lemma str_find_first:
  "str_find pat s = Some i \<Longrightarrow> j < i \<Longrightarrow> \<not> prefix pat (drop j s)"
proof (induction s arbitrary: i j)
  case Nil
  then show ?case by (auto split: if_splits)
next
  case (Cons c cs)
  then show ?case
    by (cases j) (auto split: if_splits)
qed

lemma str_find_None: "str_find pat s = None \<longleftrightarrow> \<not> sublist pat s"
proof (induction s)
  case Nil
  then show ?case by simp
next
  case (Cons c cs)
  then show ?case by (simp add: sublist_Cons_right)
qed

lemma str_contains_iff: "str_contains s pat \<longleftrightarrow> sublist pat s"
  by (simp add: str_contains_def str_find_None)

lemma str_contains_code [code]: "str_contains s pat = (case str_find pat s of None \<Rightarrow> False | Some _ \<Rightarrow> True)"
  by (simp add: str_contains_def split: option.split)

text \<open>The offset is determined: an occurrence with none before it.\<close>

lemma str_findI:
  assumes "prefix pat (drop i s)" "i \<le> length s" "\<And>j. j < i \<Longrightarrow> \<not> prefix pat (drop j s)"
  shows "str_find pat s = Some i"
  using assms
proof (induction s arbitrary: i)
  case Nil
  then show ?case by simp
next
  case (Cons c cs)
  show ?case
  proof (cases i)
    case 0
    with Cons.prems show ?thesis by simp
  next
    case (Suc k)
    have "\<not> prefix pat (c # cs)" using Cons.prems(3) [of 0] Suc by simp
    moreover have "str_find pat cs = Some k"
    proof (rule Cons.IH)
      show "prefix pat (drop k cs)" "k \<le> length cs" using Cons.prems Suc by auto
      show "\<not> prefix pat (drop j cs)" if "j < k" for j
        using Cons.prems(3) [of "Suc j"] that Suc by simp
    qed
    ultimately show ?thesis using Suc by simp
  qed
qed

lemma str_find_append:
  "str_find pat s = Some i \<Longrightarrow> str_find pat (s @ t) = Some i"
proof (induction s arbitrary: i)
  case Nil
  then show ?case by (cases t) (auto split: if_splits)
next
  case (Cons c cs)
  show ?case
  proof (cases "prefix pat (c # cs)")
    case True
    then have "prefix pat ((c # cs) @ t)" by (rule prefix_prefix)
    with True Cons.prems show ?thesis by simp
  next
    case False
    with Cons.prems obtain j where j: "str_find pat cs = Some j" "i = Suc j" by auto
    have "\<not> prefix pat (c # cs @ t)"
    proof
      assume "prefix pat (c # cs @ t)"
      moreover have "length pat \<le> length (c # cs)"
        using str_find_Some [OF Cons.prems] by linarith
      ultimately have "prefix pat (c # cs)"
        by (metis append_Cons prefix_length_prefix prefix_prefix prefix_order.refl)
      with False show False ..
    qed
    with Cons.IH [OF j(1)] j(2) show ?thesis by simp
  qed
qed

text \<open>A marker whose text cannot overlap what stands before it is found where it stands.\<close>

lemma str_find_skip:
  assumes "\<not> sublist pat (u @ butlast pat)"
  shows "str_find pat (u @ pat @ t) = Some (length u)"
proof (rule str_findI)
  show "prefix pat (drop (length u) (u @ pat @ t))" by simp
  show "length u \<le> length (u @ pat @ t)" by simp
  fix j assume j: "j < length u"
  show "\<not> prefix pat (drop j (u @ pat @ t))"
  proof
    assume "prefix pat (drop j (u @ pat @ t))"
    then have p: "prefix pat (drop j u @ pat @ t)" using j by simp
    have pne: "pat \<noteq> []" using assms by auto
    have "prefix (drop j u @ butlast pat) (drop j u @ pat @ t)"
      by (metis append.assoc append_butlast_last_id pne prefixI same_prefix_prefix)
    moreover have "length pat \<le> length (drop j u @ butlast pat)"
      using j pne by simp
    ultimately have "prefix pat (drop j u @ butlast pat)"
      using p prefix_length_prefix by blast
    then have "sublist pat (u @ butlast pat)"
      by (metis append_assoc append_take_drop_id prefix_def sublist_appendI)
    with assms show False ..
  qed
qed

section \<open>Prefixes and suffixes\<close>

definition strip_prefix :: "string \<Rightarrow> string \<Rightarrow> string option" where
  "strip_prefix p s = (if prefix p s then Some (drop (length p) s) else None)"

definition strip_suffix :: "string \<Rightarrow> string \<Rightarrow> string option" where
  "strip_suffix p s = (if suffix p s then Some (take (length s - length p) s) else None)"

lemma strip_prefix_append [simp]: "strip_prefix p (p @ s) = Some s"
  by (simp add: strip_prefix_def)

lemma strip_prefix_Some: "strip_prefix p s = Some t \<longleftrightarrow> s = p @ t"
  by (auto simp: strip_prefix_def prefix_def)

lemma strip_suffix_append [simp]: "strip_suffix p (s @ p) = Some s"
  by (simp add: strip_suffix_def suffix_def)

lemma strip_suffix_Some: "strip_suffix p s = Some t \<longleftrightarrow> s = t @ p"
  by (auto simp: strip_suffix_def suffix_def)

section \<open>Removing and counting occurrences\<close>

text \<open>\<^verbatim>\<open>s.replace(m, "")\<close>: every non-overlapping occurrence, from the left.\<close>

function str_remove :: "string \<Rightarrow> string \<Rightarrow> string" where
  "str_remove m s =
     (if m = [] then s
      else case str_find m s of
             None \<Rightarrow> s
           | Some i \<Rightarrow> take i s @ str_remove m (drop (i + length m) s))"
  by pat_completeness auto
termination
  by (relation "measure (\<lambda>(m, s). length s)") (auto simp: str_find_shrink)

declare str_remove.simps [simp del]

text \<open>\<^verbatim>\<open>s.matches(m).count()\<close> for a non-empty needle.\<close>

function count_occurrences :: "string \<Rightarrow> string \<Rightarrow> nat" where
  "count_occurrences s m =
     (if m = [] then 0
      else case str_find m s of
             None \<Rightarrow> 0
           | Some i \<Rightarrow> Suc (count_occurrences (drop (i + length m) s) m))"
  by pat_completeness auto
termination
  by (relation "measure (\<lambda>(s, m). length s)") (auto simp: str_find_shrink)

declare count_occurrences.simps [simp del]

lemma str_remove_absent [simp]: "\<not> sublist m s \<Longrightarrow> str_remove m s = s"
  by (subst str_remove.simps) (simp add: str_find_None [symmetric])

lemma length_str_remove: "length (str_remove m s) \<le> length s"
proof (induction m s rule: str_remove.induct)
  case (1 m s)
  show ?case
  proof (cases "m = [] \<or> str_find m s = None")
    case True
    then show ?thesis by (subst str_remove.simps) auto
  next
    case False
    then obtain i where i: "str_find m s = Some i" "m \<noteq> []" by auto
    with "1.IH" have "length (str_remove m (drop (i + length m) s)) \<le> length (drop (i + length m) s)"
      by blast
    with i str_find_Some [OF i(1)] show ?thesis by (subst str_remove.simps) auto
  qed
qed

lemma set_str_remove: "set (str_remove m s) \<subseteq> set s"
proof (induction m s rule: str_remove.induct)
  case (1 m s)
  show ?case
  proof (cases "m = [] \<or> str_find m s = None")
    case True
    then show ?thesis by (subst str_remove.simps) auto
  next
    case False
    then obtain i where i: "str_find m s = Some i" "m \<noteq> []" by auto
    with "1.IH" have "set (str_remove m (drop (i + length m) s)) \<subseteq> set (drop (i + length m) s)"
      by blast
    with i show ?thesis
      by (subst str_remove.simps) (auto dest: in_set_takeD in_set_dropD)
  qed
qed

text \<open>Text that arrives later never takes an occurrence away.\<close>

lemma count_occurrences_append: "count_occurrences s m \<le> count_occurrences (s @ t) m"
proof (induction s m rule: count_occurrences.induct)
  case (1 s m)
  show ?case
  proof (cases "m = [] \<or> str_find m s = None")
    case True
    then show ?thesis by (subst count_occurrences.simps) auto
  next
    case False
    then obtain i where i: "m \<noteq> []" "str_find m s = Some i" by auto
    then have le: "i + length m \<le> length s" by (auto dest: str_find_Some)
    have "count_occurrences (drop (i + length m) s) m
            \<le> count_occurrences (drop (i + length m) s @ t) m"
      using "1.IH" i by blast
    then show ?thesis
      using i le str_find_append [OF i(2), of t]
      by (simp add: count_occurrences.simps [of s] count_occurrences.simps [of "s @ t"])
  qed
qed

section \<open>White space\<close>

text \<open>
  The UTF-8 encodings of the characters with the Unicode property White_Space, on which
  \<^verbatim>\<open>char::is_whitespace\<close> answers true.
\<close>

definition ws_units :: "string list" where
  "ws_units =
     [[CHR 0x09], [CHR 0x0A], [CHR 0x0B], [CHR 0x0C], [CHR 0x0D], [CHR 0x20],
      [CHR 0xC2, CHR 0x85], [CHR 0xC2, CHR 0xA0], [CHR 0xE1, CHR 0x9A, CHR 0x80],
      [CHR 0xE2, CHR 0x80, CHR 0x80],
      [CHR 0xE2, CHR 0x80, CHR 0x81],
      [CHR 0xE2, CHR 0x80, CHR 0x82],
      [CHR 0xE2, CHR 0x80, CHR 0x83],
      [CHR 0xE2, CHR 0x80, CHR 0x84],
      [CHR 0xE2, CHR 0x80, CHR 0x85],
      [CHR 0xE2, CHR 0x80, CHR 0x86],
      [CHR 0xE2, CHR 0x80, CHR 0x87],
      [CHR 0xE2, CHR 0x80, CHR 0x88],
      [CHR 0xE2, CHR 0x80, CHR 0x89],
      [CHR 0xE2, CHR 0x80, CHR 0x8A],
      [CHR 0xE2, CHR 0x80, CHR 0xA8],
      [CHR 0xE2, CHR 0x80, CHR 0xA9],
      [CHR 0xE2, CHR 0x80, CHR 0xAF],
      [CHR 0xE2, CHR 0x81, CHR 0x9F], [CHR 0xE3, CHR 0x80, CHR 0x80]]"

function strip_units :: "string list \<Rightarrow> string \<Rightarrow> string" where
  "strip_units us s =
     (case find (\<lambda>u. u \<noteq> [] \<and> prefix u s) us of
        None \<Rightarrow> s
      | Some u \<Rightarrow> strip_units us (drop (length u) s))"
  by pat_completeness auto
termination
  by (relation "measure (\<lambda>(us, s). length s)") (auto simp: find_Some_iff prefix_def)

declare strip_units.simps [simp del]

definition trim_start :: "string \<Rightarrow> string" where
  "trim_start s = strip_units ws_units s"

definition trim_end :: "string \<Rightarrow> string" where
  "trim_end s = rev (strip_units (map rev ws_units) (rev s))"

definition str_trim :: "string \<Rightarrow> string" where
  "str_trim s = trim_end (trim_start s)"

lemma strip_units_suffix: "suffix (strip_units us s) s"
proof (induction us s rule: strip_units.induct)
  case (1 us s)
  show ?case
  proof (cases "find (\<lambda>u. u \<noteq> [] \<and> prefix u s) us")
    case None
    then show ?thesis by (subst strip_units.simps) simp
  next
    case (Some u)
    with "1.IH" have "suffix (strip_units us (drop (length u) s)) (drop (length u) s)" .
    then have "suffix (strip_units us (drop (length u) s)) s"
      using suffix_drop suffix_order.trans by blast
    with Some show ?thesis by (subst strip_units.simps) simp
  qed
qed

lemma strip_units_no_unit: "u \<in> set us \<Longrightarrow> u \<noteq> [] \<Longrightarrow> \<not> prefix u (strip_units us s)"
proof (induction us s rule: strip_units.induct)
  case (1 us s)
  show ?case
  proof (cases "find (\<lambda>u. u \<noteq> [] \<and> prefix u s) us")
    case None
    then have "strip_units us s = s" by (subst strip_units.simps) simp
    with None "1.prems" show ?thesis by (auto simp: find_None_iff)
  next
    case (Some v)
    with "1" show ?thesis by (subst strip_units.simps) simp
  qed
qed

lemma strip_units_idem [simp]: "strip_units us (strip_units us s) = strip_units us s"
  by (subst strip_units.simps)
     (auto simp: find_None_iff strip_units_no_unit split: option.split dest!: find_Some_iff [THEN iffD1] nth_mem)

lemma trim_end_prefix: "prefix (trim_end s) s"
  using strip_units_suffix [of "map rev ws_units" "rev s"]
  by (simp add: trim_end_def suffix_to_prefix)

lemma trim_end_idem [simp]: "trim_end (trim_end s) = trim_end s"
  by (simp add: trim_end_def)

lemma trim_start_suffix: "suffix (trim_start s) s"
  by (simp add: trim_start_def strip_units_suffix)

lemma str_trim_sublist: "sublist (str_trim s) s"
  unfolding str_trim_def
  by (meson prefix_imp_sublist suffix_imp_sublist sublist_order.order_trans trim_end_prefix trim_start_suffix)

section \<open>Case folding\<close>

definition to_ascii_lowercase :: "string \<Rightarrow> string" where
  "to_ascii_lowercase =
     map (\<lambda>c. let n = of_char c :: nat in if 65 \<le> n \<and> n \<le> 90 then char_of (n + 32) else c)"

lemma length_to_ascii_lowercase [simp]: "length (to_ascii_lowercase s) = length s"
  by (simp add: to_ascii_lowercase_def)

lemma to_ascii_lowercase_idem [simp]:
  "to_ascii_lowercase (to_ascii_lowercase s) = to_ascii_lowercase s"
  by (simp add: to_ascii_lowercase_def Let_def of_char_of)

definition eq_ignore_ascii_case :: "string \<Rightarrow> string \<Rightarrow> bool" where
  "eq_ignore_ascii_case a b \<longleftrightarrow> to_ascii_lowercase a = to_ascii_lowercase b"

end
