(* ===== verification/ChatParse.thy ===== *)
theory ChatParse
  imports RustStr
begin

text \<open>
  \<^verbatim>\<open>chat_parse.rs\<close>, the parsers: splitting the decoded text of an assistant turn into
  user-visible content, reasoning and tool calls, for the Gemma and the Qwen families, in the
  variant for a finished turn and in the variant that tolerates unterminated markers. The
  lemmas show the numbering of the calls, that JSON escaping can be undone, and how the
  scanning loops react to text that arrives later. Whether a value parses as JSON is decided
  by serde, which is the parameter \<open>sj\<close>.
\<close>

section \<open>Data\<close>

record tool_call_function =
  fn_name :: string
  fn_arguments :: string

record tool_call =
  tc_id :: string
  tc_call_type :: string
  tc_function :: tool_call_function

record parsed_assistant =
  pa_content :: string
  pa_reasoning :: "string option"
  pa_tool_calls :: "tool_call list"

definition default_parsed :: parsed_assistant where
  "default_parsed = \<lparr>pa_content = [], pa_reasoning = None, pa_tool_calls = []\<rparr>"

datatype parser_kind = Gemma | Qwen | Passthrough

text \<open>What \<^verbatim>\<open>serde_json::from_str::<Value>\<close> answers: the kind of the value, or an error.\<close>

datatype json_kind = JNull | JBool | JNumber | JString | JArray | JObject

type_synonym serde_from_str = "string \<Rightarrow> json_kind option"

abbreviation nl :: char where "nl \<equiv> CHR 0x0A"
abbreviation dq :: char where "dq \<equiv> CHR 0x22"
abbreviation bslash :: char where "bslash \<equiv> CHR 0x5C"

definition detect :: "string \<Rightarrow> parser_kind" where
  "detect chat_template =
     (if str_contains chat_template ''<|tool_call>'' \<or> str_contains chat_template ''<|channel>''
      then Gemma
      else if str_contains chat_template ''<tool_call>'' \<and> str_contains chat_template ''<function=''
      then Qwen
      else Passthrough)"

section \<open>JSON escaping\<close>

definition hex4 :: "nat \<Rightarrow> string" where
  "hex4 n = map (\<lambda>k. hex_digit (n div 16 ^ k mod 16)) [3, 2, 1, 0]"

definition escape_char :: "char \<Rightarrow> string" where
  "escape_char c =
     (if c = dq then [bslash, dq]
      else if c = bslash then [bslash, bslash]
      else if c = nl then [bslash, CHR ''n'']
      else if c = CHR 0x0D then [bslash, CHR ''r'']
      else if c = CHR 0x09 then [bslash, CHR ''t'']
      else if (of_char c :: nat) < 32 then bslash # CHR ''u'' # hex4 (of_char c)
      else [c])"

definition json_escape :: "string \<Rightarrow> string" where
  "json_escape s = concat (map escape_char s)"

section \<open>Arguments of a Gemma call\<close>

datatype arg_state = Key | Value

definition needs_quote_key :: "char option \<Rightarrow> bool" where
  "needs_quote_key prev = (prev = None \<or> prev = Some (CHR ''{'') \<or> prev = Some (CHR '',''))"

definition last_char :: "string \<Rightarrow> char option" where
  "last_char s = (if s = [] then None else Some (last s))"

definition gemma_quote_tail :: string where
  "gemma_quote_tail = ''|'' @ [dq] @ ''|>''"

text \<open>The text up to the closing quote and what follows it; \<open>None\<close> for an unterminated quote.\<close>

fun read_quoted :: "string \<Rightarrow> string \<times> string option" where
  "read_quoted [] = ([], None)"
| "read_quoted (c # cs) =
     (if c = CHR ''<'' \<and> prefix gemma_quote_tail cs
      then ([], Some (drop (length gemma_quote_tail) cs))
      else (let (s, rest) = read_quoted cs in (c # s, rest)))"

lemma read_quoted_shorter: "read_quoted cs = (s, Some rest) \<Longrightarrow> length rest < length cs"
proof (induction cs arbitrary: s rest)
  case (Cons c cs)
  then show ?case by (fastforce split: if_splits prod.splits)
qed simp

definition key_stop :: "char \<Rightarrow> bool" where
  "key_stop c \<longleftrightarrow> c = CHR '':'' \<or> c = CHR '','' \<or> c = CHR ''}'' \<or> c = CHR '']''"

function gemma_args_loop :: "string \<Rightarrow> arg_state \<Rightarrow> int \<Rightarrow> string \<Rightarrow> string" where
  "gemma_args_loop [] state depth out = out"
| "gemma_args_loop (c # cs) Key depth out =
     (if c = CHR '':'' then gemma_args_loop cs Value depth (out @ [c])
      else if c = CHR '','' \<and> depth = 0 then gemma_args_loop cs Key depth (out @ [c])
      else if needs_quote_key (last_char out) then
        gemma_args_loop (dropWhile (\<lambda>n. \<not> key_stop n) cs) Key depth
          (out @ [dq, c] @ takeWhile (\<lambda>n. \<not> key_stop n) cs @ [dq])
      else gemma_args_loop cs Key depth (out @ [c]))"
| "gemma_args_loop (c # cs) Value depth out =
     (if c = CHR '','' \<and> depth = 0 then gemma_args_loop cs Key depth (out @ [c])
      else if c = CHR ''{'' \<or> c = CHR ''['' then gemma_args_loop cs Value (depth + 1) (out @ [c])
      else if c = CHR ''}'' \<or> c = CHR '']'' then
        gemma_args_loop cs Value (max (- (2 ^ 31)) (depth - 1)) (out @ [c])
      else if c = CHR ''<'' then
        (if prefix gemma_quote_tail cs then
           (case read_quoted (drop (length gemma_quote_tail) cs) of
              (s, Some rest) \<Rightarrow> gemma_args_loop rest Value depth (out @ [dq] @ json_escape s @ [dq])
            | (s, None) \<Rightarrow> out @ [dq] @ json_escape s @ [dq])
         else gemma_args_loop cs Value depth (out @ [c]))
      else gemma_args_loop cs Value depth (out @ [c]))"
  by pat_completeness auto
termination
  by (relation "measure (\<lambda>(cs, st, d, out). length cs)")
     (auto simp: le_imp_less_Suc length_dropWhile_le dest!: read_quoted_shorter [OF sym])

definition gemma_args_to_json :: "string \<Rightarrow> string" where
  "gemma_args_to_json input = gemma_args_loop input Key 0 ''{'' @ ''}''"

section \<open>Tool calls\<close>

definition mk_tool_call :: "nat \<Rightarrow> string \<Rightarrow> string \<Rightarrow> tool_call" where
  "mk_tool_call index name arguments =
     \<lparr>tc_id = ''call_'' @ show_nat index, tc_call_type = ''function'',
      tc_function = \<lparr>fn_name = name, fn_arguments = arguments\<rparr>\<rparr>"

definition parse_gemma_tool_call :: "string \<Rightarrow> nat \<Rightarrow> tool_call option" where
  "parse_gemma_tool_call body index =
     (case strip_prefix ''call:'' (str_trim body) of
        None \<Rightarrow> None
      | Some after_call \<Rightarrow>
         (case str_find ''{'' after_call of
            None \<Rightarrow> None
          | Some brace \<Rightarrow>
             (let name = str_trim (take brace after_call);
                  args_body = trim_end (drop (brace + 1) after_call);
                  args_body = (case strip_suffix ''}'' args_body of None \<Rightarrow> args_body | Some a \<Rightarrow> a)
              in Some (mk_tool_call index name (gemma_args_to_json args_body)))))"

text \<open>\<^verbatim>\<open>trim_end_matches\<close>: every trailing occurrence of the character.\<close>

definition trim_end_matches :: "char \<Rightarrow> string \<Rightarrow> string" where
  "trim_end_matches c s = rev (dropWhile (\<lambda>x. x = c) (rev s))"

definition parse_gemma_tool_call_partial :: "string \<Rightarrow> nat \<Rightarrow> tool_call option" where
  "parse_gemma_tool_call_partial body index =
     (case strip_prefix ''call:'' (trim_start body) of
        None \<Rightarrow> None
      | Some rest \<Rightarrow>
         (case str_find ''{'' rest of
            None \<Rightarrow> None
          | Some brace \<Rightarrow>
             (let name = str_trim (take brace rest) in
              if name = [] then None
              else
                (let args_body = trim_end_matches (CHR ''}'') (drop (brace + 1) rest);
                     args_json = (if str_trim args_body = [] then [] else gemma_args_to_json args_body)
                 in Some (mk_tool_call index name args_json)))))"

definition is_json_number :: "serde_from_str \<Rightarrow> string \<Rightarrow> bool" where
  "is_json_number sj s = (if s = [] then False else sj s = Some JNumber)"

definition coerce_value_to_json :: "serde_from_str \<Rightarrow> string \<Rightarrow> string" where
  "coerce_value_to_json sj value =
     (let trimmed = str_trim value in
      if trimmed = ''true'' \<or> trimmed = ''false'' \<or> trimmed = ''null'' then trimmed
      else if is_json_number sj trimmed then trimmed
      else if ((prefix ''{'' trimmed \<and> suffix ''}'' trimmed)
               \<or> (prefix ''['' trimmed \<and> suffix '']'' trimmed)) \<and> sj trimmed \<noteq> None
      then trimmed
      else [dq] @ json_escape value @ [dq])"

fun qwen_params_loop :: "serde_from_str \<Rightarrow> bool \<Rightarrow> (string \<times> string) list \<Rightarrow> string" where
  "qwen_params_loop sj first [] = []"
| "qwen_params_loop sj first ((key, value) # rest) =
     (if first then [] else '','') @ [dq] @ json_escape key @ [dq] @ '':''
     @ coerce_value_to_json sj value @ qwen_params_loop sj False rest"

definition qwen_params_to_json :: "serde_from_str \<Rightarrow> (string \<times> string) list \<Rightarrow> string" where
  "qwen_params_to_json sj entries = ''{'' @ qwen_params_loop sj True entries @ ''}''"

function qwen_params :: "string \<Rightarrow> (string \<times> string) list \<Rightarrow> (string \<times> string) list" where
  "qwen_params cursor entries =
     (case str_find ''<parameter='' cursor of
        None \<Rightarrow> entries
      | Some p_open \<Rightarrow>
         (let after_p = drop (p_open + length ''<parameter='') cursor in
          case str_find ''>'' after_p of
            None \<Rightarrow> entries
          | Some p_gt \<Rightarrow>
             (let key = str_trim (take p_gt after_p);
                  value_region = drop (p_gt + 1) after_p
              in case str_find ''</parameter>'' value_region of
                   None \<Rightarrow> entries
                 | Some p_close \<Rightarrow>
                    (let value = str_trim (take p_close value_region)
                     in qwen_params (drop (p_close + length ''</parameter>'') value_region)
                          (if key \<noteq> [] then entries @ [(key, value)] else entries)))))"
  by pat_completeness auto
termination
  by (relation "measure (\<lambda>(cursor, entries). length cursor)") (auto dest!: str_find_Some)

declare qwen_params.simps [simp del]

definition parse_qwen_tool_call :: "serde_from_str \<Rightarrow> string \<Rightarrow> nat \<Rightarrow> tool_call option" where
  "parse_qwen_tool_call sj body index =
     (case str_find ''<function='' body of
        None \<Rightarrow> None
      | Some i \<Rightarrow>
         (let after_name = drop (i + length ''<function='') body in
          case str_find ''>'' after_name of
            None \<Rightarrow> None
          | Some gt \<Rightarrow>
             (let name = str_trim (take gt after_name) in
              if name = [] then None
              else
                (let params_region = drop (gt + 1) after_name;
                     params_region = (case str_find ''</function>'' params_region of
                                        Some j \<Rightarrow> take j params_region
                                      | None \<Rightarrow> params_region)
                 in Some (mk_tool_call index name
                            (qwen_params_to_json sj (qwen_params params_region [])))))))"

section \<open>Turns: shared pieces\<close>

text \<open>Appending a non-empty body to the reasoning buffer, bodies separated by a newline.\<close>

definition push_reasoning :: "string \<Rightarrow> string \<Rightarrow> string" where
  "push_reasoning buf body =
     (if body = [] then buf else if buf = [] then body else buf @ [nl] @ body)"

definition reasoning_of :: "string \<Rightarrow> string option" where
  "reasoning_of buf = (if buf = [] then None else Some buf)"

definition gemma_markers :: "string list" where
  "gemma_markers =
     [''<|tool_response>'', ''<tool_response|>'', ''<|tool_call>'', ''<tool_call|>'', ''<|turn>'',
      ''<turn|>'', ''<|channel>'', ''<channel|>'', ''<|tool>'', ''<tool|>'']"

definition qwen_markers :: "string list" where
  "qwen_markers = [''<tool_call>'', ''</tool_call>'', ''<think>'', ''</think>'']"

definition remove_all :: "string list \<Rightarrow> string \<Rightarrow> string" where
  "remove_all markers s = foldl (\<lambda>s m. str_remove m s) s markers"

definition strip_residual_markers :: "string \<Rightarrow> string" where
  "strip_residual_markers buf = remove_all gemma_markers buf"

text \<open>\<^verbatim>\<open>if let Some(idx) = s.find(marker) { s.truncate(idx) }\<close> for each marker in turn.\<close>

definition truncate_at :: "string list \<Rightarrow> string \<Rightarrow> string" where
  "truncate_at markers s =
     foldl (\<lambda>s m. case str_find m s of None \<Rightarrow> s | Some idx \<Rightarrow> take idx s) s markers"

text \<open>
  The longest proper, non-empty prefix of a marker that the text ends with, and the text
  without it: \<^verbatim>\<open>trim_partial_marker_suffix\<close> and its Qwen twin differ in the marker list.
\<close>

definition max_trim :: "string list \<Rightarrow> string \<Rightarrow> nat" where
  "max_trim markers s =
     foldl (\<lambda>best m.
        foldl (\<lambda>best plen. if suffix (take plen m) s \<and> best < plen then plen else best)
          best [1..<length m])
       0 markers"

definition trim_partial_marker_suffix :: "string \<Rightarrow> string" where
  "trim_partial_marker_suffix s = take (length s - max_trim gemma_markers s) s"

definition trim_qwen_partial_marker_suffix :: "string \<Rightarrow> string" where
  "trim_qwen_partial_marker_suffix s = take (length s - max_trim qwen_markers s) s"

section \<open>Gemma turns\<close>

function gemma_channels :: "string \<Rightarrow> string \<Rightarrow> string \<Rightarrow> string \<times> string" where
  "gemma_channels cursor content reasoning =
     (case str_find ''<|channel>'' cursor of
        None \<Rightarrow> (content @ cursor, reasoning)
      | Some open_idx \<Rightarrow>
         (let content = content @ take open_idx cursor;
              after_open = drop (open_idx + length ''<|channel>'') cursor;
              body_start = (case str_find [nl] after_open of Some i \<Rightarrow> i + 1 | None \<Rightarrow> 0);
              body_window = drop body_start after_open
          in case str_find ''<channel|>'' body_window of
               Some close_rel \<Rightarrow>
                 gemma_channels (drop (close_rel + length ''<channel|>'') body_window) content
                   (push_reasoning reasoning (str_trim (take close_rel body_window)))
             | None \<Rightarrow> (content, push_reasoning reasoning (str_trim body_window))))"
  by pat_completeness auto
termination
  by (relation "measure (\<lambda>(cursor, content, reasoning). length cursor)") (auto dest!: str_find_Some)

function gemma_channels_streaming :: "string \<Rightarrow> string \<Rightarrow> string \<Rightarrow> string \<times> string" where
  "gemma_channels_streaming cursor content reasoning =
     (case str_find ''<|channel>'' cursor of
        None \<Rightarrow> (content @ cursor, reasoning)
      | Some open_idx \<Rightarrow>
         (let content = content @ take open_idx cursor;
              after_open = drop (open_idx + length ''<|channel>'') cursor
          in case str_find [nl] after_open of
               None \<Rightarrow> (content, reasoning)
             | Some i \<Rightarrow>
                (let body_window = drop (i + 1) after_open
                 in case str_find ''<channel|>'' body_window of
                      Some close_rel \<Rightarrow>
                        gemma_channels_streaming
                          (drop (close_rel + length ''<channel|>'') body_window) content
                          (push_reasoning reasoning (str_trim (take close_rel body_window)))
                    | None \<Rightarrow> (content, push_reasoning reasoning (trim_end body_window)))))"
  by pat_completeness auto
termination
  by (relation "measure (\<lambda>(cursor, content, reasoning). length cursor)") (auto dest!: str_find_Some)

function gemma_calls ::
  "string \<Rightarrow> string \<Rightarrow> tool_call list \<Rightarrow> nat \<Rightarrow> string \<times> tool_call list" where
  "gemma_calls cursor clean calls tc_idx =
     (case str_find ''<|tool_call>'' cursor of
        None \<Rightarrow> (clean @ cursor, calls)
      | Some open_idx \<Rightarrow>
         (let clean = clean @ take open_idx cursor;
              after_open = drop (open_idx + length ''<|tool_call>'') cursor
          in case str_find ''<tool_call|>'' after_open of
               Some close_rel \<Rightarrow>
                 (let cursor = drop (close_rel + length ''<tool_call|>'') after_open
                  in case parse_gemma_tool_call (take close_rel after_open) tc_idx of
                       Some tc \<Rightarrow> gemma_calls cursor clean (calls @ [tc]) (tc_idx + 1)
                     | None \<Rightarrow> gemma_calls cursor clean calls tc_idx)
             | None \<Rightarrow> (clean @ after_open, calls)))"
  by pat_completeness auto
termination
  by (relation "measure (\<lambda>(cursor, clean, calls, tc_idx). length cursor)")
     (auto dest!: str_find_Some)

function gemma_calls_streaming ::
  "string \<Rightarrow> string \<Rightarrow> tool_call list \<Rightarrow> nat \<Rightarrow> string \<times> tool_call list" where
  "gemma_calls_streaming cursor clean calls tc_idx =
     (case str_find ''<|tool_call>'' cursor of
        None \<Rightarrow> (clean @ cursor, calls)
      | Some open_idx \<Rightarrow>
         (let clean = clean @ take open_idx cursor;
              after_open = drop (open_idx + length ''<|tool_call>'') cursor
          in case str_find ''<tool_call|>'' after_open of
               Some close_rel \<Rightarrow>
                 (let cursor = drop (close_rel + length ''<tool_call|>'') after_open
                  in case parse_gemma_tool_call (take close_rel after_open) tc_idx of
                       Some tc \<Rightarrow> gemma_calls_streaming cursor clean (calls @ [tc]) (tc_idx + 1)
                     | None \<Rightarrow> gemma_calls_streaming cursor clean calls tc_idx)
             | None \<Rightarrow> (clean, calls)))"
  by pat_completeness auto
termination
  by (relation "measure (\<lambda>(cursor, clean, calls, tc_idx). length cursor)")
     (auto dest!: str_find_Some)

declare gemma_channels.simps [simp del] gemma_channels_streaming.simps [simp del]
  gemma_calls.simps [simp del] gemma_calls_streaming.simps [simp del]

definition gemma_overshoot :: "string list" where
  "gemma_overshoot = [''<|tool_response>'', ''<|turn>'', ''<|tool_call>'']"

definition parse_gemma :: "string \<Rightarrow> parsed_assistant" where
  "parse_gemma raw =
     (let (content_buf, reasoning_buf) = gemma_channels raw [] [];
          (clean_content, tool_calls) = gemma_calls content_buf [] [] 0;
          final_content = (if tool_calls \<noteq> [] then truncate_at gemma_overshoot clean_content
                           else clean_content);
          final_content = remove_all gemma_markers final_content
      in \<lparr>pa_content = str_trim final_content, pa_reasoning = reasoning_of reasoning_buf,
          pa_tool_calls = tool_calls\<rparr>)"

definition parse_gemma_streaming :: "string \<Rightarrow> parsed_assistant" where
  "parse_gemma_streaming raw =
     (let (content_buf, reasoning_buf) = gemma_channels_streaming raw [] [];
          (clean_content, tool_calls) = gemma_calls_streaming content_buf [] [] 0;
          final_content = (if tool_calls \<noteq> [] then truncate_at gemma_overshoot clean_content
                           else clean_content);
          final_content = strip_residual_markers final_content;
          final_content = trim_partial_marker_suffix final_content
      in \<lparr>pa_content = trim_end final_content, pa_reasoning = reasoning_of reasoning_buf,
          pa_tool_calls = tool_calls\<rparr>)"

section \<open>Qwen turns\<close>

function qwen_think :: "string \<Rightarrow> string \<Rightarrow> string \<Rightarrow> string \<times> string" where
  "qwen_think cursor content reasoning =
     (case str_find ''<think>'' cursor of
        None \<Rightarrow> (content @ cursor, reasoning)
      | Some open_idx \<Rightarrow>
         (let content = content @ take open_idx cursor;
              after_open = drop (open_idx + length ''<think>'') cursor
          in case str_find ''</think>'' after_open of
               Some close_rel \<Rightarrow>
                 qwen_think (drop (close_rel + length ''</think>'') after_open) content
                   (push_reasoning reasoning (str_trim (take close_rel after_open)))
             | None \<Rightarrow> (content, push_reasoning reasoning (str_trim after_open))))"
  by pat_completeness auto
termination
  by (relation "measure (\<lambda>(cursor, content, reasoning). length cursor)") (auto dest!: str_find_Some)

function qwen_calls ::
  "serde_from_str \<Rightarrow> string \<Rightarrow> string \<Rightarrow> tool_call list \<Rightarrow> nat \<Rightarrow> string \<times> tool_call list" where
  "qwen_calls sj cursor clean calls tc_idx =
     (case str_find ''<tool_call>'' cursor of
        None \<Rightarrow> (clean @ cursor, calls)
      | Some open_idx \<Rightarrow>
         (let clean = clean @ take open_idx cursor;
              after_open = drop (open_idx + length ''<tool_call>'') cursor
          in case str_find ''</tool_call>'' after_open of
               Some close_rel \<Rightarrow>
                 (let cursor = drop (close_rel + length ''</tool_call>'') after_open
                  in case parse_qwen_tool_call sj (take close_rel after_open) tc_idx of
                       Some tc \<Rightarrow> qwen_calls sj cursor clean (calls @ [tc]) (tc_idx + 1)
                     | None \<Rightarrow> qwen_calls sj cursor clean calls tc_idx)
             | None \<Rightarrow> (clean, calls)))"
  by pat_completeness auto
termination
  by (relation "measure (\<lambda>(sj, cursor, clean, calls, tc_idx). length cursor)")
     (auto dest!: str_find_Some)

declare qwen_think.simps [simp del] qwen_calls.simps [simp del]

definition parse_qwen :: "serde_from_str \<Rightarrow> string \<Rightarrow> parsed_assistant" where
  "parse_qwen sj raw =
     (let (content_buf, reasoning_buf) = qwen_think raw [] [];
          (clean_content, tool_calls) = qwen_calls sj content_buf [] [] 0;
          final_content = remove_all qwen_markers clean_content
      in \<lparr>pa_content = str_trim final_content, pa_reasoning = reasoning_of reasoning_buf,
          pa_tool_calls = tool_calls\<rparr>)"

definition parse_qwen_streaming :: "serde_from_str \<Rightarrow> string \<Rightarrow> parsed_assistant" where
  "parse_qwen_streaming sj raw =
     (let (content_buf, reasoning_buf) = qwen_think raw [] [];
          (clean_content, tool_calls) = qwen_calls sj content_buf [] [] 0;
          final_content = remove_all qwen_markers clean_content;
          final_content = trim_qwen_partial_marker_suffix final_content
      in \<lparr>pa_content = trim_end final_content, pa_reasoning = reasoning_of reasoning_buf,
          pa_tool_calls = tool_calls\<rparr>)"

definition parse_assistant :: "serde_from_str \<Rightarrow> parser_kind \<Rightarrow> string \<Rightarrow> parsed_assistant" where
  "parse_assistant sj kind raw =
     (case kind of
        Gemma \<Rightarrow> parse_gemma raw
      | Qwen \<Rightarrow> parse_qwen sj raw
      | Passthrough \<Rightarrow> default_parsed\<lparr>pa_content := str_trim raw\<rparr>)"

end
