(* ===== verification/ChatScan.thy ===== *)
theory ChatScan
  imports ChatParse
begin

text \<open>
  How the marker-scanning loops of \<^verbatim>\<open>chat_parse.rs\<close> behave. \<open>blocks\<close> is the abstract
  view of a scan (the bodies of the complete blocks) and the loops are shown to compute it.
  Every marker ends in \<open>>\<close>, so text that arrives later can only extend the list of
  complete blocks: this is what makes re-parsing on every chunk produce stable tool calls.
\<close>

section \<open>Complete blocks and their numbering\<close>

function blocks :: "string \<Rightarrow> string \<Rightarrow> string \<Rightarrow> string list" where
  "blocks opn cls s =
     (case str_find opn s of
        None \<Rightarrow> []
      | Some i \<Rightarrow>
         (case str_find cls (drop (i + length opn) s) of
            None \<Rightarrow> []
          | Some j \<Rightarrow>
             (if opn = [] then []
              else take j (drop (i + length opn) s)
                   # blocks opn cls (drop (j + length cls) (drop (i + length opn) s)))))"
  by pat_completeness auto
termination
  by (relation "measure (\<lambda>(opn, cls, s). length s)") (auto dest!: str_find_shrink)

declare blocks.simps [simp del]

fun number_calls :: "(string \<Rightarrow> nat \<Rightarrow> tool_call option) \<Rightarrow> nat \<Rightarrow> string list \<Rightarrow> tool_call list" where
  "number_calls parse idx [] = []"
| "number_calls parse idx (b # bs) =
     (case parse b idx of
        None \<Rightarrow> number_calls parse idx bs
      | Some tc \<Rightarrow> tc # number_calls parse (idx + 1) bs)"

lemma number_calls_append:
  "number_calls parse idx (bs @ cs) =
     number_calls parse idx bs @ number_calls parse (idx + length (number_calls parse idx bs)) cs"
  by (induction bs arbitrary: idx) (auto split: option.splits)

lemma number_calls_prefix:
  "prefix bs cs \<Longrightarrow> prefix (number_calls parse idx bs) (number_calls parse idx cs)"
  by (auto simp: prefix_def number_calls_append)

lemma length_number_calls: "length (number_calls parse idx bs) \<le> length bs"
  by (induction bs arbitrary: idx) (auto split: option.splits intro: le_SucI)

text \<open>A call parser that stamps the index it is given numbers the calls consecutively.\<close>

definition stamps_index :: "(string \<Rightarrow> nat \<Rightarrow> tool_call option) \<Rightarrow> bool" where
  "stamps_index parse \<longleftrightarrow>
     (\<forall>b i tc. parse b i = Some tc \<longrightarrow>
        tc_id tc = ''call_'' @ show_nat i \<and> tc_call_type tc = ''function'')"

definition numbered_from :: "nat \<Rightarrow> tool_call list \<Rightarrow> bool" where
  "numbered_from idx tcs \<longleftrightarrow>
     (\<forall>j < length tcs. tc_id (tcs ! j) = ''call_'' @ show_nat (idx + j)
        \<and> tc_call_type (tcs ! j) = ''function'')"

lemma numbered_from_simps [simp]:
  "numbered_from idx []"
  "numbered_from idx (tc # tcs) \<longleftrightarrow>
     tc_id tc = ''call_'' @ show_nat idx \<and> tc_call_type tc = ''function''
     \<and> numbered_from (idx + 1) tcs"
  by (auto simp: numbered_from_def nth_Cons split: nat.splits)

lemma numbered_number_calls:
  "stamps_index parse \<Longrightarrow> numbered_from idx (number_calls parse idx bs)"
  by (induction bs arbitrary: idx) (auto simp: stamps_index_def split: option.splits)

lemma stamps_index_gemma: "stamps_index parse_gemma_tool_call"
  by (auto simp: stamps_index_def parse_gemma_tool_call_def mk_tool_call_def Let_def
      split: option.splits)

lemma stamps_index_qwen: "stamps_index (parse_qwen_tool_call sj)"
  by (auto simp: stamps_index_def parse_qwen_tool_call_def mk_tool_call_def Let_def
      split: option.splits if_splits)

section \<open>The loops compute the complete blocks\<close>

lemma gemma_calls_blocks:
  "snd (gemma_calls cursor clean calls idx)
     = calls @ number_calls parse_gemma_tool_call idx (blocks ''<|tool_call>'' ''<tool_call|>'' cursor)"
proof (induction cursor clean calls idx rule: gemma_calls.induct)
  case (1 cursor clean calls idx)
  note unfold = gemma_calls.simps [of cursor clean calls idx] blocks.simps [of _ _ cursor]
  show ?case
  proof (cases "str_find ''<|tool_call>'' cursor")
    case None
    then show ?thesis by (simp add: unfold)
  next
    case (Some i)
    note i = this
    let ?after = "drop (i + length ''<|tool_call>'') cursor"
    show ?thesis
    proof (cases "str_find ''<tool_call|>'' ?after")
      case None
      with i show ?thesis by (simp add: unfold Let_def del: list.size)
    next
      case (Some j)
      show ?thesis
        using "1.IH" [OF i refl refl Some refl] i Some
        by (cases "parse_gemma_tool_call (take j ?after) idx") (simp_all add: unfold Let_def del: list.size)
    qed
  qed
qed

lemma gemma_calls_streaming_blocks:
  "snd (gemma_calls_streaming cursor clean calls idx)
     = calls @ number_calls parse_gemma_tool_call idx (blocks ''<|tool_call>'' ''<tool_call|>'' cursor)"
proof (induction cursor clean calls idx rule: gemma_calls_streaming.induct)
  case (1 cursor clean calls idx)
  note unfold = gemma_calls_streaming.simps [of cursor clean calls idx] blocks.simps [of _ _ cursor]
  show ?case
  proof (cases "str_find ''<|tool_call>'' cursor")
    case None
    then show ?thesis by (simp add: unfold)
  next
    case (Some i)
    note i = this
    let ?after = "drop (i + length ''<|tool_call>'') cursor"
    show ?thesis
    proof (cases "str_find ''<tool_call|>'' ?after")
      case None
      with i show ?thesis by (simp add: unfold Let_def del: list.size)
    next
      case (Some j)
      show ?thesis
        using "1.IH" [OF i refl refl Some refl] i Some
        by (cases "parse_gemma_tool_call (take j ?after) idx") (simp_all add: unfold Let_def del: list.size)
    qed
  qed
qed

lemma qwen_calls_blocks:
  "snd (qwen_calls sj cursor clean calls idx)
     = calls @ number_calls (parse_qwen_tool_call sj) idx (blocks ''<tool_call>'' ''</tool_call>'' cursor)"
proof (induction sj cursor clean calls idx rule: qwen_calls.induct)
  case (1 sj cursor clean calls idx)
  note unfold = qwen_calls.simps [of sj cursor clean calls idx] blocks.simps [of _ _ cursor]
  show ?case
  proof (cases "str_find ''<tool_call>'' cursor")
    case None
    then show ?thesis by (simp add: unfold)
  next
    case (Some i)
    note i = this
    let ?after = "drop (i + length ''<tool_call>'') cursor"
    show ?thesis
    proof (cases "str_find ''</tool_call>'' ?after")
      case None
      with i show ?thesis by (simp add: unfold Let_def del: list.size)
    next
      case (Some j)
      show ?thesis
        using "1.IH" [OF i refl refl Some refl] i Some
        by (cases "parse_qwen_tool_call sj (take j ?after) idx") (simp_all add: unfold Let_def del: list.size)
    qed
  qed
qed

section \<open>Text that arrives later\<close>

text \<open>The marker ends in \<open>c\<close> and holds it nowhere else.\<close>

definition ends_only :: "char \<Rightarrow> string \<Rightarrow> bool" where
  "ends_only c m \<longleftrightarrow> m \<noteq> [] \<and> last m = c \<and> c \<notin> set (butlast m)"

lemma str_find_no_end:
  "ends_only c m \<Longrightarrow> c \<notin> set p \<Longrightarrow> str_find m (u @ p) = str_find m u"
proof (induction u)
  case Nil
  then have "\<not> sublist m p"
    by (metis ends_only_def last_in_set set_mono_sublist subsetD)
  with Nil show ?case by (cases m) (auto simp: str_find_None [symmetric] ends_only_def)
next
  case (Cons a u)
  have "prefix m (a # u @ p) \<longleftrightarrow> prefix m (a # u)"
  proof
    assume m: "prefix m (a # u @ p)"
    have "length m \<le> length (a # u)"
    proof (rule ccontr)
      assume "\<not> length m \<le> length (a # u)"
      then have "\<not> prefix m (a # u)" by (auto dest: prefix_length_le)
      with m obtain q where q: "m = (a # u) @ q" "prefix q p" "q \<noteq> []"
        by (metis append_Cons append_Nil2 prefix_append prefix_order.order_refl)
      then have "last m \<in> set p"
        by (metis last_appendR last_in_set set_mono_prefix subsetD)
      with Cons.prems show False by (simp add: ends_only_def)
    qed
    with m show "prefix m (a # u)"
      by (metis append_Cons prefix_length_prefix prefix_prefix prefix_order.order_refl)
  next
    assume "prefix m (a # u)"
    then show "prefix m (a # u @ p)" by (metis append_Cons prefix_prefix)
  qed
  with Cons show ?case by simp
qed

lemma blocks_no_end:
  assumes "ends_only c opn" "ends_only c cls" "c \<notin> set p"
  shows "blocks opn cls (u @ p) = blocks opn cls u"
  using assms
proof (induction opn cls u rule: blocks.induct)
  case (1 opn cls u)
  have f: "str_find opn (u @ p) = str_find opn u"
    by (rule str_find_no_end [OF "1.prems"(1,3)])
  show ?case
  proof (cases "str_find opn u")
    case None
    with f show ?thesis by (simp add: blocks.simps)
  next
    case (Some i)
    let ?after = "drop (i + length opn) u"
    have le: "i + length opn \<le> length u" using str_find_Some [OF Some] by simp
    have g: "str_find cls (?after @ p) = str_find cls ?after"
      by (rule str_find_no_end [OF "1.prems"(2,3)])
    show ?thesis
    proof (cases "str_find cls ?after")
      case None
      with f g Some le show ?thesis
        by (simp add: blocks.simps [of opn cls u] blocks.simps [of opn cls "u @ p"])
    next
      case (Some j)
      have le2: "j + length cls \<le> length ?after" using str_find_Some [OF Some] by simp
      have ne: "opn \<noteq> []" using "1.prems" by (simp add: ends_only_def)
      have "blocks opn cls (drop (j + length cls) ?after @ p)
              = blocks opn cls (drop (j + length cls) ?after)"
        using "1.IH" [OF \<open>str_find opn u = Some i\<close> Some ne] "1.prems" by blast
      then show ?thesis
        using f g Some \<open>str_find opn u = Some i\<close> le le2 ne
        by (simp add: blocks.simps [of opn cls u] blocks.simps [of opn cls "u @ p"])
    qed
  qed
qed

lemma blocks_append: "prefix (blocks opn cls u) (blocks opn cls (u @ x))"
proof (induction opn cls u rule: blocks.induct)
  case (1 opn cls u)
  show ?case
  proof (cases "str_find opn u")
    case None
    then show ?thesis by (simp add: blocks.simps [of opn cls u])
  next
    case (Some i)
    let ?after = "drop (i + length opn) u"
    have le: "i + length opn \<le> length u" using str_find_Some [OF Some] by simp
    show ?thesis
    proof (cases "str_find cls ?after = None \<or> opn = []")
      case True
      with Some show ?thesis by (auto simp: blocks.simps [of opn cls u] split: option.split)
    next
      case False
      then obtain j where j: "str_find cls ?after = Some j" and ne: "opn \<noteq> []" by auto
      have le2: "j + length cls \<le> length ?after" using str_find_Some [OF j] by simp
      have "prefix (blocks opn cls (drop (j + length cls) ?after))
              (blocks opn cls (drop (j + length cls) ?after @ x))"
        by (rule "1.IH" [OF Some j ne])
      then show ?thesis
        using Some j ne le le2 str_find_append [OF Some, of x] str_find_append [OF j, of x]
        by (simp add: blocks.simps [of opn cls u] blocks.simps [of opn cls "u @ x"])
    qed
  qed
qed

text \<open>
  The content extracted from a longer text agrees with the content extracted so far, up to a
  tail that holds no \<open>>\<close> (a marker that has only begun to arrive).
\<close>

definition content_stable :: "string \<Rightarrow> string \<Rightarrow> bool" where
  "content_stable s1 s2 \<longleftrightarrow> (\<exists>u p x. s1 = u @ p \<and> s2 = u @ x \<and> CHR ''>'' \<notin> set p)"

lemma content_stable_prefix: "prefix a b \<Longrightarrow> content_stable a b"
  unfolding content_stable_def prefix_def
  by (metis append_Nil2 empty_iff list.set(1))

lemma content_stable_append: "content_stable a b \<Longrightarrow> content_stable (w @ a) (w @ b)"
  unfolding content_stable_def by (metis append.assoc)

lemma content_stable_refl [simp]: "content_stable a a"
  by (simp add: content_stable_prefix)

lemma blocks_stable:
  assumes "ends_only (CHR ''>'') opn" "ends_only (CHR ''>'') cls" "content_stable a b"
  shows "prefix (blocks opn cls a) (blocks opn cls b)"
proof -
  from assms(3) obtain u p x where "a = u @ p" "b = u @ x" "CHR ''>'' \<notin> set p"
    by (auto simp: content_stable_def)
  with assms(1,2) show ?thesis by (simp add: blocks_no_end blocks_append)
qed

text \<open>A text without an opening marker, continued: at worst a beginning marker is lost.\<close>

lemma no_opener_stable:
  assumes "str_find opn s = None" "ends_only (CHR ''>'') opn"
    and i: "str_find opn (s @ t) = Some i"
  shows "content_stable s (take i (s @ t) @ w)"
proof (cases "length s \<le> i")
  case True
  then show ?thesis by (intro content_stable_prefix) simp
next
  case False
  have pre: "prefix opn (drop i s @ t)"
    using str_find_Some [OF i] False
    by (metis add_leD1 append_eq_conv_conj drop_append prefix_def diff_is_0_eq' drop0 nle_le
        append_take_drop_id same_append_eq)
  have "\<not> prefix opn (drop i s)"
    using assms(1) by (metis prefix_imp_sublist str_find_None sublist_drop sublist_order.order_trans)
  then have "prefix (drop i s) opn" "drop i s \<noteq> opn"
    using pre by (metis prefix_append prefix_def append_Nil2 prefix_order.order_refl prefix_same_cases
        prefixI)+
  then have "set (drop i s) \<subseteq> set (butlast opn)"
    by (metis append_Nil2 butlast_append prefix_def set_append Un_upper1)
  then have "CHR ''>'' \<notin> set (drop i s)"
    using assms(2) by (auto simp: ends_only_def)
  moreover have "s = take i s @ drop i s" by simp
  moreover have "take i (s @ t) @ w = take i s @ w" using False by simp
  ultimately show ?thesis unfolding content_stable_def by metis
qed

end
