(* ===== verification/ChatStream.thy ===== *)
theory ChatStream
  imports ChatScan
begin

text \<open>
  \<^verbatim>\<open>StreamingParser\<close> of \<^verbatim>\<open>chat_parse.rs\<close>: on each chunk the whole accumulated text is
  parsed again and the result is compared with the previous one. The locale
  \<open>stream_grammar\<close> is what the diff relies on (tool calls that have been parsed stay); both
  model families are shown to provide it, so the tool-call events of a run depend on the text
  only, not on how it was cut into chunks.
\<close>

section \<open>State, events and the step\<close>

datatype stream_event =
    Text string
  | Reasoning string
  | ToolCallBegin nat string string
  | ToolCallArgsDelta nat string
  | ToolCallEnd nat

record streaming_parser =
  sp_kind :: parser_kind
  sp_accumulated :: string
  sp_prev :: parsed_assistant
  sp_prev_completed :: nat

definition sp_new :: "parser_kind \<Rightarrow> streaming_parser" where
  "sp_new kind =
     \<lparr>sp_kind = kind, sp_accumulated = [], sp_prev = default_parsed, sp_prev_completed = 0\<rparr>"

definition content_events :: "string \<Rightarrow> string \<Rightarrow> stream_event list" where
  "content_events prev cur =
     (if prefix prev cur
      then (let new_content = drop (length prev) cur
            in if new_content \<noteq> [] then [Text new_content] else [])
      else if cur \<noteq> prev then [Text cur] else [])"

definition reasoning_events :: "string option \<Rightarrow> string option \<Rightarrow> stream_event list" where
  "reasoning_events prev cur =
     (case (prev, cur) of
        (None, Some r) \<Rightarrow> (if r \<noteq> [] then [Reasoning r] else [])
      | (Some p, Some c) \<Rightarrow>
          (if prefix p c \<and> length p < length c then [Reasoning (drop (length p) c)] else [])
      | _ \<Rightarrow> [])"

definition begin_events :: "nat \<Rightarrow> tool_call \<Rightarrow> stream_event list" where
  "begin_events i tc =
     ToolCallBegin i (tc_id tc) (fn_name (tc_function tc))
     # (if fn_arguments (tc_function tc) \<noteq> []
        then [ToolCallArgsDelta i (fn_arguments (tc_function tc))] else [])"

definition args_events :: "nat \<Rightarrow> string \<Rightarrow> string \<Rightarrow> stream_event list" where
  "args_events i prev_args cur_args =
     (if prefix prev_args cur_args \<and> length prev_args < length cur_args
      then [ToolCallArgsDelta i (drop (length prev_args) cur_args)]
      else if cur_args \<noteq> prev_args then [ToolCallArgsDelta i cur_args]
      else [])"

text \<open>The loop over \<open>cur.tool_calls\<close>; \<open>prev\<close> is what remains of the previous calls.\<close>

fun tool_call_events :: "nat \<Rightarrow> tool_call list \<Rightarrow> tool_call list \<Rightarrow> stream_event list" where
  "tool_call_events i prev [] = []"
| "tool_call_events i [] (tc # cur) = begin_events i tc @ tool_call_events (Suc i) [] cur"
| "tool_call_events i (p # prev) (tc # cur) =
     args_events i (fn_arguments (tc_function p)) (fn_arguments (tc_function tc))
     @ tool_call_events (Suc i) prev cur"

definition closer :: "parser_kind \<Rightarrow> string" where
  "closer kind = (case kind of Qwen \<Rightarrow> ''</tool_call>'' | _ \<Rightarrow> ''<tool_call|>'')"

definition snapshot :: "serde_from_str \<Rightarrow> parser_kind \<Rightarrow> string \<Rightarrow> parsed_assistant" where
  "snapshot sj kind accumulated =
     (case kind of Qwen \<Rightarrow> parse_qwen_streaming sj accumulated
                 | _ \<Rightarrow> parse_gemma_streaming accumulated)"

definition sp_push ::
  "serde_from_str \<Rightarrow> streaming_parser \<Rightarrow> string \<Rightarrow> streaming_parser \<times> stream_event list" where
  "sp_push sj p delta_text =
     (if sp_kind p = Passthrough then
        (p, if delta_text = [] then [] else [Text delta_text])
      else if delta_text = [] then (p, [])
      else
        (let accumulated = sp_accumulated p @ delta_text;
             cur = snapshot sj (sp_kind p) accumulated;
             cur_completed = count_occurrences accumulated (closer (sp_kind p));
             events =
               content_events (pa_content (sp_prev p)) (pa_content cur)
               @ reasoning_events (pa_reasoning (sp_prev p)) (pa_reasoning cur)
               @ tool_call_events 0 (pa_tool_calls (sp_prev p)) (pa_tool_calls cur)
               @ map ToolCallEnd [sp_prev_completed p..<cur_completed]
         in (p\<lparr>sp_accumulated := accumulated, sp_prev := cur,
               sp_prev_completed := cur_completed\<rparr>, events)))"

definition sp_flush :: "streaming_parser \<Rightarrow> streaming_parser \<times> stream_event list" where
  "sp_flush p = (p, [])"

fun sp_run ::
  "serde_from_str \<Rightarrow> streaming_parser \<Rightarrow> string list \<Rightarrow> streaming_parser \<times> stream_event list" where
  "sp_run sj p [] = (p, [])"
| "sp_run sj p (c # cs) =
     (let (p1, ev1) = sp_push sj p c; (p2, ev2) = sp_run sj p1 cs in (p2, ev1 @ ev2))"

section \<open>Views of an event stream\<close>

definition is_call_event :: "stream_event \<Rightarrow> bool" where
  "is_call_event e = (case e of ToolCallBegin _ _ _ \<Rightarrow> True | ToolCallArgsDelta _ _ \<Rightarrow> True | _ \<Rightarrow> False)"

definition is_end_event :: "stream_event \<Rightarrow> bool" where
  "is_end_event e = (case e of ToolCallEnd _ \<Rightarrow> True | _ \<Rightarrow> False)"

fun announce :: "nat \<Rightarrow> tool_call list \<Rightarrow> stream_event list" where
  "announce i [] = []"
| "announce i (tc # tcs) = begin_events i tc @ announce (Suc i) tcs"

named_theorems view_simps \<open>what a view keeps of each group of events\<close>

lemma filter_content [view_simps]:
  "filter is_call_event (content_events a b) = []" "filter is_end_event (content_events a b) = []"
  by (auto simp: content_events_def is_call_event_def is_end_event_def Let_def)

lemma filter_reasoning [view_simps]:
  "filter is_call_event (reasoning_events a b) = []" "filter is_end_event (reasoning_events a b) = []"
  by (auto simp: reasoning_events_def is_call_event_def is_end_event_def split: option.splits)

lemma filter_begin [view_simps]:
  "filter is_call_event (begin_events i tc) = begin_events i tc"
  "filter is_end_event (begin_events i tc) = []"
  by (auto simp: begin_events_def is_call_event_def is_end_event_def)

lemma filter_args [view_simps]:
  "filter is_call_event (args_events i a b) = args_events i a b"
  "filter is_end_event (args_events i a b) = []"
  by (auto simp: args_events_def is_call_event_def is_end_event_def)

lemma filter_tool_calls [view_simps]:
  "filter is_call_event (tool_call_events i prev cur) = tool_call_events i prev cur"
  "filter is_end_event (tool_call_events i prev cur) = []"
  by (induction i prev cur rule: tool_call_events.induct) (auto simp: view_simps)

lemma filter_ends [view_simps]:
  "filter is_call_event (map ToolCallEnd is) = []"
  "filter is_end_event (map ToolCallEnd is) = map ToolCallEnd is"
  by (induction "is") (auto simp: is_call_event_def is_end_event_def)

lemma args_events_same [simp]: "args_events i a a = []"
  by (simp add: args_events_def)

lemma tool_call_events_prefix:
  "tool_call_events i prev (prev @ new) = announce (i + length prev) new"
proof (induction prev arbitrary: i)
  case Nil
  show ?case
    by (induction new arbitrary: i) auto
next
  case (Cons p prev)
  then show ?case by simp
qed

lemma announce_append: "announce i (xs @ ys) = announce i xs @ announce (i + length xs) ys"
  by (induction xs arbitrary: i) auto

section \<open>The contract between a grammar and the diff\<close>

locale stream_grammar =
  fixes parse :: "string \<Rightarrow> parsed_assistant"
  assumes no_calls_yet: "pa_tool_calls (parse []) = []"
    and calls_stay: "prefix (pa_tool_calls (parse s)) (pa_tool_calls (parse (s @ t)))"
begin

fun reparse_events :: "string \<Rightarrow> string list \<Rightarrow> stream_event list" where
  "reparse_events acc [] = []"
| "reparse_events acc (c # cs) =
     tool_call_events 0 (pa_tool_calls (parse acc)) (pa_tool_calls (parse (acc @ c)))
     @ reparse_events (acc @ c) cs"

lemma step_events:
  "tool_call_events 0 (pa_tool_calls (parse s)) (pa_tool_calls (parse (s @ t)))
     = announce (length (pa_tool_calls (parse s)))
         (drop (length (pa_tool_calls (parse s))) (pa_tool_calls (parse (s @ t))))"
proof -
  from calls_stay [of s t] obtain new
    where new: "pa_tool_calls (parse (s @ t)) = pa_tool_calls (parse s) @ new"
    by (auto simp: prefix_def)
  show ?thesis unfolding new by (simp add: tool_call_events_prefix)
qed

lemma run_from:
  "announce 0 (pa_tool_calls (parse acc)) @ reparse_events acc cs
     = announce 0 (pa_tool_calls (parse (acc @ concat cs)))"
proof (induction cs arbitrary: acc)
  case Nil
  then show ?case by simp
next
  case (Cons c cs)
  from calls_stay [of acc c] obtain new
    where new: "pa_tool_calls (parse (acc @ c)) = pa_tool_calls (parse acc) @ new"
    by (auto simp: prefix_def)
  have "announce 0 (pa_tool_calls (parse acc)) @ reparse_events acc (c # cs)
          = announce 0 (pa_tool_calls (parse (acc @ c))) @ reparse_events (acc @ c) cs"
    by (simp add: new tool_call_events_prefix announce_append)
  with Cons show ?case by simp
qed

lemma run_announces: "reparse_events [] cs = announce 0 (pa_tool_calls (parse (concat cs)))"
  using run_from [of "[]" cs] by (simp add: no_calls_yet)

end

section \<open>Gemma and Qwen provide it\<close>

text \<open>The text outside reasoning channels, as the scanning loops collect it.\<close>

function gemma_outside :: "string \<Rightarrow> string" where
  "gemma_outside s =
     (case str_find ''<|channel>'' s of
        None \<Rightarrow> s
      | Some i \<Rightarrow>
         (let after_open = drop (i + length ''<|channel>'') s
          in case str_find [nl] after_open of
               None \<Rightarrow> take i s
             | Some k \<Rightarrow>
                (let window = drop (k + 1) after_open
                 in case str_find ''<channel|>'' window of
                      None \<Rightarrow> take i s
                    | Some j \<Rightarrow> take i s @ gemma_outside (drop (j + length ''<channel|>'') window))))"
  by pat_completeness auto
termination
  by (relation "measure length") (auto dest!: str_find_Some)

function qwen_outside :: "string \<Rightarrow> string" where
  "qwen_outside s =
     (case str_find ''<think>'' s of
        None \<Rightarrow> s
      | Some i \<Rightarrow>
         (let after_open = drop (i + length ''<think>'') s
          in case str_find ''</think>'' after_open of
               None \<Rightarrow> take i s
             | Some j \<Rightarrow> take i s @ qwen_outside (drop (j + length ''</think>'') after_open)))"
  by pat_completeness auto
termination
  by (relation "measure length") (auto dest!: str_find_Some)

declare gemma_outside.simps [simp del] qwen_outside.simps [simp del]

lemma qwen_think_content: "fst (qwen_think cursor content r) = content @ qwen_outside cursor"
proof (induction cursor content r rule: qwen_think.induct)
  case (1 cursor content r)
  note unfold = qwen_think.simps [of cursor content r] qwen_outside.simps [of cursor]
  show ?case
  proof (cases "str_find ''<think>'' cursor")
    case None
    then show ?thesis by (simp add: unfold)
  next
    case (Some i)
    note i = this
    show ?thesis
      using "1.IH" [OF i refl refl] i
      by (cases "str_find ''</think>'' (drop (i + length ''<think>'') cursor)")
         (simp_all add: unfold Let_def del: list.size)
  qed
qed

lemma gemma_channels_streaming_content:
  "fst (gemma_channels_streaming cursor content r) = content @ gemma_outside cursor"
proof (induction cursor content r rule: gemma_channels_streaming.induct)
  case (1 cursor content r)
  note unfold = gemma_channels_streaming.simps [of cursor content r] gemma_outside.simps [of cursor]
  show ?case
  proof (cases "str_find ''<|channel>'' cursor")
    case None
    then show ?thesis by (simp add: unfold)
  next
    case (Some i)
    note i = this
    let ?after = "drop (i + length ''<|channel>'') cursor"
    show ?thesis
    proof (cases "str_find [nl] ?after")
      case None
      with i show ?thesis by (simp add: unfold Let_def del: list.size)
    next
      case (Some k)
      show ?thesis
        using "1.IH" [OF i refl refl Some refl] i Some
        by (cases "str_find ''<channel|>'' (drop (k + 1) ?after)")
           (simp_all add: unfold Let_def del: list.size)
    qed
  qed
qed

lemma ends_only_markers:
  "ends_only (CHR ''>'') ''<|tool_call>''" "ends_only (CHR ''>'') ''<tool_call|>''"
  "ends_only (CHR ''>'') ''<tool_call>''" "ends_only (CHR ''>'') ''</tool_call>''"
  "ends_only (CHR ''>'') ''<|channel>''" "ends_only (CHR ''>'') ''<think>''"
  by (simp_all add: ends_only_def)

lemma qwen_outside_stable: "content_stable (qwen_outside s) (qwen_outside (s @ t))"
proof (induction s rule: qwen_outside.induct)
  case (1 s)
  note unfold = qwen_outside.simps [of s] qwen_outside.simps [of "s @ t"]
  show ?case
  proof (cases "str_find ''<think>'' s")
    case None
    show ?thesis
    proof (cases "str_find ''<think>'' (s @ t)")
      case None
      with \<open>str_find ''<think>'' s = None\<close> show ?thesis
        by (simp add: unfold content_stable_prefix)
    next
      case (Some i)
      have "\<exists>w. qwen_outside (s @ t) = take i (s @ t) @ w"
        unfolding qwen_outside.simps [of "s @ t"] Some by (auto simp: Let_def split: option.split)
      then obtain w where "qwen_outside (s @ t) = take i (s @ t) @ w" ..
      moreover have "qwen_outside s = s"
        using \<open>str_find ''<think>'' s = None\<close> by (simp add: unfold)
      ultimately show ?thesis
        using no_opener_stable [OF \<open>str_find ''<think>'' s = None\<close> ends_only_markers(6) Some] by simp
    qed
  next
    case (Some i)
    note i = this
    let ?after = "drop (i + length ''<think>'') s"
    have le: "i + length ''<think>'' \<le> length s" using str_find_Some [OF i] by blast
    note i' = str_find_append [OF i, of t]
    show ?thesis
    proof (cases "str_find ''</think>'' ?after")
      case None
      have "\<exists>w. qwen_outside (s @ t) = take i s @ w"
        unfolding qwen_outside.simps [of "s @ t"] i' using le
        by (auto simp: Let_def split: option.split)
      moreover have "qwen_outside s = take i s"
        using i None by (simp add: unfold Let_def del: list.size)
      ultimately show ?thesis by (auto intro: content_stable_prefix)
    next
      case (Some j)
      have le2: "j + length ''</think>'' \<le> length ?after" using str_find_Some [OF Some] by blast
      have "qwen_outside s = take i s @ qwen_outside (drop (j + length ''</think>'') ?after)"
        using i Some by (simp add: unfold Let_def del: list.size)
      moreover have "qwen_outside (s @ t)
          = take i s @ qwen_outside (drop (j + length ''</think>'') ?after @ t)"
        using i' str_find_append [OF Some, of t] le le2
        by (simp add: unfold Let_def del: list.size)
      ultimately show ?thesis
        using "1.IH" [OF i refl Some] by (simp add: content_stable_append del: list.size)
    qed
  qed
qed

lemma gemma_outside_stable: "content_stable (gemma_outside s) (gemma_outside (s @ t))"
proof (induction s rule: gemma_outside.induct)
  case (1 s)
  note unfold = gemma_outside.simps [of s] gemma_outside.simps [of "s @ t"]
  show ?case
  proof (cases "str_find ''<|channel>'' s")
    case None
    have s: "gemma_outside s = s" using None by (simp add: unfold)
    show ?thesis
    proof (cases "str_find ''<|channel>'' (s @ t)")
      case None
      with s show ?thesis by (simp add: unfold(2) content_stable_prefix)
    next
      case (Some i)
      have "\<exists>w. gemma_outside (s @ t) = take i (s @ t) @ w"
        unfolding gemma_outside.simps [of "s @ t"] Some by (auto simp: Let_def split: option.split)
      then show ?thesis
        using no_opener_stable [OF \<open>str_find ''<|channel>'' s = None\<close> ends_only_markers(5) Some] s
        by auto
    qed
  next
    case (Some i)
    note i = this
    let ?after = "drop (i + length ''<|channel>'') s"
    have le: "i + length ''<|channel>'' \<le> length s" using str_find_Some [OF i] by blast
    note i' = str_find_append [OF i, of t]
    show ?thesis
    proof (cases "\<exists>k j. str_find [nl] ?after = Some k
                    \<and> str_find ''<channel|>'' (drop (k + 1) ?after) = Some j")
      case False
      then have "gemma_outside s = take i s"
        using i by (auto simp: unfold Let_def simp del: list.size split: option.split)
      moreover have "\<exists>w. gemma_outside (s @ t) = take i s @ w"
        unfolding gemma_outside.simps [of "s @ t"] i' using le
        by (auto simp: Let_def split: option.split)
      ultimately show ?thesis by (auto intro: content_stable_prefix)
    next
      case True
      then obtain k j where k: "str_find [nl] ?after = Some k"
        and j: "str_find ''<channel|>'' (drop (k + 1) ?after) = Some j" by auto
      have lek: "k + length [nl] \<le> length ?after" using str_find_Some [OF k] by blast
      have lej: "j + length ''<channel|>'' \<le> length (drop (k + 1) ?after)"
        using str_find_Some [OF j] by blast
      let ?rest = "drop (j + length ''<channel|>'') (drop (k + 1) ?after)"
      have "gemma_outside s = take i s @ gemma_outside ?rest"
        using i k j by (simp add: unfold Let_def del: list.size drop_drop)
      moreover have "gemma_outside (s @ t) = take i s @ gemma_outside (?rest @ t)"
      proof -
        have "drop (i + length ''<|channel>'') (s @ t) = ?after @ t"
          using le by (simp del: list.size)
        moreover have "drop (k + 1) (?after @ t) = drop (k + 1) ?after @ t"
          using lek by (simp del: drop_drop)
        moreover have "drop (j + length ''<channel|>'') (drop (k + 1) ?after @ t) = ?rest @ t"
          using lej by (simp del: list.size drop_drop)
        moreover have "take i (s @ t) = take i s" using le by simp
        ultimately show ?thesis
          unfolding unfold(2) i' Let_def
          by (simp only: option.case str_find_append [OF k] str_find_append [OF j])
      qed
      ultimately show ?thesis
        using "1.IH" [OF i refl k refl j] by (simp add: content_stable_append del: list.size drop_drop)
    qed
  qed
qed

lemma number_calls_nil [simp]: "number_calls parse i [] = []"
  by simp

lemma gemma_streaming_calls:
  "pa_tool_calls (parse_gemma_streaming raw)
     = number_calls parse_gemma_tool_call 0
         (blocks ''<|tool_call>'' ''<tool_call|>'' (gemma_outside raw))"
  using gemma_channels_streaming_content [of raw "[]" "[]"]
    gemma_calls_streaming_blocks [of "gemma_outside raw" "[]" "[]" 0]
  by (auto simp: parse_gemma_streaming_def Let_def split: prod.splits)

lemma qwen_streaming_calls:
  "pa_tool_calls (parse_qwen_streaming sj raw)
     = number_calls (parse_qwen_tool_call sj) 0
         (blocks ''<tool_call>'' ''</tool_call>'' (qwen_outside raw))"
  using qwen_think_content [of raw "[]" "[]"] qwen_calls_blocks [of sj "qwen_outside raw" "[]" "[]" 0]
  by (auto simp: parse_qwen_streaming_def Let_def split: prod.splits)

lemma outside_nil [simp]: "gemma_outside [] = []" "qwen_outside [] = []"
  by (simp_all add: gemma_outside.simps qwen_outside.simps)

lemma blocks_nil [simp]: "opn \<noteq> [] \<Longrightarrow> blocks opn cls [] = []"
  by (simp add: blocks.simps)

interpretation gemma_stream: stream_grammar parse_gemma_streaming
proof unfold_locales
  show "pa_tool_calls (parse_gemma_streaming []) = []"
    by (simp add: gemma_streaming_calls)
  fix s t
  show "prefix (pa_tool_calls (parse_gemma_streaming s)) (pa_tool_calls (parse_gemma_streaming (s @ t)))"
    unfolding gemma_streaming_calls
    by (intro number_calls_prefix blocks_stable ends_only_markers gemma_outside_stable)
qed

interpretation qwen_stream: stream_grammar "parse_qwen_streaming sj" for sj
proof unfold_locales
  show "pa_tool_calls (parse_qwen_streaming sj []) = []"
    by (simp add: qwen_streaming_calls)
  fix s t
  show "prefix (pa_tool_calls (parse_qwen_streaming sj s)) (pa_tool_calls (parse_qwen_streaming sj (s @ t)))"
    unfolding qwen_streaming_calls
    by (intro number_calls_prefix blocks_stable ends_only_markers qwen_outside_stable)
qed

interpretation snapshot_stream: stream_grammar "snapshot sj kind" for sj kind
proof unfold_locales
  show "pa_tool_calls (snapshot sj kind []) = []"
    using gemma_stream.no_calls_yet qwen_stream.no_calls_yet
    by (auto simp: snapshot_def split: parser_kind.split)
  fix s t
  show "prefix (pa_tool_calls (snapshot sj kind s)) (pa_tool_calls (snapshot sj kind (s @ t)))"
    using gemma_stream.calls_stay qwen_stream.calls_stay
    by (auto simp: snapshot_def split: parser_kind.split)
qed

end
