(* ===== verification/ChatCorrect.thy ===== *)
theory ChatCorrect
  imports ChatStream
begin

text \<open>
  What the parsers of \<^verbatim>\<open>chat_parse.rs\<close> promise: JSON strings that cannot be broken out
  of, arguments of a Gemma call rendered as a JSON object, turns without markers passed through,
  calls numbered in order, streamed tool calls that depend on the text only, and held-back
  beginnings of markers.
\<close>

section \<open>JSON strings\<close>

text \<open>
  A reader of JSON strings, as RFC 8259 describes them, restricted to the escapes below
  \<^verbatim>\<open>U+0080\<close>: from behind the opening quote to the closing quote, giving the text and what
  follows the string. Control characters must be escaped.
\<close>

definition hex_value :: "char \<Rightarrow> nat option" where
  "hex_value c =
     (let n = of_char c in
      if 48 \<le> n \<and> n \<le> 57 then Some (n - 48)
      else if 97 \<le> n \<and> n \<le> 102 then Some (n - 87)
      else None)"

definition hex4_value :: "char \<Rightarrow> char \<Rightarrow> char \<Rightarrow> char \<Rightarrow> nat option" where
  "hex4_value a b c d =
     (case (hex_value a, hex_value b, hex_value c, hex_value d) of
        (Some w, Some x, Some y, Some z) \<Rightarrow> Some (((w * 16 + x) * 16 + y) * 16 + z)
      | _ \<Rightarrow> None)"

definition simple_escape :: "char \<Rightarrow> char option" where
  "simple_escape e =
     (if e = dq then Some dq
      else if e = bslash then Some bslash
      else if e = CHR ''n'' then Some nl
      else if e = CHR ''r'' then Some (CHR 0x0D)
      else if e = CHR ''t'' then Some (CHR 0x09)
      else None)"

definition cons_fst :: "char \<Rightarrow> (string \<times> string) option \<Rightarrow> (string \<times> string) option" where
  "cons_fst c r = map_option (\<lambda>(s, rest). (c # s, rest)) r"

function read_json_string :: "string \<Rightarrow> (string \<times> string) option" where
  "read_json_string s =
     (case s of
        [] \<Rightarrow> None
      | c # cs \<Rightarrow>
          if c = dq then Some ([], cs)
          else if c = bslash then
            (case cs of
               [] \<Rightarrow> None
             | e # es \<Rightarrow>
                 if e = CHR ''u'' then
                   (case es of
                      h1 # h2 # h3 # h4 # fs \<Rightarrow>
                        (case hex4_value h1 h2 h3 h4 of
                           None \<Rightarrow> None
                         | Some n \<Rightarrow> if n < 128 then cons_fst (char_of n) (read_json_string fs) else None)
                    | _ \<Rightarrow> None)
                 else (case simple_escape e of
                         None \<Rightarrow> None
                       | Some x \<Rightarrow> cons_fst x (read_json_string es)))
          else if (of_char c :: nat) < 32 then None
          else cons_fst c (read_json_string cs))"
  by pat_completeness auto
termination
  by (relation "measure length") auto

declare read_json_string.simps [simp del]

lemma hex_value_digit [simp]: "d < 16 \<Longrightarrow> hex_value (hex_digit d) = Some d"
  by (auto simp: hex_value_def hex_digit_def Let_def of_char_of)

lemma control_hex:
  "n < 32 \<Longrightarrow> hex4_value (hex_digit (n div 16 ^ 3 mod 16)) (hex_digit (n div 16 ^ 2 mod 16))
                (hex_digit (n div 16 ^ 1 mod 16)) (hex_digit (n div 16 ^ 0 mod 16)) = Some n"
  by (simp add: hex4_value_def)

lemma read_escaped_char:
  "read_json_string (escape_char c @ r) = cons_fst c (read_json_string r)"
proof -
  consider "c = dq \<or> c = bslash \<or> c = nl \<or> c = CHR 0x0D \<or> c = CHR 0x09"
    | "c \<noteq> dq" "c \<noteq> bslash" "c \<noteq> nl" "c \<noteq> CHR 0x0D" "c \<noteq> CHR 0x09" "(of_char c :: nat) < 32"
    | "c \<noteq> dq" "c \<noteq> bslash" "\<not> (of_char c :: nat) < 32"
    by blast
  then show ?thesis
  proof cases
    case 1
    then show ?thesis
      by (subst read_json_string.simps) (auto simp: escape_char_def simple_escape_def)
  next
    case 2
    then have "escape_char c = bslash # CHR ''u'' # hex4 (of_char c)"
      by (simp add: escape_char_def)
    then show ?thesis
      using control_hex [OF 2(6)] 2(6)
      by (subst read_json_string.simps) (simp add: hex4_def)
  next
    case 3
    then have "escape_char c = [c]" by (auto simp: escape_char_def)
    with 3 show ?thesis by (subst read_json_string.simps) simp
  qed
qed

text \<open>
  An escaped string, put between quotes, is read back as the same text and ends at the
  closing quote that was added: no value a model emits can break out of its JSON string.
\<close>

theorem json_escape_roundtrip: "read_json_string (json_escape s @ dq # rest) = Some (s, rest)"
proof (induction s)
  case Nil
  show ?case by (subst read_json_string.simps) (simp add: json_escape_def)
next
  case (Cons c s)
  have "json_escape (c # s) @ dq # rest = escape_char c @ json_escape s @ dq # rest"
    by (simp add: json_escape_def)
  with Cons show ?case by (simp add: read_escaped_char cons_fst_def)
qed

section \<open>Arguments of a Gemma call\<close>

definition gemma_quote :: string where
  "gemma_quote = CHR ''<'' # gemma_quote_tail"

fun render_args :: "(string \<times> string) list \<Rightarrow> string" where
  "render_args [] = []"
| "render_args [(k, v)] = k @ '':'' @ gemma_quote @ v @ gemma_quote"
| "render_args ((k, v) # kv # kvs) =
     k @ '':'' @ gemma_quote @ v @ gemma_quote @ '','' @ render_args (kv # kvs)"

fun json_members :: "(string \<times> string) list \<Rightarrow> string" where
  "json_members [] = []"
| "json_members [(k, v)] = [dq] @ k @ [dq] @ '':'' @ [dq] @ json_escape v @ [dq]"
| "json_members ((k, v) # kv # kvs) =
     [dq] @ k @ [dq] @ '':'' @ [dq] @ json_escape v @ [dq] @ '','' @ json_members (kv # kvs)"

text \<open>A bare key the format can carry, and a value that does not hold the closing marker \<^verbatim>\<open><|"|>\<close>.\<close>

definition bare_key :: "string \<Rightarrow> bool" where
  "bare_key k \<longleftrightarrow> k \<noteq> [] \<and> (\<forall>c \<in> set k. \<not> key_stop c)"

definition plain_value :: "string \<Rightarrow> bool" where
  "plain_value v \<longleftrightarrow> \<not> sublist gemma_quote v"

text \<open>The marker has one \<^verbatim>\<open><\<close>, its first byte, so it cannot begin in the value and end behind it.\<close>

lemma marker_not_across:
  "prefix gemma_quote_tail (v @ gemma_quote @ rest) \<Longrightarrow> prefix gemma_quote_tail v"
proof (cases "length v < 4")
  case True
  assume "prefix gemma_quote_tail (v @ gemma_quote @ rest)"
  moreover have "\<not> prefix gemma_quote_tail (v @ gemma_quote @ rest)"
    using True by (cases v rule: remdups_adj.cases; cases "tl (tl v)"; cases "tl (tl (tl v))")
      (auto simp: gemma_quote_def gemma_quote_tail_def)
  ultimately show ?thesis by simp
next
  case False
  assume "prefix gemma_quote_tail (v @ gemma_quote @ rest)"
  moreover have "length gemma_quote_tail \<le> length v" using False by (simp add: gemma_quote_tail_def)
  ultimately show ?thesis using prefix_length_prefix [of gemma_quote_tail _ v] by simp
qed

lemma read_quoted_plain: "plain_value v \<Longrightarrow> read_quoted (v @ gemma_quote @ rest) = (v, Some rest)"
proof (induction v)
  case Nil
  show ?case by (simp add: gemma_quote_def)
next
  case (Cons c v)
  have no: "\<not> (c = CHR ''<'' \<and> prefix gemma_quote_tail (v @ gemma_quote @ rest))"
  proof
    assume "c = CHR ''<'' \<and> prefix gemma_quote_tail (v @ gemma_quote @ rest)"
    then have "c = CHR ''<''" "prefix gemma_quote_tail v" by (auto intro: marker_not_across)
    then have "prefix gemma_quote (c # v)" by (simp add: gemma_quote_def)
    with Cons.prems show False unfolding plain_value_def using prefix_imp_sublist by blast
  qed
  have "plain_value v" using Cons.prems unfolding plain_value_def sublist_Cons_right by blast
  then have "read_quoted (v @ gemma_quote @ rest) = (v, Some rest)" by (rule Cons.IH)
  then show ?case unfolding append_Cons read_quoted.simps(2) if_not_P [OF no] by simp
qed

lemma takeWhile_key:
  "\<forall>c \<in> set k. \<not> key_stop c \<Longrightarrow> takeWhile (\<lambda>n. \<not> key_stop n) (k @ CHR '':'' # r) = k"
  "\<forall>c \<in> set k. \<not> key_stop c \<Longrightarrow> dropWhile (\<lambda>n. \<not> key_stop n) (k @ CHR '':'' # r) = CHR '':'' # r"
  by (induction k) (auto simp: key_stop_def)

lemma member_step:
  assumes "bare_key k" "plain_value v" "last_char out = Some (CHR ''{'') \<or> last_char out = Some (CHR '','')"
  shows "gemma_args_loop (k @ '':'' @ gemma_quote @ v @ gemma_quote @ rest) Key 0 out
           = gemma_args_loop rest Value 0
               (out @ [dq] @ k @ [dq] @ '':'' @ [dq] @ json_escape v @ [dq])"
proof -
  obtain c cs where k: "k = c # cs" using assms(1) by (cases k) (auto simp: bare_key_def)
  have c: "c \<noteq> CHR '':''" "c \<noteq> CHR '',''" and cs: "\<forall>c \<in> set cs. \<not> key_stop c"
    using assms(1) k by (auto simp: bare_key_def key_stop_def)
  have nq: "needs_quote_key (last_char out)" using assms(3) by (auto simp: needs_quote_key_def)
  have "gemma_args_loop (k @ '':'' @ gemma_quote @ v @ gemma_quote @ rest) Key 0 out
          = gemma_args_loop (CHR '':'' # gemma_quote @ v @ gemma_quote @ rest) Key 0
              (out @ [dq] @ k @ [dq])"
    using c nq by (simp add: k takeWhile_key [OF cs])
  also have "\<dots> = gemma_args_loop rest Value 0
      (out @ [dq] @ k @ [dq] @ '':'' @ [dq] @ json_escape v @ [dq])"
    using read_quoted_plain [OF assms(2), of rest]
    by (simp add: gemma_quote_def [symmetric]) (simp add: gemma_quote_def)
  finally show ?thesis .
qed

lemma members_loop:
  assumes "\<forall>(k, v) \<in> set kvs. bare_key k \<and> plain_value v" "kvs \<noteq> []"
    and "last_char out = Some (CHR ''{'') \<or> last_char out = Some (CHR '','')"
  shows "gemma_args_loop (render_args kvs) Key 0 out = out @ json_members kvs"
  using assms
proof (induction kvs arbitrary: out rule: render_args.induct)
  case 1
  then show ?case by simp
next
  case (2 k v)
  then show ?case using member_step [of k v out "[]"] by simp
next
  case (3 k v kv kvs)
  let ?out = "out @ [dq] @ k @ [dq] @ '':'' @ [dq] @ json_escape v @ [dq]"
  have "gemma_args_loop (render_args ((k, v) # kv # kvs)) Key 0 out
          = gemma_args_loop ('','' @ render_args (kv # kvs)) Value 0 ?out"
    using "3.prems" member_step [of k v out "'','' @ render_args (kv # kvs)"] by simp
  also have "\<dots> = gemma_args_loop (render_args (kv # kvs)) Key 0 (?out @ '','')" by simp
  also have "\<dots> = (?out @ '','') @ json_members (kv # kvs)"
    using "3.prems" by (intro "3.IH") (auto simp: last_char_def)
  finally show ?case by simp
qed

text \<open>
  C22: an argument list in Gemma's notation whose keys are not empty and free of \<^verbatim>\<open>:\<close>, \<^verbatim>\<open>,\<close>, \<^verbatim>\<open>}\<close> and \<^verbatim>\<open>]\<close>, and whose values are
  strings between the markers \<^verbatim>\<open><|"|>\<close> that do not contain the marker themselves, becomes the JSON object with the same members in the
  same order. Every value is escaped; every key is put between quotes as it is.
\<close>

theorem gemma_args_members:
  assumes "\<forall>(k, v) \<in> set kvs. k \<noteq> [] \<and> set k \<inter> {CHR '':'', CHR '','', CHR ''}'', CHR '']''} = {}
    \<and> \<not> sublist gemma_quote v"
  shows "gemma_args_to_json (render_args kvs) = ''{'' @ json_members kvs @ ''}''"
proof (cases "kvs = []")
  case True
  then show ?thesis by (simp add: gemma_args_to_json_def)
next
  case False
  have "\<forall>(k, v) \<in> set kvs. bare_key k \<and> plain_value v"
    using assms by (fastforce simp: bare_key_def plain_value_def key_stop_def)
  with members_loop [OF _ False, of "''{''"] show ?thesis
    by (simp add: gemma_args_to_json_def last_char_def)
qed

theorem gemma_args_members_witness:
  "gemma_args_to_json (render_args [(''city'', ''Tokyo <|x''), (''units'', ''a'' @ [dq])])
     = ''{'' @ [dq] @ ''city'' @ [dq] @ '':'' @ [dq] @ ''Tokyo <|x'' @ [dq] @ '','' @ [dq] @ ''units'' @ [dq]
       @ '':'' @ [dq] @ ''a'' @ [bslash, dq] @ [dq] @ ''}''"
proof -
  have "\<forall>(k, v) \<in> set [(''city'', ''Tokyo <|x''), (''units'', ''a'' @ [dq])].
      k \<noteq> [] \<and> set k \<inter> {CHR '':'', CHR '','', CHR ''}'', CHR '']''} = {} \<and> \<not> sublist gemma_quote v"
    by (simp add: gemma_quote_def gemma_quote_tail_def sublist_Cons_right)
  from gemma_args_members [OF this] show ?thesis
    by (simp add: json_escape_def escape_char_def)
qed

section \<open>Finished turns\<close>

lemma gemma_calls_of:
  "pa_tool_calls (parse_gemma raw)
     = number_calls parse_gemma_tool_call 0
         (blocks ''<|tool_call>'' ''<tool_call|>'' (fst (gemma_channels raw [] [])))"
  using gemma_calls_blocks [of "fst (gemma_channels raw [] [])" "[]" "[]" 0]
  by (auto simp: parse_gemma_def Let_def split: prod.splits)

lemma qwen_calls_of:
  "pa_tool_calls (parse_qwen sj raw)
     = number_calls (parse_qwen_tool_call sj) 0
         (blocks ''<tool_call>'' ''</tool_call>'' (qwen_outside raw))"
  using qwen_think_content [of raw "[]" "[]"] qwen_calls_blocks [of sj "qwen_outside raw" "[]" "[]" 0]
  by (auto simp: parse_qwen_def Let_def split: prod.splits)

text \<open>
  In every parsed turn, finished or streamed, the k-th tool call carries the id
  \<^verbatim>\<open>call_k\<close> and the type \<^verbatim>\<open>function\<close>: malformed blocks leave no gap.
\<close>

theorem tool_calls_numbered:
  "numbered_from 0 (pa_tool_calls (parse_assistant sj kind raw))
   \<and> numbered_from 0 (pa_tool_calls (snapshot sj kind raw))"
  by (cases kind)
     (simp_all add: parse_assistant_def snapshot_def gemma_calls_of qwen_calls_of default_parsed_def
        gemma_streaming_calls qwen_streaming_calls numbered_number_calls stamps_index_gemma
        stamps_index_qwen)

text \<open>A text without the first byte of every marker holds no marker.\<close>

lemma no_marker_find:
  "CHR ''<'' \<notin> set s \<Longrightarrow> str_find (CHR ''<'' # m) s = None"
  by (simp add: str_find_None) (metis list.set_intros(1) set_mono_sublist subsetD)

lemma no_marker_remove: "CHR ''<'' \<notin> set s \<Longrightarrow> str_remove (CHR ''<'' # m) s = s"
  using no_marker_find str_find_None by auto

lemma remove_all_plain:
  "CHR ''<'' \<notin> set s \<Longrightarrow> remove_all gemma_markers s = s"
  "CHR ''<'' \<notin> set s \<Longrightarrow> remove_all qwen_markers s = s"
  by (simp_all add: remove_all_def gemma_markers_def qwen_markers_def no_marker_remove)

text \<open>
  A turn without \<open><\<close> is passed through by every parser: its content is the trimmed
  text, with no reasoning and no tool call.
\<close>

theorem plain_turn_passes_through:
  assumes "CHR ''<'' \<notin> set raw"
  shows "parse_assistant sj kind raw
           = \<lparr>pa_content = str_trim raw, pa_reasoning = None, pa_tool_calls = []\<rparr>"
  using assms
  by (cases kind)
     (simp_all add: parse_assistant_def parse_gemma_def parse_qwen_def default_parsed_def
        gemma_channels.simps gemma_calls.simps qwen_think.simps qwen_calls.simps
        no_marker_find remove_all_plain reasoning_of_def)

theorem plain_turn_passes_through_witness:
  "parse_assistant (\<lambda>_. None) Gemma ''hello world''
     = \<lparr>pa_content = str_trim ''hello world'', pa_reasoning = None, pa_tool_calls = []\<rparr>"
proof -
  have "CHR ''<'' \<notin> set ''hello world''" by simp
  then show ?thesis by (rule plain_turn_passes_through)
qed

text \<open>A closing marker behind text that holds none of its first byte.\<close>

lemma find_closer:
  assumes "CHR ''<'' \<notin> set u" "CHR ''<'' \<notin> set m"
  shows "str_find (CHR ''<'' # m) (u @ CHR ''<'' # m @ t) = Some (length u)"
proof (rule str_findI)
  fix j assume "j < length u"
  then have "hd (drop j (u @ CHR ''<'' # m @ t)) \<in> set u"
    by (simp add: hd_drop_conv_nth nth_append)
  with assms(1) show "\<not> prefix (CHR ''<'' # m) (drop j (u @ CHR ''<'' # m @ t))"
    by (metis append_Cons list.sel(1) prefix_def)
qed auto

text \<open>
  A Qwen turn that thinks and then answers is split into the trimmed reasoning and the
  trimmed answer.
\<close>

theorem qwen_think_turn:
  assumes "CHR ''<'' \<notin> set r" "CHR ''<'' \<notin> set c"
  shows "parse_qwen sj (''<think>'' @ r @ ''</think>'' @ c)
           = \<lparr>pa_content = str_trim c, pa_reasoning = reasoning_of (str_trim r), pa_tool_calls = []\<rparr>"
proof -
  let ?raw = "''<think>'' @ r @ ''</think>'' @ c"
  have o: "str_find ''<think>'' ?raw = Some 0" by (rule str_find_prefix) simp
  have cl: "str_find ''</think>'' (r @ ''</think>'' @ c) = Some (length r)"
    using find_closer [OF assms(1), of "''/think>''" c] by simp
  have rest: "qwen_think c content buf = (content @ c, buf)" for content buf
    using assms(2) by (simp add: qwen_think.simps no_marker_find)
  have "qwen_think ?raw [] [] = (c, push_reasoning [] (str_trim r))"
    unfolding qwen_think.simps [of ?raw] o using cl rest by simp
  moreover have "qwen_calls sj c [] [] 0 = (c, [])"
    using assms(2) by (simp add: qwen_calls.simps no_marker_find)
  ultimately show ?thesis
    using assms(2) by (simp add: parse_qwen_def remove_all_plain push_reasoning_def)
qed

theorem qwen_think_turn_witness:
  "parse_qwen (\<lambda>_. None) (''<think>'' @ ''why'' @ ''</think>'' @ ''because'')
     = \<lparr>pa_content = str_trim ''because'', pa_reasoning = reasoning_of (str_trim ''why''),
        pa_tool_calls = []\<rparr>"
proof -
  have "CHR ''<'' \<notin> set ''why''" "CHR ''<'' \<notin> set ''because''" by simp_all
  then show ?thesis by (rule qwen_think_turn)
qed

section \<open>Streaming\<close>

text \<open>What every push keeps true of a parser of a marker-based kind.\<close>

definition sp_inv :: "serde_from_str \<Rightarrow> streaming_parser \<Rightarrow> bool" where
  "sp_inv sj p \<longleftrightarrow>
     sp_kind p \<noteq> Passthrough
     \<and> pa_tool_calls (sp_prev p) = pa_tool_calls (snapshot sj (sp_kind p) (sp_accumulated p))
     \<and> sp_prev_completed p = count_occurrences (sp_accumulated p) (closer (sp_kind p))"

lemma closer_nonempty [simp]: "closer kind \<noteq> []"
  by (simp add: closer_def split: parser_kind.split)

lemma sp_inv_new: "kind \<noteq> Passthrough \<Longrightarrow> sp_inv sj (sp_new kind)"
  using snapshot_stream.no_calls_yet
  by (simp add: sp_inv_def sp_new_def default_parsed_def count_occurrences.simps)

lemma sp_inv_push: "sp_inv sj p \<Longrightarrow> sp_inv sj (fst (sp_push sj p c))"
  by (simp add: sp_inv_def sp_push_def Let_def)

lemma sp_push_frame:
  "sp_inv sj p \<Longrightarrow> sp_kind (fst (sp_push sj p c)) = sp_kind p
     \<and> sp_accumulated (fst (sp_push sj p c)) = sp_accumulated p @ c"
  by (simp add: sp_inv_def sp_push_def Let_def)

lemma push_call_events:
  "sp_inv sj p \<Longrightarrow> filter is_call_event (snd (sp_push sj p c))
     = tool_call_events 0 (pa_tool_calls (snapshot sj (sp_kind p) (sp_accumulated p)))
         (pa_tool_calls (snapshot sj (sp_kind p) (sp_accumulated p @ c)))"
  using tool_call_events_prefix
          [of 0 "pa_tool_calls (snapshot sj (sp_kind p) (sp_accumulated p))" "[]"]
  by (auto simp: sp_inv_def sp_push_def Let_def view_simps)

lemma push_end_events:
  "sp_inv sj p \<Longrightarrow> filter is_end_event (snd (sp_push sj p c))
     = map ToolCallEnd [count_occurrences (sp_accumulated p) (closer (sp_kind p))
                        ..<count_occurrences (sp_accumulated p @ c) (closer (sp_kind p))]"
  by (auto simp: sp_inv_def sp_push_def Let_def view_simps)

lemma snd_sp_run_Cons:
  "snd (sp_run sj p (c # cs))
     = snd (sp_push sj p c) @ snd (sp_run sj (fst (sp_push sj p c)) cs)"
  by (simp add: Let_def split: prod.split)

lemma run_call_events:
  "sp_inv sj p \<Longrightarrow> filter is_call_event (snd (sp_run sj p cs))
     = snapshot_stream.reparse_events sj (sp_kind p) (sp_accumulated p) cs"
proof (induction cs arbitrary: p)
  case (Cons c cs)
  have "filter is_call_event (snd (sp_run sj p (c # cs)))
          = filter is_call_event (snd (sp_push sj p c))
            @ filter is_call_event (snd (sp_run sj (fst (sp_push sj p c)) cs))"
    by (simp only: snd_sp_run_Cons filter_append)
  with Cons show ?case
    by (simp add: push_call_events sp_push_frame sp_inv_push)
qed simp

lemma run_end_events:
  "sp_inv sj p \<Longrightarrow> filter is_end_event (snd (sp_run sj p cs))
     = map ToolCallEnd [count_occurrences (sp_accumulated p) (closer (sp_kind p))
                        ..<count_occurrences (sp_accumulated p @ concat cs) (closer (sp_kind p))]"
proof (induction cs arbitrary: p)
  case (Cons c cs)
  let ?n = "\<lambda>s. count_occurrences s (closer (sp_kind p))"
  have "filter is_end_event (snd (sp_run sj p (c # cs)))
          = filter is_end_event (snd (sp_push sj p c))
            @ filter is_end_event (snd (sp_run sj (fst (sp_push sj p c)) cs))"
    by (simp only: snd_sp_run_Cons filter_append)
  also have "\<dots> = map ToolCallEnd [?n (sp_accumulated p)..<?n (sp_accumulated p @ c)]
                  @ map ToolCallEnd [?n (sp_accumulated p @ c)..<?n (sp_accumulated p @ c @ concat cs)]"
    using Cons by (simp add: push_end_events sp_push_frame sp_inv_push)
  also have "\<dots> = map ToolCallEnd [?n (sp_accumulated p)..<?n (sp_accumulated p @ c @ concat cs)]"
    using count_occurrences_append [of "sp_accumulated p" "closer (sp_kind p)" c]
      count_occurrences_append [of "sp_accumulated p @ c" "closer (sp_kind p)" "concat cs"]
    by (simp add: map_append [symmetric] upt_join del: map_append)
  finally show ?case by simp
qed simp

text \<open>
  C13: the tool-call events of a streamed turn depend on its text only, not on how it was cut
  into chunks: each call of the final parse is announced once, in order, with its id, name and
  its complete arguments in one delta, and nothing else is announced.
\<close>

theorem streamed_calls_chunking:
  assumes "kind \<noteq> Passthrough"
  shows "filter is_call_event (snd (sp_run sj (sp_new kind) chunks))
           = announce 0 (pa_tool_calls (snapshot sj kind (concat chunks)))"
  using run_call_events [OF sp_inv_new [OF assms, of sj], of chunks]
    snapshot_stream.run_announces [of sj kind chunks]
  by (simp add: sp_new_def)

theorem streamed_calls_chunking_witness:
  "filter is_call_event
     (snd (sp_run (\<lambda>_. None) (sp_new Gemma) [''<|tool_c'', ''all>call:f{}<tool'', ''_call|>'']))
   = [ToolCallBegin 0 ''call_0'' ''f'', ToolCallArgsDelta 0 ''{}'']"
proof -
  let ?X = "''<|tool_call>call:f{}<tool_call|>''"
  have c: "gemma_outside ?X = ?X"
    "blocks ''<|tool_call>'' ''<tool_call|>'' ?X = [''call:f{}'']"
    "str_trim ''call:f{}'' = ''call:f{}''" "str_trim ''f'' = ''f''" "trim_end ''}'' = ''}''"
    "str_find ''{'' ''f{}'' = Some 1"
    "gemma_args_to_json [] = ''{}''"
    by code_simp+
  have p: "pa_tool_calls (snapshot (\<lambda>_. None) Gemma ?X) = [mk_tool_call 0 ''f'' ''{}'']"
    by (simp add: snapshot_def gemma_streaming_calls c number_calls.simps
        parse_gemma_tool_call_def strip_prefix_def strip_suffix_def suffix_def)
  have s: "show_nat 0 = ''0''" by code_simp
  have q: "concat [''<|tool_c'', ''all>call:f{}<tool'', ''_call|>''] = ?X" by simp
  have g: "Gemma \<noteq> Passthrough" by simp
  have "announce 0 [mk_tool_call 0 ''f'' ''{}'']
          = [ToolCallBegin 0 ''call_0'' ''f'', ToolCallArgsDelta 0 ''{}'']"
    by (simp add: begin_events_def mk_tool_call_def s del: show_nat.simps)
  then show ?thesis
    unfolding streamed_calls_chunking [OF g] q p .
qed

text \<open>
  The end events of a streamed turn are numbered from 0 without gap or repetition, one for
  each closing marker of the text, however it was cut.
\<close>

theorem streamed_ends:
  assumes "kind \<noteq> Passthrough"
  shows "filter is_end_event (snd (sp_run sj (sp_new kind) chunks))
           = map ToolCallEnd [0..<count_occurrences (concat chunks) (closer kind)]"
  using run_end_events [OF sp_inv_new [OF assms, of sj], of chunks]
  by (simp add: sp_new_def count_occurrences.simps)

theorem streamed_ends_witness:
  "filter is_end_event (snd (sp_run (\<lambda>_. None) (sp_new Qwen) [''x</tool_'', ''call>y'']))
     = [ToolCallEnd 0]"
proof -
  have "count_occurrences ''x</tool_call>y'' (closer Qwen) = 1" by code_simp
  with streamed_ends [of Qwen "\<lambda>_. None" "[''x</tool_'', ''call>y'']"]
  show ?thesis by simp
qed

text \<open>
  The pass-through parser forwards every non-empty chunk as it is.
\<close>

lemma passthrough_stream:
  "snd (sp_run sj (sp_new Passthrough) chunks) = map Text (filter (\<lambda>c. c \<noteq> []) chunks)"
proof -
  have "snd (sp_run sj p chunks) = map Text (filter (\<lambda>c. c \<noteq> []) chunks)"
    if "sp_kind p = Passthrough" for p
    using that
  proof (induction chunks arbitrary: p)
    case (Cons c cs)
    then show ?case by (simp add: snd_sp_run_Cons sp_push_def del: sp_run.simps)
  qed simp
  then show ?thesis by (simp add: sp_new_def)
qed

section \<open>Markers that have only begun to arrive\<close>

lemma max_trim_inner:
  "best \<le> foldl (\<lambda>best plen. if suffix (take plen m) s \<and> best < plen then plen else best) best ps
   \<and> (\<forall>plen \<in> set ps. suffix (take plen m) s \<longrightarrow>
        plen \<le> foldl (\<lambda>best plen. if suffix (take plen m) s \<and> best < plen then plen else best) best ps)"
proof (induction ps arbitrary: best)
  case (Cons p ps)
  show ?case
    using Cons.IH [of "if suffix (take p m) s \<and> best < p then p else best"]
    by (auto split: if_splits)
qed simp

lemma max_trim_outer:
  fixes f :: "nat \<Rightarrow> string \<Rightarrow> nat"
  assumes up: "\<And>b m. b \<le> f b m" and hit: "\<And>b m. m \<in> set ms \<Longrightarrow> P m k \<Longrightarrow> k \<le> f b m"
  shows "b \<le> foldl f b ms \<and> (\<forall>m \<in> set ms. P m k \<longrightarrow> k \<le> foldl f b ms)"
  using hit
proof (induction ms arbitrary: b)
  case (Cons m ms)
  then have IH: "f b m \<le> foldl f (f b m) ms \<and> (\<forall>m' \<in> set ms. P m' k \<longrightarrow> k \<le> foldl f (f b m) ms)"
    by simp
  moreover have "P m k \<longrightarrow> k \<le> f b m" using Cons.prems by simp
  ultimately show ?case using up [of b m] by (auto intro: order_trans)
qed simp

lemma max_trim_ge:
  assumes "m \<in> set ms" "1 \<le> plen" "plen < length m" "suffix (take plen m) s"
  shows "plen \<le> max_trim ms s"
proof -
  let ?f = "\<lambda>best m. foldl (\<lambda>best plen. if suffix (take plen m) s \<and> best < plen then plen else best)
              best [1..<length m]"
  let ?P = "\<lambda>m k. 1 \<le> k \<and> k < length m \<and> suffix (take k m) s"
  have up: "b \<le> ?f b m" for b m using max_trim_inner by blast
  have hit: "k \<le> ?f b m" if "?P m k" for b m k
    using max_trim_inner [of b m s "[1..<length m]"] that by auto
  have "0 \<le> foldl ?f 0 ms \<and> (\<forall>m \<in> set ms. ?P m plen \<longrightarrow> plen \<le> foldl ?f 0 ms)"
    by (rule max_trim_outer [where P = ?P, OF up hit])
  with assms show ?thesis by (auto simp: max_trim_def)
qed

lemma held_back:
  assumes m: "m \<in> set ms" and eq: "s @ t = u @ m @ v"
    and over: "length u < length s" "length s < length u + length m"
  shows "length (take (length s - max_trim ms s) s) \<le> length u"
proof -
  let ?k = "length s - length u"
  have "s = take (length s) (u @ m @ v)" by (metis append_eq_conv_conj eq)
  also have "\<dots> = u @ take ?k m" using over by simp
  finally have "s = u @ take ?k m" .
  then have "suffix (take ?k m) s" by (metis suffixI)
  then have "?k \<le> max_trim ms s" using over by (intro max_trim_ge [OF m]) auto
  then show ?thesis by simp
qed

text \<open>
  A structural marker that begins in the text received so far and is completed by what
  arrives later never shows in streamed content: the trimmed content ends before it begins.
  This holds for both marker lists.
\<close>

theorem partial_marker_held_back:
  assumes "s @ t = u @ m @ v" "length u < length s" "length s < length u + length m"
  shows "(m \<in> set gemma_markers \<longrightarrow> length (trim_partial_marker_suffix s) \<le> length u)
       \<and> (m \<in> set qwen_markers \<longrightarrow> length (trim_qwen_partial_marker_suffix s) \<le> length u)"
  unfolding trim_partial_marker_suffix_def trim_qwen_partial_marker_suffix_def
  using held_back assms by blast

theorem partial_marker_held_back_witness:
  "length (trim_partial_marker_suffix ''hi <|tool'') \<le> 3"
proof -
  have "''hi <|tool'' @ ''_call>'' = ''hi '' @ ''<|tool_call>'' @ ''''"
    "length ''hi '' < length ''hi <|tool''"
    "length ''hi <|tool'' < length ''hi '' + length ''<|tool_call>''" by simp_all
  from partial_marker_held_back [OF this] show ?thesis by (simp add: gemma_markers_def)
qed

section \<open>Where the code falls short of its comments\<close>

text \<open>
  The closing marker is counted whether or not the block before it gave a call, so a stray
  \<^verbatim>\<open><tool_call|>\<close> yields an end event for a call that never began.
\<close>

theorem end_without_begin:
  "snd (sp_run sj (sp_new Gemma) [''<tool_call|>'']) = [ToolCallEnd 0]"
proof -
  have g: "gemma_channels_streaming ''<tool_call|>'' [] [] = (''<tool_call|>'', [])"
    "strip_residual_markers ''<tool_call|>'' = []"
    "trim_end (trim_partial_marker_suffix []) = []"
    by code_simp+
  have "gemma_calls_streaming ''<tool_call|>'' [] [] 0 = (''<tool_call|>'', [])"
    by code_simp
  then have "parse_gemma_streaming ''<tool_call|>'' = default_parsed"
    by (simp add: parse_gemma_streaming_def default_parsed_def reasoning_of_def g)
  moreover have "count_occurrences ''<tool_call|>'' ''<tool_call|>'' = 1" by code_simp
  ultimately show ?thesis
    by (simp add: sp_push_def sp_new_def snapshot_def closer_def default_parsed_def
        content_events_def reasoning_events_def)
qed

text \<open>
  The reasoning of an open \<^verbatim>\<open><think>\<close> block is not held back at a partial marker:
  cut inside \<^verbatim>\<open></think>\<close>, the beginning of the marker is streamed as reasoning, although
  the finished turn does not contain it.
\<close>

theorem reasoning_leaks_partial_marker:
  "snd (sp_run sj (sp_new Qwen) [''<think>a</thi'', ''nk>b'']) = [Reasoning ''a</thi'', Text ''b'']
   \<and> pa_reasoning (parse_qwen sj ''<think>a</think>b'') = Some ''a''"
proof -
  have 1: "qwen_think ''<think>a</thi'' [] [] = ([], ''a</thi'')"
    and 2: "qwen_think ''<think>a</think>b'' [] [] = (''b'', ''a'')"
    by code_simp+
  have 3: "qwen_calls sj [] [] [] 0 = ([], [])" "qwen_calls sj ''b'' [] [] 0 = (''b'', [])"
    by (simp_all add: qwen_calls.simps)
  have 4: "remove_all qwen_markers [] = []" "remove_all qwen_markers ''b'' = ''b''"
    "trim_qwen_partial_marker_suffix [] = []" "trim_qwen_partial_marker_suffix ''b'' = ''b''"
    "trim_end [] = []" "trim_end ''b'' = ''b''"
    "count_occurrences ''<think>a</thi'' ''</tool_call>'' = 0"
    "count_occurrences ''<think>a</think>b'' ''</tool_call>'' = 0"
    by code_simp+
  have p1: "parse_qwen_streaming sj ''<think>a</thi''
              = \<lparr>pa_content = [], pa_reasoning = Some ''a</thi'', pa_tool_calls = []\<rparr>"
    by (simp only: parse_qwen_streaming_def Let_def 1 3 4 prod.case) (simp add: reasoning_of_def)
  have p2: "parse_qwen_streaming sj ''<think>a</think>b''
              = \<lparr>pa_content = ''b'', pa_reasoning = Some ''a'', pa_tool_calls = []\<rparr>"
    by (simp only: parse_qwen_streaming_def Let_def 2 3 4 prod.case) (simp add: reasoning_of_def)
  have "pa_reasoning (parse_qwen sj ''<think>a</think>b'') = Some ''a''"
    by (simp only: parse_qwen_def Let_def 2 3 prod.case) (simp add: reasoning_of_def)
  then show ?thesis
    using p1 p2 4(7,8)
    by (simp add: sp_push_def sp_new_def snapshot_def closer_def default_parsed_def
        content_events_def reasoning_events_def)
qed

end
