(* ===== verification/PrefixTrie.thy ===== *)
theory PrefixTrie
  imports Prelude "HOL-Library.AList"
begin

text \<open>
  The radix trie under the KV prefix cache
  (\<^verbatim>\<open>aegisllm-cuda/src/executor/prefix_cache.rs\<close>): nodes, the longest-prefix walk,
  insertion with edge splitting, the search for the least recently used leaf and the removal of a
  path. A \<^verbatim>\<open>HashMap\<close> from first tokens to nodes is an association list with distinct
  keys; nothing proved depends on its order. A raw pointer to a node is the path of first tokens
  that leads to it. Tokens, pages and ticks are natural numbers: they are compared and counted,
  and the clock would need \<open>2 ^ 64\<close> calls to wrap.
\<close>

section \<open>Nodes\<close>

datatype radix_node = RadixNode
  (rn_edge: "nat list")
  (rn_pages: "nat list")
  (rn_lru_tick: nat)
  (rn_children: "(nat \<times> radix_node) list")

type_synonym radix_children = "(nat \<times> radix_node) list"

definition rn_new :: "nat list \<Rightarrow> nat list \<Rightarrow> nat \<Rightarrow> radix_node" where
  "rn_new edge pages tick = RadixNode edge pages tick []"

abbreviation trie_size :: "radix_children \<Rightarrow> nat" where
  "trie_size ch \<equiv> size (RadixNode [] [] 0 ch)"

lemma child_smaller:
  "(k, n) \<in> set ch \<Longrightarrow> trie_size (rn_children n) < trie_size ch"
proof -
  assume a: "(k, n) \<in> set ch"
  obtain e p t c where n: "n = RadixNode e p t c" by (cases n)
  have "size_prod (\<lambda>_. 0) size (k, n) \<le> size_list (size_prod (\<lambda>_. 0) size) ch"
    using a by (rule size_list_estimation') simp
  then show ?thesis by (simp add: n)
qed

lemma found_smaller:
  "map_of ch k = Some n \<Longrightarrow> trie_size (rn_children n) < trie_size ch"
  by (rule child_smaller) (rule map_of_SomeD)

text \<open>\<^verbatim>\<open>edge.iter().zip(tokens).take_while(|(a, b)| a == b).count()\<close>.\<close>

definition shared_len :: "nat list \<Rightarrow> nat list \<Rightarrow> nat" where
  "shared_len edge tokens = length (takeWhile (\<lambda>(a, b). a = b) (zip edge tokens))"

lemma shared_len_simps [simp]:
  "shared_len [] ts = 0" "shared_len es [] = 0"
  "shared_len (e # es) (t # ts) = (if e = t then Suc (shared_len es ts) else 0)"
  by (simp_all add: shared_len_def)

lemma shared_len_le: "shared_len es ts \<le> length es" "shared_len es ts \<le> length ts"
  by (induction es ts rule: list_induct2') auto

lemma shared_len_take: "take (shared_len es ts) es = take (shared_len es ts) ts"
  by (induction es ts rule: list_induct2') auto

lemma shared_len_full: "shared_len es ts = length es \<longleftrightarrow> prefix es ts"
  by (induction es ts rule: list_induct2') auto

lemma shared_len_differ:
  "shared_len es ts < length es \<Longrightarrow> shared_len es ts < length ts
     \<Longrightarrow> es ! shared_len es ts \<noteq> ts ! shared_len es ts"
  by (induction es ts rule: list_induct2') auto

section \<open>Operations\<close>

function lookup_immutable ::
  "radix_children \<Rightarrow> nat list \<Rightarrow> nat \<times> nat list \<times> nat list option" where
  "lookup_immutable children tokens =
     (case tokens of
        [] \<Rightarrow> (0, [], None)
      | first # _ \<Rightarrow>
          (case map_of children first of
             None \<Rightarrow> (0, [], None)
           | Some node \<Rightarrow>
               (let edge = rn_edge node; shared = shared_len edge tokens
                in if shared < length edge then (0, [], None)
                   else let rest = drop shared tokens;
                            (sub_matched, sub_pages, sub_ptr) =
                              (if rest \<noteq> [] then lookup_immutable (rn_children node) rest
                               else (0, [], None))
                        in if sub_matched > 0
                           then (shared + sub_matched, sub_pages, map_option ((#) first) sub_ptr)
                           else (shared, rn_pages node, Some [first]))))"
  by pat_completeness auto
termination
  by (relation "measure (\<lambda>(ch, _). trie_size ch)") (use found_smaller in auto)

declare lookup_immutable.simps [simp del]

definition first_in :: "radix_children \<Rightarrow> nat list \<Rightarrow> bool" where
  "first_in ch ts = (case ts of [] \<Rightarrow> False | t # _ \<Rightarrow> map_of ch t \<noteq> None)"

function insert_into ::
  "radix_children \<Rightarrow> nat list \<Rightarrow> nat list \<Rightarrow> nat \<Rightarrow> radix_children" where
  "insert_into children tokens pages tick =
     (case tokens of
        [] \<Rightarrow> children
      | first # _ \<Rightarrow>
          (case map_of children first of
             Some node \<Rightarrow>
               (let edge = rn_edge node; shared = shared_len edge tokens
                in if shared = length edge \<and> shared = length tokens
                   then AList.update first
                          (RadixNode edge pages tick (rn_children node)) children
                   else if shared = length edge
                   then AList.update first
                          (RadixNode edge (rn_pages node) (rn_lru_tick node)
                             (insert_into (rn_children node) (drop shared tokens) pages tick))
                          children
                   else let common = take shared edge; rest_edge = drop shared edge;
                            rest_tokens = drop shared tokens;
                            old_child = RadixNode rest_edge (rn_pages node) (rn_lru_tick node)
                                          (rn_children node);
                            common_pages = take (min (length (rn_pages node)) shared)
                                             (rn_pages node);
                            moved = [(hd rest_edge, old_child)]
                        in AList.update first
                             (if rest_tokens \<noteq> []
                              then RadixNode common common_pages tick
                                     (insert_into moved rest_tokens pages tick)
                              else RadixNode common pages tick moved)
                             (AList.delete first children))
           | None \<Rightarrow> AList.update first (rn_new tokens pages tick) children))"
  by pat_completeness auto
termination
proof (relation "measure (\<lambda>(ch, ts, _). if first_in ch ts then trie_size ch else 0)", goal_cases)
  case (2 children tokens pages tick first ts node edge shared)
  then show ?case
    using found_smaller [of children first node] by (auto simp: first_in_def)
next
  case (3 children tokens pages tick first ts node edge shared)
  then have "shared < length edge" "shared < length tokens"
    using shared_len_le [of edge tokens] by (auto simp: le_less)
  moreover from this 3 have "edge ! shared \<noteq> tokens ! shared"
    using shared_len_differ [of edge tokens] by simp
  ultimately show ?case
    using 3 by (auto simp: first_in_def hd_drop_conv_nth neq_Nil_conv
        split: list.splits dest: arg_cong [where f = hd])
qed simp

declare insert_into.simps [simp del]

fun find_lru_loop ::
  "radix_children \<Rightarrow> nat \<Rightarrow> (nat list \<times> nat) option \<Rightarrow> (nat list \<times> nat) option" where
  "find_lru_loop [] best_tick best = best"
| "find_lru_loop ((first, RadixNode edge pages tick children) # rest) best_tick best =
     (let candidate =
            (if children = [] then ([first], length pages)
             else case find_lru_loop children tick None of
                    Some (sub_path, sub_pages) \<Rightarrow> (first # sub_path, sub_pages)
                  | None \<Rightarrow> ([first], length pages))
      in if tick < best_tick then find_lru_loop rest tick (Some candidate)
         else find_lru_loop rest best_tick best)"

definition find_lru_leaf :: "radix_children \<Rightarrow> nat \<Rightarrow> (nat list \<times> nat) option" where
  "find_lru_leaf children parent_tick = find_lru_loop children parent_tick None"

fun remove_path :: "radix_children \<Rightarrow> nat list \<Rightarrow> radix_children" where
  "remove_path children [] = children"
| "remove_path children [first] = AList.delete first children"
| "remove_path children (first # next # path) =
     (case map_of children first of
        None \<Rightarrow> children
      | Some (RadixNode edge pages tick ch) \<Rightarrow>
          (let ch' = remove_path ch (next # path)
           in if ch' = [] then AList.delete first children
              else AList.update first (RadixNode edge pages tick ch') children))"

text \<open>\<^verbatim>\<open>(*ptr).lru_tick = tick\<close>, the pointer being a path.\<close>

fun touch :: "radix_children \<Rightarrow> nat list \<Rightarrow> nat \<Rightarrow> radix_children" where
  "touch children [] tick = children"
| "touch children (first # path) tick =
     (case map_of children first of
        None \<Rightarrow> children
      | Some (RadixNode edge pages t ch) \<Rightarrow>
          AList.update first
            (if path = [] then RadixNode edge pages tick ch
             else RadixNode edge pages t (touch ch path tick)) children)"

end
