(* ===== verification/PrefixEntries.thy ===== *)
theory PrefixEntries
  imports PrefixTrie
begin

text \<open>
  What a radix trie stores: the map from complete prefixes to page tables (\<open>entry\<close>), the shape
  every operation keeps (\<open>trie_ok\<close>), and the effect of the walk, of insertion, of touching a node
  and of removing a path on both.
\<close>

section \<open>Contents and shape\<close>

function entry :: "radix_children \<Rightarrow> nat list \<Rightarrow> nat list option" where
  "entry children q =
     (case q of
        [] \<Rightarrow> None
      | first # _ \<Rightarrow>
          (case map_of children first of
             None \<Rightarrow> None
           | Some node \<Rightarrow>
               (if prefix (rn_edge node) q
                then if q = rn_edge node then Some (rn_pages node)
                     else entry (rn_children node) (drop (length (rn_edge node)) q)
                else None)))"
  by pat_completeness auto
termination
  by (relation "measure (\<lambda>(ch, _). trie_size ch)") (use found_smaller in auto)

declare entry.simps [simp del]

function trie_ok :: "radix_children \<Rightarrow> bool" where
  "trie_ok ch \<longleftrightarrow> distinct (map fst ch) \<and>
     (\<forall>(k, n) \<in> set ch. rn_edge n \<noteq> [] \<and> hd (rn_edge n) = k \<and> trie_ok (rn_children n))"
  by pat_completeness auto
termination
  by (relation "measure trie_size") (use child_smaller in auto)

declare trie_ok.simps [simp del]

lemma trie_ok_Nil [simp]: "trie_ok []"
  by (subst trie_ok.simps) simp

lemma trie_ok_found:
  "trie_ok ch \<Longrightarrow> map_of ch k = Some n
     \<Longrightarrow> rn_edge n \<noteq> [] \<and> hd (rn_edge n) = k \<and> trie_ok (rn_children n)"
  using trie_ok.simps [of ch] by (auto dest: map_of_SomeD)

lemma trie_ok_update:
  assumes "trie_ok ch" and "rn_edge n \<noteq> []" and "hd (rn_edge n) = k" and "trie_ok (rn_children n)"
  shows "trie_ok (AList.update k n ch)"
proof -
  have "distinct (map fst (AList.update k n ch))"
    using assms(1) by (simp add: trie_ok.simps [of ch] distinct_update)
  moreover have "(k', n') \<in> set (AList.update k n ch) \<Longrightarrow> k' = k \<and> n' = n \<or> (k', n') \<in> set ch"
    for k' n'
    by (induction ch) (auto split: if_splits)
  ultimately show ?thesis
    using assms(2-4) trie_ok.simps [of ch] assms(1) trie_ok.simps [of "AList.update k n ch"] by blast
qed

lemma trie_ok_delete: "trie_ok ch \<Longrightarrow> trie_ok (AList.delete k ch)"
  by (subst trie_ok.simps, subst (asm) trie_ok.simps) (auto simp: AList.delete_eq distinct_map_filter)

lemma entry_Nil [simp]: "entry ch [] = None"
  by (simp add: entry.simps)

lemma entry_empty [simp]: "entry [] q = None"
  by (subst entry.simps) (simp split: list.split)

lemma entry_missing: "q \<noteq> [] \<Longrightarrow> map_of ch (hd q) = None \<Longrightarrow> entry ch q = None"
  by (subst entry.simps) (auto split: list.split)

lemma entry_found:
  "q \<noteq> [] \<Longrightarrow> map_of ch (hd q) = Some n \<Longrightarrow>
     entry ch q = (if prefix (rn_edge n) q
                   then if q = rn_edge n then Some (rn_pages n)
                        else entry (rn_children n) (drop (length (rn_edge n)) q)
                   else None)"
  by (subst entry.simps) (auto split: list.split)

lemma entry_other:
  "map_of ch' (hd q) = map_of ch (hd q) \<Longrightarrow> entry ch' q = entry ch q"
  by (cases "q = []"; cases "map_of ch (hd q)") (simp_all add: entry_missing entry_found)

lemma entry_node:
  "rn_edge n \<noteq> [] \<Longrightarrow> hd (rn_edge n) = k \<Longrightarrow>
     entry (AList.update k n ch) q =
       (if q \<noteq> [] \<and> hd q = k
        then (if prefix (rn_edge n) q
              then if q = rn_edge n then Some (rn_pages n)
                   else entry (rn_children n) (drop (length (rn_edge n)) q)
              else None)
        else entry ch q)"
  by (cases "q \<noteq> [] \<and> hd q = k")
    (auto simp: entry_found update_conv' intro: entry_other)

section \<open>The walk finds the longest stored prefix\<close>

definition longest_hit :: "radix_children \<Rightarrow> nat list \<Rightarrow> nat \<Rightarrow> nat list \<Rightarrow> bool" where
  "longest_hit ch ts n pages \<longleftrightarrow>
     (if n = 0 then \<forall>q. prefix q ts \<longrightarrow> entry ch q = None
      else n \<le> length ts \<and> entry ch (take n ts) = Some pages
           \<and> (\<forall>q. prefix q ts \<longrightarrow> n < length q \<longrightarrow> entry ch q = None))"

lemma prefix_via_drop:
  "prefix e ts \<Longrightarrow> prefix q ts \<Longrightarrow> prefix e q \<Longrightarrow> prefix (drop (length e) q) (drop (length e) ts)"
  by (auto simp: prefix_def)

lemma lookup_immutable_longest:
  "trie_ok ch \<Longrightarrow> lookup_immutable ch ts = (n, pages, ptr) \<Longrightarrow> longest_hit ch ts n pages"
proof (induction ch ts arbitrary: n pages ptr rule: lookup_immutable.induct)
  case (1 ch ts)
  show ?case
  proof (cases "ts = [] \<or> map_of ch (hd ts) = None")
    case True
    have "entry ch q = None" if "prefix q ts" for q
    proof (cases "q = []")
      case False
      with that True have "ts \<noteq> []" "hd q = hd ts" by (auto simp: prefix_def)
      with True False show ?thesis by (simp add: entry_missing)
    qed simp
    moreover have "n = 0" using True "1.prems"(2) by (cases ts) (auto simp: lookup_immutable.simps)
    ultimately show ?thesis by (simp add: longest_hit_def)
  next
    case False
    then obtain f ts' node where ts: "ts = f # ts'" and f: "map_of ch f = Some node"
      by (cases ts) auto
    note ok = trie_ok_found [OF "1.prems"(1) f]
    let ?e = "rn_edge node"
    have heads: "q \<noteq> [] \<Longrightarrow> prefix q ts \<Longrightarrow> map_of ch (hd q) = Some node" for q
      using f by (auto simp: ts prefix_def neq_Nil_conv Cons_eq_append_conv)
    show ?thesis
    proof (cases "prefix ?e ts")
      case False
      then have "shared_len ?e ts < length ?e"
        using shared_len_full [of ?e ts] shared_len_le(1) [of ?e ts] by linarith
      then have "n = 0"
        using "1.prems"(2) f by (subst (asm) lookup_immutable.simps) (simp add: ts Let_def)
      moreover have "entry ch q = None" if q: "prefix q ts" for q
      proof (cases "q = []")
        case nonempty: False
        have "\<not> prefix ?e q" using False q prefix_order.trans by blast
        then show ?thesis by (simp add: entry_found [OF nonempty heads [OF nonempty q]])
      qed simp
      ultimately show ?thesis by (simp add: longest_hit_def)
    next
      case True
      then have sh: "shared_len ?e ts = length ?e" by (simp add: shared_len_full)
      let ?rest = "drop (length ?e) ts"
      obtain m sp pt where sub: "lookup_immutable (rn_children node) ?rest = (m, sp, pt)"
        by (metis prod_cases3)
      have IH: "longest_hit (rn_children node) ?rest m sp"
      proof (cases "?rest = []")
        case True
        with sub show ?thesis by (simp add: lookup_immutable.simps longest_hit_def)
      next
        case False
        from "1.IH" [OF ts f refl refl _ refl, unfolded sh, OF _ False _ sub] ok
        show ?thesis by simp
      qed
      have res: "(n, pages) = (if m > 0 then (length ?e + m, sp) else (length ?e, rn_pages node))"
        using "1.prems"(2) f sub ts sh
        by (subst (asm) lookup_immutable.simps)
          (auto simp: Let_def lookup_immutable.simps [of _ "[]"] split: if_splits)
      have down: "entry ch q = (if q = ?e then Some (rn_pages node)
                                 else entry (rn_children node) (drop (length ?e) q))"
        if "prefix ?e q" "prefix q ts" for q
      proof -
        have "q \<noteq> []" using that(1) ok by auto
        with heads [OF this that(2)] that(1) show ?thesis by (simp add: entry_found [of q ch node])
      qed
      have longer: "entry ch q = None" if "prefix q ts" "n < length q" for q
      proof -
        have "length ?e < length q" using that res by (auto split: if_splits)
        with that True have e: "prefix ?e q" "q \<noteq> ?e"
          using prefix_length_prefix [of ?e ts q] by auto
        from prefix_via_drop [OF True that(1) e(1)] that(2) IH res
        have "entry (rn_children node) (drop (length ?e) q) = None"
          by (auto simp: longest_hit_def split: if_splits)
        then show ?thesis using down [OF e(1) that(1)] e(2) by simp
      qed
      have "n \<le> length ts \<and> entry ch (take n ts) = Some pages"
      proof (cases "m > 0")
        case True
        with IH have m: "m \<le> length ?rest" "entry (rn_children node) (take m ?rest) = Some sp"
          by (simp_all add: longest_hit_def)
        from True res have np: "n = length ?e + m" "pages = sp" by auto
        obtain r where r: "ts = ?e @ r" using \<open>prefix ?e ts\<close> by (auto simp: prefix_def)
        have "prefix ?e (take n ts)" "prefix (take n ts) ts" "take n ts \<noteq> ?e"
          using m(1) True r by (auto simp: np take_is_prefix)
        with down [of "take n ts"] m np r show ?thesis by auto
      next
        case False
        with res have np: "n = length ?e" "pages = rn_pages node" by auto
        have "take n ts = ?e" using \<open>prefix ?e ts\<close> by (auto simp: np prefix_def)
        then show ?thesis
          using down [of ?e] prefix_length_le [OF \<open>prefix ?e ts\<close>] \<open>prefix ?e ts\<close> np by simp
      qed
      moreover have "n \<noteq> 0" using res ok by (auto split: if_splits)
      ultimately show ?thesis using longer by (simp add: longest_hit_def)
    qed
  qed
qed

section \<open>Insertion\<close>

text \<open>
  After an insertion the new prefix has the new pages, every other entry is as before, except that
  the point where an edge was split may have become an entry: a beginning of the new prefix that
  holds a beginning of the pages of a longer entry.
\<close>

definition inserted ::
  "radix_children \<Rightarrow> radix_children \<Rightarrow> nat list \<Rightarrow> nat list \<Rightarrow> bool" where
  "inserted ch ch' ts pages \<longleftrightarrow>
     (\<forall>q. if q = ts then entry ch' q = Some pages
          else entry ch' q = entry ch q
               \<or> entry ch q = None \<and> strict_prefix q ts
                 \<and> (\<exists>q' z y. strict_prefix q q' \<and> entry ch q' = Some z
                       \<and> entry ch' q = Some y \<and> prefix y z))"

lemma insert_into_missing:
  assumes "ts \<noteq> []" and "map_of ch (hd ts) = None"
  shows "insert_into ch ts pages tick = AList.update (hd ts) (rn_new ts pages tick) ch"
  using assms by (subst insert_into.simps) (auto split: list.split)

lemma entry_insert_missing:
  assumes "ts \<noteq> []" and "map_of ch (hd ts) = None"
  shows "entry (insert_into ch ts pages tick) q = (if q = ts then Some pages else entry ch q)"
  using assms
  by (auto simp: insert_into_missing entry_node rn_new_def entry_missing)

lemma trie_ok_insert_missing:
  assumes "ts \<noteq> []" and "map_of ch (hd ts) = None" and "trie_ok ch"
  shows "trie_ok (insert_into ch ts pages tick)"
  using assms by (simp add: insert_into_missing trie_ok_update rn_new_def)

lemma insert_into_found:
  assumes "ts \<noteq> []" and "map_of ch (hd ts) = Some node"
  shows "insert_into ch ts pages tick =
    (let edge = rn_edge node; shared = shared_len edge ts
     in if shared = length edge \<and> shared = length ts
        then AList.update (hd ts) (RadixNode edge pages tick (rn_children node)) ch
        else if shared = length edge
        then AList.update (hd ts)
               (RadixNode edge (rn_pages node) (rn_lru_tick node)
                  (insert_into (rn_children node) (drop shared ts) pages tick)) ch
        else let moved = [(hd (drop shared edge),
                           RadixNode (drop shared edge) (rn_pages node) (rn_lru_tick node)
                             (rn_children node))]
             in AList.update (hd ts)
                  (if drop shared ts \<noteq> []
                   then RadixNode (take shared edge)
                          (take (min (length (rn_pages node)) shared) (rn_pages node)) tick
                          (insert_into moved (drop shared ts) pages tick)
                   else RadixNode (take shared edge) pages tick moved)
                  (AList.delete (hd ts) ch))"
  using assms by (subst insert_into.simps) (auto simp: Let_def split: list.split)

lemma entry_delete: "entry (AList.delete k ch) q = (if q \<noteq> [] \<and> hd q = k then None else entry ch q)"
  by (auto simp: delete_conv' intro: entry_other entry_missing)

text \<open>The split of an edge, the three pieces named.\<close>

lemma inserted_split:
  assumes ok: "trie_ok ch" and f: "map_of ch (hd ts) = Some node"
    and edge: "rn_edge node = common @ rest_edge" and ts: "ts = common @ rest"
    and ne: "common \<noteq> []" "rest_edge \<noteq> []" and differ: "rest \<noteq> [] \<Longrightarrow> hd rest \<noteq> hd rest_edge"
    and moved: "moved = [(hd rest_edge, RadixNode rest_edge (rn_pages node) t (rn_children node))]"
    and new: "new = (if rest \<noteq> [] then RadixNode common cp tick (insert_into moved rest pages tick)
                     else RadixNode common pages tick moved)"
    and cp: "prefix cp (rn_pages node)"
  shows "trie_ok (AList.update (hd ts) new (AList.delete (hd ts) ch))
         \<and> inserted ch (AList.update (hd ts) new (AList.delete (hd ts) ch)) ts pages"
proof
  have hd: "hd ts = hd common" and tsne: "ts \<noteq> []" using ne(1) by (simp_all add: ts)
  have okn: "trie_ok (rn_children node)" using trie_ok_found [OF ok f] by simp
  have okm: "trie_ok moved"
    using okn ne by (subst trie_ok.simps) (simp add: moved)
  have miss: "rest \<noteq> [] \<Longrightarrow> map_of moved (hd rest) = None" using differ by (simp add: moved)
  have n: "rn_edge new = common" "trie_ok (rn_children new)"
    using okm trie_ok_insert_missing [OF _ miss okm] by (auto simp: new)
  show "trie_ok (AList.update (hd ts) new (AList.delete (hd ts) ch))"
    using ok n ne hd by (intro trie_ok_update trie_ok_delete) auto
  have em: "entry moved r = (if prefix rest_edge r then if r = rest_edge then Some (rn_pages node)
               else entry (rn_children node) (drop (length rest_edge) r) else None)" for r
  proof (cases "r \<noteq> [] \<and> hd r = hd rest_edge")
    case True
    then show ?thesis by (simp add: moved entry_found)
  next
    case False
    then have "\<not> prefix rest_edge r" using ne(2) by (auto simp: prefix_def)
    with False show ?thesis by (cases "r = []") (simp_all add: moved entry_missing)
  qed
  have em': "entry moved r = (if r = [] then None else entry ch (common @ r))" for r
    using f hd ne by (auto simp: em entry_found edge)
  have kids: "entry (rn_children new) r =
      (if rest \<noteq> [] \<and> r = rest then Some pages else entry moved r)" for r
    using entry_insert_missing [of rest moved pages tick r] miss by (cases "rest = []") (simp_all add: new)
  have pg: "rn_pages new = (if rest \<noteq> [] then cp else pages)" by (simp add: new)
  show "inserted ch (AList.update (hd ts) new (AList.delete (hd ts) ch)) ts pages"
    unfolding inserted_def
  proof
    fix q
    let ?ch' = "AList.update (hd ts) new (AList.delete (hd ts) ch)"
    have E: "entry ?ch' q =
        (if q \<noteq> [] \<and> hd q = hd ts
         then if prefix common q
              then if q = common then Some (rn_pages new)
                   else entry (rn_children new) (drop (length common) q)
              else None
         else entry ch q)"
      using n ne hd by (simp add: entry_node entry_delete)
    show "if q = ts then entry ?ch' q = Some pages
          else entry ?ch' q = entry ch q
               \<or> entry ch q = None \<and> strict_prefix q ts
                 \<and> (\<exists>q' z y. strict_prefix q q' \<and> entry ch q' = Some z
                       \<and> entry ?ch' q = Some y \<and> prefix y z)"
    proof (cases "prefix common q")
      case False
      then have "entry ?ch' q = entry ch q"
        using E f by (auto simp: entry_found edge dest: append_prefixD)
      with False show ?thesis by (auto simp: ts)
    next
      case True
      then obtain r where q: "q = common @ r" by (auto simp: prefix_def)
      then have E': "entry ?ch' q = (if r = [] then Some (rn_pages new) else entry (rn_children new) r)"
        using E ne hd by simp
      show ?thesis
      proof (cases "r = [] \<and> rest \<noteq> []")
        case False
        have e: "entry ?ch' q = (if r = rest then Some pages else entry ch q)"
        proof (cases "r = []")
          case True
          with False show ?thesis using E' by (simp add: pg)
        next
          case r: False
          then have "entry ?ch' q = entry (rn_children new) r" using E' by simp
          with r show ?thesis by (simp add: kids em' q)
        qed
        show ?thesis
        proof (cases "r = rest")
          case True
          with e show ?thesis by (simp add: q ts)
        next
          case False
          with e show ?thesis by (simp add: q ts)
        qed
      next
        case split: True
        have "entry ch q = None" using f hd ne split by (simp add: q entry_found edge)
        moreover have "entry ch (common @ rest_edge) = Some (rn_pages node)"
          using f hd ne by (simp add: entry_found edge)
        moreover have "strict_prefix q (common @ rest_edge)" "strict_prefix q ts"
          using split ne by (auto simp: q ts strict_prefix_def)
        ultimately show ?thesis using E' split cp pg by auto
      qed
    qed
  qed
qed

lemma insert_into_inserted:
  "trie_ok ch \<Longrightarrow> ts \<noteq> [] \<Longrightarrow>
     trie_ok (insert_into ch ts pages tick) \<and> inserted ch (insert_into ch ts pages tick) ts pages"
proof (induction ch ts pages tick rule: insert_into.induct)
  case (1 ch ts pages tick)
  show ?case
  proof (cases "map_of ch (hd ts)")
    case None
    then show ?thesis
      using "1.prems" by (simp add: inserted_def entry_insert_missing trie_ok_insert_missing)
  next
    case (Some node)
    let ?e = "rn_edge node" and ?c = "rn_children node"
    define sh where "sh = shared_len ?e ts"
    have ok: "?e \<noteq> []" "hd ?e = hd ts" "trie_ok ?c"
      using trie_ok_found [OF "1.prems"(1) Some] by auto
    note E = insert_into_found [OF "1.prems"(2) Some, of pages tick, unfolded Let_def, folded sh_def]
    have E1: "sh = length ?e \<Longrightarrow> sh = length ts \<Longrightarrow> insert_into ch ts pages tick
                = AList.update (hd ts) (RadixNode ?e pages tick ?c) ch"
      and E2: "sh = length ?e \<Longrightarrow> sh \<noteq> length ts \<Longrightarrow> insert_into ch ts pages tick
                = AList.update (hd ts) (RadixNode ?e (rn_pages node) (rn_lru_tick node)
                    (insert_into ?c (drop sh ts) pages tick)) ch"
      using E by simp_all
    have old: "entry ch q = (if prefix ?e q then if q = ?e then Some (rn_pages node)
                 else entry ?c (drop (length ?e) q) else None)" if "q \<noteq> []" "hd q = hd ts" for q
      using that Some by (simp add: entry_found)
    consider (exact) "sh = length ?e" "sh = length ts" | (deeper) "sh = length ?e" "sh \<noteq> length ts"
      | (split) "sh < length ?e"
      using shared_len_le [of ?e ts] sh_def by linarith
    then show ?thesis
    proof cases
      case exact
      then have "?e = ts"
        using shared_len_full [of ?e ts] sh_def by (auto simp: prefix_def)
      then show ?thesis
        using "1.prems" ok E1 [OF exact] old
        by (auto simp: inserted_def entry_node intro!: trie_ok_update)
    next
      case deeper
      then obtain rest where ts: "ts = ?e @ rest"
        using shared_len_full [of ?e ts] sh_def by (auto simp: prefix_def)
      then have rest: "drop sh ts = rest" "rest \<noteq> []" using deeper by auto
      let ?c' = "insert_into ?c rest pages tick"
      from "1.prems"(2) obtain t0 ts0 where tc: "ts = t0 # ts0" by (cases ts) auto
      have IH: "trie_ok ?c'" "inserted ?c ?c' rest pages"
        using "1.IH"(1) [of t0 ts0 node ?e sh] tc Some deeper ok rest sh_def by auto
      have eq: "insert_into ch ts pages tick
                = AList.update (hd ts) (RadixNode ?e (rn_pages node) (rn_lru_tick node) ?c') ch"
        using E2 [OF deeper] rest by simp
      have "inserted ch (insert_into ch ts pages tick) ts pages"
        unfolding inserted_def
      proof
        fix q
        show "if q = ts then entry (insert_into ch ts pages tick) q = Some pages
          else entry (insert_into ch ts pages tick) q = entry ch q
               \<or> entry ch q = None \<and> strict_prefix q ts
                 \<and> (\<exists>q' z y. strict_prefix q q' \<and> entry ch q' = Some z
                       \<and> entry (insert_into ch ts pages tick) q = Some y \<and> prefix y z)"
        proof (cases "prefix ?e q \<and> q \<noteq> ?e")
          case False
          then have "q \<noteq> ts" using rest by (auto simp: ts)
          moreover have "entry (insert_into ch ts pages tick) q = entry ch q"
            using False ok old [of q] by (auto simp: eq entry_node)
          ultimately show ?thesis by simp
        next
          case True
          then obtain r where q: "q = ?e @ r" "r \<noteq> []" by (auto simp: prefix_def)
          have new_old: "entry (insert_into ch ts pages tick) q = entry ?c' r"
            and under: "\<And>r. r \<noteq> [] \<Longrightarrow> entry ch (?e @ r) = entry ?c r"
            using ok q old by (simp_all add: eq entry_node)
          from IH(2) have "if r = rest then entry ?c' r = Some pages
            else entry ?c' r = entry ?c r \<or> entry ?c r = None \<and> strict_prefix r rest
                 \<and> (\<exists>q' z y. strict_prefix r q' \<and> entry ?c q' = Some z
                       \<and> entry ?c' r = Some y \<and> prefix y z)"
            unfolding inserted_def by blast
          then show ?thesis
          proof (cases "r = rest \<or> entry ?c' r = entry ?c r")
            case False
            with \<open>if r = rest then _ else _\<close> obtain q' z y
              where w: "entry ?c r = None" "strict_prefix r rest" "strict_prefix r q'"
                "entry ?c q' = Some z" "entry ?c' r = Some y" "prefix y z" by auto
            then have "q' \<noteq> []" by auto
            then have "strict_prefix q (?e @ q') \<and> entry ch (?e @ q') = Some z"
              using w under [of q'] by (auto simp: q strict_prefix_def)
            moreover have "strict_prefix q ts" using w by (auto simp: q ts strict_prefix_def)
            ultimately show ?thesis using w new_old under q by fastforce
          qed (use new_old under q ts in auto)
        qed
      qed
      moreover have "trie_ok (insert_into ch ts pages tick)"
        unfolding eq using "1.prems" ok IH by (intro trie_ok_update) auto
      ultimately show ?thesis by simp
    next
      case split
      have take_eq: "take sh ?e = take sh ts" by (simp add: sh_def shared_len_take)
      have "sh \<noteq> 0"
        using ok "1.prems"(2) by (cases ?e; cases ts) (auto simp: sh_def)
      moreover have "sh \<le> length ts" using shared_len_le by (simp add: sh_def)
      moreover have "drop sh ts \<noteq> [] \<Longrightarrow> hd (drop sh ts) \<noteq> hd (drop sh ?e)"
        using shared_len_differ [of ?e ts] split by (auto simp: sh_def hd_drop_conv_nth)
      ultimately have facts: "take sh ?e \<noteq> []" "drop sh ?e \<noteq> []" "take sh ?e @ drop sh ts = ts"
        "drop sh ts \<noteq> [] \<Longrightarrow> hd (drop sh ts) \<noteq> hd (drop sh ?e)"
        using split ok "1.prems"(2) by (simp_all add: take_eq)
      have "sh \<noteq> length ?e" using split by simp
      with E have E3: "insert_into ch ts pages tick = AList.update (hd ts)
          (if drop sh ts \<noteq> []
           then RadixNode (take sh ?e) (take (min (length (rn_pages node)) sh) (rn_pages node)) tick
                  (insert_into [(hd (drop sh ?e), RadixNode (drop sh ?e) (rn_pages node)
                                   (rn_lru_tick node) ?c)] (drop sh ts) pages tick)
           else RadixNode (take sh ?e) pages tick
                  [(hd (drop sh ?e), RadixNode (drop sh ?e) (rn_pages node) (rn_lru_tick node) ?c)])
          (AList.delete (hd ts) ch)"
        by simp
      show ?thesis
        unfolding E3
        by (rule inserted_split [OF "1.prems"(1) Some _ facts(3) [symmetric] facts(1,2,4) refl refl])
          (simp_all add: take_is_prefix)
    qed
  qed
qed

section \<open>Touching and removing\<close>

lemma entry_same_node:
  assumes "trie_ok ch" and "map_of ch k = Some n"
    and "rn_edge n' = rn_edge n" and "rn_pages n' = rn_pages n"
    and "\<And>q. entry (rn_children n') q = entry (rn_children n) q"
  shows "entry (AList.update k n' ch) q = entry ch q"
  using assms trie_ok_found [OF assms(1,2)] by (simp add: entry_node entry_found)

lemma touch_entries:
  "trie_ok ch \<Longrightarrow> trie_ok (touch ch path tick) \<and> entry (touch ch path tick) q = entry ch q"
proof (induction ch path tick arbitrary: q rule: touch.induct)
  case (2 ch first path tick)
  show ?case
  proof (cases "map_of ch first")
    case (Some n)
    obtain e p t c where n: "n = RadixNode e p t c" by (cases n)
    note ok = trie_ok_found [OF "2.prems" Some, unfolded n radix_node.sel]
    have IH: "path \<noteq> [] \<Longrightarrow> trie_ok (touch c path tick) \<and> entry (touch c path tick) r = entry c r" for r
      using "2.IH" [OF Some n] ok by simp
    let ?n = "if path = [] then RadixNode e p tick c else RadixNode e p t (touch c path tick)"
    have "trie_ok (AList.update first ?n ch)"
      using ok IH "2.prems" by (intro trie_ok_update) auto
    moreover have "entry (AList.update first ?n ch) q = entry ch q"
      using IH by (intro entry_same_node [OF "2.prems" Some]) (auto simp: n)
    ultimately show ?thesis by (simp add: Some n)
  qed (simp add: "2.prems")
qed simp

lemma remove_path_entries:
  "trie_ok ch \<Longrightarrow> trie_ok (remove_path ch path) \<and>
     (entry (remove_path ch path) q = entry ch q \<or> entry (remove_path ch path) q = None)"
proof (induction ch path arbitrary: q rule: remove_path.induct)
  case (3 ch first nxt path)
  show ?case
  proof (cases "map_of ch first")
    case (Some n)
    obtain e p t c where n: "n = RadixNode e p t c" by (cases n)
    note ok = trie_ok_found [OF "3.prems" Some, unfolded n radix_node.sel]
    let ?c' = "remove_path c (nxt # path)"
    have IH: "trie_ok ?c' \<and> (entry ?c' r = entry c r \<or> entry ?c' r = None)" for r
      using "3.IH" [OF Some n] ok by simp
    show ?thesis
    proof (cases "?c' = []")
      case True
      then show ?thesis
        by (simp add: Some n Let_def trie_ok_delete "3.prems" entry_delete)
    next
      case False
      then have "remove_path ch (first # nxt # path) = AList.update first (RadixNode e p t ?c') ch"
        by (simp add: Some n)
      then show ?thesis
        using ok IH "3.prems" Some
        by (auto simp: n entry_node entry_found intro!: trie_ok_update)
    qed
  qed (simp add: "3.prems")
qed (auto simp: trie_ok_delete entry_delete)

fun path_in :: "radix_children \<Rightarrow> nat list \<Rightarrow> bool" where
  "path_in ch [] = False"
| "path_in ch (first # path) =
     (case map_of ch first of None \<Rightarrow> False
      | Some (RadixNode e p t c) \<Rightarrow> path = [] \<or> path_in c path)"

lemma delete_smaller: "map_of ch k = Some n \<Longrightarrow> trie_size (AList.delete k ch) < trie_size ch"
proof (induction ch)
  case (Cons a ch)
  have "trie_size (AList.delete k ch) \<le> trie_size ch"
    by (induction ch) (auto simp: AList.delete_eq)
  with Cons show ?case by (cases a) (auto simp: AList.delete_eq)
qed simp

lemma update_smaller:
  "map_of ch k = Some n \<Longrightarrow> size n' < size n \<Longrightarrow> trie_size (AList.update k n' ch) < trie_size ch"
  by (induction ch) (auto split: if_splits)

lemma remove_path_smaller:
  "path_in ch path \<Longrightarrow> trie_size (remove_path ch path) < trie_size ch"
proof (induction ch path rule: remove_path.induct)
  case (2 ch first)
  then show ?case using delete_smaller [of ch first] by (auto split: option.splits)
next
  case (3 ch first nxt path)
  then obtain e p t c where n: "map_of ch first = Some (RadixNode e p t c)" "path_in c (nxt # path)"
    by (auto split: option.splits radix_node.splits)
  with "3.IH" have "trie_size (remove_path c (nxt # path)) < trie_size c" by auto
  with n show ?case
    using delete_smaller [OF n(1)] update_smaller [OF n(1), of "RadixNode e p t (remove_path c (nxt # path))"]
    by (auto simp: Let_def)
qed simp

text \<open>The search returns a path of the trie; it looks at the nodes of one level by their ticks.\<close>

definition lru_candidate :: "nat \<Rightarrow> radix_node \<Rightarrow> nat list \<times> nat" where
  "lru_candidate k n =
     (case find_lru_loop (rn_children n) (rn_lru_tick n) None of
        Some (sub_path, sub_pages) \<Rightarrow> (k # sub_path, sub_pages)
      | None \<Rightarrow> ([k], length (rn_pages n)))"

lemma lru_candidate_path: "\<exists>sub x. lru_candidate k n = (k # sub, x)"
  by (auto simp: lru_candidate_def split: option.split)

lemma find_lru_loop_cases:
  "find_lru_loop ((k, n) # ch) t best =
     (if rn_lru_tick n < t then find_lru_loop ch (rn_lru_tick n) (Some (lru_candidate k n))
      else find_lru_loop ch t best)"
  by (cases n; cases "rn_children n = []") (simp_all add: lru_candidate_def cong: option.case_cong)

lemma find_lru_loop_path:
  "trie_ok whole \<Longrightarrow> set ch \<subseteq> set whole \<Longrightarrow> find_lru_loop ch t best = Some (path, freed)
     \<Longrightarrow> best = Some (path, freed) \<or> path_in whole path"
proof (induction ch t best arbitrary: whole path freed rule: find_lru_loop.induct)
  case (2 k e p tick c rest t best)
  let ?cand = "if c = [] then ([k], length p) else case find_lru_loop c tick None of
                    Some (sub_path, sub_pages) \<Rightarrow> (k # sub_path, sub_pages)
                  | None \<Rightarrow> ([k], length p)"
  have m: "map_of whole k = Some (RadixNode e p tick c)"
    using "2.prems"(1,2) trie_ok.simps [of whole] by (simp add: map_of_eq_Some_iff)
  have okc: "trie_ok c" using trie_ok_found [OF "2.prems"(1) m] by simp
  have cand: "path_in whole (fst ?cand)"
    using "2.IH"(1) [OF _ okc] m by (auto split: option.splits)
  have sub: "set rest \<subseteq> set whole" using "2.prems"(2) by simp
  show ?case
  proof (cases "tick < t")
    case True
    then have "find_lru_loop rest tick (Some ?cand) = Some (path, freed)"
      using "2.prems"(3) by (simp add: Let_def)
    with "2.IH"(2) [OF refl True "2.prems"(1) sub] cand show ?thesis by (metis fst_conv option.inject)
  next
    case False
    then have "find_lru_loop rest t best = Some (path, freed)"
      using "2.prems"(3) by (simp add: Let_def)
    with "2.IH"(3) [OF refl False "2.prems"(1) sub] show ?thesis by simp
  qed
qed simp

lemma find_lru_loop_None:
  "find_lru_loop ch t best = None \<longleftrightarrow> best = None \<and> (\<forall>(k, n) \<in> set ch. t \<le> rn_lru_tick n)"
  by (induction ch arbitrary: t best)
    (auto simp: find_lru_loop_cases split: if_splits)

text \<open>The branch chosen is the one whose node carries the smallest tick.\<close>

lemma find_lru_loop_least:
  assumes "find_lru_loop ch t best = Some (path, freed)"
  shows "(best = Some (path, freed) \<and> (\<forall>(k, n) \<in> set ch. t \<le> rn_lru_tick n))
         \<or> (\<exists>k n sub. (k, n) \<in> set ch \<and> path = k # sub \<and> rn_lru_tick n < t
               \<and> (\<forall>(k', n') \<in> set ch. rn_lru_tick n \<le> rn_lru_tick n'))"
  using assms
proof (induction ch arbitrary: t best)
  case (Cons a ch)
  obtain k n where a: "a = (k, n)" by (cases a)
  show ?case
  proof (cases "rn_lru_tick n < t")
    case True
    obtain sub x where c: "lru_candidate k n = (k # sub, x)" using lru_candidate_path by blast
    with True Cons.prems have f: "find_lru_loop ch (rn_lru_tick n) (Some (k # sub, x)) = Some (path, freed)"
      by (simp add: a find_lru_loop_cases c)
    from Cons.IH [OF f] show ?thesis
    proof (elim disjE exE conjE, goal_cases)
      case 1
      with True show ?case by (intro disjI2 exI [of _ k] exI [of _ n] exI [of _ sub]) (auto simp: a)
    next
      case (2 k' n' s)
      with True show ?case
        by (intro disjI2 exI [of _ k'] exI [of _ n'] exI [of _ s]) (auto simp: a)
    qed
  next
    case False
    with Cons.prems have f: "find_lru_loop ch t best = Some (path, freed)"
      by (simp add: a find_lru_loop_cases)
    from Cons.IH [OF f] show ?thesis
    proof (elim disjE exE conjE, goal_cases)
      case 1
      with False show ?case by (intro disjI1) (simp add: a)
    next
      case (2 k' n' s)
      with False show ?case
        by (intro disjI2 exI [of _ k'] exI [of _ n'] exI [of _ s]) (simp add: a)
    qed
  qed
qed simp

section \<open>Ticks of the first level\<close>

definition top_ticks_le :: "radix_children \<Rightarrow> nat \<Rightarrow> bool" where
  "top_ticks_le ch b \<longleftrightarrow> (\<forall>(k, n) \<in> set ch. rn_lru_tick n \<le> b)"

lemma set_update_subset: "set (AList.update k n ch) \<subseteq> insert (k, n) (set ch)"
  by (induction ch) auto

lemma top_ticks_update:
  "top_ticks_le ch b \<Longrightarrow> rn_lru_tick n \<le> b \<Longrightarrow> top_ticks_le (AList.update k n ch) b"
  using set_update_subset [of k n ch] by (fastforce simp: top_ticks_le_def)

lemma top_ticks_delete: "top_ticks_le ch b \<Longrightarrow> top_ticks_le (AList.delete k ch) b"
  by (auto simp: top_ticks_le_def AList.delete_eq)

lemma top_ticks_found: "top_ticks_le ch b \<Longrightarrow> map_of ch k = Some n \<Longrightarrow> rn_lru_tick n \<le> b"
  by (auto simp: top_ticks_le_def dest: map_of_SomeD)

lemma top_ticks_remove: "top_ticks_le ch b \<Longrightarrow> top_ticks_le (remove_path ch path) b"
proof (induction ch path rule: remove_path.induct)
  case (3 ch first nxt path)
  show ?case
  proof (cases "map_of ch first")
    case (Some n)
    then show ?thesis
      using "3.prems" top_ticks_found [OF "3.prems" Some]
      by (cases n) (auto simp: Let_def intro!: top_ticks_update top_ticks_delete)
  qed (simp add: "3.prems")
qed (auto intro: top_ticks_delete)

lemma top_ticks_touch: "top_ticks_le ch b \<Longrightarrow> t \<le> b \<Longrightarrow> top_ticks_le (touch ch path t) b"
proof (cases path)
  case (Cons first rest)
  assume a: "top_ticks_le ch b" "t \<le> b"
  show ?thesis
  proof (cases "map_of ch first")
    case (Some n)
    then show ?thesis
      using a top_ticks_found [OF a(1) Some] by (cases n) (auto simp: Cons intro!: top_ticks_update)
  qed (simp add: a Cons)
qed simp

lemma top_ticks_insert:
  assumes "top_ticks_le ch b" and "t \<le> b" and "ts \<noteq> []"
  shows "top_ticks_le (insert_into ch ts pages t) b"
proof (cases "map_of ch (hd ts)")
  case None
  with assms show ?thesis by (auto simp: insert_into_missing rn_new_def intro!: top_ticks_update)
next
  case (Some n)
  have "rn_lru_tick n \<le> b" by (rule top_ticks_found [OF assms(1) Some])
  with assms Some show ?thesis
    by (auto simp: insert_into_found Let_def intro!: top_ticks_update top_ticks_delete)
qed

lemma no_victim_empty:
  assumes "find_lru_leaf ch u64_max = None" and "top_ticks_le ch b" and "b < u64_max"
  shows "ch = []"
  using assms by (cases ch) (auto simp: find_lru_leaf_def find_lru_loop_None top_ticks_le_def)

end
