(* ===== verification/PrefixCache.thy ===== *)
theory PrefixCache
  imports PrefixEntries
begin

text \<open>
  \<^verbatim>\<open>PrefixCache\<close> of \<^verbatim>\<open>aegisllm-cuda/src/executor/prefix_cache.rs\<close>: lookup with its
  tick, insertion with its eviction loop, the abstract contract of a prefix cache as a locale, and
  the interpretation of it by the model. The eviction loop is a partial function: that it returns
  is a theorem (\<open>pc_insert_returns\<close>).
\<close>

section \<open>State and operations\<close>

record prefix_hit =
  hit_matched_tokens :: nat
  hit_pages :: "nat list"

record prefix_cache =
  pc_root :: radix_children
  pc_total_pages :: nat
  pc_capacity_pages :: nat
  pc_clock :: nat

definition pc_new :: "nat \<Rightarrow> prefix_cache" where
  "pc_new capacity_pages =
     \<lparr>pc_root = [], pc_total_pages = 0, pc_capacity_pages = capacity_pages, pc_clock = 0\<rparr>"

definition pc_clear :: "prefix_cache \<Rightarrow> prefix_cache" where
  "pc_clear c = c\<lparr>pc_root := [], pc_total_pages := 0\<rparr>"

definition pinned_pages :: "prefix_cache \<Rightarrow> nat" where
  "pinned_pages c = pc_total_pages c"

definition pc_lookup :: "prefix_cache \<Rightarrow> nat list \<Rightarrow> prefix_cache \<times> prefix_hit option" where
  "pc_lookup c tokens =
     (if tokens = [] then (c, None)
      else let tick = pc_clock c + 1; c = c\<lparr>pc_clock := tick\<rparr>;
               (best_matched, best_pages, hit_node_ptr) = lookup_immutable (pc_root c) tokens
           in if best_matched = 0 then (c, None)
              else (case hit_node_ptr of
                      Some ptr \<Rightarrow> c\<lparr>pc_root := touch (pc_root c) ptr tick\<rparr>
                    | None \<Rightarrow> c,
                    Some \<lparr>hit_matched_tokens = best_matched, hit_pages = best_pages\<rparr>))"

definition evict_lru :: "prefix_cache \<Rightarrow> bool \<times> prefix_cache" where
  "evict_lru c =
     (case find_lru_leaf (pc_root c) u64_max of
        None \<Rightarrow> (False, c)
      | Some (path, freed_pages) \<Rightarrow>
          (True, c\<lparr>pc_total_pages := pc_total_pages c - freed_pages,
                   pc_root := remove_path (pc_root c) path\<rparr>))"

partial_function (option) evict_until :: "nat \<Rightarrow> prefix_cache \<Rightarrow> prefix_cache option" where
  "evict_until new_pages c =
     (if pc_total_pages c + new_pages > pc_capacity_pages c
      then if fst (evict_lru c) then evict_until new_pages (snd (evict_lru c))
           else Some (snd (evict_lru c))
      else Some c)"

declare evict_until.simps [code]

definition pc_insert :: "prefix_cache \<Rightarrow> nat list \<Rightarrow> nat list \<Rightarrow> prefix_cache option" where
  "pc_insert c tokens pages =
     (if tokens = [] \<or> pages = [] then Some c
      else let tick = pc_clock c + 1; c = c\<lparr>pc_clock := tick\<rparr>; new_pages = length pages
           in map_option
                (\<lambda>c. c\<lparr>pc_total_pages := pc_total_pages c + new_pages,
                       pc_root := insert_into (pc_root c) tokens pages tick\<rparr>)
                (evict_until new_pages c))"

text \<open>A history of calls on one cache.\<close>

datatype cache_call = Lookup "nat list" | Insert "nat list" "nat list" | Clear

fun pc_call :: "prefix_cache \<Rightarrow> cache_call \<Rightarrow> prefix_cache option" where
  "pc_call c (Lookup ts) = Some (fst (pc_lookup c ts))"
| "pc_call c (Insert ts pages) = pc_insert c ts pages"
| "pc_call c Clear = Some (pc_clear c)"

fun pc_run :: "prefix_cache \<Rightarrow> cache_call list \<Rightarrow> prefix_cache option" where
  "pc_run c [] = Some c"
| "pc_run c (op # ops) = Option.bind (pc_call c op) (\<lambda>c. pc_run c ops)"

section \<open>The contract of a prefix cache\<close>

text \<open>
  What a caller of a prefix cache relies on: lookups find the longest stored prefix and change
  nothing stored; an insertion returns, stores its pages, and otherwise only drops entries or
  leaves the beginning of an entry's pages at a beginning of its tokens.
\<close>

locale token_cache =
  fixes inv :: "'c \<Rightarrow> bool"
    and stored :: "'c \<Rightarrow> nat list \<Rightarrow> nat list option"
    and find :: "'c \<Rightarrow> nat list \<Rightarrow> 'c \<times> prefix_hit option"
    and put :: "'c \<Rightarrow> nat list \<Rightarrow> nat list \<Rightarrow> 'c option"
    and drop_all :: "'c \<Rightarrow> 'c"
  assumes find_keeps: "inv c \<Longrightarrow> inv (fst (find c ts)) \<and> stored (fst (find c ts)) = stored c"
    and find_hit: "inv c \<Longrightarrow> snd (find c ts) = Some h \<Longrightarrow>
          0 < hit_matched_tokens h \<and> hit_matched_tokens h \<le> length ts
          \<and> stored c (take (hit_matched_tokens h) ts) = Some (hit_pages h)
          \<and> (\<forall>q. prefix q ts \<longrightarrow> hit_matched_tokens h < length q \<longrightarrow> stored c q = None)"
    and find_miss: "inv c \<Longrightarrow> snd (find c ts) = None \<Longrightarrow> prefix q ts \<Longrightarrow> stored c q = None"
    and put_returns: "inv c \<Longrightarrow> \<exists>c'. put c ts pages = Some c'"
    and put_inv: "inv c \<Longrightarrow> put c ts pages = Some c' \<Longrightarrow> inv c'"
    and put_new: "inv c \<Longrightarrow> put c ts pages = Some c' \<Longrightarrow> ts \<noteq> [] \<Longrightarrow> pages \<noteq> []
          \<Longrightarrow> stored c' ts = Some pages"
    and put_other: "inv c \<Longrightarrow> put c ts pages = Some c' \<Longrightarrow> stored c' q = Some y \<Longrightarrow>
          q = ts \<and> y = pages \<or> (\<exists>q' z. prefix q q' \<and> stored c q' = Some z \<and> prefix y z)"
    and drop_inv: "inv (drop_all c)"
    and drop_stored: "stored (drop_all c) q = None"
begin

fun call :: "'c \<Rightarrow> cache_call \<Rightarrow> 'c option" where
  "call c (Lookup ts) = Some (fst (find c ts))"
| "call c (Insert ts pages) = put c ts pages"
| "call c Clear = Some (drop_all c)"

fun run :: "'c \<Rightarrow> cache_call list \<Rightarrow> 'c option" where
  "run c [] = Some c"
| "run c (op # ops) = Option.bind (call c op) (\<lambda>c. run c ops)"

lemma call_returns: "inv c \<Longrightarrow> \<exists>c'. call c op = Some c' \<and> inv c'"
  using put_returns put_inv find_keeps drop_inv by (cases op) fastforce+

lemma run_returns: "inv c \<Longrightarrow> \<exists>c'. run c ops = Some c' \<and> inv c'"
proof (induction ops arbitrary: c)
  case (Cons op ops)
  with call_returns [of c op] show ?case by auto
qed simp

text \<open>Everything stored began with an insertion.\<close>

definition from_log :: "(nat list \<times> nat list) set \<Rightarrow> 'c \<Rightarrow> bool" where
  "from_log log c \<longleftrightarrow> (\<forall>q y. stored c q = Some y \<longrightarrow> (\<exists>(ts, pages) \<in> log. prefix q ts \<and> prefix y pages))"

lemma from_log_call:
  assumes "inv c" and "from_log log c" and "call c op = Some c'"
  shows "from_log (log \<union> {(ts, pages). op = Insert ts pages}) c'"
proof (cases op)
  case (Insert ts pages)
  show ?thesis
    unfolding from_log_def
  proof (intro allI impI)
    fix q y
    assume "stored c' q = Some y"
    with assms Insert have "q = ts \<and> y = pages
        \<or> (\<exists>q' z. prefix q q' \<and> stored c q' = Some z \<and> prefix y z)"
      using put_other by simp
    then show "\<exists>(ts', pages') \<in> log \<union> {(ts, pages). op = Insert ts pages}.
                 prefix q ts' \<and> prefix y pages'"
    proof
      assume "\<exists>q' z. prefix q q' \<and> stored c q' = Some z \<and> prefix y z"
      then obtain q' z where z: "prefix q q'" "stored c q' = Some z" "prefix y z" by blast
      with assms(2) obtain ts' p' where "(ts', p') \<in> log" "prefix q' ts'" "prefix z p'"
        unfolding from_log_def by blast
      with z show ?thesis by (intro bexI [of _ "(ts', p')"]) auto
    qed (simp add: Insert)
  qed
next
  case (Lookup ts)
  with assms have "stored c' = stored c" using find_keeps by auto
  with assms(2) show ?thesis by (fastforce simp: from_log_def)
next
  case Clear
  with assms show ?thesis using drop_stored by (auto simp: from_log_def)
qed

lemma from_log_run:
  "inv c \<Longrightarrow> from_log log c \<Longrightarrow> run c ops = Some c'
     \<Longrightarrow> from_log (log \<union> {(ts, pages). Insert ts pages \<in> set ops}) c'"
proof (induction ops arbitrary: c log)
  case (Cons op ops)
  obtain c1 where c1: "call c op = Some c1" "inv c1" using call_returns [OF Cons.prems(1)] by blast
  with Cons.prems(3) have r: "run c1 ops = Some c'" by simp
  from Cons.IH [OF c1(2) from_log_call [OF Cons.prems(1,2) c1(1)] r]
  show ?case unfolding from_log_def by (fastforce)
qed simp

lemma hit_from_run:
  assumes "inv c" and "\<And>q. stored c q = None" and "run c ops = Some c'" and "snd (find c' qs) = Some h"
  shows "\<exists>ts pages. Insert ts pages \<in> set ops \<and> prefix (take (hit_matched_tokens h) qs) ts
           \<and> prefix (hit_pages h) pages"
proof -
  have "from_log {} c" using assms(2) by (simp add: from_log_def)
  from from_log_run [OF assms(1) this assms(3)]
  have l: "from_log {(ts, pages). Insert ts pages \<in> set ops} c'" by simp
  have "inv c'" using run_returns [OF assms(1), of ops] assms(3) by auto
  from find_hit [OF this assms(4)] l show ?thesis unfolding from_log_def by fastforce
qed

lemma find_after_put:
  assumes "inv c" and "put c ts pages = Some c'" and "ts \<noteq> []" and "pages \<noteq> []" and "prefix ts qs"
  shows "\<exists>h. snd (find c' qs) = Some h \<and> length ts \<le> hit_matched_tokens h"
proof -
  have i: "inv c'" and s: "stored c' ts = Some pages" using assms put_inv put_new by auto
  show ?thesis
  proof (cases "snd (find c' qs)")
    case None
    with find_miss [OF i None assms(5)] s show ?thesis by simp
  next
    case (Some h)
    have "length ts \<le> hit_matched_tokens h"
      using find_hit [OF i Some] s assms(5) by (metis not_le option.distinct(1))
    with Some show ?thesis by simp
  qed
qed

lemma find_exact_after_put:
  assumes "inv c" and "put c ts pages = Some c'" and "ts \<noteq> []" and "pages \<noteq> []"
  shows "\<exists>h. snd (find c' ts) = Some h \<and> hit_matched_tokens h = length ts \<and> hit_pages h = pages"
proof -
  obtain h where h: "snd (find c' ts) = Some h" "length ts \<le> hit_matched_tokens h"
    using find_after_put [OF assms, of ts] by auto
  with find_hit [OF put_inv [OF assms(1,2)] h(1)] put_new [OF assms]
  show ?thesis by auto
qed

end

section \<open>The model meets the contract\<close>

definition cache_ok :: "prefix_cache \<Rightarrow> bool" where
  "cache_ok c \<longleftrightarrow> trie_ok (pc_root c)"

definition stored_in :: "prefix_cache \<Rightarrow> nat list \<Rightarrow> nat list option" where
  "stored_in c = entry (pc_root c)"

lemma evict_until_returns:
  "trie_ok (pc_root c) \<Longrightarrow>
     \<exists>c'. evict_until n c = Some c' \<and> trie_ok (pc_root c') \<and> pc_clock c' = pc_clock c
        \<and> pc_capacity_pages c' = pc_capacity_pages c
        \<and> (\<forall>b. top_ticks_le (pc_root c) b \<longrightarrow> top_ticks_le (pc_root c') b)
        \<and> (\<forall>q. entry (pc_root c') q = entry (pc_root c) q \<or> entry (pc_root c') q = None)
        \<and> (pc_total_pages c' + n \<le> pc_capacity_pages c' \<or> find_lru_leaf (pc_root c') u64_max = None)"
proof (induction "trie_size (pc_root c)" arbitrary: c rule: less_induct)
  case less
  show ?case
  proof (cases "pc_total_pages c + n > pc_capacity_pages c \<and> fst (evict_lru c)")
    case False
    then have "evict_until n c = Some (if pc_total_pages c + n > pc_capacity_pages c
                                       then snd (evict_lru c) else c)"
      by (subst evict_until.simps) simp
    then show ?thesis
      using False less.prems by (auto simp: evict_lru_def split: option.splits)
  next
    case True
    then obtain path freed where f: "find_lru_leaf (pc_root c) u64_max = Some (path, freed)"
      by (auto simp: evict_lru_def split: option.splits)
    let ?c = "snd (evict_lru c)"
    have c: "pc_root ?c = remove_path (pc_root c) path" "pc_clock ?c = pc_clock c"
      "pc_capacity_pages ?c = pc_capacity_pages c"
      using f by (simp_all add: evict_lru_def)
    have "path_in (pc_root c) path"
      using find_lru_loop_path [OF less.prems subset_refl, of u64_max None path freed] f
      by (simp add: find_lru_leaf_def)
    then have "trie_size (pc_root ?c) < trie_size (pc_root c)"
      by (simp only: c remove_path_smaller)
    from less.hyps [OF this] remove_path_entries [OF less.prems] c
    obtain c' where "evict_until n ?c = Some c'" "trie_ok (pc_root c')" "pc_clock c' = pc_clock c"
      "pc_capacity_pages c' = pc_capacity_pages c"
      "\<forall>b. top_ticks_le (pc_root ?c) b \<longrightarrow> top_ticks_le (pc_root c') b"
      "\<forall>q. entry (pc_root c') q = entry (pc_root ?c) q \<or> entry (pc_root c') q = None"
      "pc_total_pages c' + n \<le> pc_capacity_pages c' \<or> find_lru_leaf (pc_root c') u64_max = None"
      by auto
    moreover have "evict_until n c = evict_until n ?c"
      using True by (subst evict_until.simps) simp
    moreover have "entry (pc_root ?c) q = entry (pc_root c) q \<or> entry (pc_root ?c) q = None" for q
      using remove_path_entries [OF less.prems] by (simp add: c)
    moreover have "top_ticks_le (pc_root c) b \<Longrightarrow> top_ticks_le (pc_root ?c) b" for b
      by (simp add: c top_ticks_remove)
    ultimately show ?thesis by metis
  qed
qed

lemma pc_insert_spec:
  assumes "trie_ok (pc_root c)" and "ts \<noteq> []" and "pages \<noteq> []"
  shows "\<exists>c1. evict_until (length pages) (c\<lparr>pc_clock := pc_clock c + 1\<rparr>) = Some c1
    \<and> trie_ok (pc_root c1) \<and> pc_capacity_pages c1 = pc_capacity_pages c \<and> pc_clock c1 = pc_clock c + 1
    \<and> (\<forall>b. top_ticks_le (pc_root c) b \<longrightarrow> top_ticks_le (pc_root c1) b)
    \<and> (\<forall>q. entry (pc_root c1) q = entry (pc_root c) q \<or> entry (pc_root c1) q = None)
    \<and> (pc_total_pages c1 + length pages \<le> pc_capacity_pages c1 \<or> find_lru_leaf (pc_root c1) u64_max = None)
    \<and> pc_insert c ts pages = Some (c1\<lparr>pc_total_pages := pc_total_pages c1 + length pages,
         pc_root := insert_into (pc_root c1) ts pages (pc_clock c + 1)\<rparr>)"
  using evict_until_returns [of "c\<lparr>pc_clock := pc_clock c + 1\<rparr>" "length pages"] assms
  by (auto simp: pc_insert_def Let_def)

lemma pc_lookup_cases:
  "ts \<noteq> [] \<Longrightarrow> lookup_immutable (pc_root c) ts = (n, pages, ptr) \<Longrightarrow>
     snd (pc_lookup c ts) =
       (if n = 0 then None else Some \<lparr>hit_matched_tokens = n, hit_pages = pages\<rparr>)"
  by (simp add: pc_lookup_def Let_def)

lemma pc_lookup_root:
  "pc_root (fst (pc_lookup c ts)) = pc_root c
   \<or> (\<exists>ptr t. pc_root (fst (pc_lookup c ts)) = touch (pc_root c) ptr t)"
  by (auto simp: pc_lookup_def Let_def split: prod.split option.split)

interpretation cache: token_cache cache_ok stored_in pc_lookup pc_insert pc_clear
proof unfold_locales
  fix c ts
  assume "cache_ok c"
  then show "cache_ok (fst (pc_lookup c ts)) \<and> stored_in (fst (pc_lookup c ts)) = stored_in c"
    using pc_lookup_root [of c ts] touch_entries [of "pc_root c"]
    by (auto simp: cache_ok_def stored_in_def fun_eq_iff)
next
  fix c ts h
  assume ok: "cache_ok c" and h: "snd (pc_lookup c ts) = Some h"
  then have ne: "ts \<noteq> []" by (auto simp: pc_lookup_def)
  obtain n pages ptr where l: "lookup_immutable (pc_root c) ts = (n, pages, ptr)" by (metis prod_cases3)
  with h ne have "n \<noteq> 0" "h = \<lparr>hit_matched_tokens = n, hit_pages = pages\<rparr>"
    by (auto simp: pc_lookup_cases split: if_splits)
  then show "0 < hit_matched_tokens h \<and> hit_matched_tokens h \<le> length ts
      \<and> stored_in c (take (hit_matched_tokens h) ts) = Some (hit_pages h)
      \<and> (\<forall>q. prefix q ts \<longrightarrow> hit_matched_tokens h < length q \<longrightarrow> stored_in c q = None)"
    using lookup_immutable_longest [OF _ l] ok
    by (simp add: cache_ok_def longest_hit_def stored_in_def)
next
  fix c ts q
  assume ok: "cache_ok c" and m: "snd (pc_lookup c ts) = None" and q: "prefix q ts"
  show "stored_in c q = None"
  proof (cases "ts = []")
    case True
    with q show ?thesis by (simp add: stored_in_def)
  next
    case False
    obtain n pages ptr where l: "lookup_immutable (pc_root c) ts = (n, pages, ptr)"
      by (metis prod_cases3)
    with m False have "n = 0" by (auto simp: pc_lookup_cases split: if_splits)
    then show ?thesis
      using lookup_immutable_longest [OF _ l] ok q
      by (simp add: cache_ok_def longest_hit_def stored_in_def)
  qed
next
  fix c ts pages
  assume "cache_ok c"
  then show "\<exists>c'. pc_insert c ts pages = Some c'"
    using pc_insert_spec [of c ts pages] by (cases "ts = [] \<or> pages = []")
      (auto simp: cache_ok_def pc_insert_def)
next
  fix c ts pages c'
  assume "cache_ok c" and "pc_insert c ts pages = Some c'"
  then show "cache_ok c'"
    using pc_insert_spec [of c ts pages] insert_into_inserted
    by (cases "ts = [] \<or> pages = []") (auto simp: cache_ok_def pc_insert_def [of c ts pages] Let_def)
next
  fix c ts pages c'
  assume "cache_ok c" and "pc_insert c ts pages = Some c'" and "ts \<noteq> []" and "pages \<noteq> []"
  then show "stored_in c' ts = Some pages"
    using pc_insert_spec [of c ts pages] insert_into_inserted
    by (fastforce simp: cache_ok_def stored_in_def inserted_def)
next
  fix c ts pages c' q y
  assume ok: "cache_ok c" and i: "pc_insert c ts pages = Some c'" and s: "stored_in c' q = Some y"
  show "q = ts \<and> y = pages \<or> (\<exists>q' z. prefix q q' \<and> stored_in c q' = Some z \<and> prefix y z)"
  proof (cases "ts = [] \<or> pages = []")
    case True
    with i s show ?thesis by (auto simp: pc_insert_def)
  next
    case False
    have "trie_ok (pc_root c)" using ok by (simp add: cache_ok_def)
    from pc_insert_spec [OF this, of ts pages] False obtain c1 where c1: "trie_ok (pc_root c1)"
        "\<forall>q. entry (pc_root c1) q = entry (pc_root c) q \<or> entry (pc_root c1) q = None"
      and e: "pc_insert c ts pages = Some (c1\<lparr>pc_total_pages := pc_total_pages c1 + length pages,
         pc_root := insert_into (pc_root c1) ts pages (pc_clock c + 1)\<rparr>)" by blast
    from e i have c3: "pc_root c' = insert_into (pc_root c1) ts pages (pc_clock c + 1)" by auto
    have sub: "entry (pc_root c1) r = Some z \<Longrightarrow> stored_in c r = Some z" for r z
      using c1(2) [rule_format, of r] by (auto simp: stored_in_def)
    have "inserted (pc_root c1) (pc_root c') ts pages"
      using insert_into_inserted [OF c1(1)] False c3 by simp
    then have "if q = ts then entry (pc_root c') q = Some pages
          else entry (pc_root c') q = entry (pc_root c1) q
               \<or> entry (pc_root c1) q = None \<and> strict_prefix q ts
                 \<and> (\<exists>q' z y. strict_prefix q q' \<and> entry (pc_root c1) q' = Some z
                       \<and> entry (pc_root c') q = Some y \<and> prefix y z)"
      unfolding inserted_def by blast
    with s consider "q = ts" "y = pages" | "entry (pc_root c1) q = Some y"
      | q' z where "strict_prefix q q'" "entry (pc_root c1) q' = Some z" "prefix y z"
      by (auto simp: stored_in_def split: if_splits)
    then show ?thesis
    proof cases
      case 2
      then have "prefix q q \<and> stored_in c q = Some y \<and> prefix y y" using sub by simp
      then show ?thesis by blast
    next
      case (3 q' z)
      then have "prefix q q' \<and> stored_in c q' = Some z \<and> prefix y z"
        using sub by (simp add: strict_prefix_def)
      then show ?thesis by blast
    qed simp
  qed
qed (simp_all add: pc_clear_def cache_ok_def stored_in_def)

lemma pc_run_is_run: "pc_run c ops = cache.run c ops"
proof (induction ops arbitrary: c)
  case (Cons op ops)
  have "pc_call c op = cache.call c op" by (cases op) simp_all
  with Cons show ?case by (simp cong: Option.bind_cong)
qed simp

text \<open>Ticks stay at or below the clock, and the clock counts the calls.\<close>

lemma pc_call_ticks:
  assumes "cache_ok c" and "top_ticks_le (pc_root c) (pc_clock c)" and "pc_call c op = Some c'"
  shows "top_ticks_le (pc_root c') (pc_clock c') \<and> pc_clock c' \<le> pc_clock c + 1
         \<and> pc_capacity_pages c' = pc_capacity_pages c"
proof -
  have later: "top_ticks_le ch (pc_clock c) \<Longrightarrow> top_ticks_le ch (Suc (pc_clock c))" for ch
    by (fastforce simp: top_ticks_le_def)
  show ?thesis
  proof (cases op)
    case (Lookup ts)
    then show ?thesis
      using assms later
      by (auto simp: pc_lookup_def Let_def intro!: top_ticks_touch split: prod.splits option.splits)
  next
    case (Insert ts pages)
    show ?thesis
    proof (cases "ts = [] \<or> pages = []")
      case True
      with Insert assms show ?thesis by (auto simp: pc_insert_def)
    next
      case False
      have "trie_ok (pc_root c)" using assms(1) by (simp add: cache_ok_def)
      from pc_insert_spec [OF this, of ts pages] False obtain c1
        where c1: "pc_clock c1 = pc_clock c + 1" "pc_capacity_pages c1 = pc_capacity_pages c"
          "\<forall>b. top_ticks_le (pc_root c) b \<longrightarrow> top_ticks_le (pc_root c1) b"
        and i: "pc_insert c ts pages = Some (c1\<lparr>pc_total_pages := pc_total_pages c1 + length pages,
               pc_root := insert_into (pc_root c1) ts pages (pc_clock c + 1)\<rparr>)" by blast
      have c': "c' = c1\<lparr>pc_total_pages := pc_total_pages c1 + length pages,
               pc_root := insert_into (pc_root c1) ts pages (pc_clock c + 1)\<rparr>"
        using assms(3) i Insert by simp
      have "top_ticks_le (insert_into (pc_root c1) ts pages (pc_clock c + 1)) (pc_clock c + 1)"
        using c1(3) later [OF assms(2)] False by (intro top_ticks_insert) auto
      then show ?thesis using c1(1,2) by (simp add: c')
    qed
  next
    case Clear
    with assms show ?thesis by (auto simp: pc_clear_def top_ticks_le_def)
  qed
qed

lemma pc_run_ticks:
  "cache_ok c \<Longrightarrow> top_ticks_le (pc_root c) (pc_clock c) \<Longrightarrow> pc_run c ops = Some c' \<Longrightarrow>
     cache_ok c' \<and> top_ticks_le (pc_root c') (pc_clock c') \<and> pc_clock c' \<le> pc_clock c + length ops
     \<and> pc_capacity_pages c' = pc_capacity_pages c"
proof (induction ops arbitrary: c)
  case (Cons op ops)
  obtain c1 where c1: "pc_call c op = Some c1" "pc_run c1 ops = Some c'"
    using Cons.prems(3) by (auto simp: bind_eq_Some_conv)
  have "cache_ok c1" using cache.call_returns [OF Cons.prems(1), of op] c1(1) by (cases op) auto
  from Cons.IH [OF this _ c1(2)] pc_call_ticks [OF Cons.prems(1,2) c1(1)] show ?case by auto
qed simp

lemma pc_new_ok: "cache_ok (pc_new cap)" "stored_in (pc_new cap) q = None"
    "top_ticks_le (pc_root (pc_new cap)) (pc_clock (pc_new cap))"
  by (simp_all add: pc_new_def cache_ok_def stored_in_def top_ticks_le_def)

section \<open>Properties\<close>

text \<open>
  C23: every history of lookups, insertions and clears on a new cache returns: the eviction loop
  of each insertion ends.
\<close>

theorem pc_history_returns:
  "\<exists>c. pc_run (pc_new capacity) ops = Some c \<and> pc_capacity_pages c = capacity"
proof -
  obtain c where c: "pc_run (pc_new capacity) ops = Some c"
    using cache.run_returns [OF pc_new_ok(1)] by (auto simp: pc_run_is_run)
  with pc_run_ticks [OF pc_new_ok(1,3) c] show ?thesis by (simp add: pc_new_def)
qed

text \<open>
  C16: a hit reports the longest stored prefix of the query, with the pages stored for it, and a
  miss means that no prefix of the query is stored, after any history of calls.
\<close>

theorem pc_lookup_longest:
  assumes "pc_run (pc_new capacity) ops = Some c"
  shows "case snd (pc_lookup c ts) of
           None \<Rightarrow> \<forall>q. prefix q ts \<longrightarrow> stored_in c q = None
         | Some h \<Rightarrow> hit_matched_tokens h \<le> length ts
             \<and> stored_in c (take (hit_matched_tokens h) ts) = Some (hit_pages h)
             \<and> (\<forall>q. prefix q ts \<longrightarrow> hit_matched_tokens h < length q \<longrightarrow> stored_in c q = None)"
proof -
  have ok: "cache_ok c" using pc_run_ticks [OF pc_new_ok(1,3) assms] by simp
  show ?thesis
    using cache.find_hit [OF ok, of ts] cache.find_miss [OF ok, of ts]
    by (simp split: option.split)
qed

text \<open>
  C15: the pages of a hit are the beginning of the pages some caller inserted for a sequence that
  begins with the matched tokens: no history of calls makes the cache answer with the pages of
  other tokens.
\<close>

theorem pc_hit_was_inserted:
  assumes "pc_run (pc_new capacity) ops = Some c" and "snd (pc_lookup c qs) = Some h"
  shows "\<exists>ts pages. Insert ts pages \<in> set ops
           \<and> prefix (take (hit_matched_tokens h) qs) ts \<and> prefix (hit_pages h) pages"
  using cache.hit_from_run [OF pc_new_ok(1,2)] assms by (simp add: pc_run_is_run)

text \<open>
  C18: a prefix just inserted is found again with its pages, and any longer query matches at least
  its tokens.
\<close>

theorem pc_insert_then_lookup:
  assumes "pc_run (pc_new capacity) ops = Some c" and "pc_insert c ts pages = Some c'"
    and "ts \<noteq> []" and "pages \<noteq> []"
  shows "snd (pc_lookup c' ts) = Some \<lparr>hit_matched_tokens = length ts, hit_pages = pages\<rparr>
         \<and> (\<exists>h. snd (pc_lookup c' (ts @ extra)) = Some h \<and> length ts \<le> hit_matched_tokens h)"
proof -
  have ok: "cache_ok c" using pc_run_ticks [OF pc_new_ok(1,3) assms(1)] by simp
  from cache.find_exact_after_put [OF ok assms(2-4)] obtain h
    where "snd (pc_lookup c' ts) = Some h" "hit_matched_tokens h = length ts" "hit_pages h = pages"
    by blast
  then have "snd (pc_lookup c' ts) = Some \<lparr>hit_matched_tokens = length ts, hit_pages = pages\<rparr>"
    by (cases h) simp
  moreover have "prefix ts (ts @ extra)" by simp
  ultimately show ?thesis using cache.find_after_put [OF ok assms(2-4)] by blast
qed

text \<open>
  C24: an insertion returns, and afterwards the count of pinned pages is within the capacity, or every other
  entry has been evicted and the new prefix is the only content. In the second case the new prefix alone is
  larger than the capacity, or the count is above the pages of this one entry, because pages of entries
  that are gone are still counted, as re-insertion leaves them (\<open>pc_reinsert_counts_twice\<close>).
\<close>

theorem pc_insert_bounded:
  assumes "pc_run (pc_new capacity) ops = Some c" and "length ops < u64_max"
    and "ts \<noteq> []" and "pages \<noteq> []"
  shows "\<exists>c'. pc_insert c ts pages = Some c'
           \<and> (pinned_pages c' \<le> capacity
              \<or> pc_root c' = [(hd ts, RadixNode ts pages (pc_clock c + 1) [])]
                 \<and> (capacity < length pages \<or> length pages < pinned_pages c'))"
proof -
  from pc_run_ticks [OF pc_new_ok(1,3) assms(1)]
  have ok: "trie_ok (pc_root c)" and t: "top_ticks_le (pc_root c) (pc_clock c)"
    and l: "pc_clock c \<le> length ops" "pc_capacity_pages c = capacity"
    by (auto simp: cache_ok_def pc_new_def)
  from pc_insert_spec [OF ok assms(3,4)] obtain c1
    where c1: "pc_capacity_pages c1 = pc_capacity_pages c"
      "\<forall>b. top_ticks_le (pc_root c) b \<longrightarrow> top_ticks_le (pc_root c1) b"
      "pc_total_pages c1 + length pages \<le> pc_capacity_pages c1 \<or> find_lru_leaf (pc_root c1) u64_max = None"
    and i: "pc_insert c ts pages = Some (c1\<lparr>pc_total_pages := pc_total_pages c1 + length pages,
               pc_root := insert_into (pc_root c1) ts pages (pc_clock c + 1)\<rparr>)" by blast
  have "find_lru_leaf (pc_root c1) u64_max = None \<Longrightarrow> pc_root c1 = []"
    using no_victim_empty [of "pc_root c1" "pc_clock c"] c1(2) t l assms(2) by simp
  then show ?thesis
    using i c1(1,3) l assms(3) by (auto simp: pinned_pages_def insert_into_missing rn_new_def not_le)
qed

section \<open>Where the cache falls short of its description\<close>

text \<open>
  The histories below run with one token per page. The first inserts a prefix, an extension of it
  and a sibling of the extension, which splits the extension's edge below its first token.
\<close>

definition split_history :: "cache_call list" where
  "split_history = [Insert [1, 2] [10, 11], Insert [1, 2, 3, 4] [10, 11, 12, 13],
                    Insert [1, 2, 3, 9] [10, 11, 12, 19]]"

definition recent_history :: "cache_call list" where
  "recent_history = [Insert [1] [10], Insert [1, 2] [10, 11], Insert [3] [12], Lookup [1, 2],
                     Insert [4] [13]]"

lemmas cache_eval = pc_new_def pc_insert_def pc_lookup_def evict_until.simps evict_lru_def
  find_lru_leaf_def insert_into.simps lookup_immutable.simps rn_new_def pinned_pages_def u64_max_def

lemma split_history_root:
  "pc_run (pc_new 100) split_history = Some
     \<lparr>pc_root = [(1, RadixNode [1, 2] [10, 11] 1
                     [(3, RadixNode [3] [10] 3
                            [(4, RadixNode [4] [10, 11, 12, 13] 2 []),
                             (9, RadixNode [9] [10, 11, 12, 19] 3 [])])])],
      pc_total_pages = 10, pc_capacity_pages = 100, pc_clock = 3\<rparr>"
  by (simp add: split_history_def cache_eval Let_def)

text \<open>
  After a split the new inner node keeps as many pages as tokens were shared along its own
  edge, not along the whole prefix: a query is told that its first three tokens are cached and gets
  one page.
\<close>

theorem pc_split_hit_too_short:
  "map_option (\<lambda>c. snd (pc_lookup c [1, 2, 3, 7])) (pc_run (pc_new 100) split_history)
     = Some (Some \<lparr>hit_matched_tokens = 3, hit_pages = [10]\<rparr>)"
  unfolding split_history_root by (simp add: cache_eval Let_def)

text \<open>
  Eviction is not least-recently-used: looking a prefix up refreshes its node only, so an older
  ancestor is chosen before entries that were not used since, its whole subtree goes with it, the
  prefix just looked up included, and only the ancestor's own pages are subtracted: two pages stay
  in the cache, four are counted.
\<close>

theorem pc_eviction_drops_recent:
  "map_option (\<lambda>c. (pinned_pages c, map (rn_pages \<circ> snd) (pc_root c), snd (pc_lookup c [1, 2])))
     (pc_run (pc_new 4) recent_history)
     = Some (4, [[12], [13]], None)"
  by (simp add: recent_history_def cache_eval Let_def)

text \<open>
  Inserting a prefix again replaces its pages and still adds them to the count. The surplus stays when the
  entry is evicted, so a prefix of two pages ends above a capacity of two.
\<close>

lemma pc_count_survives_entries:
  "map_option (\<lambda>c. (pinned_pages c, pc_root c))
     (pc_run (pc_new 2) [Insert [1] [10], Insert [1] [10], Insert [2] [11, 12]])
     = Some (3, [(2, RadixNode [2] [11, 12] 3 [])])"
  by (simp add: cache_eval Let_def)

theorem pc_reinsert_counts_twice:
  "map_option (\<lambda>c. (pinned_pages c, pc_root c)) (pc_run (pc_new 4) [Insert [1] [10], Insert [1] [10]])
     = Some (2, [(1, RadixNode [1] [10] 2 [])])"
  by (simp add: cache_eval Let_def)

section \<open>Concrete instances\<close>

definition one_prefix :: "cache_call list" where
  "one_prefix = [Insert [1, 2] [10, 11]]"

definition one_prefix_cache :: prefix_cache where
  "one_prefix_cache = \<lparr>pc_root = [(1, RadixNode [1, 2] [10, 11] 1 [])], pc_total_pages = 2,
      pc_capacity_pages = 4, pc_clock = 1\<rparr>"

lemma one_prefix_run: "pc_run (pc_new 4) one_prefix = Some one_prefix_cache"
  by (simp add: one_prefix_def one_prefix_cache_def cache_eval Let_def)

lemma one_prefix_hit:
  "snd (pc_lookup one_prefix_cache [1, 2, 3]) = Some \<lparr>hit_matched_tokens = 2, hit_pages = [10, 11]\<rparr>"
  by (simp add: one_prefix_cache_def cache_eval Let_def)

theorem pc_lookup_longest_witness:
  "stored_in one_prefix_cache [1, 2] = Some [10, 11]"
  using pc_lookup_longest [OF one_prefix_run, of "[1, 2, 3]", unfolded one_prefix_hit] by simp

theorem pc_hit_was_inserted_witness:
  "\<exists>ts pages. Insert ts pages \<in> set one_prefix \<and> prefix [1, 2] ts \<and> prefix [10, 11] pages"
  using pc_hit_was_inserted [OF one_prefix_run one_prefix_hit] by simp

theorem pc_insert_then_lookup_witness:
  "map_option (\<lambda>c. snd (pc_lookup c [1, 3])) (pc_insert one_prefix_cache [1, 3] [12, 13])
     = Some (Some \<lparr>hit_matched_tokens = 2, hit_pages = [12, 13]\<rparr>)"
proof -
  obtain c' where c': "pc_insert one_prefix_cache [1, 3] [12, 13] = Some c'"
    using cache.put_returns [of one_prefix_cache] pc_run_ticks [OF pc_new_ok(1,3) one_prefix_run]
    by blast
  from pc_insert_then_lookup [OF one_prefix_run c'] c' show ?thesis by simp
qed

theorem pc_insert_bounded_witness:
  "\<exists>c'. pc_insert one_prefix_cache [5] [12, 13, 14] = Some c'
     \<and> (pinned_pages c' \<le> 4 \<or> pc_root c' = [(5, RadixNode [5] [12, 13, 14] (1 + 1) [])]
          \<and> (4 < length [12 :: nat, 13, 14] \<or> length [12 :: nat, 13, 14] < pinned_pages c'))"
proof -
  have "length one_prefix < u64_max" by (simp add: one_prefix_def u64_max_def)
  from pc_insert_bounded [OF one_prefix_run this, of "[5]" "[12, 13, 14]"]
  show ?thesis by (simp add: one_prefix_cache_def)
qed

end
