(* ===== verification/Scheduler.thy ===== *)
theory Scheduler
  imports Prelude
begin

text \<open>
  The prefill scheduler and the single-request session of
  \<^verbatim>\<open>aegisllm-cuda/src/executor/prefill/scheduler.rs\<close>. One call of \<open>schedule\<close> walks the
  requests in order and fills the token and sequence budgets; a session steps its one request
  through its states. The subtraction \<^verbatim>\<open>max_prefill_tokens - prefill_tokens\<close> is on
  \<^verbatim>\<open>usize\<close> and panics below zero; \<open>schedule_within_budget\<close> shows that it never
  gets there. The cancel token is a shared flag, here a field of the session.
\<close>

section \<open>Requests and decisions\<close>

record prefill_budget =
  max_prefill_tokens :: nat
  max_decode_tokens :: nat
  max_sequences :: nat

datatype request_state = Waiting | Prefilling | Decoding | Finished | Cancelled

record prefill_request =
  pr_request_id :: nat
  pr_seq_id :: nat
  pr_prompt_tokens :: nat
  pr_decoded_tokens :: nat
  pr_state :: request_state

datatype query_kind = Prefill | Decode

record query_span =
  qs_request_id :: nat
  qs_seq_id :: nat
  qs_kind :: query_kind
  qs_tokens :: nat

record schedule_decision =
  sd_prefill_request_ids :: "nat list"
  sd_decode_request_ids :: "nat list"
  sd_spans :: "query_span list"
  sd_prefill_tokens :: nat
  sd_decode_tokens :: nat

definition empty_decision :: schedule_decision where
  "empty_decision = \<lparr>sd_prefill_request_ids = [], sd_decode_request_ids = [], sd_spans = [],
     sd_prefill_tokens = 0, sd_decode_tokens = 0\<rparr>"

definition schedule_one ::
  "prefill_budget \<Rightarrow> schedule_decision \<Rightarrow> prefill_request \<Rightarrow> schedule_decision" where
  "schedule_one budget d r =
     (if pr_state r = Waiting \<or> pr_state r = Prefilling
      then let remaining = max_prefill_tokens budget - sd_prefill_tokens d
           in if remaining = 0 then d
              else let tk = min (pr_prompt_tokens r) remaining
                   in d\<lparr>sd_prefill_tokens := sd_prefill_tokens d + tk,
                        sd_prefill_request_ids := sd_prefill_request_ids d @ [pr_request_id r],
                        sd_spans := sd_spans d @
                          [\<lparr>qs_request_id = pr_request_id r, qs_seq_id = pr_seq_id r,
                            qs_kind = Prefill, qs_tokens = tk\<rparr>]\<rparr>
      else if pr_state r = Decoding
      then if sd_decode_tokens d < max_decode_tokens budget
           then d\<lparr>sd_decode_tokens := sd_decode_tokens d + 1,
                  sd_decode_request_ids := sd_decode_request_ids d @ [pr_request_id r],
                  sd_spans := sd_spans d @
                    [\<lparr>qs_request_id = pr_request_id r, qs_seq_id = pr_seq_id r,
                      qs_kind = Decode, qs_tokens = 1\<rparr>]\<rparr>
           else d
      else d)"

fun schedule_loop ::
  "prefill_budget \<Rightarrow> schedule_decision \<Rightarrow> prefill_request list \<Rightarrow> schedule_decision" where
  "schedule_loop budget d [] = d"
| "schedule_loop budget d (r # rs) =
     (if length (sd_prefill_request_ids d) + length (sd_decode_request_ids d) \<ge> max_sequences budget
      then d
      else schedule_loop budget (schedule_one budget d r) rs)"

definition schedule :: "prefill_budget \<Rightarrow> prefill_request list \<Rightarrow> schedule_decision" where
  "schedule budget requests = schedule_loop budget empty_decision requests"

section \<open>Sessions\<close>

record session =
  ss_request :: prefill_request
  ss_cancel :: bool
  ss_budget :: prefill_budget

definition admit :: "nat \<Rightarrow> nat \<Rightarrow> nat \<Rightarrow> nat \<Rightarrow> nat \<Rightarrow> session" where
  "admit request_id seq_id prompt_tokens prefill_chunk_size decode_tokens =
     \<lparr>ss_request = \<lparr>pr_request_id = request_id, pr_seq_id = seq_id,
                    pr_prompt_tokens = prompt_tokens, pr_decoded_tokens = 0, pr_state = Waiting\<rparr>,
      ss_cancel = False,
      ss_budget = \<lparr>max_prefill_tokens = prefill_chunk_size,
                   max_decode_tokens = decode_tokens, max_sequences = 1\<rparr>\<rparr>"

definition advance :: "prefill_request \<Rightarrow> prefill_request" where
  "advance r = (case pr_state r of
      Waiting \<Rightarrow> r\<lparr>pr_state := Prefilling\<rparr>
    | Prefilling \<Rightarrow> r\<lparr>pr_state := Decoding\<rparr>
    | Decoding \<Rightarrow> r\<lparr>pr_decoded_tokens := pr_decoded_tokens r + 1\<rparr>
    | _ \<Rightarrow> r)"

definition next_step :: "session \<Rightarrow> session \<times> schedule_decision" where
  "next_step s =
     (let s = s\<lparr>ss_request := advance (ss_request s)\<rparr>
      in (s, schedule (ss_budget s) [ss_request s]))"

definition session_finish :: "session \<Rightarrow> session" where
  "session_finish s = s\<lparr>ss_request := (ss_request s)\<lparr>pr_state := Finished\<rparr>\<rparr>"

definition session_cancel :: "session \<Rightarrow> session" where
  "session_cancel s = s\<lparr>ss_cancel := True, ss_request := (ss_request s)\<lparr>pr_state := Cancelled\<rparr>\<rparr>"

definition is_cancelled :: "session \<Rightarrow> bool" where
  "is_cancelled s = ss_cancel s"

definition is_active :: "session \<Rightarrow> bool" where
  "is_active s = (pr_state (ss_request s) \<in> {Waiting, Prefilling, Decoding})"

fun steps :: "nat \<Rightarrow> session \<Rightarrow> session \<times> schedule_decision list" where
  "steps 0 s = (s, [])"
| "steps (Suc n) s =
     (let (s1, d) = next_step s; (s2, ds) = steps n s1 in (s2, d # ds))"

section \<open>What every decision satisfies\<close>

definition span_tokens :: "query_kind \<Rightarrow> query_span list \<Rightarrow> nat" where
  "span_tokens k spans = sum_list (map qs_tokens (filter (\<lambda>s. qs_kind s = k) spans))"

definition span_ids :: "query_kind \<Rightarrow> query_span list \<Rightarrow> nat list" where
  "span_ids k spans = map qs_request_id (filter (\<lambda>s. qs_kind s = k) spans)"

definition decision_ok :: "prefill_budget \<Rightarrow> schedule_decision \<Rightarrow> bool" where
  "decision_ok b d \<longleftrightarrow>
     sd_prefill_tokens d \<le> max_prefill_tokens b \<and> sd_decode_tokens d \<le> max_decode_tokens b
     \<and> length (sd_spans d) \<le> max_sequences b
     \<and> sd_prefill_tokens d = span_tokens Prefill (sd_spans d)
     \<and> sd_decode_tokens d = span_tokens Decode (sd_spans d)
     \<and> sd_prefill_request_ids d = span_ids Prefill (sd_spans d)
     \<and> sd_decode_request_ids d = span_ids Decode (sd_spans d)"

text \<open>The span a request may get.\<close>

definition serves :: "query_span \<Rightarrow> prefill_request \<Rightarrow> bool" where
  "serves s r \<longleftrightarrow> qs_request_id s = pr_request_id r \<and> qs_seq_id s = pr_seq_id r
     \<and> (if qs_kind s = Prefill
        then pr_state r \<in> {Waiting, Prefilling} \<and> qs_tokens s \<le> pr_prompt_tokens r
        else pr_state r = Decoding \<and> qs_tokens s = 1)"

lemma span_simps [simp]:
  "span_tokens k [] = 0" "span_ids k [] = []"
  "span_tokens k (xs @ [s]) = span_tokens k xs + (if qs_kind s = k then qs_tokens s else 0)"
  "span_ids k (xs @ [s]) = span_ids k xs @ (if qs_kind s = k then [qs_request_id s] else [])"
  by (simp_all add: span_tokens_def span_ids_def)

lemma span_count: "length (span_ids Prefill xs) + length (span_ids Decode xs) = length xs"
proof (induction xs rule: rev_induct)
  case (snoc s xs)
  then show ?case by (cases "qs_kind s") simp_all
qed simp

lemma schedule_one_spans:
  "sd_spans (schedule_one b d r) = sd_spans d
   \<or> (\<exists>s. serves s r \<and> sd_spans (schedule_one b d r) = sd_spans d @ [s])"
  by (auto simp: schedule_one_def Let_def serves_def)

lemma schedule_one_ok:
  assumes "decision_ok b d" and "length (sd_spans d) < max_sequences b"
  shows "decision_ok b (schedule_one b d r)"
  using assms by (auto simp: schedule_one_def decision_ok_def Let_def)

lemma schedule_loop_ok: "decision_ok b d \<Longrightarrow> decision_ok b (schedule_loop b d rs)"
proof (induction rs arbitrary: d)
  case (Cons r rs)
  have "length (sd_prefill_request_ids d) + length (sd_decode_request_ids d) = length (sd_spans d)"
    using Cons.prems span_count by (simp add: decision_ok_def)
  then show ?case using Cons schedule_one_ok by simp
qed simp

lemma schedule_loop_spans:
  "\<exists>rs' ss. sd_spans (schedule_loop b d rs) = sd_spans d @ ss \<and> subseq rs' rs \<and> list_all2 serves ss rs'"
proof (induction rs arbitrary: d)
  case Nil
  show ?case by (intro exI [of _ "[]"]) simp
next
  case (Cons r rs)
  show ?case
  proof (cases "length (sd_prefill_request_ids d) + length (sd_decode_request_ids d) \<ge> max_sequences b")
    case True
    then show ?thesis by (intro exI [of _ "[]"]) simp
  next
    case False
    obtain rs' ss where IH: "sd_spans (schedule_loop b (schedule_one b d r) rs)
        = sd_spans (schedule_one b d r) @ ss" "subseq rs' rs" "list_all2 serves ss rs'"
      using Cons.IH by blast
    from schedule_one_spans [of b d r] show ?thesis
    proof
      assume "sd_spans (schedule_one b d r) = sd_spans d"
      with IH False show ?thesis by (intro exI [of _ rs'] exI [of _ ss]) auto
    next
      assume "\<exists>s. serves s r \<and> sd_spans (schedule_one b d r) = sd_spans d @ [s]"
      then obtain s where "serves s r" "sd_spans (schedule_one b d r) = sd_spans d @ [s]" by blast
      with IH False show ?thesis by (intro exI [of _ "r # rs'"] exI [of _ "s # ss"]) auto
    qed
  qed
qed

lemma empty_decision_ok: "decision_ok b empty_decision"
  by (simp add: decision_ok_def empty_decision_def)

text \<open>
  C29: a decision stays within the three budgets, its token counts and id lists are those of its
  spans, and its spans serve requests in the order given: a prefill span for a waiting or
  prefilling request with at most its prompt tokens, a decode span of one token for a decoding
  one, nothing for finished and cancelled ones.
\<close>

theorem schedule_within_budget:
  "decision_ok b (schedule b requests)
   \<and> (\<exists>served. subseq served requests \<and> list_all2 serves (sd_spans (schedule b requests)) served)"
  using schedule_loop_ok [OF empty_decision_ok] schedule_loop_spans [of b empty_decision requests]
  by (auto simp: schedule_def empty_decision_def)

section \<open>Sessions over time\<close>

lemma schedule_single:
  assumes "max_sequences b = 1"
  shows "schedule b [r] = schedule_one b empty_decision r"
  using assms by (simp add: schedule_def empty_decision_def)

definition same_request :: "session \<Rightarrow> session \<Rightarrow> bool" where
  "same_request s s' \<longleftrightarrow> ss_budget s' = ss_budget s \<and> ss_cancel s' = ss_cancel s
     \<and> pr_request_id (ss_request s') = pr_request_id (ss_request s)
     \<and> pr_prompt_tokens (ss_request s') = pr_prompt_tokens (ss_request s)"

lemma steps_decoding:
  "pr_state (ss_request s) = Decoding \<Longrightarrow> max_sequences (ss_budget s) = 1 \<Longrightarrow>
     pr_state (ss_request (fst (steps n s))) = Decoding
     \<and> pr_decoded_tokens (ss_request (fst (steps n s))) = pr_decoded_tokens (ss_request s) + n
     \<and> (\<forall>d \<in> set (snd (steps n s)). sd_prefill_tokens d = 0
          \<and> sd_decode_tokens d = (if max_decode_tokens (ss_budget s) = 0 then 0 else 1))"
proof (induction n arbitrary: s)
  case (Suc n)
  let ?s = "fst (next_step s)"
  have s: "pr_state (ss_request ?s) = Decoding" "ss_budget ?s = ss_budget s"
    "pr_decoded_tokens (ss_request ?s) = pr_decoded_tokens (ss_request s) + 1"
    using Suc.prems by (simp_all add: next_step_def advance_def Let_def)
  have d: "sd_prefill_tokens (snd (next_step s)) = 0"
    "sd_decode_tokens (snd (next_step s)) = (if max_decode_tokens (ss_budget s) = 0 then 0 else 1)"
    using Suc.prems
    by (simp_all add: next_step_def advance_def Let_def schedule_single schedule_one_def empty_decision_def)
  have "steps (Suc n) s = (fst (steps n ?s), snd (next_step s) # snd (steps n ?s))"
    by (simp add: case_prod_unfold Let_def)
  then show ?case using Suc.IH [OF s(1)] Suc.prems(2) s d by auto
qed simp

lemma admit_two_steps:
  "\<exists>s d1 d2. next_step (admit q sq prompt chunk maxd) = (fst (next_step (admit q sq prompt chunk maxd)), d1)
     \<and> next_step (fst (next_step (admit q sq prompt chunk maxd))) = (s, d2)
     \<and> pr_state (ss_request s) = Decoding \<and> pr_decoded_tokens (ss_request s) = 0
     \<and> ss_budget s = \<lparr>max_prefill_tokens = chunk, max_decode_tokens = maxd, max_sequences = 1\<rparr>
     \<and> sd_prefill_tokens d1 = min prompt chunk \<and> sd_prefill_tokens d2 = 0"
  by (simp add: next_step_def admit_def advance_def Let_def schedule_single schedule_one_def
      empty_decision_def)

text \<open>
  A session that is neither finished nor cancelled prefills in its first step and decodes
  from its second on: after \<open>n + 2\<close> steps it is decoding and has counted \<open>n\<close> decoded tokens, and
  the prefill tokens scheduled over all of them are those of the first step, at most one chunk of
  the prompt, however long the prompt is.
\<close>

theorem session_prefills_one_chunk:
  "pr_state (ss_request (fst (steps (n + 2) (admit q sq prompt chunk maxd)))) = Decoding
   \<and> pr_decoded_tokens (ss_request (fst (steps (n + 2) (admit q sq prompt chunk maxd)))) = n
   \<and> sum_list (map sd_prefill_tokens (snd (steps (n + 2) (admit q sq prompt chunk maxd))))
       = min prompt chunk"
proof -
  obtain s d1 d2 where s: "next_step (admit q sq prompt chunk maxd)
      = (fst (next_step (admit q sq prompt chunk maxd)), d1)"
    "next_step (fst (next_step (admit q sq prompt chunk maxd))) = (s, d2)"
    "pr_state (ss_request s) = Decoding" "pr_decoded_tokens (ss_request s) = 0"
    "ss_budget s = \<lparr>max_prefill_tokens = chunk, max_decode_tokens = maxd, max_sequences = 1\<rparr>"
    "sd_prefill_tokens d1 = min prompt chunk" "sd_prefill_tokens d2 = 0"
    using admit_two_steps by blast
  have "steps (n + 2) (admit q sq prompt chunk maxd)
      = (fst (steps n s), d1 # d2 # snd (steps n s))"
    using s(1,2) by (simp add: case_prod_unfold Let_def prod_eq_iff)
  moreover have "sum_list (map sd_prefill_tokens (snd (steps n s))) = 0"
    using steps_decoding [OF s(3), of n] s(5) by (simp add: sum_list_eq_0_iff)
  ultimately show ?thesis
    using steps_decoding [OF s(3), of n] s(4-7) by simp
qed

text \<open>
  Finishing or cancelling ends a session: it is inactive, and every later step leaves it as it
  is and schedules nothing.
\<close>

theorem session_ended_is_silent:
  assumes "ended = session_finish s \<or> ended = session_cancel s"
  shows "\<not> is_active ended \<and> fst (steps n ended) = ended
         \<and> (\<forall>d \<in> set (snd (steps n ended)). sd_spans d = [])
         \<and> (ended = session_cancel s \<longrightarrow> is_cancelled ended)"
proof -
  have st: "pr_state (ss_request ended) \<in> {Finished, Cancelled}"
    using assms by (auto simp: session_finish_def session_cancel_def)
  have step: "next_step ended = (ended, schedule (ss_budget ended) [ss_request ended])"
    using st by (auto simp: next_step_def advance_def)
  have "sd_spans (schedule (ss_budget ended) [ss_request ended]) = []"
    using st by (auto simp: schedule_def schedule_one_def empty_decision_def)
  with step have "fst (steps n ended) = ended \<and> (\<forall>d \<in> set (snd (steps n ended)). sd_spans d = [])"
    by (induction n) (auto simp: case_prod_unfold Let_def)
  then show ?thesis
    using st by (auto simp: is_active_def is_cancelled_def session_cancel_def)
qed

theorem session_ended_is_silent_witness:
  "\<not> is_active (session_cancel (admit 1 1 64 128 4))
   \<and> fst (steps 3 (session_cancel (admit 1 1 64 128 4))) = session_cancel (admit 1 1 64 128 4)"
  using session_ended_is_silent [of "session_cancel (admit 1 1 64 128 4)" "admit 1 1 64 128 4" 3]
  by simp

end
