(* ===== verification/KvPages.thy ===== *)
theory KvPages
  imports Prelude "HOL-Library.AList" "HOL-Library.Multiset"
begin

text \<open>
  The page allocator of the prefill KV cache and the slot mapper over its pages
  (\<^verbatim>\<open>aegisllm-cuda/src/executor/prefill/kv.rs\<close>). Maps are association lists with
  distinct keys. A \<^verbatim>\<open>panic\<close> (the \<^verbatim>\<open>expect\<close> on an empty free list) is
  \<open>None\<close>. Page numbers and slots are \<^verbatim>\<open>u32\<close>; the tick clock is a counter that
  would need \<open>2 ^ 64\<close> calls to wrap.
\<close>

section \<open>Pages and slots\<close>

definition prefill_kv_page_tokens :: nat where
  "prefill_kv_page_tokens = 256"

record kv_page_spec =
  ks_page_tokens :: nat
  ks_max_pages_per_sequence :: nat

definition kv_spec_for_context :: "nat \<Rightarrow> kv_page_spec" where
  "kv_spec_for_context context_size =
     \<lparr>ks_page_tokens = prefill_kv_page_tokens,
      ks_max_pages_per_sequence = max (div_ceil context_size prefill_kv_page_tokens) 1\<rparr>"

record kv_sequence_pages =
  kp_sequence :: nat
  kp_logical_pages :: "nat list"

record slot_mapper =
  sm_page_tokens :: nat
  sm_pages :: kv_sequence_pages

definition physical_slot :: "slot_mapper \<Rightarrow> nat \<Rightarrow> nat option" where
  "physical_slot m logical_position =
     (let page = logical_position div sm_page_tokens m;
          offset = logical_position mod sm_page_tokens m;
          pages = kp_logical_pages (sm_pages m)
      in if page < length pages
         then Option.bind (checked_mul_u32 (pages ! page) (as_u32 (sm_page_tokens m)))
                (\<lambda>slot. checked_add_u32 slot (as_u32 offset))
         else None)"

definition slot_mapping :: "slot_mapper \<Rightarrow> nat \<Rightarrow> nat \<Rightarrow> nat list option" where
  "slot_mapping m start_position tokens =
     those (map (\<lambda>idx. physical_slot m (start_position + idx)) [0..<tokens])"

section \<open>The allocator\<close>

record kv_allocator =
  ka_page_tokens :: nat
  ka_free_pages :: "nat list"
  ka_active :: "(nat \<times> kv_sequence_pages) list"
  ka_lru_clock :: nat
  ka_lru_ticks :: "(nat \<times> nat) list"

datatype kv_alloc_result =
    Allocated kv_sequence_pages
  | EvictedAndAllocated nat kv_sequence_pages
  | OutOfMemory

definition ka_new :: "nat \<Rightarrow> nat \<Rightarrow> kv_allocator" where
  "ka_new num_pages page_tokens =
     \<lparr>ka_page_tokens = page_tokens, ka_free_pages = rev [0..<as_u32 num_pages], ka_active = [],
      ka_lru_clock = 0, ka_lru_ticks = []\<rparr>"

definition ka_free_count :: "kv_allocator \<Rightarrow> nat" where
  "ka_free_count a = length (ka_free_pages a)"

definition active_sequences :: "kv_allocator \<Rightarrow> nat" where
  "active_sequences a = length (ka_active a)"

definition pages_for_tokens :: "kv_allocator \<Rightarrow> nat \<Rightarrow> nat" where
  "pages_for_tokens a tokens = max (div_ceil tokens (ka_page_tokens a)) 1"

definition ka_touch :: "kv_allocator \<Rightarrow> nat \<Rightarrow> kv_allocator" where
  "ka_touch a sequence =
     (if map_of (ka_active a) sequence \<noteq> None
      then let clock = ka_lru_clock a + 1
           in a\<lparr>ka_lru_clock := clock, ka_lru_ticks := AList.update sequence clock (ka_lru_ticks a)\<rparr>
      else a)"

fun pop_pages :: "nat \<Rightarrow> nat list \<Rightarrow> (nat list \<times> nat list) option" where
  "pop_pages 0 free = Some ([], free)"
| "pop_pages (Suc n) free =
     (if free = [] then None
      else map_option (\<lambda>(ps, free'). (last free # ps, free')) (pop_pages n (butlast free)))"

definition alloc_pages ::
  "kv_allocator \<Rightarrow> nat \<Rightarrow> nat \<Rightarrow> (kv_sequence_pages \<times> kv_allocator) option" where
  "alloc_pages a sequence need =
     (let tick = ka_lru_clock a + 1
      in map_option (\<lambda>(logical_pages, free).
           let pages = \<lparr>kp_sequence = sequence, kp_logical_pages = logical_pages\<rparr>
           in (pages, a\<lparr>ka_lru_clock := tick, ka_free_pages := free,
                        ka_active := AList.update sequence pages (ka_active a),
                        ka_lru_ticks := AList.update sequence tick (ka_lru_ticks a)\<rparr>))
         (pop_pages need (ka_free_pages a)))"

definition ka_allocate ::
  "kv_allocator \<Rightarrow> nat \<Rightarrow> nat \<Rightarrow> (kv_sequence_pages option \<times> kv_allocator) option" where
  "ka_allocate a sequence tokens =
     (if map_of (ka_active a) sequence \<noteq> None then Some (None, a)
      else let need = pages_for_tokens a tokens
           in if length (ka_free_pages a) < need then Some (None, a)
              else map_option (\<lambda>(pages, a). (Some pages, a)) (alloc_pages a sequence need))"

text \<open>\<^verbatim>\<open>retain(|page| seen.insert(*page))\<close>: the first occurrence of each page stays.\<close>

fun retain_unseen :: "nat set \<Rightarrow> nat list \<Rightarrow> nat list" where
  "retain_unseen seen [] = []"
| "retain_unseen seen (p # ps) =
     (if p \<in> seen then retain_unseen seen ps else p # retain_unseen (insert p seen) ps)"

definition release_pages :: "kv_allocator \<Rightarrow> nat list \<Rightarrow> kv_allocator" where
  "release_pages a pages = a\<lparr>ka_free_pages := retain_unseen {} (ka_free_pages a @ pages)\<rparr>"

definition ka_release :: "kv_allocator \<Rightarrow> kv_sequence_pages \<Rightarrow> bool \<times> kv_allocator" where
  "ka_release a pages =
     (case map_of (ka_active a) (kp_sequence pages) of
        None \<Rightarrow> (False, a)
      | Some active \<Rightarrow>
          (let rest = AList.delete (kp_sequence pages) (ka_active a)
           in if kp_logical_pages active \<noteq> kp_logical_pages pages
              then (False, a\<lparr>ka_active := AList.update (kp_sequence active) active rest\<rparr>)
              else (True, release_pages
                      (a\<lparr>ka_active := rest,
                         ka_lru_ticks := AList.delete (kp_sequence pages) (ka_lru_ticks a)\<rparr>)
                      (kp_logical_pages active))))"

definition release_sequence :: "kv_allocator \<Rightarrow> nat \<Rightarrow> bool \<times> kv_allocator" where
  "release_sequence a sequence =
     (case map_of (ka_active a) sequence of
        None \<Rightarrow> (False, a)
      | Some active \<Rightarrow>
          (True, release_pages
             (a\<lparr>ka_active := AList.delete sequence (ka_active a),
                ka_lru_ticks := AList.delete sequence (ka_lru_ticks a)\<rparr>)
             (kp_logical_pages active)))"

text \<open>\<^verbatim>\<open>min_by_key\<close> returns the first of the elements with the least key.\<close>

fun min_tick :: "(nat \<times> nat) list \<Rightarrow> (nat \<times> nat) option" where
  "min_tick [] = None"
| "min_tick (x # xs) =
     (case min_tick xs of None \<Rightarrow> Some x | Some y \<Rightarrow> Some (if snd x \<le> snd y then x else y))"

definition lru_victim :: "kv_allocator \<Rightarrow> nat \<Rightarrow> nat set \<Rightarrow> nat option" where
  "lru_victim a sequence protected =
     map_option fst (min_tick
       (filter (\<lambda>(seq, _). seq \<notin> protected \<and> seq \<noteq> sequence) (ka_lru_ticks a)))"

definition allocate_or_evict ::
  "kv_allocator \<Rightarrow> nat \<Rightarrow> nat \<Rightarrow> nat set \<Rightarrow> (kv_alloc_result \<times> kv_allocator) option" where
  "allocate_or_evict a sequence tokens protected =
     (if map_of (ka_active a) sequence \<noteq> None then Some (OutOfMemory, a)
      else let need = pages_for_tokens a tokens
           in if length (ka_free_pages a) \<ge> need
              then map_option (\<lambda>(pages, a). (Allocated pages, a)) (alloc_pages a sequence need)
              else case lru_victim a sequence protected of
                     None \<Rightarrow> Some (OutOfMemory, a)
                   | Some victim_id \<Rightarrow>
                       (let a = snd (release_sequence a victim_id)
                        in if length (ka_free_pages a) < need then Some (OutOfMemory, a)
                           else map_option
                                  (\<lambda>(pages, a). (EvictedAndAllocated victim_id pages, a))
                                  (alloc_pages a sequence need)))"

section \<open>Ownership of pages\<close>

definition owned_pages :: "kv_allocator \<Rightarrow> nat list" where
  "owned_pages a = concat (map (kp_logical_pages \<circ> snd) (ka_active a))"

text \<open>
  Every page is on the free list or owned by exactly one active sequence, every active sequence
  has one tick, and no two sequences have the same one.
\<close>

definition alloc_ok :: "nat \<Rightarrow> kv_allocator \<Rightarrow> bool" where
  "alloc_ok pages a \<longleftrightarrow>
     mset (ka_free_pages a @ owned_pages a) = mset [0..<pages]
     \<and> distinct (map fst (ka_active a)) \<and> distinct (map fst (ka_lru_ticks a))
     \<and> fst ` set (ka_lru_ticks a) = fst ` set (ka_active a)
     \<and> (\<forall>(k, p) \<in> set (ka_active a). kp_sequence p = k)
     \<and> distinct (map snd (ka_lru_ticks a)) \<and> (\<forall>t \<in> snd ` set (ka_lru_ticks a). t \<le> ka_lru_clock a)"

lemma alloc_ok_new: "alloc_ok (as_u32 n) (ka_new n pt)"
  by (simp add: alloc_ok_def ka_new_def owned_pages_def)

lemma alloc_ok_distinct: "alloc_ok n a \<Longrightarrow> distinct (ka_free_pages a @ owned_pages a)"
  by (metis alloc_ok_def distinct_upt mset_eq_imp_distinct_iff)

lemma alloc_ok_pages: "alloc_ok n a \<Longrightarrow> p \<in> set (ka_free_pages a) \<union> set (owned_pages a) \<longleftrightarrow> p < n"
  by (metis alloc_ok_def atLeastLessThan_iff atLeastLessThan_upt le0 set_append set_mset_mset)

lemma owned_by:
  "map_of (ka_active a) k = Some p \<Longrightarrow> set (kp_logical_pages p) \<subseteq> set (owned_pages a)"
  by (auto simp: owned_pages_def dest!: map_of_SomeD)

lemma delete_absent: "k \<notin> fst ` set xs \<Longrightarrow> AList.delete k xs = xs"
  by (induction xs) (auto simp: AList.delete_eq)

lemma keys_delete: "fst ` set (AList.delete k xs) = fst ` set xs - {k}"
  by (induction xs) auto

lemma update_absent: "map_of xs k = None \<Longrightarrow> AList.update k v xs = xs @ [(k, v)]"
  by (induction xs) (auto split: if_splits)

lemma delete_mset:
  assumes "distinct (map fst xs)" and "map_of xs k = Some v"
  shows "mset xs = add_mset (k, v) (mset (AList.delete k xs))"
  using assms
proof (induction xs)
  case (Cons x xs)
  show ?case
  proof (cases "fst x = k")
    case True
    with Cons.prems show ?thesis by (cases x) (auto simp: delete_absent)
  next
    case False
    with Cons show ?thesis by (cases x) auto
  qed
qed simp

lemma concat_pages_mset:
  "mset (concat (map (kp_logical_pages \<circ> snd) xs))
     = (\<Sum>x \<in># mset xs. mset (kp_logical_pages (snd x)))"
  by (induction xs) simp_all

lemma owned_delete:
  assumes "distinct (map fst (ka_active a))" and "map_of (ka_active a) k = Some p"
  shows "mset (owned_pages a)
         = mset (kp_logical_pages p) + mset (concat (map (kp_logical_pages \<circ> snd) (AList.delete k (ka_active a))))"
  unfolding owned_pages_def concat_pages_mset delete_mset [OF assms] by simp

lemma retain_unseen_distinct:
  "distinct ps \<Longrightarrow> set ps \<inter> seen = {} \<Longrightarrow> retain_unseen seen ps = ps"
  by (induction seen ps rule: retain_unseen.induct) auto

lemma pop_pages_Some:
  "n \<le> length free \<Longrightarrow> pop_pages n free = Some (rev (drop (length free - n) free), take (length free - n) free)"
proof (induction n arbitrary: free)
  case (Suc n)
  then obtain xs x where f: "free = xs @ [x]" by (cases free rule: rev_cases) auto
  with Suc.IH [of xs] Suc.prems show ?case by (simp add: Suc_diff_le)
qed simp

lemma alloc_pages_eq:
  assumes "need \<le> length (ka_free_pages a)"
  shows "\<exists>ps free. rev ps = drop (length (ka_free_pages a) - need) (ka_free_pages a)
     \<and> free @ rev ps = ka_free_pages a \<and> length ps = need
     \<and> alloc_pages a s need = Some (\<lparr>kp_sequence = s, kp_logical_pages = ps\<rparr>,
         a\<lparr>ka_lru_clock := ka_lru_clock a + 1, ka_free_pages := free,
           ka_active := AList.update s \<lparr>kp_sequence = s, kp_logical_pages = ps\<rparr> (ka_active a),
           ka_lru_ticks := AList.update s (ka_lru_clock a + 1) (ka_lru_ticks a)\<rparr>)"
  by (rule exI [of _ "rev (drop (length (ka_free_pages a) - need) (ka_free_pages a))"],
      rule exI [of _ "take (length (ka_free_pages a) - need) (ka_free_pages a)"])
    (use assms in \<open>simp add: alloc_pages_def pop_pages_Some Let_def\<close>)

lemma alloc_pages_ok:
  assumes "alloc_ok n a" and "map_of (ka_active a) s = None" and "alloc_pages a s need = Some (p, a')"
    and "need \<le> length (ka_free_pages a)"
  shows "alloc_ok n a' \<and> map_of (ka_active a') s = Some p \<and> length (kp_logical_pages p) = need
         \<and> ka_page_tokens a' = ka_page_tokens a"
proof -
  obtain ps free where f: "free @ rev ps = ka_free_pages a" "length ps = need"
    and p: "p = \<lparr>kp_sequence = s, kp_logical_pages = ps\<rparr>"
    and a': "a' = a\<lparr>ka_lru_clock := ka_lru_clock a + 1, ka_free_pages := free,
           ka_active := AList.update s p (ka_active a),
           ka_lru_ticks := AList.update s (ka_lru_clock a + 1) (ka_lru_ticks a)\<rparr>"
    using alloc_pages_eq [OF assms(4), of s] assms(3) by auto
  have sa: "s \<notin> fst ` set (ka_active a)" using assms(2) by (simp add: map_of_eq_None_iff)
  then have "s \<notin> fst ` set (ka_lru_ticks a)" using assms(1) by (simp add: alloc_ok_def)
  then have t: "map_of (ka_lru_ticks a) s = None" by (simp add: map_of_eq_None_iff)
  have fr: "mset (ka_free_pages a) = mset free + mset ps"
    by (metis f(1) mset_append mset_rev)
  have big: "ka_lru_clock a + 1 \<notin> snd ` set (ka_lru_ticks a)"
    using assms(1) by (fastforce simp: alloc_ok_def)
  show ?thesis
    using assms(1,2) f sa t fr big
    by (auto simp: a' p alloc_ok_def owned_pages_def update_absent map_add_def ac_simps)
qed

lemma release_sequence_ok:
  assumes "alloc_ok n a" and "map_of (ka_active a) s = Some p"
  shows "alloc_ok n (snd (release_sequence a s))
         \<and> ka_free_pages (snd (release_sequence a s)) = ka_free_pages a @ kp_logical_pages p
         \<and> map_of (ka_active (snd (release_sequence a s))) = (map_of (ka_active a))(s := None)
         \<and> ka_page_tokens (snd (release_sequence a s)) = ka_page_tokens a"
proof -
  have d: "distinct (map fst (ka_active a))" using assms(1) by (simp add: alloc_ok_def)
  note own = owned_delete [OF d assms(2)]
  have "distinct (ka_free_pages a @ kp_logical_pages p)"
    using alloc_ok_distinct [OF assms(1)] own
    by (metis (no_types, lifting) distinct_append mset_append mset_eq_imp_distinct_iff owned_by [OF assms(2)]
        disjoint_iff subsetD)
  then have r: "retain_unseen {} (ka_free_pages a @ kp_logical_pages p) = ka_free_pages a @ kp_logical_pages p"
    by (simp add: retain_unseen_distinct)
  have sub: "set (AList.delete s xs) \<subseteq> set xs" for xs :: "(nat \<times> 'b) list"
    by (auto simp: AList.delete_eq)
  have snds: "distinct (map snd (AList.delete s (ka_lru_ticks a)))"
    using assms(1) by (simp add: alloc_ok_def AList.delete_eq distinct_map_filter)
  have keys: "fst ` set (AList.delete s (ka_lru_ticks a)) = fst ` set (AList.delete s (ka_active a))"
    using assms(1) by (simp add: alloc_ok_def keys_delete)
  have eq: "snd (release_sequence a s)
      = a\<lparr>ka_active := AList.delete s (ka_active a), ka_lru_ticks := AList.delete s (ka_lru_ticks a),
          ka_free_pages := ka_free_pages a @ kp_logical_pages p\<rparr>"
    using assms(2) r by (simp add: release_sequence_def release_pages_def)
  have "alloc_ok n (snd (release_sequence a s))"
    using assms(1) own snds keys sub [of "ka_active a"] sub [of "ka_lru_ticks a"]
    by (auto simp: eq alloc_ok_def owned_pages_def distinct_delete)
  then show ?thesis by (simp add: eq delete_conv')
qed

lemma alloc_ok_touch: "alloc_ok n a \<Longrightarrow> alloc_ok n (ka_touch a s) \<and> ka_page_tokens (ka_touch a s) = ka_page_tokens a"
proof (cases "map_of (ka_active a) s")
  case (Some p)
  assume ok: "alloc_ok n a"
  let ?t = "ka_lru_clock a + 1" and ?xs = "ka_lru_ticks a"
  have vals: "snd ` set (AList.update s ?t xs) \<subseteq> insert ?t (snd ` set xs)" for xs :: "(nat \<times> nat) list"
    by (induction xs) auto
  have fresh: "?t \<notin> snd ` set ?xs" using ok by (fastforce simp: alloc_ok_def)
  have "distinct (map snd (AList.update s ?t xs))"
    if "distinct (map snd xs)" "?t \<notin> snd ` set xs" for xs :: "(nat \<times> nat) list"
    using that
  proof (induction xs)
    case (Cons x xs)
    from Cons.prems vals [of xs] have "snd x \<notin> snd ` set (AList.update s ?t xs)" by auto
    with Cons show ?case by (cases x) auto
  qed simp
  then have d: "distinct (map snd (AList.update s ?t ?xs))"
    using ok fresh by (simp add: alloc_ok_def)
  have "s \<in> fst ` set (ka_active a)" using Some by (force dest: map_of_SomeD)
  then have k: "fst ` set (AList.update s ?t ?xs) = fst ` set (ka_active a)"
    using ok by (auto simp: alloc_ok_def dom_update)
  have b: "\<forall>t \<in> snd ` set (AList.update s ?t ?xs). t \<le> ?t"
    using ok vals [of ?xs] by (fastforce simp: alloc_ok_def)
  show ?thesis
    using ok d k b Some
    by (simp add: ka_touch_def alloc_ok_def owned_pages_def Let_def distinct_update)
qed (simp add: ka_touch_def)

lemma release_matching:
  assumes "map_of (ka_active a) (kp_sequence p) = Some act" and "kp_logical_pages act = kp_logical_pages p"
  shows "ka_release a p = (True, snd (release_sequence a (kp_sequence p)))"
  using assms by (simp add: ka_release_def release_sequence_def)

lemma alloc_ok_release:
  assumes "alloc_ok n a"
  shows "alloc_ok n (snd (ka_release a p)) \<and> ka_page_tokens (snd (ka_release a p)) = ka_page_tokens a"
proof (cases "map_of (ka_active a) (kp_sequence p)")
  case (Some act)
  show ?thesis
  proof (cases "kp_logical_pages act = kp_logical_pages p")
    case True
    then show ?thesis
      using release_matching [OF Some True] release_sequence_ok [OF assms Some] by simp
  next
    case False
    let ?k = "kp_sequence p" and ?rest = "AList.delete (kp_sequence p) (ka_active a)"
    have d: "distinct (map fst (ka_active a))" and q: "kp_sequence act = ?k"
      using assms map_of_SomeD [OF Some] by (auto simp: alloc_ok_def)
    have up: "AList.update ?k act ?rest = ?rest @ [(?k, act)]"
      by (rule update_absent) (simp add: delete_conv')
    have m: "mset (AList.update ?k act ?rest) = mset (ka_active a)"
      using delete_mset [OF d Some] by (simp add: up)
    then have s: "set (AList.update ?k act ?rest) = set (ka_active a)"
      by (rule mset_eq_setD)
    have d': "distinct (map fst (AList.update ?k act ?rest))"
      using d by (simp add: distinct_update distinct_delete)
    have o: "mset (concat (map (kp_logical_pages \<circ> snd) (AList.update ?k act ?rest)))
        = mset (owned_pages a)"
      unfolding owned_pages_def concat_pages_mset m ..
    show ?thesis
      using assms False Some d' s o
      by (simp add: ka_release_def q alloc_ok_def owned_pages_def)
  qed
qed (use assms in \<open>simp add: ka_release_def\<close>)

lemma alloc_ok_release_sequence:
  "alloc_ok n a \<Longrightarrow> alloc_ok n (snd (release_sequence a s))
     \<and> ka_page_tokens (snd (release_sequence a s)) = ka_page_tokens a"
  by (cases "map_of (ka_active a) s") (auto simp: release_sequence_ok, simp_all add: release_sequence_def)

lemma ka_allocate_cases:
  assumes "alloc_ok n a"
  shows "ka_allocate a s t = Some (None, a)
           \<and> (map_of (ka_active a) s \<noteq> None \<or> length (ka_free_pages a) < pages_for_tokens a t)
         \<or> (\<exists>p a'. ka_allocate a s t = Some (Some p, a') \<and> alloc_ok n a'
              \<and> map_of (ka_active a) s = None \<and> map_of (ka_active a') s = Some p
              \<and> length (kp_logical_pages p) = pages_for_tokens a t \<and> ka_page_tokens a' = ka_page_tokens a)"
proof (cases "map_of (ka_active a) s \<noteq> None \<or> length (ka_free_pages a) < pages_for_tokens a t")
  case False
  then obtain p a' where e: "alloc_pages a s (pages_for_tokens a t) = Some (p, a')"
    using alloc_pages_eq [of "pages_for_tokens a t" a s] by auto
  from False alloc_pages_ok [OF assms _ e] have "alloc_ok n a' \<and> map_of (ka_active a') s = Some p
      \<and> length (kp_logical_pages p) = pages_for_tokens a t \<and> ka_page_tokens a' = ka_page_tokens a" by simp
  with False e show ?thesis by (auto simp: ka_allocate_def Let_def)
qed (auto simp: ka_allocate_def Let_def)

lemma min_tick_None [simp]: "min_tick xs = None \<longleftrightarrow> xs = []"
  by (cases xs) (auto split: option.split)

lemma min_tick_least: "min_tick xs = Some x \<Longrightarrow> x \<in> set xs \<and> (\<forall>y \<in> set xs. snd x \<le> snd y)"
proof (induction xs arbitrary: x)
  case (Cons a xs)
  show ?case
  proof (cases "min_tick xs")
    case None
    with Cons.prems show ?thesis by simp
  next
    case (Some b)
    with Cons.IH [OF Some] Cons.prems show ?thesis by (force split: if_splits)
  qed
qed simp

lemma allocate_or_evict_cases:
  assumes "alloc_ok n a"
  shows "\<exists>r a'. allocate_or_evict a s t prot = Some (r, a') \<and> alloc_ok n a' \<and> ka_page_tokens a' = ka_page_tokens a
    \<and> (case r of
         OutOfMemory \<Rightarrow> True
       | Allocated p \<Rightarrow> map_of (ka_active a') s = Some p
           \<and> length (kp_logical_pages p) = pages_for_tokens a t
       | EvictedAndAllocated v p \<Rightarrow> map_of (ka_active a') s = Some p
           \<and> length (kp_logical_pages p) = pages_for_tokens a t \<and> v \<notin> prot \<and> v \<noteq> s
           \<and> map_of (ka_active a) v \<noteq> None \<and> map_of (ka_active a') v = None
           \<and> (\<exists>tv. (v, tv) \<in> set (ka_lru_ticks a)
                \<and> (\<forall>(q, tq) \<in> set (ka_lru_ticks a). q \<notin> prot \<longrightarrow> tv \<le> tq)))"
proof -
  let ?need = "pages_for_tokens a t"
  consider (active) "map_of (ka_active a) s \<noteq> None"
    | (free) "map_of (ka_active a) s = None" "?need \<le> length (ka_free_pages a)"
    | (none) "map_of (ka_active a) s = None" "length (ka_free_pages a) < ?need" "lru_victim a s prot = None"
    | (victim) v where "map_of (ka_active a) s = None" "length (ka_free_pages a) < ?need"
        "lru_victim a s prot = Some v"
    by force
  then show ?thesis
  proof cases
    case free
    then obtain p a' where e: "alloc_pages a s ?need = Some (p, a')"
      using alloc_pages_eq [of ?need a s] by auto
    with free alloc_pages_ok [OF assms free(1) e free(2)] show ?thesis
      by (simp add: allocate_or_evict_def)
  next
    case victim
    from victim(3) obtain tv where tv: "min_tick (filter (\<lambda>(seq, _). seq \<notin> prot \<and> seq \<noteq> s) (ka_lru_ticks a))
        = Some (v, tv)" by (auto simp: lru_victim_def)
    note least = min_tick_least [OF tv]
    then have v: "v \<notin> prot" "v \<noteq> s" "(v, tv) \<in> set (ka_lru_ticks a)" by auto
    then have "v \<in> fst ` set (ka_active a)" using assms v(3) unfolding alloc_ok_def by (metis fst_conv imageI)
    then obtain pv where pv: "map_of (ka_active a) v = Some pv"
      by (metis map_of_eq_None_iff option.exhaust)
    have lr: "\<forall>(q, tq) \<in> set (ka_lru_ticks a). q \<notin> prot \<longrightarrow> tv \<le> tq"
    proof -
      have "s \<notin> fst ` set (ka_lru_ticks a)"
        using assms victim(1) by (simp add: alloc_ok_def map_of_eq_None_iff)
      then have ne: "\<And>q tq. (q, tq) \<in> set (ka_lru_ticks a) \<Longrightarrow> q \<noteq> s" by force
      show ?thesis
      proof (intro ballI, clarify)
        fix q tq
        assume q: "(q, tq) \<in> set (ka_lru_ticks a)" "q \<notin> prot"
        then have "(q, tq) \<in> set (filter (\<lambda>(seq, _). seq \<notin> prot \<and> seq \<noteq> s) (ka_lru_ticks a))"
          using ne by simp
        with least show "tv \<le> tq" by fastforce
      qed
    qed
    let ?a = "snd (release_sequence a v)"
    note rel = release_sequence_ok [OF assms pv]
    have need: "pages_for_tokens ?a t = ?need" using rel by (simp add: pages_for_tokens_def)
    show ?thesis
    proof (cases "length (ka_free_pages ?a) < ?need")
      case True
      with victim rel show ?thesis by (simp add: allocate_or_evict_def Let_def)
    next
      case False
      then obtain p a' where e: "alloc_pages ?a s ?need = Some (p, a')"
        using alloc_pages_eq [of ?need ?a s] by auto
      have s: "map_of (ka_active ?a) s = None" using rel victim(1) by simp
      from alloc_pages_ok [OF conjunct1 [OF rel] s e] False rel
      have ok: "alloc_ok n a'" "map_of (ka_active a') s = Some p"
        "length (kp_logical_pages p) = ?need" "ka_page_tokens a' = ka_page_tokens a" by auto
      have "map_of (ka_active a') v = None"
        using e rel v(2) by (auto simp: alloc_pages_def Let_def update_conv')
      with False victim e ok v pv lr show ?thesis
        by (auto simp: allocate_or_evict_def Let_def)
    qed
  qed (use assms in \<open>simp_all add: allocate_or_evict_def\<close>)
qed

section \<open>Reachable allocators\<close>

inductive kv_reach :: "nat \<Rightarrow> nat \<Rightarrow> kv_allocator \<Rightarrow> bool" for num_pages page_tokens where
  created: "kv_reach num_pages page_tokens (ka_new num_pages page_tokens)"
| touched: "kv_reach num_pages page_tokens a \<Longrightarrow> kv_reach num_pages page_tokens (ka_touch a s)"
| allocated: "kv_reach num_pages page_tokens a \<Longrightarrow> ka_allocate a s t = Some (r, a')
    \<Longrightarrow> kv_reach num_pages page_tokens a'"
| evicted: "kv_reach num_pages page_tokens a \<Longrightarrow> allocate_or_evict a s t prot = Some (res, a')
    \<Longrightarrow> kv_reach num_pages page_tokens a'"
| released: "kv_reach num_pages page_tokens a \<Longrightarrow> kv_reach num_pages page_tokens (snd (ka_release a p))"
| released_sequence: "kv_reach num_pages page_tokens a
    \<Longrightarrow> kv_reach num_pages page_tokens (snd (release_sequence a s))"

lemma kv_reach_ok:
  "kv_reach num_pages page_tokens a \<Longrightarrow> alloc_ok (as_u32 num_pages) a \<and> ka_page_tokens a = page_tokens"
proof (induction rule: kv_reach.induct)
  case created
  show ?case by (simp add: alloc_ok_new) (simp add: ka_new_def)
next
  case (allocated a s t r a')
  then show ?case using ka_allocate_cases [of "as_u32 num_pages" a s t] by auto
next
  case (evicted a s t prot res a')
  then show ?case using allocate_or_evict_cases [of "as_u32 num_pages" a s t prot] by auto
next
  case (touched a s)
  then show ?case using alloc_ok_touch by blast
next
  case (released a p)
  then show ?case using alloc_ok_release by blast
next
  case (released_sequence a s)
  then show ?case using alloc_ok_release_sequence by blast
qed

section \<open>The contract of a page store\<close>

text \<open>What slot mapping relies on: distinct page tables, and page tables that do not overlap.\<close>

locale page_store =
  fixes store_ok :: "'a \<Rightarrow> bool" and table :: "'a \<Rightarrow> nat \<Rightarrow> nat list option"
  assumes table_distinct: "store_ok a \<Longrightarrow> table a s = Some ps \<Longrightarrow> distinct ps"
    and tables_disjoint: "store_ok a \<Longrightarrow> table a s = Some ps \<Longrightarrow> table a t = Some qs \<Longrightarrow> s \<noteq> t
          \<Longrightarrow> set ps \<inter> set qs = {}"
begin

lemma same_page:
  assumes "store_ok a" and "table a s = Some ps" and "table a t = Some qs"
    and "i < length ps" and "j < length qs" and "ps ! i = qs ! j"
  shows "s = t \<and> i = j"
proof (cases "s = t")
  case True
  with assms table_distinct [OF assms(1,2)] show ?thesis by (simp add: nth_eq_iff_index_eq)
next
  case False
  with tables_disjoint [OF assms(1-3)] assms(4-6) show ?thesis by (metis disjoint_iff nth_mem)
qed

lemma same_slot:
  assumes "store_ok a" and "table a s = Some ps" and "table a t = Some qs" and "0 < pt" and "pt \<le> u32_max"
    and "physical_slot \<lparr>sm_page_tokens = pt, sm_pages = \<lparr>kp_sequence = s, kp_logical_pages = ps\<rparr>\<rparr> i = Some x"
    and "physical_slot \<lparr>sm_page_tokens = pt, sm_pages = \<lparr>kp_sequence = t, kp_logical_pages = qs\<rparr>\<rparr> j = Some x"
  shows "s = t \<and> i = j"
proof -
  have small: "as_u32 pt = pt" "as_u32 (k mod pt) = k mod pt" for k
    using assms(4,5) mod_less_divisor [OF assms(4), of k] by (simp_all add: as_u32_small)
  have i: "i div pt < length ps" "x = ps ! (i div pt) * pt + i mod pt"
    and j: "j div pt < length qs" "x = qs ! (j div pt) * pt + j mod pt"
    using assms(6,7)
    by (auto simp: physical_slot_def Let_def small checked_u32_Some bind_eq_Some_conv split: if_splits)
  have "ps ! (i div pt) = x div pt" "i mod pt = x mod pt"
    "qs ! (j div pt) = x div pt" "j mod pt = x mod pt"
    using assms(4) by (simp add: i(2), simp add: i(2), simp add: j(2), simp add: j(2))
  with same_page [OF assms(1-3) i(1) j(1)] have "s = t" "i div pt = j div pt" "i mod pt = j mod pt"
    by simp_all
  then show ?thesis by (metis div_mult_mod_eq)
qed

end

definition page_table :: "kv_allocator \<Rightarrow> nat \<Rightarrow> nat list option" where
  "page_table a s = map_option kp_logical_pages (map_of (ka_active a) s)"

lemma owned_split:
  assumes "alloc_ok n a" and "map_of (ka_active a) s = Some p"
  shows "distinct (kp_logical_pages p)
         \<and> (\<forall>t q. t \<noteq> s \<longrightarrow> map_of (ka_active a) t = Some q
               \<longrightarrow> set (kp_logical_pages p) \<inter> set (kp_logical_pages q) = {})"
proof -
  let ?rest = "concat (map (kp_logical_pages \<circ> snd) (AList.delete s (ka_active a)))"
  have "distinct (map fst (ka_active a))" using assms(1) by (simp add: alloc_ok_def)
  from owned_delete [OF this assms(2)] have "mset (owned_pages a) = mset (kp_logical_pages p @ ?rest)"
    by simp
  moreover have "distinct (owned_pages a)" using alloc_ok_distinct [OF assms(1)] by simp
  ultimately have d: "distinct (kp_logical_pages p @ ?rest)" using mset_eq_imp_distinct_iff by blast
  have "set (kp_logical_pages q) \<subseteq> set ?rest" if "t \<noteq> s" "map_of (ka_active a) t = Some q" for t q
    using map_of_SomeD [OF that(2)] that(1) by (force simp: AList.delete_eq)
  with d show ?thesis by (fastforce simp: disjoint_iff)
qed

interpretation kv: page_store "alloc_ok n" page_table for n
proof unfold_locales
  fix a s ps
  assume "alloc_ok n a" and "page_table a s = Some ps"
  then show "distinct ps" using owned_split by (fastforce simp: page_table_def)
next
  fix a s ps t qs
  assume "alloc_ok n a" and "page_table a s = Some ps" and "page_table a t = Some qs" and "s \<noteq> t"
  then obtain p q where "map_of (ka_active a) s = Some p" "map_of (ka_active a) t = Some q"
    "ps = kp_logical_pages p" "qs = kp_logical_pages q" by (auto simp: page_table_def)
  with owned_split [OF \<open>alloc_ok n a\<close>, of s p] \<open>s \<noteq> t\<close> show "set ps \<inter> set qs = {}" by metis
qed

section \<open>Properties\<close>

text \<open>
  C1: no physical KV slot is ever shared: in every reachable allocator, two positions of active
  sequences that map to the same slot are the same position of the same sequence.
\<close>

theorem kv_slots_never_shared:
  assumes "kv_reach num_pages page_tokens a" and "0 < page_tokens" and "page_tokens \<le> u32_max"
    and "map_of (ka_active a) s = Some p" and "map_of (ka_active a) t = Some q"
    and "physical_slot \<lparr>sm_page_tokens = page_tokens, sm_pages = p\<rparr> i = Some x"
    and "physical_slot \<lparr>sm_page_tokens = page_tokens, sm_pages = q\<rparr> j = Some x"
  shows "s = t \<and> i = j"
proof -
  have ok: "alloc_ok (as_u32 num_pages) a" using kv_reach_ok [OF assms(1)] by simp
  then have "kp_sequence p = s" "kp_sequence q = t"
    using map_of_SomeD [OF assms(4)] map_of_SomeD [OF assms(5)] by (auto simp: alloc_ok_def)
  then have p: "p = \<lparr>kp_sequence = s, kp_logical_pages = kp_logical_pages p\<rparr>"
    and q: "q = \<lparr>kp_sequence = t, kp_logical_pages = kp_logical_pages q\<rparr>" by auto
  have tp: "page_table a s = Some (kp_logical_pages p)" and tq: "page_table a t = Some (kp_logical_pages q)"
    using assms(4,5) by (simp_all add: page_table_def)
  from assms(6,7) show ?thesis
    by (subst (asm) p, subst (asm) q) (rule kv.same_slot [OF ok tp tq assms(2,3)])
qed

text \<open>
  C14: pages are neither lost nor duplicated: in every reachable allocator the free pages and the
  pages of the active sequences together are the pages \<open>0\<close> to \<open>num_pages - 1\<close>, each once.
\<close>

theorem kv_pages_conserved:
  assumes "kv_reach num_pages page_tokens a"
  shows "mset (ka_free_pages a) + (\<Sum>x \<in># mset (ka_active a). mset (kp_logical_pages (snd x)))
           = mset [0..<as_u32 num_pages]
         \<and> ka_free_count a \<le> as_u32 num_pages"
proof -
  have m: "mset (ka_free_pages a) + mset (owned_pages a) = mset [0..<as_u32 num_pages]"
    using kv_reach_ok [OF assms] by (simp add: alloc_ok_def)
  then have "size (mset (ka_free_pages a) + mset (owned_pages a)) = size (mset [0..<as_u32 num_pages])"
    by (rule arg_cong)
  then have "ka_free_count a \<le> as_u32 num_pages" by (simp add: ka_free_count_def)
  with m show ?thesis by (simp only: owned_pages_def concat_pages_mset)
qed

text \<open>
  Allocation never panics; it gives a sequence that has no pages exactly enough pages for its
  tokens when so many are free, and otherwise changes nothing.
\<close>

theorem kv_allocate_outcome:
  assumes "kv_reach num_pages page_tokens a"
  shows "\<exists>r a'. ka_allocate a s tokens = Some (r, a') \<and>
    (case r of
       None \<Rightarrow> a' = a \<and> (map_of (ka_active a) s \<noteq> None \<or> ka_free_count a < pages_for_tokens a tokens)
     | Some p \<Rightarrow> map_of (ka_active a) s = None \<and> map_of (ka_active a') s = Some p
         \<and> length (kp_logical_pages p) = pages_for_tokens a tokens)"
  using ka_allocate_cases [of "as_u32 num_pages" a s tokens] kv_reach_ok [OF assms]
  by (auto simp: ka_free_count_def)

text \<open>
  The pages a sequence is given cover its tokens: every position below its token count has a
  slot, as long as the whole pool is addressable with 32 bits.
\<close>

theorem kv_allocation_covers_tokens:
  assumes "kv_reach num_pages page_tokens a" and "ka_allocate a s tokens = Some (Some p, a')"
    and "0 < page_tokens" and "page_tokens \<le> u32_max" and "as_u32 num_pages * page_tokens \<le> u32_max"
  shows "\<exists>slots. slot_mapping \<lparr>sm_page_tokens = page_tokens, sm_pages = p\<rparr> 0 tokens = Some slots
           \<and> length slots = tokens \<and> (\<forall>x \<in> set slots. x < as_u32 num_pages * page_tokens)"
proof -
  from kv_reach_ok [OF assms(1)] have ok: "alloc_ok (as_u32 num_pages) a" "ka_page_tokens a = page_tokens"
    by simp_all
  from ka_allocate_cases [OF ok(1), of s tokens] assms(2)
  have ok': "alloc_ok (as_u32 num_pages) a'" and m: "map_of (ka_active a') s = Some p"
    and len: "length (kp_logical_pages p) = pages_for_tokens a tokens" by auto
  let ?m = "\<lparr>sm_page_tokens = page_tokens, sm_pages = p\<rparr>"
  have slot: "\<exists>x. physical_slot ?m i = Some x \<and> x < as_u32 num_pages * page_tokens" if "i < tokens" for i
  proof -
    let ?pg = "kp_logical_pages p ! (i div page_tokens)"
    have il: "i div page_tokens < length (kp_logical_pages p)"
      using div_less_ceil [OF assms(3) that] by (simp add: len pages_for_tokens_def ok(2))
    then have "?pg \<in> set (owned_pages a')" using owned_by [OF m] by (meson nth_mem subsetD)
    then have "?pg < as_u32 num_pages" using alloc_ok_pages [OF ok'] by blast
    then have "(?pg + 1) * page_tokens \<le> as_u32 num_pages * page_tokens" by (intro mult_le_mono1) simp
    moreover have md: "i mod page_tokens < page_tokens" using assms(3) by simp
    ultimately have "?pg * page_tokens + i mod page_tokens < as_u32 num_pages * page_tokens"
      by (simp add: algebra_simps)
    with il md assms(4,5) show ?thesis
      by (auto simp: physical_slot_def Let_def as_u32_small checked_mul_u32_def checked_add_u32_def)
  qed
  let ?f = "\<lambda>i. the (physical_slot ?m i)"
  have def_slot: "physical_slot ?m i = Some (?f i)" if "i < tokens" for i
    using slot [OF that] by auto
  have "map (\<lambda>i. physical_slot ?m (0 + i)) [0..<tokens] = map Some (map ?f [0..<tokens])"
    using def_slot by simp
  moreover have th: "those (map Some xs) = Some xs" for xs :: "nat list" by (induction xs) simp_all
  ultimately have "slot_mapping ?m 0 tokens = Some (map ?f [0..<tokens])"
    unfolding slot_mapping_def by (simp only: th)
  moreover have "\<forall>x \<in> set (map ?f [0..<tokens]). x < as_u32 num_pages * page_tokens"
    using slot by fastforce
  ultimately show ?thesis by simp
qed

text \<open>
  Eviction spares the protected sequences and takes the least recently used of the others; the
  new sequence then owns exactly enough pages, and the evicted one none.
\<close>

theorem kv_eviction_choice:
  assumes "kv_reach num_pages page_tokens a"
    and "allocate_or_evict a s tokens protected = Some (EvictedAndAllocated victim p, a')"
  shows "victim \<notin> protected \<and> victim \<noteq> s \<and> map_of (ka_active a') victim = None
         \<and> map_of (ka_active a') s = Some p
         \<and> length (kp_logical_pages p) = pages_for_tokens a tokens
         \<and> (\<exists>tv. (victim, tv) \<in> set (ka_lru_ticks a)
              \<and> (\<forall>(q, tq) \<in> set (ka_lru_ticks a). q \<notin> protected \<longrightarrow> tv \<le> tq))"
  using allocate_or_evict_cases [of "as_u32 num_pages" a s tokens protected]
    kv_reach_ok [OF assms(1)] assms(2) by auto

text \<open>
  Releasing what was allocated gives the pages back: the sequence is inactive and as many
  pages are free as before.
\<close>

theorem kv_release_returns_pages:
  assumes "kv_reach num_pages page_tokens a" and "ka_allocate a s tokens = Some (Some p, a')"
  shows "fst (ka_release a' p) \<and> map_of (ka_active (snd (ka_release a' p))) s = None
         \<and> mset (ka_free_pages (snd (ka_release a' p))) = mset (ka_free_pages a)
         \<and> \<not> fst (ka_release (snd (ka_release a' p)) p)"
proof -
  from kv_reach_ok [OF assms(1)] have ok: "alloc_ok (as_u32 num_pages) a" by simp
  from ka_allocate_cases [OF ok, of s tokens] assms(2)
  have ok': "alloc_ok (as_u32 num_pages) a'" and m: "map_of (ka_active a') s = Some p"
    and fresh: "map_of (ka_active a) s = None" by auto
  have "kp_sequence p = s" using map_of_SomeD [OF m] ok' by (auto simp: alloc_ok_def)
  then have rel: "ka_release a' p = (True, snd (release_sequence a' s))"
    using release_matching [of a' p p] m by simp
  note r = release_sequence_ok [OF ok' m]
  obtain need where e: "alloc_pages a s need = Some (p, a')" "need \<le> length (ka_free_pages a)"
    using assms(2) fresh by (auto simp: ka_allocate_def Let_def split: if_splits)
  have "mset (ka_free_pages a') + mset (kp_logical_pages p) = mset (ka_free_pages a)"
  proof -
    obtain ps free where f: "free @ rev ps = ka_free_pages a"
      and q: "alloc_pages a s need = Some (\<lparr>kp_sequence = s, kp_logical_pages = ps\<rparr>,
         a\<lparr>ka_lru_clock := ka_lru_clock a + 1, ka_free_pages := free,
           ka_active := AList.update s \<lparr>kp_sequence = s, kp_logical_pages = ps\<rparr> (ka_active a),
           ka_lru_ticks := AList.update s (ka_lru_clock a + 1) (ka_lru_ticks a)\<rparr>)"
      using alloc_pages_eq [OF e(2), of s] by blast
    from q e(1) have "kp_logical_pages p = ps" "ka_free_pages a' = free" by auto
    moreover have "mset (free @ rev ps) = mset (ka_free_pages a)" by (simp only: f)
    ultimately show ?thesis by simp
  qed
  moreover have "\<not> fst (ka_release (snd (release_sequence a' s)) p)"
    using r \<open>kp_sequence p = s\<close> by (simp add: ka_release_def)
  ultimately show ?thesis using rel r by simp
qed

section \<open>Where the allocator falls short\<close>

text \<open>
  Three pages: sequence 1 holds two, sequence 2 one. Sequence 3 asks for three with only 2
  protected.
\<close>

definition crowded :: kv_allocator where
  "crowded = \<lparr>ka_page_tokens = 256, ka_free_pages = [],
     ka_active = [(1, \<lparr>kp_sequence = 1, kp_logical_pages = [0, 1]\<rparr>),
                  (2, \<lparr>kp_sequence = 2, kp_logical_pages = [2]\<rparr>)],
     ka_lru_clock = 2, ka_lru_ticks = [(1, 1), (2, 2)]\<rparr>"

lemmas kv_eval = ka_new_def ka_allocate_def alloc_pages_def pages_for_tokens_def div_ceil_def as_u32_def
  allocate_or_evict_def lru_victim_def release_sequence_def release_pages_def

lemma crowded_reach: "kv_reach 3 256 crowded"
proof -
  let ?a0 = "ka_new 3 256"
  obtain p1 a1 where 1: "ka_allocate ?a0 1 512 = Some (Some p1, a1)"
    "a1 = \<lparr>ka_page_tokens = 256, ka_free_pages = [2],
           ka_active = [(1, \<lparr>kp_sequence = 1, kp_logical_pages = [0, 1]\<rparr>)],
           ka_lru_clock = 1, ka_lru_ticks = [(1, 1)]\<rparr>"
    by (simp add: kv_eval Let_def pop_pages_Some upt_rec)
  obtain p2 where 2: "ka_allocate a1 2 1 = Some (Some p2, crowded)"
    by (simp add: kv_eval 1 crowded_def Let_def pop_pages_Some)
  show ?thesis by (rule kv_reach.allocated [OF kv_reach.allocated [OF kv_reach.created 1(1)] 2])
qed

text \<open>
  When one eviction does not free enough pages, the request is answered out of memory, but the
  victim has already lost its pages and the answer does not name it.
\<close>

theorem kv_failed_eviction_drops_victim:
  "kv_reach 3 256 crowded \<and> map_of (ka_active crowded) 1 \<noteq> None
   \<and> (\<exists>a'. allocate_or_evict crowded 3 768 {2} = Some (OutOfMemory, a')
        \<and> map_of (ka_active a') 1 = None \<and> ka_free_pages a' = [0, 1])"
  using crowded_reach by (simp add: kv_eval crowded_def Let_def pop_pages_Some)

section \<open>Concrete instances\<close>

theorem kv_slots_never_shared_witness:
  "physical_slot \<lparr>sm_page_tokens = 256, sm_pages = \<lparr>kp_sequence = 1, kp_logical_pages = [0, 1]\<rparr>\<rparr> 300
     \<noteq> physical_slot \<lparr>sm_page_tokens = 256, sm_pages = \<lparr>kp_sequence = 2, kp_logical_pages = [2]\<rparr>\<rparr> 44"
    (is "?l \<noteq> ?r")
proof
  assume "?l = ?r"
  have l: "?l = Some 300"
    by (simp add: physical_slot_def checked_mul_u32_def checked_add_u32_def as_u32_def u32_max_def)
  with \<open>?l = ?r\<close> have r: "?r = Some 300" by simp
  have m: "map_of (ka_active crowded) 1 = Some \<lparr>kp_sequence = 1, kp_logical_pages = [0, 1]\<rparr>"
    "map_of (ka_active crowded) 2 = Some \<lparr>kp_sequence = 2, kp_logical_pages = [2]\<rparr>"
    by (simp_all add: crowded_def)
  have "(0 :: nat) < 256" "(256 :: nat) \<le> u32_max" by (simp_all add: u32_max_def)
  from kv_slots_never_shared [OF crowded_reach this m l r] show False by simp
qed

theorem kv_pages_conserved_witness:
  "ka_free_count crowded \<le> as_u32 3"
  using kv_pages_conserved [OF crowded_reach] by simp

theorem kv_allocate_outcome_witness:
  "\<exists>a'. ka_allocate crowded 3 768 = Some (None, a')"
proof -
  have "ka_free_count crowded = 0" "pages_for_tokens crowded 768 = 3"
    by (simp_all add: crowded_def ka_free_count_def pages_for_tokens_def div_ceil_def)
  with kv_allocate_outcome [OF crowded_reach, of 3 768] show ?thesis
    by (auto simp: ka_allocate_def ka_free_count_def Let_def split: option.splits if_splits)
qed

theorem kv_allocation_covers_tokens_witness:
  "\<exists>p a' slots. ka_allocate (ka_new 3 256) 1 512 = Some (Some p, a')
     \<and> slot_mapping \<lparr>sm_page_tokens = 256, sm_pages = p\<rparr> 0 512 = Some slots \<and> length slots = 512"
proof -
  obtain p a' where e: "ka_allocate (ka_new 3 256) 1 512 = Some (Some p, a')"
    by (simp add: kv_eval Let_def pop_pages_Some upt_rec)
  have "as_u32 3 * 256 \<le> u32_max" "(256 :: nat) \<le> u32_max" by (simp_all add: as_u32_def u32_max_def)
  with kv_allocation_covers_tokens [OF kv_reach.created e] e show ?thesis by auto
qed

theorem kv_eviction_choice_witness:
  "\<exists>victim p a'. allocate_or_evict crowded 3 512 {2} = Some (EvictedAndAllocated victim p, a') \<and> victim \<notin> {2}"
proof -
  obtain p a' where e: "allocate_or_evict crowded 3 512 {2} = Some (EvictedAndAllocated 1 p, a')"
    by (simp add: kv_eval crowded_def Let_def pop_pages_Some)
  from kv_eviction_choice [OF crowded_reach e] e show ?thesis by blast
qed

theorem kv_release_returns_pages_witness:
  "\<exists>p a'. ka_allocate (ka_new 3 256) 1 512 = Some (Some p, a') \<and> fst (ka_release a' p)
     \<and> mset (ka_free_pages (snd (ka_release a' p))) = mset (ka_free_pages (ka_new 3 256))"
proof -
  obtain p a' where e: "ka_allocate (ka_new 3 256) 1 512 = Some (Some p, a')"
    by (simp add: kv_eval Let_def pop_pages_Some upt_rec)
  from kv_release_returns_pages [OF kv_reach.created e] e show ?thesis by blast
qed

end
