(* ===== verification/PrefillBatch.thy ===== *)
theory PrefillBatch
  imports KvPages
begin

text \<open>
  The host side of a prefill batch (\<^verbatim>\<open>executor/prefill/batch/mod.rs\<close> and
  \<^verbatim>\<open>batch/builder.rs\<close>), the identity-metadata proof of
  \<^verbatim>\<open>cuda/types.rs\<close>, and the chunk loop of \<^verbatim>\<open>executor/prefill/mod.rs\<close>.
  \<^verbatim>\<open>u32\<close> vectors are lists of naturals, every \<^verbatim>\<open>as u32\<close> is
  \<open>as_u32\<close>, checked arithmetic is checked. Error messages keep their constant text; the
  interpolated numbers are left out. The uploads to the device and the forward pass of a chunk
  are CUDA calls and appear as a parameter.
\<close>

section \<open>Descriptors\<close>

datatype batch_kind = FirstPrefill | ContinuationPrefill | DecodeBatch | Mixed

record batch_descriptor =
  bd_request_ids :: "nat list"
  bd_seq_ids :: "nat list"
  bd_token_ids :: "nat list"
  bd_positions :: "nat list"
  bd_slot_mapping :: "nat list"
  bd_cu_q :: "nat list"
  bd_cu_k :: "nat list"
  bd_context_lens :: "nat list"
  bd_block_tables :: "nat list"
  bd_max_q :: nat
  bd_max_k :: nat
  bd_num_prefill_tokens :: nat
  bd_num_decode_tokens :: nat
  bd_kind :: batch_kind

record prefill_sequence =
  ps_request_id :: nat
  ps_seq_id :: nat
  ps_token_ids :: "nat list"
  ps_start_position :: nat
  ps_context_len :: nat
  ps_block_table :: "nat list"

record decode_sequence =
  ds_request_id :: nat
  ds_seq_id :: nat
  ds_token_id :: nat
  ds_position :: nat
  ds_context_len :: nat
  ds_physical_slot :: nat
  ds_block_table :: "nat list"

definition bd_empty :: "batch_kind \<Rightarrow> batch_descriptor" where
  "bd_empty kind =
     \<lparr>bd_request_ids = [], bd_seq_ids = [], bd_token_ids = [], bd_positions = [],
      bd_slot_mapping = [], bd_cu_q = [], bd_cu_k = [], bd_context_lens = [],
      bd_block_tables = [], bd_max_q = 0, bd_max_k = 0, bd_num_prefill_tokens = 0,
      bd_num_decode_tokens = 0, bd_kind = kind\<rparr>"

section \<open>Validation\<close>

definition guard :: "bool \<Rightarrow> string \<Rightarrow> unit aegis_result" where
  "guard ok message = (if ok then Inr () else Inl (InvalidPlan message))"

lemma guard_Inr [simp]: "guard ok message = Inr u \<longleftrightarrow> ok"
  by (simp add: guard_def)

lemma guard_True [simp]: "guard True message = Inr ()"
  by (simp add: guard_def)

abbreviation then_do :: "unit aegis_result \<Rightarrow> 'a aegis_result \<Rightarrow> 'a aegis_result" where
  "then_do r s \<equiv> res_bind r (\<lambda>_. s)"

definition validate_page_tokens :: "nat \<Rightarrow> unit aegis_result" where
  "validate_page_tokens page_tokens =
     guard (\<not> (page_tokens = 0 \<or> page_tokens > u32_max))
       ''paged descriptor requires page_tokens in 1..=u32::MAX''"

definition validate_prefill_tokens :: "nat list \<Rightarrow> nat \<Rightarrow> unit aegis_result" where
  "validate_prefill_tokens tokens vocab_size =
     then_do (guard (tokens \<noteq> []) ''CUDA prefill batch cannot be empty'')
     (then_do (guard (vocab_size \<le> u32_max)
                ''CUDA prefill dense adapter requires u32 vocab size'')
       (guard (list_all (\<lambda>token. \<not> (token \<ge> vocab_size \<or> token > u32_max)) tokens)
          ''CUDA prefill token id out of range''))"

definition padded_block_table :: "nat list \<Rightarrow> nat \<Rightarrow> nat list" where
  "padded_block_table block_table max_blocks =
     take max_blocks (block_table @ replicate max_blocks u32_max)"

definition physical_slot_from_table :: "nat list \<Rightarrow> nat \<Rightarrow> nat \<Rightarrow> nat aegis_result" where
  "physical_slot_from_table block_table page_tokens logical_position =
     (let logical_page = logical_position div page_tokens;
          page_offset = logical_position mod page_tokens
      in if logical_page < length block_table
         then ok_or (InvalidPlan ''physical slot overflow'')
                (Option.bind (checked_mul_u32 (block_table ! logical_page) (as_u32 page_tokens))
                   (\<lambda>slot. checked_add_u32 slot (as_u32 page_offset)))
         else Inl (InvalidPlan ''paged descriptor missing page''))"

fun monotonic :: "nat list \<Rightarrow> bool" where
  "monotonic (x # y # xs) = (x \<le> y \<and> monotonic (y # xs))"
| "monotonic _ = True"

definition validate_cumulative_offsets :: "nat list \<Rightarrow> nat \<Rightarrow> unit aegis_result" where
  "validate_cumulative_offsets offsets expected_total =
     then_do (guard (expected_total \<le> u32_max)
                ''bad prefill descriptor: expected total exceeds u32'')
     (then_do (guard (offsets \<noteq> [] \<and> hd offsets = 0 \<and> last offsets = expected_total)
                ''bad prefill descriptor: first/last offsets'')
       (guard (monotonic offsets) ''bad prefill descriptor: offsets are not monotonic''))"

text \<open>The first loop over the sequences: per-sequence lengths.\<close>

definition sequence_lengths_ok :: "batch_descriptor \<Rightarrow> nat \<Rightarrow> unit aegis_result" where
  "sequence_lengths_ok d seq =
     (let q_len = bd_cu_q d ! (seq + 1) - bd_cu_q d ! seq;
          k_len = bd_cu_k d ! (seq + 1) - bd_cu_k d ! seq;
          context_len = bd_context_lens d ! seq
      in then_do (guard (k_len = context_len) ''prefill descriptor cu_k/context mismatch'')
           (guard (\<not> (q_len > bd_max_q d \<or> context_len > bd_max_k d))
              ''prefill descriptor max_q/max_k too small''))"

text \<open>The second loop: the block table row of a sequence covers its context.\<close>

definition block_row_ok :: "batch_descriptor \<Rightarrow> nat \<Rightarrow> nat \<Rightarrow> nat \<Rightarrow> unit aegis_result" where
  "block_row_ok d page_tokens stride seq =
     (let required_pages = max (div_ceil (bd_context_lens d ! seq) page_tokens) 1;
          row_start = seq * stride
      in then_do (guard (\<not> required_pages > stride)
                    ''prefill descriptor block table stride too small'')
           (guard (list_all (\<lambda>page_idx. bd_block_tables d ! (row_start + page_idx) \<noteq> u32_max)
                     [0..<required_pages])
              ''prefill descriptor has missing physical page''))"

fun each :: "('a \<Rightarrow> unit aegis_result) \<Rightarrow> 'a list \<Rightarrow> unit aegis_result" where
  "each f [] = Inr ()"
| "each f (x # xs) = then_do (f x) (each f xs)"

text \<open>\<^verbatim>\<open>try_fold(0, checked_add)\<close>.\<close>

fun checked_sum :: "nat \<Rightarrow> nat list \<Rightarrow> nat option" where
  "checked_sum acc [] = Some acc"
| "checked_sum acc (x # xs) =
     (case checked_add acc x of None \<Rightarrow> None | Some acc' \<Rightarrow> checked_sum acc' xs)"

definition validate_varlen_contract :: "batch_descriptor \<Rightarrow> nat \<Rightarrow> unit aegis_result" where
  "validate_varlen_contract d page_tokens =
     then_do (validate_page_tokens page_tokens)
     (res_bind (ok_or (InvalidPlan ''prefill descriptor token count overflow'')
                  (checked_add (bd_num_prefill_tokens d) (bd_num_decode_tokens d)))
       (\<lambda>total_query_tokens.
         let num_sequences = length (bd_request_ids d)
         in then_do (guard (\<not> (num_sequences = 0
                              \<or> length (bd_seq_ids d) \<noteq> num_sequences
                              \<or> length (bd_context_lens d) \<noteq> num_sequences
                              \<or> length (bd_cu_q d) \<noteq> num_sequences + 1
                              \<or> length (bd_cu_k d) \<noteq> num_sequences + 1))
                      ''bad prefill descriptor sequence metadata'')
            (then_do (guard (\<not> (length (bd_token_ids d) \<noteq> total_query_tokens
                              \<or> length (bd_positions d) \<noteq> total_query_tokens
                              \<or> length (bd_slot_mapping d) \<noteq> total_query_tokens))
                       ''bad prefill descriptor token metadata'')
            (then_do (validate_cumulative_offsets (bd_cu_q d) total_query_tokens)
            (res_bind (ok_or (InvalidPlan ''cu_k total overflow'')
                         (checked_sum 0 (bd_context_lens d)))
              (\<lambda>total_k.
               then_do (validate_cumulative_offsets (bd_cu_k d) total_k)
               (then_do (each (sequence_lengths_ok d) [0..<num_sequences])
               (let block_table_stride = length (bd_block_tables d) div num_sequences
                in then_do (guard (\<not> (block_table_stride = 0
                              \<or> block_table_stride * num_sequences \<noteq> length (bd_block_tables d)))
                             ''bad prefill descriptor block table shape'')
                   (then_do (each (block_row_ok d page_tokens block_table_stride) [0..<num_sequences])
                     (guard (u32_max \<notin> set (bd_slot_mapping d))
                        ''prefill descriptor slot_mapping contains an unmapped sentinel''))))))))))"

section \<open>Builders\<close>

definition dense_single_sequence ::
  "nat list \<Rightarrow> nat \<Rightarrow> nat \<Rightarrow> nat \<Rightarrow> batch_descriptor aegis_result" where
  "dense_single_sequence tokens start_position context_size vocab_size =
     then_do (validate_prefill_tokens tokens vocab_size)
     (res_bind (ok_or (InvalidPlan ''prefill batch position overflow'')
                  (checked_add start_position (length tokens)))
       (\<lambda>end_position.
         then_do (guard (\<not> end_position > context_size) ''prefill batch exceeds context'')
         (then_do (guard (\<not> (end_position > u32_max \<or> context_size > u32_max))
                     ''CUDA prefill dense adapter requires u32 positions'')
          (let kind = (if start_position = 0 then FirstPrefill else ContinuationPrefill);
               page_count = max (div_ceil end_position prefill_kv_page_tokens) 1;
               out = \<lparr>bd_request_ids = [0], bd_seq_ids = [0],
                      bd_token_ids = map as_u32 tokens,
                      bd_positions = map (\<lambda>idx. as_u32 (start_position + idx)) [0..<length tokens],
                      bd_slot_mapping = map (\<lambda>idx. as_u32 (start_position + idx)) [0..<length tokens],
                      bd_cu_q = [0, as_u32 (length tokens)], bd_cu_k = [0, as_u32 end_position],
                      bd_context_lens = [as_u32 end_position],
                      bd_block_tables = map as_u32 [0..<page_count],
                      bd_max_q = length tokens, bd_max_k = end_position,
                      bd_num_prefill_tokens = length tokens, bd_num_decode_tokens = 0,
                      bd_kind = kind\<rparr>
           in then_do (validate_varlen_contract out prefill_kv_page_tokens) (Inr out)))))"

definition last_or_zero :: "nat list \<Rightarrow> nat" where
  "last_or_zero xs = (if xs = [] then 0 else last xs)"

definition push_cu_k :: "batch_descriptor \<Rightarrow> nat \<Rightarrow> batch_descriptor aegis_result" where
  "push_cu_k out context_len =
     then_do (guard (context_len \<le> u32_max) ''prefill descriptor context length exceeds u32'')
       (res_bind (ok_or (InvalidPlan ''cu_k overflow'')
                    (checked_add_u32 (last_or_zero (bd_cu_k out)) context_len))
         (\<lambda>next_k. Inr (out\<lparr>bd_cu_k := bd_cu_k out @ [next_k]\<rparr>)))"

text \<open>The loop over the tokens of one sequence; positions are added with wrap-around.\<close>

fun push_tokens ::
  "nat list \<Rightarrow> nat \<Rightarrow> nat \<Rightarrow> nat \<Rightarrow> nat list \<Rightarrow> batch_descriptor \<Rightarrow> batch_descriptor aegis_result" where
  "push_tokens table page_tokens start idx [] out = Inr out"
| "push_tokens table page_tokens start idx (token # tokens) out =
     (let logical_position = wrapping_add start idx
      in res_bind (physical_slot_from_table table page_tokens logical_position)
           (\<lambda>slot. push_tokens table page_tokens start (idx + 1) tokens
              (out\<lparr>bd_token_ids := bd_token_ids out @ [token],
                   bd_positions := bd_positions out @ [as_u32 logical_position],
                   bd_slot_mapping := bd_slot_mapping out @ [slot]\<rparr>)))"

definition push_prefill_sequence ::
  "batch_descriptor \<Rightarrow> prefill_sequence \<Rightarrow> nat \<Rightarrow> nat \<Rightarrow> batch_descriptor aegis_result" where
  "push_prefill_sequence out s page_tokens max_blocks =
     (let out = out\<lparr>bd_request_ids := bd_request_ids out @ [ps_request_id s],
                    bd_seq_ids := bd_seq_ids out @ [ps_seq_id s],
                    bd_context_lens := bd_context_lens out @ [as_u32 (ps_context_len s)],
                    bd_max_q := max (bd_max_q out) (length (ps_token_ids s)),
                    bd_max_k := max (bd_max_k out) (ps_context_len s)\<rparr>
      in res_bind (push_tokens (ps_block_table s) page_tokens (ps_start_position s) 0
                     (ps_token_ids s) out)
           (\<lambda>out.
             res_bind (ok_or (InvalidPlan ''cu_q overflow'')
                         (checked_add_u32 (last_or_zero (bd_cu_q out))
                            (as_u32 (length (ps_token_ids s)))))
               (\<lambda>next_q.
                 res_bind (push_cu_k (out\<lparr>bd_cu_q := bd_cu_q out @ [next_q]\<rparr>) (ps_context_len s))
                   (\<lambda>out. Inr (out\<lparr>bd_block_tables := bd_block_tables out
                                     @ padded_block_table (ps_block_table s) max_blocks\<rparr>)))))"

definition push_decode_sequence ::
  "batch_descriptor \<Rightarrow> decode_sequence \<Rightarrow> nat \<Rightarrow> batch_descriptor aegis_result" where
  "push_decode_sequence out s max_blocks =
     (let out = out\<lparr>bd_request_ids := bd_request_ids out @ [ds_request_id s],
                    bd_seq_ids := bd_seq_ids out @ [ds_seq_id s],
                    bd_token_ids := bd_token_ids out @ [ds_token_id s],
                    bd_positions := bd_positions out @ [as_u32 (ds_position s)],
                    bd_slot_mapping := bd_slot_mapping out @ [ds_physical_slot s],
                    bd_context_lens := bd_context_lens out @ [as_u32 (ds_context_len s)],
                    bd_max_q := max (bd_max_q out) 1,
                    bd_max_k := max (bd_max_k out) (ds_context_len s)\<rparr>
      in res_bind (ok_or (InvalidPlan ''cu_q overflow'')
                     (checked_add_u32 (last_or_zero (bd_cu_q out)) 1))
           (\<lambda>next_q.
             res_bind (push_cu_k (out\<lparr>bd_cu_q := bd_cu_q out @ [next_q]\<rparr>) (ds_context_len s))
               (\<lambda>out. Inr (out\<lparr>bd_block_tables := bd_block_tables out
                                 @ padded_block_table (ds_block_table s) max_blocks\<rparr>))))"

fun push_prefills ::
  "nat \<Rightarrow> nat \<Rightarrow> nat \<Rightarrow> prefill_sequence list \<Rightarrow> batch_descriptor \<Rightarrow> batch_descriptor aegis_result" where
  "push_prefills page_tokens vocab_size max_blocks [] out = Inr out"
| "push_prefills page_tokens vocab_size max_blocks (s # ss) out =
     then_do (validate_prefill_tokens (ps_token_ids s) vocab_size)
       (res_bind (push_prefill_sequence out s page_tokens max_blocks)
         (push_prefills page_tokens vocab_size max_blocks ss))"

fun push_decodes ::
  "nat \<Rightarrow> nat \<Rightarrow> decode_sequence list \<Rightarrow> batch_descriptor \<Rightarrow> batch_descriptor aegis_result" where
  "push_decodes vocab_size max_blocks [] out = Inr out"
| "push_decodes vocab_size max_blocks (s # ss) out =
     then_do (validate_prefill_tokens [ds_token_id s] vocab_size)
       (res_bind (push_decode_sequence out s max_blocks) (push_decodes vocab_size max_blocks ss))"

definition paged_multi_sequence ::
  "prefill_sequence list \<Rightarrow> nat \<Rightarrow> nat \<Rightarrow> batch_descriptor aegis_result" where
  "paged_multi_sequence sequences page_tokens vocab_size =
     then_do (validate_page_tokens page_tokens)
     (then_do (guard (sequences \<noteq> []) ''paged prefill descriptor requires at least one sequence'')
      (let max_blocks = max (max_or_zero (map (length \<circ> ps_block_table) sequences)) 1;
           out = (bd_empty FirstPrefill)\<lparr>bd_cu_q := [0], bd_cu_k := [0]\<rparr>
       in res_bind (push_prefills page_tokens vocab_size max_blocks sequences out)
            (\<lambda>out.
              let out = out\<lparr>bd_num_prefill_tokens := length (bd_token_ids out),
                            bd_kind := (if list_all (\<lambda>s. ps_start_position s = 0) sequences
                                        then FirstPrefill else ContinuationPrefill)\<rparr>
              in then_do (validate_varlen_contract out page_tokens) (Inr out))))"

definition mixed_paged ::
  "prefill_sequence list \<Rightarrow> decode_sequence list \<Rightarrow> nat \<Rightarrow> nat \<Rightarrow> batch_descriptor aegis_result" where
  "mixed_paged prefill decode page_tokens vocab_size =
     then_do (validate_page_tokens page_tokens)
     (then_do (guard (\<not> (prefill = [] \<and> decode = []))
                 ''mixed descriptor requires at least one query row'')
      (let max_blocks = max (max_or_zero (map (length \<circ> ps_block_table) prefill
                                          @ map (length \<circ> ds_block_table) decode)) 1;
           out = (bd_empty (if prefill = [] then DecodeBatch
                            else if decode = [] then ContinuationPrefill else Mixed))
                   \<lparr>bd_cu_q := [0], bd_cu_k := [0]\<rparr>
       in res_bind (push_prefills page_tokens vocab_size max_blocks prefill out)
            (\<lambda>out.
              let out = out\<lparr>bd_num_prefill_tokens := length (bd_token_ids out)\<rparr>
              in res_bind (push_decodes vocab_size max_blocks decode out)
                   (\<lambda>out.
                     let out = out\<lparr>bd_num_decode_tokens := length decode\<rparr>
                     in then_do (validate_varlen_contract out page_tokens) (Inr out)))))"

section \<open>Facts on the validators\<close>

lemma each_Inr [simp]: "each f xs = Inr u \<longleftrightarrow> (\<forall>x \<in> set xs. f x = Inr ())"
  by (induction xs) (auto simp: res_bind_eq_Inr)

lemma checked_sum_Some:
  "checked_sum acc xs = Some t \<longleftrightarrow> t = acc + sum_list xs \<and> (xs \<noteq> [] \<longrightarrow> acc + sum_list xs \<le> u64_max)"
proof (induction xs arbitrary: acc)
  case (Cons x xs)
  show ?case
  proof (cases "checked_add acc x")
    case None
    then have "u64_max < acc + x" by (auto simp: checked_add_def split: if_splits)
    with None show ?thesis by auto
  next
    case (Some a)
    then have "a = acc + x" "acc + x \<le> u64_max" by (auto simp: checked_add_Some)
    with Some Cons.IH [of a] show ?thesis by (cases xs) (auto simp: add.assoc)
  qed
qed auto

lemma monotonic_step: "monotonic xs \<Longrightarrow> Suc i < length xs \<Longrightarrow> xs ! i \<le> xs ! Suc i"
  by (induction xs arbitrary: i rule: monotonic.induct) (auto simp: nth_Cons split: nat.split)

lemma monotonic_mono: "monotonic xs \<Longrightarrow> j < length xs \<Longrightarrow> i \<le> j \<Longrightarrow> xs ! i \<le> xs ! j"
proof (induction j)
  case (Suc j)
  then show ?case using monotonic_step [of xs j] by (cases "i = Suc j") fastforce+
qed simp

lemma validate_prefill_tokens_Inr [simp]:
  "validate_prefill_tokens ts vocab = Inr u
     \<longleftrightarrow> ts \<noteq> [] \<and> vocab \<le> u32_max \<and> (\<forall>t \<in> set ts. t < vocab)"
  by (fastforce simp: validate_prefill_tokens_def res_bind_eq_Inr list_all_iff not_le)

lemma validate_page_tokens_Inr [simp]:
  "validate_page_tokens pt = Inr u \<longleftrightarrow> 0 < pt \<and> pt \<le> u32_max"
  by (auto simp: validate_page_tokens_def)

lemma validate_cumulative_offsets_Inr [simp]:
  "validate_cumulative_offsets xs t = Inr u
     \<longleftrightarrow> t \<le> u32_max \<and> xs \<noteq> [] \<and> hd xs = 0 \<and> last xs = t \<and> monotonic xs"
  by (auto simp: validate_cumulative_offsets_def res_bind_eq_Inr)

text \<open>What an accepted descriptor satisfies, condition by condition.\<close>

definition contract_holds :: "batch_descriptor \<Rightarrow> nat \<Rightarrow> bool" where
  "contract_holds d pt \<longleftrightarrow>
     (let n = length (bd_request_ids d);
          total = bd_num_prefill_tokens d + bd_num_decode_tokens d;
          stride = length (bd_block_tables d) div n
      in 0 < pt \<and> pt \<le> u32_max \<and> total \<le> u32_max \<and> 0 < n
       \<and> length (bd_seq_ids d) = n \<and> length (bd_context_lens d) = n
       \<and> length (bd_cu_q d) = n + 1 \<and> length (bd_cu_k d) = n + 1
       \<and> length (bd_token_ids d) = total \<and> length (bd_positions d) = total
       \<and> length (bd_slot_mapping d) = total
       \<and> hd (bd_cu_q d) = 0 \<and> last (bd_cu_q d) = total \<and> monotonic (bd_cu_q d)
       \<and> sum_list (bd_context_lens d) \<le> u32_max
       \<and> hd (bd_cu_k d) = 0 \<and> last (bd_cu_k d) = sum_list (bd_context_lens d) \<and> monotonic (bd_cu_k d)
       \<and> (\<forall>seq < n. bd_cu_k d ! (seq + 1) - bd_cu_k d ! seq = bd_context_lens d ! seq
            \<and> bd_cu_q d ! (seq + 1) - bd_cu_q d ! seq \<le> bd_max_q d
            \<and> bd_context_lens d ! seq \<le> bd_max_k d)
       \<and> 0 < stride \<and> stride * n = length (bd_block_tables d)
       \<and> (\<forall>seq < n. max (div_ceil (bd_context_lens d ! seq) pt) 1 \<le> stride
            \<and> (\<forall>k < max (div_ceil (bd_context_lens d ! seq) pt) 1.
                 bd_block_tables d ! (seq * stride + k) \<noteq> u32_max))
       \<and> u32_max \<notin> set (bd_slot_mapping d))"

lemma u32_le_u64: "n \<le> u32_max \<Longrightarrow> n \<le> u64_max"
  by (simp add: u32_max_def u64_max_def)

lemma validate_varlen_contract_Inr:
  "validate_varlen_contract d pt = Inr u \<longleftrightarrow> contract_holds d pt"
proof -
  have rows: "each (block_row_ok d pt s) [0..<n] = Inr u' \<longleftrightarrow>
      (\<forall>seq < n. max (div_ceil (bd_context_lens d ! seq) pt) 1 \<le> s
        \<and> (\<forall>k < max (div_ceil (bd_context_lens d ! seq) pt) 1.
             bd_block_tables d ! (seq * s + k) \<noteq> u32_max))" for s n u'
    by (simp add: block_row_ok_def Let_def res_bind_eq_Inr list_all_iff not_less atLeast0LessThan
        Ball_def lessThan_iff)
  have lens: "each (sequence_lengths_ok d) [0..<n] = Inr u' \<longleftrightarrow>
      (\<forall>seq < n. bd_cu_k d ! (seq + 1) - bd_cu_k d ! seq = bd_context_lens d ! seq
            \<and> bd_cu_q d ! (seq + 1) - bd_cu_q d ! seq \<le> bd_max_q d
            \<and> bd_context_lens d ! seq \<le> bd_max_k d)" for n u'
    by (simp add: sequence_lengths_ok_def Let_def res_bind_eq_Inr not_less atLeast0LessThan
        Ball_def lessThan_iff)
  show ?thesis
  proof
    assume "validate_varlen_contract d pt = Inr u"
    then show "contract_holds d pt"
      unfolding validate_varlen_contract_def contract_holds_def Let_def
      by (simp only: res_bind_eq_Inr ok_or_eq_Inr checked_add_Some checked_sum_Some guard_Inr rows lens
          validate_page_tokens_Inr validate_cumulative_offsets_Inr) (auto simp: not_less)
  next
    assume c: "contract_holds d pt"
    then have "checked_add (bd_num_prefill_tokens d) (bd_num_decode_tokens d)
          = Some (bd_num_prefill_tokens d + bd_num_decode_tokens d)"
      and "checked_sum 0 (bd_context_lens d) = Some (sum_list (bd_context_lens d))"
      unfolding contract_holds_def Let_def checked_add_Some checked_sum_Some
      by (auto intro: u32_le_u64)
    moreover have "bd_cu_q d \<noteq> []" "bd_cu_k d \<noteq> []"
      using c by (auto simp: contract_holds_def Let_def)
    ultimately show "validate_varlen_contract d pt = Inr u"
      using c
      unfolding validate_varlen_contract_def contract_holds_def Let_def
      by (simp only: res_bind_eq_Inr ok_or_eq_Inr guard_Inr rows lens
          validate_page_tokens_Inr validate_cumulative_offsets_Inr) (auto simp: not_less)
  qed
qed

end
