(* ===== verification/PrefillRun.thy ===== *)
theory PrefillRun
  imports PrefillBatch
begin

text \<open>
  The host state a prefill writes (\<^verbatim>\<open>CudaPrefillScratch\<close>), the proof object for
  identity metadata (\<^verbatim>\<open>cuda/types.rs\<close>), the chunk loop of
  \<^verbatim>\<open>prefill_prompt_chunked\<close> and the splice of image rows into the embedded chunk
  (\<^verbatim>\<open>executor/prefill/mod.rs\<close>). The CUDA work of a chunk is the parameter
  \<open>forward\<close>, the token-by-token path the parameter \<open>step\<close>.
\<close>

section \<open>Identity metadata\<close>

record metadata_proof =
  mp_start_position :: nat
  mp_batch :: nat
  mp_context_len :: nat

fun identity_loop ::
  "nat \<Rightarrow> nat list \<Rightarrow> nat list \<Rightarrow> nat option \<Rightarrow> nat list \<Rightarrow> unit aegis_result" where
  "identity_loop start positions slots previous [] = Inr ()"
| "identity_loop start positions slots previous (idx # rest) =
     res_bind (ok_or (InvalidPlan ''dense prefill metadata proof position overflow'')
                 (checked_add start idx))
       (\<lambda>expected.
         then_do (guard (\<not> (expected > u32_max \<or> positions ! idx \<noteq> expected \<or> slots ! idx \<noteq> expected))
                    ''dense prefill metadata proof found non-identity entry'')
         (then_do (guard (case previous of None \<Rightarrow> True | Some slot \<Rightarrow> \<not> slot \<ge> slots ! idx)
                     ''dense prefill metadata proof requires strictly increasing slots'')
           (identity_loop start positions slots (Some (slots ! idx)) rest)))"

definition new_identity ::
  "nat \<Rightarrow> nat \<Rightarrow> nat \<Rightarrow> nat list \<Rightarrow> nat list \<Rightarrow> nat list \<Rightarrow> nat list \<Rightarrow> metadata_proof aegis_result" where
  "new_identity start_position batch context_size positions slots cu_q context_lens =
     then_do (guard (batch \<noteq> 0) ''dense prefill metadata proof requires a non-empty batch'')
     (res_bind (ok_or (InvalidPlan ''dense prefill metadata proof overflows'')
                  (checked_add start_position batch))
       (\<lambda>expected_context_len.
         then_do (guard (\<not> (batch > u32_max \<or> expected_context_len > u32_max \<or> context_size > u32_max))
                    ''dense prefill metadata proof requires u32 metadata'')
         (then_do (guard (\<not> (length positions \<noteq> batch \<or> length slots \<noteq> batch
                            \<or> cu_q \<noteq> [0, as_u32 batch]
                            \<or> context_lens \<noteq> [as_u32 expected_context_len]))
                     ''dense prefill metadata proof requires identity metadata'')
          (then_do (identity_loop start_position positions slots None [0..<batch])
           (then_do (guard (\<not> expected_context_len > context_size)
                       ''dense prefill metadata proof exceeds context'')
             (Inr \<lparr>mp_start_position = start_position, mp_batch = batch,
                    mp_context_len = expected_context_len\<rparr>))))))"

section \<open>Host scratch\<close>

record host_scratch =
  hs_chunk_size :: nat
  hs_max_sequences :: nat
  hs_block_table_capacity :: nat
  hs_request_ids :: "nat list"
  hs_seq_ids :: "nat list"
  hs_tokens :: "nat list"
  hs_positions :: "nat list"
  hs_slot_mapping :: "nat list"
  hs_cu_q :: "nat list"
  hs_cu_k :: "nat list"
  hs_context_lens :: "nat list"
  hs_block_tables :: "nat list"

record prefill_batch =
  pb_start_position :: nat
  pb_num_sequences :: nat
  pb_num_prefill_tokens :: nat
  pb_num_decode_tokens :: nat
  pb_max_q :: nat
  pb_max_k :: nat
  pb_kind :: batch_kind
  pb_dense_metadata :: metadata_proof

definition validate_capacity :: "host_scratch \<Rightarrow> batch_descriptor \<Rightarrow> unit aegis_result" where
  "validate_capacity s host =
     (let total_query_tokens = bd_num_prefill_tokens host + bd_num_decode_tokens host
      in then_do (guard (\<not> (total_query_tokens = 0 \<or> total_query_tokens > hs_chunk_size s))
                    ''bad CUDA prefill batch size'')
           (guard (\<not> (length (bd_request_ids host) > hs_max_sequences s
                     \<or> length (bd_seq_ids host) > hs_max_sequences s
                     \<or> length (bd_cu_q host) > hs_max_sequences s + 1
                     \<or> length (bd_cu_k host) > hs_max_sequences s + 1
                     \<or> length (bd_context_lens host) > hs_max_sequences s
                     \<or> length (bd_block_tables host) > hs_block_table_capacity s))
              ''CUDA prefill metadata capacity exceeded''))"

definition copy_host_descriptor :: "host_scratch \<Rightarrow> batch_descriptor \<Rightarrow> host_scratch" where
  "copy_host_descriptor s host = s\<lparr>
     hs_request_ids := bd_request_ids host, hs_seq_ids := bd_seq_ids host,
     hs_tokens := bd_token_ids host, hs_positions := bd_positions host,
     hs_slot_mapping := bd_slot_mapping host, hs_cu_q := bd_cu_q host, hs_cu_k := bd_cu_k host,
     hs_context_lens := bd_context_lens host, hs_block_tables := bd_block_tables host\<rparr>"

definition prepare_dense_batch ::
  "host_scratch \<Rightarrow> nat list \<Rightarrow> nat \<Rightarrow> nat \<Rightarrow> nat \<Rightarrow> (host_scratch \<times> prefill_batch) aegis_result" where
  "prepare_dense_batch s tokens start_position context_size vocab_size =
     res_bind (dense_single_sequence tokens start_position context_size vocab_size)
       (\<lambda>host.
         then_do (validate_capacity s host)
         (let s = copy_host_descriptor s host
          in res_bind (new_identity start_position (bd_num_prefill_tokens host) context_size
                         (hs_positions s) (hs_slot_mapping s) (hs_cu_q s) (hs_context_lens s))
               (\<lambda>dense_metadata.
                 Inr (s, \<lparr>pb_start_position = start_position, pb_num_sequences = 1,
                          pb_num_prefill_tokens = bd_num_prefill_tokens host,
                          pb_num_decode_tokens = bd_num_decode_tokens host,
                          pb_max_q = bd_max_q host, pb_max_k = bd_max_k host,
                          pb_kind = bd_kind host, pb_dense_metadata = dense_metadata\<rparr>))))"

section \<open>The chunk loop\<close>

text \<open>\<^verbatim>\<open>slice.chunks(n)\<close>; it panics for \<open>n = 0\<close>, and the executor
  creates its scratch only for chunk sizes above 1.\<close>

function chunks_of :: "nat \<Rightarrow> 'a list \<Rightarrow> 'a list list" where
  "chunks_of n xs = (if xs = [] \<or> n = 0 then [] else take n xs # chunks_of n (drop n xs))"
  by pat_completeness auto
termination by (relation "measure (\<lambda>(n, xs). length xs)") auto

declare chunks_of.simps [simp del]

record prefill_state =
  st_position :: nat
  st_prefill :: "host_scratch option"

fun prefill_chunks ::
  "(prefill_batch \<Rightarrow> nat list \<Rightarrow> unit aegis_result) \<Rightarrow> nat \<Rightarrow> nat \<Rightarrow> prefill_state \<Rightarrow> nat list list
     \<Rightarrow> (prefill_state \<times> prefill_batch list) aegis_result" where
  "prefill_chunks forward context_size vocab_size st [] = Inr (st, [])"
| "prefill_chunks forward context_size vocab_size st (chunk # rest) =
     res_bind (ok_or (InvalidPlan ''CUDA prefill scratch is missing'') (st_prefill st))
       (\<lambda>prefill.
         res_bind (prepare_dense_batch prefill chunk (st_position st) context_size vocab_size)
           (\<lambda>(prefill, batch_meta).
             then_do (forward batch_meta chunk)
             (res_bind (prefill_chunks forward context_size vocab_size
                          (st\<lparr>st_position := st_position st + pb_num_prefill_tokens batch_meta,
                              st_prefill := Some prefill\<rparr>) rest)
               (\<lambda>(st, batches). Inr (st, batch_meta # batches)))))"

definition prefill_prompt_chunked ::
  "(prefill_batch \<Rightarrow> nat list \<Rightarrow> unit aegis_result) \<Rightarrow> nat \<Rightarrow> nat \<Rightarrow> prefill_state \<Rightarrow> nat list
     \<Rightarrow> (prefill_state \<times> prefill_batch list) aegis_result" where
  "prefill_prompt_chunked forward context_size vocab_size st prompt_tokens =
     prefill_chunks forward context_size vocab_size st
       (chunks_of (case st_prefill st of None \<Rightarrow> 1 | Some s \<Rightarrow> hs_chunk_size s) prompt_tokens)"

fun prefill_tokens ::
  "(prefill_state \<Rightarrow> nat \<Rightarrow> prefill_state aegis_result) \<Rightarrow> prefill_state \<Rightarrow> nat list
     \<Rightarrow> prefill_state aegis_result" where
  "prefill_tokens step st [] = Inr st"
| "prefill_tokens step st (t # ts) = res_bind (step st t) (\<lambda>st. prefill_tokens step st ts)"

definition prefill_prompt ::
  "(prefill_batch \<Rightarrow> nat list \<Rightarrow> unit aegis_result)
     \<Rightarrow> (prefill_state \<Rightarrow> nat \<Rightarrow> prefill_state aegis_result) \<Rightarrow> nat \<Rightarrow> nat \<Rightarrow> prefill_state \<Rightarrow> nat list
     \<Rightarrow> (prefill_state \<times> prefill_batch list) aegis_result" where
  "prefill_prompt forward step context_size vocab_size st prompt_tokens =
     (if prompt_tokens = [] then Inl (InvalidConfig ''prompt produced no tokens'')
      else res_bind (ok_or (InvalidPlan ''prefill position overflow'')
                       (checked_add (st_position st) (length prompt_tokens)))
        (\<lambda>end_position.
          then_do (guard (\<not> end_position > context_size) ''prefill would exhaust kv cache'')
          (if length prompt_tokens > 1 \<and> st_prefill st \<noteq> None
           then prefill_prompt_chunked forward context_size vocab_size st prompt_tokens
           else res_bind (prefill_tokens step st prompt_tokens) (\<lambda>st. Inr (st, [])))))"

section \<open>Splicing image rows into an embedded chunk\<close>

text \<open>
  A row stands for the \<^verbatim>\<open>hidden_size\<close> floats of one token. The row counter is local to
  the chunk, as in the source.
\<close>

fun splice_from :: "nat \<Rightarrow> 'row list \<Rightarrow> nat \<Rightarrow> nat \<Rightarrow> nat list \<Rightarrow> 'row list \<Rightarrow> 'row list" where
  "splice_from img_tok_id img_data n_img img_row_idx (tok # toks) (row # rows) =
     (if as_u32 tok = img_tok_id
      then img_data ! (img_row_idx mod n_img)
             # splice_from img_tok_id img_data n_img (img_row_idx + 1) toks rows
      else row # splice_from img_tok_id img_data n_img img_row_idx toks rows)"
| "splice_from img_tok_id img_data n_img img_row_idx toks rows = rows"

definition splice_chunk :: "nat \<Rightarrow> 'row list \<Rightarrow> nat \<Rightarrow> nat list \<Rightarrow> 'row list \<Rightarrow> 'row list" where
  "splice_chunk img_tok_id img_data n_img chunk hidden =
     (if n_img > 0 \<and> list_ex (\<lambda>t. as_u32 t = img_tok_id) chunk
      then splice_from img_tok_id img_data n_img 0 chunk hidden else hidden)"

definition splice_prompt :: "nat \<Rightarrow> nat \<Rightarrow> 'row list \<Rightarrow> nat \<Rightarrow> nat list \<Rightarrow> 'row list \<Rightarrow> 'row list" where
  "splice_prompt chunk_size img_tok_id img_data n_img prompt hidden =
     concat (map2 (splice_chunk img_tok_id img_data n_img)
               (chunks_of chunk_size prompt) (chunks_of chunk_size hidden))"

section \<open>Dense descriptors\<close>

definition dense_descriptor :: "nat list \<Rightarrow> nat \<Rightarrow> batch_descriptor" where
  "dense_descriptor tokens start =
     (let n = length tokens; e = start + n
      in \<lparr>bd_request_ids = [0], bd_seq_ids = [0], bd_token_ids = tokens,
          bd_positions = [start..<e], bd_slot_mapping = [start..<e],
          bd_cu_q = [0, n], bd_cu_k = [0, e], bd_context_lens = [e],
          bd_block_tables = [0..<max (div_ceil e prefill_kv_page_tokens) 1],
          bd_max_q = n, bd_max_k = e, bd_num_prefill_tokens = n, bd_num_decode_tokens = 0,
          bd_kind = (if start = 0 then FirstPrefill else ContinuationPrefill)\<rparr>)"

lemma map_add_upt: "map (\<lambda>i. f (s + i)) [0..<n] = map f [s..<s + n]"
  by (induction n) simp_all

lemma pages_le: "div_ceil e 256 \<le> e"
  by (simp add: div_ceil_def)

lemma dense_contract:
  assumes "tokens \<noteq> []" and "start + length tokens \<le> u32_max"
  shows "contract_holds (dense_descriptor tokens start) prefill_kv_page_tokens"
  using assms pages_le [of "start + length tokens"]
  by (auto simp: contract_holds_def dense_descriptor_def Let_def prefill_kv_page_tokens_def u32_max_def
      less_Suc_eq)

lemma map_as_u32: "(\<And>x. x \<in> set xs \<Longrightarrow> x \<le> u32_max) \<Longrightarrow> map as_u32 xs = xs"
  by (induction xs) (simp_all add: as_u32_small)

lemma dense_single_sequence_eq:
  assumes "tokens \<noteq> []" and "\<forall>t \<in> set tokens. t < vocab" and "vocab \<le> u32_max"
    and "start + length tokens \<le> ctx" and "ctx \<le> u32_max"
  shows "dense_single_sequence tokens start ctx vocab = Inr (dense_descriptor tokens start)"
proof -
  let ?n = "length tokens" and ?e = "start + length tokens"
  have e: "?e \<le> u32_max" "?n \<le> u32_max" using assms(4,5) by simp_all
  have ca: "checked_add start ?n = Some ?e"
    using e(1) u32_le_u64 by (simp add: checked_add_def)
  have v: "validate_prefill_tokens tokens vocab = Inr ()" using assms(1-3) by simp
  have toks: "map as_u32 tokens = tokens"
    by (rule map_as_u32) (use assms(2,3) in fastforce)
  have pos: "map (\<lambda>i. as_u32 (start + i)) [0..<?n] = [start..<?e]"
    unfolding map_add_upt [of as_u32] by (rule map_as_u32) (use e in simp)
  have pages: "map as_u32 [0..<max (div_ceil ?e prefill_kv_page_tokens) 1]
      = [0..<max (div_ceil ?e prefill_kv_page_tokens) 1]"
    by (rule map_as_u32)
      (use e pages_le [of ?e] in \<open>auto simp: prefill_kv_page_tokens_def u32_max_def\<close>)
  have c: "validate_varlen_contract (dense_descriptor tokens start) prefill_kv_page_tokens = Inr ()"
    using dense_contract [OF assms(1) e(1)] by (simp add: validate_varlen_contract_Inr)
  have g: "guard (\<not> ?e > ctx) m = Inr ()" "guard (\<not> (?e > u32_max \<or> ctx > u32_max)) m = Inr ()" for m
    using assms(4,5) e by simp_all
  have d: "\<lparr>bd_request_ids = [0], bd_seq_ids = [0], bd_token_ids = map as_u32 tokens,
        bd_positions = map (\<lambda>idx. as_u32 (start + idx)) [0..<?n],
        bd_slot_mapping = map (\<lambda>idx. as_u32 (start + idx)) [0..<?n],
        bd_cu_q = [0, as_u32 ?n], bd_cu_k = [0, as_u32 ?e], bd_context_lens = [as_u32 ?e],
        bd_block_tables = map as_u32 [0..<max (div_ceil ?e prefill_kv_page_tokens) 1],
        bd_max_q = ?n, bd_max_k = ?e, bd_num_prefill_tokens = ?n, bd_num_decode_tokens = 0,
        bd_kind = (if start = 0 then FirstPrefill else ContinuationPrefill)\<rparr>
      = dense_descriptor tokens start"
    unfolding toks pos pages by (simp add: dense_descriptor_def Let_def as_u32_small e)
  show ?thesis
    by (simp only: dense_single_sequence_def v ca ok_or_simps res_bind_Inr Let_def d g c)
qed

lemma identity_loop_accepts:
  assumes "\<forall>i \<in> set idxs. i < n" and "start + n \<le> u32_max" and "sorted_wrt (<) idxs"
    and "\<forall>p i. prev = Some p \<longrightarrow> i \<in> set idxs \<longrightarrow> p < start + i"
  shows "identity_loop start [start..<start + n] [start..<start + n] prev idxs = Inr ()"
  using assms
proof (induction idxs arbitrary: prev)
  case (Cons i idxs)
  then have i: "i < n" by simp
  then have "start + i \<le> u64_max" using Cons.prems(2) u32_le_u64 [of "start + i"] by simp
  then have ca: "checked_add start i = Some (start + i)" by (simp add: checked_add_def)
  have "identity_loop start [start..<start + n] [start..<start + n] (Some (start + i)) idxs = Inr ()"
    using Cons.prems by (intro Cons.IH) auto
  then show ?case
    using i Cons.prems(2,4) by (auto simp: ca not_le split: option.split)
qed simp

lemma new_identity_accepts:
  assumes "0 < n" and "start + n \<le> ctx" and "ctx \<le> u32_max"
  shows "new_identity start n ctx [start..<start + n] [start..<start + n] [0, n] [start + n]
         = Inr \<lparr>mp_start_position = start, mp_batch = n, mp_context_len = start + n\<rparr>"
proof -
  have e: "start + n \<le> u32_max" "n \<le> u32_max" using assms by simp_all
  have "checked_add start n = Some (start + n)"
    using u32_le_u64 [OF e(1)] by (simp add: checked_add_def)
  moreover have "identity_loop start [start..<start + n] [start..<start + n] None [0..<n] = Inr ()"
    using e(1) by (intro identity_loop_accepts) auto
  ultimately show ?thesis
    using assms e by (simp add: new_identity_def as_u32_small)
qed

definition dense_batch :: "nat list \<Rightarrow> nat \<Rightarrow> prefill_batch" where
  "dense_batch tokens start =
     \<lparr>pb_start_position = start, pb_num_sequences = 1, pb_num_prefill_tokens = length tokens,
      pb_num_decode_tokens = 0, pb_max_q = length tokens, pb_max_k = start + length tokens,
      pb_kind = (if start = 0 then FirstPrefill else ContinuationPrefill),
      pb_dense_metadata = \<lparr>mp_start_position = start, mp_batch = length tokens,
                           mp_context_len = start + length tokens\<rparr>\<rparr>"

text \<open>The scratch the executor allocates for its context size.\<close>

definition scratch_fits :: "host_scratch \<Rightarrow> nat \<Rightarrow> bool" where
  "scratch_fits s ctx \<longleftrightarrow> 0 < hs_chunk_size s \<and> 1 \<le> hs_max_sequences s
     \<and> max (div_ceil ctx prefill_kv_page_tokens) 1 \<le> hs_block_table_capacity s"

lemma div_ceil_mono: "a \<le> b \<Longrightarrow> div_ceil a k \<le> div_ceil b k"
  by (simp add: div_ceil_def div_le_mono)

lemma prepare_dense_batch_eq:
  assumes "tokens \<noteq> []" and "\<forall>t \<in> set tokens. t < vocab" and "vocab \<le> u32_max"
    and "start + length tokens \<le> ctx" and "ctx \<le> u32_max"
    and "scratch_fits s ctx" and "length tokens \<le> hs_chunk_size s"
  shows "prepare_dense_batch s tokens start ctx vocab
         = Inr (copy_host_descriptor s (dense_descriptor tokens start), dense_batch tokens start)"
proof -
  have "max (div_ceil (start + length tokens) prefill_kv_page_tokens) 1 \<le> hs_block_table_capacity s"
    using div_ceil_mono [OF assms(4), of prefill_kv_page_tokens] assms(6)
    by (simp add: scratch_fits_def)
  then have "validate_capacity s (dense_descriptor tokens start) = Inr ()"
    using assms(1,6,7)
    by (auto simp: validate_capacity_def dense_descriptor_def scratch_fits_def Let_def)
  then show ?thesis
    using assms(1) new_identity_accepts [of "length tokens" start ctx] assms(4,5)
    by (simp add: prepare_dense_batch_def dense_single_sequence_eq [OF assms(1-5)]
        copy_host_descriptor_def dense_descriptor_def dense_batch_def Let_def)
qed

lemma scratch_fits_copy [simp]: "scratch_fits (copy_host_descriptor s d) c = scratch_fits s c"
  and chunk_size_copy [simp]: "hs_chunk_size (copy_host_descriptor s d) = hs_chunk_size s"
  by (simp_all add: scratch_fits_def copy_host_descriptor_def)

section \<open>The chunk loop\<close>

lemma chunks_of_Nil [simp]: "chunks_of n [] = []"
  by (simp add: chunks_of.simps)

lemma chunks_of_step: "xs \<noteq> [] \<Longrightarrow> 0 < n \<Longrightarrow> chunks_of n xs = take n xs # chunks_of n (drop n xs)"
  by (simp add: chunks_of.simps [of n xs])

lemma concat_chunks: "0 < n \<Longrightarrow> concat (chunks_of n xs) = xs"
proof (induction n xs rule: chunks_of.induct)
  case (1 n xs)
  then show ?case by (cases "xs = []") (simp_all add: chunks_of_step)
qed

lemma chunks_sizes: "c \<in> set (chunks_of n xs) \<Longrightarrow> c \<noteq> [] \<and> length c \<le> n \<and> set c \<subseteq> set xs"
proof (induction n xs rule: chunks_of.induct)
  case (1 n xs)
  then show ?case
    by (subst (asm) (2) chunks_of.simps) (auto split: if_splits dest: in_set_takeD in_set_dropD)
qed

fun batches_from :: "nat \<Rightarrow> nat list list \<Rightarrow> prefill_batch list" where
  "batches_from pos [] = []"
| "batches_from pos (c # cs) = dense_batch c pos # batches_from (pos + length c) cs"

lemma prefill_chunks_run:
  assumes "\<forall>c \<in> set cs. c \<noteq> [] \<and> length c \<le> hs_chunk_size s \<and> (\<forall>t \<in> set c. t < vocab)"
    and "vocab \<le> u32_max" and "st_position st + length (concat cs) \<le> ctx" and "ctx \<le> u32_max"
    and "st_prefill st = Some s" and "scratch_fits s ctx"
  shows "(\<exists>b c e. forward b c = Inl e \<and> prefill_chunks forward ctx vocab st cs = Inl e)
     \<or> (\<exists>s'. prefill_chunks forward ctx vocab st cs
            = Inr (\<lparr>st_position = st_position st + length (concat cs), st_prefill = Some s'\<rparr>,
                   batches_from (st_position st) cs))"
  using assms
proof (induction cs arbitrary: st s)
  case Nil
  then show ?case by (cases st) simp
next
  case (Cons c cs)
  have p: "prepare_dense_batch s c (st_position st) ctx vocab
      = Inr (copy_host_descriptor s (dense_descriptor c (st_position st)), dense_batch c (st_position st))"
    using Cons.prems by (intro prepare_dense_batch_eq) auto
  let ?st = "st\<lparr>st_position := st_position st + length c,
     st_prefill := Some (copy_host_descriptor s (dense_descriptor c (st_position st)))\<rparr>"
  show ?case
  proof (cases "forward (dense_batch c (st_position st)) c")
    case (Inl e)
    then show ?thesis
      using p Cons.prems(5) by (intro disjI1 exI [of _ "dense_batch c (st_position st)"] exI [of _ c]
          exI [of _ e]) simp
  next
    case (Inr u)
    have run: "prefill_chunks forward ctx vocab st (c # cs)
        = res_bind (prefill_chunks forward ctx vocab ?st cs)
            (\<lambda>(st', bs). Inr (st', dense_batch c (st_position st) # bs))"
      using p Cons.prems(5) Inr by (simp add: dense_batch_def)
    have "(\<exists>b c e. forward b c = Inl e \<and> prefill_chunks forward ctx vocab ?st cs = Inl e)
      \<or> (\<exists>s'. prefill_chunks forward ctx vocab ?st cs
            = Inr (\<lparr>st_position = st_position ?st + length (concat cs), st_prefill = Some s'\<rparr>,
                   batches_from (st_position ?st) cs))"
      using Cons.prems
      by (intro Cons.IH [of "copy_host_descriptor s (dense_descriptor c (st_position st))"]) auto
    then show ?thesis unfolding run by (auto simp: add.assoc)
  qed
qed

text \<open>A chunk that the descriptor builder refuses ends the loop with its error.\<close>

definition chunk_refused :: "nat list \<Rightarrow> nat \<Rightarrow> nat \<Rightarrow> bool" where
  "chunk_refused tokens ctx vocab \<longleftrightarrow> list_ex (\<lambda>t. vocab \<le> t) tokens \<or> u32_max < vocab \<or> u32_max < ctx"

lemma prepare_dense_batch_refuses:
  assumes "tokens \<noteq> []" and "chunk_refused tokens ctx vocab"
  shows "\<exists>m. prepare_dense_batch s tokens start ctx vocab = Inl (InvalidPlan m)"
proof -
  have "\<exists>m. dense_single_sequence tokens start ctx vocab = Inl (InvalidPlan m)"
  proof (cases "list_ex (\<lambda>t. vocab \<le> t) tokens \<or> u32_max < vocab")
    case True
    then have "\<not> list_all (\<lambda>token. \<not> (token \<ge> vocab \<or> token > u32_max)) tokens \<or> \<not> vocab \<le> u32_max"
      by (auto simp: list_all_iff list_ex_iff)
    then show ?thesis using assms(1)
      by (auto simp: dense_single_sequence_def validate_prefill_tokens_def guard_def)
  next
    case False
    then have v: "validate_prefill_tokens tokens vocab = Inr ()"
      using assms(1) by (auto simp: list_ex_iff not_le)
    have "u32_max < ctx" using assms(2) False by (simp add: chunk_refused_def)
    then show ?thesis
      by (cases "checked_add start (length tokens)")
        (auto simp: dense_single_sequence_def v guard_def)
  qed
  then show ?thesis by (auto simp: prepare_dense_batch_def)
qed

lemma prefill_chunks_refuses:
  assumes "\<forall>c \<in> set cs. c \<noteq> [] \<and> length c \<le> hs_chunk_size s"
    and "\<exists>c \<in> set cs. chunk_refused c ctx vocab"
    and "st_position st + length (concat cs) \<le> ctx"
    and "st_prefill st = Some s" and "scratch_fits s ctx"
  shows "(\<exists>b c e. forward b c = Inl e \<and> prefill_chunks forward ctx vocab st cs = Inl e)
     \<or> (\<exists>m. prefill_chunks forward ctx vocab st cs = Inl (InvalidPlan m))"
  using assms
proof (induction cs arbitrary: st s)
  case (Cons c cs)
  show ?case
  proof (cases "chunk_refused c ctx vocab")
    case True
    moreover have "c \<noteq> []" using Cons.prems(1) by simp
    ultimately obtain m where "prepare_dense_batch s c (st_position st) ctx vocab = Inl (InvalidPlan m)"
      using prepare_dense_batch_refuses by blast
    then show ?thesis using Cons.prems(4) by simp
  next
    case False
    then have ok: "\<forall>t \<in> set c. t < vocab" "vocab \<le> u32_max" "ctx \<le> u32_max"
      by (auto simp: chunk_refused_def list_ex_iff not_le)
    have p: "prepare_dense_batch s c (st_position st) ctx vocab
        = Inr (copy_host_descriptor s (dense_descriptor c (st_position st)), dense_batch c (st_position st))"
      using Cons.prems ok by (intro prepare_dense_batch_eq) auto
    let ?st = "st\<lparr>st_position := st_position st + length c,
       st_prefill := Some (copy_host_descriptor s (dense_descriptor c (st_position st)))\<rparr>"
    show ?thesis
    proof (cases "forward (dense_batch c (st_position st)) c")
      case (Inl e)
      then show ?thesis
        using p Cons.prems(4) by (intro disjI1 exI [of _ "dense_batch c (st_position st)"] exI [of _ c]
            exI [of _ e]) simp
    next
      case (Inr u)
      have run: "prefill_chunks forward ctx vocab st (c # cs)
          = res_bind (prefill_chunks forward ctx vocab ?st cs)
              (\<lambda>(st', bs). Inr (st', dense_batch c (st_position st) # bs))"
        using p Cons.prems(4) Inr by (simp add: dense_batch_def)
      have "(\<exists>b c e. forward b c = Inl e \<and> prefill_chunks forward ctx vocab ?st cs = Inl e)
        \<or> (\<exists>m. prefill_chunks forward ctx vocab ?st cs = Inl (InvalidPlan m))"
        using Cons.prems False
        by (intro Cons.IH [of "copy_host_descriptor s (dense_descriptor c (st_position st))"]) auto
      then show ?thesis unfolding run by auto
    qed
  qed
qed simp

lemma batches_sizes:
  "b \<in> set (batches_from pos cs) \<Longrightarrow> \<exists>c \<in> set cs. pb_num_prefill_tokens b = length c"
  by (induction cs arbitrary: pos) (auto simp: dense_batch_def)

lemma batches_tile:
  "concat (map (\<lambda>b. [pb_start_position b..<pb_start_position b + pb_num_prefill_tokens b])
     (batches_from pos cs)) = [pos..<pos + length (concat cs)]"
proof (induction cs arbitrary: pos)
  case (Cons c cs)
  have "[pos..<pos + length c] @ [pos + length c..<pos + length c + length (concat cs)]
      = [pos..<pos + length c + length (concat cs)]"
    by (rule upt_join) simp_all
  then show ?case using Cons [of "pos + length c"] by (simp add: dense_batch_def add.assoc)
qed simp

section \<open>Properties of the dense path\<close>


text \<open>
  The check of \<^verbatim>\<open>prefill_prompt\<close> refuses empty prompts and prompts that do not fit
  the context, before any state changes.
\<close>

theorem prefill_prompt_refuses:
  "prefill_prompt forward step ctx vocab st [] = Inl (InvalidConfig ''prompt produced no tokens'')
   \<and> (prompt \<noteq> [] \<and> ctx < st_position st + length prompt
      \<longrightarrow> (\<exists>m. prefill_prompt forward step ctx vocab st prompt = Inl (InvalidPlan m)))"
  by (auto simp: prefill_prompt_def checked_add_def guard_def)

theorem prefill_prompt_refuses_witness:
  "\<exists>m. prefill_prompt (\<lambda>_ _. Inr ()) (\<lambda>st _. Inr st) 4 10
         \<lparr>st_position = 3, st_prefill = None\<rparr> [1, 2] = Inl (InvalidPlan m)"
  using prefill_prompt_refuses [of "\<lambda>_ _. Inr ()" "\<lambda>st _. Inr st" 4 10
      "\<lparr>st_position = 3, st_prefill = None\<rparr>" "[1, 2]"]
  by simp

definition small_scratch :: host_scratch where
  "small_scratch = \<lparr>hs_chunk_size = 2, hs_max_sequences = 1, hs_block_table_capacity = 1,
     hs_request_ids = [], hs_seq_ids = [], hs_tokens = [], hs_positions = [], hs_slot_mapping = [],
     hs_cu_q = [], hs_cu_k = [], hs_context_lens = [], hs_block_tables = []\<rparr>"


section \<open>Image rows\<close>

text \<open>Position of the image tokens: the k-th one of a chunk gets row \<open>k mod n\<close>.\<close>

definition image_tokens_before :: "nat \<Rightarrow> nat list \<Rightarrow> nat \<Rightarrow> nat" where
  "image_tokens_before tok toks i = length (filter (\<lambda>t. as_u32 t = tok) (take i toks))"

lemma splice_from_nth:
  "length rows = length toks \<Longrightarrow> i < length toks \<Longrightarrow>
     splice_from tok img n k toks rows ! i =
       (if as_u32 (toks ! i) = tok then img ! ((k + image_tokens_before tok toks i) mod n)
        else rows ! i)"
proof (induction tok img n k toks rows arbitrary: i rule: splice_from.induct)
  case (1 tok img n k t ts r rs)
  then show ?case
    by (cases i) (auto simp: image_tokens_before_def)
qed auto

lemma splice_from_length: "length (splice_from tok img n k toks rows) = length rows"
  by (induction tok img n k toks rows rule: splice_from.induct) auto

text \<open>
  Within one chunk the image tokens take the image rows in order, wrapping around, and every
  other row is left alone.
\<close>

theorem splice_chunk_rows:
  assumes "length rows = length chunk" and "i < length chunk" and "0 < n"
  shows "splice_chunk tok img n chunk rows ! i =
           (if as_u32 (chunk ! i) = tok then img ! (image_tokens_before tok chunk i mod n)
            else rows ! i)
         \<and> length (splice_chunk tok img n chunk rows) = length rows"
proof (cases "list_ex (\<lambda>t. as_u32 t = tok) chunk")
  case True
  then show ?thesis
    using assms splice_from_nth [OF assms(1,2), of tok img n 0]
    by (simp add: splice_chunk_def splice_from_length)
next
  case False
  then have "as_u32 (chunk ! i) \<noteq> tok" using assms(2) by (simp add: list_ex_iff)
  with False show ?thesis by (simp add: splice_chunk_def)
qed

theorem splice_chunk_rows_witness:
  "splice_chunk 7 [''r0'', ''r1''] 2 [7, 1, 7] [''a'', ''b'', ''c''] ! 2 = ''r1''"
  using splice_chunk_rows [of "[''a'', ''b'', ''c'']" "[7, 1, 7]" 2 2 7 "[''r0'', ''r1'']"]
  by (simp add: as_u32_def image_tokens_before_def)

text \<open>
  The row counter starts again in every chunk: when an image straddles a chunk boundary the
  tokens behind it get the first rows again instead of the following ones.
\<close>

theorem splice_restarts_per_chunk:
  "splice_prompt 4 7 [''r0'', ''r1''] 2 [1, 7, 7, 2] [''a'', ''b'', ''c'', ''d'']
     = [''a'', ''r0'', ''r1'', ''d'']
   \<and> splice_prompt 2 7 [''r0'', ''r1''] 2 [1, 7, 7, 2] [''a'', ''b'', ''c'', ''d'']
     = [''a'', ''r0'', ''r0'', ''d'']"
  by (simp add: splice_prompt_def splice_chunk_def chunks_of.simps as_u32_def)

end
