(* ===== verification/PrefillPaged.thy ===== *)
theory PrefillPaged
  imports PrefillBatch
begin

text \<open>
  What the paged builders put into a descriptor and what an accepted descriptor guarantees to the
  kernels that index with it.
\<close>

section \<open>What the contract gives the kernels\<close>

lemma offsets_cover:
  assumes "monotonic xs" and "xs \<noteq> []" and "hd xs = 0" and "last xs = n" and "r < n"
  shows "\<exists>!k. Suc k < length xs \<and> xs ! k \<le> r \<and> r < xs ! Suc k"
proof (rule ex_ex1I)
  let ?k = "LEAST k. r < xs ! Suc k"
  have "length xs \<noteq> 1" "length xs \<noteq> 0"
    using assms(2-5) by (auto simp: length_Suc_conv)
  then have two: "2 \<le> length xs" by linarith
  then have "Suc (length xs - 2) = length xs - 1" by linarith
  with two assms(2,4,5) have l: "r < xs ! Suc (length xs - 2)" "2 \<le> length xs"
    by (simp_all add: last_conv_nth)
  have less: "r < xs ! Suc ?k" by (rule LeastI [of "\<lambda>k. r < xs ! Suc k", OF l(1)])
  have "?k \<le> length xs - 2" by (rule Least_le [of "\<lambda>k. r < xs ! Suc k", OF l(1)])
  then have k: "Suc ?k < length xs" using l(2) by simp
  have "xs ! ?k \<le> r"
  proof (cases ?k)
    case 0
    then show ?thesis using assms(2,3) by (simp add: hd_conv_nth)
  next
    case (Suc j)
    then have "\<not> r < xs ! Suc j" using not_less_Least [of j "\<lambda>k. r < xs ! Suc k"] by simp
    with Suc show ?thesis by simp
  qed
  with less k show "\<exists>k. Suc k < length xs \<and> xs ! k \<le> r \<and> r < xs ! Suc k" by blast
next
  fix i j
  assume i: "Suc i < length xs \<and> xs ! i \<le> r \<and> r < xs ! Suc i"
    and j: "Suc j < length xs \<and> xs ! j \<le> r \<and> r < xs ! Suc j"
  show "i = j"
  proof (rule ccontr)
    assume "i \<noteq> j"
    then consider "Suc i \<le> j" | "Suc j \<le> i" by linarith
    then show False
    proof cases
      case 1
      with monotonic_mono [OF assms(1), of j "Suc i"] i j show False by simp
    next
      case 2
      with monotonic_mono [OF assms(1), of i "Suc j"] i j show False by simp
    qed
  qed
qed

text \<open>
  The row arrays and offsets of an accepted descriptor fit together: every query row belongs to
  exactly one sequence by \<^verbatim>\<open>cu_q\<close>, has a token, a position and a mapped slot, and the
  sequence has at most \<^verbatim>\<open>max_q\<close> rows.
\<close>

theorem accepted_rows_partitioned:
  assumes "validate_varlen_contract d pt = Inr ()" and "r < length (bd_token_ids d)"
  shows "(\<exists>!seq. seq < length (bd_request_ids d) \<and> bd_cu_q d ! seq \<le> r \<and> r < bd_cu_q d ! (seq + 1))
     \<and> r < length (bd_positions d) \<and> r < length (bd_slot_mapping d)
     \<and> bd_slot_mapping d ! r \<noteq> u32_max
     \<and> (\<forall>seq < length (bd_request_ids d). bd_cu_q d ! (seq + 1) - bd_cu_q d ! seq \<le> bd_max_q d)"
proof -
  have c: "contract_holds d pt" using assms(1) validate_varlen_contract_Inr by blast
  then have "length (bd_cu_q d) = length (bd_request_ids d) + 1" "bd_cu_q d \<noteq> []"
    by (auto simp: contract_holds_def Let_def)
  with offsets_cover [of "bd_cu_q d" "length (bd_token_ids d)" r] c assms(2)
  have "\<exists>!seq. seq < length (bd_request_ids d) \<and> bd_cu_q d ! seq \<le> r \<and> r < bd_cu_q d ! (seq + 1)"
    by (simp add: contract_holds_def Let_def)
  moreover have r: "r < length (bd_slot_mapping d)"
    using c assms(2) by (simp add: contract_holds_def Let_def)
  moreover have "bd_slot_mapping d ! r \<noteq> u32_max"
    using c nth_mem [OF r] by (auto simp: contract_holds_def Let_def)
  ultimately show ?thesis
    using c assms(2) by (simp add: contract_holds_def Let_def)
qed

text \<open>
  In an accepted descriptor the page of every context position can be looked up: the index into
  the block tables is in range and the entry is a page, not the sentinel.
\<close>

theorem accepted_pages_present:
  assumes "validate_varlen_contract d pt = Inr ()"
    and "seq < length (bd_request_ids d)" and "p < bd_context_lens d ! seq"
  shows "let stride = length (bd_block_tables d) div length (bd_request_ids d)
         in p div pt < stride \<and> seq * stride + p div pt < length (bd_block_tables d)
            \<and> bd_block_tables d ! (seq * stride + p div pt) \<noteq> u32_max"
proof -
  let ?n = "length (bd_request_ids d)" and ?s = "length (bd_block_tables d) div length (bd_request_ids d)"
  have c: "contract_holds d pt" using assms(1) validate_varlen_contract_Inr by blast
  then have pt: "0 < pt" and req: "max (div_ceil (bd_context_lens d ! seq) pt) 1 \<le> ?s"
    and pages: "\<forall>k < max (div_ceil (bd_context_lens d ! seq) pt) 1.
        bd_block_tables d ! (seq * ?s + k) \<noteq> u32_max"
    and shape: "?s * ?n = length (bd_block_tables d)"
    using assms(2) by (auto simp: contract_holds_def Let_def)
  have k: "p div pt < div_ceil (bd_context_lens d ! seq) pt" by (rule div_less_ceil [OF pt assms(3)])
  then have "p div pt < ?s" using req by simp
  moreover have "seq * ?s + ?s \<le> ?n * ?s"
    using assms(2) by (metis Suc_leI add.commute mult_Suc mult_le_mono1)
  ultimately show ?thesis
    using k pages shape by (simp add: Let_def mult.commute)
qed

section \<open>What the builders push\<close>

fun running :: "nat \<Rightarrow> nat list \<Rightarrow> nat list" where
  "running acc [] = []"
| "running acc (x # xs) = (acc + x) # running (acc + x) xs"

lemma running_append: "running acc (xs @ ys) = running acc xs @ running (acc + sum_list xs) ys"
  by (induction xs arbitrary: acc) (simp_all add: add.assoc)

lemma last_running: "last (acc # running acc xs) = acc + sum_list xs"
  by (induction xs arbitrary: acc) (auto simp: add.assoc)

definition seq_positions :: "prefill_sequence \<Rightarrow> nat list" where
  "seq_positions s = map (\<lambda>i. wrapping_add (ps_start_position s) i) [0..<length (ps_token_ids s)]"

definition seq_mapper :: "nat \<Rightarrow> prefill_sequence \<Rightarrow> slot_mapper" where
  "seq_mapper pt s = \<lparr>sm_page_tokens = pt,
     sm_pages = \<lparr>kp_sequence = ps_seq_id s, kp_logical_pages = ps_block_table s\<rparr>\<rparr>"

lemma slot_from_table_mapper:
  "physical_slot_from_table (ps_block_table s) pt p = Inr x
     \<longleftrightarrow> physical_slot (seq_mapper pt s) p = Some x"
  by (auto simp: physical_slot_from_table_def physical_slot_def seq_mapper_def Let_def ok_or_eq_Inr)

lemma push_tokens_Inr:
  assumes "push_tokens (ps_block_table s) pt (ps_start_position s) i toks out = Inr out'"
  shows "\<exists>slots. map Some slots = map (\<lambda>k. physical_slot (seq_mapper pt s)
             (wrapping_add (ps_start_position s) k)) [i..<i + length toks]
     \<and> out' = out\<lparr>bd_token_ids := bd_token_ids out @ toks,
            bd_positions := bd_positions out
              @ map (\<lambda>k. as_u32 (wrapping_add (ps_start_position s) k)) [i..<i + length toks],
            bd_slot_mapping := bd_slot_mapping out @ slots\<rparr>"
  using assms
proof (induction toks arbitrary: i out)
  case (Cons t ts)
  let ?p = "wrapping_add (ps_start_position s) i"
  from Cons.prems obtain x where x: "physical_slot (seq_mapper pt s) ?p = Some x"
    and r: "push_tokens (ps_block_table s) pt (ps_start_position s) (i + 1) ts
       (out\<lparr>bd_token_ids := bd_token_ids out @ [t], bd_positions := bd_positions out @ [as_u32 ?p],
            bd_slot_mapping := bd_slot_mapping out @ [x]\<rparr>) = Inr out'"
    by (auto simp: Let_def res_bind_eq_Inr slot_from_table_mapper)
  have u: "[i..<i + length (t # ts)] = i # [i + 1..<i + 1 + length ts]"
    using upt_conv_Cons [of i "i + length (t # ts)"] by simp
  from Cons.IH [OF r] obtain slots where
    "map Some slots = map (\<lambda>k. physical_slot (seq_mapper pt s)
             (wrapping_add (ps_start_position s) k)) [i + 1..<i + 1 + length ts]"
    "out' = out\<lparr>bd_token_ids := (bd_token_ids out @ [t]) @ ts,
            bd_positions := (bd_positions out @ [as_u32 ?p])
              @ map (\<lambda>k. as_u32 (wrapping_add (ps_start_position s) k)) [i + 1..<i + 1 + length ts],
            bd_slot_mapping := (bd_slot_mapping out @ [x]) @ slots\<rparr>" by auto
  with x show ?case unfolding u by (intro exI [of _ "x # slots"]) simp
qed simp

text \<open>The part of a descriptor a list of prefill sequences adds, as a relation on descriptors.\<close>

definition added ::
  "nat \<Rightarrow> nat \<Rightarrow> prefill_sequence list \<Rightarrow> batch_descriptor \<Rightarrow> batch_descriptor \<Rightarrow> bool" where
  "added pt mb ss out out' \<longleftrightarrow>
     bd_request_ids out' = bd_request_ids out @ map ps_request_id ss
     \<and> bd_seq_ids out' = bd_seq_ids out @ map ps_seq_id ss
     \<and> bd_token_ids out' = bd_token_ids out @ concat (map ps_token_ids ss)
     \<and> bd_positions out' = bd_positions out @ map as_u32 (concat (map seq_positions ss))
     \<and> (\<exists>slots. bd_slot_mapping out' = bd_slot_mapping out @ slots
          \<and> map Some slots = concat (map (\<lambda>s. map (physical_slot (seq_mapper pt s)) (seq_positions s)) ss))
     \<and> bd_context_lens out' = bd_context_lens out @ map ps_context_len ss
     \<and> bd_cu_q out' = bd_cu_q out @ running (last_or_zero (bd_cu_q out))
          (map (as_u32 \<circ> length \<circ> ps_token_ids) ss)
     \<and> bd_cu_k out' = bd_cu_k out @ running (last_or_zero (bd_cu_k out)) (map ps_context_len ss)
     \<and> bd_block_tables out' = bd_block_tables out
          @ concat (map (\<lambda>s. padded_block_table (ps_block_table s) mb) ss)
     \<and> bd_num_decode_tokens out' = bd_num_decode_tokens out \<and> bd_kind out' = bd_kind out"

lemma last_or_zero_snoc [simp]: "last_or_zero (xs @ [x]) = x"
  by (simp add: last_or_zero_def)

lemma push_prefill_sequence_added:
  assumes "push_prefill_sequence out s pt mb = Inr out'"
  shows "added pt mb [s] out out'"
proof -
  let ?out = "out\<lparr>bd_request_ids := bd_request_ids out @ [ps_request_id s],
                    bd_seq_ids := bd_seq_ids out @ [ps_seq_id s],
                    bd_context_lens := bd_context_lens out @ [as_u32 (ps_context_len s)],
                    bd_max_q := max (bd_max_q out) (length (ps_token_ids s)),
                    bd_max_k := max (bd_max_k out) (ps_context_len s)\<rparr>"
  from assms obtain o1 where o1: "push_tokens (ps_block_table s) pt (ps_start_position s) 0
        (ps_token_ids s) ?out = Inr o1"
    and c: "ps_context_len s \<le> u32_max"
    and o': "out' = o1\<lparr>bd_cu_q := bd_cu_q o1 @ [last_or_zero (bd_cu_q o1) + as_u32 (length (ps_token_ids s))],
        bd_cu_k := bd_cu_k o1 @ [last_or_zero (bd_cu_k o1) + ps_context_len s],
        bd_block_tables := bd_block_tables o1 @ padded_block_table (ps_block_table s) mb\<rparr>"
    by (auto simp: push_prefill_sequence_def push_cu_k_def Let_def res_bind_eq_Inr ok_or_eq_Inr
        checked_u32_Some)
  from push_tokens_Inr [OF o1] obtain slots where s:
    "map Some slots = map (\<lambda>k. physical_slot (seq_mapper pt s)
             (wrapping_add (ps_start_position s) k)) [0..<length (ps_token_ids s)]"
    "o1 = ?out\<lparr>bd_token_ids := bd_token_ids out @ ps_token_ids s,
            bd_positions := bd_positions out
              @ map (\<lambda>k. as_u32 (wrapping_add (ps_start_position s) k)) [0..<length (ps_token_ids s)],
            bd_slot_mapping := bd_slot_mapping out @ slots\<rparr>" by auto
  show ?thesis
    using c s(1) unfolding o' s(2) added_def
    by (auto simp: seq_positions_def as_u32_small o_def)
qed

lemma last_or_zero_running:
  "last_or_zero (xs @ running (last_or_zero xs) ys) = last_or_zero xs + sum_list ys"
  using last_running [of "last_or_zero xs" ys]
  by (cases ys) (auto simp: last_or_zero_def)

lemma added_trans:
  assumes "added pt mb ss out out'" and "added pt mb ts out' out''"
  shows "added pt mb (ss @ ts) out out''"
proof -
  from assms(1) obtain sl where sl: "bd_slot_mapping out' = bd_slot_mapping out @ sl"
    "map Some sl = concat (map (\<lambda>s. map (physical_slot (seq_mapper pt s)) (seq_positions s)) ss)"
    unfolding added_def by blast
  from assms(2) obtain tl where tl: "bd_slot_mapping out'' = bd_slot_mapping out' @ tl"
    "map Some tl = concat (map (\<lambda>s. map (physical_slot (seq_mapper pt s)) (seq_positions s)) ts)"
    unfolding added_def by blast
  show ?thesis
    using assms sl tl unfolding added_def
    by (auto simp: running_append last_or_zero_running intro!: exI [of _ "sl @ tl"])
qed

lemma push_prefills_added:
  "push_prefills pt vocab mb ss out = Inr out' \<Longrightarrow>
     added pt mb ss out out' \<and> (\<forall>s \<in> set ss. ps_token_ids s \<noteq> [] \<and> (\<forall>t \<in> set (ps_token_ids s). t < vocab))"
proof (induction ss arbitrary: out)
  case Nil
  then show ?case by (simp add: added_def)
next
  case (Cons s ss)
  from Cons.prems obtain o1 where o1: "push_prefill_sequence out s pt mb = Inr o1"
    "push_prefills pt vocab mb ss o1 = Inr out'"
    and v: "ps_token_ids s \<noteq> [] \<and> (\<forall>t \<in> set (ps_token_ids s). t < vocab)"
    by (auto simp: res_bind_eq_Inr)
  from added_trans [OF push_prefill_sequence_added [OF o1(1)]] Cons.IH [OF o1(2)] v
  show ?case by fastforce
qed

lemma sum_lengths: "sum_list (map (length \<circ> f) ss) = length (concat (map f ss))"
  by (induction ss) simp_all

lemma as_u32_lengths:
  assumes "length (concat (map ps_token_ids ss)) \<le> u32_max"
  shows "map (as_u32 \<circ> length \<circ> ps_token_ids) ss = map (length \<circ> ps_token_ids) ss"
  using assms by (induction ss) (simp_all add: as_u32_small)

text \<open>
  C20: a paged batch holds its sequences one after the other: the token rows are the tokens in
  order, the offsets are the running sums of the query and context lengths, every token's slot is
  the one the slot mapper gives its position in the sequence's block table, and each block table
  row is the sequence's table padded to the longest one.
\<close>

theorem paged_batch_contents:
  assumes "paged_multi_sequence ss pt vocab = Inr d"
  shows "bd_request_ids d = map ps_request_id ss \<and> bd_seq_ids d = map ps_seq_id ss
     \<and> bd_token_ids d = concat (map ps_token_ids ss)
     \<and> bd_positions d = map as_u32 (concat (map seq_positions ss))
     \<and> map Some (bd_slot_mapping d)
         = concat (map (\<lambda>s. map (physical_slot (seq_mapper pt s)) (seq_positions s)) ss)
     \<and> bd_context_lens d = map ps_context_len ss
     \<and> bd_cu_q d = 0 # running 0 (map (length \<circ> ps_token_ids) ss)
     \<and> bd_cu_k d = 0 # running 0 (map ps_context_len ss)
     \<and> bd_block_tables d = concat (map (\<lambda>s. padded_block_table (ps_block_table s)
           (max (max_or_zero (map (length \<circ> ps_block_table) ss)) 1)) ss)
     \<and> bd_num_prefill_tokens d = length (concat (map ps_token_ids ss)) \<and> bd_num_decode_tokens d = 0
     \<and> contract_holds d pt"
proof -
  let ?mb = "max (max_or_zero (map (length \<circ> ps_block_table) ss)) 1"
    and ?out = "(bd_empty FirstPrefill)\<lparr>bd_cu_q := [0], bd_cu_k := [0]\<rparr>"
  from assms obtain o1 k where o1: "push_prefills pt vocab ?mb ss ?out = Inr o1"
    and d: "d = o1\<lparr>bd_num_prefill_tokens := length (bd_token_ids o1), bd_kind := k\<rparr>"
    and c: "validate_varlen_contract d pt = Inr ()"
    by (auto simp: paged_multi_sequence_def Let_def res_bind_eq_Inr)
  note a = push_prefills_added [OF o1]
  have ch: "contract_holds d pt" using c validate_varlen_contract_Inr by blast
  have "length (concat (map ps_token_ids ss)) \<le> u32_max"
    using ch a by (simp add: d contract_holds_def Let_def added_def bd_empty_def)
  from arg_cong [OF as_u32_lengths [OF this], of "running 0"] show ?thesis
    using a ch unfolding d added_def by (auto simp: bd_empty_def last_or_zero_def simp del: map_eq_conv)
qed

section \<open>Mixed batches\<close>

lemma push_tokens_kind:
  "push_tokens tb pt st i toks (out\<lparr>bd_kind := k\<rparr>)
     = map_sum id (\<lambda>d. d\<lparr>bd_kind := k\<rparr>) (push_tokens tb pt st i toks out)"
proof (induction tb pt st i toks out rule: push_tokens.induct)
  case (2 tb pt st i t ts out)
  show ?case
  proof (cases "physical_slot_from_table tb pt (wrapping_add st i)")
    case (Inr x)
    have "push_tokens tb pt st i (t # ts) (out\<lparr>bd_kind := k\<rparr>)
       = push_tokens tb pt st (i + 1) ts
           ((out\<lparr>bd_token_ids := bd_token_ids out @ [t],
                 bd_positions := bd_positions out @ [as_u32 (wrapping_add st i)],
                 bd_slot_mapping := bd_slot_mapping out @ [x]\<rparr>)\<lparr>bd_kind := k\<rparr>)"
      using Inr by (cases out) simp
    then show ?thesis using 2 [OF refl, of x] Inr by simp
  qed simp
qed simp

lemma push_prefill_kind:
  "push_prefill_sequence (out\<lparr>bd_kind := k\<rparr>) s pt mb
     = map_sum id (\<lambda>d. d\<lparr>bd_kind := k\<rparr>) (push_prefill_sequence out s pt mb)"
proof -
  let ?o = "\<lambda>out. out\<lparr>bd_request_ids := bd_request_ids out @ [ps_request_id s],
                    bd_seq_ids := bd_seq_ids out @ [ps_seq_id s],
                    bd_context_lens := bd_context_lens out @ [as_u32 (ps_context_len s)],
                    bd_max_q := max (bd_max_q out) (length (ps_token_ids s)),
                    bd_max_k := max (bd_max_k out) (ps_context_len s)\<rparr>"
  have c: "?o (out\<lparr>bd_kind := k\<rparr>) = (?o out)\<lparr>bd_kind := k\<rparr>" by (cases out) simp
  show ?thesis
    unfolding push_prefill_sequence_def Let_def c push_tokens_kind
    by (cases "push_tokens (ps_block_table s) pt (ps_start_position s) 0 (ps_token_ids s) (?o out)")
      (auto simp: push_cu_k_def guard_def ok_or_def split: option.split)
qed

lemma push_prefills_kind:
  "push_prefills pt vocab mb ss (out\<lparr>bd_kind := k\<rparr>)
     = map_sum id (\<lambda>d. d\<lparr>bd_kind := k\<rparr>) (push_prefills pt vocab mb ss out)"
proof (induction ss arbitrary: out)
  case (Cons s ss)
  show ?case
    by (cases "validate_prefill_tokens (ps_token_ids s) vocab"; cases "push_prefill_sequence out s pt mb")
      (simp_all add: push_prefill_kind Cons del: validate_prefill_tokens_Inr)
qed simp

lemma contract_kind: "validate_varlen_contract (d\<lparr>bd_kind := k\<rparr>) pt = validate_varlen_contract d pt"
proof -
  have "sequence_lengths_ok (d\<lparr>bd_kind := k\<rparr>) = sequence_lengths_ok d"
    "block_row_ok (d\<lparr>bd_kind := k\<rparr>) = block_row_ok d"
    by (simp_all add: fun_eq_iff sequence_lengths_ok_def block_row_ok_def)
  then show ?thesis by (simp add: validate_varlen_contract_def)
qed

text \<open>
  The mixed builder agrees with the prefill builder: without decode rows it succeeds and fails
  on the same inputs with the same result, except that its batch is always marked as a
  continuation.
\<close>

theorem mixed_without_decode:
  assumes "ss \<noteq> []"
  shows "mixed_paged ss [] pt vocab
         = map_sum id (\<lambda>d. d\<lparr>bd_kind := ContinuationPrefill\<rparr>) (paged_multi_sequence ss pt vocab)"
proof -
  let ?mb = "max (max_or_zero (map (length \<circ> ps_block_table) ss)) 1"
    and ?first = "(bd_empty FirstPrefill)\<lparr>bd_cu_q := [0], bd_cu_k := [0]\<rparr>"
  have e: "(bd_empty ContinuationPrefill)\<lparr>bd_cu_q := [0], bd_cu_k := [0]\<rparr>
      = ?first\<lparr>bd_kind := ContinuationPrefill\<rparr>" by (simp add: bd_empty_def)
  show ?thesis
  proof (cases "validate_page_tokens pt")
    case (Inr u)
    then have v: "validate_page_tokens pt = Inr ()" by simp
    show ?thesis
    proof (cases "push_prefills pt vocab ?mb ss ?first")
      case (Inl err)
      then show ?thesis
        using assms v
        by (simp add: mixed_paged_def paged_multi_sequence_def Let_def e push_prefills_kind
            del: validate_page_tokens_Inr)
    next
      case d: (Inr d)
      have "bd_num_decode_tokens d = 0"
        using push_prefills_added [OF d] by (simp add: added_def bd_empty_def)
      then have n: "d\<lparr>bd_kind := c, bd_num_prefill_tokens := m, bd_num_decode_tokens := 0\<rparr>
          = d\<lparr>bd_num_prefill_tokens := m, bd_kind := c\<rparr>" for m c by (cases d) simp
      let ?d = "d\<lparr>bd_num_prefill_tokens := length (bd_token_ids d)\<rparr>"
      have "mixed_paged ss [] pt vocab
          = then_do (validate_varlen_contract (?d\<lparr>bd_kind := ContinuationPrefill\<rparr>) pt)
              (Inr (?d\<lparr>bd_kind := ContinuationPrefill\<rparr>))"
        using assms v d n
        by (simp add: mixed_paged_def Let_def e push_prefills_kind del: validate_page_tokens_Inr)
      moreover have "\<exists>k. paged_multi_sequence ss pt vocab
          = then_do (validate_varlen_contract (?d\<lparr>bd_kind := k\<rparr>) pt) (Inr (?d\<lparr>bd_kind := k\<rparr>))"
        using assms v d
        by (intro exI [of _ "if list_all (\<lambda>s. ps_start_position s = 0) ss then FirstPrefill
              else ContinuationPrefill"])
          (simp add: paged_multi_sequence_def Let_def del: validate_page_tokens_Inr)
      ultimately show ?thesis
        by (cases "validate_varlen_contract ?d pt") (auto simp: contract_kind)
    qed
  qed (use assms in \<open>simp add: mixed_paged_def paged_multi_sequence_def\<close>)
qed

lemma push_decode_counts:
  "push_decodes vocab mb ds out = Inr out' \<Longrightarrow>
     bd_token_ids out' = bd_token_ids out @ map ds_token_id ds
     \<and> bd_slot_mapping out' = bd_slot_mapping out @ map ds_physical_slot ds
     \<and> bd_cu_q out' = bd_cu_q out @ running (last_or_zero (bd_cu_q out)) (map (\<lambda>_. 1) ds)
     \<and> bd_request_ids out' = bd_request_ids out @ map ds_request_id ds
     \<and> bd_num_prefill_tokens out' = bd_num_prefill_tokens out"
proof (induction ds arbitrary: out)
  case (Cons s ds)
  from Cons.prems obtain o1 where p: "push_decode_sequence out s mb = Inr o1"
    "push_decodes vocab mb ds o1 = Inr out'" by (auto simp: res_bind_eq_Inr)
  have "bd_token_ids o1 = bd_token_ids out @ [ds_token_id s]"
    "bd_slot_mapping o1 = bd_slot_mapping out @ [ds_physical_slot s]"
    "bd_cu_q o1 = bd_cu_q out @ [last_or_zero (bd_cu_q out) + 1]"
    "bd_request_ids o1 = bd_request_ids out @ [ds_request_id s]"
    "bd_num_prefill_tokens o1 = bd_num_prefill_tokens out"
    using p(1) by (auto simp: push_decode_sequence_def push_cu_k_def Let_def res_bind_eq_Inr
        ok_or_eq_Inr checked_u32_Some)
  with Cons.IH [OF p(2)] show ?case by simp
qed simp

text \<open>
  A mixed batch is its prefill rows followed by one row per decode sequence, with the decode
  sequence's token and physical slot, and the two counts say how many rows of each kind there are.
\<close>

theorem mixed_batch_rows:
  assumes "mixed_paged ss ds pt vocab = Inr d"
  shows "bd_token_ids d = concat (map ps_token_ids ss) @ map ds_token_id ds
     \<and> drop (length (concat (map ps_token_ids ss))) (bd_slot_mapping d) = map ds_physical_slot ds
     \<and> bd_cu_q d = 0 # running 0 (map (length \<circ> ps_token_ids) ss @ map (\<lambda>_. 1) ds)
     \<and> bd_request_ids d = map ps_request_id ss @ map ds_request_id ds
     \<and> bd_num_prefill_tokens d = length (concat (map ps_token_ids ss))
     \<and> bd_num_decode_tokens d = length ds \<and> contract_holds d pt"
proof -
  let ?mb = "max (max_or_zero (map (length \<circ> ps_block_table) ss @ map (length \<circ> ds_block_table) ds)) 1"
  define o0 where "o0 = (bd_empty (if ss = [] then DecodeBatch
      else if ds = [] then ContinuationPrefill else Mixed))\<lparr>bd_cu_q := [0], bd_cu_k := [0]\<rparr>"
  have o0: "bd_token_ids o0 = []" "bd_slot_mapping o0 = []" "bd_cu_q o0 = [0]" "bd_request_ids o0 = []"
    by (simp_all add: o0_def bd_empty_def)
  from assms obtain o1 o2 where o1: "push_prefills pt vocab ?mb ss o0 = Inr o1"
    and o2: "push_decodes vocab ?mb ds (o1\<lparr>bd_num_prefill_tokens := length (bd_token_ids o1)\<rparr>) = Inr o2"
    and d: "d = o2\<lparr>bd_num_decode_tokens := length ds\<rparr>" and c: "validate_varlen_contract d pt = Inr ()"
    unfolding mixed_paged_def Let_def o0_def [symmetric] by (auto simp: res_bind_eq_Inr)
  note a = conjunct1 [OF push_prefills_added [OF o1]] and b = push_decode_counts [OF o2]
  have ch: "contract_holds d pt" using c validate_varlen_contract_Inr by blast
  have tok: "bd_token_ids d = concat (map ps_token_ids ss) @ map ds_token_id ds"
    using a b o0 by (simp add: d added_def)
  have "length (bd_token_ids d) \<le> u32_max" using ch by (simp add: contract_holds_def Let_def)
  then have "length (concat (map ps_token_ids ss)) \<le> u32_max" by (simp add: tok)
  note lens = as_u32_lengths [OF this]
  obtain slots where sl: "bd_slot_mapping o1 = slots"
    "map Some slots = concat (map (\<lambda>s. map (physical_slot (seq_mapper pt s)) (seq_positions s)) ss)"
    using a o0 unfolding added_def by auto
  have "length slots = length (map Some slots)" by simp
  also have "\<dots> = length (concat (map ps_token_ids ss))"
    unfolding sl(2) by (induction ss) (simp_all add: seq_positions_def)
  finally have "drop (length (concat (map ps_token_ids ss))) (bd_slot_mapping d) = map ds_physical_slot ds"
    using b sl(1) by (simp add: d)
  moreover have "bd_cu_q d = 0 # running 0 (map (length \<circ> ps_token_ids) ss @ map (\<lambda>_. 1) ds)"
    using a b o0 lens last_or_zero_running [of "[0]" "map (length \<circ> ps_token_ids) ss"]
    by (simp add: d added_def running_append last_or_zero_def)
  ultimately show ?thesis
    using a b o0 tok ch by (simp add: d added_def)
qed


section \<open>Concrete instances\<close>

text \<open>The two sequences of the source's own test, and a decode row beside the second.\<close>

definition two_sequences :: "prefill_sequence list" where
  "two_sequences =
     [\<lparr>ps_request_id = 7, ps_seq_id = 70, ps_token_ids = [1, 2], ps_start_position = 0,
       ps_context_len = 2, ps_block_table = [5]\<rparr>,
      \<lparr>ps_request_id = 8, ps_seq_id = 80, ps_token_ids = [3, 4, 5], ps_start_position = 2,
       ps_context_len = 5, ps_block_table = [9, 2]\<rparr>]"

definition two_batch :: batch_descriptor where
  "two_batch = \<lparr>bd_request_ids = [7, 8], bd_seq_ids = [70, 80], bd_token_ids = [1, 2, 3, 4, 5],
     bd_positions = [0, 1, 2, 3, 4], bd_slot_mapping = [20, 21, 38, 39, 8], bd_cu_q = [0, 2, 5],
     bd_cu_k = [0, 2, 7], bd_context_lens = [2, 5], bd_block_tables = [5, 4294967295, 9, 2],
     bd_max_q = 3, bd_max_k = 5, bd_num_prefill_tokens = 5, bd_num_decode_tokens = 0,
     bd_kind = ContinuationPrefill\<rparr>"

definition decode_rows :: "decode_sequence list" where
  "decode_rows =
     [\<lparr>ds_request_id = 2, ds_seq_id = 20, ds_token_id = 8, ds_position = 9, ds_context_len = 5,
       ds_physical_slot = 42, ds_block_table = [4, 6]\<rparr>]"

definition mixed_batch :: batch_descriptor where
  "mixed_batch = \<lparr>bd_request_ids = [7, 8, 2], bd_seq_ids = [70, 80, 20],
     bd_token_ids = [1, 2, 3, 4, 5, 8], bd_positions = [0, 1, 2, 3, 4, 9],
     bd_slot_mapping = [20, 21, 38, 39, 8, 42], bd_cu_q = [0, 2, 5, 6], bd_cu_k = [0, 2, 7, 12],
     bd_context_lens = [2, 5, 5], bd_block_tables = [5, 4294967295, 9, 2, 4, 6], bd_max_q = 3,
     bd_max_k = 5, bd_num_prefill_tokens = 5, bd_num_decode_tokens = 1, bd_kind = Mixed\<rparr>"

lemmas push_eval = push_prefill_sequence_def push_decode_sequence_def push_cu_k_def
  physical_slot_from_table_def checked_mul_u32_def checked_add_u32_def wrapping_add_def as_u32_def
  u32_max_def bd_empty_def padded_block_table_def last_or_zero_def validate_prefill_tokens_def
  validate_page_tokens_def

lemmas contract_eval = validate_varlen_contract_def validate_page_tokens_def checked_add_def
  validate_cumulative_offsets_def sequence_lengths_ok_def block_row_ok_def div_ceil_def u64_max_def
  u32_max_def

lemma two_batch_contract: "validate_varlen_contract two_batch 4 = Inr ()"
  by (simp add: two_batch_def contract_eval Let_def numeral_2_eq_2 [symmetric] upt_rec)

lemma two_batch_built: "paged_multi_sequence two_sequences 4 16 = Inr two_batch"
proof -
  have "paged_multi_sequence two_sequences 4 16
      = then_do (validate_varlen_contract two_batch 4) (Inr two_batch)"
    by (simp add: paged_multi_sequence_def two_sequences_def two_batch_def push_eval Let_def
        numeral_2_eq_2 [symmetric])
  then show ?thesis by (simp add: two_batch_contract)
qed

lemma mixed_batch_contract: "validate_varlen_contract mixed_batch 4 = Inr ()"
  by (simp add: mixed_batch_def contract_eval Let_def)

lemma mixed_batch_built: "mixed_paged two_sequences decode_rows 4 16 = Inr mixed_batch"
proof -
  have "mixed_paged two_sequences decode_rows 4 16
      = then_do (validate_varlen_contract mixed_batch 4) (Inr mixed_batch)"
    by (simp add: mixed_paged_def two_sequences_def decode_rows_def mixed_batch_def push_eval Let_def
        numeral_2_eq_2 [symmetric])
  then show ?thesis by (simp add: mixed_batch_contract)
qed

theorem accepted_rows_partitioned_witness:
  "\<exists>!seq. seq < length (bd_request_ids two_batch)
     \<and> bd_cu_q two_batch ! seq \<le> 3 \<and> 3 < bd_cu_q two_batch ! (seq + 1)"
proof -
  have "3 < length (bd_token_ids two_batch)" by (simp add: two_batch_def)
  from accepted_rows_partitioned [OF two_batch_contract this] show ?thesis by (rule conjunct1)
qed

theorem accepted_pages_present_witness:
  "bd_block_tables two_batch ! (1 * 2 + 4 div 4) \<noteq> u32_max"
proof -
  have "1 < length (bd_request_ids two_batch)" "4 < bd_context_lens two_batch ! 1"
    by (simp_all add: two_batch_def)
  from accepted_pages_present [OF two_batch_contract this] show ?thesis
    by (simp add: Let_def two_batch_def numeral_2_eq_2 [symmetric])
qed

theorem paged_batch_contents_witness:
  "bd_cu_q two_batch = 0 # running 0 (map (length \<circ> ps_token_ids) two_sequences)"
  using paged_batch_contents [OF two_batch_built] by blast

theorem mixed_without_decode_witness:
  "mixed_paged two_sequences [] 4 16 = Inr two_batch"
proof -
  have "two_sequences \<noteq> []" by (simp add: two_sequences_def)
  from mixed_without_decode [OF this, of 4 16] show ?thesis
    by (simp add: two_batch_built) (simp add: two_batch_def)
qed

theorem mixed_batch_rows_witness:
  "drop 5 (bd_slot_mapping mixed_batch) = [42]"
  using mixed_batch_rows [OF mixed_batch_built]
  by (simp add: two_sequences_def decode_rows_def numeral_2_eq_2 [symmetric])

end
