(* ===== verification/TensorCore.thy ===== *)
theory TensorCore
  imports RustStr
begin

text \<open>
  The safetensors registry (\<^verbatim>\<open>aegisllm-base/src/tensor/core.rs\<close>): element types, shard
  headers, the checks a tensor passes before it is registered, and the aliases for the
  compressed-tensors names. The file system is a parameter from paths to bytes, serde_json two
  parameters: the parse of a header into a map of values, and the decoding of one value. \<open>None\<close>
  is a panic: the one reachable is the allocation of a header buffer whose length does not fit
  (\<^verbatim>\<open>vec![0; n]\<close> beyond \<^verbatim>\<open>isize::MAX\<close>). Release builds wrap on overflow,
  written \<open>wrapping_add\<close>.
\<close>

section \<open>Types\<close>

datatype tensor_dtype =
    Bool | U8 | I8 | I16 | U16 | F16 | BF16 | F32 | F64 | I32 | U32 | I64 | U64 | F8E4M3 | F8E5M2

definition dtype_parse :: "string \<Rightarrow> tensor_dtype aegis_result" where
  "dtype_parse s =
     (if s = ''BOOL'' then Inr Bool else if s = ''U8'' then Inr U8 else if s = ''I8'' then Inr I8
      else if s = ''I16'' then Inr I16 else if s = ''U16'' then Inr U16
      else if s = ''F16'' then Inr F16 else if s = ''BF16'' then Inr BF16
      else if s = ''F32'' then Inr F32 else if s = ''F64'' then Inr F64
      else if s = ''I32'' then Inr I32 else if s = ''U32'' then Inr U32
      else if s = ''I64'' then Inr I64 else if s = ''U64'' then Inr U64
      else if s = ''F8_E4M3'' then Inr F8E4M3 else if s = ''F8_E5M2'' then Inr F8E5M2
      else Inl (Unsupported (''unsupported safetensors dtype `'' @ s @ ''`'')))"

fun bytes_per_element :: "tensor_dtype \<Rightarrow> nat" where
  "bytes_per_element Bool = 1" | "bytes_per_element U8 = 1" | "bytes_per_element I8 = 1"
| "bytes_per_element F8E4M3 = 1" | "bytes_per_element F8E5M2 = 1"
| "bytes_per_element I16 = 2" | "bytes_per_element U16 = 2" | "bytes_per_element F16 = 2"
| "bytes_per_element BF16 = 2"
| "bytes_per_element F32 = 4" | "bytes_per_element I32 = 4" | "bytes_per_element U32 = 4"
| "bytes_per_element F64 = 8" | "bytes_per_element I64 = 8" | "bytes_per_element U64 = 8"

record tensor_info =
  ti_name :: string
  ti_dtype :: tensor_dtype
  ti_shape :: "nat list"
  ti_num_elements :: nat
  ti_data_offsets :: "nat \<times> nat"
  ti_file_offsets :: "nat \<times> nat"
  ti_shard_name :: string
  ti_shard_path :: string

definition data_len_bytes :: "tensor_info \<Rightarrow> nat" where
  "data_len_bytes t = snd (ti_data_offsets t) - fst (ti_data_offsets t)"

record raw_tensor_entry =
  re_dtype :: string
  re_shape :: "nat list"
  re_data_offsets :: "nat \<times> nat"

record safetensors_header =
  sh_entries :: "(string, raw_tensor_entry) btree_map"
  sh_data_section_len :: nat
  sh_payload_base :: nat

type_synonym file_system = "string \<Rightarrow> nat list option"
type_synonym tensor_map = "(string, tensor_info) btree_map"

section \<open>Headers\<close>

fun num_elements_from :: "nat \<Rightarrow> nat list \<Rightarrow> nat aegis_result" where
  "num_elements_from acc [] = Inr acc"
| "num_elements_from acc (v # vs) =
     res_bind (ok_or (Unsupported ''tensor element count overflow'') (checked_mul acc v))
       (\<lambda>acc. num_elements_from acc vs)"

definition num_elements :: "nat list \<Rightarrow> nat aegis_result" where
  "num_elements shape = num_elements_from 1 shape"

fun from_le_bytes :: "nat list \<Rightarrow> nat" where
  "from_le_bytes [] = 0"
| "from_le_bytes (b # bs) = b + 256 * from_le_bytes bs"

definition isize_max :: nat where
  "isize_max = 2 ^ 63 - 1"

fun decode_entries ::
  "('j \<Rightarrow> raw_tensor_entry aegis_result) \<Rightarrow> (string \<times> 'j) list
     \<Rightarrow> (string, raw_tensor_entry) btree_map \<Rightarrow> (string, raw_tensor_entry) btree_map aegis_result" where
  "decode_entries from_value [] entries = Inr entries"
| "decode_entries from_value ((name, value) # rest) entries =
     (if name \<noteq> ''__metadata__''
      then res_bind (from_value value)
             (\<lambda>raw. decode_entries from_value rest (bt_insert name raw entries))
      else decode_entries from_value rest entries)"

definition parse_safetensors_header ::
  "file_system \<Rightarrow> (nat list \<Rightarrow> (string \<times> 'j) list aegis_result) \<Rightarrow> ('j \<Rightarrow> raw_tensor_entry aegis_result)
     \<Rightarrow> string \<Rightarrow> safetensors_header aegis_result option" where
  "parse_safetensors_header fs from_slice from_value path =
     (case fs path of
        None \<Rightarrow> Some (Inl (Io ''open''))
      | Some file \<Rightarrow>
          (let file_len = length file
           in if file_len < 8 then Some (Inl (Io ''read_exact''))
              else let header_len = from_le_bytes (take 8 file)
                   in if wrapping_add 8 header_len > file_len
                      then Some (Inl (Unsupported (''invalid safetensors header in '' @ path)))
                      else if header_len > isize_max then None
                      else if file_len < 8 + header_len then Some (Inl (Io ''read_exact''))
                      else Some
                        (res_bind (from_slice (take header_len (drop 8 file)))
                          (\<lambda>raw. res_bind (decode_entries from_value raw [])
                            (\<lambda>entries. Inr
                               \<lparr>sh_entries = entries,
                                sh_data_section_len = file_len - wrapping_add 8 header_len,
                                sh_payload_base = wrapping_add 8 header_len\<rparr>)))))"

section \<open>The registry\<close>

text \<open>\<^verbatim>\<open>BTreeSet::insert\<close> on a sorted list.\<close>

fun bs_insert :: "'a::linorder \<Rightarrow> 'a list \<Rightarrow> 'a list" where
  "bs_insert x [] = [x]"
| "bs_insert x (y # ys) = (if x < y then x # y # ys else if x = y then y # ys else y # bs_insert x ys)"

fun group_by_shard ::
  "(string \<times> string) list \<Rightarrow> (string, string list) btree_map \<Rightarrow> (string, string list) btree_map" where
  "group_by_shard [] by_shard = by_shard"
| "group_by_shard ((tensor_name, shard_name) # rest) by_shard =
     group_by_shard rest
       (bt_insert shard_name
          (bs_insert tensor_name (case map_of by_shard shard_name of None \<Rightarrow> [] | Some ts \<Rightarrow> ts))
          by_shard)"

definition make_tensor_info ::
  "safetensors_header \<Rightarrow> string \<Rightarrow> string \<Rightarrow> string \<Rightarrow> tensor_info aegis_result" where
  "make_tensor_info header shard_name shard_path tensor_name =
     res_bind (ok_or (Unsupported (''tensor `'' @ tensor_name
                        @ ''` is referenced in index but missing in `'' @ shard_name @ ''`''))
                 (map_of (sh_entries header) tensor_name))
       (\<lambda>raw.
         res_bind (dtype_parse (re_dtype raw)) (\<lambda>dtype.
         res_bind (num_elements (re_shape raw)) (\<lambda>elements.
         res_bind (ok_or (Unsupported ''tensor byte size overflow'')
                     (checked_mul elements (bytes_per_element dtype)))
           (\<lambda>expected_bytes.
             let data_offsets = re_data_offsets raw;
                 actual_bytes = snd data_offsets - fst data_offsets
             in if expected_bytes \<noteq> actual_bytes
                then Inl (Unsupported (''tensor `'' @ tensor_name @ ''` size mismatch''))
                else if snd data_offsets > sh_data_section_len header
                then Inl (Unsupported (''tensor `'' @ tensor_name @ ''` exceeds shard payload''))
                else Inr \<lparr>ti_name = tensor_name, ti_dtype = dtype, ti_shape = re_shape raw,
                          ti_num_elements = elements, ti_data_offsets = data_offsets,
                          ti_file_offsets =
                            (wrapping_add (sh_payload_base header) (fst data_offsets),
                             wrapping_add (sh_payload_base header) (snd data_offsets)),
                          ti_shard_name = shard_name, ti_shard_path = shard_path\<rparr>))))"

fun register_tensors ::
  "safetensors_header \<Rightarrow> string \<Rightarrow> string \<Rightarrow> string list \<Rightarrow> tensor_map \<Rightarrow> tensor_map aegis_result" where
  "register_tensors header shard_name shard_path [] tensors = Inr tensors"
| "register_tensors header shard_name shard_path (name # names) tensors =
     res_bind (make_tensor_info header shard_name shard_path name)
       (\<lambda>info. register_tensors header shard_name shard_path names (bt_insert name info tensors))"

fun register_shards ::
  "file_system \<Rightarrow> (nat list \<Rightarrow> (string \<times> 'j) list aegis_result) \<Rightarrow> ('j \<Rightarrow> raw_tensor_entry aegis_result)
     \<Rightarrow> (string \<Rightarrow> string) \<Rightarrow> (string \<times> string list) list \<Rightarrow> tensor_map \<Rightarrow> tensor_map aegis_result option" where
  "register_shards fs from_slice from_value join [] tensors = Some (Inr tensors)"
| "register_shards fs from_slice from_value join ((shard_name, names) # rest) tensors =
     (case parse_safetensors_header fs from_slice from_value (join shard_name) of
        None \<Rightarrow> None
      | Some (Inl e) \<Rightarrow> Some (Inl e)
      | Some (Inr header) \<Rightarrow>
          (case register_tensors header shard_name (join shard_name) names tensors of
             Inl e \<Rightarrow> Some (Inl e)
           | Inr tensors \<Rightarrow> register_shards fs from_slice from_value join rest tensors))"

definition tensor_aliases :: "(string \<times> string) list" where
  "tensor_aliases = [(''.weight_packed'', ''.weight'')]"

definition alias_of :: "tensor_map \<Rightarrow> string \<times> tensor_info \<Rightarrow> (string \<times> tensor_info) list" where
  "alias_of tensors = (\<lambda>(name, info).
     concat (map (\<lambda>(ct_suffix, gemma_suffix).
       case strip_suffix ct_suffix name of
         None \<Rightarrow> []
       | Some stem \<Rightarrow>
           (let alias = stem @ gemma_suffix
            in if map_of tensors alias = None then [(alias, info\<lparr>ti_name := alias\<rparr>)] else []))
       tensor_aliases))"

definition add_aliases :: "tensor_map \<Rightarrow> tensor_map" where
  "add_aliases tensors =
     fold (\<lambda>(alias, info) m. bt_or_insert alias info m) (concat (map (alias_of tensors) tensors)) tensors"

text \<open>\<open>join\<close> is \<^verbatim>\<open>root.join\<close>.\<close>

definition from_index_and_shards ::
  "file_system \<Rightarrow> (nat list \<Rightarrow> (string \<times> 'j) list aegis_result) \<Rightarrow> ('j \<Rightarrow> raw_tensor_entry aegis_result)
     \<Rightarrow> (string \<Rightarrow> string) \<Rightarrow> (string, string) btree_map \<Rightarrow> tensor_map aegis_result option" where
  "from_index_and_shards fs from_slice from_value join weight_map =
     map_option (map_sum id add_aliases)
       (register_shards fs from_slice from_value join (group_by_shard weight_map []) [])"

definition registry_get :: "tensor_map \<Rightarrow> string \<Rightarrow> tensor_info option" where
  "registry_get tensors name = map_of tensors name"

definition registry_has :: "tensor_map \<Rightarrow> string \<Rightarrow> bool" where
  "registry_has tensors name = (map_of tensors name \<noteq> None)"

text \<open>
  \<^verbatim>\<open>#[derive(PartialOrd, Ord)]\<close> orders the element types as they are declared.
\<close>

fun dtype_index :: "tensor_dtype \<Rightarrow> nat" where
  "dtype_index Bool = 0" | "dtype_index U8 = 1" | "dtype_index I8 = 2" | "dtype_index I16 = 3"
| "dtype_index U16 = 4" | "dtype_index F16 = 5" | "dtype_index BF16 = 6" | "dtype_index F32 = 7"
| "dtype_index F64 = 8" | "dtype_index I32 = 9" | "dtype_index U32 = 10" | "dtype_index I64 = 11"
| "dtype_index U64 = 12" | "dtype_index F8E4M3 = 13" | "dtype_index F8E5M2 = 14"

lemma dtype_index_inj: "dtype_index a = dtype_index b \<Longrightarrow> a = b"
  by (cases a; cases b; simp)

instantiation tensor_dtype :: linorder
begin

definition less_eq_tensor_dtype :: "tensor_dtype \<Rightarrow> tensor_dtype \<Rightarrow> bool" where
  "less_eq_tensor_dtype a b \<longleftrightarrow> dtype_index a \<le> dtype_index b"

definition less_tensor_dtype :: "tensor_dtype \<Rightarrow> tensor_dtype \<Rightarrow> bool" where
  "less_tensor_dtype a b \<longleftrightarrow> dtype_index a < dtype_index b"

instance
  by standard (auto simp: less_eq_tensor_dtype_def less_tensor_dtype_def dest: dtype_index_inj)

end

fun count_dtypes ::
  "tensor_info list \<Rightarrow> (tensor_dtype, nat) btree_map \<Rightarrow> (tensor_dtype, nat) btree_map" where
  "count_dtypes [] counts = counts"
| "count_dtypes (t # ts) counts =
     count_dtypes ts
       (bt_insert (ti_dtype t)
          ((case map_of counts (ti_dtype t) of None \<Rightarrow> 0 | Some n \<Rightarrow> n) + 1) counts)"

definition dtype_counts :: "tensor_map \<Rightarrow> (tensor_dtype, nat) btree_map" where
  "dtype_counts tensors = count_dtypes (map snd tensors) []"

section \<open>What a registered tensor satisfies\<close>

lemma num_elements_from_Inr:
  "num_elements_from acc shape = Inr n \<Longrightarrow> n = acc * prod_list shape"
  by (induction shape arbitrary: acc) (fastforce simp: res_simps checked_mul_Some mult.assoc)+

lemma num_elements_Inr: "num_elements shape = Inr n \<Longrightarrow> n = prod_list shape"
  by (auto simp: num_elements_def dest: num_elements_from_Inr)

lemma parse_header_layout:
  assumes "parse_safetensors_header fs from_slice from_value path = Some (Inr h)"
  obtains content where "fs path = Some content"
    "sh_payload_base h + sh_data_section_len h = length content"
    "sh_payload_base h = 8 + from_le_bytes (take 8 content)"
proof -
  obtain content where content: "fs path = Some content"
    using assms by (auto simp: parse_safetensors_header_def split: option.splits)
  define n where "n = from_le_bytes (take 8 content)"
  from assms content have n: "n \<le> isize_max" and fit: "8 + n \<le> length content"
    and h: "sh_data_section_len h = length content - wrapping_add 8 n"
      "sh_payload_base h = wrapping_add 8 n"
    by (auto simp: parse_safetensors_header_def n_def Let_def res_simps split: if_splits)
  from n have "wrapping_add 8 n = 8 + n"
    by (simp add: wrapping_add_def isize_max_def u64_max_def)
  with fit h content show thesis by (intro that [of content]) (auto simp: n_def)
qed

text \<open>The facts that the checks of \<^verbatim>\<open>from_index_and_shards\<close> establish for one tensor.\<close>

definition info_ok :: "file_system \<Rightarrow> tensor_info \<Rightarrow> bool" where
  "info_ok fs t \<longleftrightarrow>
     ti_num_elements t = prod_list (ti_shape t) \<and>
     data_len_bytes t = prod_list (ti_shape t) * bytes_per_element (ti_dtype t) \<and>
     (\<exists>content. fs (ti_shard_path t) = Some content \<and>
        (0 < data_len_bytes t \<longrightarrow>
           8 + fst (ti_data_offsets t) \<le> fst (ti_file_offsets t) \<and>
           fst (ti_file_offsets t) + data_len_bytes t = snd (ti_file_offsets t) \<and>
           snd (ti_file_offsets t) \<le> length content))"

text \<open>
  Its place in the file: the offsets of its header entry, counted from the end of the header. The length of the
  header stands in the first eight bytes. An empty tensor has a place only for its end.
\<close>

definition range_ok :: "file_system \<Rightarrow> tensor_info \<Rightarrow> bool" where
  "range_ok fs t \<longleftrightarrow>
     (\<exists>content. fs (ti_shard_path t) = Some content \<and>
        snd (ti_file_offsets t) = 8 + from_le_bytes (take 8 content) + snd (ti_data_offsets t) \<and>
        snd (ti_file_offsets t) \<le> length content \<and>
        (0 < data_len_bytes t \<longrightarrow>
           fst (ti_file_offsets t) = 8 + from_le_bytes (take 8 content) + fst (ti_data_offsets t) \<and>
           fst (ti_file_offsets t) + data_len_bytes t = snd (ti_file_offsets t)))"

lemma make_tensor_info_ok:
  assumes header: "parse_safetensors_header fs from_slice from_value path = Some (Inr h)"
    and small: "\<And>p content. fs p = Some content \<Longrightarrow> length content \<le> u64_max"
    and info: "make_tensor_info h shard path name = Inr t"
  shows "info_ok fs t \<and> range_ok fs t \<and> ti_name t = name \<and> ti_shard_name t = shard"
proof -
  obtain content where content: "fs path = Some content"
    and base: "sh_payload_base h + sh_data_section_len h = length content"
      "sh_payload_base h = 8 + from_le_bytes (take 8 content)"
    using parse_header_layout [OF header] .
  note room = small [OF content]
  from info obtain raw dt n where raw: "map_of (sh_entries h) name = Some raw"
      "dtype_parse (re_dtype raw) = Inr dt" "num_elements (re_shape raw) = Inr n"
      "n * bytes_per_element dt = snd (re_data_offsets raw) - fst (re_data_offsets raw)"
      "snd (re_data_offsets raw) \<le> sh_data_section_len h"
    and t: "t = \<lparr>ti_name = name, ti_dtype = dt, ti_shape = re_shape raw, ti_num_elements = n,
      ti_data_offsets = re_data_offsets raw,
      ti_file_offsets = (wrapping_add (sh_payload_base h) (fst (re_data_offsets raw)),
                         wrapping_add (sh_payload_base h) (snd (re_data_offsets raw))),
      ti_shard_name = shard, ti_shard_path = path\<rparr>"
    by (auto simp: make_tensor_info_def res_simps checked_mul_Some Let_def split: if_splits)
  have "wrapping_add (sh_payload_base h) k = sh_payload_base h + k" if "k \<le> sh_data_section_len h" for k
    using that base room by (simp add: wrapping_add_def u64_max_def)
  with raw(5) have offs: "wrapping_add (sh_payload_base h) (snd (re_data_offsets raw))
      = sh_payload_base h + snd (re_data_offsets raw)"
    "fst (re_data_offsets raw) < snd (re_data_offsets raw) \<Longrightarrow>
      wrapping_add (sh_payload_base h) (fst (re_data_offsets raw))
      = sh_payload_base h + fst (re_data_offsets raw)" by auto
  show ?thesis
    using raw content base offs num_elements_Inr [OF raw(3)]
    by (auto simp: info_ok_def range_ok_def t data_len_bytes_def)
qed

section \<open>Registration\<close>

definition shard_names :: "(string, string list) btree_map \<Rightarrow> string \<Rightarrow> string list" where
  "shard_names m s = (case map_of m s of None \<Rightarrow> [] | Some ts \<Rightarrow> ts)"

lemma shard_names_iff: "n \<in> set (shard_names m s) \<longleftrightarrow> (\<exists>ts. map_of m s = Some ts \<and> n \<in> set ts)"
  by (cases "map_of m s") (simp_all add: shard_names_def)

lemma set_bs_insert [simp]: "set (bs_insert x xs) = insert x (set xs)"
  by (induction x xs rule: bs_insert.induct) auto

lemma group_by_shard_names:
  "set (shard_names (group_by_shard wm acc) s) = {n. (n, s) \<in> set wm} \<union> set (shard_names acc s)"
  by (induction wm acc rule: group_by_shard.induct) (auto simp: shard_names_def)

lemma group_by_shard_wf: "bt_wf acc \<Longrightarrow> bt_wf (group_by_shard wm acc)"
  by (induction wm acc rule: group_by_shard.induct) auto

lemma group_by_shard_all:
  "(\<exists>(s, ts) \<in> set (group_by_shard wm []). n \<in> set ts) \<longleftrightarrow> n \<in> fst ` set wm"
proof -
  have "(s, ts) \<in> set (group_by_shard wm []) \<longleftrightarrow> map_of (group_by_shard wm []) s = Some ts" for s ts
    by (rule map_of_eq_set [symmetric]) (simp add: group_by_shard_wf)
  then have "(\<exists>(s, ts) \<in> set (group_by_shard wm []). n \<in> set ts)
      \<longleftrightarrow> (\<exists>s. n \<in> set (shard_names (group_by_shard wm []) s))"
    unfolding shard_names_iff by fast
  also have "\<dots> \<longleftrightarrow> (\<exists>s. (n, s) \<in> set wm)"
    unfolding group_by_shard_names by (simp add: shard_names_def)
  finally show ?thesis by force
qed

lemma register_tensors_spec:
  assumes "register_tensors h shard path names t = Inr t'" "bt_wf t"
  shows "bt_wf t' \<and> (\<forall>n. (map_of t' n \<noteq> None) = (n \<in> set names \<or> map_of t n \<noteq> None)) \<and>
    (\<forall>n info. map_of t' n = Some info \<longrightarrow>
       map_of t n = Some info \<or> make_tensor_info h shard path n = Inr info)"
  using assms
proof (induction names arbitrary: t)
  case (Cons name names)
  then obtain info where info: "make_tensor_info h shard path name = Inr info"
    and rest: "register_tensors h shard path names (bt_insert name info t) = Inr t'"
    by (auto simp: res_simps)
  have wf: "bt_wf (bt_insert name info t)" using Cons.prems(2) by simp
  note ih = Cons.IH [OF rest wf]
  have "(map_of t' n \<noteq> None) = (n \<in> set (name # names) \<or> map_of t n \<noteq> None)" for n
    using ih by (cases "n = name") simp_all
  moreover have "map_of t n = Some i \<or> make_tensor_info h shard path n = Inr i"
    if "map_of t' n = Some i" for n i
    using ih that info by (cases "n = name"; simp only: map_of_bt_insert fun_upd_apply) fastforce+
  ultimately show ?case using ih by blast
qed simp

lemma register_shards_spec:
  assumes "register_shards fs from_slice from_value join shards t = Some (Inr t')" "bt_wf t"
  shows "bt_wf t' \<and>
    (\<forall>n. (map_of t' n \<noteq> None) = ((\<exists>(s, ts) \<in> set shards. n \<in> set ts) \<or> map_of t n \<noteq> None)) \<and>
    (\<forall>n info. map_of t' n = Some info \<longrightarrow> map_of t n = Some info \<or>
       (\<exists>h s. parse_safetensors_header fs from_slice from_value (join s) = Some (Inr h) \<and>
              make_tensor_info h s (join s) n = Inr info))"
  using assms
proof (induction shards arbitrary: t)
  case (Cons shard shards)
  obtain s names where [simp]: "shard = (s, names)" by force
  from Cons.prems(1) obtain h u where h: "parse_safetensors_header fs from_slice from_value (join s) = Some (Inr h)"
    and u: "register_tensors h s (join s) names t = Inr u"
    and rest: "register_shards fs from_slice from_value join shards u = Some (Inr t')"
    by (auto split: option.splits sum.splits)
  note first = register_tensors_spec [OF u Cons.prems(2)]
  note others = Cons.IH [OF rest conjunct1 [OF first]]
  have "\<forall>n. (map_of t' n \<noteq> None) = ((\<exists>(s, ts) \<in> set (shard # shards). n \<in> set ts) \<or> map_of t n \<noteq> None)"
    using first others by auto
  moreover have "\<forall>n info. map_of t' n = Some info \<longrightarrow> map_of t n = Some info \<or>
       (\<exists>h s. parse_safetensors_header fs from_slice from_value (join s) = Some (Inr h) \<and>
              make_tensor_info h s (join s) n = Inr info)"
    using first others h by meson
  ultimately show ?case using others by blast
qed simp

section \<open>Aliases\<close>

text \<open>The two suffixes of the one entry of \<^verbatim>\<open>ALIASES\<close>.\<close>

abbreviation packed_name :: "string \<Rightarrow> string" where
  "packed_name stem \<equiv> stem @ ''.weight_packed''"

abbreviation plain_name :: "string \<Rightarrow> string" where
  "plain_name stem \<equiv> stem @ ''.weight''"

lemma set_alias_of:
  "(n, i) \<in> set (alias_of t (name, info)) \<longleftrightarrow>
     (\<exists>stem. name = packed_name stem \<and> n = plain_name stem \<and> map_of t n = None \<and> i = info\<lparr>ti_name := n\<rparr>)"
  by (cases "strip_suffix ''.weight_packed'' name")
    (auto simp: alias_of_def tensor_aliases_def Let_def strip_suffix_Some)

lemma map_of_fold_or_insert:
  "map_of (fold (\<lambda>(k, v) m. bt_or_insert k v m) xs m) n
   = (case map_of m n of None \<Rightarrow> map_of xs n | Some v \<Rightarrow> Some v)"
  by (induction xs arbitrary: m) (auto simp: map_of_bt_or_insert split: option.splits)

lemma fold_or_insert_wf:
  "bt_wf m \<Longrightarrow> bt_wf (fold (\<lambda>(k, v) m. bt_or_insert k v m) xs m)"
  by (induction xs arbitrary: m) auto

lemma map_of_single_valued:
  "(\<And>v w. (k, v) \<in> set xs \<Longrightarrow> (k, w) \<in> set xs \<Longrightarrow> v = w) \<Longrightarrow> map_of xs k = Some v \<longleftrightarrow> (k, v) \<in> set xs"
  by (metis map_of_SomeD weak_map_of_SomeI)

lemma map_of_add_aliases:
  assumes "bt_wf t"
  shows "map_of (add_aliases t) n = Some i \<longleftrightarrow>
    map_of t n = Some i \<or>
    (map_of t n = None \<and> (\<exists>stem info. n = plain_name stem \<and> map_of t (packed_name stem) = Some info \<and>
       i = info\<lparr>ti_name := n\<rparr>))"
proof -
  let ?L = "concat (map (alias_of t) t)"
  have L: "(n, i) \<in> set ?L \<longleftrightarrow> map_of t n = None \<and> (\<exists>stem info. n = plain_name stem \<and>
      map_of t (packed_name stem) = Some info \<and> i = info\<lparr>ti_name := n\<rparr>)" for i
  proof -
    have "(n, i) \<in> set ?L \<longleftrightarrow> (\<exists>name info. (name, info) \<in> set t \<and> (n, i) \<in> set (alias_of t (name, info)))"
      by auto
    then show ?thesis unfolding set_alias_of map_of_eq_set [OF assms] by blast
  qed
  have "map_of ?L n = Some i \<longleftrightarrow> (n, i) \<in> set ?L" for i
    by (rule map_of_single_valued) (auto simp del: set_concat simp: L)
  then show ?thesis
    by (auto simp: add_aliases_def map_of_fold_or_insert L simp del: set_concat split: option.split)
qed

lemma map_sum_InrE:
  assumes "map_sum f g x = Inr y" obtains z where "x = Inr z" "y = g z"
  using assms by (cases x) auto

lemma registry_shape:
  assumes "from_index_and_shards fs from_slice from_value join wm = Some (Inr reg)"
  obtains t where "reg = add_aliases t" "bt_wf t"
    "\<And>n. map_of t n \<noteq> None \<longleftrightarrow> n \<in> fst ` set wm"
    "\<And>n info. map_of t n = Some info \<Longrightarrow>
       \<exists>h s. parse_safetensors_header fs from_slice from_value (join s) = Some (Inr h) \<and>
            make_tensor_info h s (join s) n = Inr info"
proof -
  from assms obtain t where reg: "reg = add_aliases t"
    and t: "register_shards fs from_slice from_value join (group_by_shard wm []) [] = Some (Inr t)"
    by (auto simp: from_index_and_shards_def elim!: map_sum_InrE)
  from register_shards_spec [OF t] show thesis
    by (intro that [OF reg]) (simp_all add: group_by_shard_all)
qed

text \<open>Every tensor of a registry is stored under its own name.\<close>

lemma registry_own_name:
  assumes "from_index_and_shards fs from_slice from_value join wm = Some (Inr reg)"
    and "registry_get reg n = Some t"
  shows "ti_name t = n"
proof -
  from assms(1) obtain r where reg: "reg = add_aliases r" and wf: "bt_wf r"
    and made: "\<And>n info. map_of r n = Some info \<Longrightarrow>
       \<exists>h s. parse_safetensors_header fs from_slice from_value (join s) = Some (Inr h) \<and>
            make_tensor_info h s (join s) n = Inr info"
    by (rule registry_shape) blast
  have "ti_name u = m" if "map_of r m = Some u" for m u
    using made [OF that] by (auto simp: make_tensor_info_def res_simps Let_def split: if_splits)
  with assms(2) show ?thesis
    unfolding registry_get_def reg map_of_add_aliases [OF wf] by auto
qed

section \<open>Correctness of the registry\<close>

text \<open>
  C19: every tensor of a registry, aliases included, has the element count of its shape and as many
  bytes as its shape and element type need. Its place in its shard file is that of its header entry counted from the
  end of the header, whose length the first eight bytes of the file give: the end lies inside the file, and, unless the tensor is
  empty, the start does and the range has the length of the tensor. Files are shorter than \<open>2 ^ 64\<close>.
\<close>

theorem registered_tensor_in_file:
  assumes "from_index_and_shards fs from_slice from_value join wm = Some (Inr reg)"
    and small: "\<And>p content. fs p = Some content \<Longrightarrow> length content \<le> u64_max"
    and "registry_get reg name = Some t"
  shows "ti_name t = name \<and> ti_num_elements t = prod_list (ti_shape t) \<and>
    data_len_bytes t = prod_list (ti_shape t) * bytes_per_element (ti_dtype t) \<and>
    (\<exists>content. fs (ti_shard_path t) = Some content \<and>
       snd (ti_file_offsets t) = 8 + from_le_bytes (take 8 content) + snd (ti_data_offsets t) \<and>
       snd (ti_file_offsets t) \<le> length content \<and>
       (0 < data_len_bytes t \<longrightarrow>
          fst (ti_file_offsets t) = 8 + from_le_bytes (take 8 content) + fst (ti_data_offsets t) \<and>
          fst (ti_file_offsets t) + data_len_bytes t = snd (ti_file_offsets t)))"
proof -
  from assms(1) obtain r where reg: "reg = add_aliases r" and wf: "bt_wf r"
    and made: "\<And>n info. map_of r n = Some info \<Longrightarrow>
       \<exists>h s. parse_safetensors_header fs from_slice from_value (join s) = Some (Inr h) \<and>
            make_tensor_info h s (join s) n = Inr info"
    by (rule registry_shape) blast
  have ok: "info_ok fs u \<and> range_ok fs u \<and> ti_name u = n" if "map_of r n = Some u" for n u
    using made [OF that] make_tensor_info_ok small by blast
  from assms(3) have "info_ok fs t \<and> range_ok fs t \<and> ti_name t = name"
    unfolding registry_get_def reg map_of_add_aliases [OF wf]
    using ok by (auto simp: info_ok_def range_ok_def data_len_bytes_def)
  then show ?thesis by (auto simp: info_ok_def range_ok_def)
qed

text \<open>
  The names of a registry are those of the index and the plain names of its packed weights;
  a plain name that the index does not have itself stands for the same bytes as the packed one.
\<close>

theorem registry_names_and_aliases:
  assumes "from_index_and_shards fs from_slice from_value join wm = Some (Inr reg)"
  shows "(registry_has reg n \<longleftrightarrow>
      n \<in> fst ` set wm \<or> (\<exists>stem. n = plain_name stem \<and> packed_name stem \<in> fst ` set wm)) \<and>
    (\<forall>stem. packed_name stem \<in> fst ` set wm \<and> plain_name stem \<notin> fst ` set wm \<longrightarrow>
      registry_get reg (plain_name stem)
      = map_option (ti_name_update (\<lambda>_. plain_name stem)) (registry_get reg (packed_name stem)))"
proof -
  from assms obtain r where reg: "reg = add_aliases r" and wf: "bt_wf r"
    and names: "\<And>n. map_of r n \<noteq> None \<longleftrightarrow> n \<in> fst ` set wm"
    by (rule registry_shape) blast
  have get: "map_of reg n = Some i \<longleftrightarrow> map_of r n = Some i \<or> (map_of r n = None \<and>
    (\<exists>stem info. n = plain_name stem \<and> map_of r (packed_name stem) = Some info \<and>
       i = info\<lparr>ti_name := n\<rparr>))" for n i
    unfolding reg by (rule map_of_add_aliases [OF wf])
  have has: "registry_has reg n \<longleftrightarrow> (\<exists>i. map_of reg n = Some i)"
    by (auto simp: registry_has_def)
  have first: "registry_has reg n \<longleftrightarrow>
      n \<in> fst ` set wm \<or> (\<exists>stem. n = plain_name stem \<and> packed_name stem \<in> fst ` set wm)"
    unfolding has get names [symmetric] by (cases "map_of r n") auto
  have "registry_get reg (plain_name stem)
      = map_option (ti_name_update (\<lambda>_. plain_name stem)) (registry_get reg (packed_name stem))"
    if "packed_name stem \<in> fst ` set wm" "plain_name stem \<notin> fst ` set wm" for stem
  proof -
    from that obtain info where info: "map_of r (packed_name stem) = Some info"
      and none: "map_of r (plain_name stem) = None" using names by blast
    have "map_of reg (packed_name stem) = Some info" using get info by blast
    moreover have "map_of reg (plain_name stem) = Some (info\<lparr>ti_name := plain_name stem\<rparr>)"
      using get info none by blast
    ultimately show ?thesis by (simp add: registry_get_def)
  qed
  with first show ?thesis by blast
qed

lemma count_dtypes_spec:
  "(case map_of (count_dtypes ts counts) d of None \<Rightarrow> 0 | Some n \<Rightarrow> n)
   = length (filter (\<lambda>t. ti_dtype t = d) ts) + (case map_of counts d of None \<Rightarrow> 0 | Some n \<Rightarrow> n)"
  by (induction ts counts rule: count_dtypes.induct) auto

text \<open>
  \<^verbatim>\<open>dtype_counts\<close> counts the tensors of every element type, and names no type twice.
\<close>

theorem dtype_counts_exact:
  "bt_wf (dtype_counts tensors) \<and>
   (case map_of (dtype_counts tensors) d of None \<Rightarrow> 0 | Some n \<Rightarrow> n)
     = length (filter (\<lambda>t. ti_dtype t = d) (map snd tensors))"
proof -
  have "bt_wf counts \<Longrightarrow> bt_wf (count_dtypes ts counts)" for ts and counts :: "(tensor_dtype, nat) btree_map"
    by (induction ts counts rule: count_dtypes.induct) auto
  then show ?thesis
    by (simp only: dtype_counts_def count_dtypes_spec) simp
qed

section \<open>A shard with two tensors\<close>

definition demo_fs :: file_system where
  "demo_fs = (\<lambda>p. if p = ''m.safetensors'' then Some ([2, 0, 0, 0, 0, 0, 0, 0] @ [123, 125] @ [1, 2, 3, 4]) else None)"

definition demo_header :: "nat list \<Rightarrow> (string \<times> raw_tensor_entry) list aegis_result" where
  "demo_header bytes =
     Inr [(''__metadata__'', \<lparr>re_dtype = '''', re_shape = [], re_data_offsets = (0, 0)\<rparr>),
          (''b'', \<lparr>re_dtype = ''U8'', re_shape = [2], re_data_offsets = (0, 2)\<rparr>),
          (''q.weight_packed'', \<lparr>re_dtype = ''F16'', re_shape = [1, 1], re_data_offsets = (2, 4)\<rparr>)]"

definition demo_index :: "(string, string) btree_map" where
  "demo_index = [(''b'', ''m.safetensors''), (''q.weight_packed'', ''m.safetensors'')]"

definition demo_registry :: tensor_map where
  "demo_registry =
    [(''b'', \<lparr>ti_name = ''b'', ti_dtype = U8, ti_shape = [2], ti_num_elements = 2, ti_data_offsets = (0, 2),
       ti_file_offsets = (10, 12), ti_shard_name = ''m.safetensors'', ti_shard_path = ''m.safetensors''\<rparr>),
     (''q.weight'', \<lparr>ti_name = ''q.weight'', ti_dtype = F16, ti_shape = [1, 1], ti_num_elements = 1, ti_data_offsets = (2, 4),
       ti_file_offsets = (12, 14), ti_shard_name = ''m.safetensors'', ti_shard_path = ''m.safetensors''\<rparr>),
     (''q.weight_packed'', \<lparr>ti_name = ''q.weight_packed'', ti_dtype = F16, ti_shape = [1, 1], ti_num_elements = 1, ti_data_offsets = (2, 4),
       ti_file_offsets = (12, 14), ti_shard_name = ''m.safetensors'', ti_shard_path = ''m.safetensors''\<rparr>)]"

lemma demo_parse: "parse_safetensors_header demo_fs demo_header Inr ''m.safetensors'' =
  Some (Inr \<lparr>sh_entries =  [(''b'', \<lparr>re_dtype = ''U8'', re_shape = [2], re_data_offsets = (0, 2)\<rparr>),
          (''q.weight_packed'', \<lparr>re_dtype = ''F16'', re_shape = [1, 1], re_data_offsets = (2, 4)\<rparr>)],
    sh_data_section_len = 4, sh_payload_base = 10\<rparr>)"
  by (simp add: parse_safetensors_header_def demo_fs_def demo_header_def Let_def wrapping_add_def isize_max_def
   u64_max_def)

lemma demo_groups: "group_by_shard demo_index [] = [(''m.safetensors'', [''b'', ''q.weight_packed''])]"
  by (simp add: demo_index_def)

lemma demo_loaded: "from_index_and_shards demo_fs demo_header Inr id demo_index = Some (Inr demo_registry)"
  by (simp add: from_index_and_shards_def demo_groups demo_parse make_tensor_info_def dtype_parse_def num_elements_def
    checked_mul_def u64_max_def wrapping_add_def demo_registry_def add_aliases_def alias_of_def tensor_aliases_def strip_suffix_def suffix_def
    bt_or_insert_def Let_def)


lemma registered_tensor_in_file_witness:
  "0 < data_len_bytes (the (registry_get demo_registry ''q.weight'')) \<and>
   (\<exists>content. demo_fs ''m.safetensors'' = Some content \<and> 14 \<le> length content
      \<and> 12 = 8 + from_le_bytes (take 8 content) + 2)"
proof -
  have small: "length content \<le> u64_max" if "demo_fs p = Some content" for p content
    using that by (auto simp: demo_fs_def u64_max_def split: if_splits)
  obtain t where get: "registry_get demo_registry ''q.weight'' = Some t"
    and t: "ti_file_offsets t = (12, 14)" "ti_data_offsets t = (2, 4)" "data_len_bytes t = 2" "ti_shard_path t = ''m.safetensors''"
    by (simp add: registry_get_def demo_registry_def data_len_bytes_def)
  show ?thesis
    using registered_tensor_in_file [OF demo_loaded _ get] small get t by auto
qed

lemma registry_names_and_aliases_witness:
  "registry_has demo_registry ''q.weight'' \<and> \<not> registry_has demo_registry ''q'' \<and>
   map_option ti_file_offsets (registry_get demo_registry (plain_name ''q'')) = Some (12, 14)"
  using registry_names_and_aliases [OF demo_loaded, of "''q.weight''"]
    registry_names_and_aliases [OF demo_loaded, of "''q''"]
  by (auto simp: demo_index_def registry_has_def demo_registry_def registry_get_def)

lemma from_le_bytes_ones: "from_le_bytes (replicate n 255) + 1 = 256 ^ n"
  by (induction n) simp_all

text \<open>
  A shard of eight \<^verbatim>\<open>0xff\<close> bytes and anything behind them is not refused as a
  broken header: the length check wraps around and the buffer allocation panics.
\<close>

theorem header_length_wraps:
  assumes "fs path = Some (replicate 8 255 @ rest)"
  shows "parse_safetensors_header fs from_slice from_value path = None"
proof -
  have "from_le_bytes (take 8 (replicate 8 255 @ rest)) = 2 ^ 64 - 1"
    using from_le_bytes_ones [of 8] by simp
  then show ?thesis
    by (simp add: parse_safetensors_header_def assms Let_def wrapping_add_def u64_max_def isize_max_def)
qed

lemma header_length_wraps_witness:
  "parse_safetensors_header (\<lambda>_. Some (replicate 8 255 @ [0])) demo_header Inr ''m'' = None"
  by (rule header_length_wraps [where rest = "[0]"]) simp


end
