(* ===== verification/Quant.thy ===== *)
theory Quant
  imports TensorCore Complex_Main
begin

text \<open>
  Quantisation formats (\<^verbatim>\<open>aegisllm-base/src/tensor/quant.rs\<close>): the guess from a
  configuration string, the format descriptors, the validation of an NVFP4 linear layer and the
  decoding tables. The table values are dyadic rationals that \<^verbatim>\<open>f32\<close> represents exactly,
  so they are rationals here; the scales of a layer are passed through and stay abstract.
\<close>

section \<open>Formats\<close>

definition QK_NVFP4 :: nat where "QK_NVFP4 = 64"

definition QK_NVFP4_SUB :: nat where "QK_NVFP4_SUB = 16"

datatype quant_format = DenseF32 | QfF16 | QfBf16 | QfNvfp4 | QfFp8E4M3Block | QfUnknown

datatype tensor_core_precision = TcTf32 | TcF16 | TcBf16 | TcFp8 | TcFp4 | TcInt8

datatype scale_granularity =
    NoScale
  | Scalar
  | PerBlock (pb_values: nat)
  | TwoLevel (tl_values: nat) (tl_super_values: nat)

record quant_format_descriptor =
  qd_format :: quant_format
  qd_label :: string
  qd_packed_weight_dtype :: "tensor_dtype option"
  qd_logical_bits_per_value :: "nat option"
  qd_values_per_packed_byte :: "nat option"
  qd_scale_dtype :: "tensor_dtype option"
  qd_scale_granularity :: scale_granularity
  qd_input_granularity :: scale_granularity
  qd_native_tensor_core_precision :: "tensor_core_precision option"

fun quant_descriptor :: "quant_format \<Rightarrow> quant_format_descriptor" where
  "quant_descriptor DenseF32 =
     \<lparr>qd_format = DenseF32, qd_label = ''dense_f32'', qd_packed_weight_dtype = Some F32,
      qd_logical_bits_per_value = Some 32, qd_values_per_packed_byte = None, qd_scale_dtype = None,
      qd_scale_granularity = NoScale, qd_input_granularity = NoScale,
      qd_native_tensor_core_precision = Some TcTf32\<rparr>"
| "quant_descriptor QfF16 =
     \<lparr>qd_format = QfF16, qd_label = ''f16'', qd_packed_weight_dtype = Some F16,
      qd_logical_bits_per_value = Some 16, qd_values_per_packed_byte = None, qd_scale_dtype = None,
      qd_scale_granularity = NoScale, qd_input_granularity = NoScale,
      qd_native_tensor_core_precision = Some TcF16\<rparr>"
| "quant_descriptor QfBf16 =
     \<lparr>qd_format = QfBf16, qd_label = ''bf16'', qd_packed_weight_dtype = Some BF16,
      qd_logical_bits_per_value = Some 16, qd_values_per_packed_byte = None, qd_scale_dtype = None,
      qd_scale_granularity = NoScale, qd_input_granularity = NoScale,
      qd_native_tensor_core_precision = Some TcBf16\<rparr>"
| "quant_descriptor QfNvfp4 =
     \<lparr>qd_format = QfNvfp4, qd_label = ''nvfp4'', qd_packed_weight_dtype = Some U8,
      qd_logical_bits_per_value = Some 4, qd_values_per_packed_byte = Some 2,
      qd_scale_dtype = Some F8E4M3, qd_scale_granularity = TwoLevel QK_NVFP4_SUB QK_NVFP4,
      qd_input_granularity = PerBlock QK_NVFP4_SUB,
      qd_native_tensor_core_precision = Some TcFp4\<rparr>"
| "quant_descriptor QfFp8E4M3Block =
     \<lparr>qd_format = QfFp8E4M3Block, qd_label = ''fp8_e4m3_block'',
      qd_packed_weight_dtype = Some F8E4M3, qd_logical_bits_per_value = Some 8,
      qd_values_per_packed_byte = Some 1, qd_scale_dtype = Some F8E4M3,
      qd_scale_granularity = PerBlock 32, qd_input_granularity = PerBlock 32,
      qd_native_tensor_core_precision = Some TcFp8\<rparr>"
| "quant_descriptor QfUnknown =
     \<lparr>qd_format = QfUnknown, qd_label = ''unknown'', qd_packed_weight_dtype = None,
      qd_logical_bits_per_value = None, qd_values_per_packed_byte = None, qd_scale_dtype = None,
      qd_scale_granularity = NoScale, qd_input_granularity = NoScale,
      qd_native_tensor_core_precision = None\<rparr>"

definition quant_format_label :: "quant_format \<Rightarrow> string" where
  "quant_format_label f = qd_label (quant_descriptor f)"

definition is_quantized :: "quant_format \<Rightarrow> bool" where
  "is_quantized f \<longleftrightarrow> f \<in> {QfNvfp4, QfFp8E4M3Block}"

definition is_dense :: "quant_format \<Rightarrow> bool" where
  "is_dense f \<longleftrightarrow> f \<in> {DenseF32, QfF16, QfBf16}"

datatype weight_quantization =
    WqNone | WqFp16 | WqBf16 | WqQ8_0 | WqInt8 | WqInt4 | WqNvfp4 | WqFp8E4M3Block | WqUnknown

definition parse_guess :: "string \<Rightarrow> weight_quantization" where
  "parse_guess value =
     (let lower = to_ascii_lowercase value
      in if str_contains lower ''nvfp4'' \<or> str_contains lower ''fp4'' then WqNvfp4
         else if str_contains lower ''fp8'' \<or> str_contains lower ''float8'' then WqFp8E4M3Block
         else if str_contains lower ''q8_0'' \<or> str_contains lower ''q8-0'' then WqQ8_0
         else if str_contains lower ''int4'' \<or> str_contains lower ''gptq-4''
                 \<or> str_contains lower ''awq-4'' then WqInt4
         else if str_contains lower ''int8'' \<or> str_contains lower ''gptq-8''
                 \<or> str_contains lower ''awq-8'' then WqInt8
         else if str_contains lower ''bf16'' \<or> str_contains lower ''bfloat16'' then WqBf16
         else if str_contains lower ''fp16'' \<or> str_contains lower ''float16'' then WqFp16
         else if lower = ''none'' \<or> lower = ''f32'' \<or> lower = ''float32'' then WqNone
         else WqUnknown)"

fun weight_quantization_label :: "weight_quantization \<Rightarrow> string" where
  "weight_quantization_label WqNone = ''none''"
| "weight_quantization_label WqFp16 = ''fp16''"
| "weight_quantization_label WqBf16 = ''bf16''"
| "weight_quantization_label WqQ8_0 = ''q8_0''"
| "weight_quantization_label WqInt8 = ''int8''"
| "weight_quantization_label WqInt4 = ''int4''"
| "weight_quantization_label WqNvfp4 = ''nvfp4''"
| "weight_quantization_label WqFp8E4M3Block = ''fp8''"
| "weight_quantization_label WqUnknown = ''unknown''"

fun format_hint :: "weight_quantization \<Rightarrow> quant_format" where
  "format_hint WqNone = DenseF32"
| "format_hint WqFp16 = QfF16"
| "format_hint WqBf16 = QfBf16"
| "format_hint WqNvfp4 = QfNvfp4"
| "format_hint WqFp8E4M3Block = QfFp8E4M3Block"
| "format_hint WqQ8_0 = QfUnknown"
| "format_hint WqInt8 = QfUnknown"
| "format_hint WqInt4 = QfUnknown"
| "format_hint WqUnknown = QfUnknown"

datatype kv_cache_quantization = KvF16 | KvBf16 | KvQ8_0 | KvFp8 | KvNvfp4

definition kv_quant_parse :: "string \<Rightarrow> kv_cache_quantization option" where
  "kv_quant_parse value =
     (let v = to_ascii_lowercase value
      in if v = ''f16'' \<or> v = ''fp16'' then Some KvF16
         else if v = ''bf16'' \<or> v = ''bfloat16'' then Some KvBf16
         else if v = ''q8_0'' \<or> v = ''q8-0'' then Some KvQ8_0
         else if v = ''fp8'' \<or> v = ''f8'' then Some KvFp8
         else if v = ''nvfp4'' \<or> v = ''fp4'' \<or> v = ''f4'' then Some KvNvfp4
         else None)"

fun kv_bytes_per_element :: "kv_cache_quantization \<Rightarrow> rat" where
  "kv_bytes_per_element KvF16 = 2"
| "kv_bytes_per_element KvBf16 = 2"
| "kv_bytes_per_element KvQ8_0 = 1"
| "kv_bytes_per_element KvFp8 = 1"
| "kv_bytes_per_element KvNvfp4 = 1 / 2"

fun kv_quant_label :: "kv_cache_quantization \<Rightarrow> string" where
  "kv_quant_label KvF16 = ''f16''"
| "kv_quant_label KvBf16 = ''bf16''"
| "kv_quant_label KvQ8_0 = ''q8_0''"
| "kv_quant_label KvFp8 = ''fp8''"
| "kv_quant_label KvNvfp4 = ''nvfp4''"

section \<open>NVFP4 linear layers\<close>

record 'f nvfp4_linear_spec =
  nv_name :: string
  nv_rows :: nat
  nv_cols :: nat
  nv_packed_bytes :: nat
  nv_scale_bytes :: nat
  nv_input_scale :: 'f
  nv_output_scale :: 'f

definition nvfp4_from_tensors ::
  "string \<Rightarrow> tensor_info \<Rightarrow> tensor_info \<Rightarrow> 'f \<Rightarrow> 'f \<Rightarrow> 'f nvfp4_linear_spec aegis_result" where
  "nvfp4_from_tensors name weight scales input_scale output_scale =
     (if ti_dtype weight \<noteq> U8
      then Inl (InvalidPlan (''`'' @ ti_name weight @ ''` must be U8 packed NVFP4''))
      else if ti_dtype scales \<noteq> F8E4M3
      then Inl (InvalidPlan (''`'' @ ti_name scales @ ''` must be F8_E4M3 NVFP4 scales''))
      else if length (ti_shape weight) \<noteq> 2 \<or> length (ti_shape scales) \<noteq> 2
      then Inl (InvalidPlan (''NVFP4 linear `'' @ name @ ''` expects 2D weight and scale tensors''))
      else (let rows = ti_shape weight ! 0; packed_cols = ti_shape weight ! 1
        in res_bind (ok_or (InvalidPlan (''NVFP4 linear `'' @ name @ ''` column overflow''))
                      (checked_mul packed_cols 2))
             (\<lambda>cols.
               if cols mod QK_NVFP4 \<noteq> 0
               then Inl (InvalidPlan (''NVFP4 linear `'' @ name @ ''` columns must be divisible by 64''))
               else let expected_scale_cols = cols div QK_NVFP4 * (QK_NVFP4 div QK_NVFP4_SUB)
                    in if ti_shape scales \<noteq> [rows, expected_scale_cols]
                       then Inl (InvalidPlan (''NVFP4 scale shape mismatch for `'' @ name @ ''`''))
                       else Inr \<lparr>nv_name = name, nv_rows = rows, nv_cols = cols,
                                 nv_packed_bytes = data_len_bytes weight,
                                 nv_scale_bytes = data_len_bytes scales,
                                 nv_input_scale = input_scale, nv_output_scale = output_scale\<rparr>)))"

definition packed_cols :: "'f nvfp4_linear_spec \<Rightarrow> nat" where
  "packed_cols s = nv_cols s div 2"

definition scale_cols :: "'f nvfp4_linear_spec \<Rightarrow> nat" where
  "scale_cols s = nv_cols s div QK_NVFP4 * (QK_NVFP4 div QK_NVFP4_SUB)"

section \<open>Decoding tables\<close>

definition kvalues_mxfp4 :: "int list" where
  "kvalues_mxfp4 = [0, 1, 2, 3, 4, 6, 8, 12, 0, -1, -2, -3, -4, -6, -8, -12]"

text \<open>Indexing beyond the table is a panic.\<close>

definition decode_nvfp4_nibble_i8 :: "nat \<Rightarrow> int option" where
  "decode_nvfp4_nibble_i8 nibble =
     (if nibble < length kvalues_mxfp4 then Some (kvalues_mxfp4 ! nibble) else None)"

text \<open>\<^verbatim>\<open>pow2i_const\<close> writes the exponent field of a normal \<^verbatim>\<open>f32\<close>; it is called with
  exponents -6 to 8.\<close>

definition pow2i_const :: "int \<Rightarrow> rat" where
  "pow2i_const e = (if e < 0 then 1 / 2 ^ nat (- e) else 2 ^ nat e)"

definition ue4m3_with_half_entry :: "nat \<Rightarrow> rat" where
  "ue4m3_with_half_entry byte =
     (let exponent = byte div 8 mod 16;
          mantissa = of_nat (byte mod 8);
          raw = (if byte = 0 \<or> byte = 127 then 0
                 else if exponent = 0 then mantissa * (1 / 512)
                 else (1 + mantissa * (1 / 8)) * pow2i_const (int exponent - 7))
      in raw * (1 / 2))"

definition build_ue4m3_with_half_lut :: "rat list" where
  "build_ue4m3_with_half_lut = map ue4m3_with_half_entry [0..<128]"

definition decode_ue4m3_with_half_lut :: "nat \<Rightarrow> rat" where
  "decode_ue4m3_with_half_lut byte = build_ue4m3_with_half_lut ! (byte mod 128)"

section \<open>Accepted layers\<close>

lemma nvfp4_from_tensors_Inr:
  assumes "nvfp4_from_tensors name weight scales i out = Inr s"
  shows "ti_dtype weight = U8" "ti_dtype scales = F8E4M3"
    "ti_shape weight = [nv_rows s, nv_cols s div 2]" "ti_shape scales = [nv_rows s, scale_cols s]"
    "nv_cols s mod 64 = 0" "nv_packed_bytes s = data_len_bytes weight"
    "nv_scale_bytes s = data_len_bytes scales" "nv_input_scale s = i" "nv_output_scale s = out"
proof -
  from assms have shape: "length (ti_shape weight) = 2" "length (ti_shape scales) = 2"
    by (auto simp: nvfp4_from_tensors_def split: if_splits)
  then obtain a b where w: "ti_shape weight = [a, b]"
    by (auto simp: length_Suc_conv numeral_2_eq_2)
  from assms shape w show "ti_dtype weight = U8" "ti_dtype scales = F8E4M3"
    "ti_shape weight = [nv_rows s, nv_cols s div 2]" "ti_shape scales = [nv_rows s, scale_cols s]"
    "nv_cols s mod 64 = 0" "nv_packed_bytes s = data_len_bytes weight"
    "nv_scale_bytes s = data_len_bytes scales" "nv_input_scale s = i" "nv_output_scale s = out"
    by (auto simp: nvfp4_from_tensors_def res_simps checked_mul_Some Let_def scale_cols_def
        QK_NVFP4_def QK_NVFP4_SUB_def split: if_splits)
qed

text \<open>
  The packed weight of an accepted NVFP4 layer holds two values in a byte and its scales one
  byte for sixteen values: for tensors of the registry the byte counts of the specification are
  half and a sixteenth of rows times columns, and the columns split into whole super blocks.
\<close>

theorem nvfp4_spec_bytes:
  assumes "nvfp4_from_tensors name weight scales i out = Inr s"
    and "info_ok fs weight" "info_ok fs scales"
  shows "nv_packed_bytes s * 2 = nv_rows s * nv_cols s \<and>
    nv_scale_bytes s * QK_NVFP4_SUB = nv_rows s * nv_cols s \<and>
    packed_cols s * 2 = nv_cols s \<and> scale_cols s * QK_NVFP4_SUB = nv_cols s \<and>
    QK_NVFP4 dvd nv_cols s"
proof -
  note spec = nvfp4_from_tensors_Inr [OF assms(1)]
  from spec(5) obtain k where cols: "nv_cols s = 64 * k" by (auto elim: dvdE)
  have w: "data_len_bytes weight = nv_rows s * (nv_cols s div 2)"
    and sc: "data_len_bytes scales = nv_rows s * scale_cols s"
    using assms(2, 3) spec(1-4) by (auto simp: info_ok_def)
  have scale: "scale_cols s * 16 = nv_cols s"
    by (simp add: scale_cols_def QK_NVFP4_def QK_NVFP4_SUB_def cols)
  show ?thesis
    unfolding spec(6, 7) w sc packed_cols_def
    using scale cols by (auto simp: QK_NVFP4_def QK_NVFP4_SUB_def mult.assoc)
qed

definition demo_packed :: tensor_info where
  "demo_packed =
     \<lparr>ti_name = ''q.weight'', ti_dtype = U8, ti_shape = [2, 32], ti_num_elements = 64,
      ti_data_offsets = (0, 64), ti_file_offsets = (8, 72), ti_shard_name = ''m'', ti_shard_path = ''m''\<rparr>"

definition demo_scales :: tensor_info where
  "demo_scales =
     \<lparr>ti_name = ''q.weight_scale'', ti_dtype = F8E4M3, ti_shape = [2, 4], ti_num_elements = 8,
      ti_data_offsets = (64, 72), ti_file_offsets = (72, 80), ti_shard_name = ''m'', ti_shard_path = ''m''\<rparr>"

lemma nvfp4_spec_bytes_witness:
  "\<exists>s. nvfp4_from_tensors ''q'' demo_packed demo_scales (1 :: int) 1 = Inr s \<and>
       nv_cols s = 64 \<and> nv_packed_bytes s * 2 = 128 \<and> nv_scale_bytes s * 16 = 128"
proof -
  have "nvfp4_from_tensors ''q'' demo_packed demo_scales (1 :: int) 1
      = Inr \<lparr>nv_name = ''q'', nv_rows = 2, nv_cols = 64, nv_packed_bytes = 64, nv_scale_bytes = 8,
             nv_input_scale = 1, nv_output_scale = 1\<rparr>"
    by (simp add: nvfp4_from_tensors_def demo_packed_def demo_scales_def checked_mul_def u64_max_def
        QK_NVFP4_def QK_NVFP4_SUB_def data_len_bytes_def Let_def)
  moreover have "info_ok (\<lambda>_. Some (replicate 80 0)) demo_packed"
    "info_ok (\<lambda>_. Some (replicate 80 0)) demo_scales"
    by (simp_all add: info_ok_def demo_packed_def demo_scales_def data_len_bytes_def)
  ultimately show ?thesis
    using nvfp4_spec_bytes [of "''q''" demo_packed demo_scales 1 1] by (fastforce simp: QK_NVFP4_SUB_def)
qed

text \<open>
  The scale table grows strictly over the codes 1 to 126, so that a larger code never decodes
  to a smaller scale; code 127, which has no value, and the sign bit decode to what 0 does and to
  the code without it.
\<close>

theorem ue4m3_table_monotone:
  "(\<forall>a < 126. decode_ue4m3_with_half_lut a < decode_ue4m3_with_half_lut (Suc a)) \<and>
   decode_ue4m3_with_half_lut 0 = 0 \<and> decode_ue4m3_with_half_lut 127 = 0 \<and>
   decode_ue4m3_with_half_lut (b + 128) = decode_ue4m3_with_half_lut b"
proof -
  have "list_all (\<lambda>a. ue4m3_with_half_entry a < ue4m3_with_half_entry (Suc a)) [0..<126]"
    by code_simp
  then have "\<forall>a < 126. ue4m3_with_half_entry a < ue4m3_with_half_entry (Suc a)"
    by (simp add: list_all_iff)
  moreover have "decode_ue4m3_with_half_lut a = ue4m3_with_half_entry a" if "a < 128" for a
    using that by (simp add: decode_ue4m3_with_half_lut_def build_ue4m3_with_half_lut_def)
  moreover have "ue4m3_with_half_entry 0 = 0" "ue4m3_with_half_entry 127 = 0"
    by (simp_all add: ue4m3_with_half_entry_def)
  ultimately show ?thesis
    by (simp add: decode_ue4m3_with_half_lut_def)
qed

end
