(* ===== verification/ModelArch.thy ===== *)
theory ModelArch
  imports Quant
begin

text \<open>
  The model families (\<^verbatim>\<open>aegisllm-base/src/model\<close>) and the parts of the Hugging Face
  configuration they read (\<^verbatim>\<open>artifact.rs\<close>): detection of the architecture, the kind and
  attention pattern of every layer, head dimensions, and the sliced dimensions of nested-parameter
  checkpoints. A trait object is a value of \<open>architecture\<close> and its methods dispatch on it.
  \<open>None\<close> is a panic: a remainder or a quotient by zero. RoPE settings and the soft caps are
  floating-point values that are only passed on; they are left out.
\<close>

section \<open>Configuration\<close>

record hf_quantization_config =
  hq_quant_algo :: "string option"
  hq_quant_method :: "string option"
  hq_format :: "string option"

record hf_config =
  hc_architectures :: "string list option"
  hc_model_type :: string
  hc_hidden_size :: nat
  hc_intermediate_size :: "nat option"
  hc_num_hidden_layers :: nat
  hc_num_attention_heads :: nat
  hc_num_key_value_heads :: "nat option"
  hc_head_dim :: "nat option"
  hc_torch_dtype :: "string option"
  hc_quantization_config :: "hf_quantization_config option"
  hc_vocab_size :: "nat option"
  hc_sliding_window :: "nat option"
  hc_global_attn_every_n_layers :: "nat option"
  hc_layer_types :: "string list option"
  hc_global_head_dim :: "nat option"
  hc_num_global_key_value_heads :: "nat option"
  hc_enable_moe_block :: "bool option"
  hc_num_experts :: "nat option"
  hc_num_experts_per_tok :: "nat option"
  hc_shared_expert_intermediate_size :: "nat option"
  hc_num_shared_experts :: "nat option"
  hc_use_linear_attention :: "bool option"
  hc_num_linear_attention_layers :: "nat option"
  hc_linear_attn_every_n_layers :: "nat option"
  hc_full_attention_interval :: "nat option"
  hc_linear_num_key_heads :: "nat option"
  hc_linear_key_head_dim :: "nat option"
  hc_linear_value_head_dim :: "nat option"
  hc_linear_num_value_heads :: "nat option"
  hc_linear_conv_kernel_dim :: "nat option"
  hc_hybrid_override_pattern :: "string option"
  hc_effective_size :: "string option"

definition hf_config_default :: hf_config where
  "hf_config_default =
     \<lparr>hc_architectures = None, hc_model_type = '''', hc_hidden_size = 0, hc_intermediate_size = None,
      hc_num_hidden_layers = 0, hc_num_attention_heads = 0, hc_num_key_value_heads = None,
      hc_head_dim = None, hc_torch_dtype = None, hc_quantization_config = None, hc_vocab_size = None,
      hc_sliding_window = None, hc_global_attn_every_n_layers = None, hc_layer_types = None,
      hc_global_head_dim = None, hc_num_global_key_value_heads = None, hc_enable_moe_block = None,
      hc_num_experts = None, hc_num_experts_per_tok = None, hc_shared_expert_intermediate_size = None,
      hc_num_shared_experts = None, hc_use_linear_attention = None,
      hc_num_linear_attention_layers = None, hc_linear_attn_every_n_layers = None,
      hc_full_attention_interval = None, hc_linear_num_key_heads = None,
      hc_linear_key_head_dim = None, hc_linear_value_head_dim = None,
      hc_linear_num_value_heads = None, hc_linear_conv_kernel_dim = None,
      hc_hybrid_override_pattern = None, hc_effective_size = None\<rparr>"

definition unwrap_or :: "'a option \<Rightarrow> 'a \<Rightarrow> 'a" where
  "unwrap_or x d = (case x of None \<Rightarrow> d | Some v \<Rightarrow> v)"

lemma unwrap_or_simps [simp]: "unwrap_or None d = d" "unwrap_or (Some v) d = v"
  by (simp_all add: unwrap_or_def)

text \<open>Products and sums of \<^verbatim>\<open>usize\<close> wrap around in a release build.\<close>

definition wrap64 :: "nat \<Rightarrow> nat" where
  "wrap64 n = n mod (u64_max + 1)"

text \<open>\<^verbatim>\<open>Vec::get\<close>.\<close>

definition vec_get :: "'a list \<Rightarrow> nat \<Rightarrow> 'a option" where
  "vec_get xs i = (if i < length xs then Some (xs ! i) else None)"

text \<open>\<^verbatim>\<open>unwrap_or\<close> takes its default by value, so the quotient is computed even when
  \<^verbatim>\<open>head_dim\<close> is given.\<close>

definition artifact_head_dim :: "hf_config \<Rightarrow> nat option" where
  "artifact_head_dim config =
     (if hc_num_attention_heads config = 0 then None
      else Some (unwrap_or (hc_head_dim config)
                   (hc_hidden_size config div hc_num_attention_heads config)))"

definition infer_weight_quantization :: "hf_config \<Rightarrow> weight_quantization" where
  "infer_weight_quantization config =
     (let fallback = parse_guess (unwrap_or (hc_torch_dtype config) ''none'')
      in case hc_quantization_config config of
           None \<Rightarrow> fallback
         | Some qcfg \<Rightarrow>
             (case hq_quant_algo qcfg of
                Some quant \<Rightarrow> parse_guess quant
              | None \<Rightarrow>
                  (case hq_quant_method qcfg of
                     Some meth \<Rightarrow> parse_guess meth
                   | None \<Rightarrow>
                       (case hq_format qcfg of
                          Some fmt \<Rightarrow> parse_guess fmt
                        | None \<Rightarrow> fallback))))"

subsection \<open>Effective dimensions\<close>

record effective_dims =
  ed_hidden_size :: nat
  ed_intermediate_size :: "nat option"
  ed_is_sliced :: bool

fun bit_length :: "nat \<Rightarrow> nat" where
  "bit_length n = (if n = 0 then 0 else Suc (bit_length (n div 2)))"

declare bit_length.simps [simp del]

text \<open>\<^verbatim>\<open>n as f32\<close>: 24 significant bits, ties to even.\<close>

definition as_f32 :: "nat \<Rightarrow> nat" where
  "as_f32 n =
     (if bit_length n \<le> 24 then n
      else let u = 2 ^ (bit_length n - 24); q = n div u; r = n mod u
           in (if 2 * r > u \<or> (2 * r = u \<and> odd q) then q + 1 else q) * u)"

datatype slice_scale = HalfScale | FullScale

text \<open>
  \<^verbatim>\<open>((d as f32) * scale).round().max(1.0) as usize\<close>; the product by 0.5 or 1.0 is exact,
  \<^verbatim>\<open>round\<close> takes halves up and the cast saturates.
\<close>

definition scale_dim :: "slice_scale \<Rightarrow> nat \<Rightarrow> nat" where
  "scale_dim scale d =
     min u64_max (max 1 (case scale of HalfScale \<Rightarrow> (as_f32 d + 1) div 2 | FullScale \<Rightarrow> as_f32 d))"

definition effective_dims :: "hf_config \<Rightarrow> effective_dims" where
  "effective_dims config =
     (let full = \<lparr>ed_hidden_size = hc_hidden_size config,
                  ed_intermediate_size = hc_intermediate_size config, ed_is_sliced = False\<rparr>
      in case hc_effective_size config of
           None \<Rightarrow> full
         | Some label \<Rightarrow>
             (let l = to_ascii_lowercase label
              in case (if l = ''e2b'' \<or> l = ''2b'' then Some HalfScale
                       else if l = ''e4b'' \<or> l = ''4b'' then Some FullScale else None) of
                   None \<Rightarrow> full
                 | Some scale \<Rightarrow>
                     \<lparr>ed_hidden_size = scale_dim scale (hc_hidden_size config),
                      ed_intermediate_size = map_option (scale_dim scale) (hc_intermediate_size config),
                      ed_is_sliced = (scale = HalfScale)\<rparr>))"

section \<open>Architectures\<close>

datatype layer_kind =
    DenseDecoder
  | MoEDecoder (moe_num_experts: nat) (moe_top_k: nat) (moe_has_shared_expert: bool)
  | LinearAttentionDecoder
  | MambaDecoder
  | SlidingWindowDecoder (sw_window: nat)
  | GlobalDecoder

datatype attention_pattern =
    FullCausal
  | SlidingWindow (sw_size: nat)
  | LinearGatedDeltaNet
  | Mamba
  | NoAttention

datatype norm_pattern = PreOnly | PrePost

datatype architecture = LlamaArchitecture | Qwen3Architecture | Gemma4Architecture | Nemotron3Architecture

fun arch_name :: "architecture \<Rightarrow> string" where
  "arch_name LlamaArchitecture = ''llama''"
| "arch_name Qwen3Architecture = ''qwen3''"
| "arch_name Gemma4Architecture = ''gemma4''"
| "arch_name Nemotron3Architecture = ''nemotron3''"

fun arch_norm_pattern :: "architecture \<Rightarrow> norm_pattern" where
  "arch_norm_pattern LlamaArchitecture = PreOnly"
| "arch_norm_pattern Qwen3Architecture = PreOnly"
| "arch_norm_pattern Gemma4Architecture = PrePost"
| "arch_norm_pattern Nemotron3Architecture = PreOnly"

subsection \<open>Detection\<close>

definition try_from_architecture_name :: "string \<Rightarrow> architecture option" where
  "try_from_architecture_name n =
     (if str_contains n ''Llama'' \<or> str_contains n ''llama'' then Some LlamaArchitecture
      else if str_contains n ''Mistral'' \<or> str_contains n ''mistral'' then Some LlamaArchitecture
      else if str_contains n ''Qwen3'' \<or> str_contains n ''Qwen2'' then Some Qwen3Architecture
      else if str_contains n ''Gemma4'' \<or> str_contains n ''Gemma3'' then Some Gemma4Architecture
      else if str_contains n ''Nemotron'' \<or> str_contains n ''nemotron'' then Some Nemotron3Architecture
      else None)"

definition try_from_model_type :: "string \<Rightarrow> architecture option" where
  "try_from_model_type model_type =
     (let t = to_ascii_lowercase model_type
      in if str_contains t ''llama'' \<or> str_contains t ''mistral'' then Some LlamaArchitecture
         else if str_contains t ''qwen3'' \<or> str_contains t ''qwen2'' \<or> prefix ''qwen'' t
         then Some Qwen3Architecture
         else if str_contains t ''gemma4'' \<or> str_contains t ''gemma3'' \<or> prefix ''gemma'' t
         then Some Gemma4Architecture
         else if str_contains t ''nemotron'' \<or> str_contains t ''mamba'' then Some Nemotron3Architecture
         else None)"

definition detect_architecture :: "hf_config \<Rightarrow> architecture aegis_result" where
  "detect_architecture config =
     (case (case hc_architectures config of
              None \<Rightarrow> None
            | Some archs \<Rightarrow> find_map try_from_architecture_name archs) of
        Some a \<Rightarrow> Inr a
      | None \<Rightarrow>
          (case try_from_model_type (hc_model_type config) of
             Some a \<Rightarrow> Inr a
           | None \<Rightarrow> Inl (Unsupported (''unknown architecture model_type=`''
                            @ hc_model_type config @ ''`''))))"

subsection \<open>Llama\<close>

definition llama_layer_kind :: "nat \<Rightarrow> hf_config \<Rightarrow> layer_kind" where
  "llama_layer_kind layer_idx config =
     (case hc_sliding_window config of
        Some w \<Rightarrow> if w > 0 then SlidingWindowDecoder w else DenseDecoder
      | None \<Rightarrow> DenseDecoder)"

definition llama_attention_pattern :: "nat \<Rightarrow> hf_config \<Rightarrow> attention_pattern" where
  "llama_attention_pattern layer_idx config =
     (case llama_layer_kind layer_idx config of
        SlidingWindowDecoder window \<Rightarrow> SlidingWindow window
      | _ \<Rightarrow> FullCausal)"

subsection \<open>Gemma 4\<close>

definition DEFAULT_WINDOW :: nat where "DEFAULT_WINDOW = 1024"

definition DEFAULT_GLOBAL_EVERY_N :: nat where "DEFAULT_GLOBAL_EVERY_N = 5"

definition is_global_layer :: "nat \<Rightarrow> hf_config \<Rightarrow> bool" where
  "is_global_layer layer_idx config =
     (case Option.bind (hc_layer_types config) (\<lambda>types. vec_get types layer_idx) of
        Some t \<Rightarrow> t = ''full_attention''
      | None \<Rightarrow>
          (let every_n = unwrap_or (hc_global_attn_every_n_layers config) DEFAULT_GLOBAL_EVERY_N
           in if every_n = 0 then False else layer_idx mod every_n = 0))"

definition is_moe_layer :: "nat \<Rightarrow> hf_config \<Rightarrow> bool" where
  "is_moe_layer layer_idx config \<longleftrightarrow>
     unwrap_or (hc_enable_moe_block config) False \<and> unwrap_or (hc_num_experts config) 0 > 1"

definition head_dim_for_layer :: "nat \<Rightarrow> hf_config \<Rightarrow> nat option" where
  "head_dim_for_layer layer_idx config =
     (if is_global_layer layer_idx config
      then (case hc_global_head_dim config of Some d \<Rightarrow> Some d | None \<Rightarrow> hc_head_dim config)
      else hc_head_dim config)"

definition gemma_sliding_window :: "hf_config \<Rightarrow> nat" where
  "gemma_sliding_window config = max (unwrap_or (hc_sliding_window config) DEFAULT_WINDOW) 1"

definition gemma_layer_kind :: "nat \<Rightarrow> hf_config \<Rightarrow> layer_kind" where
  "gemma_layer_kind layer_idx config =
     (if is_moe_layer layer_idx config
      then MoEDecoder (unwrap_or (hc_num_experts config) 1) (unwrap_or (hc_num_experts_per_tok config) 1)
             (unwrap_or (hc_num_shared_experts config) 0 > 0)
      else if is_global_layer layer_idx config then GlobalDecoder
      else SlidingWindowDecoder (gemma_sliding_window config))"

definition gemma_attention_pattern :: "nat \<Rightarrow> hf_config \<Rightarrow> attention_pattern" where
  "gemma_attention_pattern layer_idx config =
     (if is_global_layer layer_idx config then FullCausal
      else SlidingWindow (gemma_sliding_window config))"

subsection \<open>Qwen 3\<close>

record gdn_dims =
  gd_num_k_heads :: nat
  gd_num_v_heads :: nat
  gd_k_head_dim :: nat
  gd_v_head_dim :: nat
  gd_conv_kernel :: nat

definition gdn_dims :: "hf_config \<Rightarrow> gdn_dims option" where
  "gdn_dims config =
     Option.bind (hc_linear_num_key_heads config) (\<lambda>num_k_heads.
     Option.bind (hc_linear_key_head_dim config) (\<lambda>k_head_dim.
       Some \<lparr>gd_num_k_heads = num_k_heads,
             gd_num_v_heads = unwrap_or (hc_linear_num_value_heads config) num_k_heads,
             gd_k_head_dim = k_head_dim,
             gd_v_head_dim = unwrap_or (hc_linear_value_head_dim config) k_head_dim,
             gd_conv_kernel = unwrap_or (hc_linear_conv_kernel_dim config) 4\<rparr>))"

definition state_elems_per_v_head :: "gdn_dims \<Rightarrow> nat" where
  "state_elems_per_v_head d = wrap64 (gd_k_head_dim d * gd_v_head_dim d)"

definition qkvz_proj_dim :: "gdn_dims \<Rightarrow> nat" where
  "qkvz_proj_dim d =
     wrap64 (2 * gd_num_k_heads d * gd_k_head_dim d + 2 * gd_num_v_heads d * gd_v_head_dim d)"

definition ba_proj_dim :: "gdn_dims \<Rightarrow> nat" where
  "ba_proj_dim d = wrap64 (2 * gd_num_v_heads d)"

definition conv_channels :: "gdn_dims \<Rightarrow> nat" where
  "conv_channels d =
     wrap64 (gd_num_k_heads d * gd_k_head_dim d * 2 + gd_num_v_heads d * gd_v_head_dim d)"

text \<open>The legacy flags; the remainder by a frequency of zero is a panic.\<close>

definition legacy_linear_attention :: "nat \<Rightarrow> hf_config \<Rightarrow> bool option" where
  "legacy_linear_attention layer_idx config =
     (if hc_use_linear_attention config \<noteq> Some True then Some False
      else (case hc_num_linear_attention_layers config of
              Some n \<Rightarrow> Some (layer_idx < n)
            | None \<Rightarrow>
                (case hc_linear_attn_every_n_layers config of
                   Some freq \<Rightarrow> if freq = 0 then None else Some (layer_idx mod freq \<noteq> freq - 1)
                 | None \<Rightarrow> Some False)))"

definition is_linear_attention_layer :: "nat \<Rightarrow> hf_config \<Rightarrow> bool option" where
  "is_linear_attention_layer layer_idx config =
     (case Option.bind (hc_layer_types config) (\<lambda>types. vec_get types layer_idx) of
        Some t \<Rightarrow> Some (t = ''linear_attention'')
      | None \<Rightarrow>
          (case hc_full_attention_interval config of
             Some interval \<Rightarrow>
               if interval > 0 then Some (layer_idx mod interval \<noteq> interval - 1)
               else legacy_linear_attention layer_idx config
           | None \<Rightarrow> legacy_linear_attention layer_idx config))"

definition qwen_layer_kind :: "nat \<Rightarrow> hf_config \<Rightarrow> layer_kind" where
  "qwen_layer_kind layer_idx config =
     (let num_experts = unwrap_or (hc_num_experts config) 0
      in if num_experts > 1
         then MoEDecoder num_experts (unwrap_or (hc_num_experts_per_tok config) 2)
                (unwrap_or (hc_num_shared_experts config) 0 > 0
                   \<or> hc_shared_expert_intermediate_size config \<noteq> None)
         else DenseDecoder)"

definition qwen_attention_pattern :: "nat \<Rightarrow> hf_config \<Rightarrow> attention_pattern option" where
  "qwen_attention_pattern layer_idx config =
     map_option (\<lambda>linear. if linear then LinearGatedDeltaNet else FullCausal)
       (is_linear_attention_layer layer_idx config)"

subsection \<open>Nemotron 3\<close>

definition NEMOTRON3_30B_PATTERN :: string where
  "NEMOTRON3_30B_PATTERN = ''MEMEM*EMEMEM*EMEMEM*EMEMEM*EMEMEM*EMEMEMEM*EMEMEMEME''"

definition layer_char :: "nat \<Rightarrow> hf_config \<Rightarrow> char" where
  "layer_char layer_idx config =
     unwrap_or (vec_get (unwrap_or (hc_hybrid_override_pattern config) NEMOTRON3_30B_PATTERN) layer_idx)
       (CHR ''*'')"

definition nemotron_layer_kind :: "nat \<Rightarrow> hf_config \<Rightarrow> layer_kind" where
  "nemotron_layer_kind layer_idx config =
     (let c = layer_char layer_idx config
      in if c = CHR ''M'' then MambaDecoder
         else if c = CHR ''E''
         then MoEDecoder (unwrap_or (hc_num_experts config) 128)
                (unwrap_or (hc_num_experts_per_tok config) 6)
                (unwrap_or (hc_num_shared_experts config) 0 > 0)
         else DenseDecoder)"

definition nemotron_attention_pattern :: "nat \<Rightarrow> hf_config \<Rightarrow> attention_pattern" where
  "nemotron_attention_pattern layer_idx config =
     (let c = layer_char layer_idx config
      in if c = CHR ''M'' then Mamba else if c = CHR ''E'' then NoAttention else FullCausal)"

subsection \<open>Dispatch\<close>

fun arch_layer_kind :: "architecture \<Rightarrow> nat \<Rightarrow> hf_config \<Rightarrow> layer_kind" where
  "arch_layer_kind LlamaArchitecture i config = llama_layer_kind i config"
| "arch_layer_kind Qwen3Architecture i config = qwen_layer_kind i config"
| "arch_layer_kind Gemma4Architecture i config = gemma_layer_kind i config"
| "arch_layer_kind Nemotron3Architecture i config = nemotron_layer_kind i config"

fun arch_attention_pattern :: "architecture \<Rightarrow> nat \<Rightarrow> hf_config \<Rightarrow> attention_pattern option" where
  "arch_attention_pattern LlamaArchitecture i config = Some (llama_attention_pattern i config)"
| "arch_attention_pattern Qwen3Architecture i config = qwen_attention_pattern i config"
| "arch_attention_pattern Gemma4Architecture i config = Some (gemma_attention_pattern i config)"
| "arch_attention_pattern Nemotron3Architecture i config = Some (nemotron_attention_pattern i config)"

section \<open>Layer patterns\<close>

text \<open>The layers below \<open>n\<close> that run full attention.\<close>

definition full_layers :: "hf_config \<Rightarrow> nat \<Rightarrow> nat list" where
  "full_layers config n = filter (\<lambda>i. is_linear_attention_layer i config = Some False) [0..<n]"

lemma filter_mod_last:
  "0 < k \<Longrightarrow> filter (\<lambda>i. i mod k = k - 1) [0..<m * k] = map (\<lambda>j. j * k + (k - 1)) [0..<m]"
proof (induction m)
  case (Suc m)
  have "filter (\<lambda>i. i mod k = k - 1) [m * k..<Suc m * k] = [m * k + (k - 1)]"
  proof -
    have split: "[m * k..<Suc m * k] = [m * k..<m * k + (k - 1)] @ [m * k + (k - 1)]"
      using Suc.prems by (simp add: upt_Suc_append [symmetric] algebra_simps)
    have "filter (\<lambda>i. i mod k = k - 1) [m * k..<m * k + (k - 1)] = []"
    proof (rule filter_False, safe)
      fix i assume i: "i \<in> set [m * k..<m * k + (k - 1)]" "i mod k = k - 1"
      then obtain d where "i = m * k + d" "d < k - 1"
        by (metis add_diff_inverse_nat atLeastLessThan_iff atLeastLessThan_upt linorder_not_le
            nat_add_left_cancel_less)
      with i(2) show False by simp
    qed
    moreover have "(m * k + (k - 1)) mod k = k - 1"
      using Suc.prems by (subst mod_mult_self3) simp
    ultimately show ?thesis unfolding split by (simp del: diff_Suc_1)
  qed
  moreover have "[0..<Suc m * k] = [0..<m * k] @ [m * k..<Suc m * k]"
    by (rule upt_join [symmetric]) auto
  ultimately show ?case using Suc by simp
qed simp

text \<open>
  With a full-attention interval and no per-layer list, exactly the last layer of every group of
  that many layers runs full attention.
\<close>

theorem interval_full_layers:
  assumes "hc_layer_types config = None" "hc_full_attention_interval config = Some k" "0 < k"
  shows "full_layers config (m * k) = map (\<lambda>j. j * k + (k - 1)) [0..<m]"
  using assms filter_mod_last [of k m] by (simp add: full_layers_def is_linear_attention_layer_def)

lemma interval_full_layers_witness:
  "full_layers (hf_config_default\<lparr>hc_full_attention_interval := Some 4\<rparr>) (3 * 4) = [3, 7, 11]"
  by (subst interval_full_layers) (simp_all add: hf_config_default_def upt_rec)

lemma bit_length_le: "n < 2 ^ k \<Longrightarrow> bit_length n \<le> k"
proof (induction k arbitrary: n)
  case 0
  then show ?case by (simp add: bit_length.simps)
next
  case (Suc k)
  then have "n div 2 < 2 ^ k" by simp
  with Suc.IH [of "n div 2"] show ?case by (subst bit_length.simps) simp
qed

lemma as_f32_exact: "n < 2 ^ 24 \<Longrightarrow> as_f32 n = n"
  by (simp add: as_f32_def bit_length_le)

text \<open>
  The two-billion slice of a nested-parameter checkpoint has half of the hidden and of the
  intermediate size, rounded up and never zero, for every size that \<^verbatim>\<open>f32\<close> holds exactly.
\<close>

theorem e2b_slice_halves:
  assumes "hc_effective_size config = Some label" "to_ascii_lowercase label \<in> {''e2b'', ''2b''}"
    and "hc_hidden_size config < 2 ^ 24" "hc_intermediate_size config = Some d" "d < 2 ^ 24"
  shows "effective_dims config =
    \<lparr>ed_hidden_size = max 1 ((hc_hidden_size config + 1) div 2),
     ed_intermediate_size = Some (max 1 ((d + 1) div 2)), ed_is_sliced = True\<rparr>"
proof -
  have "scale_dim HalfScale n = max 1 ((n + 1) div 2)" if "n < 2 ^ 24" for n
    using that by (simp add: scale_dim_def as_f32_exact u64_max_def min_def)
  then show ?thesis using assms by (auto simp: effective_dims_def Let_def)
qed

lemma e2b_slice_halves_witness:
  "effective_dims (hf_config_default
      \<lparr>hc_hidden_size := 4097, hc_intermediate_size := Some 16384, hc_effective_size := Some ''E2B''\<rparr>)
   = \<lparr>ed_hidden_size = 2049, ed_intermediate_size = Some 8192, ed_is_sliced = True\<rparr>"
proof -
  have "to_ascii_lowercase ''E2B'' = ''e2b''" by code_simp
  then show ?thesis
    by (subst e2b_slice_halves [where label = "''E2B''" and d = 16384])
      (simp_all add: hf_config_default_def)
qed

text \<open>
  A Gemma layer that is not global never attends to the whole context: without a window it
  looks back 1024 tokens, and with the window 0, which the configuration documents as full causal
  attention, at the last token only.
\<close>

theorem gemma_window_never_full:
  assumes "\<not> is_global_layer i config"
  shows "gemma_attention_pattern i config =
    SlidingWindow (case hc_sliding_window config of None \<Rightarrow> 1024 | Some w \<Rightarrow> max w 1)"
  using assms
  by (simp add: gemma_attention_pattern_def gemma_sliding_window_def DEFAULT_WINDOW_def split: option.split)

lemma gemma_window_never_full_witness:
  "gemma_attention_pattern 1 (hf_config_default\<lparr>hc_sliding_window := Some 0\<rparr>) = SlidingWindow 1"
  by (subst gemma_window_never_full)
    (simp_all add: is_global_layer_def hf_config_default_def DEFAULT_GLOBAL_EVERY_N_def)

text \<open>
  A linear-attention frequency of zero, with the legacy flag set and nothing of higher
  priority, makes every query for a layer panic.
\<close>

theorem zero_frequency_panics:
  assumes "hc_layer_types config = None" "hc_full_attention_interval config = None"
    "hc_use_linear_attention config = Some True" "hc_num_linear_attention_layers config = None"
    "hc_linear_attn_every_n_layers config = Some 0"
  shows "arch_attention_pattern Qwen3Architecture i config = None"
  using assms
  by (simp add: qwen_attention_pattern_def is_linear_attention_layer_def legacy_linear_attention_def)

lemma zero_frequency_panics_witness:
  "arch_attention_pattern Qwen3Architecture 0
     (hf_config_default\<lparr>hc_use_linear_attention := Some True, hc_linear_attn_every_n_layers := Some 0\<rparr>)
   = None"
  by (rule zero_frequency_panics) (simp_all add: hf_config_default_def)

end
