(* ===== verification/Graph.thy ===== *)
theory Graph
  imports ModelArch
begin

text \<open>
  The model graph (\<^verbatim>\<open>aegisllm-base/src/graph.rs\<close>): the regions of a model in load
  order, the tensors the registry has for every probed name, and the per-layer metadata. An
  artifact is its configuration and its tensor registry. The floating-point fields of the graph
  (soft caps and the embedding scale) are passed on unchanged by the code and left out.
\<close>

section \<open>Types\<close>

record model_artifact =
  ma_config :: hf_config
  ma_tensors :: tensor_map

type_synonym region_id = string

datatype graph_region_kind =
    RkTokenEmbedding | RkTransformerBlock | RkAttention | RkMlp | RkFinalNorm | RkLmHead | RkKvCache

datatype tensor_role =
    TrTokenEmbedding | TrAttentionNorm | TrPostAttentionNorm | TrPostMlpNorm
  | TrQuery | TrKey | TrValue | TrOutput | TrMlpNorm | TrMlpPreNorm | TrGate | TrUp | TrDown
  | TrFinalNorm | TrLmHead | TrQNorm | TrKNorm | TrWeightScale | TrInputScale | TrOutputScale
  | TrMoeRouter | TrMoeSharedGate | TrMoeSharedUp | TrMoeSharedDown
  | TrSsmInProj | TrSsmOutProj | TrSsmA | TrSsmD | TrSsmDt | TrSsmConv1d | TrMoeSharedExpertGate
  | TrGdnInProjQkv | TrGdnInProjZ | TrGdnInProjB | TrGdnInProjA | TrGdnConv1d | TrGdnALog
  | TrGdnDtBias | TrGdnNorm | TrGdnOutProj | TrOther

record graph_tensor =
  gt_role :: tensor_role
  gt_info :: tensor_info

record graph_region =
  gr_id :: region_id
  gr_kind :: graph_region_kind
  gr_layer_index :: "nat option"
  gr_tensors :: "graph_tensor list"

record layer_metadata =
  lm_layer_idx :: nat
  lm_kind :: layer_kind
  lm_attention_pattern :: attention_pattern
  lm_head_dim :: nat
  lm_num_kv_heads :: nat

record model_graph =
  mg_model_type :: string
  mg_architecture :: string
  mg_hidden_size :: nat
  mg_intermediate_size :: "nat option"
  mg_num_layers :: nat
  mg_num_attention_heads :: nat
  mg_num_kv_heads :: nat
  mg_head_dim :: nat
  mg_vocab_size :: "nat option"
  mg_weight_quantization :: weight_quantization
  mg_regions :: "graph_region list"
  mg_layer_metadata :: "layer_metadata list"
  mg_norm_pattern :: norm_pattern
  mg_is_sliced :: bool
  mg_text_prefix :: string

text \<open>Sums of byte counts in \<^verbatim>\<open>u64\<close> wrap around in a release build.\<close>

definition sum_u64 :: "nat list \<Rightarrow> nat" where
  "sum_u64 xs = wrap64 (sum_list xs)"

definition weight_bytes :: "graph_region \<Rightarrow> nat" where
  "weight_bytes region = sum_u64 (map (\<lambda>t. data_len_bytes (gt_info t)) (gr_tensors region))"

definition total_weight_bytes :: "model_graph \<Rightarrow> nat" where
  "total_weight_bytes graph = sum_u64 (map weight_bytes (mg_regions graph))"

definition graph_layer :: "model_graph \<Rightarrow> nat \<Rightarrow> layer_metadata option" where
  "graph_layer graph idx = vec_get (mg_layer_metadata graph) idx"

section \<open>Collecting tensors\<close>

definition detect_text_prefix :: "model_artifact \<Rightarrow> string" where
  "detect_text_prefix artifact =
     (if registry_has (ma_tensors artifact) ''model.language_model.embed_tokens.weight''
      then ''model.language_model.'' else ''model.'')"

definition push_single_tensor_region ::
  "graph_region list \<Rightarrow> model_artifact \<Rightarrow> string \<Rightarrow> graph_region_kind \<Rightarrow> nat option \<Rightarrow> tensor_role
     \<Rightarrow> string list \<Rightarrow> graph_region list" where
  "push_single_tensor_region regions artifact i kind layer_index role names =
     (case find_map (registry_get (ma_tensors artifact)) names of
        None \<Rightarrow> regions
      | Some info \<Rightarrow>
          regions @ [\<lparr>gr_id = i, gr_kind = kind, gr_layer_index = layer_index,
                      gr_tensors = [\<lparr>gt_role = role, gt_info = info\<rparr>]\<rparr>])"

definition add_known_tensor ::
  "model_artifact \<Rightarrow> tensor_role \<Rightarrow> string \<Rightarrow> graph_tensor list \<Rightarrow> graph_tensor list" where
  "add_known_tensor artifact role name tensors =
     (case registry_get (ma_tensors artifact) name of
        None \<Rightarrow> tensors
      | Some info \<Rightarrow> tensors @ [\<lparr>gt_role = role, gt_info = info\<rparr>])"

definition add_quant_aux_tensors ::
  "model_artifact \<Rightarrow> string \<Rightarrow> graph_tensor list \<Rightarrow> graph_tensor list" where
  "add_quant_aux_tensors artifact p tensors =
     add_known_tensor artifact TrInputScale (p @ ''.input_scale'')
       (add_known_tensor artifact TrOutputScale (p @ ''.weight_scale_2'')
         (add_known_tensor artifact TrWeightScale (p @ ''.weight_scale'') tensors))"

text \<open>
  The body of a layer is a sequence of calls of the two helpers; \<open>Known\<close> and \<open>Aux\<close> are one call
  each, with the name behind the layer prefix, and \<open>run_probes\<close> makes them in order.
\<close>

datatype probe = Known tensor_role string | Aux string

fun run_probe :: "model_artifact \<Rightarrow> string \<Rightarrow> probe \<Rightarrow> graph_tensor list \<Rightarrow> graph_tensor list" where
  "run_probe artifact p (Known role name) tensors = add_known_tensor artifact role (p @ name) tensors"
| "run_probe artifact p (Aux name) tensors = add_quant_aux_tensors artifact (p @ name) tensors"

definition run_probes :: "model_artifact \<Rightarrow> string \<Rightarrow> probe list \<Rightarrow> graph_tensor list \<Rightarrow> graph_tensor list" where
  "run_probes artifact p probes tensors = fold (run_probe artifact p) probes tensors"

definition attention_probes :: "probe list" where
  "attention_probes =
     [Known TrAttentionNorm ''.input_layernorm.weight'',
      Known TrQuery ''.self_attn.q_proj.weight'', Aux ''.self_attn.q_proj'',
      Known TrQNorm ''.self_attn.q_norm.weight'',
      Known TrKey ''.self_attn.k_proj.weight'', Aux ''.self_attn.k_proj'',
      Known TrKNorm ''.self_attn.k_norm.weight'',
      Known TrValue ''.self_attn.v_proj.weight'', Aux ''.self_attn.v_proj'',
      Known TrOutput ''.self_attn.o_proj.weight'', Aux ''.self_attn.o_proj'']"

definition norm_probes :: "bool \<Rightarrow> probe list" where
  "norm_probes is_gemma4 =
     (if is_gemma4
      then [Known TrPostAttentionNorm ''.post_attention_layernorm.weight'',
            Known TrMlpNorm ''.pre_feedforward_layernorm.weight'']
      else [Known TrMlpNorm ''.post_attention_layernorm.weight''])"

definition mlp_probes :: "probe list" where
  "mlp_probes =
     [Known TrGate ''.mlp.gate_proj.weight'', Aux ''.mlp.gate_proj'',
      Known TrUp ''.mlp.up_proj.weight'', Aux ''.mlp.up_proj'',
      Known TrDown ''.mlp.down_proj.weight'', Aux ''.mlp.down_proj'',
      Known TrPostMlpNorm ''.post_mlp_norm.weight'',
      Known TrPostMlpNorm ''.post_feedforward_layernorm.weight'',
      Known TrMoeRouter ''.router.proj.weight'',
      Known TrMoeRouter ''.mlp.router_logits.weight'',
      Known TrMoeRouter ''.mlp.gate.weight'',
      Known TrMoeRouter ''.block_sparse_moe.gate.weight'']"

definition expert_probes :: "nat \<Rightarrow> probe list" where
  "expert_probes expert_idx =
     concat (map (\<lambda>base.
       concat (map (\<lambda>(proj, role).
           [Known role (base @ ''.'' @ proj @ ''.weight''), Aux (base @ ''.'' @ proj)])
         [(''gate_proj'', TrGate), (''up_proj'', TrUp), (''down_proj'', TrDown)]))
       [''.experts.'' @ show_nat expert_idx, ''.mlp.experts.'' @ show_nat expert_idx])"

definition all_expert_probes :: "nat \<Rightarrow> probe list" where
  "all_expert_probes num_experts =
     (if num_experts > 1 then concat (map expert_probes [0..<num_experts]) else [])"

definition shared_probes :: "probe list" where
  "shared_probes =
     [Known TrMoeSharedGate ''.mlp.shared_expert.gate_proj.weight'', Aux ''.mlp.shared_expert.gate_proj'',
      Known TrMoeSharedUp ''.mlp.shared_expert.up_proj.weight'', Aux ''.mlp.shared_expert.up_proj'',
      Known TrMoeSharedDown ''.mlp.shared_expert.down_proj.weight'', Aux ''.mlp.shared_expert.down_proj'',
      Known TrMoeSharedExpertGate ''.mlp.shared_expert_gate.weight'']"

definition recurrent_probes :: "probe list" where
  "recurrent_probes =
     [Known TrGdnInProjQkv ''.linear_attn.in_proj_qkv.weight'', Aux ''.linear_attn.in_proj_qkv'',
      Known TrGdnInProjZ ''.linear_attn.in_proj_z.weight'', Aux ''.linear_attn.in_proj_z'',
      Known TrGdnInProjB ''.linear_attn.in_proj_b.weight'',
      Known TrGdnInProjA ''.linear_attn.in_proj_a.weight'',
      Known TrGdnConv1d ''.linear_attn.conv1d.weight'',
      Known TrGdnALog ''.linear_attn.A_log'',
      Known TrGdnDtBias ''.linear_attn.dt_bias'',
      Known TrGdnNorm ''.linear_attn.norm.weight'',
      Known TrGdnOutProj ''.linear_attn.out_proj.weight'', Aux ''.linear_attn.out_proj'',
      Known TrSsmInProj ''.mamba.in_proj.weight'',
      Known TrSsmOutProj ''.mamba.out_proj.weight'',
      Known TrSsmA ''.mamba.A_log'',
      Known TrSsmD ''.mamba.D'',
      Known TrSsmDt ''.mamba.dt_bias'',
      Known TrSsmConv1d ''.mamba.conv1d.weight'']"

definition layer_probes :: "bool \<Rightarrow> nat \<Rightarrow> probe list" where
  "layer_probes is_gemma4 num_experts =
     attention_probes @ norm_probes is_gemma4 @ mlp_probes @ all_expert_probes num_experts
       @ shared_probes @ recurrent_probes"

section \<open>Building the graph\<close>

definition layer_region :: "model_artifact \<Rightarrow> architecture \<Rightarrow> string \<Rightarrow> nat \<Rightarrow> graph_region" where
  "layer_region artifact arch text_prefix layer =
     \<lparr>gr_id = ''layer.'' @ show_nat layer, gr_kind = RkTransformerBlock, gr_layer_index = Some layer,
      gr_tensors =
        run_probes artifact (text_prefix @ ''layers.'' @ show_nat layer)
          (layer_probes (arch_norm_pattern arch = PrePost)
            (unwrap_or (hc_num_experts (ma_config artifact)) 0)) []\<rparr>"

definition layer_meta :: "model_artifact \<Rightarrow> architecture \<Rightarrow> nat \<Rightarrow> layer_metadata option" where
  "layer_meta artifact arch layer =
     (let config = ma_config artifact;
          is_gemma4 = (arch_norm_pattern arch = PrePost);
          base_kv_heads = unwrap_or (hc_num_key_value_heads config) (hc_num_attention_heads config)
      in Option.bind (case (if is_gemma4 then head_dim_for_layer layer config else None) of
                        Some d \<Rightarrow> Some d
                      | None \<Rightarrow> artifact_head_dim config) (\<lambda>layer_head_dim.
         Option.bind (arch_attention_pattern arch layer config) (\<lambda>pattern.
           Some \<lparr>lm_layer_idx = layer, lm_kind = arch_layer_kind arch layer config,
                 lm_attention_pattern = pattern, lm_head_dim = layer_head_dim,
                 lm_num_kv_heads =
                   (if is_gemma4 \<and> is_global_layer layer config
                    then unwrap_or (hc_num_global_key_value_heads config) base_kv_heads
                    else base_kv_heads)\<rparr>)))"

fun layers_loop ::
  "model_artifact \<Rightarrow> architecture \<Rightarrow> string \<Rightarrow> nat list \<Rightarrow> graph_region list \<Rightarrow> layer_metadata list
     \<Rightarrow> (graph_region list \<times> layer_metadata list) option" where
  "layers_loop artifact arch text_prefix [] regions metas = Some (regions, metas)"
| "layers_loop artifact arch text_prefix (layer # layers) regions metas =
     (case layer_meta artifact arch layer of
        None \<Rightarrow> None
      | Some meta \<Rightarrow>
          layers_loop artifact arch text_prefix layers
            (regions @ [layer_region artifact arch text_prefix layer]) (metas @ [meta]))"

definition head_counts :: "hf_config \<Rightarrow> nat \<Rightarrow> nat \<times> nat" where
  "head_counts config head_dim =
     (let eff = effective_dims config;
          orig_q = hc_num_attention_heads config;
          orig_kv = unwrap_or (hc_num_key_value_heads config) orig_q
      in if ed_is_sliced eff \<and> head_dim > 0
         then let eff_q = ed_hidden_size eff div head_dim
              in (eff_q, max (wrap64 (eff_q * orig_kv) div orig_q) 1)
         else (orig_q, orig_kv))"

definition build_llama_style :: "model_artifact \<Rightarrow> architecture \<Rightarrow> model_graph option" where
  "build_llama_style artifact arch =
     (let config = ma_config artifact;
          text_prefix = detect_text_prefix artifact;
          embed_candidate = text_prefix @ ''embed_tokens.weight'';
          regions = push_single_tensor_region [] artifact ''embed'' RkTokenEmbedding None TrTokenEmbedding
                      [embed_candidate, ''model.embed_tokens.weight'']
      in Option.bind (layers_loop artifact arch text_prefix [0..<hc_num_hidden_layers config] regions [])
           (\<lambda>(regions, layer_metadata).
             let regions = push_single_tensor_region regions artifact ''final_norm'' RkFinalNorm None
                             TrFinalNorm [text_prefix @ ''norm.weight'', ''model.norm.weight''];
                 regions = push_single_tensor_region regions artifact ''lm_head'' RkLmHead None TrLmHead
                             [''lm_head.weight'', embed_candidate, ''model.embed_tokens.weight'']
             in Option.bind (artifact_head_dim config)
                  (\<lambda>head_dim.
                    let eff = effective_dims config; heads = head_counts config head_dim
                    in Some \<lparr>mg_model_type = hc_model_type config, mg_architecture = arch_name arch,
                             mg_hidden_size = ed_hidden_size eff,
                             mg_intermediate_size = ed_intermediate_size eff,
                             mg_num_layers = hc_num_hidden_layers config,
                             mg_num_attention_heads = fst heads, mg_num_kv_heads = snd heads,
                             mg_head_dim = head_dim, mg_vocab_size = hc_vocab_size config,
                             mg_weight_quantization = infer_weight_quantization config,
                             mg_regions = regions, mg_layer_metadata = layer_metadata,
                             mg_norm_pattern = arch_norm_pattern arch,
                             mg_is_sliced = ed_is_sliced eff, mg_text_prefix = text_prefix\<rparr>)))"

definition graph_from_artifact :: "model_artifact \<Rightarrow> model_graph aegis_result option" where
  "graph_from_artifact artifact =
     (case detect_architecture (ma_config artifact) of
        Inl e \<Rightarrow> Some (Inl e)
      | Inr arch \<Rightarrow> map_option Inr (build_llama_style artifact arch))"

section \<open>Names\<close>

fun probe_names :: "probe \<Rightarrow> string list" where
  "probe_names (Known role name) = [name]"
| "probe_names (Aux name) = [name @ ''.weight_scale'', name @ ''.weight_scale_2'', name @ ''.input_scale'']"

definition names_of :: "probe list \<Rightarrow> string list" where
  "names_of probes = concat (map probe_names probes)"

lemma names_of_simps [simp]:
  "names_of [] = []" "names_of (p # ps) = probe_names p @ names_of ps"
  "names_of (ps @ qs) = names_of ps @ names_of qs"
  by (simp_all add: names_of_def)

definition static_names :: "bool \<Rightarrow> string list" where
  "static_names g = names_of (attention_probes @ norm_probes g @ mlp_probes @ shared_probes @ recurrent_probes)"

lemma distinct_static: "distinct (static_names g)"
  by (cases g; simp only:; code_simp)

lemma static_not_expert:
  "list_all (\<lambda>n. \<not> prefix ''.experts.'' n \<and> \<not> prefix ''.mlp.experts.'' n) (static_names g)"
  by (cases g; simp only:; code_simp)

definition expert_suffixes :: "string list" where
  "expert_suffixes =
     names_of (concat (map (\<lambda>proj. [Known TrGate (proj @ ''.weight''), Aux proj])
       [''gate_proj'', ''up_proj'', ''down_proj'']))"

lemma distinct_expert_suffixes: "distinct expert_suffixes"
  by code_simp

definition numbered :: "string \<Rightarrow> nat \<Rightarrow> string \<Rightarrow> string" where
  "numbered base i r = base @ show_nat i @ CHR ''.'' # r"

lemma expert_names:
  "names_of (expert_probes i) =
     map (numbered ''.experts.'' i) expert_suffixes @ map (numbered ''.mlp.experts.'' i) expert_suffixes"
  by (simp add: expert_probes_def expert_suffixes_def numbered_def)

lemma show_nat_no_dot: "CHR ''.'' \<notin> set (show_nat n)"
proof (induction n rule: show_nat.induct)
  case (1 n)
  have "CHR ''.'' \<noteq> digit_char d" if "d < 10" for d
  proof
    assume "CHR ''.'' = digit_char d"
    then have "(of_char (CHR ''.'') :: nat) = of_char (digit_char d)" by simp
    then show False using that by (simp add: digit_char_def)
  qed
  with 1 show ?case by (subst show_nat.simps) (auto simp del: show_nat.simps)
qed

lemma append_sep_inject:
  "a \<notin> set xs \<Longrightarrow> a \<notin> set ys \<Longrightarrow> xs @ a # r = ys @ a # s \<longleftrightarrow> xs = ys \<and> r = s"
proof (induction xs arbitrary: ys)
  case Nil
  then show ?case by (cases ys) auto
next
  case (Cons x xs)
  then show ?case by (cases ys) auto
qed

lemma numbered_inject:
  "numbered base i r = numbered base j s \<longleftrightarrow> i = j \<and> r = s"
  by (auto simp: numbered_def append_sep_inject [OF show_nat_no_dot show_nat_no_dot] dest: show_nat_inj)

lemma numbered_bases: "numbered ''.experts.'' i r \<noteq> numbered ''.mlp.experts.'' j s"
  by (simp add: numbered_def)

lemma distinct_all_experts: "distinct (names_of (concat (map expert_probes [0..<n])))"
proof (induction n)
  case (Suc n)
  have "distinct (names_of (expert_probes n))"
    using distinct_expert_suffixes
    by (auto simp: expert_names distinct_map inj_on_def numbered_inject numbered_bases)
  moreover have "set (names_of (concat (map expert_probes [0..<n]))) \<inter> set (names_of (expert_probes n)) = {}"
  proof -
    have "names_of (concat (map expert_probes xs)) = concat (map (\<lambda>i. names_of (expert_probes i)) xs)" for xs
      by (induction xs) auto
    then show ?thesis
      by (auto simp: expert_names numbered_inject numbered_bases numbered_bases [symmetric])
  qed
  ultimately show ?case using Suc by simp
qed simp

lemma expert_names_prefix:
  "n \<in> set (names_of (all_expert_probes e)) \<Longrightarrow> prefix ''.experts.'' n \<or> prefix ''.mlp.experts.'' n"
proof -
  have "names_of (concat (map expert_probes xs)) = concat (map (\<lambda>i. names_of (expert_probes i)) xs)" for xs
    by (induction xs) auto
  then show "n \<in> set (names_of (all_expert_probes e)) \<Longrightarrow> ?thesis"
    by (auto simp: all_expert_probes_def expert_names numbered_def split: if_splits)
qed

lemma distinct_layer_names: "distinct (names_of (layer_probes g e))"
proof -
  have "distinct (names_of (all_expert_probes e))"
    using distinct_all_experts by (simp add: all_expert_probes_def)
  moreover have "set (names_of (all_expert_probes e)) \<inter> set (static_names g) = {}"
    using expert_names_prefix static_not_expert [of g] by (fastforce simp: list_all_iff)
  ultimately show ?thesis
    using distinct_static [of g] by (auto simp: layer_probes_def static_names_def)
qed

lemma add_known_tensor_names:
  assumes "\<And>n t. registry_get (ma_tensors artifact) n = Some t \<Longrightarrow> ti_name t = n"
  shows "map (\<lambda>t. ti_name (gt_info t)) (add_known_tensor artifact role name tensors)
    = map (\<lambda>t. ti_name (gt_info t)) tensors @ filter (registry_has (ma_tensors artifact)) [name]"
  using assms by (auto simp: add_known_tensor_def registry_has_def registry_get_def split: option.splits)

lemma run_probes_names:
  assumes "\<And>n t. registry_get (ma_tensors artifact) n = Some t \<Longrightarrow> ti_name t = n"
  shows "map (\<lambda>t. ti_name (gt_info t)) (run_probes artifact p probes tensors)
    = map (\<lambda>t. ti_name (gt_info t)) tensors
        @ filter (registry_has (ma_tensors artifact)) (map ((@) p) (names_of probes))"
proof -
  note known = add_known_tensor_names [OF assms]
  have one: "map (\<lambda>t. ti_name (gt_info t)) (run_probe artifact p q tensors)
    = map (\<lambda>t. ti_name (gt_info t)) tensors
        @ filter (registry_has (ma_tensors artifact)) (map ((@) p) (probe_names q))" for q tensors
    by (cases q) (simp_all add: add_quant_aux_tensors_def known)
  show ?thesis
    by (induction probes arbitrary: tensors) (simp_all add: run_probes_def one)
qed

section \<open>The regions of a graph\<close>

lemma push_single_append:
  "push_single_tensor_region regions artifact i kind l role names
   = regions @ push_single_tensor_region [] artifact i kind l role names"
  by (simp add: push_single_tensor_region_def split: option.split)

lemma push_single_region:
  assumes "r \<in> set (push_single_tensor_region [] artifact i kind l role names)"
  obtains n info where "n \<in> set names" "registry_get (ma_tensors artifact) n = Some info"
    "push_single_tensor_region [] artifact i kind l role names = [r]"
    "r = \<lparr>gr_id = i, gr_kind = kind, gr_layer_index = l, gr_tensors = [\<lparr>gt_role = role, gt_info = info\<rparr>]\<rparr>"
proof (cases "find_map (registry_get (ma_tensors artifact)) names")
  case None
  with assms show thesis by (simp add: push_single_tensor_region_def)
next
  case (Some info)
  with assms find_map_Some [OF Some] show thesis
    by (auto simp: push_single_tensor_region_def intro: that)
qed

lemma layers_loop_Some:
  assumes "layers_loop artifact arch p layers regions metas = Some (rs, ms)"
  shows "rs = regions @ map (layer_region artifact arch p) layers"
    and "\<exists>new. ms = metas @ new \<and> map lm_layer_idx new = layers
           \<and> list_all2 (\<lambda>i m. layer_meta artifact arch i = Some m) layers new"
proof -
  have "rs = regions @ map (layer_region artifact arch p) layers \<and>
    (\<exists>new. ms = metas @ new \<and> map lm_layer_idx new = layers
       \<and> list_all2 (\<lambda>i m. layer_meta artifact arch i = Some m) layers new)"
    using assms
  proof (induction layers arbitrary: regions metas)
    case (Cons l ls)
    then obtain m where m: "layer_meta artifact arch l = Some m"
      and rest: "layers_loop artifact arch p ls (regions @ [layer_region artifact arch p l]) (metas @ [m])
        = Some (rs, ms)"
      by (auto split: option.splits)
    have "lm_layer_idx m = l"
      using m by (auto simp: layer_meta_def Let_def bind_eq_Some_conv split: option.splits)
    moreover obtain new where "ms = (metas @ [m]) @ new" "map lm_layer_idx new = ls"
      "list_all2 (\<lambda>i m. layer_meta artifact arch i = Some m) ls new"
      "rs = (regions @ [layer_region artifact arch p l]) @ map (layer_region artifact arch p) ls"
      using Cons.IH [OF rest] by blast
    ultimately show ?case
      using m by (intro conjI exI [of _ "m # new"]) simp_all
  qed simp
  then show "rs = regions @ map (layer_region artifact arch p) layers"
    "\<exists>new. ms = metas @ new \<and> map lm_layer_idx new = layers
       \<and> list_all2 (\<lambda>i m. layer_meta artifact arch i = Some m) layers new" by simp_all
qed

text \<open>The regions around the layers: at most one each.\<close>

definition embed_region :: "model_artifact \<Rightarrow> graph_region list" where
  "embed_region artifact =
     push_single_tensor_region [] artifact ''embed'' RkTokenEmbedding None TrTokenEmbedding
       [detect_text_prefix artifact @ ''embed_tokens.weight'', ''model.embed_tokens.weight'']"

definition norm_region :: "model_artifact \<Rightarrow> graph_region list" where
  "norm_region artifact =
     push_single_tensor_region [] artifact ''final_norm'' RkFinalNorm None TrFinalNorm
       [detect_text_prefix artifact @ ''norm.weight'', ''model.norm.weight'']"

definition head_region :: "model_artifact \<Rightarrow> graph_region list" where
  "head_region artifact =
     push_single_tensor_region [] artifact ''lm_head'' RkLmHead None TrLmHead
       [''lm_head.weight'', detect_text_prefix artifact @ ''embed_tokens.weight'', ''model.embed_tokens.weight'']"

lemma build_regions:
  assumes "build_llama_style artifact arch = Some g"
  shows "mg_regions g =
      embed_region artifact
        @ map (layer_region artifact arch (detect_text_prefix artifact)) [0..<hc_num_hidden_layers (ma_config artifact)]
        @ norm_region artifact @ head_region artifact"
    and "map lm_layer_idx (mg_layer_metadata g) = [0..<hc_num_hidden_layers (ma_config artifact)]"
    and "list_all2 (\<lambda>i m. layer_meta artifact arch i = Some m)
           [0..<hc_num_hidden_layers (ma_config artifact)] (mg_layer_metadata g)"
    and "mg_num_layers g = hc_num_hidden_layers (ma_config artifact)"
    and "mg_text_prefix g = detect_text_prefix artifact"
proof -
  obtain rs ms where loop: "layers_loop artifact arch (detect_text_prefix artifact)
      [0..<hc_num_hidden_layers (ma_config artifact)] (embed_region artifact) [] = Some (rs, ms)"
    and g: "mg_regions g = push_single_tensor_region (push_single_tensor_region rs artifact
        ''final_norm'' RkFinalNorm None TrFinalNorm
        [detect_text_prefix artifact @ ''norm.weight'', ''model.norm.weight''])
        artifact ''lm_head'' RkLmHead None TrLmHead
        [''lm_head.weight'', detect_text_prefix artifact @ ''embed_tokens.weight'', ''model.embed_tokens.weight'']"
      "mg_layer_metadata g = ms" "mg_num_layers g = hc_num_hidden_layers (ma_config artifact)"
      "mg_text_prefix g = detect_text_prefix artifact"
    using assms
    by (auto simp: build_llama_style_def Let_def bind_eq_Some_conv embed_region_def)
  have "mg_regions g = rs @ norm_region artifact @ head_region artifact"
    unfolding g(1) norm_region_def head_region_def
    by (subst push_single_append, subst (2) push_single_append) simp
  with layers_loop_Some [OF loop] g(2-4)
  show "mg_regions g = embed_region artifact
        @ map (layer_region artifact arch (detect_text_prefix artifact)) [0..<hc_num_hidden_layers (ma_config artifact)]
        @ norm_region artifact @ head_region artifact"
    "map lm_layer_idx (mg_layer_metadata g) = [0..<hc_num_hidden_layers (ma_config artifact)]"
    "list_all2 (\<lambda>i m. layer_meta artifact arch i = Some m)
       [0..<hc_num_hidden_layers (ma_config artifact)] (mg_layer_metadata g)"
    "mg_num_layers g = hc_num_hidden_layers (ma_config artifact)"
    "mg_text_prefix g = detect_text_prefix artifact"
    by simp_all
qed

lemma single_regions_simps:
  "r \<in> set (embed_region artifact) \<Longrightarrow> gr_id r = ''embed'' \<and> gr_kind r = RkTokenEmbedding \<and> gr_layer_index r = None"
  "r \<in> set (norm_region artifact) \<Longrightarrow> gr_id r = ''final_norm'' \<and> gr_kind r = RkFinalNorm \<and> gr_layer_index r = None"
  "r \<in> set (head_region artifact) \<Longrightarrow> gr_id r = ''lm_head'' \<and> gr_kind r = RkLmHead \<and> gr_layer_index r = None"
  "length (embed_region artifact) \<le> 1" "length (norm_region artifact) \<le> 1" "length (head_region artifact) \<le> 1"
  by (auto simp: embed_region_def norm_region_def head_region_def push_single_tensor_region_def
      split: option.splits)

lemma distinct_ids_short: "length rs \<le> 1 \<Longrightarrow> distinct (map gr_id rs)"
  by (cases rs) auto

lemma build_region_ids:
  assumes "build_llama_style artifact arch = Some g"
  shows "distinct (map gr_id (mg_regions g))"
    and "filter (\<lambda>r. gr_kind r = RkTransformerBlock) (mg_regions g)
      = map (layer_region artifact arch (detect_text_prefix artifact)) [0..<mg_num_layers g]"
proof -
  note parts = build_regions [OF assms] and simps = single_regions_simps [where artifact = artifact]
  let ?L = "map (layer_region artifact arch (detect_text_prefix artifact)) [0..<mg_num_layers g]"
  have "distinct (map gr_id ?L)"
    by (auto simp: distinct_map inj_on_def layer_region_def dest: show_nat_inj)
  moreover have "\<exists>n. gr_id r = ''layer.'' @ show_nat n \<and> gr_kind r = RkTransformerBlock" if "r \<in> set ?L" for r
    using that by (auto simp: layer_region_def)
  ultimately show "distinct (map gr_id (mg_regions g))"
    unfolding parts(1) parts(4) [symmetric]
    using simps distinct_ids_short [OF simps(4)] distinct_ids_short [OF simps(5)] distinct_ids_short [OF simps(6)]
    by (simp add: image_iff ball_Un) fastforce
  have "filter (\<lambda>r. gr_kind r = RkTransformerBlock) (embed_region artifact) = []"
    "filter (\<lambda>r. gr_kind r = RkTransformerBlock) (norm_region artifact) = []"
    "filter (\<lambda>r. gr_kind r = RkTransformerBlock) (head_region artifact) = []"
    using simps by (auto simp: filter_empty_conv)
  then show "filter (\<lambda>r. gr_kind r = RkTransformerBlock) (mg_regions g) = ?L"
    unfolding parts(1) parts(4) [symmetric] by (simp add: filter_map o_def layer_region_def)
qed

text \<open>
  A graph has one transformer block for every layer, in order, the metadata of layer \<open>i\<close> at
  index \<open>i\<close>, and no two regions with the same id.
\<close>

theorem graph_one_block_per_layer:
  assumes "graph_from_artifact artifact = Some (Inr g)"
  shows "mg_num_layers g = hc_num_hidden_layers (ma_config artifact) \<and>
    map gr_layer_index (filter (\<lambda>r. gr_kind r = RkTransformerBlock) (mg_regions g)) = map Some [0..<mg_num_layers g] \<and>
    distinct (map gr_id (mg_regions g)) \<and>
    (\<forall>i < mg_num_layers g. map_option lm_layer_idx (graph_layer g i) = Some i) \<and>
    graph_layer g (mg_num_layers g) = None"
proof -
  from assms obtain arch where build: "build_llama_style artifact arch = Some g"
    by (auto simp: graph_from_artifact_def split: sum.splits)
  note parts = build_regions [OF build] and ids = build_region_ids [OF build]
  have len: "length (mg_layer_metadata g) = mg_num_layers g"
    using arg_cong [OF parts(2), of length] parts(4) by simp
  moreover have "lm_layer_idx (mg_layer_metadata g ! i) = i" if "i < mg_num_layers g" for i
    using arg_cong [OF parts(2), of "\<lambda>xs. xs ! i"] that len parts(4) by simp
  ultimately show ?thesis
    using parts(4) ids by (simp add: graph_layer_def vec_get_def layer_region_def o_def)
qed

text \<open>
  C25: a region of a graph built on a loaded registry holds registered tensors, each once; a
  transformer block holds exactly those of its probed names that the registry has, in probe order.
\<close>

theorem graph_regions_hold_tensors_once:
  assumes "from_index_and_shards fs from_slice from_value join wm = Some (Inr (ma_tensors artifact))"
    and "graph_from_artifact artifact = Some (Inr g)" "r \<in> set (mg_regions g)"
  shows "distinct (map (\<lambda>t. ti_name (gt_info t)) (gr_tensors r)) \<and>
    (\<forall>t \<in> set (gr_tensors r). registry_has (ma_tensors artifact) (ti_name (gt_info t))) \<and>
    (\<forall>i. gr_layer_index r = Some i \<longrightarrow>
       map (\<lambda>t. ti_name (gt_info t)) (gr_tensors r)
       = filter (registry_has (ma_tensors artifact))
           (map ((@) (mg_text_prefix g @ ''layers.'' @ show_nat i))
             (names_of (layer_probes (mg_norm_pattern g = PrePost)
               (unwrap_or (hc_num_experts (ma_config artifact)) 0)))))"
proof -
  from assms(2) obtain arch where build: "build_llama_style artifact arch = Some g"
    by (auto simp: graph_from_artifact_def split: sum.splits)
  have norm: "mg_norm_pattern g = arch_norm_pattern arch"
    using build by (auto simp: build_llama_style_def Let_def bind_eq_Some_conv)
  note own = registry_own_name [OF assms(1)]
  note parts = build_regions [OF build] and simps = single_regions_simps [where artifact = artifact]
  let ?names = "\<lambda>r. map (\<lambda>t. ti_name (gt_info t)) (gr_tensors r)"
  have layer: "?names (layer_region artifact arch p i)
      = filter (registry_has (ma_tensors artifact)) (map ((@) (p @ ''layers.'' @ show_nat i))
          (names_of (layer_probes (arch_norm_pattern arch = PrePost)
            (unwrap_or (hc_num_experts (ma_config artifact)) 0))))" for p i
    by (simp add: layer_region_def run_probes_names [OF own])
  have single: "length (?names r) = 1 \<and> registry_has (ma_tensors artifact) (hd (?names r))"
    if "r \<in> set (embed_region artifact @ norm_region artifact @ head_region artifact)"
    using that own unfolding embed_region_def norm_region_def head_region_def
    by (auto elim!: push_single_region simp: registry_has_def registry_get_def)
  from assms(3) consider "r \<in> set (embed_region artifact @ norm_region artifact @ head_region artifact)"
    | i where "r = layer_region artifact arch (mg_text_prefix g) i"
    unfolding parts(1) parts(5) by auto
  then show ?thesis
  proof cases
    case 1
    then have "gr_layer_index r = None" using simps(1-3) by auto
    with single [OF 1] show ?thesis by (cases "gr_tensors r") auto
  next
    case 2
    have "distinct (?names r)"
      unfolding 2 layer by (rule distinct_filter) (simp add: distinct_map distinct_layer_names inj_on_def)
    moreover have "\<forall>n \<in> set (?names r). registry_has (ma_tensors artifact) n"
      unfolding 2 layer by simp
    moreover have "j = i" if "gr_layer_index r = Some j" for j
      using that by (simp add: 2 layer_region_def)
    moreover note layer [of "mg_text_prefix g" i, folded 2 norm]
    ultimately show ?thesis
      unfolding set_map ball_simps by (intro conjI allI impI) (assumption | simp only:)+
  qed
qed

definition demo_artifact :: model_artifact where
  "demo_artifact =
     \<lparr>ma_config = hf_config_default\<lparr>hc_model_type := ''llama'', hc_num_hidden_layers := 2,
        hc_num_attention_heads := 4, hc_hidden_size := 64\<rparr>,
      ma_tensors = demo_registry\<rparr>"

lemma demo_graph: "\<exists>g. graph_from_artifact demo_artifact = Some (Inr g)"
proof -
  have "to_ascii_lowercase ''llama'' = ''llama''" "str_contains ''llama'' ''llama''" by code_simp+
  then have "detect_architecture (ma_config demo_artifact) = Inr LlamaArchitecture"
    by (simp add: detect_architecture_def demo_artifact_def hf_config_default_def try_from_model_type_def)
  moreover have "layer_meta demo_artifact LlamaArchitecture i
      = Some \<lparr>lm_layer_idx = i, lm_kind = DenseDecoder, lm_attention_pattern = FullCausal, lm_head_dim = 16,
              lm_num_kv_heads = 4\<rparr>" for i
    by (simp add: layer_meta_def demo_artifact_def hf_config_default_def artifact_head_dim_def
        llama_attention_pattern_def llama_layer_kind_def)
  ultimately show ?thesis
    by (simp add: graph_from_artifact_def build_llama_style_def Let_def demo_artifact_def
        hf_config_default_def artifact_head_dim_def upt_rec)
qed

lemma graph_one_block_per_layer_witness:
  "\<exists>g. graph_from_artifact demo_artifact = Some (Inr g) \<and> mg_num_layers g = 2 \<and>
     length (filter (\<lambda>r. gr_kind r = RkTransformerBlock) (mg_regions g)) = 2"
proof -
  obtain g where g: "graph_from_artifact demo_artifact = Some (Inr g)" using demo_graph by blast
  have two: "hc_num_hidden_layers (ma_config demo_artifact) = 2" by (simp add: demo_artifact_def)
  from graph_one_block_per_layer [OF g] have n: "mg_num_layers g = 2"
    and blocks: "map gr_layer_index (filter (\<lambda>r. gr_kind r = RkTransformerBlock) (mg_regions g))
      = map Some [0..<mg_num_layers g]" unfolding two by blast+
  from map_eq_imp_length_eq [OF blocks] n
  have "length (filter (\<lambda>r. gr_kind r = RkTransformerBlock) (mg_regions g)) = 2"
    by (simp only: length_upt)
  with g n show ?thesis by blast
qed

lemma graph_regions_hold_tensors_once_witness:
  "\<exists>g r. graph_from_artifact demo_artifact = Some (Inr g) \<and> r \<in> set (mg_regions g) \<and>
     gr_layer_index r = Some 1 \<and> distinct (map (\<lambda>t. ti_name (gt_info t)) (gr_tensors r))"
proof -
  obtain g where g: "graph_from_artifact demo_artifact = Some (Inr g)" using demo_graph by blast
  then obtain arch where build: "build_llama_style demo_artifact arch = Some g"
    by (auto simp: graph_from_artifact_def split: sum.splits)
  have loaded: "from_index_and_shards demo_fs demo_header Inr id demo_index = Some (Inr (ma_tensors demo_artifact))"
    by (simp add: demo_artifact_def demo_loaded)
  let ?r = "layer_region demo_artifact arch (detect_text_prefix demo_artifact) 1"
  have "?r \<in> set (mg_regions g)"
    unfolding build_regions(1) [OF build] by (simp add: demo_artifact_def)
  moreover have "gr_layer_index ?r = Some 1" by (simp add: layer_region_def)
  ultimately show ?thesis using g graph_regions_hold_tensors_once [OF loaded g, of ?r] by blast
qed

end
