(* ===== verification/Layout.thy ===== *)
theory Layout
  imports Quant
begin

text \<open>
  Backends and resident layouts of linear weights (\<^verbatim>\<open>backend.rs\<close>,
  \<^verbatim>\<open>backend_types.rs\<close> and \<^verbatim>\<open>tensor/layout.rs\<close> of
  \<^verbatim>\<open>aegisllm-base/src\<close>, with the kernel families of
  \<^verbatim>\<open>planning/runtime.rs\<close>): what a device can run, the layout a policy chooses for a
  format, the extra memory it takes, and the notes for a choice that is not available.
\<close>

section \<open>Backends\<close>

datatype backend_kind = BkCpu | BkCuda (bk_device: nat) | BkWgpu (bk_device: nat)

datatype attention_dtype =
    AdF32 | AdF16 | AdBf16 | AdFp8E4M3 | AdFp8E5M2 | AdFp4E2M1 | AdInt8 | AdInt4

datatype gpu_architecture = Blackwell | Hopper | Ada | Ampere | UnknownGpu

record backend_descriptor =
  be_kind :: backend_kind
  be_label :: string
  be_ready_for_auto :: bool
  be_supports_fp4 :: bool
  be_supports_fp8 :: bool
  be_supports_flash_attention :: bool
  be_supports_paged_attention :: bool
  be_attention_dtypes :: "attention_dtype list"
  be_tensor_core_precisions :: "tensor_core_precision list"

definition supports_tensor_core_precision :: "backend_descriptor \<Rightarrow> tensor_core_precision \<Rightarrow> bool" where
  "supports_tensor_core_precision b p \<longleftrightarrow> p \<in> set (be_tensor_core_precisions b)"

definition supports_native_quant_format :: "backend_descriptor \<Rightarrow> quant_format \<Rightarrow> bool" where
  "supports_native_quant_format b f =
     (case qd_native_tensor_core_precision (quant_descriptor f) of
        None \<Rightarrow> False | Some p \<Rightarrow> supports_tensor_core_precision b p)"

definition supports_attention_dtype :: "backend_descriptor \<Rightarrow> attention_dtype \<Rightarrow> bool" where
  "supports_attention_dtype b d \<longleftrightarrow> d \<in> set (be_attention_dtypes b)"

fun gpu_tensor_core_precisions :: "gpu_architecture \<Rightarrow> tensor_core_precision list" where
  "gpu_tensor_core_precisions Blackwell = [TcTf32, TcF16, TcBf16, TcFp8, TcFp4, TcInt8]"
| "gpu_tensor_core_precisions Hopper = [TcTf32, TcF16, TcBf16, TcFp8, TcInt8]"
| "gpu_tensor_core_precisions Ada = [TcTf32, TcF16, TcBf16, TcInt8]"
| "gpu_tensor_core_precisions Ampere = [TcTf32, TcF16, TcBf16, TcInt8]"
| "gpu_tensor_core_precisions UnknownGpu = [TcF16]"

fun cuda_attention_dtypes :: "gpu_architecture \<Rightarrow> attention_dtype list" where
  "cuda_attention_dtypes Blackwell =
     [AdF32, AdF16, AdBf16, AdFp8E4M3, AdFp8E5M2, AdFp4E2M1, AdInt8, AdInt4]"
| "cuda_attention_dtypes Hopper = [AdF32, AdF16, AdBf16, AdFp8E4M3, AdFp8E5M2, AdInt8, AdInt4]"
| "cuda_attention_dtypes Ada = [AdF32, AdF16, AdBf16, AdInt8, AdInt4]"
| "cuda_attention_dtypes Ampere = [AdF32, AdF16, AdBf16, AdInt8, AdInt4]"
| "cuda_attention_dtypes UnknownGpu = [AdF32, AdF16]"

datatype kernel_family =
    CpuScalar
  | CpuSimd
  | CudaDenseTensorCores
  | CudaQuantizedReference
  | CudaNativeFp4TensorCores
  | CudaCutlassFp4TensorCores
  | CudaNativeFp8TensorCores
  | CudaGatedDeltaNet
  | CudaMambaScan
  | WgpuReference

section \<open>Layouts\<close>

datatype linear_layout_choice =
    LcAuto | LcPacked | LcNative | LcCutlassFp4 | LcRepackFp8 | LcUnpackedI8 | LcRepackInt4

datatype materialization_policy = Lazy | OnLoad | EachUse | Cache

datatype linear_resident_layout =
    PackedSource | NativeTensorCore | CudaR4fE2m1Ue4m3 | DenseTensorCore | RepackedFp8
  | UnpackedI8Scales | RepackedInt4

record linear_layout_policy =
  lp_cpu :: linear_layout_choice
  lp_cuda :: linear_layout_choice
  lp_materialization :: materialization_policy
  lp_max_extra_memory_bytes :: "nat option"

record linear_layout_plan =
  ll_source_format :: quant_format
  ll_resident_layout :: linear_resident_layout
  ll_materialization :: materialization_policy
  ll_extra_weight_bytes :: nat
  ll_notes :: "string list"

definition default_layout_policy :: linear_layout_policy where
  "default_layout_policy =
     \<lparr>lp_cpu = LcPacked, lp_cuda = LcAuto, lp_materialization = Lazy, lp_max_extra_memory_bytes = None\<rparr>"

definition normalize :: "string \<Rightarrow> string" where
  "normalize value = to_ascii_lowercase (str_trim value)"

definition layout_choice_parse :: "string \<Rightarrow> linear_layout_choice aegis_result" where
  "layout_choice_parse value =
     (let v = normalize value
      in if v \<in> {''auto'', ''native-or-repack'', ''native_or_repack''} then Inr LcAuto
         else if v \<in> {''packed'', ''source'', ''source-packed'', ''source_packed''} then Inr LcPacked
         else if v \<in> {''native'', ''native-compatible'', ''native_compatible''} then Inr LcNative
         else if v \<in> {''cutlass-fp4'', ''cutlass_fp4'', ''cublaslt-fp4'', ''cublaslt_fp4'',
                      ''cuda-r4f-e2m1-ue4m3'', ''cuda_r4f_e2m1_ue4m3'', ''nvfp4-tc'', ''nvfp4_tc''}
         then Inr LcCutlassFp4
         else if v \<in> {''fp8'', ''repack-fp8'', ''repack_fp8''} then Inr LcRepackFp8
         else if v \<in> {''unpacked-i8'', ''unpacked_i8'', ''i8'', ''i8-scales'', ''i8_scales''}
         then Inr LcUnpackedI8
         else if v \<in> {''int4'', ''repack-int4'', ''repack_int4''} then Inr LcRepackInt4
         else Inl (InvalidConfig (''unsupported linear layout `'' @ value @ ''`'')))"

fun layout_choice_label :: "linear_layout_choice \<Rightarrow> string" where
  "layout_choice_label LcAuto = ''auto''"
| "layout_choice_label LcPacked = ''packed''"
| "layout_choice_label LcNative = ''native''"
| "layout_choice_label LcCutlassFp4 = ''cutlass-fp4''"
| "layout_choice_label LcRepackFp8 = ''repack-fp8''"
| "layout_choice_label LcUnpackedI8 = ''unpacked-i8''"
| "layout_choice_label LcRepackInt4 = ''repack-int4''"

definition materialization_parse :: "string \<Rightarrow> materialization_policy aegis_result" where
  "materialization_parse value =
     (let v = normalize value
      in if v \<in> {''lazy'', ''on-first-use'', ''on_first_use''} then Inr Lazy
         else if v \<in> {''on-load'', ''on_load'', ''load''} then Inr OnLoad
         else if v \<in> {''each-use'', ''each_use'', ''stream''} then Inr EachUse
         else if v \<in> {''cache'', ''cached''} then Inr Cache
         else Inl (InvalidConfig (''unsupported linear materialization policy `'' @ value @ ''`'')))"

fun materialization_label :: "materialization_policy \<Rightarrow> string" where
  "materialization_label Lazy = ''lazy''"
| "materialization_label OnLoad = ''on-load''"
| "materialization_label EachUse = ''each-use''"
| "materialization_label Cache = ''cache''"

fun resident_layout_label :: "linear_resident_layout \<Rightarrow> string" where
  "resident_layout_label PackedSource = ''packed-source''"
| "resident_layout_label NativeTensorCore = ''native-tensor-core''"
| "resident_layout_label CudaR4fE2m1Ue4m3 = ''cuda-r4f-e2m1-ue4m3''"
| "resident_layout_label DenseTensorCore = ''dense-tensor-core''"
| "resident_layout_label RepackedFp8 = ''repacked-fp8''"
| "resident_layout_label UnpackedI8Scales = ''unpacked-i8-scales''"
| "resident_layout_label RepackedInt4 = ''repacked-int4''"

definition not_implemented_note :: "string \<Rightarrow> linear_layout_choice \<Rightarrow> quant_format \<Rightarrow> string" where
  "not_implemented_note device other format =
     ''layout choice `'' @ layout_choice_label other @ ''` is not implemented for '' @ device
       @ '' format `'' @ quant_format_label format @ ''`; using packed source''"

definition plan_cpu_layout ::
  "linear_layout_choice \<Rightarrow> quant_format \<Rightarrow> linear_resident_layout \<times> string list" where
  "plan_cpu_layout choice source_format =
     (if choice = LcAuto \<or> choice = LcPacked then (PackedSource, [])
      else if choice = LcUnpackedI8 \<and> source_format = QfNvfp4 then (UnpackedI8Scales, [])
      else if choice = LcRepackInt4 \<and> is_quantized source_format then (RepackedInt4, [])
      else (PackedSource, [not_implemented_note ''CPU'' choice source_format]))"

definition native_layout :: "kernel_family \<Rightarrow> linear_resident_layout option" where
  "native_layout family =
     (case family of
        CudaNativeFp4TensorCores \<Rightarrow> Some NativeTensorCore
      | CudaNativeFp8TensorCores \<Rightarrow> Some NativeTensorCore
      | CudaDenseTensorCores \<Rightarrow> Some DenseTensorCore
      | _ \<Rightarrow> None)"

definition plan_cuda_layout ::
  "linear_layout_choice \<Rightarrow> backend_descriptor \<Rightarrow> quant_format \<Rightarrow> kernel_family
     \<Rightarrow> linear_resident_layout \<times> string list" where
  "plan_cuda_layout choice backend source_format family =
     (if choice = LcAuto
      then (case native_layout family of Some l \<Rightarrow> (l, []) | None \<Rightarrow> (PackedSource, []))
      else if choice = LcNative
      then (case native_layout family of
              Some l \<Rightarrow> (l, [])
            | None \<Rightarrow>
                (PackedSource,
                 [''native layout requested for `'' @ quant_format_label source_format
                  @ ''` but no native kernel candidate was selected; using packed source'']))
      else if choice = LcRepackFp8 \<and> is_quantized source_format \<and> be_supports_fp8 backend
      then (RepackedFp8, [])
      else if choice = LcCutlassFp4 \<and> source_format = QfNvfp4 \<and> be_supports_fp4 backend
      then (CudaR4fE2m1Ue4m3, [])
      else if choice = LcRepackInt4 \<and> is_quantized source_format then (RepackedInt4, [])
      else if choice = LcPacked then (PackedSource, [])
      else (PackedSource, [not_implemented_note ''CUDA'' choice source_format]))"

definition plan_resident_layout ::
  "linear_layout_choice \<Rightarrow> backend_descriptor \<Rightarrow> quant_format \<Rightarrow> kernel_family
     \<Rightarrow> linear_resident_layout \<times> string list" where
  "plan_resident_layout choice backend source_format family =
     (case be_kind backend of
        BkCuda _ \<Rightarrow> plan_cuda_layout choice backend source_format family
      | _ \<Rightarrow> plan_cpu_layout choice source_format)"

definition estimate_extra_bytes :: "quant_format \<Rightarrow> linear_resident_layout \<Rightarrow> nat \<Rightarrow> nat" where
  "estimate_extra_bytes source_format resident_layout source_bytes =
     (if resident_layout = PackedSource \<or> resident_layout = DenseTensorCore then 0
      else if source_format = QfFp8E4M3Block then 0
      else if source_format = QfNvfp4 \<and> resident_layout = UnpackedI8Scales
      then saturating_mul source_bytes 2
      else source_bytes)"

definition layout_plan ::
  "linear_layout_policy \<Rightarrow> backend_descriptor \<Rightarrow> quant_format \<Rightarrow> kernel_family \<Rightarrow> nat
     \<Rightarrow> linear_layout_plan" where
  "layout_plan policy backend source_format family source_bytes =
     (let choice = (case be_kind backend of BkCuda _ \<Rightarrow> lp_cuda policy | _ \<Rightarrow> lp_cpu policy);
          (resident_layout, notes) = plan_resident_layout choice backend source_format family;
          extra_weight_bytes = estimate_extra_bytes source_format resident_layout source_bytes;
          notes = (case lp_max_extra_memory_bytes policy of
                     None \<Rightarrow> notes
                   | Some limit \<Rightarrow>
                       if extra_weight_bytes > limit
                       then notes @ [''layout `'' @ resident_layout_label resident_layout
                              @ ''` estimates extra_weight_bytes='' @ show_nat extra_weight_bytes
                              @ '' above max_extra_memory_bytes='' @ show_nat limit]
                       else notes)
      in \<lparr>ll_source_format = source_format, ll_resident_layout = resident_layout,
          ll_materialization = lp_materialization policy,
          ll_extra_weight_bytes = extra_weight_bytes, ll_notes = notes\<rparr>)"

section \<open>Properties\<close>

text \<open>What a resident layout needs of the backend and the format it is used for.\<close>

definition layout_supported :: "backend_descriptor \<Rightarrow> quant_format \<Rightarrow> kernel_family \<Rightarrow> linear_resident_layout \<Rightarrow> bool" where
  "layout_supported b f family l =
     (case l of
        PackedSource \<Rightarrow> True
      | NativeTensorCore \<Rightarrow> family \<in> {CudaNativeFp4TensorCores, CudaNativeFp8TensorCores}
      | DenseTensorCore \<Rightarrow> family = CudaDenseTensorCores
      | CudaR4fE2m1Ue4m3 \<Rightarrow> f = QfNvfp4 \<and> be_supports_fp4 b
      | RepackedFp8 \<Rightarrow> is_quantized f \<and> be_supports_fp8 b
      | UnpackedI8Scales \<Rightarrow> f = QfNvfp4 \<and> (\<forall>d. be_kind b \<noteq> BkCuda d)
      | RepackedInt4 \<Rightarrow> is_quantized f)"

lemma resident_layout_supported:
  "layout_supported b f family (fst (plan_resident_layout c b f family))"
  "fst (plan_resident_layout c b f family) \<in> {RepackedFp8, CudaR4fE2m1Ue4m3} \<Longrightarrow> \<exists>d. be_kind b = BkCuda d"
  by (cases "be_kind b"; auto simp: plan_resident_layout_def plan_cpu_layout_def plan_cuda_layout_def
      native_layout_def layout_supported_def split: kernel_family.split if_splits)+

lemma layout_plan_resident:
  "\<exists>c. ll_resident_layout (layout_plan policy b f family bytes) = fst (plan_resident_layout c b f family)"
  by (auto simp: layout_plan_def Let_def split: prod.splits) (metis fst_conv)

text \<open>
  Whatever a policy asks for, the planned layout is one that the backend, the format and the
  kernel family support; an explicit choice that cannot be honoured falls back to the packed
  source, leaves a note and costs no memory, and a plan never takes more than twice the source.
\<close>

theorem layout_plan_supported:
  fixes policy backend format family source_bytes
  defines "p \<equiv> layout_plan policy backend format family source_bytes"
  shows "layout_supported backend format family (ll_resident_layout p) \<and>
    ll_extra_weight_bytes p \<le> 2 * source_bytes \<and>
    (ll_resident_layout p = PackedSource \<longrightarrow> ll_extra_weight_bytes p = 0) \<and>
    (ll_resident_layout p \<noteq> PackedSource \<longrightarrow> lp_max_extra_memory_bytes policy = None \<longrightarrow> ll_notes p = []) \<and>
    (ll_resident_layout p = PackedSource \<longrightarrow>
       (case be_kind backend of BkCuda _ \<Rightarrow> lp_cuda policy | _ \<Rightarrow> lp_cpu policy) \<notin> {LcAuto, LcPacked} \<longrightarrow>
       ll_notes p \<noteq> [])"
proof -
  have layouts: "(fst (plan_resident_layout c backend format family) \<noteq> PackedSource \<longrightarrow>
         snd (plan_resident_layout c backend format family) = []) \<and>
      (fst (plan_resident_layout c backend format family) = PackedSource \<longrightarrow> c \<notin> {LcAuto, LcPacked} \<longrightarrow>
         snd (plan_resident_layout c backend format family) \<noteq> [])" for c
    by (cases "be_kind backend")
      (auto simp: plan_resident_layout_def plan_cpu_layout_def plan_cuda_layout_def native_layout_def
        split: kernel_family.split)
  have bytes: "estimate_extra_bytes format l source_bytes \<le> 2 * source_bytes" for l
    by (auto simp: estimate_extra_bytes_def saturating_mul_def min_def)
  define c where "c = (case be_kind backend of BkCuda _ \<Rightarrow> lp_cuda policy | _ \<Rightarrow> lp_cpu policy)"
  obtain l n where eq: "plan_resident_layout c backend format family = (l, n)" by force
  have p: "ll_resident_layout p = l" "ll_extra_weight_bytes p = estimate_extra_bytes format l source_bytes"
    "lp_max_extra_memory_bytes policy = None \<longrightarrow> ll_notes p = n" "n \<noteq> [] \<longrightarrow> ll_notes p \<noteq> []"
    unfolding p_def layout_plan_def Let_def c_def [symmetric] eq by (simp_all split: option.split)
  from layouts [of c] resident_layout_supported(1) [of backend format family c] eq have "layout_supported backend format family l" "l \<noteq> PackedSource \<longrightarrow> n = []"
    "l = PackedSource \<longrightarrow> c \<notin> {LcAuto, LcPacked} \<longrightarrow> n \<noteq> []" by simp_all
  then show ?thesis
    using p bytes [of l] unfolding c_def [symmetric] by (simp add: estimate_extra_bytes_def)
qed

definition demo_ampere :: backend_descriptor where
  "demo_ampere =
     \<lparr>be_kind = BkCuda 0, be_label = ''cuda'', be_ready_for_auto = True, be_supports_fp4 = False,
      be_supports_fp8 = False, be_supports_flash_attention = True, be_supports_paged_attention = True,
      be_attention_dtypes = cuda_attention_dtypes Ampere,
      be_tensor_core_precisions = gpu_tensor_core_precisions Ampere\<rparr>"

lemma layout_plan_supported_witness:
  "ll_notes (layout_plan (default_layout_policy\<lparr>lp_cuda := LcRepackFp8\<rparr>) demo_ampere QfNvfp4
      CudaQuantizedReference 4096) \<noteq> []"
proof -
  have "ll_resident_layout (layout_plan (default_layout_policy\<lparr>lp_cuda := LcRepackFp8\<rparr>) demo_ampere
      QfNvfp4 CudaQuantizedReference 4096) = PackedSource"
    by (simp add: layout_plan_def default_layout_policy_def demo_ampere_def plan_resident_layout_def
        plan_cuda_layout_def)
  moreover have "be_kind demo_ampere = BkCuda 0" by (simp add: demo_ampere_def)
  ultimately show ?thesis
    using layout_plan_supported [of demo_ampere QfNvfp4 CudaQuantizedReference
        "default_layout_policy\<lparr>lp_cuda := LcRepackFp8\<rparr>" 4096]
    by simp
qed

text \<open>
  The names of the layouts and of the materialisation policies parse back to themselves.
\<close>

theorem layout_labels_parse:
  "layout_choice_parse (layout_choice_label c) = Inr c \<and>
   materialization_parse (materialization_label m) = Inr m"
proof -
  have "list_all (\<lambda>c. layout_choice_parse (layout_choice_label c) = Inr c)
      [LcAuto, LcPacked, LcNative, LcCutlassFp4, LcRepackFp8, LcUnpackedI8, LcRepackInt4]"
    "list_all (\<lambda>m. materialization_parse (materialization_label m) = Inr m) [Lazy, OnLoad, EachUse, Cache]"
    by code_simp+
  then show ?thesis by (cases c; cases m) simp_all
qed

end
