(* ===== verification/Placement.thy ===== *)
theory Placement
  imports Graph Layout
begin

text \<open>
  Placement of the regions of a model (\<^verbatim>\<open>aegisllm-base/src/planning/placement.rs\<close>, with
  the memory budget of \<^verbatim>\<open>planning/memory.rs\<close> and the inventory of
  \<^verbatim>\<open>hardware.rs\<close>): the rules a policy applies to a region, the transfer every pair of
  storage and compute needs, the estimate of the KV cache, and the spill of regions that do not
  fit a device. Of the inventory only the fields that planning reads are kept.
\<close>

section \<open>Types\<close>

datatype storage_placement = Ram | Vram (sp_device: nat) | Mmap

datatype compute_placement = Cpu | Cuda (cp_device: nat) | Wgpu (cp_device: nat)

datatype transfer_policy = NoTransfer | HostToDeviceEachUse | DeviceToHostEachUse | CrossDevice

datatype layer_selector =
    FirstN nat
  | LastN nat
  | Range nat nat
  | OfKind graph_region_kind
  | OfRegion string
  | All

record placement_rule =
  ru_selector :: layer_selector
  ru_store :: "storage_placement option"
  ru_compute :: "compute_placement option"

datatype weight_quant_override = OvDefault | OvFp8 | OvMxint4 | OvInt4 | OvInt8

definition quant_override_parse :: "string \<Rightarrow> weight_quant_override option" where
  "quant_override_parse value =
     (let v = to_ascii_lowercase value
      in if v = ''default'' \<or> v = [] then Some OvDefault
         else if v = ''fp8'' \<or> v = ''fp8_e4m3'' \<or> v = ''fp8-e4m3'' then Some OvFp8
         else if v = ''mxint4'' then Some OvMxint4
         else if v = ''int4'' then Some OvInt4
         else if v = ''int8'' then Some OvInt8
         else None)"

record placement_policy =
  pp_weights_store :: storage_placement
  pp_weights_compute :: compute_placement
  pp_spill_store :: storage_placement
  pp_spill_compute :: compute_placement
  pp_kv_store :: storage_placement
  pp_kv_compute :: compute_placement
  pp_kv_quantization :: kv_cache_quantization
  pp_context_size :: nat
  pp_reserve_ram_bytes :: nat
  pp_reserve_vram_bytes :: nat
  pp_linear_layout :: linear_layout_policy
  pp_rules :: "placement_rule list"
  pp_kv_first_n_layers :: "nat option"
  pp_kv_first_store :: "storage_placement option"
  pp_attention_store_override :: "storage_placement option"
  pp_attention_compute_override :: "compute_placement option"
  pp_experts_compute_override :: "compute_placement option"
  pp_experts_store_override :: "storage_placement option"
  pp_attention_quantization :: weight_quant_override
  pp_shared_mlp_quantization :: weight_quant_override

record gpu_info =
  gpu_index :: nat
  gpu_name :: string
  gpu_vram_total_bytes :: nat
  gpu_vram_free_bytes :: "nat option"
  gpu_arch :: gpu_architecture

record hardware_inventory =
  hw_ram_total_bytes :: nat
  hw_ram_available_bytes :: "nat option"
  hw_avx2 :: bool
  hw_avx512 :: bool
  hw_bf16 :: bool
  hw_gpus :: "gpu_info list"

record memory_pool =
  mp_device :: nat
  mp_total_bytes :: nat
  mp_usable_bytes :: nat

record memory_budget =
  mb_ram_total_bytes :: nat
  mb_ram_usable_bytes :: nat
  mb_vram :: "memory_pool list"

record region_placement =
  rp_region_id :: region_id
  rp_kind :: graph_region_kind
  rp_layer_index :: "nat option"
  rp_weight_bytes :: nat
  rp_store :: storage_placement
  rp_compute :: compute_placement
  rp_transfer :: transfer_policy

record kv_cache_placement =
  kc_store :: storage_placement
  kc_compute :: compute_placement
  kc_quantization :: kv_cache_quantization
  kc_context_size :: nat
  kc_estimated_bytes :: nat
  kc_first_n_layers :: "nat option"
  kc_first_store :: "storage_placement option"

record resolved_placement =
  pl_model :: string
  pl_weight_quantization :: weight_quantization
  pl_region_placements :: "region_placement list"
  pl_kv_cache :: kv_cache_placement
  pl_budget :: memory_budget
  pl_linear_layout :: linear_layout_policy
  pl_warnings :: "string list"
  pl_attention_quantization :: weight_quant_override
  pl_shared_mlp_quantization :: weight_quant_override
  pl_attention_store_override :: "storage_placement option"
  pl_experts_compute_override :: "compute_placement option"
  pl_experts_store_override :: "storage_placement option"

section \<open>Policies and budgets\<close>

definition preferred_cuda :: "hardware_inventory \<Rightarrow> gpu_info option" where
  "preferred_cuda inventory =
     max_by_key (\<lambda>gpu. unwrap_or (gpu_vram_free_bytes gpu) (gpu_vram_total_bytes gpu)) (hw_gpus inventory)"

definition GiB :: nat where "GiB = 1024 * 1024 * 1024"

definition auto_for :: "hardware_inventory \<Rightarrow> placement_policy" where
  "auto_for inventory =
     (case map_option gpu_index (preferred_cuda inventory) of
        Some device \<Rightarrow>
          \<lparr>pp_weights_store = Vram device, pp_weights_compute = Cuda device, pp_spill_store = Mmap,
           pp_spill_compute = Cuda device, pp_kv_store = Vram device, pp_kv_compute = Cuda device,
           pp_kv_quantization = KvF16, pp_context_size = 8192, pp_reserve_ram_bytes = 4 * GiB,
           pp_reserve_vram_bytes = GiB, pp_linear_layout = default_layout_policy,
           pp_rules = [], pp_kv_first_n_layers = None, pp_kv_first_store = None,
           pp_attention_store_override = None, pp_attention_compute_override = None,
           pp_experts_compute_override = None, pp_experts_store_override = None,
           pp_attention_quantization = OvDefault, pp_shared_mlp_quantization = OvDefault\<rparr>
      | None \<Rightarrow>
          \<lparr>pp_weights_store = Mmap, pp_weights_compute = Cpu, pp_spill_store = Mmap,
           pp_spill_compute = Cpu, pp_kv_store = Ram, pp_kv_compute = Cpu,
           pp_kv_quantization = KvF16, pp_context_size = 8192, pp_reserve_ram_bytes = 2 * GiB,
           pp_reserve_vram_bytes = 0, pp_linear_layout = default_layout_policy,
           pp_rules = [], pp_kv_first_n_layers = None, pp_kv_first_store = None,
           pp_attention_store_override = None, pp_attention_compute_override = None,
           pp_experts_compute_override = None, pp_experts_store_override = None,
           pp_attention_quantization = OvDefault, pp_shared_mlp_quantization = OvDefault\<rparr>)"

definition budget_from_inventory :: "hardware_inventory \<Rightarrow> placement_policy \<Rightarrow> memory_budget" where
  "budget_from_inventory inventory policy =
     \<lparr>mb_ram_total_bytes = hw_ram_total_bytes inventory,
      mb_ram_usable_bytes =
        unwrap_or (hw_ram_available_bytes inventory) (hw_ram_total_bytes inventory)
          - pp_reserve_ram_bytes policy,
      mb_vram = map (\<lambda>gpu.
        \<lparr>mp_device = gpu_index gpu, mp_total_bytes = gpu_vram_total_bytes gpu,
         mp_usable_bytes = unwrap_or (gpu_vram_free_bytes gpu) (gpu_vram_total_bytes gpu)
                             - pp_reserve_vram_bytes policy\<rparr>)
        (hw_gpus inventory)\<rparr>"

definition first_vram_usable :: "memory_budget \<Rightarrow> (nat \<times> nat) option" where
  "first_vram_usable b =
     (case mb_vram b of [] \<Rightarrow> None | pool # _ \<Rightarrow> Some (mp_device pool, mp_usable_bytes pool))"

definition vram_usable :: "memory_budget \<Rightarrow> nat \<Rightarrow> nat option" where
  "vram_usable b device = map_option mp_usable_bytes (find (\<lambda>pool. mp_device pool = device) (mb_vram b))"

section \<open>Rules\<close>

fun selector_matches :: "layer_selector \<Rightarrow> graph_region \<Rightarrow> nat \<Rightarrow> bool" where
  "selector_matches All region num_layers = True"
| "selector_matches (OfKind kind) region num_layers = (gr_kind region = kind)"
| "selector_matches (OfRegion i) region num_layers = (gr_id region = i)"
| "selector_matches (FirstN n) region num_layers =
     (case gr_layer_index region of None \<Rightarrow> False | Some i \<Rightarrow> i < n)"
| "selector_matches (LastN n) region num_layers =
     (case gr_layer_index region of None \<Rightarrow> False | Some i \<Rightarrow> i \<ge> num_layers - n)"
| "selector_matches (Range start stop) region num_layers =
     (case gr_layer_index region of None \<Rightarrow> False | Some i \<Rightarrow> i \<ge> start \<and> i < stop)"

fun rules_loop ::
  "placement_rule list \<Rightarrow> graph_region \<Rightarrow> nat \<Rightarrow> storage_placement \<Rightarrow> compute_placement
     \<Rightarrow> storage_placement \<times> compute_placement" where
  "rules_loop [] region num_layers store compute = (store, compute)"
| "rules_loop (rule # rules) region num_layers store compute =
     (if selector_matches (ru_selector rule) region num_layers
      then rules_loop rules region num_layers (unwrap_or (ru_store rule) store)
             (unwrap_or (ru_compute rule) compute)
      else rules_loop rules region num_layers store compute)"

definition apply_rules ::
  "graph_region \<Rightarrow> nat \<Rightarrow> placement_policy \<Rightarrow> storage_placement \<times> compute_placement" where
  "apply_rules region num_layers policy =
     rules_loop (pp_rules policy) region num_layers (pp_weights_store policy) (pp_weights_compute policy)"

fun transfer_policy_of :: "storage_placement \<Rightarrow> compute_placement \<Rightarrow> transfer_policy" where
  "transfer_policy_of Ram Cpu = NoTransfer"
| "transfer_policy_of Mmap Cpu = NoTransfer"
| "transfer_policy_of (Vram a) (Cuda b) = (if a = b then NoTransfer else CrossDevice)"
| "transfer_policy_of (Vram a) (Wgpu b) = (if a = b then NoTransfer else CrossDevice)"
| "transfer_policy_of Ram (Cuda b) = HostToDeviceEachUse"
| "transfer_policy_of Mmap (Cuda b) = HostToDeviceEachUse"
| "transfer_policy_of Ram (Wgpu b) = HostToDeviceEachUse"
| "transfer_policy_of Mmap (Wgpu b) = HostToDeviceEachUse"
| "transfer_policy_of (Vram a) Cpu = DeviceToHostEachUse"

section \<open>KV cache\<close>

definition store_for_layer :: "kv_cache_placement \<Rightarrow> nat \<Rightarrow> storage_placement" where
  "store_for_layer kv layer_idx =
     (case kc_first_n_layers kv of
        Some n \<Rightarrow>
          if layer_idx < n
          then (case kc_first_store kv of
                  Some s \<Rightarrow> s
                | None \<Rightarrow> (case kc_compute kv of Cuda device \<Rightarrow> Vram device | _ \<Rightarrow> kc_store kv))
          else kc_store kv
      | None \<Rightarrow> kc_store kv)"

text \<open>\<^verbatim>\<open>(bytes_per_element * 2.0).ceil()\<close>: bytes of two elements.\<close>

definition pair_bytes :: "kv_cache_quantization \<Rightarrow> nat" where
  "pair_bytes q = nat \<lceil>kv_bytes_per_element q * 2\<rceil>"

definition layer_values :: "model_graph \<Rightarrow> placement_policy \<Rightarrow> nat \<Rightarrow> nat" where
  "layer_values graph policy layer_idx =
     (let meta = graph_layer graph layer_idx;
          layer_cap = (case map_option lm_attention_pattern meta of
                         Some (SlidingWindow w) \<Rightarrow> min w (pp_context_size policy)
                       | _ \<Rightarrow> pp_context_size policy);
          kv_heads = unwrap_or (map_option lm_num_kv_heads meta) (mg_num_kv_heads graph);
          head_dim = unwrap_or (map_option lm_head_dim meta) (mg_head_dim graph)
      in saturating_mul (saturating_mul (saturating_mul layer_cap 2) kv_heads) head_dim)"

definition estimate_kv_cache_bytes :: "model_graph \<Rightarrow> placement_policy \<Rightarrow> nat" where
  "estimate_kv_cache_bytes graph policy =
     div_ceil
       (saturating_mul
         (fold (\<lambda>layer_idx values. saturating_add values (layer_values graph policy layer_idx))
           [0..<mg_num_layers graph] 0)
         (pair_bytes (pp_kv_quantization policy)))
       2"

section \<open>Spilling\<close>

text \<open>The inner loop runs over the placements from the back; \<open>spill_rev\<close> takes them reversed.\<close>

fun spill_rev ::
  "placement_policy \<Rightarrow> nat \<Rightarrow> nat \<Rightarrow> nat \<Rightarrow> region_placement list \<Rightarrow> nat \<times> region_placement list" where
  "spill_rev policy device usable used [] = (used, [])"
| "spill_rev policy device usable used (p # ps) =
     (if used \<le> usable then (used, p # ps)
      else if rp_store p = Vram device
      then (let p' = p\<lparr>rp_store := pp_spill_store policy, rp_compute := pp_spill_compute policy,
                       rp_transfer := transfer_policy_of (pp_spill_store policy) (pp_spill_compute policy)\<rparr>;
                (used', ps') = spill_rev policy device usable (used - rp_weight_bytes p) ps
            in (used', p' # ps'))
      else (let (used', ps') = spill_rev policy device usable used ps in (used', p # ps')))"

definition device_weight_bytes :: "nat \<Rightarrow> region_placement list \<Rightarrow> nat" where
  "device_weight_bytes device ps =
     sum_u64 (map rp_weight_bytes (filter (\<lambda>p. rp_store p = Vram device) ps))"

definition runtime_vram :: "kv_cache_placement \<Rightarrow> nat \<Rightarrow> nat" where
  "runtime_vram kv device = (if kc_store kv = Vram device then kc_estimated_bytes kv else 0)"

definition spill_warning :: "nat \<Rightarrow> nat \<Rightarrow> nat \<Rightarrow> nat \<Rightarrow> string" where
  "spill_warning device used usable runtime =
     ''vram:'' @ show_nat device @ '' budget forced storage spill: final_persistent='' @ show_nat used
       @ '' usable='' @ show_nat usable @ '' runtime_reserved='' @ show_nat runtime"

fun trim_vram_to_budget ::
  "memory_pool list \<Rightarrow> kv_cache_placement \<Rightarrow> placement_policy \<Rightarrow> region_placement list \<Rightarrow> string list
     \<Rightarrow> region_placement list \<times> string list" where
  "trim_vram_to_budget [] kv policy ps warnings = (ps, warnings)"
| "trim_vram_to_budget (pool # pools) kv policy ps warnings =
     (let device = mp_device pool; usable = mp_usable_bytes pool; runtime = runtime_vram kv device;
          used = wrapping_add runtime (device_weight_bytes device ps)
      in if used \<le> usable then trim_vram_to_budget pools kv policy ps warnings
         else let (used', ps') = spill_rev policy device usable used (rev ps)
              in trim_vram_to_budget pools kv policy (rev ps')
                   (warnings @ [spill_warning device used' usable runtime]))"

section \<open>The plan\<close>

definition place_region :: "model_graph \<Rightarrow> placement_policy \<Rightarrow> graph_region \<Rightarrow> region_placement" where
  "place_region graph policy region =
     (let (store, compute) = apply_rules region (mg_num_layers graph) policy
      in \<lparr>rp_region_id = gr_id region, rp_kind = gr_kind region, rp_layer_index = gr_layer_index region,
          rp_weight_bytes = weight_bytes region, rp_store = store, rp_compute = compute,
          rp_transfer = transfer_policy_of store compute\<rparr>)"

definition kv_placement :: "model_graph \<Rightarrow> placement_policy \<Rightarrow> kv_cache_placement" where
  "kv_placement graph policy =
     \<lparr>kc_store = pp_kv_store policy, kc_compute = pp_kv_compute policy,
      kc_quantization = pp_kv_quantization policy, kc_context_size = pp_context_size policy,
      kc_estimated_bytes = estimate_kv_cache_bytes graph policy,
      kc_first_n_layers = pp_kv_first_n_layers policy, kc_first_store = pp_kv_first_store policy\<rparr>"

definition plan ::
  "string \<Rightarrow> model_graph \<Rightarrow> hardware_inventory \<Rightarrow> placement_policy \<Rightarrow> resolved_placement aegis_result" where
  "plan model_name graph inventory policy =
     (if pp_context_size policy = 0
      then Inl (InvalidPlan ''kv cache context_size must be greater than zero'')
      else let budget = budget_from_inventory inventory policy;
               kv_cache = kv_placement graph policy;
               (region_placements, warnings) =
                 trim_vram_to_budget (mb_vram budget) kv_cache policy
                   (map (place_region graph policy) (mg_regions graph)) []
           in Inr \<lparr>pl_model = model_name, pl_weight_quantization = mg_weight_quantization graph,
                   pl_region_placements = region_placements, pl_kv_cache = kv_cache,
                   pl_budget = budget, pl_linear_layout = pp_linear_layout policy, pl_warnings = warnings,
                   pl_attention_quantization = pp_attention_quantization policy,
                   pl_shared_mlp_quantization = pp_shared_mlp_quantization policy,
                   pl_attention_store_override = pp_attention_store_override policy,
                   pl_experts_compute_override = pp_experts_compute_override policy,
                   pl_experts_store_override = pp_experts_store_override policy\<rparr>)"

text \<open>Collecting into a \<^verbatim>\<open>BTreeMap\<close>: a later region with the same id wins.\<close>

definition region_map :: "resolved_placement \<Rightarrow> (region_id, region_placement) btree_map" where
  "region_map pl = fold (\<lambda>p m. bt_insert (rp_region_id p) p m) (pl_region_placements pl) []"

definition vram_weight_bytes :: "resolved_placement \<Rightarrow> nat \<Rightarrow> nat" where
  "vram_weight_bytes pl device = device_weight_bytes device (pl_region_placements pl)"

definition ram_weight_bytes :: "resolved_placement \<Rightarrow> nat" where
  "ram_weight_bytes pl =
     sum_u64 (map rp_weight_bytes (filter (\<lambda>p. rp_store p = Ram \<or> rp_store p = Mmap) (pl_region_placements pl)))"

section \<open>What a device keeps\<close>

definition on_device :: "nat \<Rightarrow> region_placement list \<Rightarrow> region_placement list" where
  "on_device d ps = filter (\<lambda>p. rp_store p = Vram d) ps"

definition bytes_of :: "region_placement list \<Rightarrow> nat" where
  "bytes_of ps = sum_list (map rp_weight_bytes ps)"

lemma on_device_simps [simp]:
  "on_device d [] = []" "on_device d (ps @ qs) = on_device d ps @ on_device d qs"
  "on_device d (p # ps) = (if rp_store p = Vram d then p # on_device d ps else on_device d ps)"
  by (simp_all add: on_device_def)

lemma bytes_of_simps [simp]:
  "bytes_of [] = 0" "bytes_of (p # ps) = rp_weight_bytes p + bytes_of ps"
  "bytes_of (ps @ qs) = bytes_of ps + bytes_of qs"
  by (simp_all add: bytes_of_def)

lemma bytes_of_on_device: "bytes_of (on_device d ps) \<le> bytes_of ps"
  by (induction ps) auto

lemma bytes_of_split: "bytes_of ps = bytes_of (take j ps) + bytes_of (drop j ps)"
  by (metis append_take_drop_id bytes_of_simps(3))

text \<open>\<open>L'\<close> is the longest prefix of \<open>L\<close> that fits, or empty when nothing does.\<close>

definition longest_fitting :: "nat \<Rightarrow> nat \<Rightarrow> region_placement list \<Rightarrow> region_placement list \<Rightarrow> bool" where
  "longest_fitting reserved usable L L' \<longleftrightarrow>
     (\<exists>m \<le> length L. L' = take m L \<and> (reserved + bytes_of L' \<le> usable \<or> m = 0) \<and>
        (\<forall>j. m < j \<longrightarrow> j \<le> length L \<longrightarrow> usable < reserved + bytes_of (take j L)))"

lemma spill_rev_keeps:
  assumes "spill_rev policy d usable used ps = (used', ps')" "pp_spill_store policy \<noteq> Vram d"
  shows "\<exists>m \<le> length (on_device d (rev ps)). on_device d (rev ps') = take m (on_device d (rev ps)) \<and>
    used' = used - bytes_of (drop m (on_device d (rev ps))) \<and> (used' \<le> usable \<or> m = 0) \<and>
    (\<forall>j. m < j \<longrightarrow> j \<le> length (on_device d (rev ps)) \<longrightarrow>
       usable < used - bytes_of (drop j (on_device d (rev ps))))"
  using assms(1)
proof (induction ps arbitrary: used used' ps')
  case Nil
  then show ?case by simp
next
  case (Cons p ps)
  let ?L = "on_device d (rev ps)"
  show ?case
  proof (cases "used \<le> usable")
    case True
    with Cons.prems show ?thesis
      by (intro exI [of _ "length (on_device d (rev (p # ps)))"]) auto
  next
    case False
    show ?thesis
    proof (cases "rp_store p = Vram d")
      case on: True
      obtain u qs where rest: "spill_rev policy d usable (used - rp_weight_bytes p) ps = (u, qs)" by force
      with Cons.prems False on have out: "used' = u" "on_device d (rev ps') = on_device d (rev qs)"
        using assms(2) by (auto simp: Let_def)
      from Cons.IH [OF rest] obtain m where m: "m \<le> length ?L" "on_device d (rev qs) = take m ?L"
        "u = used - rp_weight_bytes p - bytes_of (drop m ?L)" "u \<le> usable \<or> m = 0"
        and above: "\<And>j. m < j \<Longrightarrow> j \<le> length ?L \<Longrightarrow> usable < used - rp_weight_bytes p - bytes_of (drop j ?L)"
        by blast
      have "usable < used - bytes_of (drop j (?L @ [p]))" if "m < j" "j \<le> length (?L @ [p])" for j
        using that above [of j] False by (cases "j \<le> length ?L") (auto simp: add.commute)
      with m out on show ?thesis by (intro exI [of _ m]) (auto simp: add.commute)
    next
      case off: False
      obtain u qs where rest: "spill_rev policy d usable used ps = (u, qs)" by force
      with Cons.prems False off have "used' = u" "on_device d (rev ps') = on_device d (rev qs)" by auto
      with Cons.IH [OF rest] off show ?thesis by simp
    qed
  qed
qed

text \<open>A region moved to the spill placement.\<close>

definition spilled :: "placement_policy \<Rightarrow> region_placement \<Rightarrow> region_placement" where
  "spilled policy p =
     p\<lparr>rp_store := pp_spill_store policy, rp_compute := pp_spill_compute policy,
       rp_transfer := transfer_policy_of (pp_spill_store policy) (pp_spill_compute policy)\<rparr>"

definition kept_or_spilled :: "placement_policy \<Rightarrow> region_placement \<Rightarrow> region_placement \<Rightarrow> bool" where
  "kept_or_spilled policy p p' \<longleftrightarrow> p' = p \<or> p' = spilled policy p"

lemma spill_rev_moves:
  "spill_rev policy d usable used ps = (used', ps') \<Longrightarrow> list_all2 (kept_or_spilled policy) ps ps'"
  by (induction ps arbitrary: used used' ps')
    (auto simp: Let_def kept_or_spilled_def spilled_def list_all2_same split: if_splits prod.splits)

lemma spill_rev_other:
  assumes "spill_rev policy d usable used ps = (used', ps')" "pp_spill_store policy \<noteq> Vram e" "e \<noteq> d"
  shows "on_device e (rev ps') = on_device e (rev ps)"
  using assms by (induction ps arbitrary: used used' ps') (auto simp: Let_def split: if_splits prod.splits)

lemma device_weight_bytes_exact:
  "bytes_of ps \<le> u64_max \<Longrightarrow> device_weight_bytes d ps = bytes_of (on_device d ps)"
  using bytes_of_on_device [of d ps]
  by (simp add: device_weight_bytes_def sum_u64_def wrap64_def bytes_of_def on_device_def)

lemma longest_fitting_all: "reserved + bytes_of L \<le> usable \<Longrightarrow> longest_fitting reserved usable L L"
  by (auto simp: longest_fitting_def intro!: exI [of _ "length L"])

lemma spill_longest_fitting:
  assumes "spill_rev policy d usable (reserved + bytes_of (on_device d ps)) (rev ps) = (used', ps')"
    and "pp_spill_store policy \<noteq> Vram d"
  shows "longest_fitting reserved usable (on_device d ps) (on_device d (rev ps'))"
proof -
  let ?L = "on_device d ps"
  from spill_rev_keeps [OF assms] obtain m where m: "m \<le> length ?L" "on_device d (rev ps') = take m ?L"
    "used' = reserved + bytes_of ?L - bytes_of (drop m ?L)" "used' \<le> usable \<or> m = 0"
    and above: "\<And>j. m < j \<Longrightarrow> j \<le> length ?L \<Longrightarrow> usable < reserved + bytes_of ?L - bytes_of (drop j ?L)"
    by auto
  have split: "reserved + bytes_of ?L - bytes_of (drop j ?L) = reserved + bytes_of (take j ?L)" for j
    using bytes_of_split [of ?L j] by simp
  show ?thesis
    unfolding longest_fitting_def using m above unfolding split by (intro exI [of _ m]) auto
qed

text \<open>The effect of the loop over the devices, each visited once.\<close>

lemma trim_longest_fitting:
  assumes "trim_vram_to_budget pools kv policy ps w = (ps', w')"
    and "distinct (map mp_device pools)" and spill: "\<And>d. pp_spill_store policy \<noteq> Vram d"
    and "kc_estimated_bytes kv + bytes_of ps \<le> u64_max"
  shows "(\<forall>d. d \<notin> mp_device ` set pools \<longrightarrow> on_device d ps' = on_device d ps) \<and>
    (\<forall>pool \<in> set pools. longest_fitting (runtime_vram kv (mp_device pool)) (mp_usable_bytes pool)
       (on_device (mp_device pool) ps) (on_device (mp_device pool) ps'))"
  using assms(1, 2, 4)
proof (induction pools arbitrary: ps w)
  case (Cons pool pools)
  let ?d = "mp_device pool" and ?u = "mp_usable_bytes pool"
  have runtime: "runtime_vram kv e \<le> kc_estimated_bytes kv" for e by (simp add: runtime_vram_def)
  have small: "bytes_of ps \<le> u64_max" using Cons.prems(3) by simp
  have "runtime_vram kv ?d + bytes_of (on_device ?d ps) \<le> u64_max"
    using runtime [of ?d] bytes_of_on_device [of ?d ps] Cons.prems(3) by linarith
  then have used: "wrapping_add (runtime_vram kv ?d) (device_weight_bytes ?d ps)
      = runtime_vram kv ?d + bytes_of (on_device ?d ps)"
    unfolding device_weight_bytes_exact [OF small] by (simp add: wrapping_add_def u64_max_def)
  show ?case
  proof (cases "runtime_vram kv ?d + bytes_of (on_device ?d ps) \<le> ?u")
    case True
    then have rest: "trim_vram_to_budget pools kv policy ps w = (ps', w')"
      using Cons.prems(1) by (simp add: Let_def used)
    from Cons.IH [OF rest _ Cons.prems(3)] Cons.prems(2) True show ?thesis
      by (auto simp: longest_fitting_all)
  next
    case False
    obtain u qs where qs: "spill_rev policy ?d ?u
        (runtime_vram kv ?d + bytes_of (on_device ?d ps)) (rev ps) = (u, qs)" by force
    obtain w2 where rest: "trim_vram_to_budget pools kv policy (rev qs) w2 = (ps', w')"
      using Cons.prems(1) False by (simp add: Let_def used qs)
    have "map rp_weight_bytes qs = map rp_weight_bytes (rev ps)"
      using spill_rev_moves [OF qs]
      by (induction rule: list_all2_induct) (auto simp: kept_or_spilled_def spilled_def)
    then have "bytes_of (rev qs) = bytes_of ps"
      unfolding bytes_of_def by (metis rev_map rev_rev_ident)
    with Cons.prems(3) have room: "kc_estimated_bytes kv + bytes_of (rev qs) \<le> u64_max" by simp
    note later = Cons.IH [OF rest _ room]
    have here: "longest_fitting (runtime_vram kv ?d) ?u (on_device ?d ps) (on_device ?d (rev qs))"
      by (rule spill_longest_fitting [OF qs spill])
    have other: "on_device e (rev qs) = on_device e ps" if "e \<noteq> ?d" for e
      using spill_rev_other [OF qs spill that] by simp
    show ?thesis
    proof (intro conjI allI impI ballI)
      fix e assume "e \<notin> mp_device ` set (pool # pools)"
      then show "on_device e ps' = on_device e ps" using later other [of e] Cons.prems(2) by auto
    next
      fix p assume p: "p \<in> set (pool # pools)"
      show "longest_fitting (runtime_vram kv (mp_device p)) (mp_usable_bytes p)
          (on_device (mp_device p) ps) (on_device (mp_device p) ps')"
      proof (cases "p \<in> set pools")
        case True
        then have "mp_device p \<noteq> ?d" using Cons.prems(2) by (auto simp: image_iff)
        then show ?thesis using later True other Cons.prems(2) by auto
      next
        case False
        then show ?thesis using p later here Cons.prems(2) by auto
      qed
    qed
  qed
qed simp

lemma kept_or_spilled_trans:
  "kept_or_spilled policy p q \<Longrightarrow> kept_or_spilled policy q r \<Longrightarrow> kept_or_spilled policy p r"
  by (cases p) (auto simp: kept_or_spilled_def spilled_def)

lemma trim_moves:
  "trim_vram_to_budget pools kv policy ps w = (ps', w') \<Longrightarrow> list_all2 (kept_or_spilled policy) ps ps'"
proof (induction pools arbitrary: ps w)
  case Nil
  then show ?case by (simp add: kept_or_spilled_def list_all2_same)
next
  case (Cons pool pools)
  obtain u qs where qs: "spill_rev policy (mp_device pool) (mp_usable_bytes pool)
      (wrapping_add (runtime_vram kv (mp_device pool)) (device_weight_bytes (mp_device pool) ps)) (rev ps) = (u, qs)"
    by force
  from spill_rev_moves [OF qs] have "list_all2 (kept_or_spilled policy) ps (rev qs)"
    by (metis list_all2_rev rev_rev_ident)
  then have later: "list_all2 (kept_or_spilled policy) ps ps'"
    if "list_all2 (kept_or_spilled policy) (rev qs) ps'"
    using that kept_or_spilled_trans list_all2_trans
      [of "kept_or_spilled policy" "kept_or_spilled policy" "kept_or_spilled policy" ps "rev qs" ps'] by blast
  show ?case
    using Cons.prems qs by (auto simp: Let_def split: if_splits intro: Cons.IH later)
qed

lemma plan_Inr:
  assumes "plan name graph inventory policy = Inr pl"
  shows "0 < pp_context_size policy" "pl_budget pl = budget_from_inventory inventory policy"
    "pl_kv_cache pl = kv_placement graph policy"
    "trim_vram_to_budget (mb_vram (pl_budget pl)) (pl_kv_cache pl) policy
       (map (place_region graph policy) (mg_regions graph)) [] = (pl_region_placements pl, pl_warnings pl)"
  using assms by (auto simp: plan_def Let_def split: if_splits prod.splits)

section \<open>Properties of a plan\<close>

text \<open>
  C17: with a host spill store, every device keeps the longest prefix, in region order, of the
  regions its rules put there whose bytes fit its usable memory beside what the planner reserves for the
  KV cache; the others are spilled from the back. The planner reserves the whole estimate of the KV
  cache on the device that \<^verbatim>\<open>kv_cache.store\<close> names and nothing on any other, not even for KV layers that a
  first-N split puts there (\<open>kv_first_layers_unbudgeted\<close>). If the reservation alone exceeds the device,
  it keeps none of them. GPU indices are distinct and the byte counts fit 64 bits.
\<close>

theorem plan_keeps_longest_prefix:
  assumes "plan name graph inventory policy = Inr pl"
    and "distinct (map gpu_index (hw_gpus inventory))"
    and "\<And>d. pp_spill_store policy \<noteq> Vram d"
    and "estimate_kv_cache_bytes graph policy
           + bytes_of (map (place_region graph policy) (mg_regions graph)) \<le> u64_max"
    and "pool \<in> set (mb_vram (pl_budget pl))"
  shows "longest_fitting
      (if pp_kv_store policy = Vram (mp_device pool) then estimate_kv_cache_bytes graph policy else 0)
      (mp_usable_bytes pool)
    (on_device (mp_device pool) (map (place_region graph policy) (mg_regions graph)))
    (on_device (mp_device pool) (pl_region_placements pl))"
proof -
  note parts = plan_Inr [OF assms(1)]
  have reserved: "runtime_vram (pl_kv_cache pl) (mp_device pool)
      = (if pp_kv_store policy = Vram (mp_device pool) then estimate_kv_cache_bytes graph policy else 0)"
    by (simp add: parts(3) runtime_vram_def kv_placement_def)
  have "distinct (map mp_device (mb_vram (pl_budget pl)))"
    using assms(2) by (simp add: parts(2) budget_from_inventory_def o_def)
  moreover have "kc_estimated_bytes (pl_kv_cache pl)
      + bytes_of (map (place_region graph policy) (mg_regions graph)) \<le> u64_max"
    using assms(4) by (simp add: parts(3) kv_placement_def)
  ultimately show ?thesis
    using trim_longest_fitting [OF parts(4) _ assms(3)] assms(5) unfolding reserved [symmetric] by blast
qed

lemma rules_loop_selected:
  "rules_loop rules region num_layers s c =
     (let selected = filter (\<lambda>r. selector_matches (ru_selector r) region num_layers) rules;
          stores = List.map_filter ru_store selected; computes = List.map_filter ru_compute selected
      in (if stores = [] then s else last stores, if computes = [] then c else last computes))"
  by (induction rules arbitrary: s c)
    (auto simp: Let_def map_filter_simps unwrap_or_def split: option.splits)

lemma rules_loop_append:
  "rules_loop (rules @ more_rules) region num_layers s c =
     (case rules_loop rules region num_layers s c of (s, c) \<Rightarrow> rules_loop more_rules region num_layers s c)"
  by (induction rules arbitrary: s c) simp_all

text \<open>
  A plan has one placement for every region of the graph, in order, with the region's id, kind,
  layer and bytes; it stands where the rules put the region or at the spill placement, and its
  transfer is the one that its storage and its compute device need.
\<close>

theorem plan_places_every_region:
  assumes "plan name graph inventory policy = Inr pl"
  shows "list_all2 (\<lambda>region p.
      rp_region_id p = gr_id region \<and> rp_kind p = gr_kind region \<and>
      rp_layer_index p = gr_layer_index region \<and> rp_weight_bytes p = weight_bytes region \<and>
      ((rp_store p, rp_compute p) = apply_rules region (mg_num_layers graph) policy
        \<or> (rp_store p, rp_compute p) = (pp_spill_store policy, pp_spill_compute policy)) \<and>
      rp_transfer p = transfer_policy_of (rp_store p) (rp_compute p))
    (mg_regions graph) (pl_region_placements pl)"
proof -
  have "list_all2 (\<lambda>region p. kept_or_spilled policy (place_region graph policy region) p)
      (mg_regions graph) (pl_region_placements pl)"
    using trim_moves [OF plan_Inr(4) [OF assms]] by (simp add: list.rel_map)
  then show ?thesis
    by (rule list_all2_mono)
      (auto simp: kept_or_spilled_def spilled_def place_region_def split: prod.splits)
qed

text \<open>
  The last rule that selects a region and names a store decides its store, and the default
  store holds when there is none; the compute device is decided in the same way.
\<close>

theorem last_rule_wins:
  "apply_rules region num_layers policy =
     (let selected = filter (\<lambda>r. selector_matches (ru_selector r) region num_layers) (pp_rules policy);
          stores = List.map_filter ru_store selected; computes = List.map_filter ru_compute selected
      in (if stores = [] then pp_weights_store policy else last stores,
          if computes = [] then pp_weights_compute policy else last computes))"
  by (simp add: apply_rules_def rules_loop_selected)

lemma fold_saturating_add:
  "acc + (\<Sum>i \<leftarrow> is. f i) \<le> u64_max \<Longrightarrow>
   fold (\<lambda>i acc. saturating_add acc (f i)) is acc = acc + (\<Sum>i \<leftarrow> is. f i)"
  by (induction "is" arbitrary: acc) (simp_all add: saturating_add_exact add.assoc)

text \<open>
  While nothing saturates, the KV estimate is the exact sum over the layers of the bytes of
  their keys and values: the window or context length times the heads and head size of the layer.
\<close>

theorem kv_estimate_exact:
  fixes graph policy
  defines "cap \<equiv> \<lambda>m. case lm_attention_pattern m of
      SlidingWindow w \<Rightarrow> min w (pp_context_size policy) | _ \<Rightarrow> pp_context_size policy"
  defines "values \<equiv> (\<Sum>m \<leftarrow> mg_layer_metadata graph. cap m * 2 * lm_num_kv_heads m * lm_head_dim m)"
  assumes "length (mg_layer_metadata graph) = mg_num_layers graph"
    and "values * pair_bytes (pp_kv_quantization policy) \<le> u64_max"
  shows "estimate_kv_cache_bytes graph policy
    = (values * pair_bytes (pp_kv_quantization policy) + 1) div 2"
proof -
  let ?v = "\<lambda>m. cap m * 2 * lm_num_kv_heads m * lm_head_dim m"
  let ?ms = "mg_layer_metadata graph"
  have pair: "0 < pair_bytes q" for q by (cases q) (simp_all add: pair_bytes_def)
  have "values \<le> values * pair_bytes (pp_kv_quantization policy)"
    using pair [of "pp_kv_quantization policy"] by simp
  with assms(4) have small: "values \<le> u64_max" by linarith
  have layer: "layer_values graph policy i = ?v (?ms ! i)" if i: "i < mg_num_layers graph" for i
  proof -
    have "?v (?ms ! i) \<le> values"
      unfolding values_def using i assms(3) by (intro member_le_sum_list) auto
    with small have bound: "?v (?ms ! i) \<le> u64_max" by linarith
    show ?thesis
    proof (cases "lm_num_kv_heads (?ms ! i) = 0 \<or> lm_head_dim (?ms ! i) = 0")
      case True
      then show ?thesis
        using i assms(3) by (auto simp: layer_values_def graph_layer_def vec_get_def saturating_mul_def)
    next
      case False
      then have "cap (?ms ! i) * 2 * lm_num_kv_heads (?ms ! i) \<le> ?v (?ms ! i)"
        "cap (?ms ! i) * 2 \<le> cap (?ms ! i) * 2 * lm_num_kv_heads (?ms ! i)" by simp_all
      with bound have "cap (?ms ! i) * 2 \<le> u64_max"
        "cap (?ms ! i) * 2 * lm_num_kv_heads (?ms ! i) \<le> u64_max" by linarith+
      then show ?thesis
        using i assms(3) bound
        by (simp add: layer_values_def graph_layer_def vec_get_def saturating_mul_exact cap_def
            split: attention_pattern.split)
    qed
  qed
  have "(\<Sum>i \<leftarrow> [0..<mg_num_layers graph]. layer_values graph policy i)
      = (\<Sum>i \<leftarrow> [0..<length ?ms]. ?v (?ms ! i))"
    unfolding assms(3) using layer by (intro arg_cong [where f = sum_list] map_cong) auto
  also have "\<dots> = values"
    unfolding values_def by (metis (no_types, lifting) map_map map_nth o_def map_eq_conv)
  finally have total: "(\<Sum>i \<leftarrow> [0..<mg_num_layers graph]. layer_values graph policy i) = values" .
  then have "fold (\<lambda>i acc. saturating_add acc (layer_values graph policy i)) [0..<mg_num_layers graph] 0 = values"
    using fold_saturating_add [of 0 "layer_values graph policy" "[0..<mg_num_layers graph]"] small by simp
  then show ?thesis
    using assms(4) by (simp add: estimate_kv_cache_bytes_def saturating_mul_exact div_ceil_def)
qed

text \<open>
  The KV layers that a split puts on a device are not reserved there: the trim only looks at
  the tail store, and is the same with and without the split.
\<close>

theorem kv_first_layers_unbudgeted:
  fixes kv n d
  defines "split_kv \<equiv> kv\<lparr>kc_first_n_layers := Some n, kc_first_store := Some (Vram d)\<rparr>"
  assumes "kc_store kv = Ram"
  shows "(\<forall>i < n. store_for_layer split_kv i = Vram d) \<and> runtime_vram split_kv d = 0 \<and>
    trim_vram_to_budget pools split_kv policy ps w = trim_vram_to_budget pools kv policy ps w"
proof -
  have same: "runtime_vram split_kv e = runtime_vram kv e" for e
    by (simp add: runtime_vram_def split_kv_def)
  have "trim_vram_to_budget pools split_kv policy ps w = trim_vram_to_budget pools kv policy ps w" for ps w
    by (induction pools arbitrary: ps w) (simp_all add: Let_def same)
  then show ?thesis using assms(2) by (simp add: split_kv_def store_for_layer_def runtime_vram_def)
qed

section \<open>A model on a small device\<close>

definition demo_tensor :: "string \<Rightarrow> nat \<Rightarrow> graph_tensor" where
  "demo_tensor name bytes =
     \<lparr>gt_role = TrQuery, gt_info =
        \<lparr>ti_name = name, ti_dtype = U8, ti_shape = [bytes], ti_num_elements = bytes,
         ti_data_offsets = (0, bytes), ti_file_offsets = (8, 8 + bytes), ti_shard_name = ''m'',
         ti_shard_path = ''m''\<rparr>\<rparr>"

definition demo_layer :: "nat \<Rightarrow> graph_region" where
  "demo_layer i =
     \<lparr>gr_id = ''layer.'' @ show_nat i, gr_kind = RkTransformerBlock, gr_layer_index = Some i,
      gr_tensors = [demo_tensor ''q'' 60, demo_tensor ''k'' 40]\<rparr>"

definition demo_meta :: "nat \<Rightarrow> layer_metadata" where
  "demo_meta i =
     \<lparr>lm_layer_idx = i, lm_kind = DenseDecoder,
      lm_attention_pattern = (if i = 0 then SlidingWindow 4 else FullCausal), lm_head_dim = 2, lm_num_kv_heads = 1\<rparr>"

definition demo_model :: model_graph where
  "demo_model =
     \<lparr>mg_model_type = ''llama'', mg_architecture = ''llama'', mg_hidden_size = 2,
      mg_intermediate_size = None, mg_num_layers = 2, mg_num_attention_heads = 1,
      mg_num_kv_heads = 1, mg_head_dim = 2, mg_vocab_size = None, mg_weight_quantization = WqNone,
      mg_regions = [demo_layer 0, demo_layer 1], mg_layer_metadata = [demo_meta 0, demo_meta 1],
      mg_norm_pattern = PreOnly, mg_is_sliced = False, mg_text_prefix = ''model.''\<rparr>"

definition demo_inventory :: hardware_inventory where
  "demo_inventory =
     \<lparr>hw_ram_total_bytes = 1024, hw_ram_available_bytes = None, hw_avx2 = True, hw_avx512 = False,
      hw_bf16 = False,
      hw_gpus = [\<lparr>gpu_index = 0, gpu_name = ''gpu'', gpu_vram_total_bytes = 256,
                  gpu_vram_free_bytes = Some 250, gpu_arch = Hopper\<rparr>]\<rparr>"

definition demo_policy :: placement_policy where
  "demo_policy = (auto_for demo_inventory)\<lparr>pp_context_size := 8, pp_reserve_vram_bytes := 0\<rparr>"

lemma demo_auto: "auto_for demo_inventory =
    \<lparr>pp_weights_store = Vram 0, pp_weights_compute = Cuda 0, pp_spill_store = Mmap,
     pp_spill_compute = Cuda 0, pp_kv_store = Vram 0, pp_kv_compute = Cuda 0,
     pp_kv_quantization = KvF16, pp_context_size = 8192, pp_reserve_ram_bytes = 4 * GiB,
     pp_reserve_vram_bytes = GiB, pp_linear_layout = default_layout_policy, pp_rules = [],
     pp_kv_first_n_layers = None, pp_kv_first_store = None, pp_attention_store_override = None,
     pp_attention_compute_override = None, pp_experts_compute_override = None,
     pp_experts_store_override = None, pp_attention_quantization = OvDefault,
     pp_shared_mlp_quantization = OvDefault\<rparr>"
  by (simp add: auto_for_def preferred_cuda_def max_by_key_def demo_inventory_def)

lemma demo_estimate: "estimate_kv_cache_bytes demo_model demo_policy = 96"
  by (simp add: estimate_kv_cache_bytes_def demo_model_def demo_policy_def demo_auto layer_values_def
      graph_layer_def vec_get_def demo_meta_def saturating_mul_def saturating_add_def u64_max_def
      pair_bytes_def div_ceil_def upt_rec)

lemma demo_bytes: "weight_bytes (demo_layer i) = 100"
  by (simp add: weight_bytes_def demo_layer_def demo_tensor_def data_len_bytes_def sum_u64_def wrap64_def
      u64_max_def)

lemma kv_estimate_exact_witness:
  "estimate_kv_cache_bytes demo_model demo_policy = ((4 * 2 * 1 * 2 + 8 * 2 * 1 * 2) * 4 + 1) div 2"
  by (subst kv_estimate_exact)
    (simp_all add: demo_model_def demo_policy_def demo_auto demo_meta_def pair_bytes_def u64_max_def)

lemma demo_plan:
  "\<exists>pl. plan ''m'' demo_model demo_inventory demo_policy = Inr pl \<and>
     pl_budget pl = budget_from_inventory demo_inventory demo_policy"
  using plan_Inr(2) by (fastforce simp: plan_def Let_def demo_policy_def split: prod.splits)

lemma plan_keeps_longest_prefix_witness:
  "\<exists>pl. plan ''m'' demo_model demo_inventory demo_policy = Inr pl \<and>
     longest_fitting (if pp_kv_store demo_policy = Vram 0 then estimate_kv_cache_bytes demo_model demo_policy else 0) 250
       (on_device 0 (map (place_region demo_model demo_policy) (mg_regions demo_model)))
       (on_device 0 (pl_region_placements pl))"
proof -
  obtain pl where pl: "plan ''m'' demo_model demo_inventory demo_policy = Inr pl"
    and budget: "pl_budget pl = budget_from_inventory demo_inventory demo_policy"
    using demo_plan by blast
  define pool where "pool = \<lparr>mp_device = 0, mp_total_bytes = 256, mp_usable_bytes = 250\<rparr>"
  have "pool \<in> set (mb_vram (pl_budget pl))"
    by (simp add: budget budget_from_inventory_def demo_inventory_def demo_policy_def pool_def)
  moreover have "bytes_of (map (place_region demo_model demo_policy) (mg_regions demo_model)) = 200"
    by (simp add: demo_model_def place_region_def demo_bytes split: prod.split)
  then have "estimate_kv_cache_bytes demo_model demo_policy
      + bytes_of (map (place_region demo_model demo_policy) (mg_regions demo_model)) \<le> u64_max"
    by (simp add: demo_estimate u64_max_def)
  moreover have "distinct (map gpu_index (hw_gpus demo_inventory))" by (simp add: demo_inventory_def)
  moreover have "pp_spill_store demo_policy \<noteq> Vram d" for d by (simp add: demo_policy_def demo_auto)
  ultimately have "longest_fitting
      (if pp_kv_store demo_policy = Vram (mp_device pool) then estimate_kv_cache_bytes demo_model demo_policy else 0)
      (mp_usable_bytes pool)
      (on_device (mp_device pool) (map (place_region demo_model demo_policy) (mg_regions demo_model)))
      (on_device (mp_device pool) (pl_region_placements pl))"
    by (intro plan_keeps_longest_prefix [OF pl])
  with pl show ?thesis by (auto simp: pool_def)
qed

lemma plan_places_every_region_witness:
  "\<exists>pl. plan ''m'' demo_model demo_inventory demo_policy = Inr pl \<and>
     map rp_region_id (pl_region_placements pl) = map gr_id (mg_regions demo_model)"
proof -
  obtain pl where pl: "plan ''m'' demo_model demo_inventory demo_policy = Inr pl" using demo_plan by blast
  from plan_places_every_region [OF pl]
  have "list_all2 (\<lambda>r p. rp_region_id p = gr_id r) (mg_regions demo_model) (pl_region_placements pl)"
    by (rule list_all2_mono) blast
  then have "map rp_region_id (pl_region_placements pl) = map gr_id (mg_regions demo_model)"
    by (induction rule: list_all2_induct) simp_all
  with pl show ?thesis by blast
qed

lemma kv_first_layers_unbudgeted_witness:
  "store_for_layer ((kv_placement demo_model (demo_policy\<lparr>pp_kv_store := Ram\<rparr>))
      \<lparr>kc_first_n_layers := Some 2, kc_first_store := Some (Vram 0)\<rparr>) 1 = Vram 0"
  using kv_first_layers_unbudgeted [of "kv_placement demo_model (demo_policy\<lparr>pp_kv_store := Ram\<rparr>)" 2 0]
  by (simp add: kv_placement_def)

definition crowded_policy :: placement_policy where
  "crowded_policy = demo_policy\<lparr>pp_kv_store := Ram, pp_spill_store := Vram 0\<rparr>"

definition crowded_regions :: "region_placement list" where
  "crowded_regions =
     map (\<lambda>(i, d). \<lparr>rp_region_id = ''layer.'' @ show_nat i, rp_kind = RkTransformerBlock, rp_layer_index = Some i,
                   rp_weight_bytes = 100, rp_store = Vram d, rp_compute = Cuda d, rp_transfer = NoTransfer\<rparr>)
       [(0, 0), (1, 0), (2, 1), (3, 1), (4, 1)]"

definition two_pools :: "memory_pool list" where
  "two_pools = [\<lparr>mp_device = 0, mp_total_bytes = 256, mp_usable_bytes = 250\<rparr>,
                \<lparr>mp_device = 1, mp_total_bytes = 256, mp_usable_bytes = 250\<rparr>]"

text \<open>
  A spill store on another device is not checked against that device: with two devices of 250
  bytes and regions of 200 and 300 bytes, KV cache in host memory, the second device spills a
  region onto the first, which then holds more than it can, and the only warning names the second.
\<close>

theorem spill_overflows_checked_device:
  "case trim_vram_to_budget two_pools (kv_placement demo_model crowded_policy) crowded_policy crowded_regions [] of
     (ps, warnings) \<Rightarrow> device_weight_bytes 0 ps = 300 \<and>
       warnings = [spill_warning 1 200 250 0]"
  by (simp add: two_pools_def crowded_regions_def crowded_policy_def runtime_vram_def kv_placement_def
      device_weight_bytes_def sum_u64_def wrap64_def wrapping_add_def u64_max_def Let_def demo_policy_def demo_auto)

end
