(* ===== verification/TensorStorage.thy ===== *)
theory TensorStorage
  imports Placement "HOL-Library.Multiset"
begin

text \<open>
  Storage of tensors (\<^verbatim>\<open>aegisllm-base/src/tensor/storage.rs\<close>): the storage plan of a
  placement with its totals, and the loader that reads or maps the bytes of a tensor. The file
  system is the parameter of the registry; mapping a file (\<^verbatim>\<open>memmap2\<close>) is a parameter
  that gives the mapped bytes or an error. \<open>None\<close> is a panic: a slice out of range or an allocation
  beyond \<^verbatim>\<open>isize::MAX\<close>. Hints to the kernel about cached pages are left out.
\<close>

section \<open>Storage plans\<close>

datatype tensor_residency_plan =
    RamResident
  | FileBackedMmap
  | VramResident nat
  | StagedHostToDevice nat
  | StagedDeviceToHost nat
  | CrossDeviceStaged (cd_store: nat) (cd_compute: nat)

fun residency_for :: "storage_placement \<Rightarrow> compute_placement \<Rightarrow> tensor_residency_plan" where
  "residency_for Ram Cpu = RamResident"
| "residency_for Mmap Cpu = FileBackedMmap"
| "residency_for (Vram s) (Cuda d) = (if s = d then VramResident d else CrossDeviceStaged s d)"
| "residency_for (Vram s) (Wgpu d) = (if s = d then VramResident d else CrossDeviceStaged s d)"
| "residency_for Ram (Cuda d) = StagedHostToDevice d"
| "residency_for Ram (Wgpu d) = StagedHostToDevice d"
| "residency_for Mmap (Cuda d) = StagedHostToDevice d"
| "residency_for Mmap (Wgpu d) = StagedHostToDevice d"
| "residency_for (Vram s) Cpu = StagedDeviceToHost s"

record tensor_storage_plan =
  ts_name :: string
  ts_region_id :: region_id
  ts_role :: tensor_role
  ts_bytes :: nat
  ts_store :: storage_placement
  ts_compute :: compute_placement
  ts_residency :: tensor_residency_plan
  ts_transfer :: transfer_policy

record storage_totals =
  st_ram_resident_bytes :: nat
  st_mmap_file_backed_bytes :: nat
  st_vram_resident_bytes :: "(nat \<times> nat) list"
  st_staged_host_to_device_peak_bytes :: "(nat \<times> nat) list"

record storage_plan =
  so_tensors :: "tensor_storage_plan list"
  so_totals :: storage_totals

text \<open>
  \<^verbatim>\<open>add_bytes\<close> and \<^verbatim>\<open>set_peak\<close> share their loop: the first entry of the device is
  merged with the new bytes, and a new entry is pushed when there is none.
\<close>

fun upsert :: "(nat \<Rightarrow> nat \<Rightarrow> nat) \<Rightarrow> (nat \<times> nat) list \<Rightarrow> nat \<Rightarrow> nat \<Rightarrow> (nat \<times> nat) list" where
  "upsert merge [] device bytes = [(device, bytes)]"
| "upsert merge ((entry, v) # values) device bytes =
     (if entry = device then (entry, merge v bytes) # values
      else (entry, v) # upsert merge values device bytes)"

definition add_bytes :: "(nat \<times> nat) list \<Rightarrow> nat \<Rightarrow> nat \<Rightarrow> (nat \<times> nat) list" where
  "add_bytes = upsert wrapping_add"

definition set_peak :: "(nat \<times> nat) list \<Rightarrow> nat \<Rightarrow> nat \<Rightarrow> (nat \<times> nat) list" where
  "set_peak = upsert max"

definition add_tensor :: "tensor_storage_plan \<Rightarrow> storage_totals \<Rightarrow> storage_totals" where
  "add_tensor t totals =
     (let totals =
        (case ts_store t of
           Ram \<Rightarrow> totals\<lparr>st_ram_resident_bytes := wrapping_add (st_ram_resident_bytes totals) (ts_bytes t)\<rparr>
         | Mmap \<Rightarrow> totals\<lparr>st_mmap_file_backed_bytes :=
                           wrapping_add (st_mmap_file_backed_bytes totals) (ts_bytes t)\<rparr>
         | Vram device \<Rightarrow> totals\<lparr>st_vram_resident_bytes :=
                           add_bytes (st_vram_resident_bytes totals) device (ts_bytes t)\<rparr>)
      in case ts_residency t of
           StagedHostToDevice device \<Rightarrow>
             totals\<lparr>st_staged_host_to_device_peak_bytes :=
               set_peak (st_staged_host_to_device_peak_bytes totals) device (ts_bytes t)\<rparr>
         | _ \<Rightarrow> totals)"

definition totals_from_tensors :: "tensor_storage_plan list \<Rightarrow> storage_totals" where
  "totals_from_tensors tensors =
     fold add_tensor tensors
       \<lparr>st_ram_resident_bytes = 0, st_mmap_file_backed_bytes = 0, st_vram_resident_bytes = [],
        st_staged_host_to_device_peak_bytes = []\<rparr>"

definition storage_of_tensor :: "graph_region \<Rightarrow> region_placement \<Rightarrow> graph_tensor \<Rightarrow> tensor_storage_plan" where
  "storage_of_tensor region p t =
     \<lparr>ts_name = ti_name (gt_info t), ts_region_id = gr_id region, ts_role = gt_role t,
      ts_bytes = data_len_bytes (gt_info t), ts_store = rp_store p, ts_compute = rp_compute p,
      ts_residency = residency_for (rp_store p) (rp_compute p), ts_transfer = rp_transfer p\<rparr>"

definition from_graph_and_placement :: "model_graph \<Rightarrow> resolved_placement \<Rightarrow> storage_plan" where
  "from_graph_and_placement graph pl =
     (let placements = region_map pl;
          tensors = concat (map (\<lambda>region.
            case map_of placements (gr_id region) of
              None \<Rightarrow> []
            | Some p \<Rightarrow> map (storage_of_tensor region p) (gr_tensors region)) (mg_regions graph))
      in \<lparr>so_tensors = tensors, so_totals = totals_from_tensors tensors\<rparr>)"

definition tensors_in_region :: "storage_plan \<Rightarrow> region_id \<Rightarrow> tensor_storage_plan list" where
  "tensors_in_region sp i = filter (\<lambda>t. ts_region_id t = i) (so_tensors sp)"

section \<open>Slices of nested weights\<close>

record nested_param_slice =
  ns_rows_end :: "nat option"
  ns_cols_end :: "nat option"

definition effective_shape ::
  "nested_param_slice \<Rightarrow> nat list \<Rightarrow> tensor_dtype \<Rightarrow> (nat \<times> nat \<times> nat) aegis_result" where
  "effective_shape sl full_shape dtype =
     (if length full_shape \<noteq> 2
      then Inl (InvalidPlan ''NestedParamSlice requires a 2-D tensor'')
      else let full_rows = full_shape ! 0; full_cols = full_shape ! 1;
               eff_rows = (case ns_rows_end sl of None \<Rightarrow> full_rows | Some r \<Rightarrow> min r full_rows);
               eff_cols = (case ns_cols_end sl of None \<Rightarrow> full_cols | Some c \<Rightarrow> min c full_cols)
           in if eff_rows = 0 \<or> eff_cols = 0
              then Inl (InvalidPlan ''NestedParamSlice would produce an empty tensor'')
              else Inr (eff_rows, eff_cols, wrap64 (eff_rows * eff_cols * bytes_per_element dtype)))"

section \<open>The loader\<close>

datatype host_tensor_storage =
    RamBytes "nat list"
  | MmapBytes (mm_map: "nat list") (mm_offset: nat) (mm_len: nat)

record loaded_host_tensor =
  lt_name :: string
  lt_storage :: host_tensor_storage
  lt_shard_path :: string

datatype host_load_mode = LoadRam | LoadMmap

type_synonym loader = "(string, nat list) btree_map"

text \<open>\<^verbatim>\<open>&bytes[start..end]\<close>.\<close>

definition slice :: "nat list \<Rightarrow> nat \<Rightarrow> nat \<Rightarrow> nat list option" where
  "slice bytes start stop =
     (if start \<le> stop \<and> stop \<le> length bytes then Some (take (stop - start) (drop start bytes)) else None)"

definition storage_bytes :: "host_tensor_storage \<Rightarrow> nat list option" where
  "storage_bytes s =
     (case s of
        RamBytes bytes \<Rightarrow> Some bytes
      | MmapBytes m offset len \<Rightarrow> slice m offset (wrapping_add offset len))"

definition as_bytes :: "loaded_host_tensor \<Rightarrow> nat list option" where
  "as_bytes t = storage_bytes (lt_storage t)"

text \<open>Opening, seeking to an offset that \<^verbatim>\<open>lseek\<close> takes, allocating and reading exactly.\<close>

definition read_tensor_bytes :: "file_system \<Rightarrow> tensor_info \<Rightarrow> nat list aegis_result option" where
  "read_tensor_bytes fs tensor =
     (let len = data_len_bytes tensor; offset = fst (ti_file_offsets tensor)
      in case fs (ti_shard_path tensor) of
           None \<Rightarrow> Some (Inl (Io ''open''))
         | Some content \<Rightarrow>
             if offset > isize_max then Some (Inl (Io ''seek''))
             else if len > isize_max then None
             else if len > 0 \<and> offset + len > length content then Some (Inl (Io ''read_exact''))
             else Some (Inr (take len (drop offset content))))"

definition mmap_shard ::
  "file_system \<Rightarrow> (nat list \<Rightarrow> nat list aegis_result) \<Rightarrow> loader \<Rightarrow> string \<Rightarrow> nat list aegis_result \<times> loader" where
  "mmap_shard fs map_file mmaps path =
     (case map_of mmaps path of
        Some m \<Rightarrow> (Inr m, mmaps)
      | None \<Rightarrow>
          (case fs path of
             None \<Rightarrow> (Inl (Io ''open''), mmaps)
           | Some content \<Rightarrow>
               (case map_file content of
                  Inl e \<Rightarrow> (Inl e, mmaps)
                | Inr m \<Rightarrow> (Inr m, bt_insert path m mmaps))))"

definition shard_mmap :: "loader \<Rightarrow> string \<Rightarrow> nat list option" where
  "shard_mmap mmaps path = map_of mmaps path"

definition load ::
  "file_system \<Rightarrow> (nat list \<Rightarrow> nat list aegis_result) \<Rightarrow> loader \<Rightarrow> tensor_info \<Rightarrow> host_load_mode
     \<Rightarrow> (loaded_host_tensor aegis_result \<times> loader) option" where
  "load fs map_file mmaps tensor mode =
     (let finish = (\<lambda>storage. \<lparr>lt_name = ti_name tensor, lt_storage = storage,
                              lt_shard_path = ti_shard_path tensor\<rparr>)
      in case mode of
           LoadRam \<Rightarrow>
             map_option (\<lambda>r. (map_sum id (\<lambda>bytes. finish (RamBytes bytes)) r, mmaps))
               (read_tensor_bytes fs tensor)
         | LoadMmap \<Rightarrow>
             (case mmap_shard fs map_file mmaps (ti_shard_path tensor) of
                (r, mmaps) \<Rightarrow>
                  Some (map_sum id (\<lambda>m. finish (MmapBytes m (fst (ti_file_offsets tensor))
                                                 (data_len_bytes tensor))) r, mmaps)))"

definition load_for_store ::
  "file_system \<Rightarrow> (nat list \<Rightarrow> nat list aegis_result) \<Rightarrow> loader \<Rightarrow> tensor_info \<Rightarrow> storage_placement
     \<Rightarrow> (loaded_host_tensor aegis_result \<times> loader) option" where
  "load_for_store fs map_file mmaps tensor store =
     load fs map_file mmaps tensor (case store of Ram \<Rightarrow> LoadRam | _ \<Rightarrow> LoadMmap)"

text \<open>The loop over the rows; a row outside the map is a panic.\<close>

definition copy_rows :: "nat list \<Rightarrow> nat \<Rightarrow> nat \<Rightarrow> nat \<Rightarrow> nat list \<Rightarrow> nat list option" where
  "copy_rows m data_start full_col_bytes eff_col_bytes rows =
     map_option concat (those (map (\<lambda>row.
       let row_offset = wrap64 (data_start + row * full_col_bytes)
       in slice m row_offset (wrapping_add row_offset eff_col_bytes)) rows))"

definition load_submatrix ::
  "file_system \<Rightarrow> (nat list \<Rightarrow> nat list aegis_result) \<Rightarrow> loader \<Rightarrow> tensor_info \<Rightarrow> nested_param_slice
     \<Rightarrow> (loaded_host_tensor aegis_result \<times> loader) option" where
  "load_submatrix fs map_file mmaps tensor sl =
     (case effective_shape sl (ti_shape tensor) (ti_dtype tensor) of
        Inl e \<Rightarrow> Some (Inl e, mmaps)
      | Inr (eff_rows, eff_cols, byte_count) \<Rightarrow>
          (let full_cols = ti_shape tensor ! 1;
               full_col_bytes = wrap64 (full_cols * bytes_per_element (ti_dtype tensor));
               eff_col_bytes = wrap64 (eff_cols * bytes_per_element (ti_dtype tensor))
           in if eff_rows = ti_shape tensor ! 0 \<and> eff_cols = full_cols
              then load fs map_file mmaps tensor LoadRam
              else (case mmap_shard fs map_file mmaps (ti_shard_path tensor) of
                      (Inl e, mmaps) \<Rightarrow> Some (Inl e, mmaps)
                    | (Inr m, mmaps) \<Rightarrow>
                        let file_start = fst (ti_file_offsets tensor);
                            data_start = wrapping_add file_start (fst (ti_data_offsets tensor))
                        in if byte_count > isize_max then None
                           else map_option (\<lambda>out.
                             (Inr \<lparr>lt_name = ti_name tensor, lt_storage = RamBytes out,
                                   lt_shard_path = ti_shard_path tensor\<rparr>, mmaps))
                             (copy_rows m data_start full_col_bytes eff_col_bytes [0..<eff_rows]))))"

section \<open>Tallies per device\<close>

text \<open>
  What the two tables of the totals have in common. A merge that is commutative and associative
  makes the value of a device independent of the order in which the tensors arrive.
\<close>

locale device_tally =
  fixes merge :: "nat \<Rightarrow> nat \<Rightarrow> nat"
  assumes merge_comm: "merge a b = merge b a"
    and merge_assoc: "merge (merge a b) c = merge a (merge b c)"
begin

lemma map_of_upsert:
  "map_of (upsert merge vs d b) e
   = (if e = d then Some (case map_of vs d of None \<Rightarrow> b | Some v \<Rightarrow> merge v b) else map_of vs e)"
  by (induction vs) auto

lemma keys_upsert: "fst ` set (upsert merge vs d b) = insert d (fst ` set vs)"
  by (induction merge vs d b rule: upsert.induct) auto

lemma distinct_upsert: "distinct (map fst vs) \<Longrightarrow> distinct (map fst (upsert merge vs d b))"
proof (induction vs)
  case (Cons x vs)
  obtain e v where [simp]: "x = (e, v)" by force
  from Cons keys_upsert [of vs d b] show ?case by auto
qed simp

definition tally :: "(nat \<times> nat) list \<Rightarrow> (nat \<times> nat) list \<Rightarrow> (nat \<times> nat) list" where
  "tally xs vs = fold (\<lambda>(d, b) vs. upsert merge vs d b) xs vs"

lemma tally_simps [simp]: "tally [] vs = vs" "tally ((d, b) # xs) vs = tally xs (upsert merge vs d b)"
  by (simp_all add: tally_def)

definition combine :: "nat option \<Rightarrow> nat list \<Rightarrow> nat option" where
  "combine acc bs = fold (\<lambda>b acc. Some (case acc of None \<Rightarrow> b | Some v \<Rightarrow> merge v b)) bs acc"

lemma combine_simps [simp]:
  "combine acc [] = acc"
  "combine acc (b # bs) = combine (Some (case acc of None \<Rightarrow> b | Some v \<Rightarrow> merge v b)) bs"
  by (simp_all add: combine_def)

lemma map_of_tally:
  "map_of (tally xs vs) e = combine (map_of vs e) (map snd (filter (\<lambda>x. fst x = e) xs))"
  by (induction xs arbitrary: vs) (auto simp: combine_def map_of_upsert split: option.split)

lemma combine_step_commute:
  "(\<lambda>acc. Some (case acc of None \<Rightarrow> a | Some v \<Rightarrow> merge v a)) \<circ> (\<lambda>acc. Some (case acc of None \<Rightarrow> b | Some v \<Rightarrow> merge v b))
   = (\<lambda>acc. Some (case acc of None \<Rightarrow> b | Some v \<Rightarrow> merge v b)) \<circ> (\<lambda>acc. Some (case acc of None \<Rightarrow> a | Some v \<Rightarrow> merge v a))"
  by (rule ext) (simp add: merge_comm merge_assoc split: option.split, metis merge_assoc merge_comm)

lemma combine_perm: "mset bs = mset cs \<Longrightarrow> combine acc bs = combine acc cs"
  unfolding combine_def by (rule fold_multiset_equiv [THEN fun_cong]) (simp_all add: combine_step_commute)

theorem tally_order_irrelevant:
  "mset xs = mset ys \<Longrightarrow> map_of (tally xs vs) e = map_of (tally ys vs) e"
  unfolding map_of_tally by (intro combine_perm) (simp add: mset_filter)

end

interpretation adds: device_tally wrapping_add
  by unfold_locales (simp_all add: wrapping_add_def mod_add_left_eq mod_add_right_eq ac_simps)

interpretation peaks: device_tally max
  by unfold_locales (simp_all add: max.commute max.assoc)

lemma adds_combine_Some:
  "v \<le> u64_max \<Longrightarrow> adds.combine (Some v) bs = Some (wrap64 (v + sum_list bs))"
proof (induction bs arbitrary: v)
  case Nil
  then show ?case by (simp add: wrap64_def u64_max_def)
next
  case (Cons b bs)
  have "wrapping_add v b \<le> u64_max" by (simp add: wrapping_add_def u64_max_def)
  from Cons.IH [OF this] have "adds.combine (Some v) (b # bs) = Some (wrap64 (wrapping_add v b + sum_list bs))"
    by simp
  also have "wrap64 (wrapping_add v b + sum_list bs) = wrap64 (v + sum_list (b # bs))"
    by (simp add: wrapping_add_def wrap64_def u64_max_def mod_add_left_eq add.assoc)
  finally show ?case .
qed

lemma adds_combine:
  "\<forall>b \<in> set bs. b \<le> u64_max \<Longrightarrow> adds.combine None bs = (if bs = [] then None else Some (wrap64 (sum_list bs)))"
  using adds_combine_Some [of "hd bs" "tl bs"] by (cases bs) simp_all

lemma peaks_combine_Some: "peaks.combine (Some v) bs = Some (Max (insert v (set bs)))"
proof (induction bs arbitrary: v)
  case Nil
  then show ?case by simp
next
  case (Cons b bs)
  have "Max (insert (max v b) (set bs)) = Max (insert v (insert b (set bs)))"
    by (cases "set bs = {}") (simp_all add: Max_insert max.assoc)
  with Cons.IH [of "max v b"] show ?case by simp
qed

lemma peaks_combine: "peaks.combine None bs = (if bs = [] then None else Some (Max (set bs)))"
  using peaks_combine_Some [of "hd bs" "tl bs"] by (cases bs) simp_all

section \<open>Totals\<close>

definition stored_on :: "nat \<Rightarrow> tensor_storage_plan list \<Rightarrow> nat list" where
  "stored_on d ts = map ts_bytes (filter (\<lambda>t. ts_store t = Vram d) ts)"

definition staged_to :: "nat \<Rightarrow> tensor_storage_plan list \<Rightarrow> nat list" where
  "staged_to d ts = map ts_bytes (filter (\<lambda>t. ts_residency t = StagedHostToDevice d) ts)"

definition vram_entries :: "tensor_storage_plan list \<Rightarrow> (nat \<times> nat) list" where
  "vram_entries ts = concat (map (\<lambda>t. case ts_store t of Vram d \<Rightarrow> [(d, ts_bytes t)] | _ \<Rightarrow> []) ts)"

definition staged_entries :: "tensor_storage_plan list \<Rightarrow> (nat \<times> nat) list" where
  "staged_entries ts =
     concat (map (\<lambda>t. case ts_residency t of StagedHostToDevice d \<Rightarrow> [(d, ts_bytes t)] | _ \<Rightarrow> []) ts)"

lemma entries_for_device:
  "map snd (filter (\<lambda>x. fst x = d) (vram_entries ts)) = stored_on d ts"
  "map snd (filter (\<lambda>x. fst x = d) (staged_entries ts)) = staged_to d ts"
  by (induction ts) (auto simp: vram_entries_def stored_on_def staged_entries_def staged_to_def
      split: storage_placement.splits tensor_residency_plan.splits)

lemma fold_add_tensor:
  "fold add_tensor ts totals =
     \<lparr>st_ram_resident_bytes = fold (\<lambda>t acc. if ts_store t = Ram then wrapping_add acc (ts_bytes t) else acc) ts
        (st_ram_resident_bytes totals),
      st_mmap_file_backed_bytes = fold (\<lambda>t acc. if ts_store t = Mmap then wrapping_add acc (ts_bytes t) else acc) ts
        (st_mmap_file_backed_bytes totals),
      st_vram_resident_bytes = adds.tally (vram_entries ts) (st_vram_resident_bytes totals),
      st_staged_host_to_device_peak_bytes =
        peaks.tally (staged_entries ts) (st_staged_host_to_device_peak_bytes totals)\<rparr>"
proof (induction ts arbitrary: totals)
  case Nil
  then show ?case by (simp add: vram_entries_def staged_entries_def)
next
  case (Cons t ts)
  then show ?case
    by (simp add: add_tensor_def vram_entries_def staged_entries_def add_bytes_def set_peak_def
        split: storage_placement.split tensor_residency_plan.split)
qed

lemma fold_wrapping_sum:
  "acc \<le> u64_max \<Longrightarrow> fold (\<lambda>t acc. if P t then wrapping_add acc (f t) else acc) ts acc
     = wrap64 (acc + sum_list (map f (filter P ts)))"
  by (induction ts arbitrary: acc)
    (auto simp: wrapping_add_def wrap64_def u64_max_def mod_add_left_eq add.assoc)

text \<open>
  The totals of a storage plan are the sums of the bytes stored in memory, in mapped files and
  on every device, and for every device the largest tensor staged to it; a device without tensors
  has no entry. Sums wrap at 64 bits.
\<close>

theorem storage_totals_exact:
  assumes "\<forall>t \<in> set ts. ts_bytes t \<le> u64_max"
  shows "st_ram_resident_bytes (totals_from_tensors ts)
      = wrap64 (sum_list (map ts_bytes (filter (\<lambda>t. ts_store t = Ram) ts))) \<and>
    st_mmap_file_backed_bytes (totals_from_tensors ts)
      = wrap64 (sum_list (map ts_bytes (filter (\<lambda>t. ts_store t = Mmap) ts))) \<and>
    map_of (st_vram_resident_bytes (totals_from_tensors ts)) d
      = (if stored_on d ts = [] then None else Some (wrap64 (sum_list (stored_on d ts)))) \<and>
    map_of (st_staged_host_to_device_peak_bytes (totals_from_tensors ts)) d
      = (if staged_to d ts = [] then None else Some (Max (set (staged_to d ts))))"
proof -
  have "\<forall>b \<in> set (stored_on d ts). b \<le> u64_max" using assms by (auto simp: stored_on_def)
  then show ?thesis
    by (simp add: totals_from_tensors_def fold_add_tensor fold_wrapping_sum adds.map_of_tally
        peaks.map_of_tally entries_for_device adds_combine peaks_combine)
qed

text \<open>
  The residency of a tensor and the transfer of its region, which two functions compute on their
  own, always agree.
\<close>

theorem residency_matches_transfer:
  "transfer_policy_of store compute =
     (case residency_for store compute of
        RamResident \<Rightarrow> NoTransfer | FileBackedMmap \<Rightarrow> NoTransfer | VramResident _ \<Rightarrow> NoTransfer
      | StagedHostToDevice _ \<Rightarrow> HostToDeviceEachUse | StagedDeviceToHost _ \<Rightarrow> DeviceToHostEachUse
      | CrossDeviceStaged _ _ \<Rightarrow> CrossDevice)"
  by (cases store; cases compute) auto

section \<open>The storage plan of a placed model\<close>

lemma map_of_region_map:
  assumes "distinct (map rp_region_id (pl_region_placements pl))" "p \<in> set (pl_region_placements pl)"
  shows "map_of (region_map pl) (rp_region_id p) = Some p"
proof -
  have "distinct (map rp_region_id ps) \<Longrightarrow> p \<in> set ps \<or> p \<notin> set ps \<and> rp_region_id p \<notin> rp_region_id ` set ps \<and> map_of m (rp_region_id p) = Some p
      \<Longrightarrow> map_of (fold (\<lambda>p m. bt_insert (rp_region_id p) p m) ps m) (rp_region_id p) = Some p" for ps m
    by (induction ps arbitrary: m) auto
  with assms show ?thesis by (simp add: region_map_def)
qed

lemma plan_ids:
  assumes "plan name graph inventory policy = Inr pl"
  shows "list_all2 (\<lambda>r p. rp_region_id p = gr_id r \<and> rp_weight_bytes p = weight_bytes r)
    (mg_regions graph) (pl_region_placements pl)"
proof -
  have "list_all2 (\<lambda>r p. kept_or_spilled policy (place_region graph policy r) p)
      (mg_regions graph) (pl_region_placements pl)"
    using trim_moves [OF plan_Inr(4) [OF assms]] by (simp add: list.rel_map)
  then show ?thesis
    by (rule list_all2_mono) (auto simp: kept_or_spilled_def spilled_def place_region_def split: prod.splits)
qed

lemma storage_plan_tensors:
  assumes "distinct (map gr_id (mg_regions graph))" "plan name graph inventory policy = Inr pl"
  shows "so_tensors (from_graph_and_placement graph pl)
    = concat (map2 (\<lambda>r p. map (storage_of_tensor r p) (gr_tensors r)) (mg_regions graph) (pl_region_placements pl))"
proof -
  note ids = plan_ids [OF assms(2)]
  have "map rp_region_id (pl_region_placements pl) = map gr_id (mg_regions graph)"
    using ids by (induction rule: list_all2_induct) simp_all
  with assms(1) have d: "distinct (map rp_region_id (pl_region_placements pl))" by simp
  have "concat (map (\<lambda>r. case map_of (region_map pl) (gr_id r) of
          None \<Rightarrow> [] | Some p \<Rightarrow> map (storage_of_tensor r p) (gr_tensors r)) rs)
      = concat (map2 (\<lambda>r p. map (storage_of_tensor r p) (gr_tensors r)) rs ps)"
    if "list_all2 (\<lambda>r p. rp_region_id p = gr_id r \<and> rp_weight_bytes p = weight_bytes r) rs ps"
      "set ps \<subseteq> set (pl_region_placements pl)" for rs ps
    using that
  proof (induction rule: list_all2_induct)
    case (Cons r rs p ps)
    from Cons.hyps Cons.prems have "map_of (region_map pl) (gr_id r) = Some p"
      using map_of_region_map [OF d, of p] by simp
    with Cons show ?case by simp
  qed simp
  from this [OF ids] show ?thesis by (simp add: from_graph_and_placement_def Let_def)
qed

text \<open>
  The storage plan of a placed model holds every tensor of the graph once, in graph order, with
  its bytes and the storage, compute device and transfer of its region.
\<close>

theorem storage_covers_graph:
  assumes "graph_from_artifact artifact = Some (Inr graph)" "plan name graph inventory policy = Inr pl"
  shows "list_all2 (\<lambda>(r, p, t) s.
      ts_region_id s = gr_id r \<and> rp_region_id p = gr_id r \<and> ts_name s = ti_name (gt_info t) \<and>
      ts_bytes s = data_len_bytes (gt_info t) \<and> ts_role s = gt_role t \<and> ts_store s = rp_store p \<and>
      ts_compute s = rp_compute p \<and> ts_transfer s = rp_transfer p)
    (concat (map2 (\<lambda>r p. map (\<lambda>t. (r, p, t)) (gr_tensors r)) (mg_regions graph) (pl_region_placements pl)))
    (so_tensors (from_graph_and_placement graph pl))"
proof -
  from assms(1) obtain arch where "build_llama_style artifact arch = Some graph"
    by (auto simp: graph_from_artifact_def split: sum.splits)
  note ids = plan_ids [OF assms(2)]
    and tensors = storage_plan_tensors [OF build_region_ids(1) [OF this] assms(2)]
  show ?thesis unfolding tensors using ids
  proof (induction rule: list_all2_induct)
    case (Cons r rs p ps)
    then show ?case
      by (auto intro!: list_all2_appendI simp: list.rel_map storage_of_tensor_def intro: list.rel_refl)
  qed simp
qed


text \<open>Where the bytes of a list of planned tensors go, in one table.\<close>

definition accounted :: "storage_totals \<Rightarrow> nat" where
  "accounted totals = st_ram_resident_bytes totals + st_mmap_file_backed_bytes totals
     + sum_list (map snd (st_vram_resident_bytes totals))"

lemma add_bytes_sum:
  "sum_list (map snd vs) + b \<le> u64_max \<Longrightarrow> sum_list (map snd (add_bytes vs d b)) = sum_list (map snd vs) + b"
  by (induction vs) (auto simp: add_bytes_def wrapping_add_exact algebra_simps)

lemma accounted_add_tensor:
  "accounted totals + ts_bytes t \<le> u64_max \<Longrightarrow> accounted (add_tensor t totals) = accounted totals + ts_bytes t"
  using add_bytes_sum [of "st_vram_resident_bytes totals" "ts_bytes t"]
  by (simp add: accounted_def add_tensor_def Let_def wrapping_add_exact
      split: storage_placement.split tensor_residency_plan.split)

lemma accounted_fold:
  "accounted totals + sum_list (map ts_bytes ts) \<le> u64_max \<Longrightarrow>
   accounted (fold add_tensor ts totals) = accounted totals + sum_list (map ts_bytes ts)"
  by (induction ts arbitrary: totals) (simp_all add: accounted_add_tensor add.assoc)

text \<open>
  C30: nothing is stored twice or forgotten: memory, mapped files and all devices together hold the
  bytes of the tensors of the graph, as long as these fit 64 bits.
\<close>

theorem storage_bytes_conserved:
  assumes "graph_from_artifact artifact = Some (Inr graph)" "plan name graph inventory policy = Inr pl"
    and "(\<Sum>r \<leftarrow> mg_regions graph. \<Sum>t \<leftarrow> gr_tensors r. data_len_bytes (gt_info t)) \<le> u64_max"
  shows "accounted (so_totals (from_graph_and_placement graph pl))
    = (\<Sum>r \<leftarrow> mg_regions graph. \<Sum>t \<leftarrow> gr_tensors r. data_len_bytes (gt_info t))"
proof -
  from assms(1) obtain arch where "build_llama_style artifact arch = Some graph"
    by (auto simp: graph_from_artifact_def split: sum.splits)
  note ids = plan_ids [OF assms(2)]
    and tensors = storage_plan_tensors [OF build_region_ids(1) [OF this] assms(2)]
  have "sum_list (map ts_bytes (concat (map2 (\<lambda>r p. map (storage_of_tensor r p) (gr_tensors r))
          (mg_regions graph) (pl_region_placements pl))))
      = (\<Sum>r \<leftarrow> mg_regions graph. \<Sum>t \<leftarrow> gr_tensors r. data_len_bytes (gt_info t))"
    using ids by (induction rule: list_all2_induct) (simp_all add: storage_of_tensor_def o_def)
  then have sum: "sum_list (map ts_bytes (so_tensors (from_graph_and_placement graph pl)))
      = (\<Sum>r \<leftarrow> mg_regions graph. \<Sum>t \<leftarrow> gr_tensors r. data_len_bytes (gt_info t))"
    by (simp add: tensors)
  have "so_totals (from_graph_and_placement graph pl)
      = totals_from_tensors (so_tensors (from_graph_and_placement graph pl))"
    by (simp add: from_graph_and_placement_def Let_def)
  moreover have "accounted (totals_from_tensors ts) = sum_list (map ts_bytes ts)"
    if "sum_list (map ts_bytes ts) \<le> u64_max" for ts
    using that unfolding totals_from_tensors_def by (subst accounted_fold) (simp_all add: accounted_def)
  ultimately show ?thesis using assms(3) sum by metis
qed

section \<open>Loading\<close>

text \<open>The cached maps hold the files they were made from.\<close>

definition maps_ok :: "file_system \<Rightarrow> loader \<Rightarrow> bool" where
  "maps_ok fs mmaps \<longleftrightarrow> (\<forall>path m. map_of mmaps path = Some m \<longrightarrow> fs path = Some m)"

lemma mmap_shard_ok:
  assumes "maps_ok fs mmaps" "fs path = Some content" "map_file content = Inr content"
  shows "\<exists>mmaps'. mmap_shard fs map_file mmaps path = (Inr content, mmaps') \<and> maps_ok fs mmaps'
    \<and> map_of mmaps' path = Some content"
  using assms by (auto simp: mmap_shard_def maps_ok_def split: option.split)

text \<open>
  Reading a tensor into memory and mapping it give the same bytes, those of its range in its
  shard, and the map of the shard is cached. The tensor is not empty, its shard fits memory, and
  mapping a file yields its content.
\<close>

theorem load_modes_agree:
  assumes "info_ok fs t" "0 < data_len_bytes t" "fs (ti_shard_path t) = Some content"
    and "length content \<le> isize_max" "map_file content = Inr content" "maps_ok fs mmaps"
  shows "\<exists>ram mapped mmaps'. load fs map_file mmaps t LoadRam = Some (Inr ram, mmaps) \<and>
    load fs map_file mmaps t LoadMmap = Some (Inr mapped, mmaps') \<and> maps_ok fs mmaps' \<and>
    shard_mmap mmaps' (ti_shard_path t) = Some content \<and>
    as_bytes ram = Some (take (data_len_bytes t) (drop (fst (ti_file_offsets t)) content)) \<and>
    as_bytes mapped = as_bytes ram"
proof -
  let ?start = "fst (ti_file_offsets t)" and ?len = "data_len_bytes t"
  have fit: "?start + ?len \<le> length content"
    using assms(1-3) by (auto simp: info_ok_def)
  have exact: "wrapping_add ?start ?len = ?start + ?len"
    using fit assms(4) by (intro wrapping_add_exact) (simp add: isize_max_def u64_max_def)
  obtain mmaps' where m: "mmap_shard fs map_file mmaps (ti_shard_path t) = (Inr content, mmaps')"
      "maps_ok fs mmaps'" "map_of mmaps' (ti_shard_path t) = Some content"
    using mmap_shard_ok [of fs mmaps _ content map_file, OF assms(6, 3, 5)] by blast
  have "read_tensor_bytes fs t = Some (Inr (take ?len (drop ?start content)))"
    using fit assms(3, 4) by (simp add: read_tensor_bytes_def Let_def)
  with m fit exact show ?thesis
    by (simp add: load_def Let_def shard_mmap_def as_bytes_def storage_bytes_def slice_def)
qed


text \<open>The block of a tensor's bytes that a slice keeps: the front of each of its first rows.\<close>

definition submatrix :: "nat list \<Rightarrow> nat \<Rightarrow> nat \<Rightarrow> nat \<Rightarrow> nat list" where
  "submatrix bytes row_bytes rows cols_bytes =
     concat (map (\<lambda>r. take cols_bytes (drop (r * row_bytes) bytes)) [0..<rows])"

lemma those_map_Some: "(\<And>x. x \<in> set xs \<Longrightarrow> f x = Some (g x)) \<Longrightarrow> those (map f xs) = Some (map g xs)"
  by (induction xs) auto

lemma copy_rows_exact:
  assumes "cols \<le> full" "start + rows * full \<le> length m" "length m \<le> isize_max"
  shows "copy_rows m start full cols [0..<rows] = Some (submatrix (drop start m) full rows cols)"
proof -
  have row: "slice m (wrap64 (start + r * full)) (wrapping_add (wrap64 (start + r * full)) cols)
      = Some (take cols (drop (r * full) (drop start m)))" if "r \<in> set [0..<rows]" for r
  proof -
    from that have "(r + 1) * full \<le> rows * full" by (intro mult_le_mono1) simp
    with assms(1, 2) have fit: "start + r * full + cols \<le> length m" by (simp add: algebra_simps)
    with assms(3) have "wrap64 (start + r * full) = start + r * full"
      "wrapping_add (start + r * full) cols = start + r * full + cols"
      by (simp_all add: wrap64_def wrapping_add_def isize_max_def u64_max_def)
    with fit show ?thesis by (simp add: slice_def add.commute)
  qed
  show ?thesis
    unfolding copy_rows_def Let_def submatrix_def by (subst those_map_Some [OF row]) simp_all
qed

lemma submatrix_cong:
  assumes "rows \<le> R" "c \<le> w"
  shows "submatrix bytes w rows c = submatrix (take (R * w) bytes) w rows c"
proof -
  have "take c (drop (r * w) (take (R * w) bytes)) = take c (drop (r * w) bytes)" if "r < rows" for r
  proof -
    from that assms(1) have "(r + 1) * w \<le> R * w" by (intro mult_le_mono1) simp
    with assms(2) have "c \<le> R * w - r * w" by simp
    then show ?thesis by (simp add: drop_take min_absorb1)
  qed
  then show ?thesis unfolding submatrix_def by (intro arg_cong [where f = concat] map_cong) simp_all
qed

lemma submatrix_full: "submatrix bytes w rows w = take (rows * w) bytes"
proof (induction rows)
  case (Suc r)
  then have "submatrix bytes w (Suc r) w = take (r * w) bytes @ take w (drop (r * w) bytes)"
    by (simp add: submatrix_def)
  also have "\<dots> = take (r * w + w) bytes" by (simp add: take_add)
  finally show ?case by (simp add: add.commute)
qed (simp add: submatrix_def)

definition kept :: "nat option \<Rightarrow> nat \<Rightarrow> nat" where
  "kept e full = (case e of None \<Rightarrow> full | Some n \<Rightarrow> min n full)"

lemma kept_le: "kept e full \<le> full"
  by (simp add: kept_def split: option.split)

lemma effective_shape_2d:
  "0 < kept (ns_rows_end sl) R \<Longrightarrow> 0 < kept (ns_cols_end sl) C \<Longrightarrow>
   effective_shape sl [R, C] dtype
     = Inr (kept (ns_rows_end sl) R, kept (ns_cols_end sl) C,
            wrap64 (kept (ns_rows_end sl) R * kept (ns_cols_end sl) C * bytes_per_element dtype))"
  by (simp add: effective_shape_def kept_def Let_def)

lemma load_submatrix_reads:
  assumes shape: "ti_shape t = [R, C]"
    and pos: "0 < kept (ns_rows_end sl) R" "0 < kept (ns_cols_end sl) C"
    and part: "kept (ns_rows_end sl) R \<noteq> R \<or> kept (ns_cols_end sl) C \<noteq> C"
    and room: "fst (ti_file_offsets t) + fst (ti_data_offsets t)
          + kept (ns_rows_end sl) R * (C * bytes_per_element (ti_dtype t)) \<le> length content"
      "length content \<le> isize_max"
    and m: "mmap_shard fs map_file mmaps (ti_shard_path t) = (Inr content, mmaps')"
  shows "load_submatrix fs map_file mmaps t sl
    = Some (Inr \<lparr>lt_name = ti_name t,
        lt_storage = RamBytes (submatrix (drop (fst (ti_file_offsets t) + fst (ti_data_offsets t)) content)
          (C * bytes_per_element (ti_dtype t)) (kept (ns_rows_end sl) R)
          (kept (ns_cols_end sl) C * bytes_per_element (ti_dtype t))),
        lt_shard_path = ti_shard_path t\<rparr>, mmaps')"
proof -
  let ?er = "kept (ns_rows_end sl) R" and ?ec = "kept (ns_cols_end sl) C" and ?b = "bytes_per_element (ti_dtype t)"
  let ?s = "fst (ti_file_offsets t)" and ?d = "fst (ti_data_offsets t)"
  have cols: "?ec * ?b \<le> C * ?b" by (intro mult_le_mono1 kept_le)
  have one: "C * ?b \<le> ?er * (C * ?b)" using pos(1) by simp
  have block: "?er * ?ec * ?b \<le> ?er * (C * ?b)"
    using cols by (simp only: mult.assoc mult_le_mono2)
  have small: "x \<le> isize_max \<Longrightarrow> wrap64 x = x" for x
    by (simp add: wrap64_def isize_max_def u64_max_def)
  have le: "C * ?b \<le> isize_max" "?ec * ?b \<le> isize_max" "?er * ?ec * ?b \<le> isize_max"
    using cols one block room by linarith+
  have exact: "wrap64 (C * ?b) = C * ?b" "wrap64 (?ec * ?b) = ?ec * ?b" "wrap64 (?er * ?ec * ?b) = ?er * ?ec * ?b"
    "\<not> isize_max < ?er * ?ec * ?b"
    using small [OF le(1)] small [OF le(2)] small [OF le(3)] le(3) by (simp_all only: not_less)
  have start: "wrapping_add ?s ?d = ?s + ?d"
    using room by (intro wrapping_add_exact) (simp add: isize_max_def u64_max_def)
  have copy: "copy_rows content (?s + ?d) (C * ?b) (?ec * ?b) [0..<?er]
      = Some (submatrix (drop (?s + ?d) content) (C * ?b) ?er (?ec * ?b))"
    using cols room by (intro copy_rows_exact) simp_all
  show ?thesis
    unfolding load_submatrix_def shape effective_shape_2d [OF pos] using part m
    by (auto simp: Let_def exact start copy)
qed

text \<open>
  For a tensor whose data section offset is 0, the first of its shard, loading a slice of a
  matrix gives the leading columns of its leading rows, for every slice that is not empty.
\<close>

theorem submatrix_of_first_tensor:
  assumes "info_ok fs t" "ti_shape t = [R, C]" "fst (ti_data_offsets t) = 0"
    and "0 < kept (ns_rows_end sl) R" "0 < kept (ns_cols_end sl) C"
    and "fs (ti_shard_path t) = Some content" "length content \<le> isize_max"
    and "map_file content = Inr content" "maps_ok fs mmaps"
  shows "\<exists>loaded mmaps'. load_submatrix fs map_file mmaps t sl = Some (Inr loaded, mmaps') \<and>
    as_bytes loaded = Some (submatrix (take (data_len_bytes t) (drop (fst (ti_file_offsets t)) content))
      (C * bytes_per_element (ti_dtype t)) (kept (ns_rows_end sl) R)
      (kept (ns_cols_end sl) C * bytes_per_element (ti_dtype t)))"
proof -
  let ?s = "fst (ti_file_offsets t)" and ?w = "C * bytes_per_element (ti_dtype t)"
  let ?er = "kept (ns_rows_end sl) R" and ?ew = "kept (ns_cols_end sl) C * bytes_per_element (ti_dtype t)"
  have len: "data_len_bytes t = R * ?w" using assms(1, 2) by (simp add: info_ok_def)
  have "0 < R" "0 < C" using assms(4, 5) kept_le [of _ R] kept_le [of _ C] by (metis less_le_trans)+
  moreover have "0 < bytes_per_element (ti_dtype t)" by (cases "ti_dtype t") simp_all
  ultimately have fit: "?s + R * ?w \<le> length content"
    using assms(1, 6) by (auto simp: info_ok_def len)
  have rows: "?er * ?w \<le> R * ?w" by (intro mult_le_mono1 kept_le)
  show ?thesis
  proof (cases "?er = R \<and> kept (ns_cols_end sl) C = C")
    case True
    have "load fs map_file mmaps t LoadRam = Some (Inr \<lparr>lt_name = ti_name t,
        lt_storage = RamBytes (take (R * ?w) (drop ?s content)), lt_shard_path = ti_shard_path t\<rparr>, mmaps)"
      using fit assms(6, 7) by (simp add: load_def Let_def read_tensor_bytes_def len)
    then show ?thesis
      using True unfolding load_submatrix_def assms(2) effective_shape_2d [OF assms(4, 5)]
      by (simp add: Let_def as_bytes_def storage_bytes_def submatrix_full len)
  next
    case False
    obtain mmaps' where m: "mmap_shard fs map_file mmaps (ti_shard_path t) = (Inr content, mmaps')"
      using mmap_shard_ok [of fs mmaps _ content map_file, OF assms(9, 6, 8)] by blast
    have "submatrix (drop ?s content) ?w ?er ?ew = submatrix (take (R * ?w) (drop ?s content)) ?w ?er ?ew"
      by (intro submatrix_cong kept_le mult_le_mono1)
    with load_submatrix_reads [OF assms(2, 4, 5) _ _ assms(7) m] False fit rows assms(3) show ?thesis
      by (simp add: as_bytes_def storage_bytes_def len)
  qed
qed

text \<open>
  For a later tensor of a shard the offset in the data section is added to a file offset that
  already contains it, so a slice that is not the whole matrix is cut out of the bytes that lie this
  offset behind the tensor.
\<close>

theorem submatrix_starts_late:
  assumes "ti_shape t = [R, C]" "0 < kept (ns_rows_end sl) R" "0 < kept (ns_cols_end sl) C"
    and "kept (ns_rows_end sl) R \<noteq> R \<or> kept (ns_cols_end sl) C \<noteq> C"
    and "fst (ti_file_offsets t) + fst (ti_data_offsets t)
          + kept (ns_rows_end sl) R * (C * bytes_per_element (ti_dtype t)) \<le> length content"
    and "length content \<le> isize_max" "fs (ti_shard_path t) = Some content"
    and "map_file content = Inr content" "maps_ok fs mmaps"
  shows "\<exists>loaded mmaps'. load_submatrix fs map_file mmaps t sl = Some (Inr loaded, mmaps') \<and>
    as_bytes loaded = Some (submatrix (drop (fst (ti_file_offsets t) + fst (ti_data_offsets t)) content)
      (C * bytes_per_element (ti_dtype t)) (kept (ns_rows_end sl) R)
      (kept (ns_cols_end sl) C * bytes_per_element (ti_dtype t)))"
proof -
  obtain mmaps' where m: "mmap_shard fs map_file mmaps (ti_shard_path t) = (Inr content, mmaps')"
    using mmap_shard_ok [of fs mmaps _ content map_file, OF assms(9, 7, 8)] by blast
  from load_submatrix_reads [OF assms(1-6) m] show ?thesis
    by (simp add: as_bytes_def storage_bytes_def)
qed

section \<open>Witnesses\<close>

lemma storage_totals_exact_witness:
  "let s = storage_of_tensor (demo_layer 0)
        \<lparr>rp_region_id = ''layer.0'', rp_kind = RkTransformerBlock, rp_layer_index = Some 0, rp_weight_bytes = 100,
         rp_store = Vram 0, rp_compute = Cuda 0, rp_transfer = NoTransfer\<rparr>
   in map_of (st_vram_resident_bytes (totals_from_tensors (map s (gr_tensors (demo_layer 0))))) 0 = Some 100"
proof -
  define p where "p = \<lparr>rp_region_id = ''layer.0'', rp_kind = RkTransformerBlock, rp_layer_index = Some 0,
      rp_weight_bytes = 100, rp_store = Vram 0, rp_compute = Cuda 0, rp_transfer = NoTransfer\<rparr>"
  define ts where "ts = map (storage_of_tensor (demo_layer 0) p) (gr_tensors (demo_layer 0))"
  have "map ts_bytes ts = [60, 40]" and store: "\<forall>t \<in> set ts. ts_store t = Vram 0"
    by (simp_all add: ts_def p_def storage_of_tensor_def demo_layer_def demo_tensor_def data_len_bytes_def)
  moreover from store have "stored_on 0 ts = map ts_bytes ts" by (simp add: stored_on_def)
  moreover have "\<forall>t \<in> set ts. ts_bytes t \<le> u64_max"
    by (simp add: ts_def storage_of_tensor_def demo_layer_def demo_tensor_def data_len_bytes_def u64_max_def)
  ultimately have "map_of (st_vram_resident_bytes (totals_from_tensors ts)) 0 = Some 100"
    using storage_totals_exact [of ts 0] by (simp add: wrap64_def u64_max_def)
  then show ?thesis by (simp add: ts_def p_def Let_def)
qed

definition demo_storage_policy :: placement_policy where
  "demo_storage_policy = demo_policy\<lparr>pp_weights_store := Mmap\<rparr>"

definition small_info :: "string \<Rightarrow> nat \<Rightarrow> nat \<Rightarrow> nat \<Rightarrow> tensor_info" where
  "small_info name start rows cols =
     \<lparr>ti_name = name, ti_dtype = U8, ti_shape = [rows, cols], ti_num_elements = rows * cols,
      ti_data_offsets = (start, start + rows * cols), ti_file_offsets = (8 + start, 8 + start + rows * cols),
      ti_shard_name = ''s'', ti_shard_path = ''s''\<rparr>"

definition small_artifact :: model_artifact where
  "small_artifact =
     \<lparr>ma_config = hf_config_default\<lparr>hc_model_type := ''llama'', hc_num_hidden_layers := 0,
        hc_num_attention_heads := 1, hc_hidden_size := 2\<rparr>,
      ma_tensors = [(''lm_head.weight'', small_info ''lm_head.weight'' 0 2 2),
        (''model.embed_tokens.weight'', small_info ''model.embed_tokens.weight'' 4 2 2),
        (''model.norm.weight'', small_info ''model.norm.weight'' 8 3 2)]\<rparr>"

lemma small_graph:
  obtains g where "graph_from_artifact small_artifact = Some (Inr g)"
    "map (\<lambda>r. (gr_id r, map (\<lambda>t. (ti_name (gt_info t), data_len_bytes (gt_info t))) (gr_tensors r))) (mg_regions g)
      = [(''embed'', [(''model.embed_tokens.weight'', 4)]),
         (''final_norm'', [(''model.norm.weight'', 6)]),
         (''lm_head'', [(''lm_head.weight'', 4)])]"
proof -
  have "to_ascii_lowercase ''llama'' = ''llama''" "str_contains ''llama'' ''llama''" by code_simp+
  then have arch: "detect_architecture (ma_config small_artifact) = Inr LlamaArchitecture"
    by (simp add: detect_architecture_def small_artifact_def hf_config_default_def try_from_model_type_def)
  have "layer_meta small_artifact LlamaArchitecture i
      = Some \<lparr>lm_layer_idx = i, lm_kind = DenseDecoder, lm_attention_pattern = FullCausal, lm_head_dim = 2,
              lm_num_kv_heads = 1\<rparr>" for i
    by (simp add: layer_meta_def small_artifact_def hf_config_default_def artifact_head_dim_def
        llama_attention_pattern_def llama_layer_kind_def)
  then obtain g where build: "build_llama_style small_artifact LlamaArchitecture = Some g"
    by (simp add: build_llama_style_def Let_def small_artifact_def
        hf_config_default_def artifact_head_dim_def upt_rec)
  let ?row = "\<lambda>r. (gr_id r, map (\<lambda>t. (ti_name (gt_info t), data_len_bytes (gt_info t))) (gr_tensors r))"
  have find: "registry_get (ma_tensors small_artifact) ''lm_head.weight'' = Some (small_info ''lm_head.weight'' 0 2 2)"
    "registry_get (ma_tensors small_artifact) ''model.embed_tokens.weight''
      = Some (small_info ''model.embed_tokens.weight'' 4 2 2)"
    "registry_get (ma_tensors small_artifact) ''model.norm.weight'' = Some (small_info ''model.norm.weight'' 8 3 2)"
    by (simp_all add: small_artifact_def registry_get_def)
  have small_prefix: "detect_text_prefix small_artifact = ''model.''"
    by (simp add: detect_text_prefix_def registry_has_def small_artifact_def)
  have "map ?row (embed_region small_artifact) = [(''embed'', [(''model.embed_tokens.weight'', 4)])]"
    "map ?row (norm_region small_artifact) = [(''final_norm'', [(''model.norm.weight'', 6)])]"
    "map ?row (head_region small_artifact) = [(''lm_head'', [(''lm_head.weight'', 4)])]"
    by (simp_all add: embed_region_def norm_region_def head_region_def push_single_tensor_region_def
        find small_prefix small_info_def data_len_bytes_def)
  moreover have "[0..<hc_num_hidden_layers (ma_config small_artifact)] = []" by (simp add: small_artifact_def)
  ultimately have "map ?row (mg_regions g) = [(''embed'', [(''model.embed_tokens.weight'', 4)]),
         (''final_norm'', [(''model.norm.weight'', 6)]), (''lm_head'', [(''lm_head.weight'', 4)])]"
    unfolding build_regions(1) [OF build] by simp
  moreover have "graph_from_artifact small_artifact = Some (Inr g)"
    by (simp add: graph_from_artifact_def arch build)
  ultimately show thesis by (intro that)
qed

lemma demo_storage:
  "\<exists>pl. plan ''m'' g demo_inventory demo_storage_policy = Inr pl"
  by (auto simp: plan_def Let_def demo_storage_policy_def demo_policy_def split: prod.splits)

lemma storage_covers_graph_witness:
  "\<exists>g pl. graph_from_artifact small_artifact = Some (Inr g) \<and>
     plan ''m'' g demo_inventory demo_storage_policy = Inr pl \<and>
     map ts_name (so_tensors (from_graph_and_placement g pl))
       = [''model.embed_tokens.weight'', ''model.norm.weight'', ''lm_head.weight'']"
proof -
  obtain g where g: "graph_from_artifact small_artifact = Some (Inr g)"
    and rows: "map (\<lambda>r. (gr_id r, map (\<lambda>t. (ti_name (gt_info t), data_len_bytes (gt_info t))) (gr_tensors r))) (mg_regions g)
      = [(''embed'', [(''model.embed_tokens.weight'', 4)]),
         (''final_norm'', [(''model.norm.weight'', 6)]),
         (''lm_head'', [(''lm_head.weight'', 4)])]" by (rule small_graph)
  obtain pl where pl: "plan ''m'' g demo_inventory demo_storage_policy = Inr pl" using demo_storage by blast
  have "map ts_name ss = map (\<lambda>(r, p, t). ti_name (gt_info t)) xs"
    if "list_all2 (\<lambda>(r, p, t) s. ts_region_id s = gr_id r \<and> rp_region_id p = gr_id r \<and>
      ts_name s = ti_name (gt_info t) \<and> ts_bytes s = data_len_bytes (gt_info t) \<and> ts_role s = gt_role t \<and>
      ts_store s = rp_store p \<and> ts_compute s = rp_compute p \<and> ts_transfer s = rp_transfer p) xs ss" for xs ss
    using that by (induction rule: list_all2_induct) auto
  from this [OF storage_covers_graph [OF g pl]]
  have "map ts_name (so_tensors (from_graph_and_placement g pl))
    = map (\<lambda>(r, p, t). ti_name (gt_info t))
        (concat (map2 (\<lambda>r p. map (\<lambda>t. (r, p, t)) (gr_tensors r)) (mg_regions g) (pl_region_placements pl)))" .
  also have "\<dots> = concat (map (\<lambda>r. map (\<lambda>t. ti_name (gt_info t)) (gr_tensors r)) (mg_regions g))"
    using plan_ids [OF pl] by (induction rule: list_all2_induct) (simp_all add: o_def)
  also have "\<dots> = concat (map (map fst \<circ> snd)
      (map (\<lambda>r. (gr_id r, map (\<lambda>t. (ti_name (gt_info t), data_len_bytes (gt_info t))) (gr_tensors r))) (mg_regions g)))"
    by (simp add: o_def)
  finally show ?thesis using g pl unfolding rows by auto
qed

lemma storage_bytes_conserved_witness:
  "\<exists>g pl. graph_from_artifact small_artifact = Some (Inr g) \<and>
     plan ''m'' g demo_inventory demo_storage_policy = Inr pl \<and>
     accounted (so_totals (from_graph_and_placement g pl)) = 14"
proof -
  obtain g where g: "graph_from_artifact small_artifact = Some (Inr g)"
    and rows: "map (\<lambda>r. (gr_id r, map (\<lambda>t. (ti_name (gt_info t), data_len_bytes (gt_info t))) (gr_tensors r))) (mg_regions g)
      = [(''embed'', [(''model.embed_tokens.weight'', 4)]),
         (''final_norm'', [(''model.norm.weight'', 6)]),
         (''lm_head'', [(''lm_head.weight'', 4)])]" by (rule small_graph)
  obtain pl where pl: "plan ''m'' g demo_inventory demo_storage_policy = Inr pl" using demo_storage by blast
  have "(\<Sum>r \<leftarrow> mg_regions g. \<Sum>t \<leftarrow> gr_tensors r. data_len_bytes (gt_info t))
    = sum_list (map (sum_list \<circ> map snd \<circ> snd)
      (map (\<lambda>r. (gr_id r, map (\<lambda>t. (ti_name (gt_info t), data_len_bytes (gt_info t))) (gr_tensors r))) (mg_regions g)))"
    by (simp add: o_def)
  then have sum: "(\<Sum>r \<leftarrow> mg_regions g. \<Sum>t \<leftarrow> gr_tensors r. data_len_bytes (gt_info t)) = 14"
    unfolding rows by simp
  have "(14::nat) \<le> u64_max" by (simp add: u64_max_def)
  with storage_bytes_conserved [OF g pl] g pl show ?thesis unfolding sum by blast
qed

text \<open>A shard of thirty bytes that count upwards, with two matrices of two rows and two columns.\<close>

definition small_bytes :: "nat list" where
  "small_bytes = [0..<30]"

definition small_fs :: file_system where
  "small_fs = (\<lambda>path. if path = ''s'' then Some small_bytes else None)"

definition front_corner :: nested_param_slice where
  "front_corner = \<lparr>ns_rows_end = None, ns_cols_end = Some 1\<rparr>"

lemma small_fs_facts:
  "small_fs (ti_shard_path (small_info name start rows cols)) = Some small_bytes"
  "length small_bytes \<le> isize_max" "maps_ok small_fs []"
  "8 + start + rows * cols \<le> 30 \<Longrightarrow> info_ok small_fs (small_info name start rows cols)"
  by (simp_all add: small_fs_def small_info_def small_bytes_def isize_max_def maps_ok_def info_ok_def data_len_bytes_def)

lemma small_info_simps:
  "ti_shape (small_info name start rows cols) = [rows, cols]"
  "fst (ti_data_offsets (small_info name start rows cols)) = start"
  "fst (ti_file_offsets (small_info name start rows cols)) = 8 + start"
  "ti_dtype (small_info name start rows cols) = U8"
  "data_len_bytes (small_info name start rows cols) = rows * cols"
  by (simp_all add: small_info_def data_len_bytes_def)

lemma load_modes_agree_witness:
  "\<exists>mapped mmaps'. load small_fs Inr [] (small_info ''k'' 4 2 2) LoadMmap = Some (Inr mapped, mmaps') \<and>
     as_bytes mapped = Some [12, 13, 14, 15]"
proof -
  have "take 4 (drop 12 small_bytes) = [12, 13, 14, 15]" by (simp add: small_bytes_def upt_rec)
  moreover have "info_ok small_fs (small_info ''k'' 4 2 2)" by (intro small_fs_facts) simp
  moreover have "0 < data_len_bytes (small_info ''k'' 4 2 2)" by (simp add: small_info_simps)
  ultimately show ?thesis
    using load_modes_agree [of small_fs "small_info ''k'' 4 2 2" small_bytes Inr "[]"] small_fs_facts(1-3)
    unfolding small_info_simps by auto
qed

lemma submatrix_of_first_tensor_witness:
  "\<exists>loaded mmaps'. load_submatrix small_fs Inr [] (small_info ''q'' 0 2 2) front_corner = Some (Inr loaded, mmaps') \<and>
     as_bytes loaded = Some [8, 10]"
proof -
  have "submatrix (take (2 * 2) (drop (8 + 0) small_bytes)) (2 * bytes_per_element U8)
      (kept (ns_rows_end front_corner) 2) (kept (ns_cols_end front_corner) 2 * bytes_per_element U8) = [8, 10]"
    by (simp add: small_bytes_def upt_rec submatrix_def kept_def front_corner_def)
  moreover have "info_ok small_fs (small_info ''q'' 0 2 2)" by (intro small_fs_facts) simp
  moreover have "0 < kept (ns_rows_end front_corner) 2" "0 < kept (ns_cols_end front_corner) 2"
    by (simp_all add: kept_def front_corner_def)
  ultimately show ?thesis
    using submatrix_of_first_tensor [of small_fs "small_info ''q'' 0 2 2" 2 2 front_corner small_bytes Inr "[]"]
      small_fs_facts(1-3) unfolding small_info_simps by auto
qed

lemma submatrix_starts_late_witness:
  "\<exists>loaded mmaps'. load_submatrix small_fs Inr [] (small_info ''k'' 4 2 2) front_corner = Some (Inr loaded, mmaps') \<and>
     as_bytes loaded = Some [16, 18] \<and>
     as_bytes loaded \<noteq> Some (submatrix (take 4 (drop 12 small_bytes)) 2 2 1)"
proof -
  have "submatrix (drop (8 + 4 + 4) small_bytes) (2 * bytes_per_element U8)
      (kept (ns_rows_end front_corner) 2) (kept (ns_cols_end front_corner) 2 * bytes_per_element U8) = [16, 18]"
    "submatrix (take 4 (drop 12 small_bytes)) 2 2 1 = [12, 14]"
    by (simp_all add: small_bytes_def upt_rec submatrix_def kept_def front_corner_def)
  moreover have "0 < kept (ns_rows_end front_corner) 2" "0 < kept (ns_cols_end front_corner) 2"
    "kept (ns_rows_end front_corner) 2 \<noteq> 2 \<or> kept (ns_cols_end front_corner) 2 \<noteq> 2"
    "8 + 4 + 4 + kept (ns_rows_end front_corner) 2 * (2 * bytes_per_element U8) \<le> length small_bytes"
    by (simp_all add: kept_def front_corner_def small_bytes_def)
  ultimately show ?thesis
    using submatrix_starts_late [of "small_info ''k'' 4 2 2" 2 2 front_corner small_bytes small_fs Inr "[]"]
      small_fs_facts(1-3) unfolding small_info_simps by auto
qed

end
