(* ===== verification/Runtime.thy ===== *)
theory Runtime
  imports Placement
begin

text \<open>
  The runtime planner (\<^verbatim>\<open>aegisllm-base/src/planning/runtime.rs\<close>) and the registry of
  backends (\<^verbatim>\<open>backend.rs\<close>): the backends of an inventory, the choice of a kernel family for
  every placed region, its layout, residency and synchronisation, and the warnings of a plan. The
  graphics adapters that \<^verbatim>\<open>wgpu\<close> enumerates are a parameter, a list of name and backend.
\<close>

section \<open>Backend registry\<close>

instantiation backend_kind :: linorder
begin

fun kind_key :: "backend_kind \<Rightarrow> nat \<times> nat" where
  "kind_key BkCpu = (0, 0)" | "kind_key (BkCuda d) = (1, d)" | "kind_key (BkWgpu d) = (2, d)"

definition less_eq_backend_kind :: "backend_kind \<Rightarrow> backend_kind \<Rightarrow> bool" where
  "a \<le> b \<longleftrightarrow> fst (kind_key a) < fst (kind_key b) \<or>
     fst (kind_key a) = fst (kind_key b) \<and> snd (kind_key a) \<le> snd (kind_key b)"

definition less_backend_kind :: "backend_kind \<Rightarrow> backend_kind \<Rightarrow> bool" where
  "(a::backend_kind) < b \<longleftrightarrow> a \<le> b \<and> \<not> b \<le> a"

lemma kind_key_inject: "kind_key a = kind_key b \<Longrightarrow> a = b"
  by (cases a; cases b) auto

instance
proof
  fix x y z :: backend_kind
  show "x < y \<longleftrightarrow> x \<le> y \<and> \<not> y \<le> x" by (simp add: less_backend_kind_def)
  show "x \<le> x" by (simp add: less_eq_backend_kind_def)
  show "x \<le> y \<Longrightarrow> y \<le> z \<Longrightarrow> x \<le> z" by (auto simp: less_eq_backend_kind_def)
  show "x \<le> y \<Longrightarrow> y \<le> x \<Longrightarrow> x = y"
    by (rule kind_key_inject) (auto simp: less_eq_backend_kind_def prod_eq_iff)
  show "x \<le> y \<or> y \<le> x" by (auto simp: less_eq_backend_kind_def)
qed

end

type_synonym backend_registry = "(backend_kind, backend_descriptor) btree_map"

definition show_bool :: "bool \<Rightarrow> string" where
  "show_bool b = (if b then ''true'' else ''false'')"

fun architecture_debug :: "gpu_architecture \<Rightarrow> string" where
  "architecture_debug Blackwell = ''Blackwell''"
| "architecture_debug Hopper = ''Hopper''"
| "architecture_debug Ada = ''Ada''"
| "architecture_debug Ampere = ''Ampere''"
| "architecture_debug UnknownGpu = ''Unknown''"

definition cpu_backend :: "hardware_inventory \<Rightarrow> backend_descriptor" where
  "cpu_backend inventory =
     \<lparr>be_kind = BkCpu,
      be_label = ''cpu avx2='' @ show_bool (hw_avx2 inventory) @ '' avx512='' @ show_bool (hw_avx512 inventory)
        @ '' bf16='' @ show_bool (hw_bf16 inventory),
      be_ready_for_auto = True, be_supports_fp4 = False, be_supports_fp8 = False,
      be_supports_flash_attention = False, be_supports_paged_attention = False,
      be_attention_dtypes = [AdF32], be_tensor_core_precisions = []\<rparr>"

definition cuda_backend :: "gpu_info \<Rightarrow> backend_descriptor" where
  "cuda_backend gpu =
     (let tensor_core_precisions = gpu_tensor_core_precisions (gpu_arch gpu)
      in \<lparr>be_kind = BkCuda (gpu_index gpu),
          be_label = ''cuda:'' @ show_nat (gpu_index gpu) @ '' '' @ gpu_name gpu @ '' '' @ architecture_debug (gpu_arch gpu),
          be_ready_for_auto = True, be_supports_fp4 = TcFp4 \<in> set tensor_core_precisions,
          be_supports_fp8 = TcFp8 \<in> set tensor_core_precisions,
          be_supports_flash_attention = True, be_supports_paged_attention = True,
          be_attention_dtypes = cuda_attention_dtypes (gpu_arch gpu),
          be_tensor_core_precisions = tensor_core_precisions\<rparr>)"

definition wgpu_backend :: "nat \<Rightarrow> string \<times> string \<Rightarrow> backend_descriptor" where
  "wgpu_backend idx info =
     \<lparr>be_kind = BkWgpu idx, be_label = ''wgpu:'' @ show_nat idx @ '' '' @ fst info @ '' '' @ snd info,
      be_ready_for_auto = False, be_supports_fp4 = False, be_supports_fp8 = False,
      be_supports_flash_attention = False, be_supports_paged_attention = False,
      be_attention_dtypes = [AdF32], be_tensor_core_precisions = []\<rparr>"

definition insert_backend :: "backend_descriptor \<Rightarrow> backend_registry \<Rightarrow> backend_registry" where
  "insert_backend b backends = bt_insert (be_kind b) b backends"

definition registry_from_inventory :: "(string \<times> string) list \<Rightarrow> hardware_inventory \<Rightarrow> backend_registry" where
  "registry_from_inventory adapters inventory =
     (let backends = insert_backend (cpu_backend inventory) [];
          backends = fold (\<lambda>gpu. insert_backend (cuda_backend gpu)) (hw_gpus inventory) backends
      in fold (\<lambda>(idx, info). insert_backend (wgpu_backend idx info)) (enumerate 0 adapters) backends)"

definition backend_get :: "backend_registry \<Rightarrow> backend_kind \<Rightarrow> backend_descriptor option" where
  "backend_get backends kind = map_of backends kind"

fun kind_of_compute :: "compute_placement \<Rightarrow> backend_kind" where
  "kind_of_compute Cpu = BkCpu"
| "kind_of_compute (Cuda device) = BkCuda device"
| "kind_of_compute (Wgpu device) = BkWgpu device"

definition contains_compute :: "backend_registry \<Rightarrow> compute_placement \<Rightarrow> bool" where
  "contains_compute backends placement \<longleftrightarrow> backend_get backends (kind_of_compute placement) \<noteq> None"

section \<open>Kernels\<close>

datatype tensor_residency = Host | Device | MappedHostToDevice

datatype sync_policy = StreamOrdered | ExplicitBoundary

datatype kernel_device_class = KcCpu | KcCuda | KcWgpu

datatype quant_format_match = Exact quant_format | Dense | Quantized

record kernel_candidate =
  ca_family :: kernel_family
  ca_device_class :: kernel_device_class
  ca_format_match :: quant_format_match
  ca_required_precision :: "tensor_core_precision option"
  ca_priority :: nat

record kernel_plan =
  kp_name :: string
  kp_device :: backend_kind
  kp_quant_format :: quant_format
  kp_linear_layout :: linear_layout_plan
  kp_family :: kernel_family
  kp_residency :: tensor_residency
  kp_sync :: sync_policy

record runtime_plan =
  ru_kernels :: "kernel_plan list"
  ru_warnings :: "string list"

definition kernel_registry :: "kernel_candidate list" where
  "kernel_registry =
     [\<lparr>ca_family = CudaNativeFp4TensorCores, ca_device_class = KcCuda, ca_format_match = Exact QfNvfp4,
       ca_required_precision = Some TcFp4, ca_priority = 100\<rparr>,
      \<lparr>ca_family = CudaNativeFp8TensorCores, ca_device_class = KcCuda, ca_format_match = Exact QfFp8E4M3Block,
       ca_required_precision = Some TcFp8, ca_priority = 100\<rparr>,
      \<lparr>ca_family = CudaDenseTensorCores, ca_device_class = KcCuda, ca_format_match = Dense,
       ca_required_precision = None, ca_priority = 50\<rparr>,
      \<lparr>ca_family = CudaQuantizedReference, ca_device_class = KcCuda, ca_format_match = Quantized,
       ca_required_precision = None, ca_priority = 10\<rparr>,
      \<lparr>ca_family = CpuSimd, ca_device_class = KcCpu, ca_format_match = Dense,
       ca_required_precision = None, ca_priority = 50\<rparr>,
      \<lparr>ca_family = CpuScalar, ca_device_class = KcCpu, ca_format_match = Quantized,
       ca_required_precision = None, ca_priority = 10\<rparr>,
      \<lparr>ca_family = WgpuReference, ca_device_class = KcWgpu, ca_format_match = Dense,
       ca_required_precision = None, ca_priority = 1\<rparr>,
      \<lparr>ca_family = WgpuReference, ca_device_class = KcWgpu, ca_format_match = Quantized,
       ca_required_precision = None, ca_priority = 1\<rparr>]"

fun matches_backend :: "kernel_device_class \<Rightarrow> backend_kind \<Rightarrow> bool" where
  "matches_backend KcCpu BkCpu = True"
| "matches_backend KcCuda (BkCuda _) = True"
| "matches_backend KcWgpu (BkWgpu _) = True"
| "matches_backend _ _ = False"

fun matches_format :: "quant_format_match \<Rightarrow> quant_format \<Rightarrow> bool" where
  "matches_format (Exact expected) f = (expected = f)"
| "matches_format Dense f = is_dense f"
| "matches_format Quantized f = is_quantized f"

definition select_kernel :: "kernel_candidate list \<Rightarrow> backend_descriptor \<Rightarrow> quant_format \<Rightarrow> kernel_candidate option" where
  "select_kernel candidates backend f =
     max_by_key ca_priority
       (filter (\<lambda>c. case ca_required_precision c of None \<Rightarrow> True | Some p \<Rightarrow> supports_tensor_core_precision backend p)
         (filter (\<lambda>c. matches_format (ca_format_match c) f)
           (filter (\<lambda>c. matches_backend (ca_device_class c) (be_kind backend)) candidates)))"

definition block_linear_roles :: "tensor_role list" where
  "block_linear_roles = [TrQuery, TrKey, TrValue, TrOutput, TrGate, TrUp, TrDown]"

definition region_has_nvfp4_linear :: "graph_region \<Rightarrow> bool" where
  "region_has_nvfp4_linear region \<longleftrightarrow>
     list_ex (\<lambda>t. gt_role t \<in> set block_linear_roles \<and> ti_dtype (gt_info t) = U8) (gr_tensors region) \<and>
     list_ex (\<lambda>t. gt_role t = TrWeightScale) (gr_tensors region)"

definition region_has_linear_dtype :: "graph_region \<Rightarrow> tensor_dtype \<Rightarrow> bool" where
  "region_has_linear_dtype region dtype \<longleftrightarrow>
     list_ex (\<lambda>t. gt_role t \<in> set (block_linear_roles @ [TrLmHead, TrTokenEmbedding]) \<and> ti_dtype (gt_info t) = dtype)
       (gr_tensors region)"

definition region_quant_format :: "graph_region \<Rightarrow> quant_format" where
  "region_quant_format region =
     (if region_has_nvfp4_linear region then QfNvfp4
      else if region_has_linear_dtype region F8E4M3 then QfFp8E4M3Block
      else if region_has_linear_dtype region BF16 then QfBf16
      else if region_has_linear_dtype region F16 then QfF16
      else if region_has_linear_dtype region F32 then DenseF32
      else DenseF32)"

fun effective_family_for_layout :: "kernel_family \<Rightarrow> linear_resident_layout \<Rightarrow> kernel_family" where
  "effective_family_for_layout selected RepackedFp8 = CudaNativeFp8TensorCores"
| "effective_family_for_layout selected DenseTensorCore = CudaDenseTensorCores"
| "effective_family_for_layout selected CudaR4fE2m1Ue4m3 = CudaCutlassFp4TensorCores"
| "effective_family_for_layout selected PackedSource = selected"
| "effective_family_for_layout selected NativeTensorCore = selected"
| "effective_family_for_layout selected UnpackedI8Scales = selected"
| "effective_family_for_layout selected RepackedInt4 = selected"

definition cuda_nvfp4_kernel_family_for_layout :: "string \<Rightarrow> linear_resident_layout \<Rightarrow> kernel_family aegis_result" where
  "cuda_nvfp4_kernel_family_for_layout p resident_layout =
     (case resident_layout of
        PackedSource \<Rightarrow> Inr CudaQuantizedReference
      | NativeTensorCore \<Rightarrow> Inr CudaNativeFp4TensorCores
      | CudaR4fE2m1Ue4m3 \<Rightarrow> Inr CudaCutlassFp4TensorCores
      | RepackedFp8 \<Rightarrow> Inl (Unsupported (''CUDA NVFP4 -> FP8 materialization for `'' @ p
            @ ''` is planned but the repack kernel is not implemented yet''))
      | RepackedInt4 \<Rightarrow> Inl (Unsupported (''CUDA NVFP4 -> INT4 materialization for `'' @ p
            @ ''` is planned but the repack kernel is not implemented yet''))
      | DenseTensorCore \<Rightarrow> Inl (Unsupported (''CUDA dense tensor-core materialization is not valid for NVFP4 linear `''
            @ p @ ''`''))
      | UnpackedI8Scales \<Rightarrow> Inl (Unsupported (''CPU unpacked-i8 materialization cannot be used by CUDA linear `''
            @ p @ ''`'')))"

section \<open>The plan\<close>

fun backend_kind_debug :: "backend_kind \<Rightarrow> string" where
  "backend_kind_debug BkCpu = ''Cpu''"
| "backend_kind_debug (BkCuda d) = ''Cuda { device: '' @ show_nat d @ '' }''"
| "backend_kind_debug (BkWgpu d) = ''Wgpu { device: '' @ show_nat d @ '' }''"

definition regions_by_id :: "model_graph \<Rightarrow> (region_id, graph_region) btree_map" where
  "regions_by_id graph = fold (\<lambda>r m. bt_insert (gr_id r) r m) (mg_regions graph) []"

definition residency_of :: "storage_placement \<Rightarrow> transfer_policy \<Rightarrow> tensor_residency" where
  "residency_of store transfer =
     (case (store, transfer) of
        (Vram _, NoTransfer) \<Rightarrow> Device
      | (Mmap, HostToDeviceEachUse) \<Rightarrow> MappedHostToDevice
      | _ \<Rightarrow> Host)"

fun sync_of :: "kernel_family \<Rightarrow> sync_policy" where
  "sync_of CudaNativeFp4TensorCores = StreamOrdered"
| "sync_of CudaCutlassFp4TensorCores = StreamOrdered"
| "sync_of CudaNativeFp8TensorCores = StreamOrdered"
| "sync_of CudaDenseTensorCores = StreamOrdered"
| "sync_of CudaGatedDeltaNet = StreamOrdered"
| "sync_of CudaMambaScan = StreamOrdered"
| "sync_of CudaQuantizedReference = ExplicitBoundary"
| "sync_of CpuScalar = StreamOrdered"
| "sync_of CpuSimd = StreamOrdered"
| "sync_of WgpuReference = ExplicitBoundary"

text \<open>The body of the loop over the placed regions, with the layout notes as warnings.\<close>

definition plan_kernel ::
  "model_graph \<Rightarrow> resolved_placement \<Rightarrow> backend_registry \<Rightarrow> region_placement
     \<Rightarrow> (kernel_plan \<times> string list) aegis_result" where
  "plan_kernel graph placement backends region =
     res_bind (ok_or (InvalidPlan (''runtime placement references unknown graph region `'' @ rp_region_id region @ ''`''))
                 (map_of (regions_by_id graph) (rp_region_id region)))
       (\<lambda>graph_region.
         let quant_format = region_quant_format graph_region;
             backend_kind = kind_of_compute (rp_compute region)
         in res_bind (ok_or (InvalidPlan (''compute backend `'' @ backend_kind_debug backend_kind
                               @ ''` was selected but no backend exists'')) (backend_get backends backend_kind))
              (\<lambda>backend.
                res_bind (ok_or (InvalidPlan (''no kernel candidate for backend `'' @ backend_kind_debug (be_kind backend)
                               @ ''` and quant format `'' @ quant_format_label quant_format @ ''`''))
                            (select_kernel kernel_registry backend quant_format))
                  (\<lambda>candidate.
                    let linear_layout = layout_plan (pl_linear_layout placement) backend quant_format
                                          (ca_family candidate) (rp_weight_bytes region);
                        family = effective_family_for_layout (ca_family candidate) (ll_resident_layout linear_layout)
                    in Inr (\<lparr>kp_name = rp_region_id region, kp_device = backend_kind,
                             kp_quant_format = quant_format, kp_linear_layout = linear_layout,
                             kp_family = family,
                             kp_residency = residency_of (rp_store region) (rp_transfer region),
                             kp_sync = sync_of family\<rparr>,
                            map (\<lambda>note. ''region `'' @ rp_region_id region @ ''` layout note: '' @ note)
                              (ll_notes linear_layout)))))"

fun plan_kernels ::
  "model_graph \<Rightarrow> resolved_placement \<Rightarrow> backend_registry \<Rightarrow> region_placement list
     \<Rightarrow> (kernel_plan list \<times> string list) aegis_result" where
  "plan_kernels graph placement backends [] = Inr ([], [])"
| "plan_kernels graph placement backends (region # regions) =
     res_bind (plan_kernel graph placement backends region)
       (\<lambda>(kernel, notes). res_bind (plan_kernels graph placement backends regions)
         (\<lambda>(kernels, warnings). Inr (kernel # kernels, notes @ warnings)))"

definition is_cuda :: "backend_kind \<Rightarrow> bool" where
  "is_cuda kind \<longleftrightarrow> (case kind of BkCuda _ \<Rightarrow> True | _ \<Rightarrow> False)"

definition no_native_fp4_warning :: string where
  "no_native_fp4_warning = ''NVFP4 model has no native FP4 tensor-core regions in the plan''"

definition no_native_candidate_warning :: string where
  "no_native_candidate_warning =
     ''quantized model is planned without a native tensor-core candidate for its format''"

definition kv_transfer_warning :: string where
  "kv_transfer_warning =
     ''kv-cache compute device differs from transformer compute device; runtime will need transfer nodes''"

definition kernel_warnings :: "weight_quantization \<Rightarrow> kernel_plan list \<Rightarrow> string list" where
  "kernel_warnings quantization kernels =
     (let native_fp4_regions = length (filter (\<lambda>k. kp_family k \<in> {CudaNativeFp4TensorCores, CudaCutlassFp4TensorCores}) kernels);
          planned_cuda_quantized_regions = length (filter (\<lambda>k. is_quantized (kp_quant_format k))
            (filter (\<lambda>k. is_cuda (kp_device k)) kernels));
          repacked_fp8_regions = length (filter (\<lambda>k. ll_resident_layout (kp_linear_layout k) = RepackedFp8) kernels);
          quantized_reference_regions = length (filter (\<lambda>k. kp_family k = CudaQuantizedReference) kernels)
      in (if quantization = WqNvfp4 \<and> planned_cuda_quantized_regions > 0 \<and> native_fp4_regions = 0
             \<and> repacked_fp8_regions = 0
          then [no_native_fp4_warning] else [])
       @ (if quantized_reference_regions > 0
          then [show_nat quantized_reference_regions
                  @ '' CUDA quantized regions are using reference kernels; add a native candidate for the format/backend to optimize them'']
          else [])
       @ (if repacked_fp8_regions > 0
          then [show_nat repacked_fp8_regions
                  @ '' regions are planned for FP8 materialization; CUDA repack kernels are not implemented yet'']
          else [])
       @ (if planned_cuda_quantized_regions > 0 \<and> is_quantized (format_hint quantization)
             \<and> list_all (\<lambda>k. kp_family k \<notin> {CudaNativeFp4TensorCores, CudaCutlassFp4TensorCores, CudaNativeFp8TensorCores})
                 (filter (\<lambda>k. kp_quant_format k = format_hint quantization) (filter (\<lambda>k. is_cuda (kp_device k)) kernels))
          then [no_native_candidate_warning] else []))"

text \<open>The index \<open>0\<close> is in range: some region is a transformer block.\<close>

definition kv_warnings :: "resolved_placement \<Rightarrow> string list" where
  "kv_warnings placement =
     (if list_ex (\<lambda>p. rp_kind p = RkTransformerBlock) (pl_region_placements placement)
         \<and> kc_compute (pl_kv_cache placement) \<noteq> rp_compute (pl_region_placements placement ! 0)
      then [kv_transfer_warning] else [])"

definition runtime_build ::
  "model_graph \<Rightarrow> resolved_placement \<Rightarrow> backend_registry \<Rightarrow> runtime_plan aegis_result" where
  "runtime_build graph placement backends =
     res_bind (plan_kernels graph placement backends (pl_region_placements placement))
       (\<lambda>(kernels, notes).
         Inr \<lparr>ru_kernels = kernels,
              ru_warnings = notes @ kernel_warnings (mg_weight_quantization graph) kernels @ kv_warnings placement\<rparr>)"

definition count_family :: "runtime_plan \<Rightarrow> kernel_family \<Rightarrow> nat" where
  "count_family rt family = length (filter (\<lambda>k. kp_family k = family) (ru_kernels rt))"

definition count_format :: "runtime_plan \<Rightarrow> quant_format \<Rightarrow> nat" where
  "count_format rt f = length (filter (\<lambda>k. kp_quant_format k = f) (ru_kernels rt))"

definition count_resident_layout :: "runtime_plan \<Rightarrow> linear_resident_layout \<Rightarrow> nat" where
  "count_resident_layout rt layout =
     length (filter (\<lambda>k. ll_resident_layout (kp_linear_layout k) = layout) (ru_kernels rt))"

definition extra_layout_weight_bytes :: "runtime_plan \<Rightarrow> nat" where
  "extra_layout_weight_bytes rt = sum_u64 (map (\<lambda>k. ll_extra_weight_bytes (kp_linear_layout k)) (ru_kernels rt))"

section \<open>The kernel that is selected\<close>

lemma select_kernel_table_eq:
  "map_option ca_family (select_kernel kernel_registry b f) =
     (if f = QfUnknown then None
      else case be_kind b of
        BkCpu \<Rightarrow> Some (if is_dense f then CpuSimd else CpuScalar)
      | BkWgpu _ \<Rightarrow> Some WgpuReference
      | BkCuda _ \<Rightarrow>
          Some (if is_dense f then CudaDenseTensorCores
                else if f = QfNvfp4 \<and> supports_tensor_core_precision b TcFp4 then CudaNativeFp4TensorCores
                else if f = QfFp8E4M3Block \<and> supports_tensor_core_precision b TcFp8 then CudaNativeFp8TensorCores
                else CudaQuantizedReference))"
  by (cases "be_kind b"; cases f)
    (simp_all add: select_kernel_def kernel_registry_def max_by_key_def is_dense_def is_quantized_def)

section \<open>What the registry of backends holds\<close>

definition descriptor_ok :: "backend_kind \<Rightarrow> backend_descriptor \<Rightarrow> bool" where
  "descriptor_ok kind b \<longleftrightarrow>
     be_kind b = kind \<and>
     (be_supports_fp4 b \<longleftrightarrow> supports_tensor_core_precision b TcFp4) \<and>
     (be_supports_fp8 b \<longleftrightarrow> supports_tensor_core_precision b TcFp8)"

definition registry_ok :: "backend_registry \<Rightarrow> bool" where
  "registry_ok backends \<longleftrightarrow> (\<forall>kind b. map_of backends kind = Some b \<longrightarrow> descriptor_ok kind b)"

lemma insert_backend_ok:
  "registry_ok backends \<Longrightarrow> descriptor_ok (be_kind b) b \<Longrightarrow> registry_ok (insert_backend b backends)"
  by (simp add: registry_ok_def insert_backend_def)

lemma insert_backend_get [simp]:
  "map_of (insert_backend b backends) = (map_of backends)(be_kind b \<mapsto> b)"
  by (simp add: insert_backend_def)

lemma backends_ok:
  "descriptor_ok (be_kind (cpu_backend i)) (cpu_backend i)"
  "descriptor_ok (be_kind (cuda_backend gpu)) (cuda_backend gpu)"
  "descriptor_ok (be_kind (wgpu_backend idx info)) (wgpu_backend idx info)"
  by (simp_all add: descriptor_ok_def cpu_backend_def cuda_backend_def wgpu_backend_def Let_def
      supports_tensor_core_precision_def)

lemma fold_insert_ok:
  "registry_ok backends \<Longrightarrow> (\<And>x. descriptor_ok (be_kind (mk x)) (mk x)) \<Longrightarrow>
   registry_ok (fold (\<lambda>x. insert_backend (mk x)) xs backends)"
  by (induction xs arbitrary: backends) (simp_all add: insert_backend_ok)

lemma fold_insert_dom:
  "dom (map_of (fold (\<lambda>x. insert_backend (mk x)) xs backends)) = dom (map_of backends) \<union> (be_kind \<circ> mk) ` set xs"
  by (induction xs arbitrary: backends) auto

lemma registry_from_inventory_ok: "registry_ok (registry_from_inventory adapters inventory)"
proof -
  have wgpu: "(\<lambda>(idx, info). insert_backend (wgpu_backend idx info))
      = (\<lambda>x. insert_backend ((\<lambda>(idx, info). wgpu_backend idx info) x))" by auto
  show ?thesis
    unfolding registry_from_inventory_def Let_def wgpu
    by (intro fold_insert_ok insert_backend_ok) (auto simp: backends_ok registry_ok_def)
qed

lemma registry_has_kinds:
  "backend_get (registry_from_inventory adapters inventory) kind \<noteq> None \<longleftrightarrow>
     kind = BkCpu \<or> (\<exists>gpu \<in> set (hw_gpus inventory). kind = BkCuda (gpu_index gpu)) \<or>
     (\<exists>i < length adapters. kind = BkWgpu i)"
proof -
  have wgpu: "(\<lambda>(idx, info). insert_backend (wgpu_backend idx info))
      = (\<lambda>x. insert_backend ((\<lambda>(idx, info). wgpu_backend idx info) x))" by auto
  have idx: "(be_kind \<circ> (\<lambda>(idx, info). wgpu_backend idx info)) ` set (enumerate 0 adapters) = BkWgpu ` {..<length adapters}"
  proof -
    have "set (enumerate 0 adapters) = (\<lambda>i. (i, adapters ! i)) ` {..<length adapters}"
      by (auto simp: in_set_enumerate_eq image_iff)
    then show ?thesis by (simp add: image_image wgpu_backend_def)
  qed
  have gpus: "be_kind \<circ> cuda_backend = BkCuda \<circ> gpu_index" by (auto simp: cuda_backend_def Let_def)
  have "dom (map_of (registry_from_inventory adapters inventory))
      = {BkCpu} \<union> (BkCuda \<circ> gpu_index) ` set (hw_gpus inventory) \<union> BkWgpu ` {..<length adapters}"
    unfolding registry_from_inventory_def Let_def wgpu fold_insert_dom
    unfolding idx gpus by (simp add: cpu_backend_def)
  then show ?thesis unfolding backend_get_def domIff [symmetric] by auto
qed

section \<open>Plans are complete and run\<close>

text \<open>What a kernel family needs of the device and of the format of the weights.\<close>

definition family_runs :: "backend_descriptor \<Rightarrow> quant_format \<Rightarrow> kernel_family \<Rightarrow> bool" where
  "family_runs b f family =
     (case family of
        CpuScalar \<Rightarrow> be_kind b = BkCpu \<and> is_quantized f
      | CpuSimd \<Rightarrow> be_kind b = BkCpu \<and> is_dense f
      | WgpuReference \<Rightarrow> be_kind b \<noteq> BkCpu \<and> \<not> is_cuda (be_kind b)
      | CudaDenseTensorCores \<Rightarrow> is_cuda (be_kind b) \<and> is_dense f
      | CudaQuantizedReference \<Rightarrow> is_cuda (be_kind b) \<and> is_quantized f
      | CudaNativeFp4TensorCores \<Rightarrow> is_cuda (be_kind b) \<and> f = QfNvfp4 \<and> supports_tensor_core_precision b TcFp4
      | CudaCutlassFp4TensorCores \<Rightarrow> is_cuda (be_kind b) \<and> f = QfNvfp4 \<and> supports_tensor_core_precision b TcFp4
      | CudaNativeFp8TensorCores \<Rightarrow> is_cuda (be_kind b) \<and> is_quantized f \<and> supports_tensor_core_precision b TcFp8
      | _ \<Rightarrow> False)"

lemma selected_runs:
  assumes "select_kernel kernel_registry b f = Some c"
  shows "family_runs b f (ca_family c)"
proof -
  from assms have "map_option ca_family (select_kernel kernel_registry b f) = Some (ca_family c)" by simp
  then show ?thesis
    unfolding select_kernel_table_eq
    by (cases f; cases "be_kind b")
      (auto simp: family_runs_def is_dense_def is_quantized_def is_cuda_def split: if_splits)
qed

lemma effective_runs:
  assumes "family_runs b f family" "descriptor_ok kind b"
  shows "family_runs b f (effective_family_for_layout family
    (ll_resident_layout (layout_plan policy b f family bytes)))"
proof -
  obtain c where "ll_resident_layout (layout_plan policy b f family bytes) = fst (plan_resident_layout c b f family)"
    using layout_plan_resident by blast
  moreover have "family_runs b f (effective_family_for_layout family l)"
    if "layout_supported b f family l" "l \<in> {RepackedFp8, CudaR4fE2m1Ue4m3} \<Longrightarrow> \<exists>d. be_kind b = BkCuda d" for l
    using that assms
    by (cases l) (auto simp: layout_supported_def family_runs_def descriptor_ok_def is_cuda_def is_quantized_def)
  ultimately show ?thesis
    using resident_layout_supported(1) [of b f family c] resident_layout_supported(2) [of c b f family] by metis
qed

lemma plan_kernel_Inr:
  assumes "plan_kernel graph pl backends p = Inr (k, notes)"
  obtains r b c where "map_of (regions_by_id graph) (rp_region_id p) = Some r"
    "backend_get backends (kind_of_compute (rp_compute p)) = Some b"
    "select_kernel kernel_registry b (region_quant_format r) = Some c"
    "kp_name k = rp_region_id p" "kp_device k = kind_of_compute (rp_compute p)"
    "kp_quant_format k = region_quant_format r"
    "kp_family k = effective_family_for_layout (ca_family c) (ll_resident_layout (kp_linear_layout k))"
    "kp_linear_layout k = layout_plan (pl_linear_layout pl) b (region_quant_format r) (ca_family c) (rp_weight_bytes p)"
    "kp_residency k = residency_of (rp_store p) (rp_transfer p)"
  using assms unfolding plan_kernel_def
  by (auto simp: res_bind_def ok_or_def Let_def split: sum.splits option.splits)

lemma plan_kernels_Inr:
  "plan_kernels graph pl backends ps = Inr (ks, notes) \<Longrightarrow>
   list_all2 (\<lambda>p k. \<exists>n. plan_kernel graph pl backends p = Inr (k, n)) ps ks"
  by (induction ps arbitrary: ks "notes") (auto simp: res_bind_def split: sum.splits)

lemma plan_kernels_total:
  "(\<exists>r. plan_kernels graph pl backends ps = Inr r) \<longleftrightarrow> (\<forall>p \<in> set ps. \<exists>r. plan_kernel graph pl backends p = Inr r)"
  by (induction ps) (auto simp: res_bind_def split: sum.splits)


lemma placed_regions_known:
  assumes "plan name graph inventory policy = Inr pl" "p \<in> set (pl_region_placements pl)"
  shows "\<exists>r. map_of (regions_by_id graph) (rp_region_id p) = Some r"
proof -
  have "list_all2 (\<lambda>r p. kept_or_spilled policy (place_region graph policy r) p)
      (mg_regions graph) (pl_region_placements pl)"
    using trim_moves [OF plan_Inr(4) [OF assms(1)]] by (simp add: list.rel_map)
  from list_all2_mem [OF this assms(2)]
  obtain r where r: "r \<in> set (mg_regions graph)" "kept_or_spilled policy (place_region graph policy r) p" by blast
  then have "rp_region_id p = gr_id r"
    by (auto simp: kept_or_spilled_def spilled_def place_region_def split: prod.splits)
  moreover have dom: "dom (map_of (fold (\<lambda>r m. bt_insert (gr_id r) r m) rs m)) = dom (map_of m) \<union> gr_id ` set rs" for rs m
    by (induction rs arbitrary: m) auto
  have "gr_id r \<in> dom (map_of (regions_by_id graph))"
    unfolding regions_by_id_def dom using r(1) by simp
  ultimately show ?thesis by (simp only: dom_def mem_Collect_eq not_None_eq)
qed

lemma region_format_known: "region_quant_format r \<noteq> QfUnknown"
  by (simp add: region_quant_format_def)

lemma plan_kernel_total:
  assumes "map_of (regions_by_id graph) (rp_region_id p) = Some r"
  shows "(\<exists>k. plan_kernel graph pl backends p = Inr k) \<longleftrightarrow> contains_compute backends (rp_compute p)"
proof (cases "backend_get backends (kind_of_compute (rp_compute p))")
  case None
  then show ?thesis using assms by (simp add: plan_kernel_def ok_or_def Let_def contains_compute_def)
next
  case (Some b)
  have "map_option ca_family (select_kernel kernel_registry b (region_quant_format r)) \<noteq> None"
    unfolding select_kernel_table_eq using region_format_known by (simp split: backend_kind.split)
  then obtain c where "select_kernel kernel_registry b (region_quant_format r) = Some c" by auto
  with Some show ?thesis
    using assms by (simp add: plan_kernel_def ok_or_def Let_def contains_compute_def)
qed

lemma runtime_build_total:
  assumes "plan name graph inventory policy = Inr pl"
  shows "(\<exists>rt. runtime_build graph pl backends = Inr rt) \<longleftrightarrow>
    (\<forall>p \<in> set (pl_region_placements pl). contains_compute backends (rp_compute p))"
proof -
  have "(\<exists>rt. runtime_build graph pl backends = Inr rt) \<longleftrightarrow>
      (\<exists>r. plan_kernels graph pl backends (pl_region_placements pl) = Inr r)"
    by (auto simp: runtime_build_def res_bind_def split: sum.splits)
  also have "\<dots> \<longleftrightarrow> (\<forall>p \<in> set (pl_region_placements pl). contains_compute backends (rp_compute p))"
    unfolding plan_kernels_total
    using placed_regions_known [OF assms] plan_kernel_total by blast
  finally show ?thesis .
qed

text \<open>
  C28: a placed graph has a runtime plan exactly when every compute device of the placement has a
  backend; unknown regions, formats without a kernel and layouts are never the reason of an error.
\<close>

theorem runtime_plan_exists_iff:
  assumes "plan name graph inventory policy = Inr pl"
  shows "(\<exists>rt. runtime_build graph pl (registry_from_inventory adapters inventory) = Inr rt) \<longleftrightarrow>
    (\<forall>p \<in> set (pl_region_placements pl).
       case rp_compute p of
         Cpu \<Rightarrow> True
       | Cuda d \<Rightarrow> d \<in> gpu_index ` set (hw_gpus inventory)
       | Wgpu d \<Rightarrow> d < length adapters)"
  unfolding runtime_build_total [OF assms] contains_compute_def registry_has_kinds
  by (intro ball_cong refl) (auto split: compute_placement.split)

text \<open>
  On every machine the automatic placement of every graph succeeds and has a runtime plan.
\<close>

theorem auto_placement_has_runtime_plan:
  "\<exists>pl rt. plan name graph inventory (auto_for inventory) = Inr pl \<and>
     runtime_build graph pl (registry_from_inventory adapters inventory) = Inr rt"
proof -
  let ?policy = "auto_for inventory"
  have "pp_context_size ?policy \<noteq> 0" by (simp add: auto_for_def split: option.split)
  then obtain pl where pl: "plan name graph inventory ?policy = Inr pl"
    by (cases "trim_vram_to_budget (mb_vram (budget_from_inventory inventory ?policy)) (kv_placement graph ?policy)
        ?policy (map (place_region graph ?policy) (mg_regions graph)) []") (simp add: plan_def Let_def)
  have gpu: "gpu_index g \<in> gpu_index ` set (hw_gpus inventory)" if "preferred_cuda inventory = Some g" for g
    using that by (auto simp: preferred_cuda_def dest: max_by_key_in)
  have devices: "contains_compute (registry_from_inventory adapters inventory) (pp_weights_compute ?policy)"
    "contains_compute (registry_from_inventory adapters inventory) (pp_spill_compute ?policy)"
    using gpu unfolding contains_compute_def registry_has_kinds
    by (auto simp: auto_for_def split: option.split)
  have placed: "list_all2 (\<lambda>r p. kept_or_spilled ?policy (place_region graph ?policy r) p)
      (mg_regions graph) (pl_region_placements pl)"
    using trim_moves [OF plan_Inr(4) [OF pl]] by (simp add: list.rel_map)
  have "pp_rules ?policy = []" by (simp add: auto_for_def split: option.split)
  then have first: "rp_compute (place_region graph ?policy r) = pp_weights_compute ?policy" for r
    by (simp add: place_region_def apply_rules_def)
  have "rp_compute p \<in> {pp_weights_compute ?policy, pp_spill_compute ?policy}"
    if "p \<in> set (pl_region_placements pl)" for p
  proof -
    from list_all2_mem [OF placed that] obtain r where "kept_or_spilled ?policy (place_region graph ?policy r) p" by blast
    then show ?thesis using first [of r] by (auto simp: kept_or_spilled_def spilled_def)
  qed
  then have "\<exists>rt. runtime_build graph pl (registry_from_inventory adapters inventory) = Inr rt"
    unfolding runtime_build_total [OF pl] using devices by (metis insertE singletonD)
  with pl show ?thesis by blast
qed

lemma built_kernels_run:
  assumes "runtime_build graph pl (registry_from_inventory adapters inventory) = Inr rt"
  shows "list_all2 (\<lambda>p k. kp_name k = rp_region_id p \<and> kp_device k = kind_of_compute (rp_compute p) \<and>
      (\<exists>b. backend_get (registry_from_inventory adapters inventory) (kp_device k) = Some b \<and>
           family_runs b (kp_quant_format k) (kp_family k)))
    (pl_region_placements pl) (ru_kernels rt)"
proof -
  let ?reg = "registry_from_inventory adapters inventory"
  from assms obtain ns where "plan_kernels graph pl ?reg (pl_region_placements pl) = Inr (ru_kernels rt, ns)"
    by (auto simp: runtime_build_def res_bind_def split: sum.splits)
  from plan_kernels_Inr [OF this] show ?thesis
  proof (rule list_all2_mono)
    fix p k
    assume "\<exists>n. plan_kernel graph pl ?reg p = Inr (k, n)"
    then obtain n r b c where k: "backend_get ?reg (kind_of_compute (rp_compute p)) = Some b"
      "select_kernel kernel_registry b (region_quant_format r) = Some c"
      "kp_name k = rp_region_id p" "kp_device k = kind_of_compute (rp_compute p)"
      "kp_quant_format k = region_quant_format r"
      "kp_family k = effective_family_for_layout (ca_family c) (ll_resident_layout (kp_linear_layout k))"
      "kp_linear_layout k = layout_plan (pl_linear_layout pl) b (region_quant_format r) (ca_family c) (rp_weight_bytes p)"
      by (auto elim!: plan_kernel_Inr)
    have "descriptor_ok (kind_of_compute (rp_compute p)) b"
      using registry_from_inventory_ok k(1) by (auto simp: registry_ok_def backend_get_def)
    from effective_runs [OF selected_runs [OF k(2)] this] k
    show "kp_name k = rp_region_id p \<and> kp_device k = kind_of_compute (rp_compute p) \<and>
        (\<exists>b. backend_get ?reg (kp_device k) = Some b \<and> family_runs b (kp_quant_format k) (kp_family k))"
      by simp
  qed
qed

text \<open>
  C27: every kernel of a runtime plan runs on the device it is planned for: its device class, the
  format of its region, and the tensor-core precision it needs fit the backend, also after the
  layout replaced the kernel family.
\<close>

theorem planned_kernels_run:
  assumes "runtime_build graph pl (registry_from_inventory adapters inventory) = Inr rt"
  shows "list_all2 (\<lambda>p k. kp_name k = rp_region_id p \<and> kp_device k = kind_of_compute (rp_compute p) \<and>
      (\<exists>b. backend_get (registry_from_inventory adapters inventory) (kp_device k) = Some b \<and>
           family_runs b (kp_quant_format k) (kp_family k)))
    (pl_region_placements pl) (ru_kernels rt)"
  using assms by (rule built_kernels_run)


section \<open>The KV cache warning\<close>

definition warned_placement :: "compute_placement \<Rightarrow> compute_placement \<Rightarrow> resolved_placement" where
  "warned_placement front block =
     (case plan ''m'' demo_model demo_inventory demo_policy of
        Inr pl \<Rightarrow> pl\<lparr>pl_region_placements :=
          [\<lparr>rp_region_id = ''embed'', rp_kind = RkTokenEmbedding, rp_layer_index = None, rp_weight_bytes = 1,
            rp_store = Ram, rp_compute = front, rp_transfer = NoTransfer\<rparr>,
           \<lparr>rp_region_id = ''layer.0'', rp_kind = RkTransformerBlock, rp_layer_index = Some 0, rp_weight_bytes = 1,
            rp_store = Ram, rp_compute = block, rp_transfer = NoTransfer\<rparr>]\<rparr>)"

text \<open>
  The warning that the KV cache and the transformer blocks compute on different devices follows
  the first region, the embedding, instead: with the cache on device 0 it is given when only the
  embedding is on the CPU, and it is missing when only the blocks are.
\<close>

theorem kv_warning_follows_first_region:
  "kc_compute (pl_kv_cache (warned_placement Cpu (Cuda 0))) = Cuda 0 \<and>
   kv_warnings (warned_placement Cpu (Cuda 0)) = [kv_transfer_warning] \<and>
   kc_compute (pl_kv_cache (warned_placement (Cuda 0) Cpu)) = Cuda 0 \<and>
   kv_warnings (warned_placement (Cuda 0) Cpu) = []"
proof -
  obtain pl where pl: "plan ''m'' demo_model demo_inventory demo_policy = Inr pl" using demo_plan by blast
  have "kc_compute (pl_kv_cache pl) = Cuda 0"
    unfolding plan_Inr(3) [OF pl] by (simp add: kv_placement_def demo_policy_def demo_auto)
  then show ?thesis by (simp add: warned_placement_def pl kv_warnings_def)
qed

section \<open>Witnesses\<close>

lemma runtime_plan_exists_iff_witness:
  "\<exists>pl rt. plan ''m'' demo_model demo_inventory demo_policy = Inr pl \<and>
     runtime_build demo_model pl (registry_from_inventory [] demo_inventory) = Inr rt"
proof -
  obtain pl where pl: "plan ''m'' demo_model demo_inventory demo_policy = Inr pl" using demo_plan by blast
  have placed: "list_all2 (\<lambda>r p. kept_or_spilled demo_policy (place_region demo_model demo_policy r) p)
      (mg_regions demo_model) (pl_region_placements pl)"
    using trim_moves [OF plan_Inr(4) [OF pl]] by (simp add: list.rel_map)
  have first: "rp_compute (place_region demo_model demo_policy r) = Cuda 0" for r
    by (simp add: place_region_def apply_rules_def demo_policy_def demo_auto)
  have "rp_compute p = Cuda 0" if "p \<in> set (pl_region_placements pl)" for p
  proof -
    from list_all2_mem [OF placed that] obtain r where
      "kept_or_spilled demo_policy (place_region demo_model demo_policy r) p" by blast
    then show ?thesis using first [of r] by (auto simp: kept_or_spilled_def spilled_def demo_policy_def demo_auto)
  qed
  moreover have "0 \<in> gpu_index ` set (hw_gpus demo_inventory)" by (simp add: demo_inventory_def)
  ultimately have "\<forall>p \<in> set (pl_region_placements pl). case rp_compute p of Cpu \<Rightarrow> True
      | Cuda d \<Rightarrow> d \<in> gpu_index ` set (hw_gpus demo_inventory) | Wgpu d \<Rightarrow> d < length ([] :: (string \<times> string) list)"
    by simp
  with runtime_plan_exists_iff [OF pl, of "[]"] pl show ?thesis by blast
qed

lemma planned_kernels_run_witness:
  "\<exists>pl rt. runtime_build demo_model pl (registry_from_inventory [] demo_inventory) = Inr rt \<and>
     map kp_name (ru_kernels rt) = [''layer.0'', ''layer.1'']"
proof -
  obtain pl where pl: "plan ''m'' demo_model demo_inventory demo_policy = Inr pl" using demo_plan by blast
  have placed: "list_all2 (\<lambda>r p. kept_or_spilled demo_policy (place_region demo_model demo_policy r) p)
      (mg_regions demo_model) (pl_region_placements pl)"
    using trim_moves [OF plan_Inr(4) [OF pl]] by (simp add: list.rel_map)
  have first: "rp_compute (place_region demo_model demo_policy r) = Cuda 0"
    "rp_region_id (place_region demo_model demo_policy r) = gr_id r" for r
    by (simp_all add: place_region_def apply_rules_def demo_policy_def demo_auto)
  then have kept: "rp_compute p = Cuda 0 \<and> rp_region_id p = gr_id r"
    if "kept_or_spilled demo_policy (place_region demo_model demo_policy r) p" for r p
    using that first [of r] by (auto simp: kept_or_spilled_def spilled_def demo_policy_def demo_auto)
  have "\<forall>p \<in> set (pl_region_placements pl). contains_compute (registry_from_inventory [] demo_inventory) (rp_compute p)"
  proof
    fix p assume "p \<in> set (pl_region_placements pl)"
    from list_all2_mem [OF placed this] kept have "rp_compute p = Cuda 0" by blast
    then show "contains_compute (registry_from_inventory [] demo_inventory) (rp_compute p)"
      unfolding contains_compute_def registry_has_kinds by (simp add: demo_inventory_def)
  qed
  then obtain rt where rt: "runtime_build demo_model pl (registry_from_inventory [] demo_inventory) = Inr rt"
    using runtime_build_total [OF pl] by blast
  have "list_all2 (\<lambda>r p. rp_region_id p = gr_id r) (mg_regions demo_model) (pl_region_placements pl)"
    using placed by (rule list_all2_mono) (use kept in blast)
  then have ids: "map rp_region_id (pl_region_placements pl) = map gr_id (mg_regions demo_model)"
    by (induction rule: list_all2_induct) simp_all
  have "map kp_name (ru_kernels rt) = map rp_region_id (pl_region_placements pl)"
    using planned_kernels_run [OF rt] by (induction rule: list_all2_induct) simp_all
  also have "\<dots> = [''layer.0'', ''layer.1'']"
  proof -
    have "show_nat 0 = ''0''" "show_nat 1 = ''1''" by code_simp+
    then show ?thesis unfolding ids by (simp add: demo_model_def demo_layer_def)
  qed
  finally have "map kp_name (ru_kernels rt) = [''layer.0'', ''layer.1'']" .
  with rt show ?thesis by (intro exI conjI)
qed


end
