(* ===== verification/CudaConfig.thy ===== *)
theory CudaConfig
  imports Layout ModelArch
begin

text \<open>
  The CUDA runtime configuration (\<^verbatim>\<open>aegisllm-base/src/cuda_config.rs\<close>): the fields
  read from the process environment, the names of the attention kernels, the one decision which
  attention backend computes a prefill, and the path reported for a request and a shape. The
  environment is a function from the name of a variable to its value.
\<close>

section \<open>Types\<close>

type_synonym environment = "string \<Rightarrow> string option"

definition env_set :: "environment \<Rightarrow> string \<Rightarrow> bool" where
  "env_set env name \<longleftrightarrow> env name \<noteq> None"

datatype attention_compute_quant = AcqDefault | AcqBf16 | AcqBf16Fa2 | AcqFp8

datatype prefill_attention_kernel =
    PkAuto | PkOff | PkFlashAttention2 | PkFlashAttention3 | PkFlashAttention4 | PkFp8 | PkMma
  | PkAegisVarlen | PkReference | PkWarpFlash | PkContinuation

datatype attention_compute_backend = AbReference | AbBf16 | AbFa2 | AbFp8 | AbMma

datatype cuda_attention_backend = CbReference | CbFlash2 | CbFlash3 | CbFlash4 | CbAegisVarlen

datatype effective_path =
    ReferenceCacheOnly | ReferenceContinuation | AegisDenseWarpTile | AegisDenseWmmaTile
  | AegisDenseWmmaFaPipeline | AegisDenseWmmaGqa4 | AegisDenseWmmaGqa4SplitK
  | AegisDenseWmmaCluster2 | AegisDenseWmmaPersistentQ32 | AegisDenseWmmaSplitK
  | AegisPagedVarlen | AegisPagedWmmaGqa4 | FlashAttention4PagedVarlen | WarpFlash

record cuda_runtime_config =
  cu_native_mxfp4_repack :: bool
  cu_cutlass_nvfp4_repack :: bool
  cu_native_mxfp4_inference :: bool
  cu_prefill_attention :: prefill_attention_kernel
  cu_prefill_chunk_size :: "nat option"
  cu_prefill_stage_timings :: bool
  cu_attention_compute_quant :: attention_compute_quant

record attention_selection =
  as_requested :: prefill_attention_kernel
  as_auto_target :: "cuda_attention_backend option"
  as_logical_backend :: cuda_attention_backend
  as_effective_path :: effective_path
  as_reason :: string

definition CUDA_PREFILL_VARLEN_MIN_CONTEXT :: nat where "CUDA_PREFILL_VARLEN_MIN_CONTEXT = 128"

definition CUDA_PREFILL_CHUNK_MAX :: nat where "CUDA_PREFILL_CHUNK_MAX = 8192"

definition CUDA_PREFILL_DENSE_SPLIT_K_TOKENS :: nat where "CUDA_PREFILL_DENSE_SPLIT_K_TOKENS = 1024"

section \<open>Names\<close>

definition compute_quant_parse :: "string \<Rightarrow> attention_compute_quant aegis_result" where
  "compute_quant_parse value =
     (let v = normalize value
      in if v \<in> {''default'', ''auto'', []} then Inr AcqDefault
         else if v \<in> {''bf16'', ''bfloat16'', ''half''} then Inr AcqBf16
         else if v \<in> {''bf16-fa2'', ''bf16_fa2'', ''fa2'', ''flash-attention-2''} then Inr AcqBf16Fa2
         else if v \<in> {''fp8'', ''f8'', ''fp8-e4m3'', ''fp8_e4m3''} then Inr AcqFp8
         else Inl (InvalidConfig (''unsupported attention compute-quantization `'' @ v
                @ ''` (use one of: default, bf16, bf16-fa2, fp8)'')))"

fun compute_quant_label :: "attention_compute_quant \<Rightarrow> string" where
  "compute_quant_label AcqDefault = ''default''"
| "compute_quant_label AcqBf16 = ''bf16''"
| "compute_quant_label AcqBf16Fa2 = ''bf16-fa2''"
| "compute_quant_label AcqFp8 = ''fp8''"

definition wants_fp8 :: "attention_compute_quant \<Rightarrow> bool" where
  "wants_fp8 q \<longleftrightarrow> q = AcqFp8"

definition wants_fa2 :: "attention_compute_quant \<Rightarrow> bool" where
  "wants_fa2 q \<longleftrightarrow> q = AcqBf16Fa2"

definition prefill_kernel_parse :: "string \<Rightarrow> prefill_attention_kernel aegis_result" where
  "prefill_kernel_parse value =
     (let v = normalize value
      in if v = ''auto'' then Inr PkAuto
         else if v \<in> {''off'', ''false'', ''none'', ''disabled''} then Inr PkOff
         else if v \<in> {''reference'', ''scalar'', ''legacy''} then Inr PkReference
         else if v \<in> {''fa2'', ''flash2'', ''flash-attention-2'', ''flashattention2''} then Inr PkFlashAttention2
         else if v \<in> {''fa3'', ''flash3'', ''flash-attention-3'', ''flashattention3''} then Inr PkFlashAttention3
         else if v \<in> {''fa4'', ''flash4'', ''flash-attention-4'', ''flashattention4''} then Inr PkFlashAttention4
         else if v \<in> {''fp8'', ''f8'', ''fp8-e4m3'', ''fp8_e4m3'', ''fp8-mma''} then Inr PkFp8
         else if v \<in> {''mma'', ''mma-sync'', ''mma_sync'', ''flash-attention-mma''} then Inr PkMma
         else if v \<in> {''aegis-varlen'', ''aegis-paged'', ''paged-online'', ''paged-varlen'', ''flash-varlen'',
                      ''fa-varlen'', ''flash-varlen-paged'', ''varlen''} then Inr PkAegisVarlen
         else if v \<in> {''warp'', ''warp-flash'', ''flash'', ''flash-attention'', ''on'', ''true''} then Inr PkWarpFlash
         else if v \<in> {''continuation'', ''online'', ''online-softmax''} then Inr PkContinuation
         else Inl (InvalidConfig (''unsupported CUDA prefill attention kernel `'' @ v @ ''`'')))"

fun prefill_kernel_name :: "prefill_attention_kernel \<Rightarrow> string" where
  "prefill_kernel_name PkAuto = ''auto''"
| "prefill_kernel_name PkOff = ''off''"
| "prefill_kernel_name PkFlashAttention2 = ''fa2''"
| "prefill_kernel_name PkFlashAttention3 = ''fa3''"
| "prefill_kernel_name PkFlashAttention4 = ''fa4''"
| "prefill_kernel_name PkFp8 = ''fp8''"
| "prefill_kernel_name PkMma = ''mma''"
| "prefill_kernel_name PkAegisVarlen = ''aegis-varlen''"
| "prefill_kernel_name PkReference = ''reference''"
| "prefill_kernel_name PkWarpFlash = ''warp-flash''"
| "prefill_kernel_name PkContinuation = ''continuation''"

fun compute_backend_name :: "attention_compute_backend \<Rightarrow> string" where
  "compute_backend_name AbReference = ''reference''"
| "compute_backend_name AbBf16 = ''bf16''"
| "compute_backend_name AbFa2 = ''fa2''"
| "compute_backend_name AbFp8 = ''fp8''"
| "compute_backend_name AbMma = ''mma''"

fun attention_backend_name :: "cuda_attention_backend \<Rightarrow> string" where
  "attention_backend_name CbReference = ''reference''"
| "attention_backend_name CbFlash2 = ''fa2''"
| "attention_backend_name CbFlash3 = ''fa3''"
| "attention_backend_name CbFlash4 = ''fa4''"
| "attention_backend_name CbAegisVarlen = ''aegis-varlen''"

fun effective_path_name :: "effective_path \<Rightarrow> string" where
  "effective_path_name ReferenceCacheOnly = ''reference/cache-only''"
| "effective_path_name ReferenceContinuation = ''reference/continuation''"
| "effective_path_name AegisDenseWarpTile = ''aegis-varlen/dense-warp-tile''"
| "effective_path_name AegisDenseWmmaTile = ''aegis-varlen/dense-wmma-tile''"
| "effective_path_name AegisDenseWmmaFaPipeline = ''aegis-varlen/dense-wmma-fa-pipeline''"
| "effective_path_name AegisDenseWmmaGqa4 = ''aegis-varlen/dense-wmma-gqa4''"
| "effective_path_name AegisDenseWmmaGqa4SplitK = ''aegis-varlen/dense-wmma-gqa4-stream-k''"
| "effective_path_name AegisDenseWmmaCluster2 = ''aegis-varlen/dense-wmma-cluster2''"
| "effective_path_name AegisDenseWmmaPersistentQ32 = ''aegis-varlen/dense-wmma-persistent-q32''"
| "effective_path_name AegisDenseWmmaSplitK = ''aegis-varlen/dense-wmma-split-k''"
| "effective_path_name AegisPagedVarlen = ''aegis-varlen/paged-varlen''"
| "effective_path_name AegisPagedWmmaGqa4 = ''aegis-varlen/paged-wmma-gqa4''"
| "effective_path_name FlashAttention4PagedVarlen = ''fa4/paged-varlen''"
| "effective_path_name WarpFlash = ''warp-flash/cache-only''"

section \<open>The environment\<close>

text \<open>\<^verbatim>\<open>str::parse::<usize>\<close>: an optional plus sign, digits, no overflow.\<close>

fun parse_digits :: "nat \<Rightarrow> string \<Rightarrow> nat option" where
  "parse_digits acc [] = Some acc"
| "parse_digits acc (c # cs) =
     (let d = of_char c :: nat
      in if d < 48 \<or> 57 < d then None
         else Option.bind (checked_mul acc 10)
                (\<lambda>acc. Option.bind (checked_add acc (d - 48)) (\<lambda>acc. parse_digits acc cs)))"

definition parse_usize :: "string \<Rightarrow> nat option" where
  "parse_usize s =
     (let digits = (case s of [] \<Rightarrow> [] | c # cs \<Rightarrow> if c = CHR ''+'' then cs else s)
      in if digits = [] then None else parse_digits 0 digits)"

definition from_env :: "environment \<Rightarrow> cuda_runtime_config" where
  "from_env env =
     \<lparr>cu_native_mxfp4_repack = env_set env ''AEGISLLM_NATIVE_MXFP4_REPACK'',
      cu_cutlass_nvfp4_repack = env_set env ''AEGISLLM_CUTLASS_NVFP4_REPACK'',
      cu_native_mxfp4_inference = env_set env ''AEGISLLM_NATIVE_MXFP4_INFERENCE'',
      cu_prefill_attention =
        (case env ''AEGISLLM_CUDA_PREFILL_ATTENTION'' of
           None \<Rightarrow> PkAuto
         | Some value \<Rightarrow> (case prefill_kernel_parse value of Inl _ \<Rightarrow> PkAuto | Inr k \<Rightarrow> k)),
      cu_prefill_chunk_size = Option.bind (env ''AEGIS_CUDA_PREFILL_CHUNK'') parse_usize,
      cu_prefill_stage_timings = env_set env ''AEGISLLM_CUDA_STAGE_TIMINGS'',
      cu_attention_compute_quant = AcqDefault\<rparr>"

definition dense_split_k_enabled :: "environment \<Rightarrow> bool" where
  "dense_split_k_enabled env \<longleftrightarrow>
     \<not> env_set env ''AEGISLLM_CUDA_DISABLE_SPLIT_K_ATTENTION'' \<and>
     env_set env ''AEGISLLM_CUDA_EXPERIMENTAL_SPLIT_K_ATTENTION''"

section \<open>The attention backend\<close>

definition resolve_attention_backend :: "environment \<Rightarrow> cuda_runtime_config \<Rightarrow> attention_compute_backend" where
  "resolve_attention_backend env cfg =
     (case cu_prefill_attention cfg of
        PkReference \<Rightarrow> AbReference
      | PkOff \<Rightarrow> AbReference
      | PkFlashAttention2 \<Rightarrow> AbFa2
      | PkFp8 \<Rightarrow> AbFp8
      | PkMma \<Rightarrow> AbMma
      | _ \<Rightarrow>
          (let env_fp8 = (env ''AEGIS_ATTN_FP8'' = Some ''1'')
           in if wants_fp8 (cu_attention_compute_quant cfg) \<or> env_fp8 then AbFp8
              else if cu_attention_compute_quant cfg = AcqBf16 then AbBf16
              else AbFa2))"

definition attention_fp8_enabled :: "environment \<Rightarrow> cuda_runtime_config \<Rightarrow> bool" where
  "attention_fp8_enabled env cfg \<longleftrightarrow> resolve_attention_backend env cfg = AbFp8"

definition attention_fa2_enabled :: "environment \<Rightarrow> cuda_runtime_config \<Rightarrow> bool" where
  "attention_fa2_enabled env cfg \<longleftrightarrow> resolve_attention_backend env cfg = AbFa2"

definition attention_mma_enabled :: "environment \<Rightarrow> cuda_runtime_config \<Rightarrow> bool" where
  "attention_mma_enabled env cfg \<longleftrightarrow> resolve_attention_backend env cfg = AbMma"

definition attention_reference_forced :: "environment \<Rightarrow> cuda_runtime_config \<Rightarrow> bool" where
  "attention_reference_forced env cfg \<longleftrightarrow> resolve_attention_backend env cfg = AbReference"

section \<open>The reported path\<close>

definition starts_with :: "string \<Rightarrow> string \<Rightarrow> bool" where
  "starts_with p s \<longleftrightarrow> take (length p) s = p"

definition auto_target_for_compute_capability :: "string option \<Rightarrow> cuda_attention_backend" where
  "auto_target_for_compute_capability compute_capability =
     (let cc = unwrap_or compute_capability []
      in if starts_with ''12.'' cc then CbFlash4
         else if starts_with ''9.'' cc then CbFlash3
         else if starts_with ''8.'' cc then CbFlash2
         else CbAegisVarlen)"

definition oversized_scores :: "nat \<Rightarrow> bool" where
  "oversized_scores context_len \<longleftrightarrow> wrap64 (wrapping_add context_len 128 * 4) > 48 * 1024"

definition gqa_group_of :: "nat \<Rightarrow> nat \<Rightarrow> nat" where
  "gqa_group_of num_attention_heads num_kv_heads =
     (if num_kv_heads = 0 then 1 else num_attention_heads div num_kv_heads)"

definition auto_fallback ::
  "cuda_attention_backend \<Rightarrow> nat \<Rightarrow> bool \<Rightarrow> cuda_attention_backend \<times> effective_path \<times> string" where
  "auto_fallback auto_target context_len oversized =
     (if auto_target = CbFlash4 \<and> context_len \<ge> CUDA_PREFILL_VARLEN_MIN_CONTEXT
      then (CbAegisVarlen, AegisPagedVarlen,
            ''auto selected Blackwell-class attention; using Aegis paged-varlen path until FA4 is promoted'')
      else if (auto_target = CbFlash2 \<or> auto_target = CbFlash3)
              \<and> context_len \<ge> CUDA_PREFILL_VARLEN_MIN_CONTEXT
      then (CbAegisVarlen, AegisPagedVarlen,
            ''auto selected flash attention generation; using Aegis paged-varlen path for long context'')
      else if oversized
      then (CbReference, ReferenceContinuation,
            ''dense score buffer exceeds bounded shared-memory policy'')
      else (CbReference, ReferenceCacheOnly,
            ''short context uses dense cache-only reference path''))"

definition select_auto ::
  "environment \<Rightarrow> string option \<Rightarrow> nat \<Rightarrow> nat \<Rightarrow> nat \<Rightarrow> bool \<Rightarrow> attention_selection" where
  "select_auto env compute_capability context_len head_dim gqa_group oversized =
     (let auto_target = auto_target_for_compute_capability compute_capability;
          dense_warp_tile_eligible =
            (head_dim = 128 \<and> context_len \<ge> CUDA_PREFILL_VARLEN_MIN_CONTEXT);
          dense_gqa4_eligible = (dense_warp_tile_eligible \<and> gqa_group \<ge> 4);
          dense_split_k_eligible = (dense_split_k_enabled env \<and> head_dim = 128);
          dense_q32_experimental =
            (env_set env ''AEGISLLM_CUDA_EXPERIMENTAL_PERSISTENT_ATTENTION''
             \<and> head_dim = 128 \<and> context_len \<ge> 1024);
          dense_cluster2_experimental =
            (env_set env ''AEGISLLM_CUDA_EXPERIMENTAL_CLUSTER_ATTENTION''
             \<and> head_dim = 128 \<and> context_len \<ge> 1024);
          warp_eligible = (head_dim mod 32 = 0 \<and> head_dim \<le> 256 \<and> \<not> oversized);
          (logical_backend, path, reason) =
            (if dense_split_k_eligible
             then if dense_gqa4_eligible
                  then (CbAegisVarlen, AegisDenseWmmaGqa4SplitK,
                        ''auto selected explicitly enabled GQA4 split-K dense WMMA-tiled prefill attention'')
                  else (CbAegisVarlen, AegisDenseWmmaSplitK,
                        ''auto selected explicitly enabled split-K dense WMMA-tiled prefill attention'')
             else if dense_cluster2_experimental
             then (CbAegisVarlen, AegisDenseWmmaCluster2,
                   ''auto selected experimental cluster2 dense WMMA-tiled prefill attention'')
             else if dense_q32_experimental
             then (CbAegisVarlen, AegisDenseWmmaPersistentQ32,
                   ''auto selected experimental q32 persistent dense WMMA-tiled prefill attention'')
             else if dense_gqa4_eligible
             then (CbAegisVarlen, AegisDenseWmmaGqa4,
                   ''auto selected GQA4 fused Aegis FA-style dense WMMA-tiled prefill attention'')
             else if dense_warp_tile_eligible
             then (CbAegisVarlen, AegisDenseWmmaFaPipeline,
                   ''auto selected Aegis FA-style dense WMMA-tiled prefill attention for head_dim=128'')
             else if warp_eligible
             then (CbReference, WarpFlash,
                   ''auto selected dense first-prefill warp specialization; continuation chunks fall back to paged-varlen or bounded reference as needed'')
             else auto_fallback auto_target context_len oversized)
      in \<lparr>as_requested = PkAuto, as_auto_target = Some auto_target, as_logical_backend = logical_backend,
          as_effective_path = path, as_reason = reason\<rparr>)"

definition varlen_path :: "environment \<Rightarrow> nat \<Rightarrow> nat \<Rightarrow> nat \<Rightarrow> bool \<Rightarrow> effective_path" where
  "varlen_path env context_len head_dim gqa_group oversized =
     (if head_dim = 128 \<and> context_len \<ge> CUDA_PREFILL_VARLEN_MIN_CONTEXT
      then if dense_split_k_enabled env
           then if gqa_group \<ge> 4 then AegisDenseWmmaGqa4SplitK else AegisDenseWmmaSplitK
           else if env_set env ''AEGISLLM_CUDA_EXPERIMENTAL_CLUSTER_ATTENTION'' \<and> context_len \<ge> 1024
           then AegisDenseWmmaCluster2
           else if env_set env ''AEGISLLM_CUDA_EXPERIMENTAL_PERSISTENT_ATTENTION'' \<and> context_len \<ge> 1024
           then AegisDenseWmmaPersistentQ32
           else if gqa_group \<ge> 4 then AegisDenseWmmaGqa4
           else AegisDenseWmmaFaPipeline
      else if head_dim mod 32 = 0 \<and> head_dim \<le> 256 \<and> \<not> oversized then WarpFlash
      else AegisPagedVarlen)"

definition requested_selection ::
  "prefill_attention_kernel \<Rightarrow> cuda_attention_backend \<Rightarrow> effective_path \<Rightarrow> string \<Rightarrow> attention_selection" where
  "requested_selection requested logical_backend path reason =
     \<lparr>as_requested = requested, as_auto_target = None, as_logical_backend = logical_backend,
      as_effective_path = path, as_reason = reason\<rparr>"

definition select_attention ::
  "environment \<Rightarrow> prefill_attention_kernel \<Rightarrow> string option \<Rightarrow> nat \<Rightarrow> nat \<Rightarrow> nat \<Rightarrow> nat
     \<Rightarrow> attention_selection" where
  "select_attention env requested compute_capability context_len head_dim num_attention_heads num_kv_heads =
     (let oversized = oversized_scores context_len;
          gqa_group = gqa_group_of num_attention_heads num_kv_heads
      in case requested of
           PkAuto \<Rightarrow> select_auto env compute_capability context_len head_dim gqa_group oversized
         | PkFlashAttention4 \<Rightarrow>
             requested_selection requested CbFlash4 FlashAttention4PagedVarlen ''fa4 requested explicitly''
         | PkAegisVarlen \<Rightarrow>
             requested_selection requested CbAegisVarlen
               (varlen_path env context_len head_dim gqa_group oversized)
               ''aegis-varlen requested; dense identity head_dim=128 prefill uses WMMA-tiled online attention, paged batches use paged-varlen''
         | PkWarpFlash \<Rightarrow>
             requested_selection requested CbReference
               (if head_dim mod 32 = 0 \<and> head_dim \<le> 256 then WarpFlash
                else if oversized then ReferenceContinuation
                else ReferenceCacheOnly)
               ''warp-flash requested; falls back when the head dimension is not warp-friendly''
         | PkContinuation \<Rightarrow>
             requested_selection requested CbReference ReferenceContinuation
               ''online continuation requested explicitly''
         | PkFlashAttention2 \<Rightarrow>
             requested_selection requested CbFlash2 AegisDenseWmmaFaPipeline
               ''fa2 requested explicitly; head_dim=512 routes through the FA-2 dense rewrite''
         | PkFp8 \<Rightarrow>
             requested_selection requested CbAegisVarlen AegisDenseWmmaFaPipeline
               ''fp8 requested explicitly; head_dim=512 routes through the FP8 native-MMA dense path''
         | PkMma \<Rightarrow>
             requested_selection requested CbFlash2 AegisDenseWmmaFaPipeline
               ''mma requested explicitly; head_dim=512 routes through the Stage D.1 hand-tuned mma.sync BF16 kernel''
         | PkFlashAttention3 \<Rightarrow>
             requested_selection requested CbFlash3 AegisPagedVarlen
               ''fa3 frontend is reserved; runtime reports unsupported before launch''
         | _ \<Rightarrow>
             requested_selection requested CbReference ReferenceCacheOnly
               (if oversized
                then ''reference requested but dense scores exceed bounded shared-memory policy; runtime rejects this shape unless aegis-varlen, auto, or continuation is requested''
                else ''reference requested''))"

definition prefill_attention_selection ::
  "environment \<Rightarrow> cuda_runtime_config \<Rightarrow> string option \<Rightarrow> nat \<Rightarrow> nat \<Rightarrow> nat \<Rightarrow> nat \<Rightarrow> attention_selection" where
  "prefill_attention_selection env cfg = select_attention env (cu_prefill_attention cfg)"

section \<open>Properties\<close>

text \<open>
  The kernels that name a backend decide it whatever the environment and the requested
  precision are; for the others FP8 wins when the field or \<^verbatim>\<open>AEGIS_ATTN_FP8=1\<close> asks for it,
  then an explicit bf16, and everything else computes with FA2. The reference is forced exactly when
  it was requested.
\<close>

theorem attention_backend_resolved:
  "resolve_attention_backend env cfg =
     (let k = cu_prefill_attention cfg; q = cu_attention_compute_quant cfg
      in if k \<in> {PkReference, PkOff} then AbReference
         else if k = PkMma then AbMma
         else if k = PkFp8 \<or> (k \<noteq> PkFlashAttention2 \<and> (q = AcqFp8 \<or> env ''AEGIS_ATTN_FP8'' = Some ''1'')) then AbFp8
         else if k \<noteq> PkFlashAttention2 \<and> q = AcqBf16 then AbBf16
         else AbFa2) \<and>
   (attention_reference_forced env cfg \<longleftrightarrow> cu_prefill_attention cfg \<in> {PkReference, PkOff})"
  by (cases "cu_prefill_attention cfg")
    (simp_all add: resolve_attention_backend_def attention_reference_forced_def wants_fp8_def Let_def)

text \<open>The shapes that the kernels of a path accept.\<close>

definition path_runs :: "nat \<Rightarrow> nat \<Rightarrow> nat \<Rightarrow> effective_path \<Rightarrow> bool" where
  "path_runs context_len head_dim gqa_group p =
     (case p of
        ReferenceCacheOnly \<Rightarrow> context_len + 128 \<le> 12288
      | ReferenceContinuation \<Rightarrow> True
      | AegisPagedVarlen \<Rightarrow> context_len \<ge> 128
      | WarpFlash \<Rightarrow> head_dim mod 32 = 0 \<and> head_dim \<le> 256 \<and> context_len + 128 \<le> 12288
      | AegisDenseWmmaFaPipeline \<Rightarrow> head_dim = 128 \<and> context_len \<ge> 128
      | AegisDenseWmmaGqa4 \<Rightarrow> head_dim = 128 \<and> context_len \<ge> 128 \<and> gqa_group \<ge> 4
      | AegisDenseWmmaGqa4SplitK \<Rightarrow> head_dim = 128 \<and> context_len \<ge> 128 \<and> gqa_group \<ge> 4
      | AegisDenseWmmaSplitK \<Rightarrow> head_dim = 128
      | AegisDenseWmmaCluster2 \<Rightarrow> head_dim = 128 \<and> context_len \<ge> 1024
      | AegisDenseWmmaPersistentQ32 \<Rightarrow> head_dim = 128 \<and> context_len \<ge> 1024
      | _ \<Rightarrow> False)"

lemma oversized_scores_exact: "context_len < 2 ^ 61 \<Longrightarrow> oversized_scores context_len \<longleftrightarrow> 12288 < context_len + 128"
  by (simp add: oversized_scores_def wrap64_def wrapping_add_def u64_max_def)

text \<open>
  Whatever is set in the environment, the path that an automatic request reports can run the
  shape: the dense kernels need a head dimension of 128, the grouped ones four query heads for every
  key head, the warp kernel a head dimension that is a multiple of 32 up to 256, and the last two
  and the cached reference need scores that fit 48 KiB. Contexts are below \<open>2 ^ 61\<close>.
\<close>

theorem auto_selection_runs:
  assumes "context_len < 2 ^ 61"
  shows "path_runs context_len head_dim (gqa_group_of heads kv_heads)
    (as_effective_path (select_attention env PkAuto cc context_len head_dim heads kv_heads))"
  by (simp add: select_attention_def select_auto_def auto_fallback_def Let_def path_runs_def
      oversized_scores_exact [OF assms] CUDA_PREFILL_VARLEN_MIN_CONTEXT_def)

lemma auto_selection_runs_witness:
  "as_effective_path (select_attention (\<lambda>_. None) PkAuto (Some ''12.0'') 1024 128 32 8) = AegisDenseWmmaGqa4 \<and>
   path_runs 1024 128 (gqa_group_of 32 8)
     (as_effective_path (select_attention (\<lambda>_. None) PkAuto (Some ''12.0'') 1024 128 32 8))"
  using auto_selection_runs [of 1024 128 32 8 "\<lambda>_. None" "Some ''12.0''"]
  by (simp add: select_attention_def select_auto_def Let_def gqa_group_of_def dense_split_k_enabled_def env_set_def
      CUDA_PREFILL_VARLEN_MIN_CONTEXT_def)

text \<open>
  The names of the attention kernels and of the precisions parse back to themselves.\<close>

theorem attention_names_parse:
  "prefill_kernel_parse (prefill_kernel_name k) = Inr k \<and> compute_quant_parse (compute_quant_label q) = Inr q"
proof -
  have "list_all (\<lambda>k. prefill_kernel_parse (prefill_kernel_name k) = Inr k)
      [PkAuto, PkOff, PkFlashAttention2, PkFlashAttention3, PkFlashAttention4, PkFp8, PkMma, PkAegisVarlen,
       PkReference, PkWarpFlash, PkContinuation]"
    "list_all (\<lambda>q. compute_quant_parse (compute_quant_label q) = Inr q) [AcqDefault, AcqBf16, AcqBf16Fa2, AcqFp8]"
    by code_simp+
  then show ?thesis by (cases k; cases q) simp_all
qed


end
