(* ===== verification/MemoryPlan.thy ===== *)
theory MemoryPlan
  imports Runtime CudaConfig
begin

text \<open>
  The memory planner (\<^verbatim>\<open>aegisllm-base/src/planning/memory.rs\<close>): what a placement
  allocates in host memory, mapped files and on every device once the dense weights of streamed
  blocks, the KV cache, repacked layouts and the prefill scratch are counted, what it transfers,
  the footprint and the budget warnings. The process environment is an argument.
\<close>

section \<open>Types\<close>

datatype allocation_pool = PoolRam | PoolMmap | PoolVram nat

record planned_allocation =
  pa_name :: string
  pa_pool :: allocation_pool
  pa_bytes :: nat
  pa_file_backed :: bool

record planned_transfer =
  pt_name :: string
  pt_policy :: transfer_policy
  pt_bytes :: nat
  pt_source :: storage_placement
  pt_compute :: compute_placement

record memory_footprint =
  mf_persistent_ram_bytes :: nat
  mf_file_backed_mmap_bytes :: nat
  mf_persistent_vram_bytes :: "(nat \<times> nat) list"
  mf_peak_host_staging_bytes :: nat
  mf_peak_device_staging_bytes :: "(nat \<times> nat) list"

record memory_plan =
  me_allocations :: "planned_allocation list"
  me_transfers :: "planned_transfer list"
  me_footprint :: memory_footprint
  me_warnings :: "string list"

record dense_vram_split_bytes =
  dv_streamed :: nat
  dv_forced_vram :: nat
  dv_device :: nat

section \<open>Helpers\<close>

fun pool_for_store :: "storage_placement \<Rightarrow> allocation_pool" where
  "pool_for_store Ram = PoolRam"
| "pool_for_store Mmap = PoolMmap"
| "pool_for_store (Vram device) = PoolVram device"

fun pool_for_backend_extra :: "backend_kind \<Rightarrow> allocation_pool" where
  "pool_for_backend_extra BkCpu = PoolRam"
| "pool_for_backend_extra (BkWgpu _) = PoolRam"
| "pool_for_backend_extra (BkCuda device) = PoolVram device"

definition mxfp4_vector_bytes_estimate :: "nat \<Rightarrow> nat" where
  "mxfp4_vector_bytes_estimate len = wrap64 ((len div 64) * 36)"

definition effective_layout_extra_bytes :: "kernel_plan \<Rightarrow> cuda_runtime_config \<Rightarrow> nat" where
  "effective_layout_extra_bytes k cuda =
     (if kp_family k = CudaNativeFp4TensorCores
         \<and> \<not> (cu_native_mxfp4_repack cuda \<or> cu_cutlass_nvfp4_repack cuda)
      then 0 else ll_extra_weight_bytes (kp_linear_layout k))"

definition dense_vram_split :: "model_graph \<Rightarrow> region_placement \<Rightarrow> dense_vram_split_bytes option" where
  "dense_vram_split graph region =
     (if rp_kind region \<noteq> RkTransformerBlock \<or> (case rp_store region of Vram _ \<Rightarrow> True | _ \<Rightarrow> False) then None
      else case rp_compute region of
        Cuda device \<Rightarrow>
          (case find (\<lambda>r. gr_id r = rp_region_id region) (mg_regions graph) of
             None \<Rightarrow> None
           | Some g_region \<Rightarrow>
               Some (fold (\<lambda>t split.
                   let bytes = data_len_bytes (gt_info t)
                   in if str_contains (ti_name (gt_info t)) ''.experts.''
                      then split\<lparr>dv_streamed := wrapping_add (dv_streamed split) bytes\<rparr>
                      else split\<lparr>dv_forced_vram := wrapping_add (dv_forced_vram split) bytes\<rparr>)
                 (gr_tensors g_region) \<lparr>dv_streamed = 0, dv_forced_vram = 0, dv_device = device\<rparr>))
      | _ \<Rightarrow> None)"

section \<open>Allocations of the regions\<close>

definition region_transfer :: "region_placement \<Rightarrow> nat \<Rightarrow> planned_transfer" where
  "region_transfer region bytes =
     \<lparr>pt_name = rp_region_id region, pt_policy = rp_transfer region, pt_bytes = bytes,
      pt_source = rp_store region, pt_compute = rp_compute region\<rparr>"

definition region_allocation :: "region_placement \<Rightarrow> nat \<Rightarrow> planned_allocation" where
  "region_allocation region bytes =
     \<lparr>pa_name = rp_region_id region, pa_pool = pool_for_store (rp_store region), pa_bytes = bytes,
      pa_file_backed = (rp_store region = Mmap)\<rparr>"

definition vram_allocation :: "string \<Rightarrow> nat \<Rightarrow> nat \<Rightarrow> planned_allocation" where
  "vram_allocation name device bytes =
     \<lparr>pa_name = name, pa_pool = PoolVram device, pa_bytes = bytes, pa_file_backed = False\<rparr>"

text \<open>One round of the loop over the placed regions.\<close>

definition plan_region ::
  "model_graph option \<Rightarrow> region_placement \<Rightarrow> planned_allocation list \<times> planned_transfer list" where
  "plan_region graph region =
     (case Option.bind graph (\<lambda>g. dense_vram_split g region) of
        Some split \<Rightarrow>
          if dv_forced_vram split > 0
          then ([region_allocation region (dv_streamed split),
                 vram_allocation (rp_region_id region @ '':dense_vram'') (dv_device split) (dv_forced_vram split)],
                if rp_transfer region \<noteq> NoTransfer \<and> dv_streamed split > 0
                then [region_transfer region (dv_streamed split)] else [])
          else ([region_allocation region (rp_weight_bytes region)],
                if rp_transfer region \<noteq> NoTransfer \<and> rp_kind region \<noteq> RkTokenEmbedding
                then [region_transfer region (rp_weight_bytes region)] else [])
      | None \<Rightarrow>
          ([region_allocation region (rp_weight_bytes region)],
           if rp_transfer region \<noteq> NoTransfer \<and> rp_kind region \<noteq> RkTokenEmbedding
           then [region_transfer region (rp_weight_bytes region)] else []))"

section \<open>Extra memory\<close>

text \<open>
  The loop over the kernels: persistent copies of device-resident kernels, and per device the
  largest copy of a staged kernel.
\<close>

fun layout_extras ::
  "cuda_runtime_config \<Rightarrow> kernel_plan list \<Rightarrow> planned_allocation list \<Rightarrow> (nat, nat) btree_map
     \<Rightarrow> planned_allocation list \<times> (nat, nat) btree_map" where
  "layout_extras cuda [] allocations staged = (allocations, staged)"
| "layout_extras cuda (k # kernels) allocations staged =
     (let bytes = effective_layout_extra_bytes k cuda
      in if bytes = 0 then layout_extras cuda kernels allocations staged
         else case kp_device k of
           BkCuda device \<Rightarrow>
             if kp_residency k = Device
             then layout_extras cuda kernels
                    (allocations @ [vram_allocation (kp_name k @ '':layout_extra'') device bytes]) staged
             else layout_extras cuda kernels allocations
                    (bt_insert device (max (unwrap_or (map_of staged device) 0) bytes) staged)
         | _ \<Rightarrow> layout_extras cuda kernels allocations staged)"

definition runtime_allocations :: "cuda_runtime_config \<Rightarrow> runtime_plan option \<Rightarrow> planned_allocation list" where
  "runtime_allocations cuda rt =
     (case rt of
        None \<Rightarrow> []
      | Some rt \<Rightarrow>
          (case layout_extras cuda (ru_kernels rt) [] [] of
             (allocations, staged) \<Rightarrow>
               allocations @ map (\<lambda>(device, bytes). vram_allocation ''host_staged:layout_extra_max'' device bytes) staged))"

definition compute_device :: "compute_placement \<Rightarrow> nat option" where
  "compute_device c = (case c of Cuda device \<Rightarrow> Some device | _ \<Rightarrow> None)"

definition split_attention_f32 :: "environment \<Rightarrow> nat \<Rightarrow> nat \<Rightarrow> model_graph \<Rightarrow> nat" where
  "split_attention_f32 env chunk context_size graph =
     (if dense_split_k_enabled env
      then let q_block = 16;
               split_tokens = CUDA_PREFILL_DENSE_SPLIT_K_TOKENS;
               q_blocks = div_ceil chunk q_block;
               splits = max (div_ceil context_size split_tokens) 1;
               rows = wrap64 (q_blocks * mg_num_attention_heads graph * splits * q_block)
           in wrap64 (rows * wrapping_add (mg_head_dim graph) 2)
      else 0)"

text \<open>
  All sums and products wrap at 64 bits; reducing once at the end is the same, since only these two
  operations follow the widths.
\<close>

definition cuda_prefill_scratch_bytes ::
  "environment \<Rightarrow> resolved_placement \<Rightarrow> model_graph \<Rightarrow> cuda_runtime_config \<Rightarrow> (nat \<times> nat) option" where
  "cuda_prefill_scratch_bytes env placement graph cuda =
     (let chunk = min (max (unwrap_or (cu_prefill_chunk_size cuda) 128) 1) CUDA_PREFILL_CHUNK_MAX
      in if chunk \<le> 1 then None
         else case (case find_map (\<lambda>r. compute_device (rp_compute r)) (pl_region_placements placement) of
                      Some d \<Rightarrow> Some d
                    | None \<Rightarrow> compute_device (kc_compute (pl_kv_cache placement))) of
           None \<Rightarrow> None
         | Some device \<Rightarrow>
             (let hidden = mg_hidden_size graph;
                  intermediate = unwrap_or (mg_intermediate_size graph) (mg_hidden_size graph);
                  q_width = wrap64 (mg_num_attention_heads graph * mg_head_dim graph);
                  kv_width = wrap64 (mg_num_kv_heads graph * mg_head_dim graph);
                  cutlass_prefill = cu_cutlass_nvfp4_repack cuda;
                  intermediate_f32 = (if cutlass_prefill then 2 * intermediate else 3 * intermediate);
                  hidden_f32 = (if cutlass_prefill then 2 * hidden else 3 * hidden);
                  qkv_f32 = q_width + 2 * kv_width + kv_width;
                  f32_elements = chunk * (hidden_f32 + qkv_f32 + intermediate_f32);
                  mxfp4_hidden = (if cutlass_prefill then 0 else chunk * mxfp4_vector_bytes_estimate hidden);
                  mxfp4_intermediate = (if cutlass_prefill then 0
                                        else chunk * mxfp4_vector_bytes_estimate intermediate);
                  token_bytes = (chunk * 3 + 3) * 4
              in Some (device,
                   wrap64 ((f32_elements
                              + split_attention_f32 env chunk (kc_context_size (pl_kv_cache placement)) graph) * 4
                           + mxfp4_hidden + mxfp4_intermediate + token_bytes))))"

section \<open>The plan\<close>

fun transfer_targets_device :: "planned_transfer \<Rightarrow> nat \<Rightarrow> bool" where
  "transfer_targets_device t device =
     (case (pt_policy t, pt_source t, pt_compute t) of
        (HostToDeviceEachUse, _, Cuda target) \<Rightarrow> target = device
      | (CrossDevice, _, Cuda target) \<Rightarrow> target = device
      | (DeviceToHostEachUse, Vram source_device, Cpu) \<Rightarrow> source_device = device
      | _ \<Rightarrow> False)"

definition bytes_in :: "planned_allocation list \<Rightarrow> allocation_pool \<Rightarrow> nat" where
  "bytes_in allocations pool = sum_u64 (map pa_bytes (filter (\<lambda>a. pa_pool a = pool) allocations))"

definition max_or_zero :: "nat list \<Rightarrow> nat" where
  "max_or_zero xs = fold max xs 0"

definition footprint_from ::
  "planned_allocation list \<Rightarrow> planned_transfer list \<Rightarrow> resolved_placement \<Rightarrow> memory_footprint" where
  "footprint_from allocations transfers placement =
     \<lparr>mf_persistent_ram_bytes = bytes_in allocations PoolRam,
      mf_file_backed_mmap_bytes = bytes_in allocations PoolMmap,
      mf_persistent_vram_bytes =
        map (\<lambda>pool. (mp_device pool, bytes_in allocations (PoolVram (mp_device pool)))) (mb_vram (pl_budget placement)),
      mf_peak_host_staging_bytes =
        max_or_zero (map pt_bytes (filter (\<lambda>t. pt_policy t = HostToDeviceEachUse) transfers)),
      mf_peak_device_staging_bytes =
        map (\<lambda>pool. (mp_device pool,
                 max_or_zero (map pt_bytes (filter (\<lambda>t. transfer_targets_device t (mp_device pool)) transfers))))
          (mb_vram (pl_budget placement))\<rparr>"

definition ram_warning :: "nat \<Rightarrow> nat \<Rightarrow> string" where
  "ram_warning planned usable =
     ''ram allocation exceeds usable budget: planned='' @ show_nat planned @ '' usable='' @ show_nat usable"

definition vram_warning :: "nat \<Rightarrow> nat \<Rightarrow> nat \<Rightarrow> string" where
  "vram_warning device planned usable =
     ''vram:'' @ show_nat device @ '' allocation exceeds usable budget: planned='' @ show_nat planned
       @ '' usable='' @ show_nat usable"

definition budget_warnings :: "planned_allocation list \<Rightarrow> memory_budget \<Rightarrow> string list" where
  "budget_warnings allocations budget =
     (let ram = bytes_in allocations PoolRam
      in (if ram > mb_ram_usable_bytes budget then [ram_warning ram (mb_ram_usable_bytes budget)] else []))
     @ concat (map (\<lambda>pool. let vram = bytes_in allocations (PoolVram (mp_device pool))
                           in if vram > mp_usable_bytes pool
                              then [vram_warning (mp_device pool) vram (mp_usable_bytes pool)] else [])
                (mb_vram budget))"

definition kv_allocation :: "kv_cache_placement \<Rightarrow> planned_allocation" where
  "kv_allocation kv =
     \<lparr>pa_name = ''kv_cache'', pa_pool = pool_for_store (kc_store kv), pa_bytes = kc_estimated_bytes kv,
      pa_file_backed = False\<rparr>"

definition scratch_allocations ::
  "environment \<Rightarrow> resolved_placement \<Rightarrow> model_graph option \<Rightarrow> cuda_runtime_config \<Rightarrow> planned_allocation list" where
  "scratch_allocations env placement graph cuda =
     (case Option.bind graph (\<lambda>g. cuda_prefill_scratch_bytes env placement g cuda) of
        None \<Rightarrow> []
      | Some (device, bytes) \<Rightarrow> [vram_allocation ''cuda_prefill_scratch_per_sequence'' device bytes])"

definition memory_plan_from ::
  "environment \<Rightarrow> resolved_placement \<Rightarrow> runtime_plan option \<Rightarrow> model_graph option \<Rightarrow> cuda_runtime_config
     \<Rightarrow> memory_plan" where
  "memory_plan_from env placement rt graph cuda =
     (let regions = map (plan_region graph) (pl_region_placements placement);
          allocations = concat (map fst regions) @ [kv_allocation (pl_kv_cache placement)]
                          @ runtime_allocations cuda rt @ scratch_allocations env placement graph cuda;
          transfers = concat (map snd regions)
      in \<lparr>me_allocations = allocations, me_transfers = transfers,
          me_footprint = footprint_from allocations transfers placement,
          me_warnings = pl_warnings placement @ budget_warnings allocations (pl_budget placement)\<rparr>)"

definition from_placement_runtime_and_cuda ::
  "environment \<Rightarrow> resolved_placement \<Rightarrow> runtime_plan option \<Rightarrow> cuda_runtime_config \<Rightarrow> memory_plan" where
  "from_placement_runtime_and_cuda env placement rt cuda = memory_plan_from env placement rt None cuda"

definition from_placement_and_runtime :: "environment \<Rightarrow> resolved_placement \<Rightarrow> runtime_plan option \<Rightarrow> memory_plan" where
  "from_placement_and_runtime env placement rt = from_placement_runtime_and_cuda env placement rt (from_env env)"

definition from_placement :: "environment \<Rightarrow> resolved_placement \<Rightarrow> memory_plan" where
  "from_placement env placement = from_placement_and_runtime env placement None"

definition bytes_in_pool :: "memory_plan \<Rightarrow> allocation_pool \<Rightarrow> nat" where
  "bytes_in_pool mem pool = bytes_in (me_allocations mem) pool"


section \<open>Sums of allocations\<close>

lemma wrap64_le: "wrap64 n \<le> n"
  by (simp add: wrap64_def)

definition pool_sum :: "planned_allocation list \<Rightarrow> allocation_pool \<Rightarrow> nat" where
  "pool_sum xs pool = sum_list (map pa_bytes (filter (\<lambda>a. pa_pool a = pool) xs))"

lemma pool_sum_simps [simp]:
  "pool_sum [] pool = 0"
  "pool_sum (a # xs) pool = (if pa_pool a = pool then pa_bytes a else 0) + pool_sum xs pool"
  "pool_sum (xs @ ys) pool = pool_sum xs pool + pool_sum ys pool"
  by (simp_all add: pool_sum_def)

lemma bytes_in_sum: "bytes_in xs pool = wrap64 (pool_sum xs pool)"
  by (simp add: bytes_in_def pool_sum_def sum_u64_def)

lemma pool_for_store_simps [simp]: "pool_for_store s = PoolVram d \<longleftrightarrow> s = Vram d"
  by (cases s) auto

text \<open>What the placement keeps on a device fits it beside its KV cache, if that alone does.\<close>

lemma placed_weights_fit:
  assumes "plan name graph inventory policy = Inr pl"
    and "distinct (map gpu_index (hw_gpus inventory))"
    and "\<And>d. pp_spill_store policy \<noteq> Vram d"
    and "estimate_kv_cache_bytes graph policy
           + bytes_of (map (place_region graph policy) (mg_regions graph)) \<le> u64_max"
    and "pool \<in> set (mb_vram (pl_budget pl))"
    and "runtime_vram (pl_kv_cache pl) (mp_device pool) \<le> mp_usable_bytes pool"
  shows "runtime_vram (pl_kv_cache pl) (mp_device pool)
      + bytes_of (on_device (mp_device pool) (pl_region_placements pl)) \<le> mp_usable_bytes pool"
proof -
  note parts = plan_Inr [OF assms(1)]
  have "distinct (map mp_device (mb_vram (pl_budget pl)))"
    using assms(2) by (simp add: parts(2) budget_from_inventory_def o_def)
  moreover have "kc_estimated_bytes (pl_kv_cache pl)
      + bytes_of (map (place_region graph policy) (mg_regions graph)) \<le> u64_max"
    using assms(4) by (simp add: parts(3) kv_placement_def)
  ultimately have "longest_fitting (runtime_vram (pl_kv_cache pl) (mp_device pool)) (mp_usable_bytes pool)
      (on_device (mp_device pool) (map (place_region graph policy) (mg_regions graph)))
      (on_device (mp_device pool) (pl_region_placements pl))"
    using trim_longest_fitting [OF parts(4) _ assms(3)] assms(5) by blast
  with assms(6) show ?thesis by (auto simp: longest_fitting_def bytes_of_def)
qed

section \<open>The dense weights of streamed blocks\<close>

lemma dense_split_fold:
  "fold (\<lambda>t split. let bytes = data_len_bytes (gt_info t)
      in if str_contains (ti_name (gt_info t)) ''.experts.''
         then split\<lparr>dv_streamed := wrapping_add (dv_streamed split) bytes\<rparr>
         else split\<lparr>dv_forced_vram := wrapping_add (dv_forced_vram split) bytes\<rparr>) ts
     \<lparr>dv_streamed = s, dv_forced_vram = f, dv_device = d\<rparr> = split \<Longrightarrow>
   s + f + (\<Sum>t \<leftarrow> ts. data_len_bytes (gt_info t)) \<le> u64_max \<Longrightarrow>
   dv_streamed split = s + (\<Sum>t \<leftarrow> filter (\<lambda>t. str_contains (ti_name (gt_info t)) ''.experts.'') ts. data_len_bytes (gt_info t)) \<and>
   dv_forced_vram split = f + (\<Sum>t \<leftarrow> filter (\<lambda>t. \<not> str_contains (ti_name (gt_info t)) ''.experts.'') ts. data_len_bytes (gt_info t)) \<and>
   dv_device split = d"
proof (induction ts arbitrary: s f)
  case (Cons t ts)
  show ?case
  proof (cases "str_contains (ti_name (gt_info t)) ''.experts.''")
    case True
    have "wrapping_add s (data_len_bytes (gt_info t)) = s + data_len_bytes (gt_info t)"
      using Cons.prems(2) by (intro wrapping_add_exact) simp
    with Cons.IH [of "s + data_len_bytes (gt_info t)" f] Cons.prems True show ?thesis by (simp add: Let_def add.assoc)
  next
    case False
    have "wrapping_add f (data_len_bytes (gt_info t)) = f + data_len_bytes (gt_info t)"
      using Cons.prems(2) by (intro wrapping_add_exact) simp
    with Cons.IH [of s "f + data_len_bytes (gt_info t)"] Cons.prems False show ?thesis by (simp add: Let_def add.assoc)
  qed
qed auto

lemma filter_sums:
  "(\<Sum>t \<leftarrow> filter P ts. f t) + (\<Sum>t \<leftarrow> filter (\<lambda>t. \<not> P t) ts. f t) = (\<Sum>t \<leftarrow> ts. (f t :: nat))"
  by (induction ts) auto

definition expert_bytes :: "graph_region \<Rightarrow> nat" where
  "expert_bytes r = (\<Sum>t \<leftarrow> filter (\<lambda>t. str_contains (ti_name (gt_info t)) ''.experts.'') (gr_tensors r). data_len_bytes (gt_info t))"

definition tensor_bytes :: "graph_region \<Rightarrow> nat" where
  "tensor_bytes r = (\<Sum>t \<leftarrow> gr_tensors r. data_len_bytes (gt_info t))"

lemma expert_bytes_le: "expert_bytes r \<le> tensor_bytes r"
  using filter_sums [of "\<lambda>t. data_len_bytes (gt_info t)" "\<lambda>t. str_contains (ti_name (gt_info t)) ''.experts.''" "gr_tensors r"]
  by (simp add: expert_bytes_def tensor_bytes_def)

lemma dense_vram_split_Some:
  assumes "dense_vram_split graph p = Some split" "find (\<lambda>r. gr_id r = rp_region_id p) (mg_regions graph) = Some r"
    and "tensor_bytes r \<le> u64_max"
  shows "dv_streamed split = expert_bytes r" "dv_forced_vram split = tensor_bytes r - expert_bytes r"
    "rp_compute p = Cuda (dv_device split)"
proof -
  from assms(1, 2) obtain d where d: "rp_compute p = Cuda d"
    and fold: "fold (\<lambda>t split. let bytes = data_len_bytes (gt_info t)
      in if str_contains (ti_name (gt_info t)) ''.experts.''
         then split\<lparr>dv_streamed := wrapping_add (dv_streamed split) bytes\<rparr>
         else split\<lparr>dv_forced_vram := wrapping_add (dv_forced_vram split) bytes\<rparr>) (gr_tensors r)
     \<lparr>dv_streamed = 0, dv_forced_vram = 0, dv_device = d\<rparr> = split"
    by (auto simp: dense_vram_split_def split: if_splits compute_placement.splits)
  from dense_split_fold [OF fold] assms(3) d
    filter_sums [of "\<lambda>t. data_len_bytes (gt_info t)" "\<lambda>t. str_contains (ti_name (gt_info t)) ''.experts.''" "gr_tensors r"]
  show "dv_streamed split = expert_bytes r" "dv_forced_vram split = tensor_bytes r - expert_bytes r"
    "rp_compute p = Cuda (dv_device split)"
    by (simp_all add: expert_bytes_def tensor_bytes_def)
qed

text \<open>
  The allocations of a placed region are its weight: a streamed transformer block computed on a
  GPU keeps the bytes of its routed experts where it is stored and puts all others on the GPU, every
  other region is stored where it was placed.
\<close>

theorem region_allocations_exact:
  assumes "find (\<lambda>r. gr_id r = rp_region_id p) (mg_regions graph) = Some r"
    and "rp_weight_bytes p = tensor_bytes r" "tensor_bytes r \<le> u64_max"
  shows "(\<Sum>a \<leftarrow> fst (plan_region (Some graph) p). pa_bytes a) = rp_weight_bytes p \<and>
    pool_sum (fst (plan_region (Some graph) p)) (PoolVram d) =
      (if rp_store p = Vram d then rp_weight_bytes p
       else if rp_kind p = RkTransformerBlock \<and> (\<forall>e. rp_store p \<noteq> Vram e) \<and> rp_compute p = Cuda d
       then rp_weight_bytes p - expert_bytes r else 0)"
proof (cases "dense_vram_split graph p")
  case None
  then have "rp_kind p \<noteq> RkTransformerBlock \<or> (\<exists>e. rp_store p = Vram e) \<or> (\<forall>e. rp_compute p \<noteq> Cuda e)"
    using assms(1) by (auto simp: dense_vram_split_def split: if_splits storage_placement.splits compute_placement.splits)
  then show ?thesis
    using None by (auto simp: plan_region_def region_allocation_def)
next
  case (Some split)
  note parts = dense_vram_split_Some [OF Some assms(1, 3)]
  have kind: "rp_kind p = RkTransformerBlock" "\<forall>e. rp_store p \<noteq> Vram e"
    using Some by (auto simp: dense_vram_split_def split: if_splits storage_placement.splits)
  show ?thesis
  proof (cases "dv_forced_vram split > 0")
    case True
    then show ?thesis
      using Some parts kind assms(2) expert_bytes_le [of r]
      by (auto simp: plan_region_def region_allocation_def vram_allocation_def)
  next
    case False
    then show ?thesis
      using Some parts kind assms(2) by (auto simp: plan_region_def region_allocation_def)
  qed
qed


section \<open>Repacked layouts\<close>

definition extras :: "cuda_runtime_config \<Rightarrow> (tensor_residency \<Rightarrow> bool) \<Rightarrow> nat \<Rightarrow> kernel_plan list \<Rightarrow> nat list" where
  "extras cuda P d ks = map (\<lambda>k. effective_layout_extra_bytes k cuda)
     (filter (\<lambda>k. kp_device k = BkCuda d \<and> P (kp_residency k)) ks)"

lemma layout_extras_result:
  "layout_extras cuda ks al staged = (al', staged') \<Longrightarrow> bt_wf staged \<Longrightarrow>
   pool_sum al' (PoolVram d) = pool_sum al (PoolVram d) + sum_list (extras cuda ((=) Device) d ks) \<and>
   unwrap_or (map_of staged' d) 0
     = fold max (extras cuda (\<lambda>r. r \<noteq> Device) d ks) (unwrap_or (map_of staged d) 0) \<and>
   bt_wf staged'"
proof (induction ks arbitrary: al staged)
  case (Cons k ks)
  show ?case
  proof (cases "effective_layout_extra_bytes k cuda = 0")
    case True
    with Cons.prems Cons.IH [of al staged] show ?thesis by (simp add: extras_def)
  next
    case False
    show ?thesis
    proof (cases "kp_device k")
      case (BkCuda e)
      show ?thesis
      proof (cases "kp_residency k = Device")
        case True
        with Cons.prems False BkCuda
          Cons.IH [of "al @ [vram_allocation (kp_name k @ '':layout_extra'') e (effective_layout_extra_bytes k cuda)]" staged]
        show ?thesis by (auto simp: extras_def vram_allocation_def Let_def)
      next
        case res: False
        with Cons.prems False BkCuda
          Cons.IH [of al "bt_insert e (max (unwrap_or (map_of staged e) 0) (effective_layout_extra_bytes k cuda)) staged"]
        show ?thesis by (auto simp: extras_def Let_def max.commute)
      qed
    qed (use Cons.prems Cons.IH [of al staged] False in \<open>simp_all add: extras_def Let_def\<close>)
  qed
qed (simp add: extras_def)

lemma staged_sum:
  "bt_wf staged \<Longrightarrow>
   pool_sum (map (\<lambda>(device, bytes). vram_allocation name device bytes) staged) (PoolVram d) = unwrap_or (map_of staged d) 0"
proof (induction staged)
  case (Cons x staged)
  obtain e v where x: "x = (e, v)" by force
  have "map_of staged e = None" if "\<forall>y \<in> set staged. e < fst y"
    using that by (fastforce simp: map_of_eq_None_iff)
  with Cons show ?case by (auto simp: x vram_allocation_def)
qed simp

text \<open>
  On a device the repacked layouts take the sum of the copies of the kernels that are resident
  there and, beside it, one buffer of the size of the largest copy that is staged to it.
\<close>

theorem layout_extras_exact:
  "pool_sum (runtime_allocations cuda (Some rt)) (PoolVram d) =
     sum_list (extras cuda ((=) Device) d (ru_kernels rt))
     + max_or_zero (extras cuda (\<lambda>r. r \<noteq> Device) d (ru_kernels rt))"
proof -
  obtain al staged where eq: "layout_extras cuda (ru_kernels rt) [] [] = (al, staged)" by force
  from layout_extras_result [OF eq, of d] staged_sum [of staged _ d]
  show ?thesis by (simp add: runtime_allocations_def eq max_or_zero_def)
qed


section \<open>What the engine's plan puts on a device\<close>

text \<open>
  The weights of a block that is stored on the host and computed on device \<open>d\<close>, without those of its routed experts: the loader
  keeps them on the device.
\<close>

definition streamed_dense :: "model_graph \<Rightarrow> nat \<Rightarrow> region_placement \<Rightarrow> nat" where
  "streamed_dense graph d p =
     (case find (\<lambda>r. gr_id r = rp_region_id p) (mg_regions graph) of
        None \<Rightarrow> 0
      | Some r \<Rightarrow>
          if rp_kind p = RkTransformerBlock \<and> (case rp_store p of Vram _ \<Rightarrow> False | _ \<Rightarrow> True) \<and> rp_compute p = Cuda d
          then tensor_bytes r - expert_bytes r else 0)"

definition layout_bytes :: "cuda_runtime_config \<Rightarrow> runtime_plan \<Rightarrow> nat \<Rightarrow> nat" where
  "layout_bytes cuda rt d = sum_list (extras cuda ((=) Device) d (ru_kernels rt))
     + max_or_zero (extras cuda (\<lambda>r. r \<noteq> Device) d (ru_kernels rt))"

definition scratch_bytes_on :: "environment \<Rightarrow> resolved_placement \<Rightarrow> model_graph \<Rightarrow> cuda_runtime_config \<Rightarrow> nat \<Rightarrow> nat" where
  "scratch_bytes_on env pl graph cuda d =
     (case cuda_prefill_scratch_bytes env pl graph cuda of
        None \<Rightarrow> 0
      | Some (e, bytes) \<Rightarrow> if e = d then bytes else 0)"

lemma plan_region_device:
  assumes "\<And>r. find (\<lambda>r. gr_id r = rp_region_id p) (mg_regions graph) = Some r
      \<Longrightarrow> rp_weight_bytes p = tensor_bytes r \<and> tensor_bytes r \<le> u64_max"
  shows "pool_sum (fst (plan_region (Some graph) p)) (PoolVram d)
    = (if rp_store p = Vram d then rp_weight_bytes p else 0) + streamed_dense graph d p"
proof (cases "find (\<lambda>r. gr_id r = rp_region_id p) (mg_regions graph)")
  case None
  then have "dense_vram_split graph p = None"
    by (auto simp: dense_vram_split_def split: compute_placement.split)
  then show ?thesis by (simp add: plan_region_def region_allocation_def streamed_dense_def None)
next
  case (Some r)
  from region_allocations_exact [OF Some, of d] assms [OF Some] Some show ?thesis
    by (cases "rp_store p") (auto simp: streamed_dense_def)
qed

lemma plan_regions_device:
  assumes "\<And>p r. p \<in> set ps \<Longrightarrow> find (\<lambda>r. gr_id r = rp_region_id p) (mg_regions graph) = Some r
      \<Longrightarrow> rp_weight_bytes p = tensor_bytes r \<and> tensor_bytes r \<le> u64_max"
  shows "pool_sum (concat (map (fst \<circ> plan_region (Some graph)) ps)) (PoolVram d)
    = bytes_of (on_device d ps) + (\<Sum>p \<leftarrow> ps. streamed_dense graph d p)"
  using assms
proof (induction ps)
  case (Cons p ps)
  have "pool_sum (fst (plan_region (Some graph) p)) (PoolVram d)
      = (if rp_store p = Vram d then rp_weight_bytes p else 0) + streamed_dense graph d p"
    by (rule plan_region_device) (use Cons.prems in auto)
  moreover have "pool_sum (concat (map (fst \<circ> plan_region (Some graph)) ps)) (PoolVram d)
      = bytes_of (on_device d ps) + (\<Sum>p \<leftarrow> ps. streamed_dense graph d p)"
    by (rule Cons.IH) (use Cons.prems in auto)
  ultimately show ?case by (simp add: o_def)
qed simp

text \<open>The memory plan of a placement, a runtime plan and the graph, on one device.\<close>

lemma memory_plan_device:
  assumes "\<And>p r. p \<in> set (pl_region_placements pl) \<Longrightarrow> find (\<lambda>r. gr_id r = rp_region_id p) (mg_regions graph) = Some r
      \<Longrightarrow> rp_weight_bytes p = tensor_bytes r \<and> tensor_bytes r \<le> u64_max"
  shows "bytes_in_pool (memory_plan_from env pl (Some rt) (Some graph) cuda) (PoolVram d)
    = wrap64 (runtime_vram (pl_kv_cache pl) d + bytes_of (on_device d (pl_region_placements pl))
        + (\<Sum>p \<leftarrow> pl_region_placements pl. streamed_dense graph d p)
        + layout_bytes cuda rt d + scratch_bytes_on env pl graph cuda d)"
proof -
  have "pool_sum (concat (map (fst \<circ> plan_region (Some graph)) (pl_region_placements pl))) (PoolVram d)
      = bytes_of (on_device d (pl_region_placements pl)) + (\<Sum>p \<leftarrow> pl_region_placements pl. streamed_dense graph d p)"
    by (rule plan_regions_device) (use assms in blast)
  moreover have "pool_sum (scratch_allocations env pl (Some graph) cuda) (PoolVram d) = scratch_bytes_on env pl graph cuda d"
    by (auto simp: scratch_allocations_def scratch_bytes_on_def vram_allocation_def split: option.split)
  ultimately show ?thesis
    by (simp add: bytes_in_pool_def bytes_in_sum memory_plan_from_def Let_def layout_extras_exact layout_bytes_def
        kv_allocation_def runtime_vram_def o_def ac_simps)
qed

lemma over_budget_warned:
  assumes "pool \<in> set (mb_vram (pl_budget pl))"
    and "mp_usable_bytes pool < bytes_in_pool (memory_plan_from env pl rt graph cuda) (PoolVram (mp_device pool))"
  shows "vram_warning (mp_device pool)
      (bytes_in_pool (memory_plan_from env pl rt graph cuda) (PoolVram (mp_device pool))) (mp_usable_bytes pool)
    \<in> set (me_warnings (memory_plan_from env pl rt graph cuda))"
  using assms by (auto simp: memory_plan_from_def Let_def bytes_in_pool_def budget_warnings_def)

text \<open>With different region ids the placement of a region is found under its id, and its weight is that of its tensors.\<close>

lemma find_distinct:
  "distinct (map f xs) \<Longrightarrow> x \<in> set xs \<Longrightarrow> find (\<lambda>y. f y = f x) xs = Some x"
  by (induction xs) (auto simp: image_iff)

lemma weight_bytes_exact: "tensor_bytes r \<le> u64_max \<Longrightarrow> weight_bytes r = tensor_bytes r"
  by (simp add: weight_bytes_def tensor_bytes_def sum_u64_def wrap64_def u64_max_def)

lemma tensor_bytes_member: "r \<in> set rs \<Longrightarrow> tensor_bytes r \<le> (\<Sum>r \<leftarrow> rs. tensor_bytes r)"
  by (induction rs) auto

lemma placed_weights:
  assumes "plan name graph inventory policy = Inr pl" and "distinct (map gr_id (mg_regions graph))"
    and "(\<Sum>r \<leftarrow> mg_regions graph. tensor_bytes r) \<le> u64_max"
    and "p \<in> set (pl_region_placements pl)" and "find (\<lambda>r. gr_id r = rp_region_id p) (mg_regions graph) = Some r"
  shows "rp_weight_bytes p = tensor_bytes r \<and> tensor_bytes r \<le> u64_max"
proof -
  obtain k where k: "k < length (pl_region_placements pl)" "p = pl_region_placements pl ! k"
    using assms(4) by (metis in_set_conv_nth)
  let ?q = "mg_regions graph ! k"
  have both: "length (mg_regions graph) = length (pl_region_placements pl)"
    "rp_region_id p = gr_id ?q" "rp_weight_bytes p = weight_bytes ?q"
    using plan_places_every_region [OF assms(1)] k by (auto simp: list_all2_conv_all_nth)
  have q: "?q \<in> set (mg_regions graph)" using k both(1) by simp
  then have "r = ?q" using assms(5) find_distinct [OF assms(2) q] by (simp add: both(2))
  moreover have "tensor_bytes ?q \<le> u64_max" using tensor_bytes_member [OF q] assms(3) by simp
  ultimately show ?thesis using both(3) weight_bytes_exact by simp
qed

text \<open>
  C26: the memory plan the engine builds for a planned placement, with its runtime plan and the graph. On every device the
  bytes are, modulo \<open>2 ^ 64\<close>, those the placement put there, KV cache included, which the spilling keeps within the budget, and beside
  them: the weights outside routed experts of the blocks that are stored on the host and computed on the device, the resident repacked layouts,
  one buffer of the size of the largest staged layout, and the prefill scratch. If they exceed the budget the plan warns of it with both
  numbers. The placement spills to the host, GPU indices and region ids are distinct, the estimates fit 64 bits
  and the KV cache alone fits the device.
\<close>

theorem memory_plan_counts_device:
  fixes graph pl env rt cuda pool
  defines "mem \<equiv> memory_plan_from env pl (Some rt) (Some graph) cuda" and "d \<equiv> mp_device pool"
  assumes "plan name graph inventory policy = Inr pl"
    and "distinct (map gpu_index (hw_gpus inventory))" and "distinct (map gr_id (mg_regions graph))"
    and "\<And>d. pp_spill_store policy \<noteq> Vram d"
    and "estimate_kv_cache_bytes graph policy + (\<Sum>r \<leftarrow> mg_regions graph. tensor_bytes r) \<le> u64_max"
    and "pool \<in> set (mb_vram (pl_budget pl))"
    and "runtime_vram (pl_kv_cache pl) d \<le> mp_usable_bytes pool"
  shows "runtime_vram (pl_kv_cache pl) d + bytes_of (on_device d (pl_region_placements pl)) \<le> mp_usable_bytes pool
    \<and> bytes_in_pool mem (PoolVram d)
      = wrap64 (runtime_vram (pl_kv_cache pl) d + bytes_of (on_device d (pl_region_placements pl))
          + (\<Sum>p \<leftarrow> pl_region_placements pl. streamed_dense graph d p)
          + layout_bytes cuda rt d + scratch_bytes_on env pl graph cuda d)
    \<and> (mp_usable_bytes pool < bytes_in_pool mem (PoolVram d) \<longrightarrow>
         vram_warning d (bytes_in_pool mem (PoolVram d)) (mp_usable_bytes pool) \<in> set (me_warnings mem))"
proof -
  have sum: "(\<Sum>r \<leftarrow> mg_regions graph. tensor_bytes r) \<le> u64_max" using assms(7) by simp
  have "weight_bytes r = tensor_bytes r" if "r \<in> set (mg_regions graph)" for r
    using tensor_bytes_member [OF that] sum by (intro weight_bytes_exact) simp
  then have "bytes_of (map (place_region graph policy) (mg_regions graph)) = (\<Sum>r \<leftarrow> mg_regions graph. tensor_bytes r)"
    unfolding bytes_of_def map_map
    by (intro arg_cong [of _ _ sum_list] map_cong) (auto simp: place_region_def split: prod.split)
  then have "estimate_kv_cache_bytes graph policy
      + bytes_of (map (place_region graph policy) (mg_regions graph)) \<le> u64_max"
    using assms(7) by simp
  from placed_weights_fit [OF assms(3,4,6) this assms(8)] assms(9)
  have "runtime_vram (pl_kv_cache pl) d + bytes_of (on_device d (pl_region_placements pl)) \<le> mp_usable_bytes pool"
    by (simp add: d_def)
  moreover note memory_plan_device [OF placed_weights [OF assms(3,5) sum], where env = env and rt = rt and cuda = cuda and d = d]
  ultimately show ?thesis
    using over_budget_warned [OF assms(8), of env "Some rt" "Some graph" cuda] by (simp add: mem_def d_def)
qed


section \<open>Spilling a dense model\<close>

lemma demo_place:
  "place_region demo_model demo_policy (demo_layer i) =
     \<lparr>rp_region_id = ''layer.'' @ show_nat i, rp_kind = RkTransformerBlock, rp_layer_index = Some i,
      rp_weight_bytes = 100, rp_store = Vram 0, rp_compute = Cuda 0, rp_transfer = NoTransfer\<rparr>"
  by (simp add: place_region_def apply_rules_def demo_policy_def demo_auto demo_bytes) (simp add: demo_layer_def)

definition spilled_layer :: region_placement where
  "spilled_layer = (place_region demo_model demo_policy (demo_layer 1))
          \<lparr>rp_store := Mmap, rp_compute := Cuda 0, rp_transfer := HostToDeviceEachUse\<rparr>"

lemma spilled_layer_simps [simp]:
  "rp_region_id spilled_layer = ''layer.'' @ show_nat 1" "rp_kind spilled_layer = RkTransformerBlock"
  "rp_weight_bytes spilled_layer = 100" "rp_store spilled_layer = Mmap" "rp_compute spilled_layer = Cuda 0"
  by (simp_all add: spilled_layer_def demo_place)

lemma demo_find:
  "find (\<lambda>r. gr_id r = rp_region_id spilled_layer) (mg_regions demo_model) = Some (demo_layer 1)"
proof -
  have "mg_regions demo_model = [demo_layer 0, demo_layer 1]" by (simp add: demo_model_def)
  moreover have "''layer.'' @ show_nat 0 \<noteq> ''layer.'' @ show_nat 1" by code_simp
  ultimately show ?thesis by (simp add: demo_layer_def)
qed

lemma demo_dense:
  "tensor_bytes (demo_layer i) = 100" "expert_bytes (demo_layer i) = 0"
proof -
  show "tensor_bytes (demo_layer i) = 100"
    by (simp add: tensor_bytes_def demo_layer_def demo_tensor_def data_len_bytes_def)
  have "\<not> str_contains ''q'' ''.experts.''" "\<not> str_contains ''k'' ''.experts.''" by code_simp+
  then show "expert_bytes (demo_layer i) = 0" by (simp add: expert_bytes_def demo_layer_def demo_tensor_def)
qed

lemma demo_dense_split:
  "dense_vram_split demo_model spilled_layer = Some \<lparr>dv_streamed = 0, dv_forced_vram = 100, dv_device = 0\<rparr>"
proof -
  obtain split where split: "dense_vram_split demo_model spilled_layer = Some split"
    by (simp add: dense_vram_split_def demo_find del: spilled_layer_simps(1))
  have "tensor_bytes (demo_layer 1) \<le> u64_max" unfolding demo_dense by (simp add: u64_max_def)
  from dense_vram_split_Some [OF split demo_find this] show ?thesis
    unfolding split demo_dense by (cases split) simp
qed

lemma demo_spilled:
  obtains pl where "plan ''m'' demo_model demo_inventory demo_policy = Inr pl"
    "pl_region_placements pl =
       [place_region demo_model demo_policy (demo_layer 0),
        spilled_layer]"
    "kc_store (pl_kv_cache pl) = Vram 0" "kc_estimated_bytes (pl_kv_cache pl) = 96"
    "mb_vram (pl_budget pl) = [\<lparr>mp_device = 0, mp_total_bytes = 256, mp_usable_bytes = 250\<rparr>]"
proof -
  obtain pl where pl: "plan ''m'' demo_model demo_inventory demo_policy = Inr pl" using demo_plan by blast
  have kv: "kc_store (pl_kv_cache pl) = Vram 0" "kc_estimated_bytes (pl_kv_cache pl) = 96"
    unfolding plan_Inr(3) [OF pl] by (simp_all add: kv_placement_def demo_estimate) (simp add: demo_policy_def demo_auto)
  have pools: "mb_vram (pl_budget pl) = [\<lparr>mp_device = 0, mp_total_bytes = 256, mp_usable_bytes = 250\<rparr>]"
    unfolding plan_Inr(2) [OF pl] by (simp add: budget_from_inventory_def demo_inventory_def demo_policy_def)
  have spill: "pp_spill_store demo_policy = Mmap" "pp_spill_compute demo_policy = Cuda 0"
    by (simp_all add: demo_policy_def demo_auto)
  have regions: "mg_regions demo_model = [demo_layer 0, demo_layer 1]" by (simp add: demo_model_def)
  have "pl_region_placements pl =
       [place_region demo_model demo_policy (demo_layer 0),
        spilled_layer]"
    using plan_Inr(4) [OF pl]
    by (simp add: pools regions spilled_layer_def demo_place kv spill runtime_vram_def device_weight_bytes_def sum_u64_def wrap64_def
        wrapping_add_def u64_max_def Let_def)
  with pl kv pools show thesis using that by blast
qed

text \<open>
  Spilling a block of a dense model to the host frees no memory of the GPU that computes it: the
  loader keeps all its weights there. A plan whose regions were spilled to fit 250 bytes takes 296
  once the memory planner knows the graph.
\<close>

theorem spilled_dense_block_returns:
  "\<exists>pl. plan ''m'' demo_model demo_inventory demo_policy = Inr pl \<and>
     map rp_store (pl_region_placements pl) = [Vram 0, Mmap] \<and>
     map mp_usable_bytes (mb_vram (pl_budget pl)) = [250] \<and>
     pool_sum (concat (map (fst \<circ> plan_region None) (pl_region_placements pl)) @ [kv_allocation (pl_kv_cache pl)])
       (PoolVram 0) = 196 \<and>
     pool_sum (concat (map (fst \<circ> plan_region (Some demo_model)) (pl_region_placements pl)) @ [kv_allocation (pl_kv_cache pl)])
       (PoolVram 0) = 296"
proof -
  obtain pl where pl: "plan ''m'' demo_model demo_inventory demo_policy = Inr pl"
    "pl_region_placements pl =
       [place_region demo_model demo_policy (demo_layer 0),
        spilled_layer]"
    "kc_store (pl_kv_cache pl) = Vram 0" "kc_estimated_bytes (pl_kv_cache pl) = 96"
    "mb_vram (pl_budget pl) = [\<lparr>mp_device = 0, mp_total_bytes = 256, mp_usable_bytes = 250\<rparr>]"
    by (rule demo_spilled)
  have "plan_region (Some demo_model) spilled_layer =
      ([region_allocation spilled_layer 0,
        vram_allocation (rp_region_id spilled_layer @ '':dense_vram'') 0 100], [])"
    by (simp add: plan_region_def demo_dense_split)
  moreover have "plan_region (Some demo_model) (place_region demo_model demo_policy (demo_layer 0))
      = ([region_allocation (place_region demo_model demo_policy (demo_layer 0)) 100], [])"
    by (simp add: plan_region_def dense_vram_split_def demo_place)
  ultimately show ?thesis
    using pl by (auto simp: demo_place plan_region_def region_allocation_def vram_allocation_def kv_allocation_def)
qed

section \<open>Witnesses\<close>

text \<open>
  The model of \<open>spilled_dense_block_returns\<close>: 96 bytes of KV cache and a layer of 100 are placed on the device of 250 bytes;
  the dense weights of the spilled layer bring its plan to 296, and it warns.
\<close>

lemma memory_plan_counts_device_witness:
  "\<exists>pl. plan ''m'' demo_model demo_inventory demo_policy = Inr pl \<and>
     (\<forall>env ws. let mem = memory_plan_from env pl (Some \<lparr>ru_kernels = [], ru_warnings = ws\<rparr>) (Some demo_model)
                    ((from_env env)\<lparr>cu_prefill_chunk_size := Some 1\<rparr>)
       in bytes_in_pool mem (PoolVram 0) = 296 \<and> vram_warning 0 296 250 \<in> set (me_warnings mem))"
proof -
  obtain pl where pl: "plan ''m'' demo_model demo_inventory demo_policy = Inr pl"
    "pl_region_placements pl = [place_region demo_model demo_policy (demo_layer 0), spilled_layer]"
    "kc_store (pl_kv_cache pl) = Vram 0" "kc_estimated_bytes (pl_kv_cache pl) = 96"
    "mb_vram (pl_budget pl) = [\<lparr>mp_device = 0, mp_total_bytes = 256, mp_usable_bytes = 250\<rparr>]"
    by (rule demo_spilled)
  define pool where "pool = \<lparr>mp_device = 0, mp_total_bytes = 256, mp_usable_bytes = 250\<rparr>"
  have regions: "mg_regions demo_model = [demo_layer 0, demo_layer 1]" by (simp add: demo_model_def)
  have ids: "distinct (map gr_id (mg_regions demo_model))"
  proof -
    have "''layer.'' @ show_nat 0 \<noteq> ''layer.'' @ show_nat 1" by code_simp
    then show ?thesis by (simp add: regions demo_layer_def)
  qed
  have pool: "pool \<in> set (mb_vram (pl_budget pl))" by (simp add: pl(5) pool_def)
  have gpus: "distinct (map gpu_index (hw_gpus demo_inventory))" by (simp add: demo_inventory_def)
  have spill: "pp_spill_store demo_policy \<noteq> Vram d" for d by (simp add: demo_policy_def demo_auto)
  have fits: "estimate_kv_cache_bytes demo_model demo_policy + (\<Sum>r \<leftarrow> mg_regions demo_model. tensor_bytes r) \<le> u64_max"
    by (simp add: regions demo_dense demo_estimate u64_max_def)
  have kv: "runtime_vram (pl_kv_cache pl) (mp_device pool) \<le> mp_usable_bytes pool"
    by (simp add: runtime_vram_def pl(3, 4) pool_def)
  have kept: "rp_store (place_region demo_model demo_policy (demo_layer 0)) = Vram 0"
    "rp_weight_bytes (place_region demo_model demo_policy (demo_layer 0)) = 100"
    by (simp_all add: demo_place)
  have dense: "streamed_dense demo_model 0 spilled_layer = 100"
    "streamed_dense demo_model 0 (place_region demo_model demo_policy (demo_layer 0)) = 0"
    by (simp_all add: streamed_dense_def demo_find demo_dense demo_place del: spilled_layer_simps(1) split: option.split)
  have "bytes_in_pool (memory_plan_from env pl (Some \<lparr>ru_kernels = [], ru_warnings = ws\<rparr>) (Some demo_model)
          ((from_env env)\<lparr>cu_prefill_chunk_size := Some 1\<rparr>)) (PoolVram 0) = 296
      \<and> vram_warning 0 296 250 \<in> set (me_warnings (memory_plan_from env pl (Some \<lparr>ru_kernels = [], ru_warnings = ws\<rparr>)
          (Some demo_model) ((from_env env)\<lparr>cu_prefill_chunk_size := Some 1\<rparr>)))" for env ws
    using memory_plan_counts_device [OF pl(1) gpus ids spill fits pool kv, of env "\<lparr>ru_kernels = [], ru_warnings = ws\<rparr>"
        "(from_env env)\<lparr>cu_prefill_chunk_size := Some 1\<rparr>"]
    by (auto simp: pool_def pl(2-4) runtime_vram_def dense kept layout_bytes_def extras_def max_or_zero_def
        scratch_bytes_on_def cuda_prefill_scratch_bytes_def Let_def wrap64_def u64_max_def)
  with pl(1) show ?thesis by (auto simp: Let_def)
qed

lemma region_allocations_exact_witness:
  "pool_sum (fst (plan_region (Some demo_model) spilled_layer)) (PoolVram 0) = 100"
proof -
  have "rp_weight_bytes spilled_layer = tensor_bytes (demo_layer 1)" unfolding demo_dense by simp
  moreover have "tensor_bytes (demo_layer 1) \<le> u64_max" unfolding demo_dense by (simp add: u64_max_def)
  ultimately show ?thesis
    using region_allocations_exact [OF demo_find, of 0] by (simp add: demo_dense)
qed

end
