(* ===== verification/MRope.thy ===== *)
theory MRope
  imports ModelArch
begin

text \<open>
  Position ids of multimodal prompts (\<^verbatim>\<open>aegisllm-base/src/modalities/mrope.rs\<close>): the
  temporal, height and width component of every token of a sequence with images, and the order in
  which patches are grouped into blocks that are merged. Positions are \<^verbatim>\<open>i64\<close>; they never
  exceed the length of the sequence while the product of a grid fits 64 bits, so they are
  integers here. A grid whose product overflows exhausts the memory, a \<open>None\<close>.
\<close>

section \<open>Grids and positions\<close>

record grid_thw =
  gd_t :: nat
  gd_h :: nat
  gd_w :: nat

type_synonym position_row = "int \<times> int \<times> int"

record mrope_position_ids =
  mr_t :: "int list"
  mr_h :: "int list"
  mr_w :: "int list"

definition ids_of_rows :: "position_row list \<Rightarrow> mrope_position_ids" where
  "ids_of_rows rows = \<lparr>mr_t = map fst rows, mr_h = map (fst \<circ> snd) rows, mr_w = map (snd \<circ> snd) rows\<rparr>"

definition seq_len :: "mrope_position_ids \<Rightarrow> nat" where
  "seq_len ids = length (mr_t ids)"

definition is_collapsed :: "mrope_position_ids \<Rightarrow> bool" where
  "is_collapsed ids \<longleftrightarrow> mr_t ids = mr_h ids \<and> mr_h ids = mr_w ids"

definition max_or :: "int \<Rightarrow> int list \<Rightarrow> int" where
  "max_or d xs = (case xs of [] \<Rightarrow> d | x # ys \<Rightarrow> fold max ys x)"

definition position_delta :: "mrope_position_ids \<Rightarrow> int" where
  "position_delta ids = max_or (-1) (mr_t ids @ mr_h ids @ mr_w ids) + 1 - int (seq_len ids)"

text \<open>The three vectors are filled in lockstep: row \<open>k\<close> holds their entries at \<open>k\<close>.\<close>

definition vision_rows :: "int \<Rightarrow> grid_thw \<Rightarrow> nat \<Rightarrow> nat \<Rightarrow> int \<Rightarrow> position_row list" where
  "vision_rows start_position grid temp_merge_size spatial_merge_size time_interval =
     (let tm = max temp_merge_size 1; sm = max spatial_merge_size 1;
          llm_t = gd_t grid div tm; llm_h = gd_h grid div sm; llm_w = gd_w grid div sm
      in concat (map (\<lambda>ti. concat (map (\<lambda>r. map (\<lambda>c.
           (int ti * time_interval + start_position, int r + start_position, int c + start_position))
           [0..<llm_w]) [0..<llm_h])) [0..<llm_t]))"

definition vision_position_ids :: "int \<Rightarrow> grid_thw \<Rightarrow> nat \<Rightarrow> nat \<Rightarrow> int \<Rightarrow> mrope_position_ids" where
  "vision_position_ids start_position grid temp_merge_size spatial_merge_size time_interval =
     ids_of_rows (vision_rows start_position grid temp_merge_size spatial_merge_size time_interval)"

section \<open>Sequences\<close>

definition text_rows :: "int \<Rightarrow> nat \<Rightarrow> position_row list" where
  "text_rows current_pos n = map (\<lambda>k. (current_pos + int k, current_pos + int k, current_pos + int k)) [0..<n]"

definition no_grid_error :: "nat \<Rightarrow> nat \<Rightarrow> aegis_error" where
  "no_grid_error img_idx n =
     InvalidPlan (''m-rope: image run #'' @ show_nat img_idx @ '' has no matching grid_thw (image_grids.len()=''
       @ show_nat n @ '')'')"

definition grid_size_error :: "nat \<Rightarrow> nat \<Rightarrow> grid_thw \<Rightarrow> nat \<Rightarrow> nat \<Rightarrow> aegis_error" where
  "grid_size_error img_idx n grid sm expected =
     InvalidPlan (''m-rope: image run #'' @ show_nat img_idx @ '' has '' @ show_nat n
       @ '' tokens but grid GridThw { t: '' @ show_nat (gd_t grid) @ '', h: '' @ show_nat (gd_h grid)
       @ '', w: '' @ show_nat (gd_w grid) @ '' } (merge '' @ show_nat sm @ '') expects '' @ show_nat expected)"

definition grid_count_error :: "nat \<Rightarrow> nat \<Rightarrow> aegis_error" where
  "grid_count_error img_idx n =
     InvalidPlan (''m-rope: '' @ show_nat img_idx @ '' image runs in token_ids but '' @ show_nat n
       @ '' grids supplied'')"

text \<open>One round of the outer loop takes a run of text or image tokens off the sequence.\<close>

function rope_loop ::
  "nat \<Rightarrow> nat \<Rightarrow> grid_thw list \<Rightarrow> nat list \<Rightarrow> int \<Rightarrow> nat \<Rightarrow> position_row list
     \<Rightarrow> (position_row list \<times> nat) aegis_result option" where
  "rope_loop image_id sm grids [] current_pos img_idx rows = Some (Inr (rows, img_idx))"
| "rope_loop image_id sm grids (tok # toks) current_pos img_idx rows =
     (let is_img = (tok = image_id);
          run = takeWhile (\<lambda>x. (x = image_id) = is_img) (tok # toks);
          rest = dropWhile (\<lambda>x. (x = image_id) = is_img) (tok # toks)
      in if \<not> is_img
         then rope_loop image_id sm grids rest (current_pos + int (length run)) img_idx
                (rows @ text_rows current_pos (length run))
         else case vec_get grids img_idx of
                None \<Rightarrow> Some (Inl (no_grid_error img_idx (length grids)))
              | Some grid \<Rightarrow>
                  (let size = gd_t grid * (gd_h grid div sm) * (gd_w grid div sm)
                   in if wrap64 size \<noteq> length run
                      then Some (Inl (grid_size_error img_idx (length run) grid sm (wrap64 size)))
                      else if size > u64_max then None
                      else rope_loop image_id sm grids rest
                             (current_pos + int (max (gd_h grid) (gd_w grid) div sm)) (img_idx + 1)
                             (rows @ vision_rows current_pos grid 1 sm 1)))"
  by pat_completeness auto

termination
  by (relation "measure (\<lambda>(_, _, _, toks, _). length toks)")
    (auto simp: less_Suc_eq_le length_dropWhile_le)

definition get_rope_index ::
  "nat list \<Rightarrow> nat \<Rightarrow> grid_thw list \<Rightarrow> nat \<Rightarrow> mrope_position_ids aegis_result option" where
  "get_rope_index token_ids image_token_id image_grids spatial_merge_size =
     map_option (\<lambda>r. res_bind r (\<lambda>(rows, img_idx).
         if img_idx \<noteq> length image_grids then Inl (grid_count_error img_idx (length image_grids))
         else Inr (ids_of_rows rows)))
       (rope_loop image_token_id (max spatial_merge_size 1) image_grids token_ids 0 0 [])"

section \<open>Blocks of patches\<close>

text \<open>
  The four loops over blocks and the patches of a block, in the order of the packer; the vector is
  allocated for \<open>grid_h * grid_w\<close> patches and keeps zeros where the blocks do not reach.
\<close>

definition block_cells :: "nat \<Rightarrow> nat \<Rightarrow> nat \<Rightarrow> (nat \<times> nat) list" where
  "block_cells grid_h grid_w m =
     concat (map (\<lambda>bh. concat (map (\<lambda>bw. concat (map (\<lambda>mr. map (\<lambda>mc. (bh * m + mr, bw * m + mc))
       [0..<m]) [0..<m])) [0..<grid_w div m])) [0..<grid_h div m])"

definition qwen_vision_position_ids :: "nat \<Rightarrow> nat \<Rightarrow> nat \<Rightarrow> nat list" where
  "qwen_vision_position_ids grid_h grid_w merge =
     (let m = max merge 1; n = grid_h * grid_w; cells = block_cells grid_h grid_w m
      in concat (map (\<lambda>(row, col). [row, col]) cells) @ replicate (2 * (n - length cells)) 0)"

definition patch_reorder :: "nat \<Rightarrow> nat \<Rightarrow> nat \<Rightarrow> nat list" where
  "patch_reorder grid_h grid_w merge =
     map (\<lambda>(ph, pw). ph * grid_w + pw) (block_cells grid_h grid_w (max merge 1))"

section \<open>Rows\<close>

lemma length_vision_rows:
  "length (vision_rows p grid 1 sm ti) = gd_t grid * (gd_h grid div max sm 1) * (gd_w grid div max sm 1)"
proof -
  have inner: "length (concat (map (\<lambda>r. map (f r) [0..<m]) [0..<n])) = n * m" for f :: "nat \<Rightarrow> nat \<Rightarrow> position_row" and m n
    by (subst concat_const_length [where n = m]) simp_all
  show ?thesis
    unfolding vision_rows_def Let_def
    by (subst concat_const_length [where n = "(gd_h grid div max sm 1) * (gd_w grid div max sm 1)"])
      (simp_all add: inner)
qed

lemma length_text_rows [simp]: "length (text_rows p n) = n"
  by (simp add: text_rows_def)

definition row_below :: "int \<Rightarrow> position_row \<Rightarrow> bool" where
  "row_below p row \<longleftrightarrow> 0 \<le> fst row \<and> fst row < p \<and> 0 \<le> fst (snd row) \<and> fst (snd row) < p
     \<and> 0 \<le> snd (snd row) \<and> snd (snd row) < p"

lemma row_below_mono: "row_below p row \<Longrightarrow> p \<le> q \<Longrightarrow> row_below q row"
  by (auto simp: row_below_def)

lemma text_rows_below: "0 \<le> p \<Longrightarrow> row \<in> set (text_rows p n) \<Longrightarrow> row_below (p + int n) row"
  by (auto simp: text_rows_def row_below_def)

text \<open>An image whose temporal extent is not larger than its sides, such as a still image.\<close>

definition flat_grid :: "nat \<Rightarrow> grid_thw \<Rightarrow> bool" where
  "flat_grid sm grid \<longleftrightarrow> gd_t grid \<le> max (gd_h grid) (gd_w grid) div sm"

lemma max_div: "max a b div n = max (a div n) (b div n)" for a b n :: nat
  by (simp add: max_def div_le_mono nat_less_le) (metis div_le_mono dual_order.antisym nat_le_linear)

lemma vision_rows_below:
  assumes "0 \<le> p" "flat_grid sm grid" "1 \<le> sm" "row \<in> set (vision_rows p grid 1 sm 1)"
  shows "row_below (p + int (max (gd_h grid) (gd_w grid) div sm)) row"
proof -
  have sm: "max sm 1 = sm" using assms(3) by simp
  from assms(4) obtain t r c where row: "row = (int t + p, int r + p, int c + p)"
    and lt: "t < gd_t grid" "r < gd_h grid div sm" "c < gd_w grid div sm"
    unfolding vision_rows_def Let_def sm by auto
  have "t < max (gd_h grid) (gd_w grid) div sm" using lt(1) assms(2) by (simp add: flat_grid_def)
  moreover have "r < max (gd_h grid) (gd_w grid) div sm" "c < max (gd_h grid) (gd_w grid) div sm"
    using lt(2, 3) by (simp_all add: max_div)
  ultimately show ?thesis using assms(1) by (simp add: row row_below_def)
qed

section \<open>The loop\<close>

text \<open>
  What holds of the tokens that are done: every component is below the current position, which is at
  most their number, and a text token stands above everything before it in all three components.
\<close>

definition rows_ok :: "nat \<Rightarrow> int \<Rightarrow> nat list \<Rightarrow> position_row list \<Rightarrow> bool" where
  "rows_ok image_id p toks rows \<longleftrightarrow>
     length rows = length toks \<and> 0 \<le> p \<and> p \<le> int (length toks) \<and> (\<forall>row \<in> set rows. row_below p row) \<and>
     (\<forall>k < length toks. toks ! k \<noteq> image_id \<longrightarrow> (\<exists>q. rows ! k = (q, q, q) \<and> (\<forall>l < k. row_below q (rows ! l))))"

lemma rows_ok_append:
  assumes "rows_ok image_id p toks rows" "length new = length run" "p \<le> q" "q \<le> p + int (length run)"
    and "\<And>row. row \<in> set new \<Longrightarrow> row_below q row"
    and "\<And>k. k < length run \<Longrightarrow> run ! k \<noteq> image_id \<Longrightarrow>
      \<exists>x \<ge> p. new ! k = (x, x, x) \<and> (\<forall>l < k. row_below x (new ! l))"
  shows "rows_ok image_id q (toks @ run) (rows @ new)"
proof -
  have below: "row_below p (rows ! l)" if "l < length rows" for l
    using assms(1) that by (simp add: rows_ok_def)
  have "\<exists>x. (rows @ new) ! k = (x, x, x) \<and> (\<forall>l < k. row_below x ((rows @ new) ! l))"
    if k: "k < length (toks @ run)" "(toks @ run) ! k \<noteq> image_id" for k
  proof (cases "k < length toks")
    case True
    with k(2) assms(1) show ?thesis by (auto simp: rows_ok_def nth_append)
  next
    case False
    with k assms(1) have "k - length toks < length run" "run ! (k - length toks) \<noteq> image_id"
      by (auto simp: nth_append)
    from assms(6) [OF this] obtain x where x: "p \<le> x" "new ! (k - length toks) = (x, x, x)"
      "\<forall>l < k - length toks. row_below x (new ! l)" by blast
    have "row_below x ((rows @ new) ! l)" if "l < k" for l
      using that x(1, 3) below [of l] assms(1) False
      by (auto simp: nth_append rows_ok_def not_less intro: row_below_mono)
    with x(2) False assms(1) show ?thesis by (auto simp: nth_append rows_ok_def)
  qed
  moreover have "\<forall>row \<in> set (rows @ new). row_below q row"
    using assms(1, 3, 5) by (auto simp: rows_ok_def intro: row_below_mono)
  ultimately show ?thesis
    using assms(1-4) by (simp add: rows_ok_def)
qed

lemma rows_ok_text:
  assumes "rows_ok image_id p toks rows" "\<And>x. x \<in> set run \<Longrightarrow> x \<noteq> image_id"
  shows "rows_ok image_id (p + int (length run)) (toks @ run) (rows @ text_rows p (length run))"
proof (rule rows_ok_append [OF assms(1)])
  have p: "0 \<le> p" using assms(1) by (simp add: rows_ok_def)
  show "row_below (p + int (length run)) row" if "row \<in> set (text_rows p (length run))" for row
    using text_rows_below [OF p that] .
  fix k assume "k < length run"
  then have "text_rows p (length run) ! k = (p + int k, p + int k, p + int k)"
    "\<forall>l < k. row_below (p + int k) (text_rows p (length run) ! l)"
    using p by (auto simp: text_rows_def row_below_def)
  then show "\<exists>x \<ge> p. text_rows p (length run) ! k = (x, x, x) \<and> (\<forall>l < k. row_below x (text_rows p (length run) ! l))"
    by (intro exI [of _ "p + int k"]) simp
qed simp_all

lemma factor_le: "0 < a * b * c \<Longrightarrow> max b c \<le> a * b * (c :: nat)"
  by (auto simp: max_def intro: order_trans [of _ "b * c"])

lemma rows_ok_image:
  assumes "rows_ok image_id p toks rows" "\<And>x. x \<in> set run \<Longrightarrow> x = image_id" "1 \<le> sm" "flat_grid sm grid" "run \<noteq> []"
    and "gd_t grid * (gd_h grid div sm) * (gd_w grid div sm) = length run"
  shows "rows_ok image_id (p + int (max (gd_h grid) (gd_w grid) div sm)) (toks @ run) (rows @ vision_rows p grid 1 sm 1)"
proof (rule rows_ok_append [OF assms(1)])
  have p: "0 \<le> p" using assms(1) by (simp add: rows_ok_def)
  show "row_below (p + int (max (gd_h grid) (gd_w grid) div sm)) row" if "row \<in> set (vision_rows p grid 1 sm 1)" for row
    by (rule vision_rows_below [OF p assms(4, 3) that])
  show "length (vision_rows p grid 1 sm 1) = length run"
    unfolding length_vision_rows using assms(3, 6) by (simp add: max_absorb1)
  have "0 < gd_t grid * (gd_h grid div sm) * (gd_w grid div sm)" using assms(5, 6) by simp
  from factor_le [OF this] show "p + int (max (gd_h grid) (gd_w grid) div sm) \<le> p + int (length run)"
    using assms(6) by (simp add: max_div)
  show "\<exists>x \<ge> p. vision_rows p grid 1 sm 1 ! k = (x, x, x) \<and> (\<forall>l < k. row_below x (vision_rows p grid 1 sm 1 ! l))"
    if "k < length run" "run ! k \<noteq> image_id" for k
    using that assms(2) by (metis nth_mem)
qed simp

lemma rope_loop_ok:
  assumes "rope_loop image_id sm grids toks p i rows = Some (Inr (out, j))"
    and "rows_ok image_id p ready rows" "1 \<le> sm" "\<And>g. g \<in> set grids \<Longrightarrow> flat_grid sm g"
  shows "\<exists>q. rows_ok image_id q (ready @ toks) out"
  using assms
proof (induction image_id sm grids toks p i rows arbitrary: ready rule: rope_loop.induct)
  case (1 image_id sm grids p i rows)
  then show ?case by auto
next
  case (2 image_id sm grids tok toks p i rows)
  define run where "run = takeWhile (\<lambda>x. (x = image_id) = (tok = image_id)) (tok # toks)"
  define rest where "rest = dropWhile (\<lambda>x. (x = image_id) = (tok = image_id)) (tok # toks)"
  have split: "tok # toks = run @ rest" by (simp only: run_def rest_def takeWhile_dropWhile_id)
  have kind: "(x = image_id) = (tok = image_id)" if "x \<in> set run" for x
    using that unfolding run_def by (rule set_takeWhileD [THEN conjunct2])
  have nonempty: "run \<noteq> []" by (simp add: run_def)
  show ?case
  proof (cases "tok = image_id")
    case False
    with "2.prems"(1) have next_loop: "rope_loop image_id sm grids rest (p + int (length run)) i
        (rows @ text_rows p (length run)) = Some (Inr (out, j))"
      by (simp add: Let_def run_def rest_def)
    have "rows_ok image_id (p + int (length run)) (ready @ run) (rows @ text_rows p (length run))"
      using kind False by (intro rows_ok_text "2.prems"(2)) blast
    from "2.IH"(1) [OF refl run_def rest_def False next_loop this "2.prems"(3, 4)] show ?thesis
      by (simp add: split)
  next
    case True
    from "2.prems"(1) True obtain grid where grid: "vec_get grids i = Some grid"
      by (auto simp: Let_def split: option.splits)
    let ?size = "gd_t grid * (gd_h grid div sm) * (gd_w grid div sm)"
    from "2.prems"(1) True grid have size: "wrap64 ?size = length run" "\<not> u64_max < ?size"
      and next_loop: "rope_loop image_id sm grids rest (p + int (max (gd_h grid) (gd_w grid) div sm)) (i + 1)
        (rows @ vision_rows p grid 1 sm 1) = Some (Inr (out, j))"
      by (auto simp: Let_def run_def rest_def split: if_splits)
    have "?size = length run" using size by (simp add: wrap64_def)
    moreover have "grid \<in> set grids" using grid by (auto simp: vec_get_def split: if_splits)
    ultimately have "rows_ok image_id (p + int (max (gd_h grid) (gd_w grid) div sm)) (ready @ run)
        (rows @ vision_rows p grid 1 sm 1)"
      using kind True nonempty "2.prems"(3, 4) by (intro rows_ok_image "2.prems"(2)) blast+
    from "2.IH"(2) [OF refl run_def rest_def _ grid refl _ size(2) next_loop this "2.prems"(3, 4)] True size(1)
    show ?thesis unfolding split by simp
  qed
qed


lemma get_rope_index_Inr:
  assumes "get_rope_index toks image_id grids sm = Some (Inr ids)"
  obtains rows j where "rope_loop image_id (max sm 1) grids toks 0 0 [] = Some (Inr (rows, j))" "ids = ids_of_rows rows"
proof -
  from assms obtain r where r: "rope_loop image_id (max sm 1) grids toks 0 0 [] = Some r"
    and "res_bind r (\<lambda>(rows, img_idx). if img_idx \<noteq> length grids then Inl (grid_count_error img_idx (length grids))
         else Inr (ids_of_rows rows)) = Inr ids"
    unfolding get_rope_index_def by (auto simp del: rope_loop.simps)
  then show thesis using that by (cases r) (auto split: if_splits prod.splits)
qed

text \<open>
  Positions of a prompt with flat images, such as still images: one row for every token, every
  component at least 0 and below the length of the prompt, and every text token at one position that
  is greater than all components of all tokens before it, images included.
\<close>

theorem rope_text_follows_images:
  assumes "get_rope_index toks image_id grids sm = Some (Inr ids)"
    and "\<And>g. g \<in> set grids \<Longrightarrow> flat_grid (max sm 1) g"
  shows "seq_len ids = length toks \<and> length (mr_h ids) = length toks \<and> length (mr_w ids) = length toks \<and>
    (\<forall>x \<in> set (mr_t ids @ mr_h ids @ mr_w ids). 0 \<le> x \<and> x < int (length toks)) \<and>
    (\<forall>k < length toks. toks ! k \<noteq> image_id \<longrightarrow>
       mr_h ids ! k = mr_t ids ! k \<and> mr_w ids ! k = mr_t ids ! k \<and>
       (\<forall>l < k. mr_t ids ! l < mr_t ids ! k \<and> mr_h ids ! l < mr_t ids ! k \<and> mr_w ids ! l < mr_t ids ! k))"
proof -
  from assms(1) obtain rows j where loop: "rope_loop image_id (max sm 1) grids toks 0 0 [] = Some (Inr (rows, j))"
    and ids: "ids = ids_of_rows rows"
    by (rule get_rope_index_Inr)
  have "rows_ok image_id 0 [] []" by (simp add: rows_ok_def)
  from rope_loop_ok [OF loop this] assms(2) obtain q where "rows_ok image_id q ([] @ toks) rows" by auto
  then have ok: "length rows = length toks" "q \<le> int (length toks)" "\<And>row. row \<in> set rows \<Longrightarrow> row_below q row"
    "\<And>k. k < length toks \<Longrightarrow> toks ! k \<noteq> image_id \<Longrightarrow> \<exists>x. rows ! k = (x, x, x) \<and> (\<forall>l < k. row_below x (rows ! l))"
    by (simp_all add: rows_ok_def)
  have "mr_h ids ! k = mr_t ids ! k \<and> mr_w ids ! k = mr_t ids ! k \<and>
      (\<forall>l < k. mr_t ids ! l < mr_t ids ! k \<and> mr_h ids ! l < mr_t ids ! k \<and> mr_w ids ! l < mr_t ids ! k)"
    if k: "k < length toks" "toks ! k \<noteq> image_id" for k
  proof -
    from ok(4) [OF k] obtain x where x: "rows ! k = (x, x, x)" "\<forall>l < k. row_below x (rows ! l)" by blast
    have "l < length rows" if "l < k" for l using that k(1) ok(1) by simp
    then show ?thesis using x k(1) ok(1) by (simp add: ids ids_of_rows_def row_below_def)
  qed
  moreover have "0 \<le> x \<and> x < int (length toks)" if "x \<in> set (mr_t ids @ mr_h ids @ mr_w ids)" for x
    using that ok(2) by (auto simp: ids ids_of_rows_def row_below_def dest!: ok(3))
  ultimately show ?thesis using ok(1) by (simp add: ids seq_len_def ids_of_rows_def)
qed

section \<open>Text alone\<close>

lemma fold_max_upto: "0 < n \<Longrightarrow> fold max (map int [0..<n]) x = max x (int n - 1)"
proof (induction n)
  case (Suc n)
  then show ?case by (cases n) auto
qed simp

text \<open>
  A prompt without image tokens has the ordinary positions in all three components and decodes
  on at its length.
\<close>

theorem rope_text_is_ordinary:
  assumes "image_id \<notin> set toks"
  shows "get_rope_index toks image_id [] sm =
      Some (Inr \<lparr>mr_t = map int [0..<length toks], mr_h = map int [0..<length toks], mr_w = map int [0..<length toks]\<rparr>) \<and>
    is_collapsed \<lparr>mr_t = map int [0..<length toks], mr_h = map int [0..<length toks], mr_w = map int [0..<length toks]\<rparr> \<and>
    position_delta \<lparr>mr_t = map int [0..<length toks], mr_h = map int [0..<length toks], mr_w = map int [0..<length toks]\<rparr> = 0"
proof -
  have loop: "rope_loop image_id sm [] toks 0 0 [] = Some (Inr (text_rows 0 (length toks), 0))" for sm
  proof (cases toks)
    case (Cons tok rest)
    have "takeWhile (\<lambda>x. (x = image_id) = (tok = image_id)) (tok # rest) = tok # rest"
      "dropWhile (\<lambda>x. (x = image_id) = (tok = image_id)) (tok # rest) = []"
      using assms Cons by (auto simp: takeWhile_eq_all_conv dropWhile_eq_Nil_conv)
    then show ?thesis using assms Cons by (simp only: rope_loop.simps Let_def) simp
  qed (simp add: text_rows_def)
  have "position_delta \<lparr>mr_t = map int [0..<n], mr_h = map int [0..<n], mr_w = map int [0..<n]\<rparr> = 0" for n
  proof (cases n)
    case (Suc m)
    have "max_or (-1) (map int [0..<n] @ map int [0..<n] @ map int [0..<n])
        = fold max (map int [0..<n]) (fold max (map int [0..<n]) (fold max (map int [0..<n]) 0))"
      using Suc by (simp add: max_or_def upt_conv_Cons del: upt_Suc)
    then show ?thesis using Suc by (simp add: position_delta_def seq_len_def fold_max_upto del: upt_Suc)
  qed (simp add: position_delta_def seq_len_def max_or_def)
  then show ?thesis
    by (simp add: get_rope_index_def loop ids_of_rows_def text_rows_def o_def is_collapsed_def)
qed


section \<open>Patches in blocks\<close>

lemma mem_block_cells:
  "(a, b) \<in> set (block_cells h w m) \<longleftrightarrow> 0 < m \<and> a < h div m * m \<and> b < w div m * m"
proof
  assume "(a, b) \<in> set (block_cells h w m)"
  then obtain bh bw mr mc where ab: "a = bh * m + mr" "b = bw * m + mc" "bh < h div m" "bw < w div m" "mr < m" "mc < m"
    unfolding block_cells_def by auto
  then have "(bh + 1) * m \<le> h div m * m" "(bw + 1) * m \<le> w div m * m" by (intro mult_le_mono1; simp)+
  with ab show "0 < m \<and> a < h div m * m \<and> b < w div m * m" by auto
next
  assume ab: "0 < m \<and> a < h div m * m \<and> b < w div m * m"
  then have "a div m < h div m" "b div m < w div m" "a mod m < m" "b mod m < m"
    by (simp_all add: less_mult_imp_div_less)
  moreover have "(a, b) = (a div m * m + a mod m, b div m * m + b mod m)" by simp
  ultimately show "(a, b) \<in> set (block_cells h w m)"
    unfolding block_cells_def set_concat set_map set_upt image_image UN_iff
    by (metis (no_types, lifting) UN_iff atLeastLessThan_iff image_eqI list.set_map set_concat set_upt zero_le)
qed

lemma length_block_cells: "length (block_cells h w m) = (h div m * m) * (w div m * m)"
  by (simp add: block_cells_def length_concat o_def sum_list_triv)

lemma distinct_block_cells: "distinct (block_cells h w m)"
proof (rule card_distinct)
  have "set (block_cells h w m) = (if m = 0 then {} else {..<h div m * m} \<times> {..<w div m * m})"
    by (rule set_eqI) (auto simp: mem_block_cells)
  then show "card (set (block_cells h w m)) = length (block_cells h w m)"
    by (simp add: length_block_cells card_cartesian_product)
qed

text \<open>
  When the merge size divides both sides of a grid the block order visits every patch exactly
  once: the row-major indices are a permutation, and the position ids are the row and the column of
  that index.
\<close>

theorem block_order_permutation:
  assumes "max m 1 dvd h" "max m 1 dvd w"
  shows "distinct (patch_reorder h w m) \<and> set (patch_reorder h w m) = {..<h * w} \<and>
    qwen_vision_position_ids h w m = concat (map (\<lambda>i. [i div w, i mod w]) (patch_reorder h w m))"
proof -
  define M where "M = max m 1"
  then have M: "0 < M" by simp
  let ?cells = "block_cells h w M"
  have full: "h div M * M = h" "w div M * M = w" using assms by (simp_all add: M_def)
  note orders = patch_reorder_def [of h w m, folded M_def]
  have cells: "(a, b) \<in> set ?cells \<longleftrightarrow> a < h \<and> b < w" for a b
    by (simp only: mem_block_cells full M simp_thms)
  have unflat: "(a * w + b) div w = a \<and> (a * w + b) mod w = b" if "(a, b) \<in> set ?cells" for a b
    using that by (simp add: cells)
  have inj: "inj_on (\<lambda>(a, b). a * w + b) (set ?cells)"
    by (rule inj_on_inverseI [where g = "\<lambda>i. (i div w, i mod w)"]) (use unflat in auto)
  have "distinct (patch_reorder h w m)"
    unfolding orders by (simp add: distinct_map distinct_block_cells inj)
  moreover have "set (patch_reorder h w m) = {..<h * w}"
  proof
    have "a * w + b < h * w" if "a < h" "b < w" for a b
    proof -
      have "(a + 1) * w \<le> h * w" using that(1) by (intro mult_le_mono1) simp
      with that(2) show ?thesis by simp
    qed
    then show "set (patch_reorder h w m) \<subseteq> {..<h * w}" by (auto simp: orders cells)
    show "{..<h * w} \<subseteq> set (patch_reorder h w m)"
    proof
      fix i assume "i \<in> {..<h * w}"
      then have "i div w < h" "i mod w < w" by (simp_all add: less_mult_imp_div_less) (cases w; simp)
      then have "(i div w, i mod w) \<in> set ?cells" by (simp add: cells)
      moreover have "i = (\<lambda>(a, b). a * w + b) (i div w, i mod w)" by simp
      ultimately show "i \<in> set (patch_reorder h w m)" unfolding orders set_map by (rule rev_image_eqI)
    qed
  qed
  moreover have "qwen_vision_position_ids h w m = concat (map (\<lambda>i. [i div w, i mod w]) (patch_reorder h w m))"
  proof -
    have "length ?cells = h * w" by (simp only: length_block_cells full)
    moreover have "map (\<lambda>(row, col). [row, col]) ?cells = map (\<lambda>i. [i div w, i mod w]) (patch_reorder h w m)"
      unfolding orders map_map by (intro map_cong refl) (use unflat in \<open>auto simp del: div_mult_self3 div_mult_self4\<close>)
    ultimately show ?thesis unfolding qwen_vision_position_ids_def Let_def M_def [symmetric] by simp
  qed
  ultimately show ?thesis by blast
qed


text \<open>
  A merge size that does not divide the sides drops the last rows and columns: two rows of three
  patches in blocks of two give four of the six patches, and the others stand at row 0, column 0.
\<close>

theorem partial_blocks_lose_patches:
  "qwen_vision_position_ids 2 3 2 = [0, 0, 0, 1, 1, 0, 1, 1, 0, 0, 0, 0] \<and> length (patch_reorder 2 3 2) = 4"
  by code_simp

section \<open>Witnesses\<close>

definition demo_prompt :: "nat list" where
  "demo_prompt = [7, 9, 9, 9, 9, 7, 7]"

definition demo_grid :: grid_thw where
  "demo_grid = \<lparr>gd_t = 1, gd_h = 4, gd_w = 4\<rparr>"

lemma demo_rope:
  "get_rope_index demo_prompt 9 [demo_grid] 2 =
     Some (Inr \<lparr>mr_t = [0, 1, 1, 1, 1, 3, 4], mr_h = [0, 1, 1, 2, 2, 3, 4], mr_w = [0, 1, 2, 1, 2, 3, 4]\<rparr>)"
proof -
  have rows: "vision_rows 1 demo_grid 1 2 1 = [(1, 1, 1), (1, 1, 2), (1, 2, 1), (1, 2, 2)]"
    "text_rows 0 1 = [(0, 0, 0)]" "text_rows 3 2 = [(3, 3, 3), (4, 4, 4)]"
    by code_simp+
  have sides: "gd_t demo_grid * (gd_h demo_grid div 2) * (gd_w demo_grid div 2) = 4"
    "max (gd_h demo_grid) (gd_w demo_grid) div 2 = 2"
    by (simp_all add: demo_grid_def)
  have wrap: "wrap64 4 = 4" "\<not> u64_max < 4" by (simp_all add: wrap64_def u64_max_def)
  have two: "rope_loop 9 2 [demo_grid] [7, 7] 3 (Suc 0) xs = Some (Inr (xs @ text_rows 3 2, Suc 0))" for xs
    by (simp add: Let_def numeral_2_eq_2)
  have image: "rope_loop 9 2 [demo_grid] [9, 9, 9, 9, 7, 7] 1 0 xs
      = Some (Inr (xs @ vision_rows 1 demo_grid 1 2 1 @ text_rows 3 2, 1))" for xs
    by (subst rope_loop.simps) (simp add: Let_def vec_get_def sides wrap two del: rope_loop.simps)
  have "rope_loop 9 2 [demo_grid] demo_prompt 0 0 []
      = Some (Inr (text_rows 0 1 @ vision_rows 1 demo_grid 1 2 1 @ text_rows 3 2, 1))"
    unfolding demo_prompt_def by (subst rope_loop.simps) (simp add: Let_def image del: rope_loop.simps)
  then have loop: "rope_loop 9 2 [demo_grid] demo_prompt 0 0 []
      = Some (Inr ([(0, 0, 0)] @ [(1, 1, 1), (1, 1, 2), (1, 2, 1), (1, 2, 2)] @ [(3, 3, 3), (4, 4, 4)], 1))"
    unfolding rows .
  have two: "max 2 1 = (2::nat)" by simp
  show ?thesis unfolding get_rope_index_def two loop by (simp add: ids_of_rows_def)
qed

lemma rope_text_follows_images_witness:
  "\<exists>ids. get_rope_index demo_prompt 9 [demo_grid] 2 = Some (Inr ids) \<and> position_delta ids = -2 \<and>
     mr_t ids ! 4 < mr_t ids ! 5 \<and> mr_w ids ! 4 < mr_t ids ! 5"
proof -
  have "flat_grid (max 2 1) demo_grid" by code_simp
  moreover have "demo_prompt ! 5 \<noteq> 9" "5 < length demo_prompt" by (simp_all add: demo_prompt_def)
  ultimately have "let ids = \<lparr>mr_t = [0, 1, 1, 1, 1, 3, 4], mr_h = [0, 1, 1, 2, 2, 3, 4], mr_w = [0, 1, 2, 1, 2, 3, 4]\<rparr>
      in mr_t ids ! 4 < mr_t ids ! 5 \<and> mr_w ids ! 4 < mr_t ids ! 5"
    using rope_text_follows_images [OF demo_rope] by simp
  then show ?thesis unfolding demo_rope
    by (simp add: position_delta_def max_or_def seq_len_def)
qed

lemma rope_text_is_ordinary_witness:
  "get_rope_index [5, 6, 7] 9 [] 2 = Some (Inr \<lparr>mr_t = [0, 1, 2], mr_h = [0, 1, 2], mr_w = [0, 1, 2]\<rparr>)"
  using rope_text_is_ordinary [of 9 "[5, 6, 7]" 2] by (simp add: upt_rec)

lemma block_order_permutation_witness:
  "qwen_vision_position_ids 2 4 2 = [0, 0, 0, 1, 1, 0, 1, 1, 0, 2, 0, 3, 1, 2, 1, 3]"
proof -
  have "patch_reorder 2 4 2 = [0, 1, 4, 5, 2, 3, 6, 7]"
    by code_simp
  moreover have "max 2 1 dvd (2::nat)" "max 2 1 dvd (4::nat)" by code_simp+
  ultimately show ?thesis using block_order_permutation [of 2 2 4] by simp
qed

end
