(* ===== verification/Repack.thy ===== *)
theory Repack
  imports Quant ModelArch
begin

text \<open>
  Repacking NVFP4 weights for the GPU (\<^verbatim>\<open>aegisllm-cuda/src/cuda/repack.rs\<close>), first part:
  the interleaved scale layout of the CUTLASS kernels. Bytes are numbers below 256 and
  \<^verbatim>\<open>usize\<close> values are numbers that wrap at 64 bits. \<open>None\<close> is a panic. The conversion to
  MXFP4 blocks and the cache of repacked weights are in \<^verbatim>\<open>RepackCache\<close>.
\<close>

unbundle bit_operations_syntax

section \<open>The CUTLASS layout\<close>

record cutlass_layout =
  cl_logical_n :: nat
  cl_logical_k :: nat
  cl_packed_k_cols :: nat
  cl_source_scale_cols :: nat
  cl_scale_rows :: nat
  cl_scale_cols :: nat
  cl_scale_k_tiles :: nat

record cutlass_host_linear =
  ch_layout :: cutlass_layout
  ch_payload_e2m1 :: "nat list"
  ch_scales_ue4m3 :: "nat list"

definition SCALE_VEC_SIZE :: nat where "SCALE_VEC_SIZE = 16"
definition SCALE_ROW_ALIGNMENT :: nat where "SCALE_ROW_ALIGNMENT = 128"
definition SCALE_COL_ALIGNMENT :: nat where "SCALE_COL_ALIGNMENT = 4"
definition OUTPUT_CHANNEL_ALIGNMENT :: nat where "OUTPUT_CHANNEL_ALIGNMENT = 32"

lemmas alignments = SCALE_VEC_SIZE_def SCALE_ROW_ALIGNMENT_def SCALE_COL_ALIGNMENT_def OUTPUT_CHANNEL_ALIGNMENT_def

definition round_up :: "nat \<Rightarrow> nat \<Rightarrow> nat" where
  "round_up value alignment = wrap64 (div_ceil value alignment * alignment)"

definition for_weight :: "'f nvfp4_linear_spec \<Rightarrow> cutlass_layout aegis_result" where
  "for_weight spec =
     (if nv_cols spec mod 32 \<noteq> 0
      then Inl (InvalidPlan (''`'' @ nv_name spec @ ''` CUTLASS NVFP4 layout requires K divisible by 32, got ''
             @ show_nat (nv_cols spec)))
      else if nv_rows spec mod OUTPUT_CHANNEL_ALIGNMENT \<noteq> 0
      then Inl (InvalidPlan (''`'' @ nv_name spec @ ''` CUTLASS NVFP4 layout requires output channels divisible by ''
             @ show_nat OUTPUT_CHANNEL_ALIGNMENT @ '', got '' @ show_nat (nv_rows spec)))
      else let source_scale_cols = nv_cols spec div SCALE_VEC_SIZE;
               scale_rows = round_up (nv_rows spec) SCALE_ROW_ALIGNMENT;
               scale_cols' = round_up source_scale_cols SCALE_COL_ALIGNMENT
           in Inr \<lparr>cl_logical_n = nv_rows spec, cl_logical_k = nv_cols spec,
                   cl_packed_k_cols = packed_cols spec, cl_source_scale_cols = source_scale_cols,
                   cl_scale_rows = scale_rows, cl_scale_cols = scale_cols',
                   cl_scale_k_tiles = scale_cols' div SCALE_COL_ALIGNMENT\<rparr>)"

definition payload_bytes :: "cutlass_layout \<Rightarrow> nat" where
  "payload_bytes l = wrap64 (cl_logical_n l * cl_packed_k_cols l)"

definition scale_bytes :: "cutlass_layout \<Rightarrow> nat" where
  "scale_bytes l = wrap64 (cl_scale_rows l * cl_scale_cols l)"

definition swizzled_scale_offset :: "cutlass_layout \<Rightarrow> nat \<Rightarrow> nat \<Rightarrow> nat aegis_result" where
  "swizzled_scale_offset l row k_scale_idx =
     (if row \<ge> cl_scale_rows l \<or> k_scale_idx \<ge> cl_scale_cols l
      then Inl (InvalidPlan (''CUTLASS NVFP4 scale offset out of bounds: row='' @ show_nat row @ '' k_scale_idx=''
             @ show_nat k_scale_idx @ '' shape=['' @ show_nat (cl_scale_rows l) @ '', ''
             @ show_nat (cl_scale_cols l) @ '']''))
      else let m_tile_idx = drop_bit 7 row;
               outer_m_idx = row AND 31;
               inner_m_idx = drop_bit 5 row AND 3;
               k_tile_idx = drop_bit 2 k_scale_idx;
               inner_k_idx = k_scale_idx AND 3
           in Inr (wrap64 (push_bit 9 (m_tile_idx * cl_scale_k_tiles l + k_tile_idx))
                   OR push_bit 4 outer_m_idx OR push_bit 2 inner_m_idx OR inner_k_idx))"

section \<open>Repacking to CUTLASS\<close>

text \<open>The body of the two loops; an index out of range is a panic, an error ends the loops.\<close>

definition copy_scale ::
  "cutlass_layout \<Rightarrow> nat list \<Rightarrow> nat \<times> nat \<Rightarrow> nat list \<Rightarrow> nat list aegis_result option" where
  "copy_scale l scales cell out =
     (case cell of (row, k_scale_idx) \<Rightarrow>
       (case swizzled_scale_offset l row k_scale_idx of
          Inl e \<Rightarrow> Some (Inl e)
        | Inr dst \<Rightarrow>
            (let src = row * cl_source_scale_cols l + k_scale_idx
             in if src < length scales \<and> dst < length out then Some (Inr (out[dst := scales ! src])) else None)))"

fun copy_scales ::
  "cutlass_layout \<Rightarrow> nat list \<Rightarrow> (nat \<times> nat) list \<Rightarrow> nat list \<Rightarrow> nat list aegis_result option" where
  "copy_scales l scales [] out = Some (Inr out)"
| "copy_scales l scales (cell # cells) out =
     (case copy_scale l scales cell out of
        None \<Rightarrow> None
      | Some (Inl e) \<Rightarrow> Some (Inl e)
      | Some (Inr out) \<Rightarrow> copy_scales l scales cells out)"

definition scale_cells :: "nat \<Rightarrow> nat \<Rightarrow> (nat \<times> nat) list" where
  "scale_cells rows cols = concat (map (\<lambda>row. map (\<lambda>k. (row, k)) [0..<cols]) [0..<rows])"

definition repack_cutlass ::
  "'f nvfp4_linear_spec \<Rightarrow> nat list \<Rightarrow> nat list \<Rightarrow> cutlass_host_linear aegis_result option" where
  "repack_cutlass spec packed scales =
     (case for_weight spec of
        Inl e \<Rightarrow> Some (Inl e)
      | Inr l \<Rightarrow>
          if length packed \<noteq> payload_bytes l \<or> length scales \<noteq> wrap64 (nv_rows spec * scale_cols spec)
          then Some (Inl (InvalidPlan (''`'' @ nv_name spec @ ''` CUTLASS NVFP4 shape mismatch: packed=''
                 @ show_nat (length packed) @ '' expected='' @ show_nat (payload_bytes l) @ '' scales=''
                 @ show_nat (length scales) @ '' expected='' @ show_nat (wrap64 (nv_rows spec * scale_cols spec)))))
          else map_option (map_sum id (\<lambda>out.
                 \<lparr>ch_layout = l, ch_payload_e2m1 = packed, ch_scales_ue4m3 = out\<rparr>))
               (copy_scales l scales (scale_cells (nv_rows spec) (cl_source_scale_cols l))
                 (replicate (scale_bytes l) 0)))"

section \<open>The interleaved offsets\<close>

lemma push_or: "b < 2 ^ n \<Longrightarrow> push_bit n a OR b = a * 2 ^ n + (b :: nat)"
proof -
  assume b: "b < 2 ^ n"
  have "\<not> bit (push_bit n a) i \<or> \<not> bit b i" for i
  proof (cases "i < n")
    case False
    have "take_bit n b = b" using b by (simp add: take_bit_eq_mod)
    then have "\<not> bit b i" using False by (metis bit_take_bit_iff)
    then show ?thesis ..
  qed (simp add: bit_push_bit_iff)
  then have "push_bit n a + b = push_bit n a OR b" by (rule disjunctive_add)
  then show ?thesis by (simp add: push_bit_eq_mult)
qed

lemma and_low: "(x :: nat) AND 3 = x mod 4" "(x :: nat) AND 31 = x mod 32"
proof -
  have "(3::nat) = mask 2" "(31::nat) = mask 5" by (simp_all add: mask_eq_exp_minus_1)
  then show "x AND 3 = x mod 4" "x AND 31 = x mod 32"
    by (simp_all only: take_bit_eq_mask [symmetric]) (simp_all add: take_bit_eq_mod)
qed

text \<open>Tiles of 128 rows and 4 columns; the code's layouts have this shape while nothing wraps.\<close>

definition tiled :: "nat \<Rightarrow> nat \<Rightarrow> cutlass_layout \<Rightarrow> bool" where
  "tiled M K l \<longleftrightarrow> cl_scale_rows l = 128 * M \<and> cl_scale_cols l = 4 * K \<and> cl_scale_k_tiles l = K \<and>
     512 * (M * K) \<le> u64_max"

definition tile_offset :: "nat \<Rightarrow> nat \<times> nat \<Rightarrow> nat" where
  "tile_offset K cell =
     (case cell of (row, k) \<Rightarrow>
       (((row div 128 * K + k div 4) * 32 + row mod 32) * 4 + row div 32 mod 4) * 4 + k mod 4)"

definition tile_cell :: "nat \<Rightarrow> nat \<Rightarrow> nat \<times> nat" where
  "tile_cell K i =
     (let x = i div 4 div 4 div 32
      in (x div K * 128 + i div 4 mod 4 * 32 + i div 4 div 4 mod 32, x mod K * 4 + i mod 4))"

lemma tile_bound:
  fixes row k M K :: nat
  assumes "row < 128 * M" "k < 4 * K"
  shows "row div 128 * K + k div 4 < M * K"
proof -
  from assms have "row div 128 < M" "k div 4 < K" by (simp_all add: less_mult_imp_div_less mult.commute)
  then have "(row div 128 + 1) * K \<le> M * K" by (intro mult_le_mono1) simp
  with \<open>k div 4 < K\<close> show ?thesis by simp
qed

lemma unpack_digit: "c < m \<Longrightarrow> (x * m + c) div m = x" "c < m \<Longrightarrow> (x * m + c) mod m = (c :: nat)"
  by simp_all

lemma tile_cell_offset:
  assumes "k < 4 * K"
  shows "tile_cell K (tile_offset K (row, k)) = (row, k)"
proof -
  have "k div 4 < K" using assms by (simp add: less_mult_imp_div_less mult.commute)
  then have "(row div 128 * K + k div 4) div K = row div 128" "(row div 128 * K + k div 4) mod K = k div 4" by simp_all
  moreover have "row div 128 * 128 + row div 32 mod 4 * 32 + row mod 32 = row"
  proof -
    have "row div 128 = row div 32 div 4" by (simp add: div_mult2_eq [symmetric])
    moreover have "row div 32 div 4 * 4 + row div 32 mod 4 = row div 32" "row div 32 * 32 + row mod 32 = row" by simp_all
    ultimately show ?thesis by linarith
  qed
  moreover have "row mod 32 < 32" "row div 32 mod 4 < 4" "k mod 4 < 4" by simp_all
  ultimately show ?thesis
    unfolding tile_cell_def tile_offset_def Let_def prod.case by (simp only: unpack_digit) simp
qed

lemma swizzled_exact:
  assumes "tiled M K l" "row < 128 * M" "k < 4 * K"
  shows "swizzled_scale_offset l row k = Inr (tile_offset K (row, k)) \<and> tile_offset K (row, k) < 512 * (M * K)"
proof -
  let ?x = "row div 128 * K + k div 4"
  have x: "?x < M * K" by (rule tile_bound [OF assms(2, 3)])
  have "512 * ?x \<le> u64_max" using x assms(1) by (simp add: tiled_def)
  then have wrap: "wrap64 (push_bit 9 ?x) = push_bit 9 ?x"
    by (simp add: wrap64_def push_bit_eq_mult mult.commute)
  define a b c where "a = row mod 32" and "b = row div 32 mod 4" and "c = k mod 4"
  then have abc: "a < 32" "b < 4" "c < 4" by simp_all
  have "push_bit 2 b OR c = b * 4 + c" using push_or [of c 2 b] abc by simp
  moreover from this have "push_bit 4 a OR (push_bit 2 b OR c) = a * 16 + (b * 4 + c)"
    using push_or [of "b * 4 + c" 4 a] abc by simp
  ultimately have "push_bit 9 ?x OR (push_bit 4 a OR (push_bit 2 b OR c)) = ?x * 512 + (a * 16 + (b * 4 + c))"
    using push_or [of "a * 16 + (b * 4 + c)" 9 ?x] abc by simp
  moreover have offset: "tile_offset K (row, k) = ?x * 512 + (a * 16 + (b * 4 + c))"
    by (simp add: tile_offset_def a_def b_def c_def)
  moreover have "tile_offset K (row, k) < 512 * (M * K)"
  proof -
    from x have "(?x + 1) * 512 \<le> M * K * 512" by (intro mult_le_mono1) simp
    then show ?thesis unfolding offset using abc by (simp only: distrib_right mult.commute [of 512])
  qed
  ultimately show ?thesis
    using assms(1-3) wrap
    by (simp add: swizzled_scale_offset_def tiled_def and_low drop_bit_eq_div Let_def or.assoc a_def b_def c_def)
qed


lemma swizzle_bij:
  "bij_betw (tile_offset K) ({..<128 * M} \<times> {..<4 * K}) {..<512 * (M * K)}"
proof (rule bij_betw_imageI)
  show inj: "inj_on (tile_offset K) ({..<128 * M} \<times> {..<4 * K})"
    by (rule inj_on_inverseI [where g = "tile_cell K"]) (auto simp: tile_cell_offset)
  have "tile_offset K (row, k) < 512 * (M * K)" if "row < 128 * M" "k < 4 * K" for row k
  proof -
    from tile_bound [OF that] have "(row div 128 * K + k div 4 + 1) * 512 \<le> M * K * 512" by (intro mult_le_mono1) simp
    moreover have "tile_offset K (row, k) = (row div 128 * K + k div 4) * 512 + (row mod 32 * 16 + (row div 32 mod 4 * 4 + k mod 4))"
      by (simp add: tile_offset_def)
    moreover have "row mod 32 < 32" "row div 32 mod 4 < 4" "k mod 4 < 4" by simp_all
    ultimately show ?thesis by (simp only: distrib_right mult.commute [of 512])
  qed
  then have "tile_offset K ` ({..<128 * M} \<times> {..<4 * K}) \<subseteq> {..<512 * (M * K)}" by auto
  moreover have "card (tile_offset K ` ({..<128 * M} \<times> {..<4 * K})) = card {..<512 * (M * K)}"
    using card_image [OF inj] by (simp add: card_cartesian_product)
  ultimately show "tile_offset K ` ({..<128 * M} \<times> {..<4 * K}) = {..<512 * (M * K)}"
    by (intro card_subset_eq) simp_all
qed

lemma round_up_exact:
  assumes "0 < a" "value + a - 1 \<le> u64_max"
  shows "round_up value a = (value + a - 1) div a * a" "value \<le> round_up value a"
proof -
  have ceil: "div_ceil value a = (value + a - 1) div a"
    using assms(1) by (simp add: div_ceil_def)
  have "(value + a - 1) div a * a \<le> value + a - 1" by simp
  then have "(value + a - 1) div a * a \<le> u64_max" using assms(2) by linarith
  then show eq: "round_up value a = (value + a - 1) div a * a"
    by (simp add: round_up_def ceil wrap64_def)
  have "value + a - 1 < ((value + a - 1) div a + 1) * a" by (metis Suc_eq_plus1 assms(1) dividend_less_div_times add.commute mult_Suc)
  then show "value \<le> round_up value a" unfolding eq using assms(1) by (simp add: distrib_right)
qed


lemma for_weight_tiled:
  assumes "for_weight spec = Inr l" "(nv_rows spec + 127) * (nv_cols spec div 16 + 3) \<le> u64_max"
  obtains M K where "tiled M K l" "nv_rows spec \<le> 128 * M" "nv_cols spec div 16 \<le> 4 * K"
    "cl_source_scale_cols l = nv_cols spec div 16" "payload_bytes l = wrap64 (nv_rows spec * packed_cols spec)"
    "scale_bytes l = 512 * (M * K)"
proof -
  let ?r = "nv_rows spec" and ?s = "nv_cols spec div 16"
  define M K where "M = (?r + 127) div 128" and "K = (3 + ?s) div 4"
  have le: "?r + 127 \<le> u64_max" "?s + 3 \<le> u64_max"
  proof -
    have "x \<le> x * (y + 3)" "y + 3 \<le> (x + 127) * (y + 3)" for x y :: nat by simp_all
    note grow = this
    show "?r + 127 \<le> u64_max" by (rule order_trans [OF grow(1) assms(2)])
    show "?s + 3 \<le> u64_max" by (rule order_trans [OF grow(2) assms(2)])
  qed
  have rows: "round_up ?r 128 = 128 * M" "?r \<le> 128 * M"
    using round_up_exact [of 128 ?r] le(1) by (simp_all add: M_def mult.commute)
  have cols: "round_up ?s 4 = 4 * K" "?s \<le> 4 * K"
    using round_up_exact [of 4 ?s] le(2) by (simp_all add: K_def mult.commute)
  have "128 * M \<le> ?r + 127" "4 * K \<le> ?s + 3" by (simp_all add: M_def K_def)
  then have "128 * M * (4 * K) \<le> (?r + 127) * (?s + 3)" by (intro mult_le_mono)
  then have small: "512 * (M * K) \<le> u64_max" using assms(2) by (simp add: ac_simps)
  from assms(1) have l: "l = \<lparr>cl_logical_n = ?r, cl_logical_k = nv_cols spec, cl_packed_k_cols = packed_cols spec,
      cl_source_scale_cols = ?s, cl_scale_rows = 128 * M, cl_scale_cols = 4 * K, cl_scale_k_tiles = K\<rparr>"
    by (simp add: for_weight_def Let_def alignments rows cols split: if_splits)
  show thesis
  proof (rule that [of M K])
    show "tiled M K l" using small by (simp add: l tiled_def)
    show "scale_bytes l = 512 * (M * K)" using small by (simp add: l scale_bytes_def wrap64_def ac_simps)
  qed (use rows cols in \<open>simp_all add: l payload_bytes_def\<close>)
qed

text \<open>
  The interleaved scale layout is a bijection: every cell of the padded scale matrix has an offset
  of its own, and the offsets are exactly the bytes of the buffer.
\<close>

theorem cutlass_offsets_bijective:
  assumes "for_weight spec = Inr l" "(nv_rows spec + 127) * (nv_cols spec div 16 + 3) \<le> u64_max"
  shows "\<exists>f. (\<forall>row < cl_scale_rows l. \<forall>k < cl_scale_cols l. swizzled_scale_offset l row k = Inr (f (row, k))) \<and>
    bij_betw f ({..<cl_scale_rows l} \<times> {..<cl_scale_cols l}) {..<scale_bytes l}"
proof -
  obtain M K where l: "tiled M K l" "scale_bytes l = 512 * (M * K)"
    using for_weight_tiled [OF assms] by metis
  then show ?thesis
    using swizzled_exact [OF l(1)] swizzle_bij [of K M]
    by (intro exI [of _ "tile_offset K"]) (simp add: tiled_def)
qed

section \<open>The repacked scales\<close>

lemma copy_scales_result:
  assumes "\<And>cell. cell \<in> set cells \<Longrightarrow> swizzled_scale_offset l (fst cell) (snd cell) = Inr (f cell)"
    and "\<And>cell. cell \<in> set cells \<Longrightarrow> f cell < length out"
    and "\<And>cell. cell \<in> set cells \<Longrightarrow> fst cell * cl_source_scale_cols l + snd cell < length scales"
    and "inj_on f (set cells)" "distinct cells"
  shows "\<exists>out'. copy_scales l scales cells out = Some (Inr out') \<and> length out' = length out \<and>
    (\<forall>cell \<in> set cells. out' ! f cell = scales ! (fst cell * cl_source_scale_cols l + snd cell)) \<and>
    (\<forall>i < length out. i \<notin> f ` set cells \<longrightarrow> out' ! i = out ! i)"
  using assms
proof (induction cells arbitrary: out)
  case (Cons cell cells)
  let ?v = "scales ! (fst cell * cl_source_scale_cols l + snd cell)"
  have "copy_scale l scales cell out = Some (Inr (out[f cell := ?v]))"
    using Cons.prems(1) [of cell] Cons.prems(2) [of cell] Cons.prems(3) [of cell]
    by (cases cell) (simp add: copy_scale_def Let_def)
  moreover obtain out' where out': "copy_scales l scales cells (out[f cell := ?v]) = Some (Inr out')"
    "length out' = length out"
    "\<forall>c \<in> set cells. out' ! f c = scales ! (fst c * cl_source_scale_cols l + snd c)"
    "\<forall>i < length out. i \<notin> f ` set cells \<longrightarrow> out' ! i = out[f cell := ?v] ! i"
    using Cons.IH [of "out[f cell := ?v]"] Cons.prems by auto
  moreover have "f cell \<notin> f ` set cells" using Cons.prems(4, 5) by auto
  moreover have "f cell < length out" using Cons.prems(2) by simp
  ultimately show ?case by auto
qed simp

lemma scale_cells_facts:
  "set (scale_cells rows cols) = {..<rows} \<times> {..<cols}" "distinct (scale_cells rows cols)"
proof -
  show "set (scale_cells rows cols) = {..<rows} \<times> {..<cols}" by (auto simp: scale_cells_def)
  moreover have "length (scale_cells rows cols) = rows * cols"
    by (simp add: scale_cells_def length_concat o_def sum_list_triv)
  ultimately show "distinct (scale_cells rows cols)"
    by (intro card_distinct) (simp add: card_cartesian_product)
qed

lemma scales_copied:
  assumes t: "tiled M K l" "r \<le> 128 * M" "s \<le> 4 * K" "cl_source_scale_cols l = s" "scale_bytes l = 512 * (M * K)"
    "length scales = r * s"
  obtains out' where "copy_scales l scales (scale_cells r s) (replicate (scale_bytes l) 0) = Some (Inr out')"
    "length out' = scale_bytes l"
    "\<And>row k. row < r \<Longrightarrow> k < s \<Longrightarrow> out' ! tile_offset K (row, k) = scales ! (row * s + k)"
    "\<And>i. i < scale_bytes l \<Longrightarrow> i \<notin> tile_offset K ` ({..<r} \<times> {..<s}) \<Longrightarrow> out' ! i = 0"
proof -
  have cell: "fst c < 128 * M \<and> snd c < 4 * K \<and> fst c < r \<and> snd c < s" if "c \<in> set (scale_cells r s)" for c
    using that t(2, 3) unfolding scale_cells_facts by auto
  have "\<exists>out'. copy_scales l scales (scale_cells r s) (replicate (scale_bytes l) 0) = Some (Inr out') \<and>
      length out' = length (replicate (scale_bytes l) (0::nat)) \<and>
      (\<forall>c \<in> set (scale_cells r s). out' ! tile_offset K c = scales ! (fst c * cl_source_scale_cols l + snd c)) \<and>
      (\<forall>i < length (replicate (scale_bytes l) (0::nat)). i \<notin> tile_offset K ` set (scale_cells r s) \<longrightarrow>
         out' ! i = replicate (scale_bytes l) 0 ! i)"
  proof (rule copy_scales_result)
    fix c assume c: "c \<in> set (scale_cells r s)"
    note sw = swizzled_exact [OF t(1), of "fst c" "snd c"]
    show "swizzled_scale_offset l (fst c) (snd c) = Inr (tile_offset K c)" using sw cell [OF c] by simp
    show "tile_offset K c < length (replicate (scale_bytes l) 0)" using sw cell [OF c] t(5) by simp
    have "(fst c + 1) * s \<le> r * s" using cell [OF c] by (intro mult_le_mono1) simp
    then show "fst c * cl_source_scale_cols l + snd c < length scales" using cell [OF c] t(4) t(6) by simp
  next
    have "set (scale_cells r s) \<subseteq> {..<128 * M} \<times> {..<4 * K}" using t(2, 3) unfolding scale_cells_facts by auto
    then show "inj_on (tile_offset K) (set (scale_cells r s))"
      using swizzle_bij [of K M] by (meson bij_betw_def inj_on_subset)
  qed (rule scale_cells_facts)
  then show ?thesis
    using that unfolding scale_cells_facts t(4) by auto
qed

text \<open>
  C31: repacking a linear whose columns are a multiple of 64 and whose rows are a multiple of 32 never fails or panics on buffers of the
  right size, while the padded scale counts fit 64 bits: it keeps the payload, stores the scale of every row and group of columns at its
  interleaved offset, and fills the padding with zeros.
\<close>

theorem cutlass_repack_places_scales:
  assumes "nv_cols spec mod 64 = 0" "nv_rows spec mod 32 = 0"
    and "(nv_rows spec + 127) * (nv_cols spec div 16 + 3) \<le> u64_max"
    and "length packed = wrap64 (nv_rows spec * packed_cols spec)"
    and "length scales = nv_rows spec * (nv_cols spec div 16)"
  shows "\<exists>h f. repack_cutlass spec packed scales = Some (Inr h) \<and> ch_payload_e2m1 h = packed \<and>
    length (ch_scales_ue4m3 h) = scale_bytes (ch_layout h) \<and>
    (\<forall>row < nv_rows spec. \<forall>k < nv_cols spec div 16.
       swizzled_scale_offset (ch_layout h) row k = Inr (f (row, k)) \<and>
       ch_scales_ue4m3 h ! f (row, k) = scales ! (row * (nv_cols spec div 16) + k)) \<and>
    (\<forall>i < scale_bytes (ch_layout h).
       i \<notin> f ` ({..<nv_rows spec} \<times> {..<nv_cols spec div 16}) \<longrightarrow> ch_scales_ue4m3 h ! i = 0)"
proof -
  let ?r = "nv_rows spec" and ?s = "nv_cols spec div 16"
  have "nv_cols spec mod 32 = 0" using assms(1) by presburger
  then obtain l where l: "for_weight spec = Inr l"
    using assms(2) by (simp add: for_weight_def Let_def alignments)
  obtain M K where t: "tiled M K l" "?r \<le> 128 * M" "?s \<le> 4 * K" "cl_source_scale_cols l = ?s"
    "payload_bytes l = wrap64 (?r * packed_cols spec)" "scale_bytes l = 512 * (M * K)"
    by (rule for_weight_tiled [OF l assms(3)])
  have "scale_cols spec = ?s"
  proof -
    from assms(1) obtain q where "nv_cols spec = 64 * q" by auto
    then show ?thesis by (simp add: scale_cols_def QK_NVFP4_def QK_NVFP4_SUB_def)
  qed
  moreover have "?r * ?s \<le> u64_max"
    using assms(3) mult_le_mono [of ?r "?r + 127" ?s "?s + 3"] by linarith
  ultimately have expected: "length scales = wrap64 (?r * scale_cols spec)" using assms(5) by (simp add: wrap64_def)
  obtain out' where out': "copy_scales l scales (scale_cells ?r ?s) (replicate (scale_bytes l) 0) = Some (Inr out')"
    "length out' = scale_bytes l"
    "\<And>row k. row < ?r \<Longrightarrow> k < ?s \<Longrightarrow> out' ! tile_offset K (row, k) = scales ! (row * ?s + k)"
    "\<And>i. i < scale_bytes l \<Longrightarrow> i \<notin> tile_offset K ` ({..<?r} \<times> {..<?s}) \<Longrightarrow> out' ! i = 0"
    by (rule scales_copied [OF t(1-4,6) assms(5)], rule that) blast+
  have "repack_cutlass spec packed scales
      = Some (Inr \<lparr>ch_layout = l, ch_payload_e2m1 = packed, ch_scales_ue4m3 = out'\<rparr>)"
    using out'(1) assms(4) expected t(5) by (simp add: repack_cutlass_def l t(4))
  moreover have "swizzled_scale_offset l row k = Inr (tile_offset K (row, k))" if "row < ?r" "k < ?s" for row k
    using swizzled_exact [OF t(1), of row k] that t(2, 3) by simp
  ultimately show ?thesis
    using out'(2-4) by (intro exI conjI) auto
qed


definition demo_linear :: "nat \<Rightarrow> nat \<Rightarrow> unit nvfp4_linear_spec" where
  "demo_linear rows cols = \<lparr>nv_name = ''proj'', nv_rows = rows, nv_cols = cols, nv_packed_bytes = rows * (cols div 2),
     nv_scale_bytes = rows * (cols div 16), nv_input_scale = (), nv_output_scale = ()\<rparr>"

lemma demo_linear_simps [simp]:
  "nv_rows (demo_linear rows cols) = rows" "nv_cols (demo_linear rows cols) = cols"
  "packed_cols (demo_linear rows cols) = cols div 2"
  by (simp_all add: demo_linear_def packed_cols_def)

lemma cutlass_offsets_bijective_witness:
  "\<exists>l f. for_weight (demo_linear 32 64) = Inr l \<and>
    (\<forall>row < cl_scale_rows l. \<forall>k < cl_scale_cols l. swizzled_scale_offset l row k = Inr (f (row, k))) \<and>
    bij_betw f ({..<cl_scale_rows l} \<times> {..<cl_scale_cols l}) {..<scale_bytes l}"
proof -
  obtain l where l: "for_weight (demo_linear 32 64) = Inr l"
    by (simp add: for_weight_def Let_def alignments)
  then show ?thesis
    using cutlass_offsets_bijective [OF l] by (auto simp: u64_max_def)
qed

lemma cutlass_repack_places_scales_witness:
  "\<exists>h f. repack_cutlass (demo_linear 32 64) (replicate 1024 1) (replicate 128 2) = Some (Inr h) \<and>
    ch_payload_e2m1 h = replicate 1024 1 \<and>
    (\<forall>row < 32. \<forall>k < 4. ch_scales_ue4m3 h ! f (row, k) = 2)"
proof -
  have "row * 4 + k < (128::nat)" if "row < 32" "k < 4" for row k using that by linarith
  then show ?thesis
    using cutlass_repack_places_scales [of "demo_linear 32 64" "replicate 1024 1" "replicate 128 2"]
    by (fastforce simp: u64_max_def wrap64_def)
qed

text \<open>
  A linear of 32 by 32 passes the layout's own check that K is a multiple of 32, and the repacking
  panics: the scale count is checked against \<^verbatim>\<open>cols / 64 * 4\<close> columns while the loop
  reads \<^verbatim>\<open>cols / 16\<close>.
\<close>

theorem cutlass_repack_odd_half_block:
  "\<exists>l. for_weight (demo_linear 32 32) = Inr l \<and>
    repack_cutlass (demo_linear 32 32) (replicate 512 0) [] = None"
proof -
  obtain l where l: "for_weight (demo_linear 32 32) = Inr l" "cl_source_scale_cols l = 2"
    "payload_bytes l = 512" "swizzled_scale_offset l 0 0 = Inr 0"
    by (simp add: for_weight_def Let_def alignments payload_bytes_def wrap64_def u64_max_def round_up_def div_ceil_def
          swizzled_scale_offset_def)
  moreover have "copy_scales l [] (scale_cells 32 2) out = None" for out
  proof -
    have "scale_cells 32 2 = (0, 0) # tl (scale_cells 32 2)" by (simp add: scale_cells_def upt_conv_Cons)
    moreover have "copy_scales l [] ((0, 0) # cells) out = None" for cells
      by (simp add: copy_scale_def l)
    ultimately show ?thesis by metis
  qed
  ultimately show ?thesis
    by (auto simp: repack_cutlass_def scale_cols_def QK_NVFP4_def QK_NVFP4_SUB_def wrap64_def)
qed

end
