(* ===== verification/RepackCache.thy ===== *)
theory RepackCache
  imports Repack
begin

text \<open>
  Repacking NVFP4 weights for the GPU (\<^verbatim>\<open>aegisllm-cuda/src/cuda/repack.rs\<close>), second part:
  the conversion to MXFP4 blocks and the cache of repacked weights on disk. The \<^verbatim>\<open>f32\<close>
  values are rational numbers: a decoded weight is a multiple of \<open>2 powi (-10)\<close> of size at most 2688 and
  every scale is a power of two below \<open>2 powi 9\<close>, so each product and difference the code forms fits
  the 24 bits of a mantissa and is exact. The file system is a map from paths to bytes, and an argument
  says which of its calls fail. \<open>None\<close> is a panic.
\<close>

section \<open>MXFP4 blocks\<close>

definition decode_nvfp4_nibble_host :: "nat \<Rightarrow> rat" where
  "decode_nvfp4_nibble_host nibble =
     [0, 1, 2, 3, 4, 6, 8, 12, 0, -1, -2, -3, -4, -6, -8, -12] ! (nibble AND 15)"

definition decode_ue4m3_half_host :: "nat \<Rightarrow> rat" where
  "decode_ue4m3_half_host byte0 =
     (let byte = byte0 AND 127
      in if byte = 0 \<or> byte = 127 then 0
         else let exponent = drop_bit 3 byte AND 15;
                  mantissa = of_nat (byte AND 7);
                  raw = (if exponent = 0 then mantissa * 2 powi (-9)
                         else (1 + mantissa / 8) * 2 powi (int exponent - 7))
              in raw * (1 / 2))"

text \<open>\<^verbatim>\<open>log2().ceil()\<close> on a positive \<^verbatim>\<open>f32\<close>: the first power of two that reaches it.\<close>

definition log2_ceil :: "rat \<Rightarrow> int" where
  "log2_ceil q = (case find (\<lambda>e. q \<le> 2 powi e) [-149..127] of Some e \<Rightarrow> e | None \<Rightarrow> 128)"

definition compute_e8m0_scale_host :: "rat \<Rightarrow> nat" where
  "compute_e8m0_scale_host amax =
     (if amax \<le> 0 then 0 else nat (max 0 (min 254 (log2_ceil (amax / 6) + 127))))"

definition e8m0_to_f32_half_host :: "nat \<Rightarrow> rat" where
  "e8m0_to_f32_half_host e =
     (if e = 0 then 2 powi (-128) else if e = 1 then 2 powi (-127) else 2 powi (int e - 128))"

text \<open>The loop over the sixteen indices; no error yet is the infinite one.\<close>

fun best_index_loop :: "rat \<Rightarrow> rat \<Rightarrow> nat list \<Rightarrow> nat \<Rightarrow> rat option \<Rightarrow> nat" where
  "best_index_loop value scale [] best best_err = best"
| "best_index_loop value scale (idx # rest) best best_err =
     (let candidate = decode_nvfp4_nibble_host idx * scale;
          err = \<bar>candidate - value\<bar>
      in if (case best_err of None \<Rightarrow> True | Some e \<Rightarrow> err < e)
         then best_index_loop value scale rest idx (Some err)
         else best_index_loop value scale rest best best_err)"

definition best_mxfp4_index :: "rat \<Rightarrow> rat \<Rightarrow> nat" where
  "best_mxfp4_index value scale = (if scale = 0 then 0 else best_index_loop value scale [0..<16] 0 None)"

definition block_value :: "nat list \<Rightarrow> nat list \<Rightarrow> nat \<Rightarrow> rat" where
  "block_value packed_row scale_row col =
     (let group = col div 16;
          lane_in_group = col mod 16;
          byte = packed_row ! (group * 8 + lane_in_group div 2);
          nibble = (if lane_in_group mod 2 = 0 then byte AND 15 else drop_bit 4 byte);
          scale = decode_ue4m3_half_host (scale_row ! group)
      in decode_nvfp4_nibble_host nibble * scale)"

text \<open>One pass of the block loop: the scale byte and sixteen bytes of two lanes each.\<close>

definition mxfp4_block :: "nat list \<Rightarrow> nat list \<Rightarrow> nat \<Rightarrow> nat list" where
  "mxfp4_block packed_row scale_row block =
     (let values = map (\<lambda>lane. block_value packed_row scale_row (block * 32 + lane)) [0..<32];
          amax = foldl (\<lambda>amax value. max amax \<bar>value\<bar>) 0 values;
          e = compute_e8m0_scale_host amax;
          d = e8m0_to_f32_half_host e
      in e # map (\<lambda>lane. best_mxfp4_index (values ! lane) d
                     OR push_bit 4 (best_mxfp4_index (values ! (lane + 16)) d)) [0..<16])"

definition row_slice :: "nat list \<Rightarrow> nat \<Rightarrow> nat \<Rightarrow> nat list" where
  "row_slice xs row n = take n (drop (row * n) xs)"

text \<open>
  A buffer that matches a row count whose size wrapped is shorter than its rows: slicing it is a panic.
\<close>

definition repack_nvfp4_to_mxfp4_host ::
  "'f nvfp4_linear_spec \<Rightarrow> nat list \<Rightarrow> nat list \<Rightarrow> nat list aegis_result option" where
  "repack_nvfp4_to_mxfp4_host spec packed scales =
     (if nv_cols spec mod 32 \<noteq> 0
      then Some (Inl (InvalidPlan (''`'' @ nv_name spec @ ''` native MXFP4 repack requires cols divisible by 32, got ''
             @ show_nat (nv_cols spec))))
      else let packed_cols = nv_cols spec div 2;
               nvfp4_scale_cols = nv_cols spec div 16;
               blocks_per_row = nv_cols spec div 32
           in if length packed \<noteq> wrap64 (nv_rows spec * packed_cols)
                 \<or> length scales \<noteq> wrap64 (nv_rows spec * nvfp4_scale_cols)
              then Some (Inl (InvalidPlan (''`'' @ nv_name spec @ ''` native MXFP4 repack shape mismatch: packed=''
                     @ show_nat (length packed) @ '' expected='' @ show_nat (wrap64 (nv_rows spec * packed_cols))
                     @ '' scales='' @ show_nat (length scales) @ '' expected=''
                     @ show_nat (wrap64 (nv_rows spec * nvfp4_scale_cols)))))
              else if nv_rows spec * packed_cols > u64_max then None
              else Some (Inr (concat (map (\<lambda>row. concat (map (mxfp4_block (row_slice packed row packed_cols)
                     (row_slice scales row nvfp4_scale_cols)) [0..<blocks_per_row])) [0..<nv_rows spec]))))"

definition expected_mxfp4_bytes :: "'f nvfp4_linear_spec \<Rightarrow> nat aegis_result" where
  "expected_mxfp4_bytes spec =
     (if nv_cols spec mod 32 \<noteq> 0
      then Inl (InvalidPlan (''`'' @ nv_name spec @ ''` native MXFP4 repack requires cols divisible by 32, got ''
             @ show_nat (nv_cols spec)))
      else Inr (wrap64 (nv_rows spec * (nv_cols spec div 32) * 17)))"

section \<open>The nearest representable value\<close>

definition mx_err :: "rat \<Rightarrow> rat \<Rightarrow> nat \<Rightarrow> rat" where
  "mx_err x scale idx = \<bar>decode_nvfp4_nibble_host idx * scale - x\<bar>"

lemma best_index_loop_nearest:
  "case best_err of None \<Rightarrow> idxs \<noteq> [] | Some e \<Rightarrow> e = mx_err x scale best \<Longrightarrow>
   best_index_loop x scale idxs best best_err \<in> insert best (set idxs) \<and>
   (\<forall>idx \<in> (if best_err = None then set idxs else insert best (set idxs)).
      mx_err x scale (best_index_loop x scale idxs best best_err) \<le> mx_err x scale idx)"
proof (induction idxs arbitrary: best best_err)
  case (Cons idx idxs)
  show ?case
  proof (cases best_err)
    case None
    then show ?thesis
      using Cons.IH [where best_err = "Some (mx_err x scale idx)" and best = idx] by (auto simp: mx_err_def [symmetric] Let_def)
  next
    case (Some e)
    show ?thesis
    proof (cases "mx_err x scale idx < e")
      case True
      then show ?thesis
        using True Cons.prems Some Cons.IH [where best_err = "Some (mx_err x scale idx)" and best = idx]
        by (auto simp: mx_err_def [symmetric] Let_def intro: order_trans less_imp_le)
    next
      case False
      then show ?thesis
        using False Cons.prems Some Cons.IH [where best_err = best_err and best = best]
        by (auto simp: mx_err_def [symmetric] Let_def intro: order_trans)
    qed
  qed
qed auto

lemma best_mxfp4_index_nearest:
  assumes "scale \<noteq> 0"
  shows "best_mxfp4_index x scale < 16"
    "idx < 16 \<Longrightarrow> mx_err x scale (best_mxfp4_index x scale) \<le> mx_err x scale idx"
  using best_index_loop_nearest [where best_err = None and idxs = "[0..<16]" and x = x and scale = scale and best = 0] assms
  by (auto simp: best_mxfp4_index_def)

lemma decode_nibble_codes [simp]:
  "decode_nvfp4_nibble_host 0 = 0" "decode_nvfp4_nibble_host (Suc 0) = 1" "decode_nvfp4_nibble_host 2 = 2"
  "decode_nvfp4_nibble_host 3 = 3" "decode_nvfp4_nibble_host 4 = 4" "decode_nvfp4_nibble_host 5 = 6"
  "decode_nvfp4_nibble_host 6 = 8" "decode_nvfp4_nibble_host 7 = 12"
  "decode_nvfp4_nibble_host 9 = - 1" "decode_nvfp4_nibble_host 10 = - 2" "decode_nvfp4_nibble_host 11 = - 3"
  "decode_nvfp4_nibble_host 12 = - 4" "decode_nvfp4_nibble_host 13 = - 6" "decode_nvfp4_nibble_host 14 = - 8"
  "decode_nvfp4_nibble_host 15 = - 12"
  by (simp_all add: decode_nvfp4_nibble_host_def)

text \<open>Every value the scale can reach is within two units of a candidate.\<close>

lemma candidate_near:
  fixes x scale :: rat
  assumes "0 < scale" "\<bar>x\<bar> \<le> 12 * scale"
  shows "\<exists>idx < 16. mx_err x scale idx \<le> 2 * scale"
proof -
  have pos: "\<exists>idx < 8. mx_err v scale idx \<le> 2 * scale" if "0 \<le> v" "v \<le> 12 * scale" for v
  proof -
    consider "v \<le> 2 * scale" | "2 * scale < v" "v \<le> 6 * scale" | "6 * scale < v" "v \<le> 10 * scale" | "10 * scale < v"
      by linarith
    then show ?thesis
    proof cases
      case 1 then show ?thesis using that by (intro exI [of _ 0]) (simp add: mx_err_def)
    next
      case 2 then show ?thesis using that by (intro exI [of _ 4]) (auto simp: mx_err_def abs_le_iff)
    next
      case 3 then show ?thesis using that by (intro exI [of _ 6]) (auto simp: mx_err_def abs_le_iff)
    next
      case 4 then show ?thesis using that by (intro exI [of _ 7]) (auto simp: mx_err_def abs_le_iff)
    qed
  qed
  show ?thesis
  proof (cases "0 \<le> x")
    case True
    then obtain idx where "idx < 8" "mx_err x scale idx \<le> 2 * scale"
      using pos [of x] assms by auto
    then show ?thesis by (intro exI [of _ idx]) simp
  next
    case False
    then obtain idx where idx: "idx < 8" "mx_err (- x) scale idx \<le> 2 * scale"
      using pos [of "- x"] assms by auto
    have "decode_nvfp4_nibble_host (idx + 8) = - decode_nvfp4_nibble_host idx"
    proof -
      have "idx \<in> {0, 1, 2, 3, 4, 5, 6, 7}" using idx(1) by auto
      then show ?thesis by (auto simp: decode_nvfp4_nibble_host_def)
    qed
    then have "mx_err x scale (idx + 8) = mx_err (- x) scale idx"
      by (simp add: mx_err_def abs_if algebra_simps)
    then show ?thesis using idx by (intro exI [of _ "idx + 8"]) simp
  qed
qed

section \<open>The scale of a block\<close>

lemma log2_ceil_bounds:
  assumes "2 powi (-150) < q" "q \<le> 2 powi 127"
  shows "q \<le> 2 powi (log2_ceil q)" "2 powi (log2_ceil q - 1) < q"
proof -
  let ?P = "\<lambda>e. q \<le> 2 powi e"
  have "127 \<in> set [-149..127::int]" unfolding set_upto by simp
  then have "find ?P [-149..127] \<noteq> None" using assms(2) unfolding find_None_iff by blast
  then obtain e where e: "find ?P [-149..127] = Some e" by blast
  then obtain i where i: "i < length [-149..127::int]" "e = [-149..127] ! i" "q \<le> 2 powi e"
    "\<And>j. j < i \<Longrightarrow> \<not> q \<le> 2 powi ([-149..127] ! j)"
    unfolding find_Some_iff by blast
  have nth: "[-149..127] ! j = int j - 149" if "j < length [-149..127::int]" for j
    using nth_upto [of "-149" j 127] that unfolding length_upto by simp
  have L: "log2_ceil q = e" using e by (simp add: log2_ceil_def)
  show "q \<le> 2 powi (log2_ceil q)" using i(3) L by simp
  have "\<not> q \<le> 2 powi (e - 1)"
  proof (cases i)
    case 0
    then have "e = -149" using i(2) nth [of 0] i(1) by simp
    then show ?thesis using assms(1) by simp
  next
    case (Suc j)
    then have "[-149..127] ! j = e - 1" using nth [of j] nth [of i] i(1, 2) by simp
    then show ?thesis using i(4) [of j] Suc by simp
  qed
  then show "2 powi (log2_ceil q - 1) < q" using L by simp
qed

lemma low_bits:
  "(x :: nat) AND 7 = x mod 8" "(x :: nat) AND 15 = x mod 16" "(x :: nat) AND 127 = x mod 128"
  using take_bit_eq_mask [of 3 x] take_bit_eq_mask [of 4 x] take_bit_eq_mask [of 7 x]
  by (simp_all add: take_bit_eq_mod mask_eq_exp_minus_1)

lemma decode_ue4m3_range:
  "decode_ue4m3_half_host byte = 0 \<or>
   1 / 1024 \<le> decode_ue4m3_half_host byte \<and> decode_ue4m3_half_host byte \<le> 240"
proof (cases "byte AND 127 = 0 \<or> byte AND 127 = 127")
  case False
  define b where "b = byte AND 127"
  define m where "m = b AND 7"
  define ex where "ex = drop_bit 3 b AND 15"
  have mask: "b = byte mod 128" "m = b mod 8" "ex = b div 8 mod 16"
    by (simp_all add: b_def m_def ex_def low_bits drop_bit_eq_div)
  have b: "b \<noteq> 0" "b \<noteq> 127" "b < 128" using False mask by (auto simp: b_def)
  have m: "real m \<le> 7" "(of_nat m :: rat) \<le> 7" "m \<le> 7" using mask by auto
  have dec: "decode_ue4m3_half_host byte =
      (if ex = 0 then of_nat m * 2 powi (-9) else (1 + of_nat m / 8) * 2 powi (int ex - 7)) * (1 / 2)"
    using b unfolding decode_ue4m3_half_host_def b_def [symmetric] m_def [symmetric] ex_def [symmetric] Let_def by simp
  show ?thesis
  proof (cases "ex = 0")
    case True
    then have "1 \<le> m" using b mask by auto
    then have "(1::rat) \<le> of_nat m" by simp
    then show ?thesis using dec True m by (auto simp: power_int_minus)
  next
    case False
    have "(2::rat) powi (-6) \<le> 2 powi (int ex - 7)" using False by (intro power_int_increasing) auto
    moreover have "(2::rat) powi (int ex - 7) \<le> 2 powi 8" using mask by (intro power_int_increasing) auto
    ultimately have p: "1 / 64 \<le> (2::rat) powi (int ex - 7)" "(2::rat) powi (int ex - 7) \<le> 256"
      by (simp_all add: power_int_minus)
    have "1 * (1 / 64) \<le> (1 + of_nat m / 8) * (2::rat) powi (int ex - 7)"
      using p m by (intro mult_mono) auto
    moreover have "(1 + of_nat m / 8) * (2::rat) powi (int ex - 7) \<le> (15 / 8) * 256"
      using p m by (intro mult_mono) auto
    ultimately show ?thesis using dec False by auto
  qed
qed (simp add: decode_ue4m3_half_host_def Let_def)

lemma decode_nibble_range:
  "decode_nvfp4_nibble_host n = 0 \<or> 1 \<le> \<bar>decode_nvfp4_nibble_host n\<bar> \<and> \<bar>decode_nvfp4_nibble_host n\<bar> \<le> 12"
proof -
  have "n AND 15 < 16" by (simp add: low_bits)
  then have "n AND 15 \<in> {0, 1, 2, 3, 4, 5, 6, 7, 8, 9, 10, 11, 12, 13, 14, 15}" unfolding insert_iff empty_iff by arith
  then show ?thesis unfolding decode_nvfp4_nibble_host_def by auto
qed

lemma block_value_range:
  "block_value p s col = 0 \<or> 1 / 1024 \<le> \<bar>block_value p s col\<bar> \<and> \<bar>block_value p s col\<bar> \<le> 2880"
proof -
  obtain n b where v: "block_value p s col = decode_nvfp4_nibble_host n * decode_ue4m3_half_host b"
    by (simp add: block_value_def Let_def)
  let ?n = "\<bar>decode_nvfp4_nibble_host n\<bar>" and ?b = "decode_ue4m3_half_host b"
  show ?thesis
  proof (cases "?n = 0 \<or> ?b = 0")
    case False
    then have r: "1 \<le> ?n" "?n \<le> 12" "1 / 1024 \<le> ?b" "?b \<le> 240"
      using decode_nibble_range [of n] decode_ue4m3_range [of b] by auto
    have "1 * (1 / 1024) \<le> ?n * ?b" by (rule mult_mono) (use r in auto)
    moreover have "?n * ?b \<le> 12 * 240" by (rule mult_mono) (use r in auto)
    ultimately show ?thesis using v r by (simp add: abs_mult)
  qed (use v in auto)
qed

text \<open>The scale reaches the largest magnitude and stays below a sixth of it.\<close>

lemma block_scale:
  assumes "amax = 0 \<or> 1 / 1024 \<le> amax \<and> amax \<le> 2880"
  defines "d \<equiv> e8m0_to_f32_half_host (compute_e8m0_scale_host amax)"
  shows "0 < d" "amax \<le> 12 * d" "amax = 0 \<or> 6 * d < amax" "compute_e8m0_scale_host amax \<le> 254"
proof -
  have "0 < d \<and> amax \<le> 12 * d \<and> (amax = 0 \<or> 6 * d < amax) \<and> compute_e8m0_scale_host amax \<le> 254"
  proof (cases "amax = 0")
    case True
    then show ?thesis by (simp add: d_def compute_e8m0_scale_host_def e8m0_to_f32_half_host_def)
  next
    case False
    let ?q = "amax / 6" and ?L = "log2_ceil (amax / 6)"
    have "(2::rat) powi (-150) \<le> 2 powi (-14)" "(2::rat) powi 9 \<le> 2 powi 127" by (intro power_int_increasing; simp)+
    moreover have q: "2 powi (-14) < ?q" "?q \<le> 2 powi 9" using assms(1) False by (simp_all add: power_int_minus)
    ultimately have L: "?q \<le> 2 powi ?L" "2 powi (?L - 1) < ?q" using log2_ceil_bounds [of ?q] by linarith+
    have "-14 < ?L"
    proof (rule ccontr)
      assume "\<not> -14 < ?L"
      then have "(2::rat) powi ?L \<le> 2 powi (-14)" by (intro power_int_increasing) auto
      then show False using L(1) q(1) by linarith
    qed
    moreover have "?L < 11"
    proof (rule ccontr)
      assume "\<not> ?L < 11"
      then have "(2::rat) powi 10 \<le> 2 powi (?L - 1)" by (intro power_int_increasing) auto
      moreover have "(2::rat) powi 9 < 2 powi 10" by simp
      ultimately show False using L(2) q(2) by linarith
    qed
    ultimately have e: "int (compute_e8m0_scale_host amax) = ?L + 127" "2 \<le> compute_e8m0_scale_host amax"
      "compute_e8m0_scale_host amax \<le> 254"
      using assms(1) False by (auto simp: compute_e8m0_scale_host_def)
    then have "d = 2 powi (?L - 1)" by (simp add: d_def e8m0_to_f32_half_host_def)
    moreover have "(2::rat) powi ?L = 2 * 2 powi (?L - 1)"
      using power_int_add [of "2 :: rat" 1 "?L - 1"] by simp
    ultimately show ?thesis using L e by simp
  qed
  then show "0 < d" "amax \<le> 12 * d" "amax = 0 \<or> 6 * d < amax" "compute_e8m0_scale_host amax \<le> 254" by auto
qed

section \<open>Repacked values\<close>

text \<open>The value a row of an NVFP4 linear holds in a column, and the one its MXFP4 blocks hold.\<close>

definition nvfp4_value :: "nat list \<Rightarrow> nat list \<Rightarrow> nat \<Rightarrow> nat \<Rightarrow> nat \<Rightarrow> rat" where
  "nvfp4_value packed scales cols row col =
     block_value (row_slice packed row (cols div 2)) (row_slice scales row (cols div 16)) col"

definition mxfp4_scale :: "nat list \<Rightarrow> nat \<Rightarrow> nat \<Rightarrow> nat \<Rightarrow> rat" where
  "mxfp4_scale out cols row col = e8m0_to_f32_half_host (out ! ((row * (cols div 32) + col div 32) * 17))"

definition mxfp4_value :: "nat list \<Rightarrow> nat \<Rightarrow> nat \<Rightarrow> nat \<Rightarrow> rat" where
  "mxfp4_value out cols row col =
     (let byte = out ! ((row * (cols div 32) + col div 32) * 17 + (1 + col mod 16));
          nibble = (if col mod 32 < 16 then byte AND 15 else drop_bit 4 byte)
      in decode_nvfp4_nibble_host nibble * mxfp4_scale out cols row col)"

lemma nibble_pair:
  assumes "lo < 16" "(hi :: nat) < 16"
  shows "(lo OR push_bit 4 hi) AND 15 = lo" "drop_bit 4 (lo OR push_bit 4 hi) = hi"
proof -
  have "lo OR push_bit 4 hi = hi * 16 + lo"
    using push_or [of lo 4 hi] assms(1) by (simp add: or.commute)
  then show "(lo OR push_bit 4 hi) AND 15 = lo" "drop_bit 4 (lo OR push_bit 4 hi) = hi"
    using assms by (simp_all add: low_bits drop_bit_eq_div)
qed

lemma length_mxfp4_block [simp]: "length (mxfp4_block p s b) = 17"
  by (simp add: mxfp4_block_def Let_def)

text \<open>The largest magnitude of a block is the magnitude of one of its values, or zero.\<close>

lemma fold_amax:
  fixes acc :: rat
  shows "acc \<le> foldl (\<lambda>amax v. max amax \<bar>v\<bar>) acc vs"
    "v \<in> set vs \<Longrightarrow> \<bar>v\<bar> \<le> foldl (\<lambda>amax v. max amax \<bar>v\<bar>) acc vs"
    "foldl (\<lambda>amax v. max amax \<bar>v\<bar>) acc vs \<in> insert acc (abs ` set vs)"
proof -
  show lower: "acc \<le> foldl (\<lambda>amax v. max amax \<bar>v\<bar>) acc vs" for acc :: rat and vs
    by (induction vs arbitrary: acc) (simp_all, meson max.boundedE)
  show "\<bar>v\<bar> \<le> foldl (\<lambda>amax v. max amax \<bar>v\<bar>) acc vs" if "v \<in> set vs"
    using that
  proof (induction vs arbitrary: acc)
    case (Cons w vs)
    then show ?case using lower [of "max acc \<bar>w\<bar>" vs] by auto
  qed simp
  show "foldl (\<lambda>amax v. max amax \<bar>v\<bar>) acc vs \<in> insert acc (abs ` set vs)"
  proof (induction vs arbitrary: acc)
    case (Cons w vs)
    show ?case using Cons.IH [of "max acc \<bar>w\<bar>"] by (auto simp: max_def split: if_splits)
  qed simp
qed

lemma mxfp4_block_spec:
  defines "val \<equiv> \<lambda>p s b lane. block_value p s (b * 32 + lane)"
  assumes lane: "lane < 32"
  obtains d idx other peak where
    "e8m0_to_f32_half_host (mxfp4_block p s b ! 0) = d" "mxfp4_block p s b ! 0 \<le> 254"
    "idx < 16" "other < 16" "0 < d"
    "mxfp4_block p s b ! Suc (lane mod 16) = (if lane < 16 then idx OR push_bit 4 other else other OR push_bit 4 idx)"
    "\<And>c. c < 16 \<Longrightarrow> mx_err (val p s b lane) d idx \<le> mx_err (val p s b lane) d c"
    "peak < 32" "mx_err (val p s b lane) d idx \<le> \<bar>val p s b peak\<bar> / 3"
proof -
  define vals where "vals = map (val p s b) [0..<32]"
  define amax where "amax = foldl (\<lambda>amax v. max amax \<bar>v\<bar>) 0 vals"
  define d where "d = e8m0_to_f32_half_host (compute_e8m0_scale_host amax)"
  let ?best = "\<lambda>lane. best_mxfp4_index (vals ! lane) d"
  have nth: "vals ! l = val p s b l" if "l < 32" for l using that by (simp add: vals_def)
  have block: "mxfp4_block p s b = compute_e8m0_scale_host amax
      # map (\<lambda>lane. ?best lane OR push_bit 4 (?best (lane + 16))) [0..<16]"
    unfolding mxfp4_block_def Let_def d_def amax_def vals_def val_def ..
  have "amax \<in> insert 0 (abs ` set vals)" unfolding amax_def by (rule fold_amax(3))
  then obtain l where "amax = 0 \<or> amax = \<bar>val p s b l\<bar>" by (auto simp: vals_def)
  moreover have "\<bar>val p s b l\<bar> = 0 \<or> 1 / 1024 \<le> \<bar>val p s b l\<bar> \<and> \<bar>val p s b l\<bar> \<le> 2880" for l
    unfolding val_def abs_eq_0 by (rule block_value_range)
  ultimately have range: "amax = 0 \<or> 1 / 1024 \<le> amax \<and> amax \<le> 2880"
    by metis
  have peak: "\<exists>l < 32. amax = 0 \<or> amax = \<bar>val p s b l\<bar>"
    using fold_amax(3) [of 0 vals] unfolding amax_def [symmetric] by (auto simp: vals_def intro: exI [of _ 0])
  note sc = block_scale [OF range, folded d_def]
  obtain peak where pk: "peak < 32" "amax = 0 \<or> amax = \<bar>val p s b peak\<bar>" using peak by blast
  have bound: "\<bar>val p s b lane\<bar> \<le> amax"
    unfolding amax_def using lane by (intro fold_amax(2)) (simp add: vals_def)
  have best: "?best l < 16" "\<And>c. c < 16 \<Longrightarrow> mx_err (vals ! l) d (?best l) \<le> mx_err (vals ! l) d c" for l
    using best_mxfp4_index_nearest [where scale = d and x = "vals ! l"] sc(1) by auto
  have "mx_err (val p s b lane) d (?best lane) \<le> \<bar>val p s b peak\<bar> / 3"
  proof (cases "amax = 0")
    case True
    then have "val p s b lane = 0" using bound by simp
    then show ?thesis using best(2) [of 0 lane] nth [OF lane] by (auto simp: mx_err_def)
  next
    case False
    obtain c where c: "c < 16" "mx_err (val p s b lane) d c \<le> 2 * d"
      using candidate_near [OF sc(1), of "val p s b lane"] bound sc(2) by fastforce
    have "mx_err (val p s b lane) d (?best lane) \<le> 2 * d" using best(2) [OF c(1), of lane] c(2) nth [OF lane] by simp
    then show ?thesis using sc(3) False pk(2) by simp
  qed
  moreover have "mxfp4_block p s b ! Suc (lane mod 16)
      = (if lane < 16 then ?best lane OR push_bit 4 (?best (lane + 16)) else ?best (lane - 16) OR push_bit 4 (?best lane))"
  proof (cases "lane < 16")
    case False
    then have "lane mod 16 = lane - 16" "lane - 16 < 16" using lane by (simp_all add: mod_if)
    then have "[0..<16] ! (lane - 16) = lane - 16" "lane mod 16 = lane - 16" "lane - 16 < 16" by (simp_all add: nth_upt)
    then show ?thesis using False lane by (simp add: block)
  qed (simp add: block)
  ultimately show ?thesis
    using that [of d "?best lane" "if lane < 16 then ?best (lane + 16) else ?best (lane - 16)" peak]
      best(1) [of lane] best(2) [of _ lane] best(1) [of "lane + 16"] best(1) [of "lane - 16"] sc(1, 4) pk(1) nth [OF lane]
    by (cases "lane < 16") (auto simp: block d_def)
qed

text \<open>The blocks of a weight follow each other row by row, 17 bytes each.\<close>

lemma mxfp4_blocks_in_order:
  assumes "nv_cols spec = 32 * n" "nv_rows spec * (16 * n) \<le> u64_max"
    and "length packed = nv_rows spec * (16 * n)" "length scales = nv_rows spec * (2 * n)"
  shows "\<exists>out. repack_nvfp4_to_mxfp4_host spec packed scales = Some (Inr out) \<and> length out = nv_rows spec * n * 17
    \<and> (\<forall>row < nv_rows spec. \<forall>b < n. \<forall>j < 17. out ! ((row * n + b) * 17 + j)
         = mxfp4_block (row_slice packed row (16 * n)) (row_slice scales row (2 * n)) b ! j)"
proof -
  let ?m = "nv_rows spec"
  let ?blk = "\<lambda>row. mxfp4_block (row_slice packed row (16 * n)) (row_slice scales row (2 * n))"
  define out where "out = concat (map (\<lambda>row. concat (map (?blk row) [0..<n])) [0..<?m])"
  have halves: "32 * n div 2 = 16 * n" "32 * n div 16 = 2 * n" by simp_all
  have "?m * (2 * n) \<le> ?m * (16 * n)" by simp
  then have fits: "?m * (16 * n) \<le> u64_max" "?m * (2 * n) \<le> u64_max" using assms(2) by auto
  have run: "repack_nvfp4_to_mxfp4_host spec packed scales = Some (Inr out)"
    using assms(3, 4) fits unfolding repack_nvfp4_to_mxfp4_host_def out_def assms(1) halves by (simp add: wrap64_def)
  have inner: "length (concat (map (?blk row) [0..<n])) = n * 17" for row
    using concat_const_length [of "[0..<n]" "?blk row" 17] by simp
  have len: "length out = ?m * n * 17"
    unfolding out_def using concat_const_length [where xs = "[0..<?m]" and n = "n * 17"
        and f = "\<lambda>row. concat (map (?blk row) [0..<n])"] inner by simp
  have byte: "out ! ((row * n + b) * 17 + j) = ?blk row b ! j" if "row < ?m" "b < n" "j < 17" for row b j
  proof -
    have "Suc b * 17 \<le> n * 17" using that(2) by (intro mult_le_mono1) simp
    then have "out ! (row * (n * 17) + (b * 17 + j)) = concat (map (?blk row) [0..<n]) ! (b * 17 + j)"
      unfolding out_def using that inner by (intro concat_map_nth) auto
    also have "\<dots> = ?blk row b ! j" using that by (intro concat_map_nth) auto
    finally show ?thesis by (simp add: algebra_simps)
  qed
  show ?thesis using run len byte by (intro exI [of _ out]) auto
qed

text \<open>
  C32: repacking buffers of the right size always succeeds with 17 bytes for every 32 columns, and every
  value it stores is a nearest of the sixteen values its block can represent; it differs from the
  original by at most a third of the largest magnitude of its block.
\<close>

theorem mxfp4_repack_nearest:
  assumes "nv_cols spec mod 32 = 0" "nv_rows spec * (nv_cols spec div 2) \<le> u64_max"
    and "length packed = nv_rows spec * (nv_cols spec div 2)"
    and "length scales = nv_rows spec * (nv_cols spec div 16)"
  shows "\<exists>out. repack_nvfp4_to_mxfp4_host spec packed scales = Some (Inr out) \<and>
    length out = nv_rows spec * (nv_cols spec div 32) * 17 \<and>
    (\<forall>row < nv_rows spec. \<forall>col < nv_cols spec.
       (\<forall>c < 16. \<bar>mxfp4_value out (nv_cols spec) row col - nvfp4_value packed scales (nv_cols spec) row col\<bar>
          \<le> \<bar>decode_nvfp4_nibble_host c * mxfp4_scale out (nv_cols spec) row col
             - nvfp4_value packed scales (nv_cols spec) row col\<bar>) \<and>
       (\<exists>peak < nv_cols spec. peak div 32 = col div 32 \<and>
          \<bar>mxfp4_value out (nv_cols spec) row col - nvfp4_value packed scales (nv_cols spec) row col\<bar>
          \<le> \<bar>nvfp4_value packed scales (nv_cols spec) row peak\<bar> / 3))"
proof -
  let ?m = "nv_rows spec"
  obtain n where n: "nv_cols spec = 32 * n" using assms(1) by auto
  have halves: "32 * n div 2 = 16 * n" "32 * n div 16 = 2 * n" by simp_all
  let ?blk = "\<lambda>row. mxfp4_block (row_slice packed row (16 * n)) (row_slice scales row (2 * n))"
  obtain out where run: "repack_nvfp4_to_mxfp4_host spec packed scales = Some (Inr out)" and len: "length out = ?m * n * 17"
    and byte: "\<And>row b j. row < ?m \<Longrightarrow> b < n \<Longrightarrow> j < 17 \<Longrightarrow> out ! ((row * n + b) * 17 + j) = ?blk row b ! j"
    using mxfp4_blocks_in_order [OF n assms(2-4) [unfolded n halves]] by blast
  have cell: "(\<forall>c < 16. \<bar>mxfp4_value out (32 * n) row col - nvfp4_value packed scales (32 * n) row col\<bar>
        \<le> \<bar>decode_nvfp4_nibble_host c * mxfp4_scale out (32 * n) row col - nvfp4_value packed scales (32 * n) row col\<bar>) \<and>
      (\<exists>peak < 32 * n. peak div 32 = col div 32 \<and>
        \<bar>mxfp4_value out (32 * n) row col - nvfp4_value packed scales (32 * n) row col\<bar>
        \<le> \<bar>nvfp4_value packed scales (32 * n) row peak\<bar> / 3)" if rc: "row < ?m" "col < 32 * n" for row col
  proof -
    let ?b = "col div 32" and ?lane = "col mod 32"
    let ?p = "row_slice packed row (16 * n)" and ?s = "row_slice scales row (2 * n)"
    have b: "?b < n" using rc(2) by (simp add: div_less_iff_less_mult mult.commute)
    obtain d idx other peak where blk: "e8m0_to_f32_half_host (?blk row ?b ! 0) = d" "idx < 16" "other < 16"
      "?blk row ?b ! Suc (?lane mod 16) = (if ?lane < 16 then idx OR push_bit 4 other else other OR push_bit 4 idx)"
      "\<And>c. c < 16 \<Longrightarrow> mx_err (block_value ?p ?s (?b * 32 + ?lane)) d idx \<le> mx_err (block_value ?p ?s (?b * 32 + ?lane)) d c"
      "peak < 32" "mx_err (block_value ?p ?s (?b * 32 + ?lane)) d idx \<le> \<bar>block_value ?p ?s (?b * 32 + peak)\<bar> / 3"
      using mxfp4_block_spec [where lane = ?lane and p = ?p and s = ?s and b = ?b] by (metis mod_less_divisor zero_less_numeral)
    have col: "?b * 32 + ?lane = col" "?lane mod 16 = col mod 16" by (simp_all add: mod_mod_cancel)
    have orig: "nvfp4_value packed scales (32 * n) row c = block_value ?p ?s c" for c
      by (simp add: nvfp4_value_def halves)
    have "mxfp4_scale out (32 * n) row col = d"
      using byte [OF rc(1) b, of 0] blk(1) by (simp add: mxfp4_scale_def)
    moreover have "mxfp4_value out (32 * n) row col = decode_nvfp4_nibble_host idx * d"
      using byte [OF rc(1) b, of "Suc (col mod 16)"] blk(2-4) calculation col(2)
      by (simp add: mxfp4_value_def Let_def nibble_pair del: drop_bit_or split: if_splits)
    moreover have "?b * 32 + peak < 32 * n" using b blk(6) by linarith
    moreover have "(?b * 32 + peak) div 32 = ?b" using blk(6) by simp
    ultimately show ?thesis using blk(5, 7) unfolding orig col mx_err_def by (metis (no_types, lifting))
  qed
  show ?thesis using run len cell by (intro exI [of _ out]) (simp add: n)
qed

lemma mxfp4_repack_nearest_witness:
  "\<exists>out. repack_nvfp4_to_mxfp4_host (demo_linear 1 32) (replicate 16 33) (replicate 2 64) = Some (Inr out) \<and>
    length out = 17 \<and>
    (\<forall>col < 32. \<exists>peak < 32.
       \<bar>mxfp4_value out 32 0 col - nvfp4_value (replicate 16 33) (replicate 2 64) 32 0 col\<bar>
       \<le> \<bar>nvfp4_value (replicate 16 33) (replicate 2 64) 32 0 peak\<bar> / 3)"
  using mxfp4_repack_nearest [of "demo_linear 1 32" "replicate 16 33" "replicate 2 64"]
  by (fastforce simp: u64_max_def)

text \<open>
  The block decoder agrees with the table of \<^verbatim>\<open>tensor/quant.rs\<close> on every byte.
\<close>

lemma host_decoder_is_table: "decode_ue4m3_half_host byte = decode_ue4m3_with_half_lut byte"
proof -
  have "byte AND 127 = byte mod 128" "byte mod 128 < 128" by (simp_all add: low_bits)
  moreover have "pow2i_const e = 2 powi e" for e
    by (auto simp: pow2i_const_def power_int_def field_simps)
  ultimately show ?thesis
    by (simp add: decode_ue4m3_half_host_def decode_ue4m3_with_half_lut_def build_ue4m3_with_half_lut_def
        ue4m3_with_half_entry_def Let_def low_bits drop_bit_eq_div power_int_minus field_simps)
qed

section \<open>The cache on disk\<close>

text \<open>
  Which calls of a run fail, with the message, and how many bytes a failing write leaves behind.
\<close>

datatype disk_call = Stat | OpenFile | ReadToEnd | CreateDirAll | CreateFile | WriteAll | SyncData | Rename

record disk_faults =
  df_fails :: "disk_call \<Rightarrow> string option"
  df_written :: nat

type_synonym disk_files = "string \<Rightarrow> nat list option"

definition path_join :: "string \<Rightarrow> string \<Rightarrow> string" where
  "path_join base name = (if base = [] then name else if last base = CHR ''/'' then base @ name else base @ ''/'' @ name)"

text \<open>\<^verbatim>\<open>with_extension\<close> on a file name: the part before its last dot, unless that dot leads the name.\<close>

definition name_start :: "string \<Rightarrow> nat" where
  "name_start path = length path - length (takeWhile (\<lambda>c. c \<noteq> CHR ''/'') (rev path))"

definition with_extension :: "string \<Rightarrow> string \<Rightarrow> string" where
  "with_extension path ext =
     (let name = drop (name_start path) path;
          stem = rev (drop 1 (dropWhile (\<lambda>c. c \<noteq> CHR ''.'') (rev name)))
      in take (name_start path) path @ (if stem = [] then name else stem) @ ''.'' @ ext)"

definition try_read_cache :: "disk_faults \<Rightarrow> disk_files \<Rightarrow> string \<Rightarrow> nat \<Rightarrow> nat list option aegis_result" where
  "try_read_cache faults files path expected_len =
     (case if df_fails faults Stat = None then files path else None of
        None \<Rightarrow> Inr None
      | Some data \<Rightarrow>
          if length data \<noteq> expected_len then Inr None
          else (case df_fails faults OpenFile of
                  Some m \<Rightarrow> Inl (Io m)
                | None \<Rightarrow>
                    (case df_fails faults ReadToEnd of
                       Some m \<Rightarrow> Inl (Io m)
                     | None \<Rightarrow> if length data = expected_len then Inr (Some data) else Inr None)))"

definition write_cache :: "disk_faults \<Rightarrow> disk_files \<Rightarrow> string \<Rightarrow> nat list \<Rightarrow> disk_files \<times> unit aegis_result" where
  "write_cache faults files path data =
     (if path = [] \<or> path = ''/'' then (files, Inr ())
      else let tmp = with_extension path ''tmp'' in
       (case df_fails faults CreateDirAll of
          Some m \<Rightarrow> (files, Inl (Io m))
        | None \<Rightarrow>
       (case df_fails faults CreateFile of
          Some m \<Rightarrow> (files, Inl (Io m))
        | None \<Rightarrow>
       (case df_fails faults WriteAll of
          Some m \<Rightarrow> (files(tmp := Some (take (df_written faults) data)), Inl (Io m))
        | None \<Rightarrow>
       (case df_fails faults SyncData of
          Some m \<Rightarrow> (files(tmp := Some data), Inl (Io m))
        | None \<Rightarrow>
       (case df_fails faults Rename of
          Some m \<Rightarrow> (files(tmp := Some data), Inl (Io m))
        | None \<Rightarrow> (files(tmp := None, path := Some data), Inr ())))))))"

section \<open>Keys\<close>

definition sanitize_cache_component :: "string \<Rightarrow> string" where
  "sanitize_cache_component =
     map (\<lambda>ch. if CHR ''0'' \<le> ch \<and> ch \<le> CHR ''9'' \<or> CHR ''a'' \<le> ch \<and> ch \<le> CHR ''z'' \<or> CHR ''A'' \<le> ch \<and> ch \<le> CHR ''Z''
                    \<or> ch = CHR ''-'' \<or> ch = CHR ''_'' \<or> ch = CHR ''.'' then ch else CHR ''_'')"

definition hex8 :: "nat \<Rightarrow> string" where
  "hex8 n = map (\<lambda>k. hex_digit (n div 16 ^ k mod 16)) [7, 6, 5, 4, 3, 2, 1, 0]"

definition CACHE_VERSION :: string where "CACHE_VERSION = ''mxfp4-v1''"

definition CUTLASS_NVFP4_CACHE_VERSION :: string where
  "CUTLASS_NVFP4_CACHE_VERSION = ''cutlass-nvfp4-e2m1-ue4m3-sm120-v1''"

text \<open>\<open>to_bits\<close> reads the scale of a specification as its 32 bits.\<close>

definition tensor_key :: "tensor_info \<Rightarrow> string" where
  "tensor_key t = sanitize_cache_component (ti_shard_name t) @ ''-'' @ show_nat (fst (ti_file_offsets t)) @ ''-''
     @ show_nat (snd (ti_file_offsets t))"

definition native_mxfp4_cache_path ::
  "('f \<Rightarrow> nat) \<Rightarrow> string \<Rightarrow> 'f nvfp4_linear_spec \<Rightarrow> tensor_info \<Rightarrow> tensor_info \<Rightarrow> string" where
  "native_mxfp4_cache_path to_bits model_root spec weight scales =
     path_join (path_join (path_join model_root ''.aegis-cache'') CACHE_VERSION)
       (sanitize_cache_component (nv_name spec) @ ''-r'' @ show_nat (nv_rows spec) @ ''-c'' @ show_nat (nv_cols spec)
        @ ''-pb'' @ show_nat (nv_packed_bytes spec) @ ''-sb'' @ show_nat (nv_scale_bytes spec)
        @ ''-is'' @ hex8 (to_bits (nv_input_scale spec)) @ ''-os'' @ hex8 (to_bits (nv_output_scale spec))
        @ ''-w'' @ tensor_key weight @ ''-s'' @ tensor_key scales @ ''.bin'')"

definition cutlass_nvfp4_cache_path ::
  "('f \<Rightarrow> nat) \<Rightarrow> string \<Rightarrow> 'f nvfp4_linear_spec \<Rightarrow> tensor_info \<Rightarrow> tensor_info \<Rightarrow> cutlass_layout \<Rightarrow> string" where
  "cutlass_nvfp4_cache_path to_bits model_root spec weight scales l =
     path_join (path_join (path_join model_root ''.aegis-cache'') CUTLASS_NVFP4_CACHE_VERSION)
       (sanitize_cache_component (nv_name spec) @ ''-n'' @ show_nat (cl_logical_n l) @ ''-k'' @ show_nat (cl_logical_k l)
        @ ''-pk'' @ show_nat (cl_packed_k_cols l) @ ''-sr'' @ show_nat (cl_scale_rows l)
        @ ''-sc'' @ show_nat (cl_scale_cols l)
        @ ''-pb'' @ show_nat (nv_packed_bytes spec) @ ''-sb'' @ show_nat (nv_scale_bytes spec)
        @ ''-is'' @ hex8 (to_bits (nv_input_scale spec)) @ ''-os'' @ hex8 (to_bits (nv_output_scale spec))
        @ ''-w'' @ tensor_key weight @ ''-s'' @ tensor_key scales @ ''.bin'')"

definition native_mxfp4_cache_disabled :: "(string \<Rightarrow> string option) \<Rightarrow> bool" where
  "native_mxfp4_cache_disabled env =
     (case env ''AEGISLLM_NATIVE_MXFP4_CACHE'' of
        Some v \<Rightarrow> v = ''0'' \<or> v = ''false'' \<or> v = ''off'' \<or> v = ''no''
      | None \<Rightarrow> False)"

section \<open>Cached repacking\<close>

text \<open>A run returns the files it leaves and its result.\<close>

definition cached_repack_nvfp4_to_mxfp4_host ::
  "(string \<Rightarrow> string option) \<Rightarrow> disk_faults \<Rightarrow> ('f \<Rightarrow> nat) \<Rightarrow> string \<Rightarrow> 'f nvfp4_linear_spec \<Rightarrow> tensor_info \<Rightarrow> tensor_info
   \<Rightarrow> nat list \<Rightarrow> nat list \<Rightarrow> disk_files \<Rightarrow> disk_files \<times> nat list aegis_result option" where
  "cached_repack_nvfp4_to_mxfp4_host env faults to_bits model_root spec weight scales packed scale_bytes' files =
     (if native_mxfp4_cache_disabled env then (files, repack_nvfp4_to_mxfp4_host spec packed scale_bytes')
      else case expected_mxfp4_bytes spec of
        Inl e \<Rightarrow> (files, Some (Inl e))
      | Inr expected_len \<Rightarrow>
         (let path = native_mxfp4_cache_path to_bits model_root spec weight scales in
          case try_read_cache faults files path expected_len of
            Inl e \<Rightarrow> (files, Some (Inl e))
          | Inr (Some cached) \<Rightarrow> (files, Some (Inr cached))
          | Inr None \<Rightarrow>
             (case repack_nvfp4_to_mxfp4_host spec packed scale_bytes' of
                None \<Rightarrow> (files, None)
              | Some (Inl e) \<Rightarrow> (files, Some (Inl e))
              | Some (Inr repacked) \<Rightarrow>
                  (case write_cache faults files path repacked of
                     (files, Inl e) \<Rightarrow> (files, Some (Inl e))
                   | (files, Inr _) \<Rightarrow> (files, Some (Inr repacked))))))"

definition cached_repack_cutlass ::
  "(string \<Rightarrow> string option) \<Rightarrow> disk_faults \<Rightarrow> ('f \<Rightarrow> nat) \<Rightarrow> string \<Rightarrow> 'f nvfp4_linear_spec \<Rightarrow> tensor_info \<Rightarrow> tensor_info
   \<Rightarrow> nat list \<Rightarrow> nat list \<Rightarrow> disk_files \<Rightarrow> disk_files \<times> cutlass_host_linear aegis_result option" where
  "cached_repack_cutlass env faults to_bits model_root spec weight scales packed scale_bytes' files =
     (case for_weight spec of
        Inl e \<Rightarrow> (files, Some (Inl e))
      | Inr l \<Rightarrow>
         (if native_mxfp4_cache_disabled env then (files, repack_cutlass spec packed scale_bytes')
          else let path = cutlass_nvfp4_cache_path to_bits model_root spec weight scales l;
                   expected_len = wrap64 (payload_bytes l + scale_bytes l) in
          case try_read_cache faults files path expected_len of
            Inl e \<Rightarrow> (files, Some (Inl e))
          | Inr (Some cached) \<Rightarrow>
             (if payload_bytes l > length cached then (files, None)
              else (files, Some (Inr \<lparr>ch_layout = l, ch_payload_e2m1 = take (payload_bytes l) cached,
                             ch_scales_ue4m3 = drop (payload_bytes l) cached\<rparr>)))
          | Inr None \<Rightarrow>
             (case repack_cutlass spec packed scale_bytes' of
                None \<Rightarrow> (files, None)
              | Some (Inl e) \<Rightarrow> (files, Some (Inl e))
              | Some (Inr repacked) \<Rightarrow>
                  (case write_cache faults files path (ch_payload_e2m1 repacked @ ch_scales_ue4m3 repacked) of
                     (files, Inl e) \<Rightarrow> (files, Some (Inl e))
                   | (files, Inr _) \<Rightarrow> (files, Some (Inr repacked))))))"

section \<open>A cache entry is whole or absent\<close>

definition no_faults :: disk_faults where
  "no_faults = \<lparr>df_fails = \<lambda>_. None, df_written = 0\<rparr>"

text \<open>The results of runs one after the other on the same disk.\<close>

fun disk_runs :: "(disk_files \<Rightarrow> disk_files \<times> 'r) list \<Rightarrow> disk_files \<Rightarrow> 'r list" where
  "disk_runs [] files = []"
| "disk_runs (run # runs) files = (case run files of (files, r) \<Rightarrow> r # disk_runs runs files)"

lemma disk_runs_invariant:
  assumes "\<And>run files files' r. run \<in> set runs \<Longrightarrow> I files \<Longrightarrow> run files = (files', r) \<Longrightarrow> I files' \<and> Q r"
    and "I files" "r \<in> set (disk_runs runs files)"
  shows "Q r"
  using assms
proof (induction runs arbitrary: files)
  case (Cons run runs)
  obtain files' r' where run: "run files = (files', r')" by (cases "run files")
  have step: "I files'" "Q r'" using Cons.prems(1) [of run files files' r'] Cons.prems(2) run by auto
  moreover have "Q r" if "r \<in> set (disk_runs runs files')"
    using Cons.IH [OF _ step(1) that] Cons.prems(1) by (meson list.set_intros(2))
  ultimately show ?case using Cons.prems(3) run by auto
qed simp

definition cache_sound :: "string \<Rightarrow> nat \<Rightarrow> nat list \<Rightarrow> disk_files \<Rightarrow> bool" where
  "cache_sound path n blob files \<longleftrightarrow> (\<forall>data. files path = Some data \<and> length data = n \<longrightarrow> data = blob)"

lemma try_read_cache_sound:
  assumes "cache_sound path n blob files"
  shows "try_read_cache faults files path n = Inr None \<or> try_read_cache faults files path n = Inr (Some blob) \<and> length blob = n
    \<or> (\<exists>m. try_read_cache faults files path n = Inl (Io m))"
  using assms by (auto simp: try_read_cache_def cache_sound_def split: option.splits)

lemma write_cache_sound:
  assumes "with_extension path ''tmp'' \<noteq> path" "cache_sound path n blob files"
    and "write_cache faults files path blob = (files', r)"
  shows "cache_sound path n blob files'" "r = Inr () \<or> (\<exists>m. r = Inl (Io m))"
  using assms by (auto simp: write_cache_def Let_def cache_sound_def split: option.splits if_splits)

lemma with_extension_tmp: "with_extension (base @ ''.bin'') ''tmp'' \<noteq> base @ ''.bin''"
proof
  assume "with_extension (base @ ''.bin'') ''tmp'' = base @ ''.bin''"
  then have "last (with_extension (base @ ''.bin'') ''tmp'') = last (base @ ''.bin'')" by simp
  then show False by (simp add: with_extension_def Let_def)
qed

lemma path_join_bin: "\<exists>base. path_join mr (name @ ''.bin'') = base @ ''.bin''"
proof -
  have "path_join mr (name @ ''.bin'') = name @ ''.bin'' \<or> path_join mr (name @ ''.bin'') = (mr @ name) @ ''.bin''
      \<or> path_join mr (name @ ''.bin'') = (mr @ ''/'' @ name) @ ''.bin''"
    by (simp add: path_join_def)
  then show ?thesis by blast
qed

lemma cache_paths_bin:
  "with_extension (native_mxfp4_cache_path tb mr spec w s) ''tmp'' \<noteq> native_mxfp4_cache_path tb mr spec w s"
  "with_extension (cutlass_nvfp4_cache_path tb mr spec w s l) ''tmp'' \<noteq> cutlass_nvfp4_cache_path tb mr spec w s l"
proof -
  obtain b1 where "native_mxfp4_cache_path tb mr spec w s = b1 @ ''.bin''"
    unfolding native_mxfp4_cache_path_def append.assoc [symmetric] using path_join_bin by metis
  then show "with_extension (native_mxfp4_cache_path tb mr spec w s) ''tmp'' \<noteq> native_mxfp4_cache_path tb mr spec w s"
    using with_extension_tmp by metis
  obtain b2 where "cutlass_nvfp4_cache_path tb mr spec w s l = b2 @ ''.bin''"
    unfolding cutlass_nvfp4_cache_path_def append.assoc [symmetric] using path_join_bin by metis
  then show "with_extension (cutlass_nvfp4_cache_path tb mr spec w s l) ''tmp'' \<noteq> cutlass_nvfp4_cache_path tb mr spec w s l"
    using with_extension_tmp by metis
qed

text \<open>An entry of the expected length is one of the blobs \<open>G\<close>; entries of other lengths are free.\<close>

definition cache_within :: "string \<Rightarrow> nat \<Rightarrow> nat list set \<Rightarrow> disk_files \<Rightarrow> bool" where
  "cache_within path n G files \<longleftrightarrow> (\<forall>data. files path = Some data \<and> length data = n \<longrightarrow> data \<in> G)"

definition mxfp4_len :: "'f nvfp4_linear_spec \<Rightarrow> nat" where
  "mxfp4_len spec = wrap64 (nv_rows spec * (nv_cols spec div 32) * 17)"

lemma cached_mxfp4_step:
  assumes within: "cache_within path (mxfp4_len spec) G files"
    and path: "path = native_mxfp4_cache_path tb mr spec w s"
    and run: "cached_repack_nvfp4_to_mxfp4_host env faults tb mr spec w s packed scales files = (files', r)"
  shows "cache_within path (mxfp4_len spec) (G \<union> {out. repack_nvfp4_to_mxfp4_host spec packed scales = Some (Inr out)}) files'"
    and "r = repack_nvfp4_to_mxfp4_host spec packed scales \<or> (\<exists>m. r = Some (Inl (Io m)))
      \<or> (\<exists>b \<in> G. r = Some (Inr b) \<and> length b = mxfp4_len spec)"
proof -
  let ?repack = "repack_nvfp4_to_mxfp4_host spec packed scales"
  let ?G = "G \<union> {out. ?repack = Some (Inr out)}"
  let ?n = "mxfp4_len spec"
  have more: "cache_within path ?n ?G files" using within by (auto simp: cache_within_def)
  have "cache_within path ?n ?G files' \<and> (r = ?repack \<or> (\<exists>m. r = Some (Inl (Io m)))
      \<or> (\<exists>b \<in> G. r = Some (Inr b) \<and> length b = ?n))"
  proof (cases "native_mxfp4_cache_disabled env \<or> nv_cols spec mod 32 \<noteq> 0")
    case True
    then have "files' = files \<and> r = ?repack"
      using run by (auto simp: cached_repack_nvfp4_to_mxfp4_host_def expected_mxfp4_bytes_def
          repack_nvfp4_to_mxfp4_host_def split: if_splits)
    with more show ?thesis by simp
  next
    case False
    then have e: "\<not> native_mxfp4_cache_disabled env" "expected_mxfp4_bytes spec = Inr ?n"
      by (simp_all add: expected_mxfp4_bytes_def mxfp4_len_def)
    have "(\<exists>data. try_read_cache faults files path ?n = Inr (Some data) \<and> data \<in> G \<and> length data = ?n)
        \<or> (\<exists>m. try_read_cache faults files path ?n = Inl (Io m)) \<or> try_read_cache faults files path ?n = Inr None"
      using within by (auto simp: try_read_cache_def cache_within_def split: option.split)
    then consider (hit) data where "try_read_cache faults files path ?n = Inr (Some data)" "data \<in> G" "length data = ?n"
      | (io) m where "try_read_cache faults files path ?n = Inl (Io m)"
      | (miss) "try_read_cache faults files path ?n = Inr None"
      by blast
    then show ?thesis
    proof cases
      case hit
      with e run more show ?thesis by (auto simp: cached_repack_nvfp4_to_mxfp4_host_def path [symmetric])
    next
      case io
      with e run more show ?thesis by (auto simp: cached_repack_nvfp4_to_mxfp4_host_def path [symmetric])
    next
      case miss
      show ?thesis
      proof (cases "\<exists>out. ?repack = Some (Inr out)")
        case False
        then have "files' = files \<and> r = ?repack"
          using e run miss by (cases ?repack rule: option.exhaust)
            (auto simp: cached_repack_nvfp4_to_mxfp4_host_def path [symmetric] split: sum.splits)
        with more show ?thesis by simp
      next
        case True
        then obtain out where out: "?repack = Some (Inr out)" by blast
        obtain wf wr where wc: "write_cache faults files path out = (wf, wr)" by fastforce
        have ends: "files' = wf" "r = (case wr of Inl e \<Rightarrow> Some (Inl e) | Inr u \<Rightarrow> ?repack)"
          using e run miss out wc
          by (auto simp: cached_repack_nvfp4_to_mxfp4_host_def path [symmetric] split: sum.splits)
        have tmp: "with_extension path ''tmp'' \<noteq> path" unfolding path by (rule cache_paths_bin(1))
        have wf: "wf path = files path \<or> wf path = Some out" and wr: "wr = Inr () \<or> (\<exists>m. wr = Inl (Io m))"
          using wc tmp by (auto simp: write_cache_def Let_def split: option.splits if_splits)
        have "cache_within path ?n ?G wf" using more wf out unfolding cache_within_def by fastforce
        with wr out ends show ?thesis by auto
      qed
    qed
  qed
  then show "cache_within path ?n ?G files'"
    and "r = ?repack \<or> (\<exists>m. r = Some (Inl (Io m))) \<or> (\<exists>b \<in> G. r = Some (Inr b) \<and> length b = ?n)" by blast+
qed

text \<open>A run of the sequence: its environment, the failures it meets and the weights it loads.\<close>

type_synonym cache_run = "(string \<Rightarrow> string option) \<times> disk_faults \<times> nat list \<times> nat list"

lemma cached_mxfp4_runs:
  assumes "cache_within (native_mxfp4_cache_path tb mr spec w s) (mxfp4_len spec) G files"
    and "i < length runs" and "runs ! i = (env, faults, packed, scales)"
    and "r = disk_runs (map (\<lambda>(env, faults, packed, scales).
           cached_repack_nvfp4_to_mxfp4_host env faults tb mr spec w s packed scales) runs) files ! i"
  shows "r = repack_nvfp4_to_mxfp4_host spec packed scales \<or> (\<exists>m. r = Some (Inl (Io m)))
    \<or> (\<exists>b. r = Some (Inr b) \<and> length b = mxfp4_len spec
         \<and> (b \<in> G \<or> (\<exists>j < i. \<exists>env' faults' packed' scales'. runs ! j = (env', faults', packed', scales')
              \<and> repack_nvfp4_to_mxfp4_host spec packed' scales' = Some (Inr b))))"
  using assms
proof (induction runs arbitrary: files G i)
  case (Cons run runs)
  obtain env0 faults0 packed0 scales0 where run: "run = (env0, faults0, packed0, scales0)" by (cases run)
  obtain files' r0 where r0: "cached_repack_nvfp4_to_mxfp4_host env0 faults0 tb mr spec w s packed0 scales0 files = (files', r0)"
    by fastforce
  let ?G = "G \<union> {out. repack_nvfp4_to_mxfp4_host spec packed0 scales0 = Some (Inr out)}"
  note step = cached_mxfp4_step [OF Cons.prems(1) refl r0]
  show ?case
  proof (cases i)
    case 0
    with Cons.prems(3,4) run r0 step(2) show ?thesis by auto
  next
    case (Suc k)
    have "r = disk_runs (map (\<lambda>(env, faults, packed, scales).
           cached_repack_nvfp4_to_mxfp4_host env faults tb mr spec w s packed scales) runs) files' ! k"
      using Cons.prems(4) run r0 Suc by simp
    moreover have "k < length runs" "runs ! k = (env, faults, packed, scales)" using Cons.prems(2,3) Suc by simp_all
    ultimately consider "r = repack_nvfp4_to_mxfp4_host spec packed scales \<or> (\<exists>m. r = Some (Inl (Io m)))"
      | b where "r = Some (Inr b)" "length b = mxfp4_len spec" "b \<in> ?G"
      | b j env' faults' packed' scales' where "r = Some (Inr b)" "length b = mxfp4_len spec" "j < k"
          "runs ! j = (env', faults', packed', scales')"
          "repack_nvfp4_to_mxfp4_host spec packed' scales' = Some (Inr b)"
      using Cons.IH [OF step(1)] by blast
    then show ?thesis
    proof cases
      case (2 b)
      then have "b \<in> G \<or> (\<exists>j < i. \<exists>env' faults' packed' scales'. (run # runs) ! j = (env', faults', packed', scales')
          \<and> repack_nvfp4_to_mxfp4_host spec packed' scales' = Some (Inr b))"
        using run Suc by (auto intro!: exI [of _ "0 :: nat"])
      with 2 show ?thesis by blast
    next
      case (3 b j env' faults' packed' scales')
      then have "\<exists>j < i. \<exists>env' faults' packed' scales'. (run # runs) ! j = (env', faults', packed', scales')
          \<and> repack_nvfp4_to_mxfp4_host spec packed' scales' = Some (Inr b)"
        using Suc by (intro exI [of _ "Suc j"]) simp
      with 3 show ?thesis by blast
    qed blast
  qed
qed simp

text \<open>
  C33: runs of \<open>cached_repack_nvfp4_to_mxfp4_host\<close> under one key, one after the other, each with its own weights, from any
  files on disk; whatever calls of the file system fail in a run and however much of a failing write
  reaches the disk. A run returns what repacking its own weights gives, or an I/O error, or a complete blob of the expected length: one that an
  earlier run repacked from its weights, or one that was on disk under the key at the start. It never returns a torn one of its own making.
  The key does not cover the contents of the weights, so the blob of an earlier run with other weights is possible
  (\<open>cache_serves_replaced_weights\<close>).
\<close>

theorem mxfp4_cache_never_torn:
  fixes runs :: "cache_run list"
  assumes "i < length runs" and "runs ! i = (env, faults, packed, scales)"
    and "r = disk_runs (map (\<lambda>(env, faults, packed, scales).
           cached_repack_nvfp4_to_mxfp4_host env faults tb mr spec w s packed scales) runs) files ! i"
  shows "r = repack_nvfp4_to_mxfp4_host spec packed scales \<or> (\<exists>m. r = Some (Inl (Io m)))
    \<or> (\<exists>b. r = Some (Inr b) \<and> length b = wrap64 (nv_rows spec * (nv_cols spec div 32) * 17)
         \<and> (files (native_mxfp4_cache_path tb mr spec w s) = Some b
            \<or> (\<exists>j < i. \<exists>env' faults' packed' scales'. runs ! j = (env', faults', packed', scales')
                 \<and> repack_nvfp4_to_mxfp4_host spec packed' scales' = Some (Inr b))))"
proof -
  have "cache_within (native_mxfp4_cache_path tb mr spec w s) (mxfp4_len spec)
      {b. files (native_mxfp4_cache_path tb mr spec w s) = Some b} files"
    by (simp add: cache_within_def)
  from cached_mxfp4_runs [OF this assms(1,2,3)] show ?thesis unfolding mxfp4_len_def by blast
qed

definition failing_rename :: disk_faults where
  "failing_rename = \<lparr>df_fails = \<lambda>call. if call = Rename then Some ''denied'' else None, df_written = 0\<rparr>"

text \<open>The first run fails to rename its file; the second then repacks again instead of reading a torn entry.\<close>

lemma mxfp4_cache_never_torn_witness:
  "\<exists>r out. r = disk_runs (map (\<lambda>(env, faults, packed, scales).
       cached_repack_nvfp4_to_mxfp4_host env faults (\<lambda>_. 0) ''m'' (demo_linear 1 32) demo_packed demo_scales packed scales)
         [(\<lambda>_. None, failing_rename, replicate 16 33, replicate 2 64), (\<lambda>_. None, no_faults, replicate 16 33, replicate 2 64)])
       (\<lambda>_. None) ! 1
     \<and> repack_nvfp4_to_mxfp4_host (demo_linear 1 32) (replicate 16 33) (replicate 2 64) = Some (Inr out)
     \<and> (r = Some (Inr out) \<or> (\<exists>m. r = Some (Inl (Io m))))"
proof -
  let ?runs = "[(\<lambda>_. None, failing_rename, replicate 16 33, replicate 2 64),
    (\<lambda>_. None, no_faults, replicate 16 33, replicate 2 64)] :: cache_run list"
  obtain out where out: "repack_nvfp4_to_mxfp4_host (demo_linear 1 32) (replicate 16 33) (replicate 2 64) = Some (Inr out)"
    by (simp add: repack_nvfp4_to_mxfp4_host_def wrap64_def u64_max_def)
  define r where r: "r = disk_runs (map (\<lambda>(env, faults, packed, scales).
       cached_repack_nvfp4_to_mxfp4_host env faults (\<lambda>_. 0) ''m'' (demo_linear 1 32) demo_packed demo_scales packed scales)
         ?runs) (\<lambda>_. None) ! 1"
  have "1 < length ?runs" "?runs ! 1 = (\<lambda>_. None, no_faults, replicate 16 33, replicate 2 64)" by simp_all
  from mxfp4_cache_never_torn [OF this r] out have "r = Some (Inr out) \<or> (\<exists>m. r = Some (Inl (Io m)))" by auto
  with r out show ?thesis by blast
qed

lemma cached_cutlass_step:
  assumes "repack_cutlass spec packed scales = Some (Inr h)"
    and "for_weight spec = Inr l"
    and "cache_sound (cutlass_nvfp4_cache_path tb mr spec w s l) (wrap64 (payload_bytes l + scale_bytes l))
           (ch_payload_e2m1 h @ ch_scales_ue4m3 h) files"
    and "cached_repack_cutlass env faults tb mr spec w s packed scales files = (files', r)"
  shows "cache_sound (cutlass_nvfp4_cache_path tb mr spec w s l) (wrap64 (payload_bytes l + scale_bytes l))
           (ch_payload_e2m1 h @ ch_scales_ue4m3 h) files'
    \<and> (r = Some (Inr h) \<or> (\<exists>m. r = Some (Inl (Io m))))"
proof -
  let ?path = "cutlass_nvfp4_cache_path tb mr spec w s l"
  have h: "ch_layout h = l" "length (ch_payload_e2m1 h) = payload_bytes l"
    using assms(1, 2) by (auto simp: repack_cutlass_def map_option_case map_sum_def split: if_splits option.splits sum.splits)
  obtain wf wr where wc: "write_cache faults files ?path (ch_payload_e2m1 h @ ch_scales_ue4m3 h) = (wf, wr)" by fastforce
  note checks = try_read_cache_sound [OF assms(3), of faults]
  note stores = write_cache_sound [OF cache_paths_bin(2) assms(3) wc]
  show ?thesis
    using assms checks stores h by (auto simp: cached_repack_cutlass_def Let_def wc [folded h(1)] split: if_splits)
qed

text \<open>
  A cached CUTLASS linear is split back into the payload and the scales it was written from: every
  run on a disk without the entry, and every later one, returns the repacked linear or an I/O error.
\<close>

theorem cutlass_cache_roundtrip:
  assumes "repack_cutlass spec packed scales = Some (Inr h)" "for_weight spec = Inr l"
    and "files (cutlass_nvfp4_cache_path tb mr spec w s l) = None"
    and "r \<in> set (disk_runs (map (\<lambda>(env, faults).
           cached_repack_cutlass env faults tb mr spec w s packed scales) runs) files)"
  shows "r = Some (Inr h) \<or> (\<exists>m. r = Some (Inl (Io m)))"
proof (rule disk_runs_invariant [OF _ _ assms(4)])
  show "cache_sound (cutlass_nvfp4_cache_path tb mr spec w s l) (wrap64 (payload_bytes l + scale_bytes l))
      (ch_payload_e2m1 h @ ch_scales_ue4m3 h) files"
    using assms(3) by (simp add: cache_sound_def)
qed (use cached_cutlass_step [OF assms(1, 2)] in \<open>fastforce\<close>)

lemma cutlass_cache_roundtrip_witness:
  "\<exists>h. \<forall>r \<in> set (disk_runs (map (\<lambda>(env, faults).
       cached_repack_cutlass env faults (\<lambda>_. 0) ''m'' (demo_linear 0 64) demo_packed demo_scales [] [])
         [(\<lambda>_. None, failing_rename), (\<lambda>_. None, no_faults)]) (\<lambda>_. None)).
     r = Some (Inr h) \<or> (\<exists>m. r = Some (Inl (Io m)))"
proof -
  obtain l where l: "for_weight (demo_linear 0 64) = Inr l" "payload_bytes l = 0"
    by (simp add: for_weight_def Let_def alignments payload_bytes_def wrap64_def)
  then obtain h where "repack_cutlass (demo_linear 0 64) [] [] = Some (Inr h)"
    by (simp add: repack_cutlass_def wrap64_def scale_cells_def)
  from cutlass_cache_roundtrip [OF this l(1), where files = "\<lambda>_. None"] show ?thesis by blast
qed

text \<open>
  The key names the shard file and the place of the tensor, not what it holds: with an entry on disk a
  run returns it whatever the weights are now.
\<close>

theorem cache_serves_replaced_weights:
  assumes "\<not> native_mxfp4_cache_disabled env" "expected_mxfp4_bytes spec = Inr (length data)"
    and "files (native_mxfp4_cache_path tb mr spec w s) = Some data"
  shows "cached_repack_nvfp4_to_mxfp4_host env no_faults tb mr spec w s packed scales files = (files, Some (Inr data))"
  using assms by (simp add: cached_repack_nvfp4_to_mxfp4_host_def Let_def try_read_cache_def no_faults_def)

end
