(* ===== verification/Sampling.thy ===== *)
theory Sampling
  imports Prelude "HOL-Library.Word"
begin

text \<open>
  The host sampler \<^verbatim>\<open>sample_next_token\<close> of \<^verbatim>\<open>aegisllm-base/src/executor/generation.rs\<close>.
  An \<^verbatim>\<open>f32\<close> is its 32 bits, so that the comparisons of the standard library
  (\<^verbatim>\<open>total_cmp\<close>, \<^verbatim>\<open><=\<close>, \<^verbatim>\<open>max\<close>, \<^verbatim>\<open>is_finite\<close>) are exact. The rounding
  arithmetic (\<^verbatim>\<open>+ - * /\<close> and \<^verbatim>\<open>exp\<close>) is a parameter, and so is the random draw
  \<open>u\<close>. A panic, an index out of range, is \<open>None\<close>.
\<close>

unbundle bit_operations_syntax

section \<open>f32 comparisons\<close>

type_synonym f32 = "32 word"

definition f32_neg_infinity :: f32 where
  "f32_neg_infinity = 0xFF800000"

definition f32_one :: f32 where
  "f32_one = 0x3F800000"

text \<open>\<^verbatim>\<open>1e-6_f32\<close>\<close>

definition f32_tiny :: f32 where
  "f32_tiny = 0x358637BD"

text \<open>
  \<^verbatim>\<open>total_cmp\<close> compares the bits as signed integers, the magnitude bits of a negative
  number flipped first.
\<close>

definition f32_key :: "f32 \<Rightarrow> int" where
  "f32_key w = (if bit w 31 then sint (w XOR 0x7FFFFFFF) else sint w)"

definition f32_is_finite :: "f32 \<Rightarrow> bool" where
  "f32_is_finite w \<longleftrightarrow> w AND 0x7F800000 \<noteq> 0x7F800000"

definition f32_is_nan :: "f32 \<Rightarrow> bool" where
  "f32_is_nan w \<longleftrightarrow> 0x7F800000 < w AND 0x7FFFFFFF"

definition f32_is_zero :: "f32 \<Rightarrow> bool" where
  "f32_is_zero w \<longleftrightarrow> w AND 0x7FFFFFFF = 0"

definition f32_lt :: "f32 \<Rightarrow> f32 \<Rightarrow> bool" where
  "f32_lt a b \<longleftrightarrow> \<not> f32_is_nan a \<and> \<not> f32_is_nan b
     \<and> \<not> (f32_is_zero a \<and> f32_is_zero b) \<and> f32_key a < f32_key b"

definition f32_le :: "f32 \<Rightarrow> f32 \<Rightarrow> bool" where
  "f32_le a b \<longleftrightarrow> \<not> f32_is_nan a \<and> \<not> f32_is_nan b
     \<and> (f32_is_zero a \<and> f32_is_zero b \<or> f32_key a \<le> f32_key b)"

definition f32_max :: "f32 \<Rightarrow> f32 \<Rightarrow> f32" where
  "f32_max a b = (if f32_is_nan a then b else if f32_is_nan b then a else if f32_lt a b then b else a)"

record f32_ops =
  f_add :: "f32 \<Rightarrow> f32 \<Rightarrow> f32"
  f_sub :: "f32 \<Rightarrow> f32 \<Rightarrow> f32"
  f_mul :: "f32 \<Rightarrow> f32 \<Rightarrow> f32"
  f_div :: "f32 \<Rightarrow> f32 \<Rightarrow> f32"
  f_exp :: "f32 \<Rightarrow> f32"

lemma f32_lt_not_le: "f32_lt a b \<Longrightarrow> \<not> f32_le b a"
  by (auto simp: f32_lt_def f32_le_def)

section \<open>The sampler\<close>

record sampling_config =
  temperature :: f32
  top_k :: nat
  top_p :: f32
  min_p :: f32

text \<open>\<^verbatim>\<open>max_by\<close> returns the last of several greatest elements.\<close>

definition argmax :: "f32 list \<Rightarrow> nat" where
  "argmax logits =
     (case max_by_key (\<lambda>(idx, logit). f32_key logit) (enumerate 0 logits) of
        None \<Rightarrow> 0 | Some (idx, logit) \<Rightarrow> idx)"

definition finite_candidates :: "f32 list \<Rightarrow> (nat \<times> f32) list" where
  "finite_candidates logits = filter (\<lambda>(idx, logit). f32_is_finite logit) (enumerate 0 logits)"

text \<open>The descending stable sort, then \<^verbatim>\<open>truncate(top_k)\<close>.\<close>

definition top_candidates :: "nat \<Rightarrow> (nat \<times> f32) list \<Rightarrow> (nat \<times> f32) list" where
  "top_candidates k candidates =
     (let sorted = sort_key (\<lambda>(idx, logit). - f32_key logit) candidates
      in if 0 < k \<and> k < length sorted then take k sorted else sorted)"

definition softmax_weights :: "f32_ops \<Rightarrow> f32 \<Rightarrow> (nat \<times> f32) list \<Rightarrow> (nat \<times> f32) list" where
  "softmax_weights ops temp candidates =
     (let max_logit = foldl (\<lambda>acc (idx, logit). f32_max acc logit) f32_neg_infinity candidates
      in filter (\<lambda>(idx, weight). f32_is_finite weight \<and> f32_lt 0 weight)
           (map (\<lambda>(idx, logit). (idx, f_exp ops (f_div ops (f_sub ops logit max_logit) temp))) candidates))"

definition weight_sum :: "f32_ops \<Rightarrow> (nat \<times> f32) list \<Rightarrow> f32" where
  "weight_sum ops weighted = foldl (\<lambda>acc (idx, weight). f_add ops acc weight) 0 weighted"

fun nucleus_keep :: "f32_ops \<Rightarrow> f32 \<Rightarrow> f32 \<Rightarrow> nat \<Rightarrow> (nat \<times> f32) list \<Rightarrow> nat" where
  "nucleus_keep ops cutoff cumulative keep [] = keep"
| "nucleus_keep ops cutoff cumulative keep ((idx, weight) # rest) =
     (let cumulative = f_add ops cumulative weight; keep = keep + 1
      in if f32_le cutoff cumulative then keep else nucleus_keep ops cutoff cumulative keep rest)"

definition top_p_filter :: "f32_ops \<Rightarrow> f32 \<Rightarrow> (nat \<times> f32) list \<Rightarrow> (nat \<times> f32) list" where
  "top_p_filter ops p weighted =
     (let sum = weight_sum ops weighted
      in if f32_lt 0 p \<and> f32_lt p f32_one \<and> f32_lt 0 sum
         then take (max (nucleus_keep ops (f_mul ops sum p) 0 0 weighted) 1) weighted
         else weighted)"

text \<open>\<open>weighted[0]\<close> panics on an empty list.\<close>

definition min_p_filter :: "f32_ops \<Rightarrow> f32 \<Rightarrow> (nat \<times> f32) list \<Rightarrow> (nat \<times> f32) list option" where
  "min_p_filter ops p weighted =
     (if f32_lt 0 p
      then (case weighted of
              [] \<Rightarrow> None
            | (idx, max_weight) # rest \<Rightarrow>
                Some (filter (\<lambda>(idx, weight). f32_le (f_mul ops max_weight p) weight) weighted))
      else Some weighted)"

fun draw_loop :: "f32_ops \<Rightarrow> f32 \<Rightarrow> (nat \<times> f32) list \<Rightarrow> nat option" where
  "draw_loop ops draw [] = None"
| "draw_loop ops draw ((idx, weight) # rest) =
     (if f32_le draw weight then Some idx else draw_loop ops (f_sub ops draw weight) rest)"

definition draw_token :: "f32_ops \<Rightarrow> f32 \<Rightarrow> f32 list \<Rightarrow> (nat \<times> f32) list \<Rightarrow> nat" where
  "draw_token ops u logits weighted =
     (let sum = weight_sum ops weighted
      in if f32_le sum 0 then argmax logits
         else (case draw_loop ops (f_mul ops u sum) weighted of
                 None \<Rightarrow> argmax logits | Some idx \<Rightarrow> idx))"

definition sample_next_token ::
  "f32_ops \<Rightarrow> f32 \<Rightarrow> f32 list \<Rightarrow> sampling_config \<Rightarrow> nat aegis_result option" where
  "sample_next_token ops u logits sampling =
     (if logits = [] then Some (Inl (InvalidPlan ''cannot sample from empty logits''))
      else if f32_le (temperature sampling) 0 \<or> top_k sampling = 1 then Some (Inr (argmax logits))
      else
        let temp = f32_max (temperature sampling) f32_tiny;
            candidates = finite_candidates logits
        in if candidates = [] then Some (Inr (argmax logits))
           else
             let weighted = softmax_weights ops temp (top_candidates (top_k sampling) candidates)
             in if weighted = [] then Some (Inr (argmax logits))
                else (case min_p_filter ops (min_p sampling)
                             (top_p_filter ops (top_p sampling) weighted) of
                        None \<Rightarrow> None
                      | Some kept \<Rightarrow>
                          if kept = [] then Some (Inr (argmax logits))
                          else Some (Inr (draw_token ops u logits kept))))"

section \<open>Where the drawn index comes from\<close>

lemma argmax_from: "max_by_key (\<lambda>(idx, logit). f32_key logit) (enumerate 0 logits) = Some (argmax logits, logits ! argmax logits)
    \<and> argmax logits < length logits" if "logits \<noteq> []"
proof -
  obtain p where p: "max_by_key (\<lambda>(idx, logit). f32_key logit) (enumerate 0 logits) = Some p"
    using \<open>logits \<noteq> []\<close> by (cases "max_by_key (\<lambda>(idx, logit). f32_key logit) (enumerate 0 logits)")
      (auto simp: enumerate_eq_zip)
  then have "p \<in> set (enumerate 0 logits)" by (rule max_by_key_in)
  then have "p = (fst p, logits ! fst p)" "fst p < length logits"
    by (simp_all add: in_set_enumerate_eq prod_eq_iff)
  with p show ?thesis by (metis (no_types, lifting) argmax_def case_prod_conv option.simps(5))
qed

lemma argmax_less: "logits \<noteq> [] \<Longrightarrow> argmax logits < length logits"
  using argmax_from by blast

lemma argmax_ge: "i < length logits \<Longrightarrow> f32_key (logits ! i) \<le> f32_key (logits ! argmax logits)"
proof -
  assume i: "i < length logits"
  then have "logits \<noteq> []" by auto
  moreover have "(i, logits ! i) \<in> set (enumerate 0 logits)" using i by (simp add: in_set_enumerate_eq)
  ultimately show ?thesis using argmax_from [of logits] max_by_key_ge by fastforce
qed

lemma finite_candidates_set:
  "(i, l) \<in> set (finite_candidates logits) \<longleftrightarrow> i < length logits \<and> logits ! i = l \<and> f32_is_finite l"
  by (auto simp: finite_candidates_def in_set_enumerate_eq)

lemma top_candidates_subset: "set (top_candidates k cs) \<subseteq> set cs"
  by (auto simp: top_candidates_def Let_def dest: in_set_takeD)

lemma softmax_weights_fst: "fst ` set (softmax_weights ops temp cs) \<subseteq> fst ` set cs"
  by (force simp: softmax_weights_def Let_def image_iff split_beta)

lemma top_p_subset: "set (top_p_filter ops p ws) \<subseteq> set ws"
  by (auto simp: top_p_filter_def Let_def dest: in_set_takeD)

lemma top_p_nonempty: "ws \<noteq> [] \<Longrightarrow> top_p_filter ops p ws \<noteq> []"
  by (auto simp: top_p_filter_def Let_def)

lemma min_p_subset: "min_p_filter ops p ws = Some kept \<Longrightarrow> set kept \<subseteq> set ws"
  by (auto simp: min_p_filter_def split: if_splits list.splits)

lemma min_p_no_panic: "ws \<noteq> [] \<Longrightarrow> \<exists>kept. min_p_filter ops p ws = Some kept"
  by (cases ws) (auto simp: min_p_filter_def)

lemma draw_loop_in: "draw_loop ops d ws = Some i \<Longrightarrow> i \<in> fst ` set ws"
  by (induction ops d ws rule: draw_loop.induct) (auto split: if_splits)

lemma draw_token_in: "draw_token ops u logits ws \<in> insert (argmax logits) (fst ` set ws)"
  by (auto simp: draw_token_def Let_def split: option.split dest: draw_loop_in)

text \<open>
  Every way through the sampler ends at the arg max or at one of the candidates that
  \<^verbatim>\<open>top_k\<close> kept.
\<close>

lemma sample_cases:
  assumes "logits \<noteq> []"
  obtains i where "sample_next_token ops u logits s = Some (Inr i)"
    "i = argmax logits \<or> i \<in> fst ` set (top_candidates (top_k s) (finite_candidates logits))"
proof (cases "f32_le (temperature s) 0 \<or> top_k s = 1 \<or> finite_candidates logits = []")
  case True
  then show ?thesis using assms by (intro that [of "argmax logits"]) (auto simp: sample_next_token_def Let_def)
next
  case False
  define ws where "ws = softmax_weights ops (f32_max (temperature s) f32_tiny)
    (top_candidates (top_k s) (finite_candidates logits))"
  show ?thesis
  proof (cases "ws = []")
    case True
    then show ?thesis using assms False
      by (intro that [of "argmax logits"]) (auto simp: sample_next_token_def Let_def ws_def)
  next
    case nonempty: False
    then obtain kept where kept: "min_p_filter ops (min_p s) (top_p_filter ops (top_p s) ws) = Some kept"
      using min_p_no_panic top_p_nonempty by blast
    have sub: "fst ` set kept \<subseteq> fst ` set (top_candidates (top_k s) (finite_candidates logits))"
      using min_p_subset [OF kept] top_p_subset [of ops "top_p s" ws] softmax_weights_fst
      unfolding ws_def by (meson image_mono order_trans)
    have "sample_next_token ops u logits s
        = Some (Inr (if kept = [] then argmax logits else draw_token ops u logits kept))"
      using assms False nonempty kept by (simp add: sample_next_token_def Let_def ws_def)
    moreover have "(if kept = [] then argmax logits else draw_token ops u logits kept) = argmax logits
      \<or> (if kept = [] then argmax logits else draw_token ops u logits kept)
        \<in> fst ` set (top_candidates (top_k s) (finite_candidates logits))"
      using draw_token_in [of ops u logits kept] sub by (cases "kept = []") auto
    ultimately show ?thesis by (rule that)
  qed
qed

text \<open>
  A kept candidate has fewer than \<^verbatim>\<open>top_k\<close> strictly greater finite logits before it.
\<close>

lemma sorted_greater_before:
  assumes "sorted (map f xs)" and "n < length xs"
  shows "{m. m < length xs \<and> f (xs ! m) < f (xs ! n)} \<subseteq> {..<n}"
proof
  fix m
  assume "m \<in> {m. m < length xs \<and> f (xs ! m) < f (xs ! n)}"
  then have m: "m < length xs" "f (xs ! m) < f (xs ! n)" by simp_all
  show "m \<in> {..<n}"
  proof (rule ccontr)
    assume "m \<notin> {..<n}"
    then have "n \<le> m" by simp
    then have "f (xs ! n) \<le> f (xs ! m)"
      using sorted_nth_mono [OF assms(1)] m(1) assms(2) by fastforce
    with m(2) show False by simp
  qed
qed

lemma card_smaller_in_sorted:
  assumes "x \<in> set (take k (sort_key f xs))"
  shows "length (filter (\<lambda>y. f y < f x) xs) < k"
proof -
  let ?s = "sort_key f xs"
  obtain n where n: "n < k" "n < length ?s" "?s ! n = x"
    using assms by (auto simp: in_set_conv_nth)
  have "length (filter (\<lambda>y. f y < f x) xs) = length (filter (\<lambda>y. f y < f x) ?s)"
    by (simp add: filter_sort)
  also have "\<dots> = card {m. m < length ?s \<and> f (?s ! m) < f x}"
    by (rule length_filter_conv_card)
  also have "\<dots> \<le> card {..<n}"
    by (rule card_mono) (use sorted_greater_before [of f ?s n] n in auto)
  finally show ?thesis using n(1) by simp
qed

text \<open>The finite logits strictly above logit \<open>i\<close>.\<close>

definition logits_above :: "f32 list \<Rightarrow> nat \<Rightarrow> f32 list" where
  "logits_above logits i =
     filter (\<lambda>l. f32_is_finite l \<and> f32_key (logits ! i) < f32_key l) logits"

lemma logits_above_candidates:
  "length (logits_above logits i)
     = length (filter (\<lambda>c. - f32_key (snd c) < - f32_key (logits ! i)) (finite_candidates logits))"
proof -
  have "logits_above logits i = map snd (filter (\<lambda>c. f32_is_finite (snd c)
      \<and> f32_key (logits ! i) < f32_key (snd c)) (enumerate 0 logits))"
    unfolding logits_above_def
    by (metis (no_types, lifting) comp_def filter_cong filter_map map_snd_enumerate)
  then show ?thesis
    by (simp add: finite_candidates_def split_beta conj_commute)
qed

lemma top_candidate_rank:
  assumes "0 < k" and "(i, l) \<in> set (top_candidates k (finite_candidates logits))"
  shows "i < length logits \<and> f32_is_finite (logits ! i) \<and> length (logits_above logits i) < k"
proof -
  let ?f = "\<lambda>c :: nat \<times> f32. - f32_key (snd c)"
  have key: "(\<lambda>(idx :: nat, logit). - f32_key logit) = ?f" by (auto simp: fun_eq_iff)
  have il: "i < length logits" "logits ! i = l" "f32_is_finite l"
    using assms(2) top_candidates_subset finite_candidates_set by blast+
  have "(i, l) \<in> set (take k (sort_key ?f (finite_candidates logits)))"
    using assms by (auto simp: top_candidates_def Let_def key not_less split: if_splits)
  then have "length (filter (\<lambda>c. ?f c < ?f (i, l)) (finite_candidates logits)) < k"
    by (rule card_smaller_in_sorted)
  with il show ?thesis by (simp add: logits_above_candidates)
qed

section \<open>Properties of the sampler\<close>

text \<open>
  Sampling from non-empty logits never panics and returns an index of the logits; only empty logits are an error.\<close>

theorem sample_index_valid:
  "(if logits = [] then sample_next_token ops u logits s
        = Some (Inl (InvalidPlan ''cannot sample from empty logits''))
    else (case sample_next_token ops u logits s of
            Some (Inr i) \<Rightarrow> i < length logits | _ \<Rightarrow> False))"
proof (cases "logits = []")
  case True
  then show ?thesis by (simp add: sample_next_token_def)
next
  case False
  obtain i where i: "sample_next_token ops u logits s = Some (Inr i)"
    "i = argmax logits \<or> i \<in> fst ` set (top_candidates (top_k s) (finite_candidates logits))"
    by (rule sample_cases [OF False])
  moreover have "i < length logits" using i(2)
  proof
    assume "i \<in> fst ` set (top_candidates (top_k s) (finite_candidates logits))"
    then show ?thesis using top_candidates_subset [of "top_k s" "finite_candidates logits"]
      by (fastforce simp: finite_candidates_set)
  qed (simp add: argmax_less False)
  ultimately show ?thesis using False by simp
qed

text \<open>
  With \<^verbatim>\<open>top_k\<close> set, whatever the random draw and the float arithmetic do, the sampled token is the arg max or a finite logit with fewer than \<^verbatim>\<open>top_k\<close> finite logits above it.\<close>

theorem sample_respects_top_k:
  assumes "logits \<noteq> []" and "0 < top_k s"
  shows "\<exists>i < length logits. sample_next_token ops u logits s = Some (Inr i)
    \<and> (i = argmax logits \<or> f32_is_finite (logits ! i) \<and> length (logits_above logits i) < top_k s)"
proof -
  obtain i where i: "sample_next_token ops u logits s = Some (Inr i)"
    "i = argmax logits \<or> i \<in> fst ` set (top_candidates (top_k s) (finite_candidates logits))"
    by (rule sample_cases [OF assms(1)])
  from i(2) show ?thesis
  proof
    assume "i = argmax logits"
    then show ?thesis using i(1) argmax_less [OF assms(1)] by blast
  next
    assume "i \<in> fst ` set (top_candidates (top_k s) (finite_candidates logits))"
    then obtain l where "(i, l) \<in> set (top_candidates (top_k s) (finite_candidates logits))" by auto
    from top_candidate_rank [OF assms(2) this] i(1) show ?thesis by blast
  qed
qed

text \<open>
  Greedy sampling returns the last index of the greatest logit in \<^verbatim>\<open>total_cmp\<close> order, independent of the draw.\<close>

theorem greedy_sampling_is_argmax:
  assumes "logits \<noteq> []" and "f32_le (temperature s) 0 \<or> top_k s = 1"
  shows "\<exists>i < length logits. sample_next_token ops u logits s = Some (Inr i)
    \<and> (\<forall>j < length logits. f32_key (logits ! j) \<le> f32_key (logits ! i))"
  using assms argmax_less [OF assms(1)] argmax_ge [of _ logits]
  by (intro exI [of _ "argmax logits"]) (auto simp: sample_next_token_def)

section \<open>Concrete logits\<close>

text \<open>The logits 0, 3, 1 and arithmetic that rounds everything to 1.\<close>

definition demo_ops :: f32_ops where
  "demo_ops = \<lparr>f_add = (\<lambda>a b. f32_one), f_sub = (\<lambda>a b. f32_one), f_mul = (\<lambda>a b. f32_one),
     f_div = (\<lambda>a b. f32_one), f_exp = (\<lambda>a. f32_one)\<rparr>"

lemma greedy_sampling_is_argmax_witness:
  "\<exists>i < 3. sample_next_token demo_ops 0 [0, 0x40400000, f32_one] \<lparr>temperature = 0, top_k = 64, top_p = f32_one, min_p = 0\<rparr>
      = Some (Inr i)
    \<and> (\<forall>j < 3. f32_key ([0, 0x40400000, f32_one] ! j) \<le> f32_key ([0, 0x40400000, f32_one] ! i))"
proof -
  have "f32_le 0 0" by code_simp
  then show ?thesis
    using greedy_sampling_is_argmax [of "[0, 0x40400000, f32_one]"
        "\<lparr>temperature = 0, top_k = 64, top_p = f32_one, min_p = 0\<rparr>" demo_ops 0] by (simp add: eval_nat_numeral)
qed

lemma sample_respects_top_k_witness:
  "\<exists>i < 3. sample_next_token demo_ops f32_one [0, 0x40400000, f32_one]
       \<lparr>temperature = f32_one, top_k = 2, top_p = f32_one, min_p = 0\<rparr> = Some (Inr i)
    \<and> (i = argmax [0, 0x40400000, f32_one]
       \<or> f32_is_finite ([0, 0x40400000, f32_one] ! i) \<and> length (logits_above [0, 0x40400000, f32_one] i) < 2)"
  using sample_respects_top_k [of "[0, 0x40400000, f32_one]"
      "\<lparr>temperature = f32_one, top_k = 2, top_p = f32_one, min_p = 0\<rparr>" demo_ops f32_one]
  by (simp add: eval_nat_numeral)

end
