(* ===== verification/Generation.thy ===== *)
theory Generation
  imports Sampling
begin

text \<open>
  The generation loops of \<^verbatim>\<open>aegisllm-base/src/executor/generation.rs\<close> over the trait
  \<^verbatim>\<open>GenerationBackendPrimitives\<close> (\<^verbatim>\<open>executor/traits.rs\<close>), with the request types of
  \<^verbatim>\<open>generation.rs\<close>. A backend is a record of its trait methods over a sequence state
  \<open>'s\<close>; the random number generator of the process is part of \<open>'s\<close>. The state is a
  local value of each function, dropped when the function fails, so a failing call returns
  only the error. Timings and the debug dump of \<^verbatim>\<open>AEGIS_DRAFT_TRACE\<close> are left out.
\<close>

section \<open>Requests and backends\<close>

record image_injection =
  ii_data :: "f32 list"
  ii_n_tokens :: nat
  ii_hidden :: nat
  ii_image_token_id :: nat
  ii_grid_thw :: "(nat \<times> nat \<times> nat) option"
  ii_spatial_merge_size :: nat

record audio_injection =
  ai_data :: "f32 list"
  ai_n_tokens :: nat
  ai_hidden :: nat
  ai_audio_token_id :: nat

record generate_request =
  rq_prompt :: string
  rq_max_tokens :: nat
  rq_sampling :: sampling_config
  rq_stop_token_ids :: "nat list"
  rq_image_injection :: "image_injection option"
  rq_audio_injection :: "audio_injection option"

record generate_output =
  go_text :: string
  go_prompt_tokens :: nat
  go_completion_tokens :: nat
  go_finish_reason :: string

definition sampling_default :: sampling_config where
  "sampling_default = \<lparr>temperature = 0, top_k = 0, top_p = f32_one, min_p = 0\<rparr>"

definition request_default :: generate_request where
  "request_default = \<lparr>rq_prompt = [], rq_max_tokens = 0, rq_sampling = sampling_default,
     rq_stop_token_ids = [], rq_image_injection = None, rq_audio_injection = None\<rparr>"

record 's backend_primitives =
  gb_encode_prompt :: "string \<Rightarrow> nat list aegis_result"
  gb_decode_tokens :: "nat list \<Rightarrow> string aegis_result"
  gb_is_eos :: "nat \<Rightarrow> bool"
  gb_new_sequence_state :: "'s aegis_result"
  gb_forward_hidden :: "'s \<Rightarrow> nat \<Rightarrow> 's aegis_result"
  gb_forward_logits :: "'s \<Rightarrow> nat \<Rightarrow> (f32 list \<times> 's) aegis_result"
  gb_prefill_prompt :: "'s \<Rightarrow> nat list \<Rightarrow> sampling_config \<Rightarrow> (nat \<times> 's) aegis_result"
  gb_forward_next_token :: "'s \<Rightarrow> nat \<Rightarrow> sampling_config \<Rightarrow> (nat \<times> 's) aegis_result"
  gb_set_image_injection :: "'s \<Rightarrow> image_injection \<Rightarrow> 's aegis_result"
  gb_set_audio_injection :: "'s \<Rightarrow> audio_injection \<Rightarrow> 's aegis_result"

text \<open>
  The default methods of the trait. \<open>rng\<close> is \<^verbatim>\<open>rand::random\<close>; the sampler does not
  panic (\<open>sample_index_valid\<close>).
\<close>

definition default_forward_next_token ::
  "f32_ops \<Rightarrow> ('s \<Rightarrow> f32 \<times> 's) \<Rightarrow> 's backend_primitives \<Rightarrow> 's \<Rightarrow> nat \<Rightarrow> sampling_config
     \<Rightarrow> (nat \<times> 's) aegis_result" where
  "default_forward_next_token ops rng B state token_id sampling =
     res_bind (gb_forward_logits B state token_id)
       (\<lambda>(logits, state).
          let (u, state) = rng state
          in res_bind (the (sample_next_token ops u logits sampling)) (\<lambda>token. Inr (token, state)))"

fun hidden_loop :: "'s backend_primitives \<Rightarrow> 's \<Rightarrow> nat list \<Rightarrow> 's aegis_result" where
  "hidden_loop B state [] = Inr state"
| "hidden_loop B state (token # rest) =
     res_bind (gb_forward_hidden B state token) (\<lambda>state. hidden_loop B state rest)"

definition prefill_prompt_token_by_token ::
  "'s backend_primitives \<Rightarrow> 's \<Rightarrow> nat list \<Rightarrow> sampling_config \<Rightarrow> (nat \<times> 's) aegis_result" where
  "prefill_prompt_token_by_token B state prompt_tokens sampling =
     (if prompt_tokens = [] then Inl (InvalidConfig ''prompt produced no tokens'')
      else res_bind (hidden_loop B state (butlast prompt_tokens))
             (\<lambda>state. gb_forward_next_token B state (last prompt_tokens) sampling))"

definition prefill_prompt_logits ::
  "'s backend_primitives \<Rightarrow> 's \<Rightarrow> nat list \<Rightarrow> (f32 list \<times> 's) aegis_result" where
  "prefill_prompt_logits B state prompt_tokens =
     (if prompt_tokens = [] then Inl (InvalidConfig ''prompt produced no tokens'')
      else res_bind (hidden_loop B state (butlast prompt_tokens))
             (\<lambda>state. gb_forward_logits B state (last prompt_tokens)))"

section \<open>The batch loop\<close>

text \<open>The body of \<^verbatim>\<open>for _ in 0..max_tokens\<close>; \<open>rem\<close> counts the iterations left.\<close>

fun decode_loop ::
  "'s backend_primitives \<Rightarrow> generate_request \<Rightarrow> nat \<Rightarrow> 's \<Rightarrow> nat \<Rightarrow> nat list
     \<Rightarrow> (nat list \<times> string) aegis_result" where
  "decode_loop B request 0 state nxt generated = Inr (generated, ''length'')"
| "decode_loop B request (Suc rem) state nxt generated =
     (if gb_is_eos B nxt then Inr (generated, ''eos_token'')
      else if nxt \<in> set (rq_stop_token_ids request) then Inr (generated @ [nxt], ''stop'')
      else let generated = generated @ [nxt]
           in if length generated < rq_max_tokens request
              then res_bind (gb_forward_next_token B state nxt (rq_sampling request))
                     (\<lambda>(nxt, state). decode_loop B request rem state nxt generated)
              else decode_loop B request rem state nxt generated)"

text \<open>What both loops do before the first token: encode, new state, injections, prefill.\<close>

definition inject :: "('s \<Rightarrow> 'i \<Rightarrow> 's aegis_result) \<Rightarrow> 's \<Rightarrow> 'i option \<Rightarrow> 's aegis_result" where
  "inject set_injection state injection =
     (case injection of None \<Rightarrow> Inr state | Some i \<Rightarrow> set_injection state i)"

definition start_generation ::
  "'s backend_primitives \<Rightarrow> generate_request \<Rightarrow> (nat list \<times> nat \<times> 's) aegis_result" where
  "start_generation B request =
     res_bind (gb_encode_prompt B (rq_prompt request)) (\<lambda>prompt_tokens.
     if prompt_tokens = [] then Inl (InvalidConfig ''prompt produced no tokens'')
     else res_bind (gb_new_sequence_state B) (\<lambda>state.
       res_bind (inject (gb_set_image_injection B) state (rq_image_injection request)) (\<lambda>state.
       res_bind (inject (gb_set_audio_injection B) state (rq_audio_injection request)) (\<lambda>state.
       res_bind (gb_prefill_prompt B state prompt_tokens (rq_sampling request)) (\<lambda>(nxt, state).
       Inr (prompt_tokens, nxt, state))))))"

definition finish_output ::
  "'s backend_primitives \<Rightarrow> nat list \<Rightarrow> nat list \<times> string \<Rightarrow> generate_output aegis_result" where
  "finish_output B prompt_tokens result =
     res_bind (gb_decode_tokens B (fst result)) (\<lambda>txt.
       Inr \<lparr>go_text = txt, go_prompt_tokens = length prompt_tokens,
            go_completion_tokens = length (fst result), go_finish_reason = snd result\<rparr>)"

definition generate_with_backend ::
  "'s backend_primitives \<Rightarrow> generate_request \<Rightarrow> generate_output aegis_result" where
  "generate_with_backend B request =
     res_bind (start_generation B request) (\<lambda>(prompt_tokens, nxt, state).
       res_bind (decode_loop B request (rq_max_tokens request) state nxt [])
         (finish_output B prompt_tokens))"

section \<open>The streaming loop\<close>

text \<open>
  The callback is a function of its own state \<open>'c\<close>; its first result says \<^verbatim>\<open>Break\<close>.
  \<^verbatim>\<open>decode_tokens(..).unwrap_or_default()\<close> is the empty text on an error.
\<close>

definition token_text :: "'s backend_primitives \<Rightarrow> nat \<Rightarrow> string" where
  "token_text B token = (case gb_decode_tokens B [token] of Inl e \<Rightarrow> [] | Inr txt \<Rightarrow> txt)"

fun stream_loop ::
  "'s backend_primitives \<Rightarrow> generate_request \<Rightarrow> ('c \<Rightarrow> nat \<Rightarrow> string \<Rightarrow> bool \<times> 'c) \<Rightarrow> nat \<Rightarrow> 'c \<Rightarrow> 's
     \<Rightarrow> nat \<Rightarrow> nat list \<Rightarrow> 'c \<times> (nat list \<times> string) aegis_result" where
  "stream_loop B request callback 0 c state nxt generated = (c, Inr (generated, ''length''))"
| "stream_loop B request callback (Suc rem) c state nxt generated =
     (if gb_is_eos B nxt then (c, Inr (generated, ''eos_token''))
      else
        let stopped = nxt \<in> set (rq_stop_token_ids request);
            generated = generated @ [nxt];
            (brk, c) = callback c nxt (token_text B nxt)
        in if brk then (c, Inr (generated, ''length''))
           else if stopped then (c, Inr (generated, ''stop''))
           else if length generated < rq_max_tokens request
           then (case gb_forward_next_token B state nxt (rq_sampling request) of
                   Inl e \<Rightarrow> (c, Inl e)
                 | Inr (nxt, state) \<Rightarrow> stream_loop B request callback rem c state nxt generated)
           else stream_loop B request callback rem c state nxt generated)"

definition generate_streaming ::
  "'s backend_primitives \<Rightarrow> generate_request \<Rightarrow> ('c \<Rightarrow> nat \<Rightarrow> string \<Rightarrow> bool \<times> 'c) \<Rightarrow> 'c
     \<Rightarrow> 'c \<times> generate_output aegis_result" where
  "generate_streaming B request callback c =
     (case start_generation B request of
        Inl e \<Rightarrow> (c, Inl e)
      | Inr (prompt_tokens, nxt, state) \<Rightarrow>
          (case stream_loop B request callback (rq_max_tokens request) c state nxt [] of
             (c, r) \<Rightarrow> (c, res_bind r (finish_output B prompt_tokens))))"

section \<open>The reference: cutting the model's token stream\<close>

text \<open>
  The tokens the model produces one after the other, at most \<open>n\<close> of them, with the error
  that ended the stream early.
\<close>

fun model_tokens ::
  "'s backend_primitives \<Rightarrow> sampling_config \<Rightarrow> nat \<Rightarrow> 's \<Rightarrow> nat \<Rightarrow> nat list \<times> aegis_error option" where
  "model_tokens B sampling 0 state nxt = ([], None)"
| "model_tokens B sampling (Suc n) state nxt =
     (if n = 0 then ([nxt], None)
      else (case gb_forward_next_token B state nxt sampling of
              Inl e \<Rightarrow> ([nxt], Some e)
            | Inr (nxt', state) \<Rightarrow> apfst (Cons nxt) (model_tokens B sampling n state nxt')))"

text \<open>Up to the first end-of-sequence token, or through the first stop token.\<close>

fun cut_tokens :: "(nat \<Rightarrow> bool) \<Rightarrow> nat list \<Rightarrow> nat list \<Rightarrow> nat list \<times> string" where
  "cut_tokens eos stops [] = ([], ''length'')"
| "cut_tokens eos stops (t # ts) =
     (if eos t then ([], ''eos_token'')
      else if t \<in> set stops then ([t], ''stop'')
      else apfst (Cons t) (cut_tokens eos stops ts))"

definition cut_stream ::
  "(nat \<Rightarrow> bool) \<Rightarrow> nat list \<Rightarrow> nat list \<times> aegis_error option \<Rightarrow> (nat list \<times> string) aegis_result" where
  "cut_stream eos stops stream =
     (case cut_tokens eos stops (fst stream) of
        (tokens, reason) \<Rightarrow>
          (case snd stream of
             None \<Rightarrow> Inr (tokens, reason)
           | Some e \<Rightarrow> if reason = ''length'' then Inl e else Inr (tokens, reason)))"

lemma cut_stream_step:
  "cut_stream eos stops (apfst (Cons t) stream) =
     (if eos t then Inr ([], ''eos_token'')
      else if t \<in> set stops then Inr ([t], ''stop'')
      else map_sum id (apfst (Cons t)) (cut_stream eos stops stream))"
  by (cases stream) (auto simp: cut_stream_def split: option.split prod.split)

lemma map_sum_snoc:
  "map_sum id (apfst (append (g @ [t]))) r
    = map_sum id (apfst (append g)) (map_sum id (apfst (Cons t)) r)"
  by (cases r) auto

text \<open>The loop with tokens already generated is the cut of the rest, appended.\<close>

lemma decode_loop_cut:
  assumes "length generated + rem = rq_max_tokens request"
  shows "decode_loop B request rem state nxt generated
    = map_sum id (apfst (append generated))
        (cut_stream (gb_is_eos B) (rq_stop_token_ids request)
           (model_tokens B (rq_sampling request) rem state nxt))"
  using assms
proof (induction rem arbitrary: state nxt generated)
  case 0
  then show ?case by (simp add: cut_stream_def)
next
  case (Suc rem)
  show ?case
  proof (cases "rem = 0")
    case True
    with Suc.prems show ?thesis by (auto simp: cut_stream_def)
  next
    case False
    then have less: "length (generated @ [nxt]) < rq_max_tokens request" using Suc.prems by simp
    show ?thesis
    proof (cases "gb_forward_next_token B state nxt (rq_sampling request)")
      case (Inl e)
      with False less show ?thesis by (auto simp: cut_stream_def)
    next
      case (Inr r)
      obtain nxt' state' where r: "r = (nxt', state')" by (cases r)
      have step: "decode_loop B request rem state' nxt' (generated @ [nxt])
        = map_sum id (apfst (append (generated @ [nxt])))
            (cut_stream (gb_is_eos B) (rq_stop_token_ids request)
               (model_tokens B (rq_sampling request) rem state' nxt'))"
        by (rule Suc.IH) (use Suc.prems in simp)
      have "model_tokens B (rq_sampling request) (Suc rem) state nxt
        = apfst (Cons nxt) (model_tokens B (rq_sampling request) rem state' nxt')"
        using False Inr r by simp
      then show ?thesis
        using False less Inr r by (simp add: cut_stream_step step map_sum_snoc Let_def) (simp add: id_def)
    qed
  qed
qed

lemma cut_tokens_shape:
  "cut_tokens eos stops ts = (g, r) \<Longrightarrow>
     prefix g ts \<and> r \<in> {''length'', ''eos_token'', ''stop''}
     \<and> (\<forall>t \<in> set g. \<not> eos t) \<and> (\<forall>t \<in> set (butlast g). t \<notin> set stops)
     \<and> (r = ''stop'' \<longleftrightarrow> g \<noteq> [] \<and> last g \<in> set stops)
     \<and> (r = ''length'' \<longrightarrow> g = ts)
     \<and> (r = ''eos_token'' \<longrightarrow> length g < length ts \<and> eos (ts ! length g))"
proof (induction ts arbitrary: g r)
  case (Cons t ts)
  show ?case
  proof (cases "eos t \<or> t \<in> set stops")
    case True
    with Cons.prems show ?thesis by (auto split: if_splits)
  next
    case False
    obtain g' where "cut_tokens eos stops ts = (g', r)" "g = t # g'"
      using Cons.prems False by (cases "cut_tokens eos stops ts") auto
    with Cons.IH [of g' r] False show ?thesis by (cases "g' = []") auto
  qed
qed auto

lemma model_tokens_length:
  "length (fst (model_tokens B sampling n state nxt)) \<le> n
   \<and> (snd (model_tokens B sampling n state nxt) = None
        \<longrightarrow> length (fst (model_tokens B sampling n state nxt)) = n)"
proof (induction n arbitrary: state nxt)
  case (Suc n)
  show ?case
  proof (cases "gb_forward_next_token B state nxt sampling")
    case (Inr r)
    obtain t s where "r = (t, s)" by (cases r)
    with Inr Suc.IH [of s t] show ?thesis by simp
  qed simp
qed simp

text \<open>The streaming loop with a callback that never breaks is the batch loop.\<close>

lemma stream_loop_batch:
  assumes "\<And>c t txt. \<not> fst (callback c t txt)"
    and "length generated + rem = rq_max_tokens request"
  shows "snd (stream_loop B request callback rem c state nxt generated)
    = decode_loop B request rem state nxt generated"
  using assms(2)
proof (induction rem arbitrary: c state nxt generated)
  case (Suc rem)
  obtain c' where cb: "callback c nxt (token_text B nxt) = (False, c')"
    using assms(1) [of c nxt "token_text B nxt"]
    by (cases "callback c nxt (token_text B nxt)") auto
  have IH: "snd (stream_loop B request callback rem c' s t (generated @ [nxt]))
      = decode_loop B request rem s t (generated @ [nxt])" for s t
    by (rule Suc.IH) (use Suc.prems in simp)
  show ?case
    by (simp add: cb IH res_bind_def Let_def split: sum.split prod.split)
qed simp

text \<open>The callback sees each generated token once, in order.\<close>

definition deliver ::
  "'s backend_primitives \<Rightarrow> ('c \<Rightarrow> nat \<Rightarrow> string \<Rightarrow> bool \<times> 'c) \<Rightarrow> 'c \<Rightarrow> nat list \<Rightarrow> 'c" where
  "deliver B callback c tokens = foldl (\<lambda>c t. snd (callback c t (token_text B t))) c tokens"

lemma stream_loop_delivers:
  assumes "stream_loop B request callback rem c state nxt generated = (c', Inr (tokens, reason))"
  shows "\<exists>new. tokens = generated @ new \<and> c' = deliver B callback c new"
  using assms
proof (induction rem arbitrary: c state nxt generated)
  case 0
  then show ?case by (simp add: deliver_def)
next
  case (Suc rem)
  obtain brk d where cb: "callback c nxt (token_text B nxt) = (brk, d)" by fastforce
  have one: "deliver B callback c (nxt # new) = deliver B callback d new" for new
    by (simp add: deliver_def cb)
  consider (eos) "gb_is_eos B nxt" "tokens = generated" "c' = c"
    | (last) "tokens = generated @ [nxt]" "c' = d"
    | (more) s t where "stream_loop B request callback rem d s t (generated @ [nxt])
        = (c', Inr (tokens, reason))"
    using Suc.prems by (auto simp: cb Let_def split: if_splits sum.splits)
  then show ?case
  proof cases
    case eos
    then show ?thesis by (simp add: deliver_def)
  next
    case last
    then show ?thesis by (intro exI [of _ "[nxt]"]) (simp add: deliver_def cb)
  next
    case more
    from Suc.IH [OF this] obtain new where "tokens = (generated @ [nxt]) @ new"
      "c' = deliver B callback d new" by blast
    then show ?thesis by (intro exI [of _ "nxt # new"]) (simp add: one)
  qed
qed

section \<open>Properties of the generation loops\<close>

text \<open>The whole call, over the cut stream.\<close>

lemma generate_is_cut:
  "generate_with_backend B request
    = res_bind (start_generation B request) (\<lambda>(prompt_tokens, nxt, state).
        res_bind (cut_stream (gb_is_eos B) (rq_stop_token_ids request)
                    (model_tokens B (rq_sampling request) (rq_max_tokens request) state nxt))
          (finish_output B prompt_tokens))"
proof -
  have "map_sum id (apfst (append [])) r = r" for r :: "(nat list \<times> string) aegis_result"
    by (cases r) auto
  then show ?thesis
    by (simp add: generate_with_backend_def decode_loop_cut)
qed

text \<open>
  C21: generation returns the model's token stream cut before the first end-of-sequence token, through the first stop token, and at \<^verbatim>\<open>max_tokens\<close>; a forward error is returned only when the cut needs tokens past it.\<close>

theorem generation_cuts_the_stream:
  "generate_with_backend B request
    = res_bind (start_generation B request) (\<lambda>(prompt_tokens, nxt, state).
        res_bind (cut_stream (gb_is_eos B) (rq_stop_token_ids request)
                    (model_tokens B (rq_sampling request) (rq_max_tokens request) state nxt))
          (finish_output B prompt_tokens))"
  by (rule generate_is_cut)

text \<open>
  An answer has at most \<^verbatim>\<open>max_tokens\<close> tokens; it reports \<^verbatim>\<open>length\<close> exactly when it was cut by the limit, with that many tokens, and its text is the decoding of those tokens.\<close>

theorem generation_finish_reason:
  assumes "generate_with_backend B request = Inr out"
  shows "\<exists>tokens. gb_decode_tokens B tokens = Inr (go_text out)
    \<and> length tokens = go_completion_tokens out \<and> length tokens \<le> rq_max_tokens request
    \<and> (\<forall>t \<in> set tokens. \<not> gb_is_eos B t)
    \<and> (\<forall>t \<in> set (butlast tokens). t \<notin> set (rq_stop_token_ids request))
    \<and> (if go_finish_reason out = ''length'' then length tokens = rq_max_tokens request
       else if go_finish_reason out = ''stop''
       then tokens \<noteq> [] \<and> last tokens \<in> set (rq_stop_token_ids request)
       else go_finish_reason out = ''eos_token'' \<and> length tokens < rq_max_tokens request)"
proof -
  obtain p nxt st where st: "start_generation B request = Inr (p, nxt, st)"
    using assms by (auto simp: generate_is_cut res_simps)
  let ?stream = "model_tokens B (rq_sampling request) (rq_max_tokens request) st nxt"
  obtain tokens reason where cut: "cut_stream (gb_is_eos B) (rq_stop_token_ids request) ?stream
      = Inr (tokens, reason)" and out: "finish_output B p (tokens, reason) = Inr out"
    using assms st by (auto simp: generate_is_cut res_simps)
  have shape: "cut_tokens (gb_is_eos B) (rq_stop_token_ids request) (fst ?stream) = (tokens, reason)"
    and complete: "reason = ''length'' \<Longrightarrow> snd ?stream = None"
    using cut by (auto simp: cut_stream_def split: prod.splits option.splits if_splits)
  have "length (fst ?stream) \<le> rq_max_tokens request"
    and "snd ?stream = None \<Longrightarrow> length (fst ?stream) = rq_max_tokens request"
    by (simp_all add: model_tokens_length)
  then have "length tokens \<le> rq_max_tokens request"
    and "reason = ''length'' \<Longrightarrow> length tokens = rq_max_tokens request"
    and "reason = ''eos_token'' \<Longrightarrow> length tokens < rq_max_tokens request"
    using cut_tokens_shape [OF shape] complete prefix_length_le [of tokens "fst ?stream"] by auto
  moreover have "gb_decode_tokens B tokens = Inr (go_text out)"
    "go_completion_tokens out = length tokens" "go_finish_reason out = reason"
    using out by (auto simp: finish_output_def res_simps)
  ultimately show ?thesis using cut_tokens_shape [OF shape] by (intro exI [of _ tokens]) auto
qed

text \<open>
  With a callback that never breaks, streaming returns what batch generation returns, and the callback has seen the generated tokens once each, in order.\<close>

theorem streaming_agrees_with_batch:
  assumes "\<And>c t txt. \<not> fst (callback c t txt)"
  shows "snd (generate_streaming B request callback c) = generate_with_backend B request"
    and "generate_streaming B request callback c = (c', Inr out) \<Longrightarrow>
      \<exists>tokens. length tokens = go_completion_tokens out \<and> gb_decode_tokens B tokens = Inr (go_text out)
        \<and> c' = deliver B callback c tokens"
proof -
  show "snd (generate_streaming B request callback c) = generate_with_backend B request"
    using stream_loop_batch [of callback "[]" _ request B c] assms
    by (auto simp: generate_streaming_def generate_with_backend_def split: sum.split prod.split)
      (metis snd_conv list.size(3) add_0)+
next
  assume "generate_streaming B request callback c = (c', Inr out)"
  then obtain p nxt st tokens reason where
    "stream_loop B request callback (rq_max_tokens request) c st nxt [] = (c', Inr (tokens, reason))"
    "finish_output B p (tokens, reason) = Inr out"
    by (auto simp: generate_streaming_def res_simps split: sum.splits prod.splits)
  with stream_loop_delivers show "\<exists>tokens. length tokens = go_completion_tokens out
      \<and> gb_decode_tokens B tokens = Inr (go_text out) \<and> c' = deliver B callback c tokens"
    by (fastforce simp: finish_output_def res_simps)
qed

text \<open>
  When the callback breaks, streaming stops at that token and still reports \<^verbatim>\<open>length\<close>, however many tokens were left.\<close>

theorem cancelled_stream_reports_length:
  assumes "start_generation B request = Inr (prompt_tokens, nxt, state)"
    and "0 < rq_max_tokens request" and "\<not> gb_is_eos B nxt"
    and "callback c nxt (token_text B nxt) = (True, c')"
  shows "generate_streaming B request callback c
    = (c', finish_output B prompt_tokens ([nxt], ''length''))"
proof -
  obtain m where "rq_max_tokens request = Suc m" using assms(2) by (cases "rq_max_tokens request") auto
  then show ?thesis using assms by (simp add: generate_streaming_def)
qed

section \<open>A concrete run\<close>

text \<open>A backend that counts upwards from 3; 6 is the end of sequence.\<close>

definition demo_backend :: "nat backend_primitives" where
  "demo_backend = \<lparr>
     gb_encode_prompt = (\<lambda>prompt. Inr [1, 2]),
     gb_decode_tokens = (\<lambda>tokens. Inr (concat (map show_nat tokens))),
     gb_is_eos = (\<lambda>t. t = 6),
     gb_new_sequence_state = Inr 0,
     gb_forward_hidden = (\<lambda>s t. Inr (s + 1)),
     gb_forward_logits = (\<lambda>s t. Inr ([0, f32_one], s + 1)),
     gb_prefill_prompt = (\<lambda>s tokens sampling. Inr (3, s)),
     gb_forward_next_token = (\<lambda>s t sampling. Inr (t + 1, s + 1)),
     gb_set_image_injection = (\<lambda>s i. Inr s),
     gb_set_audio_injection = (\<lambda>s i. Inr s)\<rparr>"

definition demo_generate_request :: generate_request where
  "demo_generate_request = request_default\<lparr>rq_max_tokens := 2\<rparr>"

lemmas demo_generation = demo_backend_def demo_generate_request_def request_default_def
  start_generation_def inject_def finish_output_def

lemma demo_generates:
  "generate_with_backend demo_backend demo_generate_request
    = Inr \<lparr>go_text = show_nat 3 @ show_nat 4, go_prompt_tokens = 2, go_completion_tokens = 2,
           go_finish_reason = ''length''\<rparr>"
  by (simp add: demo_generation generate_with_backend_def numeral_2_eq_2 Let_def)

lemma demo_streams:
  "generate_streaming demo_backend demo_generate_request (\<lambda>c t txt. (False, c @ [t])) []
    = ([3, 4], Inr \<lparr>go_text = show_nat 3 @ show_nat 4, go_prompt_tokens = 2,
        go_completion_tokens = 2, go_finish_reason = ''length''\<rparr>)"
  by (simp add: demo_generation generate_streaming_def numeral_2_eq_2 Let_def)

lemma generation_finish_reason_witness:
  "\<exists>tokens :: nat list. length tokens = 2 \<and> (\<forall>t \<in> set tokens. t \<noteq> 6)"
  using generation_finish_reason [OF demo_generates]
  by (auto simp: demo_backend_def)

lemma streaming_agrees_with_batch_witness:
  "snd (generate_streaming demo_backend demo_generate_request (\<lambda>c t txt. (False, c @ [t])) [])
    = generate_with_backend demo_backend demo_generate_request
   \<and> (\<exists>tokens. length tokens = 2
        \<and> [3, 4] = deliver demo_backend (\<lambda>c t txt. (False, c @ [t])) [] tokens)"
  using streaming_agrees_with_batch [of "\<lambda>c t txt. (False, c @ [t])" demo_backend demo_generate_request "[]"]
    demo_streams by fastforce

lemma cancelled_stream_reports_length_witness:
  "generate_streaming demo_backend demo_generate_request (\<lambda>c t txt. (True, c @ [t])) []
    = ([3], finish_output demo_backend [1, 2] ([3], ''length''))"
  by (rule cancelled_stream_reports_length) (simp_all add: demo_generation)

end
