(* ===== verification/Speculative.thy ===== *)
theory Speculative
  imports Generation PrefillRun
begin

text \<open>
  Greedy speculative decoding on the CUDA executor: the draft-model loop
  \<^verbatim>\<open>generate_speculative_greedy\<close> (\<^verbatim>\<open>executor/speculative.rs\<close>), the loop with
  the checkpoint's own draft head \<^verbatim>\<open>generate_speculative_mtp_greedy\<close>
  (\<^verbatim>\<open>executor/mtp.rs\<close>), and the batched verification they share
  (\<^verbatim>\<open>executor/prefill/mod.rs\<close>).

  The device work is a parameter. Of the device state the model keeps what decides the
  tokens: the token whose key and value rows sit at each cache position, and the tokens the
  recurrent (gated delta net) layers have absorbed. \<open>sx_logits\<close> gives the logits of
  the last token from these two histories; a draft step is any function of the whole state.
  Statistics, traces and timings are left out.
\<close>

section \<open>State and device operations\<close>

record 'd spec_state =
  ss_kv :: "nat \<Rightarrow> nat"
  ss_gdn :: "nat list"
  ss_gdn_snapshot :: "nat list"
  ss_position :: nat
  ss_prefill :: "host_scratch option"
  ss_draft :: 'd

record 'd spec_exec =
  sx_logits :: "nat list \<Rightarrow> nat list \<Rightarrow> f32 list"
  sx_device :: "prefill_batch \<Rightarrow> unit aegis_result"
  sx_enter_round :: "'d spec_state \<Rightarrow> 'd aegis_result"
  sx_draft_step :: "'d spec_state \<Rightarrow> nat \<Rightarrow> nat \<Rightarrow> (nat \<times> 'd) aegis_result"
  sx_copy_row :: "'d spec_state \<Rightarrow> nat \<Rightarrow> 'd aegis_result"
  sx_num_draft_tokens :: nat
  sx_kv_context_size :: nat
  sx_vocab :: nat

text \<open>The row loop of \<^verbatim>\<open>verify_batched\<close>: the first index of the greatest logit.\<close>

fun first_max :: "f32 \<Rightarrow> nat \<Rightarrow> nat \<Rightarrow> f32 list \<Rightarrow> nat" where
  "first_max best_v best j [] = best"
| "first_max best_v best j (v # rest) =
     (if f32_lt best_v v then first_max v j (j + 1) rest else first_max best_v best (j + 1) rest)"

definition row_argmax :: "f32 list \<Rightarrow> nat" where
  "row_argmax row = first_max f32_neg_infinity 0 0 row"

text \<open>The cache is addressed by position: writing \<open>tokens\<close> at \<open>base\<close> replaces what was there.\<close>

definition kv_write :: "(nat \<Rightarrow> nat) \<Rightarrow> nat \<Rightarrow> nat list \<Rightarrow> nat \<Rightarrow> nat" where
  "kv_write kv base tokens p =
     (if base \<le> p \<and> p < base + length tokens then tokens ! (p - base) else kv p)"

definition verify_batched ::
  "'d spec_exec \<Rightarrow> 'd spec_state \<Rightarrow> nat list \<Rightarrow> nat \<Rightarrow> (nat list \<times> 'd spec_state) aegis_result" where
  "verify_batched X st verify_tokens base_pos =
     res_bind (ok_or (InvalidPlan ''spec verify: prefill scratch missing'') (ss_prefill st))
       (\<lambda>prefill.
     res_bind (prepare_dense_batch prefill verify_tokens base_pos (sx_kv_context_size X) (sx_vocab X))
       (\<lambda>(prefill, batch_meta).
     res_bind (sx_device X batch_meta) (\<lambda>_.
       let tokens = hs_tokens prefill;
           kv = kv_write (ss_kv st) (pb_start_position batch_meta) tokens;
           row = (\<lambda>i. sx_logits X (map kv [0..<base_pos + i + 1]) (ss_gdn st @ take (i + 1) tokens))
       in Inr (map (\<lambda>i. row_argmax (row i)) [0..<pb_num_prefill_tokens batch_meta],
               st\<lparr>ss_kv := kv, ss_gdn := ss_gdn st @ tokens, ss_prefill := Some prefill\<rparr>))))"

section \<open>Drafting and accepting\<close>

text \<open>Every step of a draft round is at the same position.\<close>

fun draft_proposals ::
  "'d spec_exec \<Rightarrow> (nat \<Rightarrow> bool) \<Rightarrow> nat \<Rightarrow> 'd spec_state \<Rightarrow> nat \<Rightarrow> nat
     \<Rightarrow> (nat list \<times> 'd spec_state) aegis_result" where
  "draft_proposals X eos 0 st draft_input base_pos = Inr ([], st)"
| "draft_proposals X eos (Suc k) st draft_input base_pos =
     res_bind (sx_draft_step X st draft_input base_pos) (\<lambda>(proposed, d).
       let st = st\<lparr>ss_draft := d\<rparr>
       in if eos proposed then Inr ([proposed], st)
          else res_bind (draft_proposals X eos k st proposed base_pos)
                 (\<lambda>(proposals, st). Inr (proposed # proposals, st)))"

text \<open>The position of an MTP step advances.\<close>

fun mtp_propose ::
  "'d spec_exec \<Rightarrow> (nat \<Rightarrow> bool) \<Rightarrow> nat \<Rightarrow> 'd spec_state \<Rightarrow> nat \<Rightarrow> nat
     \<Rightarrow> (nat list \<times> 'd spec_state) aegis_result" where
  "mtp_propose X eos 0 st draft_token position = Inr ([], st)"
| "mtp_propose X eos (Suc k) st draft_token position =
     res_bind (sx_draft_step X st draft_token position) (\<lambda>(proposed, d).
       let st = st\<lparr>ss_draft := d\<rparr>
       in if eos proposed then Inr ([proposed], st)
          else res_bind (mtp_propose X eos k st proposed (position + 1))
                 (\<lambda>(proposals, st). Inr (proposed # proposals, st)))"

text \<open>\<^verbatim>\<open>while m < kk && preds[m] == proposals[m]\<close>\<close>

fun accept_length :: "nat list \<Rightarrow> nat list \<Rightarrow> nat" where
  "accept_length (p # preds) (q # proposals) =
     (if p = q then Suc (accept_length preds proposals) else 0)"
| "accept_length preds proposals = 0"

text \<open>
  One round after \<open>nxt\<close> was pushed: draft, verify, rewind the position. The result is the
  accepted proposals and the correction or bonus token.
\<close>

definition draft_round ::
  "'d spec_exec \<Rightarrow> (nat \<Rightarrow> bool) \<Rightarrow> 'd spec_state \<Rightarrow> nat \<Rightarrow> (nat list \<times> nat \<times> 'd spec_state) aegis_result" where
  "draft_round X eos st nxt =
     (let base_pos = ss_position st
      in res_bind (sx_enter_round X st) (\<lambda>d.
         res_bind (draft_proposals X eos (max (sx_num_draft_tokens X) 1) (st\<lparr>ss_draft := d\<rparr>) nxt base_pos)
           (\<lambda>(proposals, st).
         res_bind (verify_batched X st (nxt # proposals) base_pos) (\<lambda>(preds, st).
           let m = accept_length preds proposals;
               st = st\<lparr>ss_position := base_pos + m + 1\<rparr>
           in res_bind (sx_copy_row X st m) (\<lambda>d.
                Inr (take m proposals, preds ! m, st\<lparr>ss_draft := d\<rparr>))))))"

text \<open>
  The MTP round saves the recurrent state before the verification; after a partial accept it
  restores it and verifies the committed prefix again.
\<close>

definition mtp_round ::
  "'d spec_exec \<Rightarrow> (nat \<Rightarrow> bool) \<Rightarrow> 'd spec_state \<Rightarrow> nat \<Rightarrow> (nat list \<times> nat \<times> 'd spec_state) aegis_result" where
  "mtp_round X eos st nxt =
     (let base_pos = ss_position st
      in res_bind (mtp_propose X eos (max (sx_num_draft_tokens X) 1) st nxt base_pos)
           (\<lambda>(proposals, st).
         let st = st\<lparr>ss_gdn_snapshot := ss_gdn st\<rparr>;
             verify_tokens = nxt # proposals
         in res_bind (verify_batched X st verify_tokens base_pos) (\<lambda>(preds, st).
           let m = accept_length preds proposals
           in res_bind
                (if m < length proposals
                 then verify_batched X (st\<lparr>ss_gdn := ss_gdn_snapshot st\<rparr>) (take (m + 1) verify_tokens) base_pos
                 else Inr (preds, st))
                (\<lambda>(preds_final, st).
                  let st = st\<lparr>ss_position := base_pos + m + 1\<rparr>
                  in res_bind (sx_copy_row X st m) (\<lambda>d.
                       Inr (take m proposals, preds_final ! m, st\<lparr>ss_draft := d\<rparr>))))))"

section \<open>Emitting and the outer loop\<close>

text \<open>\<open>Pending nxt generated\<close>: the round is over and \<open>nxt\<close> is not pushed yet.\<close>

datatype emit_outcome = Pending nat "nat list" | Finished "nat list"

fun emit_round ::
  "(nat \<Rightarrow> bool) \<Rightarrow> nat list \<Rightarrow> nat \<Rightarrow> nat list \<Rightarrow> nat list \<Rightarrow> nat \<Rightarrow> emit_outcome" where
  "emit_round eos stops max_tokens generated [] final =
     (if eos final then Pending final generated
      else if final \<in> set stops then Finished (generated @ [final])
      else Pending final generated)"
| "emit_round eos stops max_tokens generated (tok # accepted) final =
     (if eos tok then Pending tok generated
      else if tok \<in> set stops then Finished (generated @ [tok])
      else if length generated \<ge> max_tokens then Finished generated
      else emit_round eos stops max_tokens (generated @ [tok]) accepted final)"

text \<open>
  \<^verbatim>\<open>'outer: while generated.len() < max_tokens\<close>. \<open>None\<close> means that the fuel ran out;
  \<open>max_tokens\<close> of it are enough (\<open>speculative_terminates\<close>).
\<close>

fun spec_loop ::
  "('s \<Rightarrow> nat \<Rightarrow> (nat list \<times> nat \<times> 's) aegis_result) \<Rightarrow> (nat \<Rightarrow> bool) \<Rightarrow> nat list \<Rightarrow> nat
     \<Rightarrow> nat \<Rightarrow> 's \<Rightarrow> nat \<Rightarrow> nat list \<Rightarrow> nat list aegis_result option" where
  "spec_loop round eos stops max_tokens fuel st nxt generated =
     (if \<not> length generated < max_tokens then Some (Inr generated)
      else if eos nxt then Some (Inr generated)
      else if nxt \<in> set stops then Some (Inr (generated @ [nxt]))
      else let generated = generated @ [nxt]
           in if length generated \<ge> max_tokens then Some (Inr generated)
              else (case fuel of
                      0 \<Rightarrow> None
                    | Suc fuel \<Rightarrow>
                        (case round st nxt of
                           Inl e \<Rightarrow> Some (Inl e)
                         | Inr (accepted, final, st) \<Rightarrow>
                             (case emit_round eos stops max_tokens generated accepted final of
                                Finished generated \<Rightarrow> Some (Inr generated)
                              | Pending nxt generated \<Rightarrow>
                                  spec_loop round eos stops max_tokens fuel st nxt generated))))"

declare spec_loop.simps [simp del]

text \<open>The two entry points, after \<^verbatim>\<open>prefill_prompt\<close> produced \<open>nxt\<close>.\<close>

definition generate_speculative_greedy ::
  "'d spec_exec \<Rightarrow> (nat \<Rightarrow> bool) \<Rightarrow> generate_request \<Rightarrow> 'd spec_state \<Rightarrow> nat \<Rightarrow> nat list aegis_result option" where
  "generate_speculative_greedy X eos request st nxt =
     spec_loop (draft_round X eos) eos (rq_stop_token_ids request) (rq_max_tokens request)
       (rq_max_tokens request) st nxt []"

definition generate_speculative_mtp_greedy ::
  "'d spec_exec \<Rightarrow> (nat \<Rightarrow> bool) \<Rightarrow> generate_request \<Rightarrow> 'd spec_state \<Rightarrow> nat \<Rightarrow> nat list aegis_result option" where
  "generate_speculative_mtp_greedy X eos request st nxt =
     spec_loop (mtp_round X eos) eos (rq_stop_token_ids request) (rq_max_tokens request)
       (rq_max_tokens request) st nxt []"

text \<open>The output the provider builds from either; the finish reason is a constant.\<close>

definition speculative_output ::
  "(nat list \<Rightarrow> string aegis_result) \<Rightarrow> nat list \<Rightarrow> nat list \<Rightarrow> generate_output aegis_result" where
  "speculative_output decode_tokens prompt_tokens generated =
     res_bind (decode_tokens generated) (\<lambda>txt.
       Inr \<lparr>go_text = txt, go_prompt_tokens = length prompt_tokens,
            go_completion_tokens = length generated, go_finish_reason = ''length''\<rparr>)"

section \<open>The reference: greedy decoding\<close>

text \<open>\<open>G\<close> maps a token history to the greedy next token.\<close>

fun greedy_stream :: "(nat list \<Rightarrow> nat) \<Rightarrow> nat \<Rightarrow> nat list \<Rightarrow> nat list" where
  "greedy_stream G 0 hist = []"
| "greedy_stream G (Suc n) hist = G hist # greedy_stream G n (hist @ [G hist])"

definition greedy_tokens ::
  "(nat list \<Rightarrow> nat) \<Rightarrow> (nat \<Rightarrow> bool) \<Rightarrow> nat list \<Rightarrow> nat \<Rightarrow> nat list \<Rightarrow> nat list" where
  "greedy_tokens G eos stops n hist = fst (cut_tokens eos stops (greedy_stream G n hist))"

text \<open>Each token is the greedy choice after the ones before it.\<close>

fun follows :: "(nat list \<Rightarrow> nat) \<Rightarrow> nat list \<Rightarrow> nat list \<Rightarrow> bool" where
  "follows G hist [] \<longleftrightarrow> True"
| "follows G hist (t # ts) \<longleftrightarrow> t = G hist \<and> follows G (hist @ [t]) ts"

text \<open>
  The speculative answer with limit \<open>n\<close>: the greedy answer, or, when the token after the
  limit is a stop token, possibly that one as well.
\<close>

definition spec_answer ::
  "(nat list \<Rightarrow> nat) \<Rightarrow> (nat \<Rightarrow> bool) \<Rightarrow> nat list \<Rightarrow> nat \<Rightarrow> nat list \<Rightarrow> nat list \<Rightarrow> bool" where
  "spec_answer G eos stops n hist toks \<longleftrightarrow>
     toks = greedy_tokens G eos stops n hist
     \<or> toks = greedy_tokens G eos stops (Suc n) hist \<and> length toks = Suc n \<and> last toks \<in> set stops"

lemma greedy_tokens_simps [simp]:
  "greedy_tokens G eos stops 0 hist = []"
  "greedy_tokens G eos stops (Suc n) hist =
     (if eos (G hist) then [] else if G hist \<in> set stops then [G hist]
      else G hist # greedy_tokens G eos stops n (hist @ [G hist]))"
  by (simp_all add: greedy_tokens_def)

text \<open>A larger limit only adds tokens behind.\<close>

lemma greedy_tokens_take:
  "take n (greedy_tokens G eos stops (Suc n) hist) = greedy_tokens G eos stops n hist"
  by (induction n arbitrary: hist) (auto simp: Let_def)

lemma greedy_tokens_length: "length (greedy_tokens G eos stops n hist) \<le> n"
  by (induction n arbitrary: hist) auto

lemma spec_answer_take:
  "spec_answer G eos stops n hist toks \<Longrightarrow> take n toks = greedy_tokens G eos stops n hist"
  using greedy_tokens_take [of n G eos stops hist] greedy_tokens_length [of G eos stops n hist]
  by (auto simp: spec_answer_def simp del: greedy_tokens_simps)

lemma spec_answer_Nil: "n = 0 \<or> eos (G hist) \<Longrightarrow> spec_answer G eos stops n hist []"
  by (cases n) (auto simp: spec_answer_def)

lemma spec_answer_stop:
  "\<not> eos (G hist) \<Longrightarrow> G hist \<in> set stops \<Longrightarrow> spec_answer G eos stops n hist [G hist]"
  by (cases n) (auto simp: spec_answer_def)

lemma spec_answer_Cons:
  "\<not> eos (G hist) \<Longrightarrow> G hist \<notin> set stops \<Longrightarrow> spec_answer G eos stops n (hist @ [G hist]) toks
    \<Longrightarrow> spec_answer G eos stops (Suc n) hist (G hist # toks)"
  by (auto simp: spec_answer_def)

text \<open>Tokens that are neither end-of-sequence nor stop tokens can be put in front.\<close>

lemma spec_answer_append:
  assumes "follows G hist ys" and "\<forall>y \<in> set ys. \<not> eos y \<and> y \<notin> set stops"
    and "spec_answer G eos stops n (hist @ ys) toks"
  shows "spec_answer G eos stops (n + length ys) hist (ys @ toks)"
  using assms
proof (induction ys arbitrary: hist)
  case (Cons y ys)
  have "spec_answer G eos stops (n + length ys) (hist @ [y]) (ys @ toks)"
    by (rule Cons.IH) (use Cons.prems in auto)
  with Cons.prems show ?case using spec_answer_Cons [of eos G hist stops "n + length ys"] by simp
qed simp

text \<open>What one call of \<^verbatim>\<open>emit\<close> does with a greedy continuation.\<close>

lemma emit_round_follows:
  assumes "follows G hist (accepted @ [final])" and "length generated \<le> max_tokens"
  shows "case emit_round eos stops max_tokens generated accepted final of
      Finished g \<Rightarrow> \<exists>toks. g = generated @ toks
        \<and> spec_answer G eos stops (max_tokens - length generated) hist toks
    | Pending t g \<Rightarrow> \<exists>ys. g = generated @ ys \<and> length g \<le> max_tokens \<and> follows G hist ys
        \<and> (\<forall>y \<in> set ys. \<not> eos y \<and> y \<notin> set stops) \<and> t = G (hist @ ys) \<and> (eos t \<or> ys = accepted)"
  using assms
proof (induction accepted arbitrary: hist generated)
  case Nil
  then show ?case by (auto intro: spec_answer_stop)
next
  case (Cons tok accepted)
  have tok: "tok = G hist" using Cons.prems(1) by simp
  consider (eos) "eos tok" | (stop) "\<not> eos tok" "tok \<in> set stops"
    | (full) "\<not> eos tok" "tok \<notin> set stops" "length generated \<ge> max_tokens"
    | (push) "\<not> eos tok" "tok \<notin> set stops" "length generated < max_tokens"
    by linarith
  then show ?case
  proof cases
    case eos
    then show ?thesis using tok Cons.prems(2) by simp
  next
    case stop
    then show ?thesis using tok by (auto intro: spec_answer_stop)
  next
    case full
    then show ?thesis using Cons.prems(2) by (auto intro: spec_answer_Nil)
  next
    case push
    let ?g = "generated @ [tok]" and ?h = "hist @ [tok]"
    have IH: "case emit_round eos stops max_tokens ?g accepted final of
        Finished g \<Rightarrow> \<exists>toks. g = ?g @ toks
          \<and> spec_answer G eos stops (max_tokens - length ?g) ?h toks
      | Pending t g \<Rightarrow> \<exists>ys. g = ?g @ ys \<and> length g \<le> max_tokens \<and> follows G ?h ys
          \<and> (\<forall>y \<in> set ys. \<not> eos y \<and> y \<notin> set stops) \<and> t = G (?h @ ys) \<and> (eos t \<or> ys = accepted)"
      using Cons.prems push by (intro Cons.IH) auto
    have n: "max_tokens - length generated = Suc (max_tokens - length ?g)" using push by simp
    show ?thesis
    proof (cases "emit_round eos stops max_tokens ?g accepted final")
      case (Finished g)
      with IH obtain toks where "g = ?g @ toks"
        "spec_answer G eos stops (max_tokens - length ?g) ?h toks" by auto
      then have "g = generated @ (tok # toks)"
        "spec_answer G eos stops (max_tokens - length generated) hist (tok # toks)"
        unfolding n using push tok by (auto intro: spec_answer_Cons)
      then show ?thesis using push Finished by auto
    next
      case (Pending t g)
      with IH obtain ys where "g = ?g @ ys" "length g \<le> max_tokens" "follows G ?h ys"
        "\<forall>y \<in> set ys. \<not> eos y \<and> y \<notin> set stops" "t = G (?h @ ys)" "eos t \<or> ys = accepted" by auto
      then show ?thesis using push Pending tok by (auto intro!: exI [of _ "tok # ys"])
    qed
  qed
qed

lemma emit_round_grows:
  "case emit_round eos stops max_tokens generated accepted final of
     Finished g \<Rightarrow> True | Pending t g \<Rightarrow> length generated \<le> length g"
proof (induction accepted arbitrary: generated)
  case (Cons a accepted)
  from Cons.IH [of "generated @ [a]"] show ?case by (auto split: emit_outcome.splits)
qed auto

section \<open>A round is a verified greedy step\<close>

text \<open>
  What the outer loop needs from a round: started in a state that holds a history, it returns
  the greedy continuation and leaves a state that holds the committed history.
\<close>

locale speculative_round =
  fixes round :: "'s \<Rightarrow> nat \<Rightarrow> (nat list \<times> nat \<times> 's) aegis_result"
    and G :: "nat list \<Rightarrow> nat"
    and holds :: "'s \<Rightarrow> nat list \<Rightarrow> bool"
  assumes round_follows: "holds st hist \<Longrightarrow> round st nxt = Inr (accepted, final, st') \<Longrightarrow>
    follows G (hist @ [nxt]) (accepted @ [final]) \<and> holds st' (hist @ nxt # accepted)"
begin

lemma loop_answer:
  assumes "holds st hist" and "nxt = G hist" and "length generated \<le> max_tokens"
    and "spec_loop round eos stops max_tokens fuel st nxt generated = Some (Inr result)"
  shows "\<exists>toks. result = generated @ toks
    \<and> spec_answer G eos stops (max_tokens - length generated) hist toks"
  using assms
proof (induction fuel arbitrary: st hist nxt generated)
  case 0
  show ?case
  proof (cases "length generated < max_tokens")
    case False
    with 0 show ?thesis by (auto simp: spec_loop.simps intro: spec_answer_Nil)
  next
    case True
    then obtain n where n: "max_tokens - length generated = Suc n"
      by (metis Suc_diff_Suc)
    have "max_tokens \<le> Suc (length generated) \<Longrightarrow> n = 0" using n by linarith
    with True 0 n show ?thesis
      by (auto simp: spec_loop.simps [of _ _ _ _ 0] Let_def n spec_answer_def split: if_splits)
  qed
next
  case (Suc fuel)
  let ?g = "generated @ [nxt]"
  consider (full) "\<not> length generated < max_tokens"
    | (eos) "length generated < max_tokens" "eos nxt"
    | (stop) "length generated < max_tokens" "\<not> eos nxt" "nxt \<in> set stops"
    | (last) "length generated < max_tokens" "\<not> eos nxt" "nxt \<notin> set stops" "length ?g \<ge> max_tokens"
    | (round) "\<not> eos nxt" "nxt \<notin> set stops" "length ?g < max_tokens"
    by fastforce
  then show ?case
  proof cases
    case full
    with Suc.prems show ?thesis by (auto simp: spec_loop.simps intro: spec_answer_Nil)
  next
    case eos
    with Suc.prems show ?thesis by (auto simp: spec_loop.simps intro: spec_answer_Nil)
  next
    case stop
    with Suc.prems show ?thesis by (auto simp: spec_loop.simps intro: spec_answer_stop)
  next
    case last
    then have "max_tokens - length generated = Suc 0" by simp
    with last Suc.prems show ?thesis
      by (auto simp: spec_loop.simps Let_def spec_answer_def)
  next
    case round
    let ?h = "hist @ [nxt]"
    obtain accepted final st' where r: "round st nxt = Inr (accepted, final, st')"
      using Suc.prems(4) round
      by (cases "round st nxt") (auto simp: spec_loop.simps [of _ _ _ _ "Suc fuel"] Let_def)
    have fol: "follows G ?h (accepted @ [final])" and st': "holds st' (?h @ accepted)"
      using round_follows [OF Suc.prems(1) r] by simp_all
    have n: "max_tokens - length generated = Suc (max_tokens - length ?g)" using round by simp
    have wrap: "spec_answer G eos stops (max_tokens - length generated) hist (nxt # toks)"
      if "spec_answer G eos stops (max_tokens - length ?g) ?h toks" for toks
      unfolding n using that round Suc.prems(2) by (auto intro: spec_answer_Cons)
    have emit: "case emit_round eos stops max_tokens ?g accepted final of
        Finished g \<Rightarrow> \<exists>toks. g = ?g @ toks \<and> spec_answer G eos stops (max_tokens - length ?g) ?h toks
      | Pending t g \<Rightarrow> \<exists>ys. g = ?g @ ys \<and> length g \<le> max_tokens \<and> follows G ?h ys
          \<and> (\<forall>y \<in> set ys. \<not> eos y \<and> y \<notin> set stops) \<and> t = G (?h @ ys) \<and> (eos t \<or> ys = accepted)"
      by (rule emit_round_follows [OF fol]) (use round in simp)
    show ?thesis
    proof (cases "emit_round eos stops max_tokens ?g accepted final")
      case (Finished g)
      with emit obtain toks where g: "g = ?g @ toks"
        "spec_answer G eos stops (max_tokens - length ?g) ?h toks" by auto
      have "result = g" using Suc.prems(4) round r Finished
        by (simp add: spec_loop.simps [of _ _ _ _ "Suc fuel"] Let_def)
      with g wrap show ?thesis by (intro exI [of _ "nxt # toks"]) simp
    next
      case (Pending t g)
      with emit obtain ys where ys: "g = ?g @ ys" "length g \<le> max_tokens" "follows G ?h ys"
        "\<forall>y \<in> set ys. \<not> eos y \<and> y \<notin> set stops" "t = G (?h @ ys)" "eos t \<or> ys = accepted" by auto
      have loop: "spec_loop round eos stops max_tokens fuel st' t g = Some (Inr result)"
        using Suc.prems(4) round r Pending
        by (simp add: spec_loop.simps [of _ _ _ _ "Suc fuel"] Let_def)
      have "\<exists>toks. result = g @ toks
        \<and> spec_answer G eos stops (max_tokens - length g) (?h @ ys) toks"
      proof (cases "eos t")
        case True
        with loop ys(5) show ?thesis by (auto simp: spec_loop.simps intro: spec_answer_Nil split: if_splits)
      next
        case False
        with ys(6) st' have "holds st' (?h @ ys)" by simp
        from Suc.IH [OF this ys(5) ys(2) loop] show ?thesis .
      qed
      then obtain toks where toks: "result = g @ toks"
        "spec_answer G eos stops (max_tokens - length g) (?h @ ys) toks" by blast
      have "spec_answer G eos stops (max_tokens - length g + length ys) ?h (ys @ toks)"
        by (rule spec_answer_append [OF ys(3,4) toks(2)])
      moreover have "max_tokens - length g + length ys = max_tokens - length ?g"
        using ys(1,2) by simp
      ultimately show ?thesis using wrap [of "ys @ toks"] toks(1) ys(1)
        by (intro exI [of _ "nxt # ys @ toks"]) simp
    qed
  qed
qed

end

text \<open>Every round pushes a token, so \<open>max_tokens\<close> rounds are enough, whatever a round does.\<close>

lemma spec_loop_fuel:
  "max_tokens \<le> fuel + length generated \<Longrightarrow>
     spec_loop round eos stops max_tokens fuel st nxt generated \<noteq> None"
proof (induction fuel arbitrary: st nxt generated)
  case 0
  then show ?case by (simp add: spec_loop.simps)
next
  case (Suc fuel)
  show ?case
  proof (cases "round st nxt")
    case (Inl e)
    then show ?thesis by (simp add: spec_loop.simps [of _ _ _ _ "Suc fuel"] Let_def)
  next
    case (Inr r)
    obtain accepted final st' where r: "r = (accepted, final, st')" by (cases r)
    show ?thesis
    proof (cases "emit_round eos stops max_tokens (generated @ [nxt]) accepted final")
      case (Finished g)
      with Inr r show ?thesis by (simp add: spec_loop.simps [of _ _ _ _ "Suc fuel"] Let_def)
    next
      case (Pending t g)
      have "Suc (length generated) \<le> length g"
        using emit_round_grows [where generated = "generated @ [nxt]" and eos = eos and stops = stops
            and max_tokens = max_tokens and accepted = accepted and final = final] Pending by simp
      then have "spec_loop round eos stops max_tokens fuel st' t g \<noteq> None"
        using Suc.prems by (intro Suc.IH) simp
      with Inr r Pending show ?thesis by (simp add: spec_loop.simps [of _ _ _ _ "Suc fuel"] Let_def)
    qed
  qed
qed

section \<open>The two rounds\<close>

definition greedy_next :: "'d spec_exec \<Rightarrow> nat list \<Rightarrow> nat" where
  "greedy_next X hist = row_argmax (sx_logits X hist hist)"

text \<open>The cache holds the history, and the next token goes right behind it.\<close>

definition kv_holds :: "'d spec_state \<Rightarrow> nat list \<Rightarrow> bool" where
  "kv_holds st hist \<longleftrightarrow> ss_position st = length hist \<and> map (ss_kv st) [0..<length hist] = hist"

text \<open>A model without recurrent layers, as the draft-model targets are.\<close>

definition no_recurrent :: "'d spec_exec \<Rightarrow> bool" where
  "no_recurrent X \<longleftrightarrow> (\<forall>kv g g'. sx_logits X kv g = sx_logits X kv g')"

lemma prepare_dense_batch_Inr:
  assumes "prepare_dense_batch s tokens start ctx vocab = Inr (s', b)"
  shows "hs_tokens s' = tokens \<and> pb_start_position b = start \<and> pb_num_prefill_tokens b = length tokens"
proof -
  obtain d where d: "dense_single_sequence tokens start ctx vocab = Inr d"
    using assms by (auto simp: prepare_dense_batch_def res_simps)
  then have v: "validate_prefill_tokens tokens vocab = Inr ()"
    and bd: "bd_token_ids d = map as_u32 tokens" "bd_num_prefill_tokens d = length tokens"
    by (auto simp: dense_single_sequence_def res_simps Let_def)
  from v have "\<forall>t \<in> set tokens. t \<le> u32_max" by fastforce
  then have "map as_u32 tokens = tokens" by (intro map_as_u32) auto
  with assms d bd show ?thesis
    by (auto simp: prepare_dense_batch_def res_simps Let_def copy_host_descriptor_def)
qed

lemma kv_write_prefix:
  assumes "map kv [0..<length hist] = hist" and "n \<le> length tokens"
  shows "map (kv_write kv (length hist) tokens) [0..<length hist + n] = hist @ take n tokens"
proof (rule nth_equalityI)
  fix i assume "i < length (map (kv_write kv (length hist) tokens) [0..<length hist + n])"
  then have i: "i < length hist + n" by simp
  have "kv i = hist ! i" if "i < length hist"
    using arg_cong [OF assms(1), of "\<lambda>xs. xs ! i"] that by simp
  with i assms(2) show "map (kv_write kv (length hist) tokens) [0..<length hist + n] ! i
      = (hist @ take n tokens) ! i"
    by (simp add: kv_write_def nth_append)
qed (use assms in simp)

lemma verify_batched_Inr:
  assumes "verify_batched X st tokens (length hist) = Inr (preds, st')"
    and "map (ss_kv st) [0..<length hist] = hist"
  shows "length preds = length tokens"
    and "i < length tokens \<Longrightarrow> preds ! i
      = row_argmax (sx_logits X (hist @ take (i + 1) tokens) (ss_gdn st @ take (i + 1) tokens))"
    and "\<exists>s. st' = st\<lparr>ss_kv := kv_write (ss_kv st) (length hist) tokens,
      ss_gdn := ss_gdn st @ tokens, ss_prefill := s\<rparr>"
proof -
  obtain s s' b where b: "prepare_dense_batch s tokens (length hist) (sx_kv_context_size X) (sx_vocab X)
      = Inr (s', b)"
    and r: "preds = map (\<lambda>i. row_argmax (sx_logits X
        (map (kv_write (ss_kv st) (pb_start_position b) (hs_tokens s')) [0..<length hist + i + 1])
        (ss_gdn st @ take (i + 1) (hs_tokens s')))) [0..<pb_num_prefill_tokens b]"
      "st' = st\<lparr>ss_kv := kv_write (ss_kv st) (pb_start_position b) (hs_tokens s'),
        ss_gdn := ss_gdn st @ hs_tokens s', ss_prefill := Some s'\<rparr>"
    using assms(1) by (auto simp: verify_batched_def res_simps Let_def)
  note eqs = prepare_dense_batch_Inr [OF b]
  show "length preds = length tokens" using r eqs by simp
  show "\<exists>s. st' = st\<lparr>ss_kv := kv_write (ss_kv st) (length hist) tokens,
      ss_gdn := ss_gdn st @ tokens, ss_prefill := s\<rparr>"
    using r eqs by auto
  assume i: "i < length tokens"
  have "map (kv_write (ss_kv st) (length hist) tokens) [0..<length hist + (i + 1)]
      = hist @ take (i + 1) tokens"
    by (rule kv_write_prefix [OF assms(2)]) (use i in simp)
  then show "preds ! i
      = row_argmax (sx_logits X (hist @ take (i + 1) tokens) (ss_gdn st @ take (i + 1) tokens))"
    using r eqs i by (simp add: add.assoc)
qed

lemma accept_length_prefix:
  "accept_length preds proposals \<le> length proposals
   \<and> accept_length preds proposals \<le> length preds
   \<and> take (accept_length preds proposals) preds = take (accept_length preds proposals) proposals"
  by (induction preds proposals rule: accept_length.induct) auto

lemma follows_nth: "follows G hist ts \<longleftrightarrow> (\<forall>i < length ts. ts ! i = G (hist @ take i ts))"
  by (induction ts arbitrary: hist) (auto simp: less_Suc_eq_0_disj nth_Cons')

text \<open>The accepted prefix and the correction are greedy, whatever was proposed.\<close>

lemma accepted_follows:
  assumes "length preds = Suc (length proposals)"
    and "\<And>i. i \<le> length proposals \<Longrightarrow> preds ! i = G (hist @ take i proposals)"
    and "m = accept_length preds proposals" and "c = preds ! m"
  shows "follows G hist (take m proposals @ [c])"
  unfolding follows_nth
proof (intro allI impI)
  fix i assume i: "i < length (take m proposals @ [c])"
  have m: "m \<le> length proposals" "take m preds = take m proposals"
    using accept_length_prefix [of preds proposals] assms(3) by simp_all
  show "(take m proposals @ [c]) ! i = G (hist @ take i (take m proposals @ [c]))"
  proof (cases "i < m")
    case True
    then have "proposals ! i = preds ! i" using m(2) by (metis nth_take)
    with True m(1) assms(2) [of i] show ?thesis by (simp add: nth_append min_def)
  next
    case False
    with i m(1) have "i = m" by simp
    with m(1) assms(2) [of m] assms(4) show ?thesis by (simp add: nth_append)
  qed
qed

lemma draft_proposals_state:
  "draft_proposals X eos k st t p = Inr (ps, st') \<Longrightarrow> \<exists>d. st' = st\<lparr>ss_draft := d\<rparr>"
proof (induction k arbitrary: st t ps st')
  case 0
  then show ?case by (cases st) auto
next
  case (Suc k)
  then show ?case by (fastforce simp: res_simps Let_def split: if_splits)
qed

lemma mtp_propose_state:
  "mtp_propose X eos k st t p = Inr (ps, st') \<Longrightarrow> \<exists>d. st' = st\<lparr>ss_draft := d\<rparr>"
proof (induction k arbitrary: st t p ps st')
  case 0
  then show ?case by (cases st) auto
next
  case (Suc k)
  then show ?case by (fastforce simp: res_simps Let_def split: if_splits)
qed

lemma kv_holds_after_verify:
  assumes "map kv [0..<length hist] = hist" and "m \<le> length proposals"
  shows "map (kv_write kv (length hist) (nxt # proposals)) [0..<length (hist @ nxt # take m proposals)]
    = hist @ nxt # take m proposals"
  using kv_write_prefix [OF assms(1), of "Suc m" "nxt # proposals"] assms(2) by simp

lemma draft_round_follows:
  assumes "no_recurrent X" and "kv_holds st hist"
    and "draft_round X eos st nxt = Inr (accepted, final, st')"
  shows "follows (greedy_next X) (hist @ [nxt]) (accepted @ [final]) \<and> kv_holds st' (hist @ nxt # accepted)"
proof -
  have pos: "ss_position st = length hist" and kv: "map (ss_kv st) [0..<length hist] = hist"
    using assms(2) by (simp_all add: kv_holds_def)
  obtain d proposals st1 preds st2 m d' where
    p: "draft_proposals X eos (max (sx_num_draft_tokens X) 1) (st\<lparr>ss_draft := d\<rparr>) nxt (length hist)
        = Inr (proposals, st1)"
    and v: "verify_batched X st1 (nxt # proposals) (length hist) = Inr (preds, st2)"
    and m: "m = accept_length preds proposals"
    and out: "accepted = take m proposals" "final = preds ! m"
      "st' = st2\<lparr>ss_position := length hist + m + 1, ss_draft := d'\<rparr>"
    using assms(3) pos by (auto simp: draft_round_def res_simps Let_def)
  obtain d'' where st1: "st1 = st\<lparr>ss_draft := d\<rparr>\<lparr>ss_draft := d''\<rparr>"
    using draft_proposals_state [OF p] by blast
  have kv1: "map (ss_kv st1) [0..<length hist] = hist" using kv st1 by simp
  note ver = verify_batched_Inr [OF v kv1]
  have "preds ! i = greedy_next X ((hist @ [nxt]) @ take i proposals)" if "i \<le> length proposals" for i
    using ver(2) [of i] that assms(1) unfolding no_recurrent_def greedy_next_def
    by (metis (no_types, lifting) Suc_eq_plus1 append.assoc append_Cons append_Nil le_imp_less_Suc
        length_Cons take_Suc_Cons)
  then have "follows (greedy_next X) (hist @ [nxt]) (accepted @ [final])"
    unfolding out by (intro accepted_follows [OF _ _ m]) (use ver(1) in simp_all)
  moreover have "m \<le> length proposals" using accept_length_prefix [of preds proposals] m by simp
  moreover obtain s where "st2 = st1\<lparr>ss_kv := kv_write (ss_kv st1) (length hist) (nxt # proposals),
      ss_gdn := ss_gdn st1 @ nxt # proposals, ss_prefill := s\<rparr>" using ver(3) by blast
  ultimately show ?thesis
    using kv_holds_after_verify [OF kv1, of m proposals nxt] by (simp add: out kv_holds_def)
qed

lemma mtp_round_follows:
  assumes "kv_holds st hist" and "ss_gdn st = hist"
    and "mtp_round X eos st nxt = Inr (accepted, final, st')"
  shows "follows (greedy_next X) (hist @ [nxt]) (accepted @ [final])
    \<and> kv_holds st' (hist @ nxt # accepted) \<and> ss_gdn st' = hist @ nxt # accepted"
proof -
  have pos: "ss_position st = length hist" and kv: "map (ss_kv st) [0..<length hist] = hist"
    using assms(1) by (simp_all add: kv_holds_def)
  obtain proposals st0 preds st2 m preds_final st3 d' where
    p: "mtp_propose X eos (max (sx_num_draft_tokens X) 1) st nxt (length hist) = Inr (proposals, st0)"
    and v: "verify_batched X (st0\<lparr>ss_gdn_snapshot := ss_gdn st0\<rparr>) (nxt # proposals) (length hist)
      = Inr (preds, st2)"
    and m: "m = accept_length preds proposals"
    and fin: "(if m < length proposals
        then verify_batched X (st2\<lparr>ss_gdn := ss_gdn_snapshot st2\<rparr>) (take (m + 1) (nxt # proposals)) (length hist)
        else Inr (preds, st2)) = Inr (preds_final, st3)"
    and out: "accepted = take m proposals" "final = preds_final ! m"
      "st' = st3\<lparr>ss_position := length hist + m + 1, ss_draft := d'\<rparr>"
    using assms(3) pos by (auto simp: mtp_round_def res_simps Let_def)
  obtain d where st0: "st0 = st\<lparr>ss_draft := d\<rparr>" using mtp_propose_state [OF p] by blast
  let ?st1 = "st0\<lparr>ss_gdn_snapshot := ss_gdn st0\<rparr>"
  have kv1: "map (ss_kv ?st1) [0..<length hist] = hist" using kv st0 by simp
  note ver = verify_batched_Inr [OF v kv1]
  have preds: "preds ! i = greedy_next X ((hist @ [nxt]) @ take i proposals)" if "i \<le> length proposals" for i
    using ver(2) [of i] that assms(2) st0 by (simp add: greedy_next_def)
  have ml: "m \<le> length proposals" using accept_length_prefix [of preds proposals] m by simp
  obtain s where st2: "st2 = ?st1\<lparr>ss_kv := kv_write (ss_kv st0) (length hist) (nxt # proposals),
      ss_gdn := ss_gdn st0 @ nxt # proposals, ss_prefill := s\<rparr>" using ver(3) by auto
  have kv2: "map (ss_kv st2) [0..<length hist] = hist"
    using kv_write_prefix [OF kv1, of 0 "nxt # proposals"] st2 by simp
  have "preds_final ! m = preds ! m \<and> ss_gdn st3 = hist @ nxt # take m proposals
    \<and> map (ss_kv st3) [0..<length (hist @ nxt # take m proposals)] = hist @ nxt # take m proposals"
  proof (cases "m < length proposals")
    case False
    with ml fin have eq: "preds_final = preds" "st3 = st2" "m = length proposals" by auto
    have "ss_gdn st2 = hist @ nxt # proposals" using st2 st0 assms(2) by simp
    moreover have "map (ss_kv st2) [0..<length (hist @ nxt # take m proposals)] = hist @ nxt # take m proposals"
      using kv_holds_after_verify [OF kv1 ml, of nxt] st2 by simp
    ultimately show ?thesis using eq by simp
  next
    case True
    let ?st = "st2\<lparr>ss_gdn := ss_gdn_snapshot st2\<rparr>"
    have kv': "map (ss_kv ?st) [0..<length hist] = hist" using kv2 by simp
    have v2: "verify_batched X ?st (nxt # take m proposals) (length hist) = Inr (preds_final, st3)"
      using True fin by simp
    note ver2 = verify_batched_Inr [OF v2 kv']
    have snap: "ss_gdn ?st = hist" using st2 st0 assms(2) by simp
    have "preds_final ! m = preds ! m"
      using ver2(2) [of m] preds [OF ml] True snap by (simp add: greedy_next_def)
    moreover obtain s' where "st3 = ?st\<lparr>ss_kv := kv_write (ss_kv ?st) (length hist) (nxt # take m proposals),
        ss_gdn := ss_gdn ?st @ nxt # take m proposals, ss_prefill := s'\<rparr>" using ver2(3) by blast
    ultimately show ?thesis
      using kv_holds_after_verify [OF kv', of m "take m proposals" nxt] True snap by simp
  qed
  moreover have "follows (greedy_next X) (hist @ [nxt]) (take m proposals @ [preds ! m])"
    by (rule accepted_follows [OF _ _ m refl]) (use ver(1) preds in simp_all)
  ultimately show ?thesis using ml by (simp add: out kv_holds_def)
qed

interpretation draft: speculative_round "draft_round X eos" "greedy_next X"
    "\<lambda>st hist. no_recurrent X \<and> kv_holds st hist" for X :: "'d spec_exec" and eos
  by unfold_locales (use draft_round_follows in blast)

interpretation mtp: speculative_round "mtp_round X eos" "greedy_next X"
    "\<lambda>st hist. kv_holds st hist \<and> ss_gdn st = hist" for X :: "'d spec_exec" and eos
  by unfold_locales (use mtp_round_follows in blast)

text \<open>
  The reference is the batch loop: on a backend whose state is the token history and whose next
  token is greedy, \<open>decode_loop\<close> returns the cut greedy stream.
\<close>

lemma model_tokens_greedy:
  assumes "\<And>hist t. gb_forward_next_token B hist t sampling = Inr (G (hist @ [t]), hist @ [t])"
  shows "model_tokens B sampling n hist (G hist) = (greedy_stream G n hist, None)"
proof (induction n arbitrary: hist)
  case (Suc n)
  show ?case using assms Suc [of "hist @ [G hist]"] by (cases n) simp_all
qed simp

lemma decode_loop_greedy:
  assumes "\<And>hist t. gb_forward_next_token B hist t (rq_sampling request) = Inr (G (hist @ [t]), hist @ [t])"
  shows "\<exists>reason. decode_loop B request (rq_max_tokens request) hist (G hist) []
    = Inr (greedy_tokens G (gb_is_eos B) (rq_stop_token_ids request) (rq_max_tokens request) hist, reason)"
proof -
  have "decode_loop B request (rq_max_tokens request) hist (G hist) []
    = map_sum id (apfst (append [])) (cut_stream (gb_is_eos B) (rq_stop_token_ids request)
        (model_tokens B (rq_sampling request) (rq_max_tokens request) hist (G hist)))"
    by (rule decode_loop_cut) simp
  then show ?thesis
    by (cases "cut_tokens (gb_is_eos B) (rq_stop_token_ids request)
          (greedy_stream G (rq_max_tokens request) hist)")
      (simp add: model_tokens_greedy [where G = G, OF assms] cut_stream_def greedy_tokens_def)
qed

section \<open>Properties of speculative decoding\<close>

text \<open>
  C2: for a target without recurrent layers whose cache holds the prompt and whose first token is its own greedy choice: whatever the draft model proposes, when draft-model decoding returns tokens, the first \<^verbatim>\<open>max_tokens\<close> of them are exactly those of plain greedy decoding of the target. At most one more follows, and then it is a stop token that the target itself would have chosen next. Greedy means the verifier's own choice, the first of the greatest logits.\<close>

theorem draft_decoding_is_greedy:
  assumes "no_recurrent X" and "kv_holds st hist" and "nxt = greedy_next X hist"
    and "generate_speculative_greedy X eos request st nxt = Some (Inr toks)"
  shows "take (rq_max_tokens request) toks
      = greedy_tokens (greedy_next X) eos (rq_stop_token_ids request) (rq_max_tokens request) hist
    \<and> (toks = greedy_tokens (greedy_next X) eos (rq_stop_token_ids request) (rq_max_tokens request) hist
       \<or> toks = greedy_tokens (greedy_next X) eos (rq_stop_token_ids request) (Suc (rq_max_tokens request)) hist
          \<and> length toks = Suc (rq_max_tokens request) \<and> last toks \<in> set (rq_stop_token_ids request))"
proof -
  have "spec_answer (greedy_next X) eos (rq_stop_token_ids request) (rq_max_tokens request) hist toks"
    using draft.loop_answer [of X st hist nxt "[]" "rq_max_tokens request" eos] assms
    by (auto simp: generate_speculative_greedy_def)
  from spec_answer_take [OF this] this show ?thesis by (simp add: spec_answer_def)
qed

text \<open>
  C3: for a model with recurrent layers whose cache and recurrent state hold the prompt and whose first token is its own greedy choice: whatever the draft head proposes, when MTP decoding returns tokens, the first \<^verbatim>\<open>max_tokens\<close> of them are exactly those of plain greedy decoding, because the snapshot and the second verification leave the recurrent state at the committed history. At most one more follows, and then it is a stop token that the model itself would have chosen next. Greedy means the verifier's own choice, the first of the greatest logits.\<close>

theorem mtp_decoding_is_greedy:
  assumes "kv_holds st hist" and "ss_gdn st = hist" and "nxt = greedy_next X hist"
    and "generate_speculative_mtp_greedy X eos request st nxt = Some (Inr toks)"
  shows "take (rq_max_tokens request) toks
      = greedy_tokens (greedy_next X) eos (rq_stop_token_ids request) (rq_max_tokens request) hist
    \<and> (toks = greedy_tokens (greedy_next X) eos (rq_stop_token_ids request) (rq_max_tokens request) hist
       \<or> toks = greedy_tokens (greedy_next X) eos (rq_stop_token_ids request) (Suc (rq_max_tokens request)) hist
          \<and> length toks = Suc (rq_max_tokens request) \<and> last toks \<in> set (rq_stop_token_ids request))"
proof -
  have "spec_answer (greedy_next X) eos (rq_stop_token_ids request) (rq_max_tokens request) hist toks"
    using mtp.loop_answer [of st hist nxt X "[]" "rq_max_tokens request" eos] assms
    by (auto simp: generate_speculative_mtp_greedy_def)
  from spec_answer_take [OF this] this show ?thesis by (simp add: spec_answer_def)
qed

text \<open>
  Both loops end: they return tokens or the first error of a round, for every draft model and every device.\<close>

theorem speculative_terminates:
  "generate_speculative_greedy X eos request st nxt \<noteq> None
   \<and> generate_speculative_mtp_greedy X eos request st nxt \<noteq> None"
  by (simp add: generate_speculative_greedy_def generate_speculative_mtp_greedy_def spec_loop_fuel)

section \<open>A concrete round\<close>

text \<open>When the batch fits and the device succeeds, verification succeeds.\<close>

lemma verify_batched_eq:
  assumes "tokens \<noteq> []" and "\<forall>t \<in> set tokens. t < sx_vocab X" and "sx_vocab X \<le> u32_max"
    and "base + length tokens \<le> sx_kv_context_size X" and "sx_kv_context_size X \<le> u32_max"
    and "ss_prefill st = Some s" and "scratch_fits s (sx_kv_context_size X)"
    and "length tokens \<le> hs_chunk_size s" and "\<And>b. sx_device X b = Inr ()"
  shows "verify_batched X st tokens base
    = Inr (map (\<lambda>i. row_argmax (sx_logits X (map (kv_write (ss_kv st) base tokens) [0..<base + i + 1])
              (ss_gdn st @ take (i + 1) tokens))) [0..<length tokens],
           st\<lparr>ss_kv := kv_write (ss_kv st) base tokens, ss_gdn := ss_gdn st @ tokens,
              ss_prefill := Some (copy_host_descriptor s (dense_descriptor tokens base))\<rparr>)"
  using assms prepare_dense_batch_eq [OF assms(1-5) assms(7,8)]
  by (simp add: verify_batched_def Let_def copy_host_descriptor_def dense_descriptor_def dense_batch_def)

text \<open>A target that counts modulo 8 and a draft that guesses it.\<close>

definition count_logits :: "nat list \<Rightarrow> f32 list" where
  "count_logits kv = map (\<lambda>j. if j = (last kv + 1) mod 8 then f32_one else 0) [0..<8]"

definition demo_exec :: "unit spec_exec" where
  "demo_exec = \<lparr>sx_logits = (\<lambda>kv gdn. count_logits kv), sx_device = (\<lambda>b. Inr ()),
     sx_enter_round = (\<lambda>st. Inr ()), sx_draft_step = (\<lambda>st t p. Inr ((t + 1) mod 8, ())),
     sx_copy_row = (\<lambda>st m. Inr ()), sx_num_draft_tokens = 2, sx_kv_context_size = 64, sx_vocab = 8\<rparr>"

definition demo_scratch :: host_scratch where
  "demo_scratch = \<lparr>hs_chunk_size = 16, hs_max_sequences = 1, hs_block_table_capacity = 1,
     hs_request_ids = [], hs_seq_ids = [], hs_tokens = [], hs_positions = [], hs_slot_mapping = [],
     hs_cu_q = [], hs_cu_k = [], hs_context_lens = [], hs_block_tables = []\<rparr>"

definition demo_state :: "unit spec_state" where
  "demo_state = \<lparr>ss_kv = (\<lambda>p. 1), ss_gdn = [1], ss_gdn_snapshot = [], ss_position = 1,
     ss_prefill = Some demo_scratch, ss_draft = ()\<rparr>"

text \<open>Two tokens are asked for; 4 is a stop token.\<close>

definition demo_spec_request :: generate_request where
  "demo_spec_request = request_default\<lparr>rq_max_tokens := 2, rq_stop_token_ids := [4]\<rparr>"

lemma count_argmax: "\<forall>t < 8. row_argmax (count_logits [t]) = (t + 1) mod 8"
proof -
  have "list_all (\<lambda>t. row_argmax (count_logits [t]) = (t + 1) mod 8) [0..<8]" by code_simp
  then show ?thesis by (simp add: list_all_iff)
qed

lemma count_logits_last: "kv \<noteq> [] \<Longrightarrow> count_logits kv = count_logits [last kv]"
  by (simp add: count_logits_def)

lemma demo_greedy_next: "kv \<noteq> [] \<Longrightarrow> last kv < 8 \<Longrightarrow>
    row_argmax (sx_logits demo_exec kv g) = (last kv + 1) mod 8"
  using count_argmax count_logits_last [of kv] by (simp add: demo_exec_def)

lemma demo_scratch_fits: "scratch_fits demo_scratch 64"
  by (simp add: scratch_fits_def demo_scratch_def prefill_kv_page_tokens_def div_ceil_def)

lemma demo_verify:
  assumes "tokens \<noteq> []" and "\<forall>t \<in> set tokens. t < 8" and "length tokens \<le> 16"
  shows "\<exists>st'. verify_batched demo_exec demo_state tokens 1
    = Inr (map (\<lambda>t. (t + 1) mod 8) tokens, st') \<and> ss_gdn_snapshot st' = ss_gdn_snapshot demo_state"
proof -
  let ?kv = "kv_write (ss_kv demo_state) 1 tokens"
  have eq: "verify_batched demo_exec demo_state tokens 1
    = Inr (map (\<lambda>i. row_argmax (sx_logits demo_exec (map ?kv [0..<1 + i + 1])
              (ss_gdn demo_state @ take (i + 1) tokens))) [0..<length tokens],
           demo_state\<lparr>ss_kv := ?kv, ss_gdn := ss_gdn demo_state @ tokens,
              ss_prefill := Some (copy_host_descriptor demo_scratch (dense_descriptor tokens 1))\<rparr>)"
    by (rule verify_batched_eq)
      (use demo_scratch_fits assms in \<open>simp_all add: demo_exec_def demo_state_def demo_scratch_def u32_max_def\<close>)
  have "row_argmax (sx_logits demo_exec (map ?kv [0..<1 + i + 1]) g) = (tokens ! i + 1) mod 8"
    if "i < length tokens" for i g
  proof -
    have "last (map ?kv [0..<1 + i + 1]) = tokens ! i" using that by (simp add: kv_write_def)
    moreover have "tokens ! i < 8" using that assms(2) by simp
    ultimately show ?thesis using demo_greedy_next [of "map ?kv [0..<1 + i + 1]" g] by simp
  qed
  then have "map (\<lambda>i. row_argmax (sx_logits demo_exec (map ?kv [0..<1 + i + 1])
        (ss_gdn demo_state @ take (i + 1) tokens))) [0..<length tokens] = map (\<lambda>t. (t + 1) mod 8) tokens"
    by (intro nth_equalityI) auto
  with eq show ?thesis by simp
qed

lemma demo_proposals:
  "draft_proposals demo_exec (\<lambda>t. False) (Suc (Suc 0)) st 2 p = Inr ([3, 4], st)"
  "mtp_propose demo_exec (\<lambda>t. False) (Suc (Suc 0)) st 2 p = Inr ([3, 4], st)"
proof -
  have step: "sx_draft_step demo_exec st t p = Inr ((t + 1) mod 8, ())" for st t p
    by (simp add: demo_exec_def)
  show "draft_proposals demo_exec (\<lambda>t. False) (Suc (Suc 0)) st 2 p = Inr ([3, 4], st)"
    "mtp_propose demo_exec (\<lambda>t. False) (Suc (Suc 0)) st 2 p = Inr ([3, 4], st)"
    by (simp_all add: step)
qed

lemma demo_rounds:
  "\<exists>st'. draft_round demo_exec (\<lambda>t. False) demo_state 2 = Inr ([3, 4], 5, st')"
  "\<exists>st'. mtp_round demo_exec (\<lambda>t. False) demo_state 2 = Inr ([3, 4], 5, st')"
proof -
  have upd: "demo_state\<lparr>ss_draft := ()\<rparr> = demo_state" by (simp add: demo_state_def)
  have k: "max (sx_num_draft_tokens demo_exec) (Suc 0) = Suc (Suc 0)" by (simp add: demo_exec_def)
  have copy: "sx_copy_row demo_exec st m = Inr ()" "sx_enter_round demo_exec st = Inr ()" for st m
    by (simp_all add: demo_exec_def)
  have pos: "ss_position demo_state = 1" by (simp add: demo_state_def)
  obtain st' where v: "verify_batched demo_exec demo_state [2, 3, 4] 1 = Inr ([3, 4, 5], st')"
    using demo_verify [of "[2, 3, 4]"] by auto
  then show "\<exists>st'. draft_round demo_exec (\<lambda>t. False) demo_state 2 = Inr ([3, 4], 5, st')"
    by (simp add: draft_round_def pos copy upd k demo_proposals Let_def
        del: draft_proposals.simps mtp_propose.simps)
  have "\<exists>st'. verify_batched demo_exec (demo_state\<lparr>ss_gdn_snapshot := ss_gdn demo_state\<rparr>) [2, 3, 4] 1
      = Inr ([3, 4, 5], st')"
    using v by (auto simp: verify_batched_def res_simps Let_def)
  then show "\<exists>st'. mtp_round demo_exec (\<lambda>t. False) demo_state 2 = Inr ([3, 4], 5, st')"
    by (auto simp: mtp_round_def pos copy k demo_proposals Let_def
        simp del: draft_proposals.simps mtp_propose.simps)
qed

lemma demo_state_holds: "kv_holds demo_state [1]" "ss_gdn demo_state = [1]" "no_recurrent demo_exec"
  "greedy_next demo_exec [1] = 2"
proof -
  show "greedy_next demo_exec [1] = 2" using demo_greedy_next [of "[1]"] by (simp add: greedy_next_def)
qed (simp_all add: kv_holds_def demo_state_def no_recurrent_def demo_exec_def)

lemma demo_loop:
  assumes "round demo_state 2 = Inr ([3, 4], 5, st')"
  shows "spec_loop round (\<lambda>t. False) [4] 2 2 demo_state 2 [] = Some (Inr [2, 3, 4])"
  using assms by (simp add: spec_loop.simps [of _ _ _ 2 2] Let_def)

lemma demo_generated:
  "generate_speculative_greedy demo_exec (\<lambda>t. False) demo_spec_request demo_state 2 = Some (Inr [2, 3, 4])"
  "generate_speculative_mtp_greedy demo_exec (\<lambda>t. False) demo_spec_request demo_state 2 = Some (Inr [2, 3, 4])"
proof -
  have r: "rq_max_tokens demo_spec_request = 2" "rq_stop_token_ids demo_spec_request = [4]"
    by (simp_all add: demo_spec_request_def)
  show "generate_speculative_greedy demo_exec (\<lambda>t. False) demo_spec_request demo_state 2 = Some (Inr [2, 3, 4])"
    unfolding generate_speculative_greedy_def r using demo_rounds(1) demo_loop by blast
  show "generate_speculative_mtp_greedy demo_exec (\<lambda>t. False) demo_spec_request demo_state 2 = Some (Inr [2, 3, 4])"
    unfolding generate_speculative_mtp_greedy_def r using demo_rounds(2) demo_loop by blast
qed

text \<open>
  The loop can return more than \<^verbatim>\<open>max_tokens\<close> tokens: with the limit 2, an accepted stop token is pushed as the third, where the batch loop returns two tokens.\<close>

theorem speculative_overruns_limit:
  "rq_max_tokens demo_spec_request = 2
   \<and> generate_speculative_greedy demo_exec (\<lambda>t. False) demo_spec_request demo_state 2 = Some (Inr [2, 3, 4])
   \<and> generate_speculative_mtp_greedy demo_exec (\<lambda>t. False) demo_spec_request demo_state 2 = Some (Inr [2, 3, 4])
   \<and> greedy_tokens (greedy_next demo_exec) (\<lambda>t. False) [4] 2 [1] = [2, 3]"
proof -
  have "greedy_next demo_exec [1, 2] = 3" using demo_greedy_next [of "[1, 2]"] by (simp add: greedy_next_def)
  then have "greedy_tokens (greedy_next demo_exec) (\<lambda>t. False) [4] 2 [1] = [2, 3]"
    using demo_state_holds(4) by (simp add: numeral_2_eq_2)
  then show ?thesis using demo_generated by (simp add: demo_spec_request_def)
qed

text \<open>
  The arg max of the verification takes the first of several greatest logits, the host sampler the last.\<close>

theorem verify_and_sampler_break_ties_apart:
  "row_argmax [f32_one, f32_one] = 0
   \<and> sample_next_token ops u [f32_one, f32_one] \<lparr>temperature = 0, top_k = 1, top_p = f32_one, min_p = 0\<rparr>
      = Some (Inr 1)"
proof -
  have "row_argmax [f32_one, f32_one] = 0" "argmax [f32_one, f32_one] = 1" by code_simp+
  then show ?thesis by (simp add: sample_next_token_def)
qed

text \<open>
  Only ties (and values that are not numbers) tell the two apart: where one logit is above all
  others and above minus infinity, the verification takes what the sampler takes.
\<close>

lemma first_max_keeps:
  "\<forall>v \<in> set row. \<not> f32_lt best_v v \<Longrightarrow> first_max best_v best j row = best"
  by (induction row arbitrary: j) auto

lemma first_max_greatest:
  "i < length row \<Longrightarrow> f32_lt best_v (row ! i)
     \<Longrightarrow> \<forall>k < length row. k \<noteq> i \<longrightarrow> f32_lt (row ! k) (row ! i)
     \<Longrightarrow> first_max best_v best j row = j + i"
proof (induction row arbitrary: i best_v best j)
  case (Cons v rest)
  show ?case
  proof (cases i)
    case 0
    have "\<not> f32_lt v u" if u: "u \<in> set rest" for u
    proof -
      obtain k where "k < length rest" "u = rest ! k" using u by (metis in_set_conv_nth)
      then have "f32_lt u v" using Cons.prems(3) 0 by (auto dest: spec [of _ "Suc k"])
      then show ?thesis by (simp add: f32_lt_def)
    qed
    then show ?thesis using Cons.prems(2) 0 by (simp add: first_max_keeps)
  next
    case (Suc n)
    have "\<forall>k < length rest. k \<noteq> n \<longrightarrow> f32_lt (rest ! k) (rest ! n)"
      using Cons.prems(3) Suc by (auto dest: spec [of _ "Suc _"])
    moreover have "f32_lt v (rest ! n)" using Cons.prems(3) Suc by (auto dest: spec [of _ 0])
    ultimately show ?thesis
      using Cons.prems(1,2) Suc Cons.IH [of n _ _ "j + 1"] by simp
  qed
qed simp

lemma row_argmax_is_argmax:
  assumes "i < length row" and "f32_lt f32_neg_infinity (row ! i)"
    and "\<forall>k < length row. k \<noteq> i \<longrightarrow> f32_lt (row ! k) (row ! i)"
  shows "row_argmax row = argmax row"
proof -
  have "row \<noteq> []" using assms(1) by auto
  then have "argmax row < length row" by (rule argmax_less)
  moreover have "f32_key (row ! i) \<le> f32_key (row ! argmax row)" by (rule argmax_ge [OF assms(1)])
  ultimately have "argmax row = i" using assms(3) by (fastforce simp: f32_lt_def)
  then show ?thesis using first_max_greatest [OF assms] by (simp add: row_argmax_def)
qed

lemma demo_greedy_three:
  "greedy_tokens (greedy_next demo_exec) (\<lambda>t. False) [4] 3 [1] = [2, 3, 4]"
proof -
  have "greedy_next demo_exec [1, 2] = 3" "greedy_next demo_exec [1, 2, 3] = 4"
    using demo_greedy_next [of "[1, 2]"] demo_greedy_next [of "[1, 2, 3]"] by (simp_all add: greedy_next_def)
  then show ?thesis using demo_state_holds(4) by (simp add: numeral_3_eq_3)
qed

lemma draft_decoding_is_greedy_witness:
  "take 2 [2, 3, 4] = greedy_tokens (greedy_next demo_exec) (\<lambda>t. False) [4] 2 [1]
   \<and> ([2, 3, 4] = greedy_tokens (greedy_next demo_exec) (\<lambda>t. False) [4] 2 [1]
      \<or> [2, 3, 4] = greedy_tokens (greedy_next demo_exec) (\<lambda>t. False) [4] 3 [1]
         \<and> length [2 :: nat, 3, 4] = 3 \<and> last [2 :: nat, 3, 4] = 4)"
  using draft_decoding_is_greedy [OF demo_state_holds(3,1) demo_state_holds(4) [symmetric] demo_generated(1)]
  by (simp add: demo_spec_request_def numeral_3_eq_3 numeral_2_eq_2)

lemma mtp_decoding_is_greedy_witness:
  "take 2 [2, 3, 4] = greedy_tokens (greedy_next demo_exec) (\<lambda>t. False) [4] 2 [1]
   \<and> ([2, 3, 4] = greedy_tokens (greedy_next demo_exec) (\<lambda>t. False) [4] 2 [1]
      \<or> [2, 3, 4] = greedy_tokens (greedy_next demo_exec) (\<lambda>t. False) [4] 3 [1]
         \<and> length [2 :: nat, 3, 4] = 3 \<and> last [2 :: nat, 3, 4] = 4)"
  using mtp_decoding_is_greedy [OF demo_state_holds(1,2) demo_state_holds(4) [symmetric] demo_generated(2)]
  by (simp add: demo_spec_request_def numeral_3_eq_3 numeral_2_eq_2)

end
