(* ===== verification/Staging.thy ===== *)
theory Staging
  imports RustStr Prelude
begin

text \<open>
  The pool of device staging slots that streams host-resident weights to the GPU
  (\<^verbatim>\<open>cuda/staging.rs\<close>), the host byte sources of \<^verbatim>\<open>cuda/types.rs\<close>, and the
  staged matvec calls of \<^verbatim>\<open>cuda/runtime/linear.rs\<close> that use it.

  The CUDA driver is modelled by its documented stream order. Each of the two streams is a
  list of issued operations, executed in order, with a counter of those already done. An event
  recorded into a stream is the number of operations issued to that stream at that time; a
  wait is passed when the other stream has done that many. A copy from the pinned bounce buffer
  reads the buffer when the copy is executed, not when it is issued. A kernel logs the bytes it
  reads together with the weights it was launched for, which the program itself does not keep.
  Driver calls are taken to succeed.
\<close>

section \<open>Host bytes\<close>

text \<open>
  \<^verbatim>\<open>HostWeightBytes\<close>; an arena is named by the address of its shared handle, and
  \<open>A\<close> gives the bytes of each arena. Arenas are only written while weights are loaded.
\<close>

datatype 'b host_weight_bytes =
    HwArena nat nat nat
  | HwPinned "'b list"
  | HwMmap "'b list"

fun hw_as_bytes :: "(nat \<Rightarrow> 'b list) \<Rightarrow> 'b host_weight_bytes \<Rightarrow> 'b list" where
  "hw_as_bytes A (HwArena arena offset n) = take n (drop offset (A arena))"
| "hw_as_bytes A (HwPinned p) = p"
| "hw_as_bytes A (HwMmap t) = t"

fun hw_len :: "'b host_weight_bytes \<Rightarrow> nat" where
  "hw_len (HwArena arena offset n) = n"
| "hw_len (HwPinned p) = length p"
| "hw_len (HwMmap t) = length t"

fun hw_is_pinned :: "'b host_weight_bytes \<Rightarrow> bool" where
  "hw_is_pinned (HwArena arena offset n) = True"
| "hw_is_pinned (HwPinned p) = True"
| "hw_is_pinned (HwMmap t) = False"

fun hw_arena_span :: "'b host_weight_bytes \<Rightarrow> (nat \<times> nat \<times> nat) option" where
  "hw_arena_span (HwArena arena offset n) = Some (arena, offset, n)"
| "hw_arena_span (HwPinned p) = None"
| "hw_arena_span (HwMmap t) = None"

record 'b host_resident_weights =
  hr_packed :: "'b host_weight_bytes"
  hr_scales :: "'b host_weight_bytes"
  hr_native_mxfp4 :: "'b host_weight_bytes option"

definition contiguous_packed_scales ::
  "(nat \<Rightarrow> 'b list) \<Rightarrow> 'b host_resident_weights \<Rightarrow> 'b list option" where
  "contiguous_packed_scales A hw =
     (case (hw_arena_span (hr_packed hw), hw_arena_span (hr_scales hw)) of
        (Some (pa, po, pl), Some (sa, so, sl)) \<Rightarrow>
          if pa \<noteq> sa \<or> so \<noteq> po + pl then None
          else Some (take (pl + sl) (drop po (A pa)))
      | _ \<Rightarrow> None)"

text \<open>\<^verbatim>\<open>OwnedPinnedBuf\<close> rounds its length up to pages; the bytes behind the payload are zero.\<close>

definition page_size :: nat where
  "page_size = 4096"

definition alloc_pinned_from_bytes :: "'b \<Rightarrow> 'b list \<Rightarrow> 'b list" where
  "alloc_pinned_from_bytes zero bytes =
     bytes @ replicate (div_ceil (length bytes) page_size * page_size - length bytes) zero"

section \<open>Streams\<close>

datatype staging_buffer = PackedBuf | ScalesBuf | CombinedBuf | NativeBuf

type_synonym region = "nat \<times> staging_buffer \<times> nat \<times> nat"

datatype 'b transfer_op =
    CopyHost nat staging_buffer "'b list"
  | CopyBounce nat staging_buffer nat
  | WaitCompute nat

datatype 'b compute_op =
    WaitTransfer nat
  | Kernel "region list" "'b list list"

record 'b cuda_streams =
  cs_transfer :: "'b transfer_op list"
  cs_compute :: "'b compute_op list"
  cs_transfer_done :: nat
  cs_compute_done :: nat
  cs_device :: "nat \<times> staging_buffer \<Rightarrow> 'b list"
  cs_bounce :: "nat \<times> staging_buffer \<Rightarrow> 'b list"
  cs_log :: "('b list list \<times> 'b list list) list"

definition issue_transfer :: "'b transfer_op \<Rightarrow> 'b cuda_streams \<Rightarrow> 'b cuda_streams" where
  "issue_transfer t cs = cs\<lparr>cs_transfer := cs_transfer cs @ [t]\<rparr>"

definition issue_compute :: "'b compute_op \<Rightarrow> 'b cuda_streams \<Rightarrow> 'b cuda_streams" where
  "issue_compute c cs = cs\<lparr>cs_compute := cs_compute cs @ [c]\<rparr>"

text \<open>A copy overwrites the front of its buffer.\<close>

definition overwrite :: "'b list \<Rightarrow> 'b list \<Rightarrow> 'b list" where
  "overwrite src old = src @ drop (length src) old"

fun transfer_ready :: "'b cuda_streams \<Rightarrow> 'b transfer_op \<Rightarrow> bool" where
  "transfer_ready cs (WaitCompute n) \<longleftrightarrow> n \<le> cs_compute_done cs"
| "transfer_ready cs (CopyHost s b src) \<longleftrightarrow> True"
| "transfer_ready cs (CopyBounce s b n) \<longleftrightarrow> True"

fun compute_ready :: "'b cuda_streams \<Rightarrow> 'b compute_op \<Rightarrow> bool" where
  "compute_ready cs (WaitTransfer n) \<longleftrightarrow> n \<le> cs_transfer_done cs"
| "compute_ready cs (Kernel rs w) \<longleftrightarrow> True"

fun do_transfer :: "'b cuda_streams \<Rightarrow> 'b transfer_op \<Rightarrow> (nat \<times> staging_buffer \<Rightarrow> 'b list)" where
  "do_transfer cs (WaitCompute n) = cs_device cs"
| "do_transfer cs (CopyHost s b src) = (cs_device cs)((s, b) := overwrite src (cs_device cs (s, b)))"
| "do_transfer cs (CopyBounce s b n) =
     (cs_device cs)((s, b) := overwrite (take n (cs_bounce cs (s, b))) (cs_device cs (s, b)))"

definition read_region :: "(nat \<times> staging_buffer \<Rightarrow> 'b list) \<Rightarrow> region \<Rightarrow> 'b list" where
  "read_region dev r = (case r of (s, b, offset, n) \<Rightarrow> take n (drop offset (dev (s, b))))"

fun do_compute :: "'b cuda_streams \<Rightarrow> 'b compute_op \<Rightarrow> ('b list list \<times> 'b list list) list" where
  "do_compute cs (WaitTransfer n) = cs_log cs"
| "do_compute cs (Kernel rs w) = cs_log cs @ [(map (read_region (cs_device cs)) rs, w)]"

inductive device_step :: "'b cuda_streams \<Rightarrow> 'b cuda_streams \<Rightarrow> bool" where
  transfer: "cs_transfer_done cs < length (cs_transfer cs) \<Longrightarrow> t = cs_transfer cs ! cs_transfer_done cs
     \<Longrightarrow> transfer_ready cs t
     \<Longrightarrow> device_step cs (cs\<lparr>cs_transfer_done := Suc (cs_transfer_done cs), cs_device := do_transfer cs t\<rparr>)"
| compute: "cs_compute_done cs < length (cs_compute cs) \<Longrightarrow> c = cs_compute cs ! cs_compute_done cs
     \<Longrightarrow> compute_ready cs c
     \<Longrightarrow> device_step cs (cs\<lparr>cs_compute_done := Suc (cs_compute_done cs), cs_log := do_compute cs c\<rparr>)"

section \<open>The pool\<close>

text \<open>
  Events are the operation counts at their last recording: \<open>ss_compute_event\<close> on the compute
  stream, the transfer event on the transfer stream.
\<close>

record staging_slot =
  sl_packed_cap :: nat
  sl_scales_cap :: nat
  sl_combined_cap :: nat
  sl_native_cap :: "nat option"
  sl_compute_event :: nat
  sl_primed :: bool
  sl_transfer_event :: nat
  sl_combined_packed_bytes :: "nat option"

record staging_pool =
  sp_slots :: "staging_slot list"
  sp_next_slot :: nat
  sp_last_prepared_slot :: "nat option"

definition default_staging_slot_count :: nat where
  "default_staging_slot_count = 4"

text \<open>\<open>parsed\<close> is the parsed value of \<^verbatim>\<open>AEGIS_STAGING_SLOTS\<close>, if it has one.\<close>

definition configured_slot_count :: "nat option \<Rightarrow> nat" where
  "configured_slot_count parsed =
     (case parsed of None \<Rightarrow> default_staging_slot_count | Some n \<Rightarrow> min (max n 2) 64)"

definition pool_new :: "nat \<Rightarrow> nat \<Rightarrow> nat \<Rightarrow> nat option \<Rightarrow> staging_pool" where
  "pool_new max_packed_bytes max_scale_bytes max_native_mxfp4_bytes slots_env =
     (let cap_p = max max_packed_bytes 1;
          cap_s = max max_scale_bytes 1;
          slot = \<lparr>sl_packed_cap = cap_p, sl_scales_cap = cap_s, sl_combined_cap = cap_p + cap_s,
                  sl_native_cap = (if max_native_mxfp4_bytes > 0 then Some max_native_mxfp4_bytes else None),
                  sl_compute_event = 0, sl_primed = False, sl_transfer_event = 0,
                  sl_combined_packed_bytes = None\<rparr>
      in \<lparr>sp_slots = replicate (configured_slot_count slots_env) slot, sp_next_slot = 0,
          sp_last_prepared_slot = None\<rparr>)"

text \<open>One buffer of a slot from one host source; an unpinned source goes through the bounce buffer.\<close>

definition stage_buffer ::
  "(nat \<Rightarrow> 'b list) \<Rightarrow> nat \<Rightarrow> staging_buffer \<Rightarrow> 'b host_weight_bytes \<Rightarrow> nat
     \<Rightarrow> 'b cuda_streams \<Rightarrow> 'b cuda_streams" where
  "stage_buffer A slot b src n cs =
     (if hw_is_pinned src
      then issue_transfer (CopyHost slot b (take n (hw_as_bytes A src))) cs
      else
        let bounce = overwrite (take n (hw_as_bytes A src)) (cs_bounce cs (slot, b))
        in issue_transfer (CopyBounce slot b n)
             (cs\<lparr>cs_bounce := (cs_bounce cs)((slot, b) := bounce)\<rparr>))"

text \<open>\<^verbatim>\<open>record_into_transfer\<close> and \<^verbatim>\<open>compute_wait_event\<close> on the transfer event of a slot.\<close>

definition fence_compute ::
  "nat \<Rightarrow> staging_pool \<times> 'b cuda_streams \<Rightarrow> staging_pool \<times> 'b cuda_streams" where
  "fence_compute slot = (\<lambda>(pool, cs).
     (pool\<lparr>sp_slots := (sp_slots pool)[slot := (sp_slots pool ! slot)\<lparr>sl_transfer_event := length (cs_transfer cs)\<rparr>]\<rparr>,
      issue_compute (WaitTransfer (length (cs_transfer cs))) cs))"

definition prepare_async ::
  "(nat \<Rightarrow> 'b list) \<Rightarrow> 'b host_resident_weights \<Rightarrow> nat \<Rightarrow> nat \<Rightarrow> staging_pool \<times> 'b cuda_streams
     \<Rightarrow> (staging_pool \<times> 'b cuda_streams) \<times> nat aegis_result" where
  "prepare_async A hw packed_bytes scale_bytes = (\<lambda>(pool, cs).
     let slot_idx = sp_next_slot pool;
         pool = pool\<lparr>sp_next_slot := (sp_next_slot pool + 1) mod length (sp_slots pool)\<rparr>;
         slot = sp_slots pool ! slot_idx
     in if packed_bytes > sl_packed_cap slot then ((pool, cs), Inl (InvalidPlan ''staging packed overflow''))
        else if scale_bytes > sl_scales_cap slot then ((pool, cs), Inl (InvalidPlan ''staging scales overflow''))
        else if hw_len (hr_packed hw) \<noteq> packed_bytes \<or> hw_len (hr_scales hw) \<noteq> scale_bytes
        then ((pool, cs), Inl (InvalidPlan ''pinned host slice size mismatch''))
        else
          let cs = (if sl_primed slot then issue_transfer (WaitCompute (sl_compute_event slot)) cs else cs);
              set_marker = (\<lambda>v. pool\<lparr>sp_slots := (sp_slots pool)[slot_idx := slot\<lparr>sl_combined_packed_bytes := v\<rparr>]\<rparr>);
              finish = (\<lambda>st. case fence_compute slot_idx st of
                 (pool, cs) \<Rightarrow> ((pool\<lparr>sp_last_prepared_slot := Some slot_idx\<rparr>, cs), Inr slot_idx))
          in case contiguous_packed_scales A hw of
               Some combined \<Rightarrow>
                 if packed_bytes + scale_bytes > sl_combined_cap slot
                 then ((pool, cs), Inl (InvalidPlan ''staging combined overflow''))
                 else finish (set_marker (Some packed_bytes),
                        issue_transfer (CopyHost slot_idx CombinedBuf
                          (take (packed_bytes + scale_bytes) combined)) cs)
             | None \<Rightarrow>
                 finish (set_marker None,
                   stage_buffer A slot_idx ScalesBuf (hr_scales hw) scale_bytes
                     (stage_buffer A slot_idx PackedBuf (hr_packed hw) packed_bytes cs)))"

definition prepare_native_mxfp4_into_last ::
  "(nat \<Rightarrow> 'b list) \<Rightarrow> 'b host_weight_bytes \<Rightarrow> staging_pool \<times> 'b cuda_streams
     \<Rightarrow> (staging_pool \<times> 'b cuda_streams) \<times> unit aegis_result" where
  "prepare_native_mxfp4_into_last A mxfp4 = (\<lambda>(pool, cs).
     case sp_last_prepared_slot pool of
       None \<Rightarrow> ((pool, cs), Inl (InvalidPlan ''prepare_native_mxfp4 called without a preceding prepare_async''))
     | Some slot_idx \<Rightarrow>
         (case sl_native_cap (sp_slots pool ! slot_idx) of
            None \<Rightarrow> ((pool, cs), Inl (InvalidPlan ''native MXFP4 staging buffer not allocated''))
          | Some cap \<Rightarrow>
              if hw_len mxfp4 > cap then ((pool, cs), Inl (InvalidPlan ''staging native mxfp4 overflow''))
              else (fence_compute slot_idx
                      (pool, stage_buffer A slot_idx NativeBuf mxfp4 (hw_len mxfp4) cs), Inr ())))"

definition mark_kernel_launched ::
  "nat \<Rightarrow> staging_pool \<times> 'b cuda_streams \<Rightarrow> staging_pool \<times> 'b cuda_streams" where
  "mark_kernel_launched slot = (\<lambda>(pool, cs).
     (pool\<lparr>sp_slots := (sp_slots pool)[slot := (sp_slots pool ! slot)
        \<lparr>sl_compute_event := length (cs_compute cs), sl_primed := True\<rparr>]\<rparr>, cs))"

definition packed_view :: "staging_pool \<Rightarrow> nat \<Rightarrow> nat \<Rightarrow> region" where
  "packed_view pool slot n =
     (if sl_combined_packed_bytes (sp_slots pool ! slot) \<noteq> None then (slot, CombinedBuf, 0, n)
      else (slot, PackedBuf, 0, n))"

definition scales_view :: "staging_pool \<Rightarrow> nat \<Rightarrow> nat \<Rightarrow> region" where
  "scales_view pool slot n =
     (case sl_combined_packed_bytes (sp_slots pool ! slot) of
        Some packed_bytes \<Rightarrow> (slot, CombinedBuf, packed_bytes, n)
      | None \<Rightarrow> (slot, ScalesBuf, 0, n))"

definition native_mxfp4_view :: "staging_pool \<Rightarrow> nat \<Rightarrow> nat \<Rightarrow> region option" where
  "native_mxfp4_view pool slot n =
     map_option (\<lambda>cap. (slot, NativeBuf, 0, n)) (sl_native_cap (sp_slots pool ! slot))"

section \<open>Staged calls\<close>

text \<open>A host-resident linear: its weights and the byte counts the loader recorded.\<close>

record 'b staged_linear =
  ln_weights :: "'b host_resident_weights"
  ln_packed_bytes :: nat
  ln_scale_bytes :: nat

text \<open>\<^verbatim>\<open>matvec_nvfp4_staged_prequantized_device\<close> and its reference and batched variants.\<close>

definition matvec_nvfp4_staged ::
  "(nat \<Rightarrow> 'b list) \<Rightarrow> 'b staged_linear \<Rightarrow> staging_pool \<times> 'b cuda_streams
     \<Rightarrow> (staging_pool \<times> 'b cuda_streams) \<times> unit aegis_result" where
  "matvec_nvfp4_staged A linear st =
     (let hw = ln_weights linear
      in case prepare_async A hw (ln_packed_bytes linear) (ln_scale_bytes linear) st of
           (st, Inl e) \<Rightarrow> (st, Inl e)
         | ((pool, cs), Inr slot) \<Rightarrow>
             let regions = [packed_view pool slot (ln_packed_bytes linear),
                            scales_view pool slot (ln_scale_bytes linear)];
                 weights = [hw_as_bytes A (hr_packed hw), hw_as_bytes A (hr_scales hw)]
             in (mark_kernel_launched slot (pool, issue_compute (Kernel regions weights) cs), Inr ()))"

text \<open>\<^verbatim>\<open>matvec_native_mxfp4_staged_device\<close> and its batched variant.\<close>

definition matvec_native_mxfp4_staged ::
  "(nat \<Rightarrow> 'b list) \<Rightarrow> 'b staged_linear \<Rightarrow> staging_pool \<times> 'b cuda_streams
     \<Rightarrow> (staging_pool \<times> 'b cuda_streams) \<times> unit aegis_result" where
  "matvec_native_mxfp4_staged A linear st =
     (let hw = ln_weights linear
      in case hr_native_mxfp4 hw of
           None \<Rightarrow> (st, Inl (InvalidPlan ''staged native mxfp4 matvec: no repacked data''))
         | Some mxfp4 \<Rightarrow>
             (case prepare_async A hw (ln_packed_bytes linear) (ln_scale_bytes linear) st of
                (st, Inl e) \<Rightarrow> (st, Inl e)
              | (st, Inr slot) \<Rightarrow>
                  (case prepare_native_mxfp4_into_last A mxfp4 st of
                     (st, Inl e) \<Rightarrow> (st, Inl e)
                   | ((pool, cs), Inr u) \<Rightarrow>
                       (case native_mxfp4_view pool slot (hw_len mxfp4) of
                          None \<Rightarrow> ((pool, cs), Inl (InvalidPlan ''native MXFP4 staging buffer not allocated''))
                        | Some region \<Rightarrow>
                            (mark_kernel_launched slot
                               (pool, issue_compute (Kernel [region] [hw_as_bytes A mxfp4]) cs), Inr ())))))"

text \<open>
  A run: host calls in any order, device steps at any time between them. A call only appends
  to the streams and a device step only works on what was appended, so steps inside a call add
  no behaviour for pinned sources.
\<close>

datatype 'b host_call = Nvfp4Call "'b staged_linear" | Mxfp4Call "'b staged_linear"

fun do_call :: "(nat \<Rightarrow> 'b list) \<Rightarrow> 'b host_call \<Rightarrow> staging_pool \<times> 'b cuda_streams \<Rightarrow> staging_pool \<times> 'b cuda_streams" where
  "do_call A (Nvfp4Call linear) st = fst (matvec_nvfp4_staged A linear st)"
| "do_call A (Mxfp4Call linear) st = fst (matvec_native_mxfp4_staged A linear st)"

definition streams_init :: "(nat \<times> staging_buffer \<Rightarrow> 'b list) \<Rightarrow> (nat \<times> staging_buffer \<Rightarrow> 'b list) \<Rightarrow> 'b cuda_streams" where
  "streams_init dev bounce = \<lparr>cs_transfer = [], cs_compute = [], cs_transfer_done = 0,
     cs_compute_done = 0, cs_device = dev, cs_bounce = bounce, cs_log = []\<rparr>"

inductive reachable ::
  "(nat \<Rightarrow> 'b list) \<Rightarrow> ('b host_call \<Rightarrow> bool) \<Rightarrow> staging_pool \<times> 'b cuda_streams \<Rightarrow> bool"
  for A :: "nat \<Rightarrow> 'b list" and allowed :: "'b host_call \<Rightarrow> bool" where
  init: "reachable A allowed (pool_new mp ms mn slots_env, streams_init dev bounce)"
| call: "reachable A allowed st \<Longrightarrow> allowed c \<Longrightarrow> reachable A allowed (do_call A c st)"
| device: "reachable A allowed (pool, cs) \<Longrightarrow> device_step cs cs' \<Longrightarrow> reachable A allowed (pool, cs')"

section \<open>The stream invariant\<close>

text \<open>What the device memory holds after the copies of a list, all from pinned sources.\<close>

fun play_op :: "(nat \<times> staging_buffer \<Rightarrow> 'b list) \<Rightarrow> 'b transfer_op \<Rightarrow> (nat \<times> staging_buffer \<Rightarrow> 'b list)" where
  "play_op dev (CopyHost s b src) = dev((s, b) := overwrite src (dev (s, b)))"
| "play_op dev (CopyBounce s b n) = dev"
| "play_op dev (WaitCompute n) = dev"

definition play :: "'b transfer_op list \<Rightarrow> (nat \<times> staging_buffer \<Rightarrow> 'b list) \<Rightarrow> (nat \<times> staging_buffer \<Rightarrow> 'b list)" where
  "play ts dev = foldl play_op dev ts"

fun copies_to :: "nat \<Rightarrow> 'b transfer_op \<Rightarrow> bool" where
  "copies_to s (CopyHost s' b src) \<longleftrightarrow> s = s'"
| "copies_to s (CopyBounce s' b n) \<longleftrightarrow> s = s'"
| "copies_to s (WaitCompute n) \<longleftrightarrow> False"

fun from_bounce :: "'b transfer_op \<Rightarrow> bool" where
  "from_bounce (CopyBounce s b n) \<longleftrightarrow> True"
| "from_bounce (CopyHost s b src) \<longleftrightarrow> False"
| "from_bounce (WaitCompute n) \<longleftrightarrow> False"

fun kernel_on :: "nat \<Rightarrow> 'b compute_op \<Rightarrow> bool" where
  "kernel_on s (Kernel rs w) \<longleftrightarrow> (\<forall>r \<in> set rs. fst r = s)"
| "kernel_on s (WaitTransfer n) \<longleftrightarrow> False"

fun kernel_weights :: "'b compute_op \<Rightarrow> 'b list list list" where
  "kernel_weights (Kernel rs w) = [w]"
| "kernel_weights (WaitTransfer n) = []"

text \<open>
  Kernel \<open>p\<close> is guarded: a wait before it covers copies that give it its weights, and every
  later copy into its slot sits behind a wait for the kernel.
\<close>

definition guard_data ::
  "(nat \<times> staging_buffer \<Rightarrow> 'b list) \<Rightarrow> 'b transfer_op list \<Rightarrow> nat \<Rightarrow> nat \<Rightarrow> region list \<Rightarrow> 'b list list
     \<Rightarrow> nat \<Rightarrow> bool" where
  "guard_data dev0 ts p s rs w n \<longleftrightarrow>
     (\<forall>r \<in> set rs. fst r = s) \<and> n \<le> length ts
     \<and> map (read_region (play (take n ts) dev0)) rs = w
     \<and> (\<forall>i. n \<le> i \<longrightarrow> i < length ts \<longrightarrow> copies_to s (ts ! i)
          \<longrightarrow> (\<exists>j < i. \<exists>c. ts ! j = WaitCompute c \<and> p < c))"

definition guarded :: "(nat \<times> staging_buffer \<Rightarrow> 'b list) \<Rightarrow> 'b cuda_streams \<Rightarrow> nat \<Rightarrow> bool" where
  "guarded dev0 cs p \<longleftrightarrow>
     (\<forall>rs w. cs_compute cs ! p = Kernel rs w \<longrightarrow>
        (\<exists>s q n. q < p \<and> cs_compute cs ! q = WaitTransfer n
           \<and> guard_data dev0 (cs_transfer cs) p s rs w n))"

definition stream_inv :: "(nat \<times> staging_buffer \<Rightarrow> 'b list) \<Rightarrow> 'b cuda_streams \<Rightarrow> bool" where
  "stream_inv dev0 cs \<longleftrightarrow>
     (\<forall>t \<in> set (cs_transfer cs). \<not> from_bounce t)
     \<and> cs_transfer_done cs \<le> length (cs_transfer cs) \<and> cs_compute_done cs \<le> length (cs_compute cs)
     \<and> cs_device cs = play (take (cs_transfer_done cs) (cs_transfer cs)) dev0
     \<and> (\<forall>i c. i < cs_transfer_done cs \<and> cs_transfer cs ! i = WaitCompute c \<longrightarrow> c \<le> cs_compute_done cs)
     \<and> (\<forall>q n. q < cs_compute_done cs \<and> cs_compute cs ! q = WaitTransfer n \<longrightarrow> n \<le> cs_transfer_done cs)
     \<and> cs_log cs = map (\<lambda>w. (w, w)) (concat (map kernel_weights (take (cs_compute_done cs) (cs_compute cs))))
     \<and> (\<forall>p < length (cs_compute cs). guarded dev0 cs p)
     \<and> (\<forall>i c. i < length (cs_transfer cs) \<and> cs_transfer cs ! i = WaitCompute c \<longrightarrow> c \<le> length (cs_compute cs))
     \<and> (\<forall>q n. q < length (cs_compute cs) \<and> cs_compute cs ! q = WaitTransfer n \<longrightarrow> n \<le> length (cs_transfer cs))
     \<and> (\<forall>i c q n. i < length (cs_transfer cs) \<and> cs_transfer cs ! i = WaitCompute c
          \<and> q < length (cs_compute cs) \<and> cs_compute cs ! q = WaitTransfer n \<longrightarrow> c \<le> q \<or> n \<le> i)"

lemma stream_invI:
  assumes "\<forall>t \<in> set (cs_transfer cs). \<not> from_bounce t"
    and "cs_transfer_done cs \<le> length (cs_transfer cs)" and "cs_compute_done cs \<le> length (cs_compute cs)"
    and "cs_device cs = play (take (cs_transfer_done cs) (cs_transfer cs)) dev0"
    and "\<And>i c. i < cs_transfer_done cs \<Longrightarrow> cs_transfer cs ! i = WaitCompute c \<Longrightarrow> c \<le> cs_compute_done cs"
    and "\<And>q n. q < cs_compute_done cs \<Longrightarrow> cs_compute cs ! q = WaitTransfer n \<Longrightarrow> n \<le> cs_transfer_done cs"
    and "cs_log cs = map (\<lambda>w. (w, w)) (concat (map kernel_weights (take (cs_compute_done cs) (cs_compute cs))))"
    and "\<And>p. p < length (cs_compute cs) \<Longrightarrow> guarded dev0 cs p"
    and "\<And>i c. i < length (cs_transfer cs) \<Longrightarrow> cs_transfer cs ! i = WaitCompute c \<Longrightarrow> c \<le> length (cs_compute cs)"
    and "\<And>q n. q < length (cs_compute cs) \<Longrightarrow> cs_compute cs ! q = WaitTransfer n \<Longrightarrow> n \<le> length (cs_transfer cs)"
    and "\<And>i c q n. i < length (cs_transfer cs) \<Longrightarrow> cs_transfer cs ! i = WaitCompute c
          \<Longrightarrow> q < length (cs_compute cs) \<Longrightarrow> cs_compute cs ! q = WaitTransfer n \<Longrightarrow> c \<le> q \<or> n \<le> i"
  shows "stream_inv dev0 cs"
  unfolding stream_inv_def by (intro conjI; use assms in blast)

lemma stream_invD:
  assumes "stream_inv dev0 cs"
  shows "\<forall>t \<in> set (cs_transfer cs). \<not> from_bounce t"
    and "cs_transfer_done cs \<le> length (cs_transfer cs)" and "cs_compute_done cs \<le> length (cs_compute cs)"
    and "cs_device cs = play (take (cs_transfer_done cs) (cs_transfer cs)) dev0"
    and "i < cs_transfer_done cs \<Longrightarrow> cs_transfer cs ! i = WaitCompute c \<Longrightarrow> c \<le> cs_compute_done cs"
    and "q < cs_compute_done cs \<Longrightarrow> cs_compute cs ! q = WaitTransfer n \<Longrightarrow> n \<le> cs_transfer_done cs"
    and "cs_log cs = map (\<lambda>w. (w, w)) (concat (map kernel_weights (take (cs_compute_done cs) (cs_compute cs))))"
    and "p < length (cs_compute cs) \<Longrightarrow> guarded dev0 cs p"
    and "i < length (cs_transfer cs) \<Longrightarrow> cs_transfer cs ! i = WaitCompute c \<Longrightarrow> c \<le> length (cs_compute cs)"
    and "q < length (cs_compute cs) \<Longrightarrow> cs_compute cs ! q = WaitTransfer n \<Longrightarrow> n \<le> length (cs_transfer cs)"
    and "i < length (cs_transfer cs) \<Longrightarrow> cs_transfer cs ! i = WaitCompute c
          \<Longrightarrow> q < length (cs_compute cs) \<Longrightarrow> cs_compute cs ! q = WaitTransfer n \<Longrightarrow> c \<le> q \<or> n \<le> i"
  using assms unfolding stream_inv_def by blast+

lemma stream_inv_init: "stream_inv dev (streams_init dev bounce)"
  by (rule stream_invI) (simp_all add: streams_init_def play_def)

text \<open>Copies into other slots leave a slot alone.\<close>

lemma play_other_slot:
  "(\<forall>t \<in> set ts. \<not> copies_to s t) \<Longrightarrow> play ts dev (s, b) = dev (s, b)"
proof (induction ts arbitrary: dev)
  case (Cons t ts)
  then have "play_op dev t (s, b) = dev (s, b)" by (cases t) auto
  with Cons show ?case by (simp add: play_def)
qed (simp add: play_def)

lemma play_append: "play (ts @ us) dev = play us (play ts dev)"
  by (simp add: play_def)

lemma play_op_pinned: "\<not> from_bounce t \<Longrightarrow> do_transfer cs t = play_op (cs_device cs) t"
  by (cases t) auto

text \<open>A guarded kernel that is next on the compute stream reads its weights.\<close>

lemma guarded_kernel_reads:
  assumes inv: "stream_inv dev0 cs" and p: "cs_compute_done cs < length (cs_compute cs)"
    and k: "cs_compute cs ! cs_compute_done cs = Kernel rs w"
  shows "map (read_region (cs_device cs)) rs = w"
proof -
  let ?t = "cs_transfer cs" and ?d = "cs_transfer_done cs" and ?p = "cs_compute_done cs"
  obtain s q n where s: "\<forall>r \<in> set rs. fst r = s" and q: "q < ?p" "cs_compute cs ! q = WaitTransfer n"
    and w: "map (read_region (play (take n ?t) dev0)) rs = w"
    and later: "\<And>i. n \<le> i \<Longrightarrow> i < length ?t \<Longrightarrow> copies_to s (?t ! i)
      \<Longrightarrow> \<exists>j < i. \<exists>c. ?t ! j = WaitCompute c \<and> ?p < c"
    using stream_invD(8) [OF inv p] k unfolding guarded_def guard_data_def by blast
  have n: "n \<le> ?d" using stream_invD(6) [OF inv q] .
  have d: "?d \<le> length ?t" by (rule stream_invD(2) [OF inv])
  have none: "\<not> copies_to s t" if t: "t \<in> set (drop n (take ?d ?t))" for t
  proof
    assume c: "copies_to s t"
    obtain i where i: "i < ?d - n" "t = ?t ! (n + i)"
      using t d by (auto simp: in_set_conv_nth)
    then have ni: "n + i < ?d" by linarith
    then obtain j c where "j < n + i" "?t ! j = WaitCompute c" "?p < c"
      using later [of "n + i"] c d i(2) by auto
    with stream_invD(5) [OF inv, of j c] ni show False by linarith
  qed
  have "play (take ?d ?t) dev0 = play (drop n (take ?d ?t)) (play (take n ?t) dev0)"
    using n by (metis append_take_drop_id min.absorb1 play_append take_take)
  then have "cs_device cs (s, b) = play (take n ?t) dev0 (s, b)" for b
    using play_other_slot [of "drop n (take ?d ?t)" s] none stream_invD(4) [OF inv] by simp
  then have "read_region (cs_device cs) r = read_region (play (take n ?t) dev0) r" if "r \<in> set rs" for r
    using s that by (cases r) (auto simp: read_region_def)
  then have "map (read_region (cs_device cs)) rs = map (read_region (play (take n ?t) dev0)) rs" by simp
  then show ?thesis using w by simp
qed

lemma guarded_device [simp]:
  "guarded dev0 (cs\<lparr>cs_transfer_done := a, cs_device := d\<rparr>) p = guarded dev0 cs p"
  "guarded dev0 (cs\<lparr>cs_compute_done := a, cs_log := l\<rparr>) p = guarded dev0 cs p"
  by (simp_all add: guarded_def)

lemma stream_inv_device:
  assumes "device_step cs cs'" and inv: "stream_inv dev0 cs"
  shows "stream_inv dev0 cs'"
  using assms(1)
proof cases
  case (transfer t)
  have "\<not> from_bounce t" using transfer stream_invD(1) [OF inv] by simp
  then have "do_transfer cs t = play_op (play (take (cs_transfer_done cs) (cs_transfer cs)) dev0) t"
    by (simp add: play_op_pinned stream_invD(4) [OF inv])
  also have "\<dots> = play (take (Suc (cs_transfer_done cs)) (cs_transfer cs)) dev0"
    using transfer by (simp add: take_Suc_conv_app_nth play_def)
  finally have dev: "do_transfer cs t = play (take (Suc (cs_transfer_done cs)) (cs_transfer cs)) dev0" .
  show ?thesis unfolding transfer(1)
  proof (rule stream_invI, goal_cases)
    case (5 i c)
    show ?case
    proof (cases "i = cs_transfer_done cs")
      case True
      with 5 transfer show ?thesis by simp
    next
      case False
      with 5 stream_invD(5) [OF inv, of i c] show ?thesis by simp
    qed
  next
    case (6 q n)
    with stream_invD(6) [OF inv, of q n] show ?case by simp
  qed (use stream_invD [OF inv] transfer dev in auto)
next
  case (compute c)
  have log: "do_compute cs c = map (\<lambda>w. (w, w))
      (concat (map kernel_weights (take (Suc (cs_compute_done cs)) (cs_compute cs))))"
    using compute(2) compute(3) [symmetric] guarded_kernel_reads [OF inv compute(2)] stream_invD(7) [OF inv]
    by (cases c) (simp_all add: take_Suc_conv_app_nth)
  show ?thesis unfolding compute(1)
  proof (rule stream_invI, goal_cases)
    case (5 i c)
    with stream_invD(5) [OF inv, of i c] show ?case by simp
  next
    case (6 q n)
    show ?case
    proof (cases "q = cs_compute_done cs")
      case True
      with 6 compute show ?thesis by simp
    next
      case False
      with 6 stream_invD(6) [OF inv, of q n] show ?thesis by simp
    qed
  qed (use stream_invD [OF inv] compute log in auto)
qed

section \<open>Issuing keeps the invariant\<close>

text \<open>Every kernel on the slot is behind a wait already issued to the transfer stream.\<close>

definition fenced :: "nat \<Rightarrow> 'b cuda_streams \<Rightarrow> bool" where
  "fenced s cs \<longleftrightarrow> (\<forall>p < length (cs_compute cs). kernel_on s (cs_compute cs ! p) \<longrightarrow>
     (\<exists>j < length (cs_transfer cs). \<exists>c. cs_transfer cs ! j = WaitCompute c \<and> p < c))"

lemma issue_simps [simp]:
  "cs_transfer (issue_transfer t cs) = cs_transfer cs @ [t]"
  "cs_compute (issue_transfer t cs) = cs_compute cs"
  "cs_compute (issue_compute c cs) = cs_compute cs @ [c]"
  "cs_transfer (issue_compute c cs) = cs_transfer cs"
  "cs_transfer_done (issue_transfer t cs) = cs_transfer_done cs"
  "cs_compute_done (issue_transfer t cs) = cs_compute_done cs"
  "cs_transfer_done (issue_compute c cs) = cs_transfer_done cs"
  "cs_compute_done (issue_compute c cs) = cs_compute_done cs"
  "cs_device (issue_transfer t cs) = cs_device cs" "cs_device (issue_compute c cs) = cs_device cs"
  "cs_log (issue_transfer t cs) = cs_log cs" "cs_log (issue_compute c cs) = cs_log cs"
  "cs_bounce (issue_transfer t cs) = cs_bounce cs"
  by (simp_all add: issue_transfer_def issue_compute_def)

lemma fenced_issue_transfer: "fenced s cs \<Longrightarrow> fenced s (issue_transfer t cs)"
  by (auto simp: fenced_def nth_append) (metis less_SucI)

lemma fenced_wait:
  assumes "\<And>p. p < length (cs_compute cs) \<Longrightarrow> kernel_on s (cs_compute cs ! p) \<Longrightarrow> p < c"
  shows "fenced s (issue_transfer (WaitCompute c) cs)"
  unfolding fenced_def
proof (intro allI impI)
  fix p assume "p < length (cs_compute (issue_transfer (WaitCompute c) cs))"
    "kernel_on s (cs_compute (issue_transfer (WaitCompute c) cs) ! p)"
  then have "p < c" using assms by simp
  then show "\<exists>j < length (cs_transfer (issue_transfer (WaitCompute c) cs)).
      \<exists>c'. cs_transfer (issue_transfer (WaitCompute c) cs) ! j = WaitCompute c' \<and> p < c'"
    by (intro exI [of _ "length (cs_transfer cs)"]) simp
qed

text \<open>A guarded kernel stays guarded by an operation that does not copy, or copies into a fenced slot.\<close>

lemma guarded_issue_transfer:
  assumes g: "guarded dev0 cs p" and p: "p < length (cs_compute cs)"
    and f: "\<And>s. copies_to s t \<Longrightarrow> fenced s cs"
  shows "guarded dev0 (issue_transfer t cs) p"
  unfolding guarded_def
proof (intro allI impI)
  fix rs w assume k: "cs_compute (issue_transfer t cs) ! p = Kernel rs w"
  then have k: "cs_compute cs ! p = Kernel rs w" by simp
  let ?t = "cs_transfer cs"
  obtain s q n where q: "q < p" "cs_compute cs ! q = WaitTransfer n"
    and d: "guard_data dev0 ?t p s rs w n"
    using g k unfolding guarded_def by blast
  have on: "kernel_on s (cs_compute cs ! p)" using d k by (simp add: guard_data_def)
  have "\<exists>j < i. \<exists>c. (?t @ [t]) ! j = WaitCompute c \<and> p < c"
    if i: "n \<le> i" "i < length (?t @ [t])" "copies_to s ((?t @ [t]) ! i)" for i
  proof (cases "i < length ?t")
    case True
    with d i have "\<exists>j < i. \<exists>c. ?t ! j = WaitCompute c \<and> p < c"
      unfolding guard_data_def by (simp add: nth_append)
    then obtain j c where "j < i" "?t ! j = WaitCompute c" "p < c" by blast
    with True show ?thesis by (intro exI [of _ j]) (simp add: nth_append)
  next
    case False
    with i have i: "i = length ?t" "copies_to s t" by (simp_all add: nth_append less_Suc_eq)
    then obtain j c where "j < length ?t" "?t ! j = WaitCompute c" "p < c"
      using f on p unfolding fenced_def by blast
    then show ?thesis using i(1) by (intro exI [of _ j]) (simp add: nth_append)
  qed
  then have "guard_data dev0 (?t @ [t]) p s rs w n"
    using d by (simp add: guard_data_def)
  then show "\<exists>s q n. q < p \<and> cs_compute (issue_transfer t cs) ! q = WaitTransfer n
      \<and> guard_data dev0 (cs_transfer (issue_transfer t cs)) p s rs w n"
    using q by auto
qed

lemma stream_inv_issue_transfer:
  assumes inv: "stream_inv dev0 cs" and "\<not> from_bounce t"
    and "\<And>s. copies_to s t \<Longrightarrow> fenced s cs" and "\<And>c. t = WaitCompute c \<Longrightarrow> c \<le> length (cs_compute cs)"
  shows "stream_inv dev0 (issue_transfer t cs)"
proof (rule stream_invI, goal_cases)
  case (5 i c)
  then have "i < length (cs_transfer cs)" using stream_invD(2) [OF inv] by simp
  with 5 stream_invD(5) [OF inv, of i c] show ?case by (simp add: nth_append)
next
  case (6 q n)
  with stream_invD(6) [OF inv, of q n] show ?case by simp
next
  case (8 p)
  with stream_invD(8) [OF inv] assms(3) show ?case by (simp add: guarded_issue_transfer)
next
  case (9 i c)
  with stream_invD(9) [OF inv, of i c] assms(4) show ?case by (auto simp: nth_append less_Suc_eq split: if_splits)
next
  case (10 q n)
  with stream_invD(10) [OF inv, of q n] show ?case by simp
next
  case (11 i c q n)
  then have n: "n \<le> length (cs_transfer cs)" using stream_invD(10) [OF inv, of q n] by simp
  show ?case
  proof (cases "i < length (cs_transfer cs)")
    case True
    with 11 stream_invD(11) [OF inv, of i c q n] show ?thesis by (simp add: nth_append)
  next
    case False
    with n show ?thesis by simp
  qed
qed (use stream_invD [OF inv] assms(2) in auto)

lemma guarded_issue_compute:
  assumes "guarded dev0 cs p" and "p < length (cs_compute cs)"
  shows "guarded dev0 (issue_compute c cs) p"
  using assms unfolding guarded_def by (auto simp: nth_append) (metis less_trans)

lemma stream_inv_issue_compute:
  assumes inv: "stream_inv dev0 cs"
    and "\<And>n. c = WaitTransfer n \<Longrightarrow> n = length (cs_transfer cs)"
    and "guarded dev0 (issue_compute c cs) (length (cs_compute cs))"
  shows "stream_inv dev0 (issue_compute c cs)"
proof (rule stream_invI, goal_cases)
  case (5 i c)
  with stream_invD(5) [OF inv, of i c] show ?case by simp
next
  case (6 q n)
  then have "q < length (cs_compute cs)" using stream_invD(3) [OF inv] by simp
  with 6 stream_invD(6) [OF inv, of q n] show ?case by (simp add: nth_append)
next
  case (8 p)
  with stream_invD(8) [OF inv, of p] assms(3) show ?case
    by (cases "p = length (cs_compute cs)") (auto simp: guarded_issue_compute)
next
  case (9 i c)
  with stream_invD(9) [OF inv, of i c] show ?case by simp
next
  case (10 q n)
  with stream_invD(10) [OF inv, of q n] assms(2) show ?case by (auto simp: nth_append less_Suc_eq split: if_splits)
next
  case (11 i c' q n)
  then have c: "c' \<le> length (cs_compute cs)" using stream_invD(9) [OF inv, of i c'] by simp
  show ?case
  proof (cases "q < length (cs_compute cs)")
    case True
    with 11 stream_invD(11) [OF inv, of i c' q n] show ?thesis by (simp add: nth_append)
  next
    case False
    with c show ?thesis by simp
  qed
qed (use stream_invD [OF inv] in auto)

text \<open>A wait for everything issued so far, and a kernel behind such a wait.\<close>

lemma stream_inv_wait_transfer:
  "stream_inv dev0 cs \<Longrightarrow> stream_inv dev0 (issue_compute (WaitTransfer (length (cs_transfer cs))) cs)"
  by (rule stream_inv_issue_compute) (simp_all add: guarded_def)

lemma stream_inv_kernel:
  assumes inv: "stream_inv dev0 cs" and "cs_compute cs = ops @ [WaitTransfer (length (cs_transfer cs))]"
    and "\<forall>r \<in> set rs. fst r = s" and "map (read_region (play (cs_transfer cs) dev0)) rs = w"
  shows "stream_inv dev0 (issue_compute (Kernel rs w) cs)"
proof (rule stream_inv_issue_compute [OF inv])
  show "guarded dev0 (issue_compute (Kernel rs w) cs) (length (cs_compute cs))"
    unfolding guarded_def
  proof (intro allI impI exI conjI)
    fix rs' w' assume "cs_compute (issue_compute (Kernel rs w) cs) ! length (cs_compute cs) = Kernel rs' w'"
    then have eq: "rs' = rs" "w' = w" by simp_all
    show "length ops < length (cs_compute cs)" using assms(2) by simp
    show "cs_compute (issue_compute (Kernel rs w) cs) ! length ops = WaitTransfer (length (cs_transfer cs))"
      using assms(2) by (simp add: nth_append)
    show "guard_data dev0 (cs_transfer (issue_compute (Kernel rs w) cs)) (length (cs_compute cs)) s rs' w'
        (length (cs_transfer cs))"
      using assms(3,4) by (simp add: guard_data_def eq)
  qed
qed simp

section \<open>The pool invariant\<close>

definition slot_inv :: "staging_slot \<Rightarrow> nat \<Rightarrow> 'b compute_op list \<Rightarrow> bool" where
  "slot_inv slot s ops \<longleftrightarrow> sl_compute_event slot \<le> length ops
     \<and> (\<forall>p < length ops. kernel_on s (ops ! p) \<longrightarrow> sl_primed slot \<and> p < sl_compute_event slot)"

definition pool_inv :: "staging_pool \<times> 'b cuda_streams \<Rightarrow> bool" where
  "pool_inv = (\<lambda>(pool, cs).
     sp_next_slot pool < length (sp_slots pool)
     \<and> (\<forall>s. sp_last_prepared_slot pool = Some s \<longrightarrow> s < length (sp_slots pool))
     \<and> (\<forall>s < length (sp_slots pool). slot_inv (sp_slots pool ! s) s (cs_compute cs)))"

lemma slot_inv_other:
  assumes "slot_inv slot s ops" and "\<not> kernel_on s c"
  shows "slot_inv slot s (ops @ [c])"
  unfolding slot_inv_def
proof (intro conjI allI impI)
  show "sl_compute_event slot \<le> length (ops @ [c])" using assms(1) by (simp add: slot_inv_def)
  fix p assume "p < length (ops @ [c])" "kernel_on s ((ops @ [c]) ! p)"
  then have "p < length ops" "kernel_on s (ops ! p)"
    using assms(2) by (auto simp: nth_append less_Suc_eq split: if_splits)
  with assms(1) show "sl_primed slot" "p < sl_compute_event slot" by (auto simp: slot_inv_def)
qed

lemma slot_inv_mark:
  "slot_inv (slot\<lparr>sl_compute_event := length ops, sl_primed := True\<rparr>) s ops"
  by (simp add: slot_inv_def)

lemma slot_inv_fields:
  "slot_inv slot s ops \<Longrightarrow> sl_compute_event slot' = sl_compute_event slot \<Longrightarrow> sl_primed slot' = sl_primed slot
    \<Longrightarrow> slot_inv slot' s ops"
  by (simp add: slot_inv_def)

text \<open>A source that is pinned and lies inside its arena.\<close>

definition hw_ok :: "(nat \<Rightarrow> 'b list) \<Rightarrow> 'b host_weight_bytes \<Rightarrow> bool" where
  "hw_ok A hw \<longleftrightarrow> hw_is_pinned hw \<and> length (hw_as_bytes A hw) = hw_len hw"

fun call_linear :: "'b host_call \<Rightarrow> 'b staged_linear" where
  "call_linear (Nvfp4Call linear) = linear"
| "call_linear (Mxfp4Call linear) = linear"

definition call_pinned :: "(nat \<Rightarrow> 'b list) \<Rightarrow> 'b host_call \<Rightarrow> bool" where
  "call_pinned A c \<longleftrightarrow> (let hw = ln_weights (call_linear c)
     in hw_ok A (hr_packed hw) \<and> hw_ok A (hr_scales hw)
        \<and> (\<forall>m. hr_native_mxfp4 hw = Some m \<longrightarrow> hw_ok A m))"

lemma stage_buffer_pinned:
  "hw_is_pinned src \<Longrightarrow> stage_buffer A slot b src n cs = issue_transfer (CopyHost slot b (take n (hw_as_bytes A src))) cs"
  by (simp add: stage_buffer_def)

lemma configured_slots: "2 \<le> configured_slot_count e" "configured_slot_count e \<le> 64"
  by (auto simp: configured_slot_count_def default_staging_slot_count_def split: option.split)

lemma pool_inv_init: "pool_inv (pool_new mp ms mn e, streams_init dev bounce)"
  using configured_slots(1) [of e]
  by (simp add: pool_inv_def slot_inv_def pool_new_def Let_def streams_init_def)

lemma pool_inv_same_compute:
  "pool_inv (pool, cs) \<Longrightarrow> cs_compute cs' = cs_compute cs \<Longrightarrow> pool_inv (pool, cs')"
  by (simp add: pool_inv_def)

lemma pool_inv_wait:
  "pool_inv (pool, cs) \<Longrightarrow> pool_inv (pool, issue_compute (WaitTransfer n) cs)"
  by (simp add: pool_inv_def slot_inv_other)

text \<open>Changing fields of a slot other than its compute event and its flag.\<close>

lemma pool_inv_slot_update:
  assumes "pool_inv (pool, cs)" and "sl_compute_event slot' = sl_compute_event (sp_slots pool ! k)"
    and "sl_primed slot' = sl_primed (sp_slots pool ! k)"
  shows "pool_inv (pool\<lparr>sp_slots := (sp_slots pool)[k := slot']\<rparr>, cs)"
proof -
  have "slot_inv ((sp_slots pool)[k := slot'] ! s) s (cs_compute cs)" if "s < length (sp_slots pool)" for s
    using assms that slot_inv_fields [of "sp_slots pool ! k" k "cs_compute cs" slot']
    by (cases "s = k") (auto simp: pool_inv_def)
  with assms(1) show ?thesis by (simp add: pool_inv_def)
qed

lemma pool_inv_next:
  assumes "pool_inv (pool, cs)"
  shows "pool_inv (pool\<lparr>sp_next_slot := (sp_next_slot pool + 1) mod length (sp_slots pool)\<rparr>, cs)"
proof -
  have "0 < length (sp_slots pool)" using assms by (auto simp: pool_inv_def)
  then have "(sp_next_slot pool + 1) mod length (sp_slots pool) < length (sp_slots pool)"
    by (rule mod_less_divisor)
  with assms show ?thesis by (simp add: pool_inv_def)
qed

lemma pool_inv_last:
  "pool_inv (pool, cs) \<Longrightarrow> k < length (sp_slots pool) \<Longrightarrow> pool_inv (pool\<lparr>sp_last_prepared_slot := Some k\<rparr>, cs)"
  by (auto simp: pool_inv_def)

text \<open>Launching on a slot and marking it.\<close>

lemma pool_inv_launch:
  assumes "pool_inv (pool, cs)" and "k < length (sp_slots pool)" and "rs \<noteq> []" and "\<forall>r \<in> set rs. fst r = k"
  shows "pool_inv (mark_kernel_launched k (pool, issue_compute (Kernel rs w) cs))"
proof -
  let ?ops = "cs_compute cs @ [Kernel rs w]"
  let ?slot = "(sp_slots pool ! k)\<lparr>sl_compute_event := length ?ops, sl_primed := True\<rparr>"
  have "slot_inv ((sp_slots pool)[k := ?slot] ! s) s ?ops" if s: "s < length (sp_slots pool)" for s
  proof (cases "s = k")
    case True
    with s slot_inv_mark [where slot = "sp_slots pool ! k" and ops = ?ops and s = k] show ?thesis by simp
  next
    case False
    then have "\<not> kernel_on s (Kernel rs w)" using assms(3,4) by (cases rs) auto
    with False s assms(1) show ?thesis by (simp add: pool_inv_def slot_inv_other)
  qed
  with assms(1) show ?thesis by (simp add: pool_inv_def mark_kernel_launched_def)
qed

text \<open>The wait of \<^verbatim>\<open>prepare_async\<close> fences its slot.\<close>

lemma fence_transfer:
  assumes inv: "stream_inv dev0 cs" and pool: "pool_inv (pool, cs)" and k: "k < length (sp_slots pool)"
    and cs': "cs' = (if sl_primed (sp_slots pool ! k)
      then issue_transfer (WaitCompute (sl_compute_event (sp_slots pool ! k))) cs else cs)"
  shows "stream_inv dev0 cs'" and "fenced k cs'" and "cs_compute cs' = cs_compute cs"
proof -
  have ev: "sl_compute_event (sp_slots pool ! k) \<le> length (cs_compute cs)"
    and on: "p < length (cs_compute cs) \<Longrightarrow> kernel_on k (cs_compute cs ! p)
      \<Longrightarrow> sl_primed (sp_slots pool ! k) \<and> p < sl_compute_event (sp_slots pool ! k)" for p
    using pool k by (auto simp: pool_inv_def slot_inv_def)
  show "stream_inv dev0 cs'"
    unfolding cs' using inv ev by (auto intro!: stream_inv_issue_transfer)
  show "fenced k cs'"
  proof (cases "sl_primed (sp_slots pool ! k)")
    case True
    have "fenced k (issue_transfer (WaitCompute (sl_compute_event (sp_slots pool ! k))) cs)"
      by (rule fenced_wait) (use on in blast)
    with True show ?thesis by (simp add: cs')
  next
    case False
    with on show ?thesis by (auto simp: cs' fenced_def)
  qed
  show "cs_compute cs' = cs_compute cs" by (simp add: cs')
qed

lemma stream_inv_copy:
  "stream_inv dev0 cs \<Longrightarrow> fenced k cs \<Longrightarrow> stream_inv dev0 (issue_transfer (CopyHost k b src) cs)"
  by (rule stream_inv_issue_transfer) auto

lemma overwrite_front: "take (length src) (overwrite src old) = src"
  by (simp add: overwrite_def)

lemma contiguous_bytes:
  assumes "contiguous_packed_scales A hw = Some combined"
  shows "combined = hw_as_bytes A (hr_packed hw) @ hw_as_bytes A (hr_scales hw)"
  using assms
  by (cases "hr_packed hw"; cases "hr_scales hw")
    (auto simp: contiguous_packed_scales_def take_add add.commute split: if_splits)

definition prepared ::
  "(nat \<times> staging_buffer \<Rightarrow> 'b list) \<Rightarrow> nat \<Rightarrow> staging_pool \<times> 'b cuda_streams \<Rightarrow> bool" where
  "prepared dev0 slot = (\<lambda>(pool, cs). slot < length (sp_slots pool) \<and> fenced slot cs
     \<and> sp_last_prepared_slot pool = Some slot
     \<and> (\<exists>ops. cs_compute cs = ops @ [WaitTransfer (length (cs_transfer cs))]))"

lemma prepared_fence:
  assumes "stream_inv dev0 cs" and "pool_inv (pool, cs)" and "fenced slot cs" and "slot < length (sp_slots pool)"
    and "fence_compute slot (pool, cs) = (pool', cs')"
  shows "stream_inv dev0 cs'" and "pool_inv (pool'\<lparr>sp_last_prepared_slot := Some slot\<rparr>, cs')"
    and "prepared dev0 slot (pool'\<lparr>sp_last_prepared_slot := Some slot\<rparr>, cs')"
    and "cs_transfer cs' = cs_transfer cs"
    and "sl_combined_packed_bytes (sp_slots pool' ! slot) = sl_combined_packed_bytes (sp_slots pool ! slot)"
    and "sl_native_cap (sp_slots pool' ! slot) = sl_native_cap (sp_slots pool ! slot)"
proof -
  have cs': "cs' = issue_compute (WaitTransfer (length (cs_transfer cs))) cs"
    and pool': "pool' = pool\<lparr>sp_slots := (sp_slots pool)[slot := (sp_slots pool ! slot)
      \<lparr>sl_transfer_event := length (cs_transfer cs)\<rparr>]\<rparr>"
    using assms(5) by (simp_all add: fence_compute_def)
  show "stream_inv dev0 cs'" unfolding cs' by (rule stream_inv_wait_transfer [OF assms(1)])
  have p: "pool_inv (pool', cs')"
    unfolding cs' pool' by (intro pool_inv_wait pool_inv_slot_update [OF assms(2)]) simp_all
  then show "pool_inv (pool'\<lparr>sp_last_prepared_slot := Some slot\<rparr>, cs')"
    by (rule pool_inv_last) (simp add: pool' assms(4))
  have "fenced slot cs'" using assms(3) by (auto simp: fenced_def cs' nth_append less_Suc_eq)
  then show "prepared dev0 slot (pool'\<lparr>sp_last_prepared_slot := Some slot\<rparr>, cs')"
    using assms(4) by (auto simp: prepared_def pool' cs')
qed (use assms(4,5) in \<open>auto simp: fence_compute_def\<close>)

section \<open>Calls keep the invariant\<close>

definition staging_inv :: "(nat \<times> staging_buffer \<Rightarrow> 'b list) \<Rightarrow> staging_pool \<times> 'b cuda_streams \<Rightarrow> bool" where
  "staging_inv dev0 st \<longleftrightarrow> stream_inv dev0 (snd st) \<and> pool_inv st"

text \<open>The regions the two views name hold the weights once all copies issued so far are done.\<close>

lemma prepare_async_inv:
  assumes st: "staging_inv dev0 (pool, cs)" and ok: "hw_ok A (hr_packed hw)" "hw_ok A (hr_scales hw)"
    and r: "prepare_async A hw pb sb (pool, cs) = ((pool', cs'), res)"
  shows "staging_inv dev0 (pool', cs')
    \<and> (\<forall>slot. res = Inr slot \<longrightarrow> prepared dev0 slot (pool', cs')
         \<and> fst (packed_view pool' slot pb) = slot \<and> fst (scales_view pool' slot sb) = slot
         \<and> map (read_region (play (cs_transfer cs') dev0)) [packed_view pool' slot pb, scales_view pool' slot sb]
             = [hw_as_bytes A (hr_packed hw), hw_as_bytes A (hr_scales hw)])"
proof -
  let ?k = "sp_next_slot pool"
  let ?pool1 = "pool\<lparr>sp_next_slot := (sp_next_slot pool + 1) mod length (sp_slots pool)\<rparr>"
  let ?slot = "sp_slots pool ! ?k"
  define cs1 where "cs1 = (if sl_primed ?slot then issue_transfer (WaitCompute (sl_compute_event ?slot)) cs else cs)"
  have inv: "stream_inv dev0 cs" and pinv: "pool_inv (pool, cs)" using st by (simp_all add: staging_inv_def)
  have pinv1: "pool_inv (?pool1, cs)" by (rule pool_inv_next [OF pinv])
  have k: "?k < length (sp_slots pool)" using pinv by (simp add: pool_inv_def)
  then have k1: "?k < length (sp_slots ?pool1)" by simp
  note fence = fence_transfer [OF inv pinv1 k1, of cs1]
  have cs1: "stream_inv dev0 cs1" "fenced ?k cs1" "cs_compute cs1 = cs_compute cs"
    using fence by (simp_all add: cs1_def)
  have pinv1': "pool_inv (?pool1, cs1)" by (rule pool_inv_same_compute [OF pinv1 cs1(3)])
  consider (bad) e where "res = Inl e" "pool' = ?pool1" "cs' = cs \<or> cs' = cs1"
    | (one) combined pool2 where "hw_len (hr_packed hw) = pb" "hw_len (hr_scales hw) = sb"
        "contiguous_packed_scales A hw = Some combined" "res = Inr ?k"
        "fence_compute ?k (?pool1\<lparr>sp_slots := (sp_slots pool)[?k := ?slot\<lparr>sl_combined_packed_bytes := Some pb\<rparr>]\<rparr>,
           issue_transfer (CopyHost ?k CombinedBuf (take (pb + sb) combined)) cs1) = (pool2, cs')"
        "pool' = pool2\<lparr>sp_last_prepared_slot := Some ?k\<rparr>"
    | (two) pool2 where "hw_len (hr_packed hw) = pb" "hw_len (hr_scales hw) = sb" "res = Inr ?k"
        "fence_compute ?k (?pool1\<lparr>sp_slots := (sp_slots pool)[?k := ?slot\<lparr>sl_combined_packed_bytes := None\<rparr>]\<rparr>,
           stage_buffer A ?k ScalesBuf (hr_scales hw) sb (stage_buffer A ?k PackedBuf (hr_packed hw) pb cs1))
           = (pool2, cs')"
        "pool' = pool2\<lparr>sp_last_prepared_slot := Some ?k\<rparr>"
    using r by (auto simp: prepare_async_def Let_def cs1_def split: if_splits option.splits prod.splits)
  then show ?thesis
  proof cases
    case bad
    with inv cs1(1) pinv1 pinv1' show ?thesis by (auto simp: staging_inv_def)
  next
    case one
    let ?cs2 = "issue_transfer (CopyHost ?k CombinedBuf (take (pb + sb) combined)) cs1"
    let ?pool = "?pool1\<lparr>sp_slots := (sp_slots pool)[?k := ?slot\<lparr>sl_combined_packed_bytes := Some pb\<rparr>]\<rparr>"
    have "pool_inv (?pool, cs1)" using pool_inv_slot_update [OF pinv1', of "?slot\<lparr>sl_combined_packed_bytes := Some pb\<rparr>" ?k] by simp
    then have p2: "pool_inv (?pool, ?cs2)" by (rule pool_inv_same_compute) simp
    have kp: "?k < length (sp_slots ?pool)" using k by simp
    note fin = prepared_fence [OF stream_inv_copy [OF cs1(1,2)] p2 fenced_issue_transfer [OF cs1(2)] kp one(5)]
    have marker: "sl_combined_packed_bytes (sp_slots pool' ! ?k) = Some pb" using fin(5) one(6) k by simp
    have lens: "length (hw_as_bytes A (hr_packed hw)) = pb" "length (hw_as_bytes A (hr_scales hw)) = sb"
      using ok one(1,2) by (simp_all add: hw_ok_def)
    have "play (cs_transfer cs') dev0 (?k, CombinedBuf)
        = overwrite (hw_as_bytes A (hr_packed hw) @ hw_as_bytes A (hr_scales hw))
            (play (cs_transfer cs1) dev0 (?k, CombinedBuf))"
      using contiguous_bytes [OF one(3)] lens by (simp add: fin(4) play_def)
    then show ?thesis
      using fin(1-3) marker lens one(4,6)
      by (simp add: staging_inv_def packed_view_def scales_view_def read_region_def overwrite_def)
  next
    case two
    let ?P = "CopyHost ?k PackedBuf (take pb (hw_as_bytes A (hr_packed hw)))"
    let ?S = "CopyHost ?k ScalesBuf (take sb (hw_as_bytes A (hr_scales hw)))"
    let ?cs2 = "issue_transfer ?S (issue_transfer ?P cs1)"
    let ?pool = "?pool1\<lparr>sp_slots := (sp_slots pool)[?k := ?slot\<lparr>sl_combined_packed_bytes := None\<rparr>]\<rparr>"
    have staged: "stage_buffer A ?k ScalesBuf (hr_scales hw) sb (stage_buffer A ?k PackedBuf (hr_packed hw) pb cs1) = ?cs2"
      using ok by (simp add: stage_buffer_pinned hw_ok_def)
    have "pool_inv (?pool, cs1)" using pool_inv_slot_update [OF pinv1', of "?slot\<lparr>sl_combined_packed_bytes := None\<rparr>" ?k] by simp
    then have p2: "pool_inv (?pool, ?cs2)" by (rule pool_inv_same_compute) simp
    have kp: "?k < length (sp_slots ?pool)" using k by simp
    have f2: "fenced ?k ?cs2" by (intro fenced_issue_transfer cs1(2))
    have i2: "stream_inv dev0 ?cs2" by (intro stream_inv_copy fenced_issue_transfer cs1(1,2))
    note fin = prepared_fence [OF i2 p2 f2 kp two(4) [unfolded staged]]
    have marker: "sl_combined_packed_bytes (sp_slots pool' ! ?k) = None" using fin(5) two(5) k by simp
    have lens: "length (hw_as_bytes A (hr_packed hw)) = pb" "length (hw_as_bytes A (hr_scales hw)) = sb"
      using ok two(1,2) by (simp_all add: hw_ok_def)
    have "play (cs_transfer cs') dev0 (?k, PackedBuf)
        = overwrite (hw_as_bytes A (hr_packed hw)) (play (cs_transfer cs1) dev0 (?k, PackedBuf))"
      "play (cs_transfer cs') dev0 (?k, ScalesBuf)
        = overwrite (hw_as_bytes A (hr_scales hw)) (play (cs_transfer cs1) dev0 (?k, ScalesBuf))"
      using lens by (simp_all add: fin(4) play_def)
    then show ?thesis
      using fin(1-3) marker lens two(3,5)
      by (simp add: staging_inv_def packed_view_def scales_view_def read_region_def overwrite_def)
  qed
qed

text \<open>Launching a kernel on the prepared slot.\<close>

lemma launch_inv:
  assumes "staging_inv dev0 (pool, cs)" and "prepared dev0 slot (pool, cs)"
    and "rs \<noteq> []" and "\<forall>r \<in> set rs. fst r = slot"
    and "map (read_region (play (cs_transfer cs) dev0)) rs = w"
  shows "staging_inv dev0 (mark_kernel_launched slot (pool, issue_compute (Kernel rs w) cs))"
proof -
  obtain ops where "cs_compute cs = ops @ [WaitTransfer (length (cs_transfer cs))]"
    using assms(2) by (auto simp: prepared_def)
  then have "stream_inv dev0 (issue_compute (Kernel rs w) cs)"
    using assms by (intro stream_inv_kernel) (auto simp: staging_inv_def)
  moreover have "pool_inv (mark_kernel_launched slot (pool, issue_compute (Kernel rs w) cs))"
    using assms by (intro pool_inv_launch) (auto simp: staging_inv_def prepared_def)
  ultimately show ?thesis by (simp add: staging_inv_def mark_kernel_launched_def)
qed

lemma matvec_nvfp4_inv:
  assumes "staging_inv dev0 st" and "hw_ok A (hr_packed (ln_weights l))" "hw_ok A (hr_scales (ln_weights l))"
  shows "staging_inv dev0 (fst (matvec_nvfp4_staged A l st))"
proof -
  obtain pool cs where st: "st = (pool, cs)" by (cases st)
  obtain pool' cs' res where r: "prepare_async A (ln_weights l) (ln_packed_bytes l) (ln_scale_bytes l) st
      = ((pool', cs'), res)" by (metis surj_pair)
  note p = prepare_async_inv [OF assms(1) [unfolded st] assms(2,3) r [unfolded st]]
  show ?thesis
  proof (cases res)
    case (Inl e)
    with p r show ?thesis by (simp add: matvec_nvfp4_staged_def Let_def)
  next
    case (Inr slot)
    let ?rs = "[packed_view pool' slot (ln_packed_bytes l), scales_view pool' slot (ln_scale_bytes l)]"
    have "staging_inv dev0 (mark_kernel_launched slot (pool', issue_compute (Kernel ?rs
        [hw_as_bytes A (hr_packed (ln_weights l)), hw_as_bytes A (hr_scales (ln_weights l))]) cs'))"
      by (rule launch_inv) (use p Inr in simp_all)
    with r Inr show ?thesis by (simp add: matvec_nvfp4_staged_def Let_def)
  qed
qed

lemma prepare_native_inv:
  assumes st: "staging_inv dev0 (pool, cs)" and pr: "prepared dev0 slot (pool, cs)" and ok: "hw_ok A m"
    and r: "prepare_native_mxfp4_into_last A m (pool, cs) = ((pool', cs'), res)"
  shows "staging_inv dev0 (pool', cs')
    \<and> (res = Inr () \<longrightarrow> prepared dev0 slot (pool', cs') \<and> sl_native_cap (sp_slots pool' ! slot) \<noteq> None
         \<and> read_region (play (cs_transfer cs') dev0) (slot, NativeBuf, 0, hw_len m) = hw_as_bytes A m)"
proof -
  let ?cs2 = "issue_transfer (CopyHost slot NativeBuf (take (hw_len m) (hw_as_bytes A m))) cs"
  have slot: "slot < length (sp_slots pool)" "fenced slot cs" "sp_last_prepared_slot pool = Some slot"
    using pr by (simp_all add: prepared_def)
  have inv: "stream_inv dev0 cs" "pool_inv (pool, cs)" using st by (simp_all add: staging_inv_def)
  consider (bad) e where "res = Inl e" "pool' = pool" "cs' = cs"
    | (good) cap where "res = Inr ()" "sl_native_cap (sp_slots pool ! slot) = Some cap"
        "fence_compute slot (pool, ?cs2) = (pool', cs')"
    using r ok slot(3)
    by (auto simp: prepare_native_mxfp4_into_last_def stage_buffer_pinned hw_ok_def
        split: option.splits if_splits)
  then show ?thesis
  proof cases
    case bad
    with st show ?thesis by simp
  next
    case good
    have p2: "pool_inv (pool, ?cs2)" by (rule pool_inv_same_compute [OF inv(2)]) simp
    note fin = prepared_fence [OF stream_inv_copy [OF inv(1) slot(2)] p2 fenced_issue_transfer [OF slot(2)] slot(1) good(3)]
    have last: "sp_last_prepared_slot pool' = Some slot"
      using good(3) slot(3) by (auto simp: fence_compute_def)
    then have same: "pool'\<lparr>sp_last_prepared_slot := Some slot\<rparr> = pool'" by (cases pool') simp
    have "play (cs_transfer cs') dev0 (slot, NativeBuf)
        = overwrite (hw_as_bytes A m) (play (cs_transfer cs) dev0 (slot, NativeBuf))"
      using ok by (simp add: fin(4) play_def hw_ok_def)
    then show ?thesis
      using fin(1-3,6) good(2) ok
      by (simp add: same staging_inv_def read_region_def overwrite_def hw_ok_def)
  qed
qed

lemma matvec_native_inv:
  assumes inv: "staging_inv dev0 st" and ok: "hw_ok A (hr_packed (ln_weights l))" "hw_ok A (hr_scales (ln_weights l))"
    and native: "\<And>m. hr_native_mxfp4 (ln_weights l) = Some m \<Longrightarrow> hw_ok A m"
  shows "staging_inv dev0 (fst (matvec_native_mxfp4_staged A l st))"
proof (cases "hr_native_mxfp4 (ln_weights l)")
  case None
  with inv show ?thesis by (simp add: matvec_native_mxfp4_staged_def)
next
  case (Some m)
  obtain pool cs where st: "st = (pool, cs)" by (cases st)
  obtain pool1 cs1 res where r: "prepare_async A (ln_weights l) (ln_packed_bytes l) (ln_scale_bytes l) st
      = ((pool1, cs1), res)" by (metis surj_pair)
  note p = prepare_async_inv [OF inv [unfolded st] ok r [unfolded st]]
  show ?thesis
  proof (cases res)
    case (Inl e)
    with p r Some show ?thesis by (simp add: matvec_native_mxfp4_staged_def)
  next
    case (Inr slot)
    obtain pool2 cs2 res2 where r2: "prepare_native_mxfp4_into_last A m (pool1, cs1) = ((pool2, cs2), res2)"
      by (metis surj_pair)
    have p1: "staging_inv dev0 (pool1, cs1)" "prepared dev0 slot (pool1, cs1)" using p Inr by simp_all
    note n = prepare_native_inv [OF p1 native [OF Some] r2]
    show ?thesis
    proof (cases res2)
      case (Inl e)
      with n r r2 Inr Some show ?thesis by (simp add: matvec_native_mxfp4_staged_def)
    next
      case (Inr u)
      then obtain cap where cap: "sl_native_cap (sp_slots pool2 ! slot) = Some cap" using n by auto
      then have view: "native_mxfp4_view pool2 slot (hw_len m) = Some (slot, NativeBuf, 0, hw_len m)"
        by (simp add: native_mxfp4_view_def)
      have "staging_inv dev0 (mark_kernel_launched slot
          (pool2, issue_compute (Kernel [(slot, NativeBuf, 0, hw_len m)] [hw_as_bytes A m]) cs2))"
        using n Inr by (intro launch_inv) auto
      then show ?thesis
        using r r2 Inr Some view \<open>res = Inr slot\<close> by (simp add: matvec_native_mxfp4_staged_def)
    qed
  qed
qed

lemma do_call_inv:
  "staging_inv dev0 st \<Longrightarrow> call_pinned A c \<Longrightarrow> staging_inv dev0 (do_call A c st)"
  by (cases c) (auto simp: call_pinned_def Let_def intro: matvec_nvfp4_inv matvec_native_inv)

lemma reachable_inv:
  "reachable A (call_pinned A) st \<Longrightarrow> \<exists>dev0. staging_inv dev0 st"
proof (induction rule: reachable.induct)
  case (init mp ms mn slots_env dev bounce)
  show ?case
    by (intro exI [of _ dev]) (simp add: staging_inv_def stream_inv_init pool_inv_init)
next
  case (call st c)
  then show ?case using do_call_inv by blast
next
  case (device pool cs cs')
  then obtain dev0 where "staging_inv dev0 (pool, cs)" by blast
  then have "stream_inv dev0 cs'" "pool_inv (pool, cs)"
    using stream_inv_device [OF device.hyps(2)] by (simp_all add: staging_inv_def)
  moreover have "cs_compute cs' = cs_compute cs" using device.hyps(2) by cases simp_all
  ultimately show ?case by (auto simp: staging_inv_def intro: pool_inv_same_compute)
qed

section \<open>Any host calls: the order of the streams\<close>

text \<open>
  A run with memory-mapped weights issues the operations of the run in which the same bytes are
  pinned, in the same order: only the source of a copy differs. What follows from the order alone
  carries over from pinned runs.
\<close>

definition hw_in_range :: "(nat \<Rightarrow> 'b list) \<Rightarrow> 'b host_weight_bytes \<Rightarrow> bool" where
  "hw_in_range A hw \<longleftrightarrow> length (hw_as_bytes A hw) = hw_len hw"

definition call_in_range :: "(nat \<Rightarrow> 'b list) \<Rightarrow> 'b host_call \<Rightarrow> bool" where
  "call_in_range A c \<longleftrightarrow> (let hw = ln_weights (call_linear c)
     in hw_in_range A (hr_packed hw) \<and> hw_in_range A (hr_scales hw)
        \<and> (\<forall>m. hr_native_mxfp4 hw = Some m \<longrightarrow> hw_in_range A m))"

fun pin_bytes :: "'b host_weight_bytes \<Rightarrow> 'b host_weight_bytes" where
  "pin_bytes (HwArena arena offset n) = HwArena arena offset n"
| "pin_bytes (HwPinned p) = HwPinned p"
| "pin_bytes (HwMmap t) = HwPinned t"

definition pin_weights :: "'b host_resident_weights \<Rightarrow> 'b host_resident_weights" where
  "pin_weights hw = \<lparr>hr_packed = pin_bytes (hr_packed hw), hr_scales = pin_bytes (hr_scales hw),
     hr_native_mxfp4 = map_option pin_bytes (hr_native_mxfp4 hw)\<rparr>"

definition pin_linear :: "'b staged_linear \<Rightarrow> 'b staged_linear" where
  "pin_linear l = l\<lparr>ln_weights := pin_weights (ln_weights l)\<rparr>"

fun pin_call :: "'b host_call \<Rightarrow> 'b host_call" where
  "pin_call (Nvfp4Call l) = Nvfp4Call (pin_linear l)"
| "pin_call (Mxfp4Call l) = Mxfp4Call (pin_linear l)"

lemma pin_bytes_simps [simp]:
  "hw_len (pin_bytes x) = hw_len x" "hw_as_bytes A (pin_bytes x) = hw_as_bytes A x"
  "hw_arena_span (pin_bytes x) = hw_arena_span x" "hw_is_pinned (pin_bytes x)"
  by (cases x; simp)+

lemma pin_weights_simps [simp]:
  "hr_packed (pin_weights hw) = pin_bytes (hr_packed hw)"
  "hr_scales (pin_weights hw) = pin_bytes (hr_scales hw)"
  "hr_native_mxfp4 (pin_weights hw) = map_option pin_bytes (hr_native_mxfp4 hw)"
  "contiguous_packed_scales A (pin_weights hw) = contiguous_packed_scales A hw"
  "ln_weights (pin_linear l) = pin_weights (ln_weights l)"
  "ln_packed_bytes (pin_linear l) = ln_packed_bytes l" "ln_scale_bytes (pin_linear l) = ln_scale_bytes l"
  by (simp_all add: pin_weights_def pin_linear_def contiguous_packed_scales_def)

lemma call_linear_pin [simp]: "call_linear (pin_call c) = pin_linear (call_linear c)"
  by (cases c) simp_all

lemma pinned_call: "call_in_range A c \<Longrightarrow> call_pinned A (pin_call c)"
  by (auto simp: call_in_range_def call_pinned_def Let_def hw_in_range_def hw_ok_def)

text \<open>Two stream states that differ only in the sources of their copies and in the bytes moved.\<close>

fun op_shape :: "'b transfer_op \<Rightarrow> 'b transfer_op" where
  "op_shape (CopyHost s b src) = CopyBounce s b 0"
| "op_shape (CopyBounce s b n) = CopyBounce s b 0"
| "op_shape (WaitCompute n) = WaitCompute n"

definition same_order :: "'b cuda_streams \<Rightarrow> 'b cuda_streams \<Rightarrow> bool" where
  "same_order cs cs' \<longleftrightarrow> map op_shape (cs_transfer cs) = map op_shape (cs_transfer cs')
     \<and> cs_compute cs = cs_compute cs'
     \<and> cs_transfer_done cs = cs_transfer_done cs' \<and> cs_compute_done cs = cs_compute_done cs'"

definition same_state :: "staging_pool \<times> 'b cuda_streams \<Rightarrow> staging_pool \<times> 'b cuda_streams \<Rightarrow> bool" where
  "same_state st st' \<longleftrightarrow> fst st = fst st' \<and> same_order (snd st) (snd st')"

lemma same_order_length: "same_order cs cs' \<Longrightarrow> length (cs_transfer cs) = length (cs_transfer cs')"
  unfolding same_order_def by (metis length_map)

lemma same_order_issue:
  "same_order cs cs' \<Longrightarrow> op_shape t = op_shape t' \<Longrightarrow> same_order (issue_transfer t cs) (issue_transfer t' cs')"
  "same_order cs cs' \<Longrightarrow> same_order (issue_compute c cs) (issue_compute c cs')"
  by (simp_all add: same_order_def)

lemma same_order_stage:
  "same_order cs cs' \<Longrightarrow>
    same_order (stage_buffer A k b src n cs) (stage_buffer A k b (pin_bytes src) n cs')"
  by (cases "hw_is_pinned src")
    (auto simp: stage_buffer_def Let_def same_order_def)

lemma same_order_fence:
  "same_order cs cs' \<Longrightarrow> same_state (fence_compute k (pool, cs)) (fence_compute k (pool, cs'))"
  using same_order_length [of cs cs'] by (simp add: same_state_def fence_compute_def same_order_issue)

lemma same_order_fence_last:
  assumes "same_order cs cs'"
  shows "fst (fence_compute k (pool, cs))\<lparr>sp_last_prepared_slot := j\<rparr>
      = fst (fence_compute k (pool, cs'))\<lparr>sp_last_prepared_slot := j\<rparr>"
    and "fst (fence_compute k (pool, cs)) = fst (fence_compute k (pool, cs'))"
    and "same_order (snd (fence_compute k (pool, cs))) (snd (fence_compute k (pool, cs')))"
  using same_order_fence [OF assms] by (simp_all add: same_state_def)

lemma prepare_async_same:
  assumes "same_order cs cs'"
  shows "same_state (fst (prepare_async A hw pb sb (pool, cs))) (fst (prepare_async A (pin_weights hw) pb sb (pool, cs')))
    \<and> snd (prepare_async A hw pb sb (pool, cs)) = snd (prepare_async A (pin_weights hw) pb sb (pool, cs'))"
proof -
  have fence: "(case fence_compute k (p, c1) of (pool, cs) \<Rightarrow> ((pool\<lparr>sp_last_prepared_slot := Some j\<rparr>, cs), r))
      = ((fst (fence_compute k (p, c1))\<lparr>sp_last_prepared_slot := Some j\<rparr>, snd (fence_compute k (p, c1))), r)"
    for k p j and r :: "nat aegis_result" and c1 :: "'a cuda_streams"
    by (simp add: case_prod_beta)
  show ?thesis
    unfolding prepare_async_def Let_def case_prod_conv fence pin_weights_simps pin_bytes_simps
    using assms
    by (auto simp: same_state_def intro!: same_order_issue same_order_stage same_order_fence_last
        split: option.split)
qed

lemma prepare_native_same:
  assumes "same_order cs cs'"
  shows "same_state (fst (prepare_native_mxfp4_into_last A m (pool, cs)))
      (fst (prepare_native_mxfp4_into_last A (pin_bytes m) (pool, cs')))
    \<and> snd (prepare_native_mxfp4_into_last A m (pool, cs)) = snd (prepare_native_mxfp4_into_last A (pin_bytes m) (pool, cs'))"
  using assms
  by (auto simp: prepare_native_mxfp4_into_last_def same_state_def intro!: same_order_stage
      same_order_fence_last split: option.split)

lemma launch_same:
  "same_state (pool, cs) (pool', cs') \<Longrightarrow>
    same_state (mark_kernel_launched k (pool, issue_compute c cs)) (mark_kernel_launched k (pool', issue_compute c cs'))"
  by (simp add: same_state_def mark_kernel_launched_def same_order_issue) (simp add: same_order_def)

lemma matvec_nvfp4_same:
  assumes "same_state st st'"
  shows "same_state (fst (matvec_nvfp4_staged A l st)) (fst (matvec_nvfp4_staged A (pin_linear l) st'))"
proof -
  obtain pool cs cs' where st: "st = (pool, cs)" "st' = (pool, cs')" "same_order cs cs'"
    using assms by (cases st; cases st') (auto simp: same_state_def)
  obtain p1 c1 r where r: "prepare_async A (ln_weights l) (ln_packed_bytes l) (ln_scale_bytes l) (pool, cs) = ((p1, c1), r)"
    by (metis surj_pair)
  obtain p2 c2 r' where r': "prepare_async A (pin_weights (ln_weights l)) (ln_packed_bytes l) (ln_scale_bytes l) (pool, cs')
    = ((p2, c2), r')" by (metis surj_pair)
  have same: "same_state (p1, c1) (p2, c2)" "r = r'"
    using prepare_async_same [OF st(3), of A "ln_weights l" "ln_packed_bytes l" "ln_scale_bytes l" pool] r r' by simp_all
  then have "p1 = p2" by (simp add: same_state_def)
  then show ?thesis using same launch_same [OF same(1)]
    by (cases r) (auto simp: matvec_nvfp4_staged_def st r r' Let_def)
qed

lemma matvec_native_same:
  assumes "same_state st st'"
  shows "same_state (fst (matvec_native_mxfp4_staged A l st)) (fst (matvec_native_mxfp4_staged A (pin_linear l) st'))"
proof (cases "hr_native_mxfp4 (ln_weights l)")
  case None
  with assms show ?thesis by (simp add: matvec_native_mxfp4_staged_def)
next
  case (Some m)
  obtain pool cs cs' where st: "st = (pool, cs)" "st' = (pool, cs')" "same_order cs cs'"
    using assms by (cases st; cases st') (auto simp: same_state_def)
  obtain p1 c1 r where r: "prepare_async A (ln_weights l) (ln_packed_bytes l) (ln_scale_bytes l) (pool, cs) = ((p1, c1), r)"
    by (metis surj_pair)
  obtain p2 c2 r' where r': "prepare_async A (pin_weights (ln_weights l)) (ln_packed_bytes l) (ln_scale_bytes l) (pool, cs')
    = ((p2, c2), r')" by (metis surj_pair)
  have same: "p1 = p2" "same_order c1 c2" "r = r'"
    using prepare_async_same [OF st(3), of A "ln_weights l" "ln_packed_bytes l" "ln_scale_bytes l" pool] r r'
    by (simp_all add: same_state_def)
  obtain p3 c3 u where n: "prepare_native_mxfp4_into_last A m (p2, c1) = ((p3, c3), u)" by (metis surj_pair)
  obtain p4 c4 u' where n': "prepare_native_mxfp4_into_last A (pin_bytes m) (p2, c2) = ((p4, c4), u')" by (metis surj_pair)
  have same': "same_state (p3, c3) (p4, c4)" "u = u'"
    using prepare_native_same [OF same(2), of A m p2] n n' by simp_all
  then have "p3 = p4" by (simp add: same_state_def)
  then show ?thesis using same same' launch_same [OF same'(1)]
    by (cases r; cases u)
      (auto simp: matvec_native_mxfp4_staged_def st r r' n n' Some same_state_def split: option.split)
qed

lemma do_call_same: "same_state st st' \<Longrightarrow> same_state (do_call A c st) (do_call A (pin_call c) st')"
  by (cases c) (simp_all add: matvec_nvfp4_same matvec_native_same)

lemma op_shape_nth:
  assumes "same_order cs cs'" and "i < length (cs_transfer cs)"
  shows "op_shape (cs_transfer cs ! i) = op_shape (cs_transfer cs' ! i)"
  using assms same_order_length [OF assms(1)] unfolding same_order_def by (metis nth_map)

lemma op_shape_facts:
  assumes "op_shape t = op_shape t'"
  shows "copies_to s t = copies_to s t'" and "cs_compute_done cs = cs_compute_done cs' \<Longrightarrow> transfer_ready cs t = transfer_ready cs' t'"
  using assms by (cases t; cases t'; simp)+

lemma device_step_same:
  assumes "device_step cs d" and "same_order cs cs'"
  shows "\<exists>d'. device_step cs' d' \<and> same_order d d'"
  using assms(1)
proof cases
  case (transfer t)
  let ?t = "cs_transfer cs' ! cs_transfer_done cs'"
  have eq: "cs_transfer_done cs' = cs_transfer_done cs" "cs_compute_done cs = cs_compute_done cs'"
    using assms(2) by (simp_all add: same_order_def)
  have "transfer_ready cs' ?t"
    using op_shape_facts(2) [OF op_shape_nth [OF assms(2) transfer(2)] eq(2)] transfer by (simp add: eq)
  then have "device_step cs' (cs'\<lparr>cs_transfer_done := Suc (cs_transfer_done cs'), cs_device := do_transfer cs' ?t\<rparr>)"
    using transfer(2) same_order_length [OF assms(2)] eq(1) by (intro device_step.transfer) simp_all
  moreover have "same_order d (cs'\<lparr>cs_transfer_done := Suc (cs_transfer_done cs'), cs_device := do_transfer cs' ?t\<rparr>)"
    using assms(2) transfer(1) by (simp add: same_order_def)
  ultimately show ?thesis by blast
next
  case (compute c)
  have eq: "cs_transfer_done cs' = cs_transfer_done cs" "cs_compute_done cs' = cs_compute_done cs"
    "cs_compute cs' = cs_compute cs"
    using assms(2) by (simp_all add: same_order_def)
  have "compute_ready cs' c" using compute(4) eq(1) by (cases c) simp_all
  then have "device_step cs' (cs'\<lparr>cs_compute_done := Suc (cs_compute_done cs'), cs_log := do_compute cs' c\<rparr>)"
    using compute(2,3) eq(2,3) by (intro device_step.compute) simp_all
  moreover have "same_order d (cs'\<lparr>cs_compute_done := Suc (cs_compute_done cs'), cs_log := do_compute cs' c\<rparr>)"
    using assms(2) compute(1) by (simp add: same_order_def)
  ultimately show ?thesis by blast
qed

lemma reachable_same:
  "reachable A (call_in_range A) st \<Longrightarrow> \<exists>st'. reachable A (call_pinned A) st' \<and> same_state st st'"
proof (induction rule: reachable.induct)
  case (init mp ms mn slots_env dev bounce)
  show ?case by (intro exI conjI, rule reachable.init) (simp add: same_state_def same_order_def)
next
  case (call st c)
  then show ?case using do_call_same pinned_call reachable.call by blast
next
  case (device pool cs d)
  then obtain cs' where cs': "reachable A (call_pinned A) (pool, cs')" "same_order cs cs'"
    by (auto simp: same_state_def)
  with device_step_same [OF device.hyps(2)] obtain d' where "device_step cs' d'" "same_order d d'" by blast
  with cs'(1) reachable.device show ?case by (fastforce simp: same_state_def)
qed

text \<open>A kernel behind which a copy into its slot is next still waits for that copy.\<close>

lemma pinned_kernel_waits:
  assumes "reachable A (call_pinned A) (pool, cs)"
    and "cs_transfer_done cs < length (cs_transfer cs)" and "cs_compute_done cs \<le> p" "p < length (cs_compute cs)"
    and "cs_compute cs ! p = Kernel rs w" and s: "s \<in> fst ` set rs"
    and "copies_to s (cs_transfer cs ! cs_transfer_done cs)"
  shows "\<exists>q n. cs_compute_done cs \<le> q \<and> q < p \<and> cs_compute cs ! q = WaitTransfer n \<and> cs_transfer_done cs < n"
proof -
  obtain dev0 where inv: "stream_inv dev0 cs" using reachable_inv [OF assms(1)] by (auto simp: staging_inv_def)
  obtain s' q n where q: "q < p" "cs_compute cs ! q = WaitTransfer n"
    and d: "guard_data dev0 (cs_transfer cs) p s' rs w n"
    using stream_invD(8) [OF inv assms(4)] assms(5) unfolding guarded_def by blast
  have s': "s' = s" using d s by (auto simp: guard_data_def)
  have n: "cs_transfer_done cs < n"
  proof (rule ccontr)
    assume "\<not> cs_transfer_done cs < n"
    then have "n \<le> cs_transfer_done cs" by simp
    then obtain j c where "j < cs_transfer_done cs" "cs_transfer cs ! j = WaitCompute c" "p < c"
      using d assms(2,7) unfolding s' guard_data_def by blast
    with stream_invD(5) [OF inv, of j c] assms(3) show False by simp
  qed
  moreover have "cs_compute_done cs \<le> q" using stream_invD(6) [OF inv _ q(2)] n by (meson leD leI)
  ultimately show ?thesis using q by blast
qed

section \<open>Properties of the staging pool\<close>

text \<open>
  C5: for host calls whose weights are in pinned memory (spans inside their arena, or pinned buffers), whatever the interleaving of host and device: every kernel executed so far read exactly the weights it was launched for, in launch order. Memory-mapped weights go through the bounce buffer of a slot and are excluded: \<open>bounce_overwritten_in_flight\<close>.\<close>

theorem staged_kernels_read_their_weights:
  assumes "reachable A (call_pinned A) (pool, cs)"
  shows "cs_log cs = map (\<lambda>w. (w, w)) (concat (map kernel_weights (take (cs_compute_done cs) (cs_compute cs))))"
  using reachable_inv [OF assms] stream_invD(7) by (fastforce simp: staging_inv_def)

text \<open>
  C11: for any host calls, memory-mapped weights included, whose arena spans are in range: take a launched kernel that has not finished. When the next copy on the transfer stream goes into the slot of the kernel, the kernel has not started, and an unfinished wait before it on its own stream holds it back until that copy is done. So no copy into a slot ever runs at the same time as a kernel on it, for every kernel in the queue.\<close>

theorem staging_never_races:
  assumes "reachable A (call_in_range A) (pool, cs)"
    and "cs_transfer_done cs < length (cs_transfer cs)" and "cs_compute_done cs \<le> p" "p < length (cs_compute cs)"
    and "cs_compute cs ! p = Kernel rs w" and "s \<in> fst ` set rs"
    and "copies_to s (cs_transfer cs ! cs_transfer_done cs)"
  shows "\<exists>q n. cs_compute_done cs \<le> q \<and> q < p \<and> cs_compute cs ! q = WaitTransfer n \<and> cs_transfer_done cs < n"
proof -
  obtain cs' where cs': "reachable A (call_pinned A) (pool, cs')" and same: "same_order cs cs'"
    using reachable_same [OF assms(1)] by (auto simp: same_state_def)
  have eq: "cs_compute cs' = cs_compute cs" "cs_transfer_done cs' = cs_transfer_done cs"
    "cs_compute_done cs' = cs_compute_done cs" "length (cs_transfer cs') = length (cs_transfer cs)"
    using same same_order_length [OF same] by (simp_all add: same_order_def)
  have "copies_to s (cs_transfer cs' ! cs_transfer_done cs')"
    using assms(7) op_shape_facts(1) [OF op_shape_nth [OF same assms(2)]] eq(2) by simp
  then show ?thesis using pinned_kernel_waits [OF cs', of p rs w s] assms(2-6) eq by simp
qed

text \<open>
  The waits never deadlock: as long as an issued operation is not done, some stream can run its next one.\<close>

theorem staging_always_progresses:
  assumes "reachable A (call_pinned A) (pool, cs)"
    and "cs_transfer_done cs < length (cs_transfer cs) \<or> cs_compute_done cs < length (cs_compute cs)"
  shows "\<exists>cs'. device_step cs cs'"
proof (rule ccontr)
  assume stuck: "\<nexists>cs'. device_step cs cs'"
  obtain dev0 where inv: "stream_inv dev0 cs" using reachable_inv [OF assms(1)] by (auto simp: staging_inv_def)
  let ?i = "cs_transfer_done cs" and ?q = "cs_compute_done cs"
  have t: "\<exists>c. cs_transfer cs ! ?i = WaitCompute c \<and> ?q < c" if "?i < length (cs_transfer cs)"
  proof -
    have "\<not> transfer_ready cs (cs_transfer cs ! ?i)" using stuck that device_step.transfer by blast
    then show ?thesis by (cases "cs_transfer cs ! ?i") auto
  qed
  have c: "\<exists>n. cs_compute cs ! ?q = WaitTransfer n \<and> ?i < n" if "?q < length (cs_compute cs)"
  proof -
    have "\<not> compute_ready cs (cs_compute cs ! ?q)" using stuck that device_step.compute by blast
    then show ?thesis by (cases "cs_compute cs ! ?q") auto
  qed
  have both: "?i < length (cs_transfer cs) \<and> ?q < length (cs_compute cs)"
  proof (rule ccontr)
    assume "\<not> (?i < length (cs_transfer cs) \<and> ?q < length (cs_compute cs))"
    with assms(2) consider "?i < length (cs_transfer cs)" "length (cs_compute cs) \<le> ?q"
      | "?q < length (cs_compute cs)" "length (cs_transfer cs) \<le> ?i" by linarith
    then show False
    proof cases
      case 1
      with t stream_invD(9) [OF inv, of ?i] show False by fastforce
    next
      case 2
      with c stream_invD(10) [OF inv, of ?q] show False by fastforce
    qed
  qed
  then obtain k n where "cs_transfer cs ! ?i = WaitCompute k" "?q < k"
    "cs_compute cs ! ?q = WaitTransfer n" "?i < n" using t c by blast
  with both stream_invD(11) [OF inv, of ?i k ?q n] show False by linarith
qed

text \<open>
  A pinned buffer is as long as its pages, so a staged linear whose weights were copied into pinned buffers of their own is rejected unless both byte counts are multiples of the page size.\<close>

theorem pinned_copies_are_rejected:
  assumes "hr_packed hw = HwPinned (alloc_pinned_from_bytes zero packed)"
    and "hr_scales hw = HwPinned (alloc_pinned_from_bytes zero scales)"
    and "\<not> (page_size dvd length packed \<and> page_size dvd length scales)"
  shows "\<exists>e. snd (prepare_async A hw (length packed) (length scales) st) = Inl e"
proof -
  have len: "length (alloc_pinned_from_bytes zero bs) = div_ceil (length bs) page_size * page_size" for bs :: "'a list"
    using div_ceil_covers [of page_size "length bs"] by (simp add: alloc_pinned_from_bytes_def page_size_def)
  have "hw_len (hr_packed hw) \<noteq> length packed \<or> hw_len (hr_scales hw) \<noteq> length scales"
    using assms(3) by (auto simp: assms(1,2) len dvd_def) (metis mult.commute)+
  then show ?thesis by (cases st) (auto simp: prepare_async_def Let_def)
qed

section \<open>Concrete runs\<close>

text \<open>The two device steps as functions.\<close>

definition run_transfer :: "'b cuda_streams \<Rightarrow> 'b cuda_streams" where
  "run_transfer cs = cs\<lparr>cs_transfer_done := Suc (cs_transfer_done cs),
     cs_device := do_transfer cs (cs_transfer cs ! cs_transfer_done cs)\<rparr>"

definition run_compute :: "'b cuda_streams \<Rightarrow> 'b cuda_streams" where
  "run_compute cs = cs\<lparr>cs_compute_done := Suc (cs_compute_done cs),
     cs_log := do_compute cs (cs_compute cs ! cs_compute_done cs)\<rparr>"

lemma reachable_transfer:
  assumes "reachable A allowed (pool, cs)"
    and "cs_transfer_done cs < length (cs_transfer cs) \<and> transfer_ready cs (cs_transfer cs ! cs_transfer_done cs)"
  shows "reachable A allowed (pool, run_transfer cs)"
  using assms by (auto simp: run_transfer_def intro: reachable.device device_step.transfer)

lemma reachable_compute:
  assumes "reachable A allowed (pool, cs)"
    and "cs_compute_done cs < length (cs_compute cs) \<and> compute_ready cs (cs_compute cs ! cs_compute_done cs)"
  shows "reachable A allowed (pool, run_compute cs)"
  using assms by (auto simp: run_compute_def intro: reachable.device device_step.compute)

definition linear_of :: "nat host_weight_bytes \<Rightarrow> nat staged_linear" where
  "linear_of src = \<lparr>ln_weights = \<lparr>hr_packed = src, hr_scales = src, hr_native_mxfp4 = None\<rparr>,
     ln_packed_bytes = hw_len src, ln_scale_bytes = hw_len src\<rparr>"

text \<open>Two slots, three one-byte linears in a row before the device runs at all.\<close>

definition three_calls :: "(nat \<Rightarrow> nat host_weight_bytes) \<Rightarrow> staging_pool \<times> nat cuda_streams" where
  "three_calls source = do_call (\<lambda>a. []) (Nvfp4Call (linear_of (source 3)))
     (do_call (\<lambda>a. []) (Nvfp4Call (linear_of (source 2)))
     (do_call (\<lambda>a. []) (Nvfp4Call (linear_of (source 1)))
        (pool_new 1 1 0 (Some 2), streams_init (\<lambda>k. [0]) (\<lambda>k. [0]))))"

definition first_kernel_run :: "(nat \<Rightarrow> nat host_weight_bytes) \<Rightarrow> nat cuda_streams" where
  "first_kernel_run source =
     run_compute (run_compute (run_transfer (run_transfer (snd (three_calls source)))))"

lemma first_kernel_reachable:
  assumes "\<And>k. allowed (Nvfp4Call (linear_of (source k)))"
    and "let cs = snd (three_calls source) in
      cs_transfer_done cs < length (cs_transfer cs) \<and> transfer_ready cs (cs_transfer cs ! cs_transfer_done cs)"
    and "let cs = run_transfer (snd (three_calls source)) in
      cs_transfer_done cs < length (cs_transfer cs) \<and> transfer_ready cs (cs_transfer cs ! cs_transfer_done cs)"
    and "let cs = run_transfer (run_transfer (snd (three_calls source))) in
      cs_compute_done cs < length (cs_compute cs) \<and> compute_ready cs (cs_compute cs ! cs_compute_done cs)"
    and "let cs = run_compute (run_transfer (run_transfer (snd (three_calls source)))) in
      cs_compute_done cs < length (cs_compute cs) \<and> compute_ready cs (cs_compute cs ! cs_compute_done cs)"
  shows "reachable (\<lambda>a. []) allowed (fst (three_calls source), first_kernel_run source)"
proof -
  have "reachable (\<lambda>a. []) allowed (three_calls source)"
    unfolding three_calls_def by (intro reachable.call reachable.init assms(1))
  then have "reachable (\<lambda>a. []) allowed (fst (three_calls source), snd (three_calls source))" by simp
  then show ?thesis
    unfolding first_kernel_run_def
    using assms(2-5) by (intro reachable_compute reachable_transfer) (simp_all add: Let_def)
qed

text \<open>
  The bounce buffer of a slot is written by the host while an earlier copy out of it may still be queued: with memory-mapped weights, two slots and three calls, the first kernel can read the weights of the third.\<close>

theorem bounce_overwritten_in_flight:
  "reachable (\<lambda>a. []) (\<lambda>c. True) (fst (three_calls (\<lambda>k. HwMmap [k])), first_kernel_run (\<lambda>k. HwMmap [k]))
   \<and> cs_log (first_kernel_run (\<lambda>k. HwMmap [k])) = [([[3], [3]], [[1], [1]])]"
proof
  show "reachable (\<lambda>a. []) (\<lambda>c. True) (fst (three_calls (\<lambda>k. HwMmap [k])), first_kernel_run (\<lambda>k. HwMmap [k]))"
    by (rule first_kernel_reachable) (simp, code_simp+)
  show "cs_log (first_kernel_run (\<lambda>k. HwMmap [k])) = [([[3], [3]], [[1], [1]])]" by code_simp
qed

lemma pinned_run: "reachable (\<lambda>a. []) (call_pinned (\<lambda>a. []))
    (fst (three_calls (\<lambda>k. HwPinned [k])), first_kernel_run (\<lambda>k. HwPinned [k]))"
  by (rule first_kernel_reachable) (simp add: call_pinned_def linear_of_def hw_ok_def, code_simp+)

lemma staged_kernels_read_their_weights_witness:
  "cs_log (first_kernel_run (\<lambda>k. HwPinned [k])) = map (\<lambda>w. (w, w)) [[[1], [1]]]"
proof -
  have "concat (map kernel_weights (take (cs_compute_done (first_kernel_run (\<lambda>k. HwPinned [k])))
      (cs_compute (first_kernel_run (\<lambda>k. HwPinned [k]))))) = [[[1], [1]]]" by code_simp
  then show ?thesis using staged_kernels_read_their_weights [OF pinned_run] by simp
qed

lemma staging_always_progresses_witness:
  "\<exists>cs'. device_step (first_kernel_run (\<lambda>k. HwPinned [k])) cs'"
proof -
  have "cs_transfer_done (first_kernel_run (\<lambda>k. HwPinned [k])) < length (cs_transfer (first_kernel_run (\<lambda>k. HwPinned [k])))"
    by code_simp
  then show ?thesis using staging_always_progresses [OF pinned_run] by blast
qed

lemma pinned_copies_are_rejected_witness:
  "\<exists>e. snd (prepare_async (\<lambda>a. []) \<lparr>hr_packed = HwPinned (alloc_pinned_from_bytes 0 [7 :: nat]),
      hr_scales = HwPinned (alloc_pinned_from_bytes 0 [7]), hr_native_mxfp4 = None\<rparr> 1 1
      (pool_new 1 1 0 None, streams_init (\<lambda>k. []) (\<lambda>k. []))) = Inl e"
  using pinned_copies_are_rejected [of "\<lparr>hr_packed = HwPinned (alloc_pinned_from_bytes 0 [7 :: nat]),
      hr_scales = HwPinned (alloc_pinned_from_bytes 0 [7]), hr_native_mxfp4 = None\<rparr>" 0 "[7]" "[7]"
      "\<lambda>a. []" "(pool_new 1 1 0 None, streams_init (\<lambda>k. []) (\<lambda>k. []))"]
  by (simp add: page_size_def)

text \<open>
  Three calls with memory-mapped weights on two slots: the first two copies are done and their
  kernel is next; the copy for the second call goes into slot 1, whose kernel waits for it.
\<close>

lemma staging_never_races_witness:
  "\<exists>q n. 1 \<le> q \<and> q < 3 \<and> cs_compute (snd (three_calls (\<lambda>k. HwMmap [k]))) ! q = WaitTransfer n \<and> 2 < n"
proof -
  let ?cs = "run_compute (run_transfer (run_transfer (snd (three_calls (\<lambda>k. HwMmap [k])))))"
  have "reachable (\<lambda>a. []) (call_in_range (\<lambda>a. [])) (three_calls (\<lambda>k. HwMmap [k]))"
    unfolding three_calls_def
    by (intro reachable.call reachable.init) (simp_all add: call_in_range_def linear_of_def hw_in_range_def)
  then have r0: "reachable (\<lambda>a. []) (call_in_range (\<lambda>a. []))
      (fst (three_calls (\<lambda>k. HwMmap [k])), snd (three_calls (\<lambda>k. HwMmap [k])))" by simp
  have r: "reachable (\<lambda>a. []) (call_in_range (\<lambda>a. [])) (fst (three_calls (\<lambda>k. HwMmap [k])), ?cs)"
    by (intro reachable_compute reachable_transfer r0) code_simp+
  have facts: "cs_transfer_done ?cs < length (cs_transfer ?cs)" "cs_compute_done ?cs \<le> 3" "3 < length (cs_compute ?cs)"
    "cs_compute ?cs ! 3 = Kernel [(1, PackedBuf, 0, 1), (1, ScalesBuf, 0, 1)] [[2], [2]]"
    "copies_to 1 (cs_transfer ?cs ! cs_transfer_done ?cs)"
    by code_simp+
  have "1 \<in> fst ` set [(1 :: nat, PackedBuf, 0 :: nat, 1 :: nat), (1, ScalesBuf, 0, 1)]" by simp
  from staging_never_races [OF r facts(1-4) this facts(5)]
  have "\<exists>q n. cs_compute_done ?cs \<le> q \<and> q < 3 \<and> cs_compute ?cs ! q = WaitTransfer n \<and> cs_transfer_done ?cs < n" .
  moreover have "cs_compute_done ?cs = 1" "cs_transfer_done ?cs = 2"
    "cs_compute ?cs = cs_compute (snd (three_calls (\<lambda>k. HwMmap [k])))" by code_simp+
  ultimately show ?thesis by simp
qed

end
