(* ===== verification/HostArena.thy ===== *)
theory HostArena
  imports Staging
begin

text \<open>
  The pinned host arena of \<^verbatim>\<open>cuda/host_arena.rs\<close>: one allocation that is handed out from the
  front by an atomic counter. First the operations run one after the other, with the bytes they
  fill and the slices read back later; then reservations of several threads as interleaved atomic steps,
  because a failed reservation takes two: the overshooting \<^verbatim>\<open>fetch_add\<close> and the store that
  takes it back. Integers are 64 bits wide.
\<close>

section \<open>The operations\<close>

record 'b arena =
  ar_bytes :: "'b list"
  ar_used :: nat

definition ar_capacity :: "'b arena \<Rightarrow> nat" where
  "ar_capacity a = length (ar_bytes a)"

text \<open>\<open>mmap\<close> maps that many bytes or fails.\<close>

definition arena_new :: "(nat \<Rightarrow> 'b list aegis_result) \<Rightarrow> nat \<Rightarrow> 'b arena aegis_result" where
  "arena_new mmap capacity =
     (if capacity = 0 then Inl (InvalidPlan ''PinnedArena requires non-zero capacity'')
      else res_bind (mmap (div_ceil capacity page_size * page_size)) (\<lambda>backing.
        Inr \<lparr>ar_bytes = backing, ar_used = 0\<rparr>))"

definition overflow_error :: "nat \<Rightarrow> nat \<Rightarrow> nat \<Rightarrow> aegis_error" where
  "overflow_error len offset capacity =
     InvalidPlan (''PinnedArena overflow: requested '' @ show_nat len @ '' at offset '' @ show_nat offset
       @ '', capacity '' @ show_nat capacity)"

definition reserve :: "'b arena \<Rightarrow> nat \<Rightarrow> 'b arena \<times> nat aegis_result" where
  "reserve a len =
     (let offset = ar_used a; a = a\<lparr>ar_used := wrapping_add offset len\<rparr>
      in if saturating_add offset len > ar_capacity a
         then (a\<lparr>ar_used := offset\<rparr>, Inl (overflow_error len offset (ar_capacity a)))
         else (a, Inr offset))"

definition arena_slice :: "'b arena \<Rightarrow> nat \<Rightarrow> nat \<Rightarrow> 'b list" where
  "arena_slice a offset len = take len (drop offset (ar_bytes a))"

definition write_slice :: "'b arena \<Rightarrow> nat \<Rightarrow> 'b list \<Rightarrow> 'b arena" where
  "write_slice a offset bs =
     a\<lparr>ar_bytes := take offset (ar_bytes a) @ bs @ drop (offset + length bs) (ar_bytes a)\<rparr>"

text \<open>
  \<^verbatim>\<open>read_exact\<close>: all the bytes asked for, or an error after some of them were written.
\<close>

definition alloc_and_fill :: "'b arena \<Rightarrow> (nat \<Rightarrow> 'b list \<times> string option) \<Rightarrow> nat \<Rightarrow> 'b arena \<times> nat aegis_result" where
  "alloc_and_fill a reader len =
     (case reserve a len of
        (a, Inl e) \<Rightarrow> (a, Inl e)
      | (a, Inr offset) \<Rightarrow>
          (case reader len of
             (bs, None) \<Rightarrow> (write_slice a offset bs, Inr offset)
           | (bs, Some e) \<Rightarrow> (write_slice a offset bs, Inl (Unsupported (''pinned arena read_exact: '' @ e)))))"

text \<open>The registered range: whole pages, within the buffer.\<close>

definition pinned_end :: "'b arena \<Rightarrow> nat" where
  "pinned_end a = min (div_ceil (ar_used a) page_size * page_size) (ar_capacity a)"

definition device_ptr_at :: "nat \<Rightarrow> nat \<Rightarrow> nat option" where
  "device_ptr_at device_ptr_base offset =
     (if device_ptr_base = 0 then None else Some (wrapping_add device_ptr_base offset))"

section \<open>What was filled is read back\<close>

definition reader_exact :: "(nat \<Rightarrow> 'b list \<times> string option) \<Rightarrow> bool" where
  "reader_exact reader \<longleftrightarrow> (\<forall>len. length (fst (reader len)) \<le> len \<and> (snd (reader len) = None \<longrightarrow> length (fst (reader len)) = len))"

fun load_all :: "'b arena \<Rightarrow> ((nat \<Rightarrow> 'b list \<times> string option) \<times> nat) list \<Rightarrow> 'b arena \<times> nat aegis_result list" where
  "load_all a [] = (a, [])"
| "load_all a ((reader, len) # rest) =
     (let (a, r) = alloc_and_fill a reader len; (a, rs) = load_all a rest in (a, r # rs))"

definition arena_ok :: "'b arena \<Rightarrow> bool" where
  "arena_ok a \<longleftrightarrow> ar_used a \<le> ar_capacity a \<and> ar_capacity a < u64_max"

lemma reserve_cases:
  assumes "arena_ok a"
  shows "reserve a len =
    (if ar_used a + len \<le> ar_capacity a then (a\<lparr>ar_used := ar_used a + len\<rparr>, Inr (ar_used a))
     else (a, Inl (overflow_error len (ar_used a) (ar_capacity a))))"
  using assms
  by (auto simp: reserve_def Let_def arena_ok_def ar_capacity_def saturating_add_def wrapping_add_def u64_max_def)

lemma write_slice_props:
  assumes "offset + length bs \<le> ar_capacity a"
  shows "ar_capacity (write_slice a offset bs) = ar_capacity a" "ar_used (write_slice a offset bs) = ar_used a"
    "arena_slice (write_slice a offset bs) offset (length bs) = bs"
    "o' + l' \<le> offset \<Longrightarrow> arena_slice (write_slice a offset bs) o' l' = arena_slice a o' l'"
proof -
  show "ar_capacity (write_slice a offset bs) = ar_capacity a" "ar_used (write_slice a offset bs) = ar_used a"
    "arena_slice (write_slice a offset bs) offset (length bs) = bs"
    using assms by (simp_all add: write_slice_def arena_slice_def ar_capacity_def)
  assume le: "o' + l' \<le> offset"
  have "take l' (drop o' (take offset (ar_bytes a))) = take l' (drop o' (ar_bytes a))"
    using le by (simp add: drop_take min_def)
  then show "arena_slice (write_slice a offset bs) o' l' = arena_slice a o' l'"
    using le assms by (simp add: write_slice_def arena_slice_def ar_capacity_def)
qed

lemma alloc_and_fill_props:
  assumes "arena_ok a" "reader_exact reader" "alloc_and_fill a reader len = (a', r)"
  shows "arena_ok a'" "ar_capacity a' = ar_capacity a" "ar_used a \<le> ar_used a'"
    "o' + l' \<le> ar_used a \<Longrightarrow> arena_slice a' o' l' = arena_slice a o' l'"
    "r = Inr offset \<Longrightarrow> offset = ar_used a \<and> ar_used a' = offset + len \<and> arena_slice a' offset len = fst (reader len)"
proof -
  have len: "length (fst (reader len)) \<le> len" "snd (reader len) = None \<Longrightarrow> length (fst (reader len)) = len"
    using assms(2) by (auto simp: reader_exact_def)
  consider "ar_used a + len \<le> ar_capacity a" | "\<not> ar_used a + len \<le> ar_capacity a" by blast
  then have "arena_ok a' \<and> ar_capacity a' = ar_capacity a \<and> ar_used a \<le> ar_used a' \<and>
      (o' + l' \<le> ar_used a \<longrightarrow> arena_slice a' o' l' = arena_slice a o' l') \<and>
      (r = Inr offset \<longrightarrow> offset = ar_used a \<and> ar_used a' = offset + len \<and> arena_slice a' offset len = fst (reader len))"
  proof cases
    case 1
    let ?b = "a\<lparr>ar_used := ar_used a + len\<rparr>"
    have a': "a' = write_slice ?b (ar_used a) (fst (reader len))"
      and r: "r = (case snd (reader len) of None \<Rightarrow> Inr (ar_used a) | Some e \<Rightarrow> Inl (Unsupported (''pinned arena read_exact: '' @ e)))"
      using assms(3) 1 by (auto simp: alloc_and_fill_def reserve_cases [OF assms(1)] split: prod.splits option.splits)
    have fits: "ar_used a + length (fst (reader len)) \<le> ar_capacity ?b" using 1 len(1) by (simp add: ar_capacity_def)
    have slice: "arena_slice ?b o' l' = arena_slice a o' l'" by (simp add: arena_slice_def)
    show ?thesis
      using write_slice_props [OF fits] assms(1) 1 r len(2) slice
      by (auto simp: a' arena_ok_def ar_capacity_def split: option.splits)
  next
    case 2
    then show ?thesis using assms by (auto simp: alloc_and_fill_def reserve_cases split: prod.splits)
  qed
  then show "arena_ok a'" "ar_capacity a' = ar_capacity a" "ar_used a \<le> ar_used a'"
    "o' + l' \<le> ar_used a \<Longrightarrow> arena_slice a' o' l' = arena_slice a o' l'"
    "r = Inr offset \<Longrightarrow> offset = ar_used a \<and> ar_used a' = offset + len \<and> arena_slice a' offset len = fst (reader len)"
    by blast+
qed

lemma load_all_props:
  assumes "arena_ok a" "\<forall>(reader, len) \<in> set loads. reader_exact reader" "load_all a loads = (a', rs)"
  shows "arena_ok a' \<and> ar_capacity a' = ar_capacity a \<and> (\<forall>o' l'. o' + l' \<le> ar_used a \<longrightarrow> arena_slice a' o' l' = arena_slice a o' l') \<and>
    length rs = length loads \<and>
    (\<forall>i < length loads. \<forall>offset. rs ! i = Inr offset \<longrightarrow>
       offset + snd (loads ! i) \<le> ar_capacity a' \<and>
       arena_slice a' offset (snd (loads ! i)) = fst (fst (loads ! i) (snd (loads ! i))))"
  using assms
proof (induction loads arbitrary: a a' rs)
  case (Cons load loads)
  obtain reader len where load: "load = (reader, len)" by fastforce
  obtain b r where step: "alloc_and_fill a reader len = (b, r)" by fastforce
  obtain ts where rest: "load_all b loads = (a', ts)" "rs = r # ts"
    using Cons.prems(3) step load by (auto split: prod.splits)
  have exact: "reader_exact reader" using Cons.prems(2) load by simp
  note one = alloc_and_fill_props [OF Cons.prems(1) exact step]
  have IH: "arena_ok a'" "ar_capacity a' = ar_capacity b"
    "\<forall>o' l'. o' + l' \<le> ar_used b \<longrightarrow> arena_slice a' o' l' = arena_slice b o' l'" "length ts = length loads"
    "\<forall>i < length loads. \<forall>offset. ts ! i = Inr offset \<longrightarrow> offset + snd (loads ! i) \<le> ar_capacity a' \<and>
       arena_slice a' offset (snd (loads ! i)) = fst (fst (loads ! i) (snd (loads ! i)))"
    using Cons.IH [OF one(1) _ rest(1)] Cons.prems(2) by auto
  have "arena_slice a' o' l' = arena_slice a o' l'" if "o' + l' \<le> ar_used a" for o' l'
    using IH(3) one(3,4) that by (metis le_trans)
  moreover have "offset + snd ((load # loads) ! i) \<le> ar_capacity a' \<and>
      arena_slice a' offset (snd ((load # loads) ! i)) = fst (fst ((load # loads) ! i) (snd ((load # loads) ! i)))"
    if "i < length (load # loads)" "rs ! i = Inr offset" for i offset
  proof (cases i)
    case 0
    then have "r = Inr offset" using that rest(2) by simp
    from one(5) [OF this] have "offset + len = ar_used b" "arena_slice b offset len = fst (reader len)" by auto
    then show ?thesis using 0 load IH(1,2,3) one(1) by (auto simp: arena_ok_def)
  next
    case (Suc j)
    then show ?thesis using that rest(2) IH(5) by simp
  qed
  ultimately show ?case using IH one(2) rest(2) by auto
qed simp

text \<open>
  After any sequence of loads into an arena, failed ones included, the slice of every load that
  succeeded still holds the bytes read for it: later loads never write into earlier slices, and every slice
  lies in the arena.
\<close>

theorem arena_slices_keep_their_bytes:
  assumes "arena_new mmap capacity = Inr a" "ar_capacity a < u64_max"
    and "\<forall>(reader, len) \<in> set loads. reader_exact reader"
    and "load_all a loads = (a', rs)" "i < length loads" "rs ! i = Inr offset"
  shows "offset + snd (loads ! i) \<le> ar_capacity a' \<and>
    arena_slice a' offset (snd (loads ! i)) = fst (fst (loads ! i) (snd (loads ! i)))"
proof -
  have "arena_ok a" using assms(1,2) by (auto simp: arena_ok_def arena_new_def res_simps split: if_splits)
  from load_all_props [OF this assms(3,4)] assms(5,6) show ?thesis by blast
qed

lemma arena_slices_keep_their_bytes_witness:
  "snd (load_all \<lparr>ar_bytes = replicate 4096 0, ar_used = 0\<rparr> [(\<lambda>len. (replicate len 7, None), 2), (\<lambda>len. (replicate len (9::nat), None), 3)])
     = [Inr 0, Inr 2] \<and>
   arena_slice (fst (load_all \<lparr>ar_bytes = replicate 4096 0, ar_used = 0\<rparr>
     [(\<lambda>len. (replicate len 7, None), 2), (\<lambda>len. (replicate len (9::nat), None), 3)])) 0 2 = [7, 7]"
proof -
  let ?a = "\<lparr>ar_bytes = replicate 4096 (0::nat), ar_used = 0\<rparr>"
  let ?loads = "[(\<lambda>len. (replicate len 7, None), 2), (\<lambda>len. (replicate len (9::nat), None), 3)] :: ((nat \<Rightarrow> nat list \<times> string option) \<times> nat) list"
  have new: "arena_new (\<lambda>n. Inr (replicate n 0)) 100 = Inr ?a"
    by (simp add: arena_new_def page_size_def div_ceil_def)
  have small: "ar_capacity ?a < u64_max" by (simp add: ar_capacity_def u64_max_def)
  have exact: "\<forall>(reader, len) \<in> set ?loads. reader_exact reader" by (simp add: reader_exact_def)
  have ok: "arena_ok ?a" by (simp add: arena_ok_def ar_capacity_def u64_max_def)
  obtain a' rs where run: "load_all ?a ?loads = (a', rs)" by fastforce
  have offsets: "snd (load_all ?a ?loads) = [Inr 0, Inr 2]"
    by (simp add: alloc_and_fill_def reserve_def ar_capacity_def write_slice_def saturating_add_def wrapping_add_def
        u64_max_def Let_def split: prod.split)
  then have "rs ! 0 = Inr 0" using run by simp
  from arena_slices_keep_their_bytes [OF new small exact run _ this] offsets run show ?thesis
    by (simp add: numeral_2_eq_2)
qed

section \<open>Reservations of several threads\<close>

text \<open>
  The atomic steps of \<^verbatim>\<open>reserve\<close>: a \<^verbatim>\<open>fetch_add\<close> that fits ends the call; one that
  overshoots leaves the store of its old offset to do. \<open>rv_granted\<close> lists the reservations in the
  order they were granted and \<open>rv_asked\<close> the bytes asked for so far.
\<close>

record reservations =
  rv_capacity :: nat
  rv_used :: nat
  rv_rollbacks :: "(nat \<times> nat) list"
  rv_granted :: "(nat \<times> nat) list"
  rv_asked :: nat

definition no_reservations :: "nat \<Rightarrow> reservations" where
  "no_reservations capacity =
     \<lparr>rv_capacity = capacity, rv_used = 0, rv_rollbacks = [], rv_granted = [], rv_asked = 0\<rparr>"

definition fetch_add_step :: "nat \<Rightarrow> nat \<Rightarrow> reservations \<Rightarrow> reservations" where
  "fetch_add_step thread len s =
     (let offset = rv_used s; s = s\<lparr>rv_used := wrapping_add offset len, rv_asked := rv_asked s + len\<rparr>
      in if saturating_add offset len > rv_capacity s
         then s\<lparr>rv_rollbacks := (thread, offset) # rv_rollbacks s\<rparr>
         else s\<lparr>rv_granted := rv_granted s @ [(offset, len)]\<rparr>)"

definition rollback_step :: "nat \<Rightarrow> nat \<Rightarrow> reservations \<Rightarrow> reservations" where
  "rollback_step thread offset s =
     s\<lparr>rv_used := offset, rv_rollbacks := remove1 (thread, offset) (rv_rollbacks s)\<rparr>"

text \<open>A thread calls \<^verbatim>\<open>reserve\<close> only when it is not in the middle of one.\<close>

inductive arena_step :: "reservations \<Rightarrow> reservations \<Rightarrow> bool" where
  add: "thread \<notin> fst ` set (rv_rollbacks s) \<Longrightarrow> len \<le> u64_max \<Longrightarrow> arena_step s (fetch_add_step thread len s)"
| rollback: "(thread, offset) \<in> set (rv_rollbacks s) \<Longrightarrow> arena_step s (rollback_step thread offset s)"

definition low_rollbacks :: "reservations \<Rightarrow> (nat \<times> nat) list" where
  "low_rollbacks s = filter (\<lambda>(thread, offset). offset \<le> rv_capacity s) (rv_rollbacks s)"

text \<open>
  At most one waiting rollback is to an offset within the capacity, and while there is one the counter
  is beyond the capacity, so that nothing is granted before the rollback ran.
\<close>

definition reservations_ok :: "reservations \<Rightarrow> bool" where
  "reservations_ok s \<longleftrightarrow>
     rv_used s \<le> rv_asked s \<and> (\<forall>(thread, offset) \<in> set (rv_rollbacks s). offset \<le> rv_asked s) \<and>
     sorted_wrt (\<lambda>(o1, l1) (o2, l2). o1 + l1 \<le> o2) (rv_granted s) \<and>
     (\<forall>(offset, len) \<in> set (rv_granted s). offset + len \<le> rv_capacity s) \<and>
     (case low_rollbacks s of
        [] \<Rightarrow> \<forall>(offset, len) \<in> set (rv_granted s). offset + len \<le> rv_used s
      | [(thread, old)] \<Rightarrow> rv_used s > rv_capacity s \<and> (\<forall>(offset, len) \<in> set (rv_granted s). offset + len \<le> old)
      | _ \<Rightarrow> False)"

lemma low_rollbacks_within: "(thread, offset) \<in> set (low_rollbacks s) \<longleftrightarrow> (thread, offset) \<in> set (rv_rollbacks s) \<and> offset \<le> rv_capacity s"
  by (auto simp: low_rollbacks_def)

lemma one_low_rollback:
  assumes "reservations_ok s"
  obtains "low_rollbacks s = []" "\<forall>(offset, len) \<in> set (rv_granted s). offset + len \<le> rv_used s"
  | thread old where "low_rollbacks s = [(thread, old)]" "rv_used s > rv_capacity s"
      "\<forall>(offset, len) \<in> set (rv_granted s). offset + len \<le> old"
proof (cases "low_rollbacks s")
  case Nil
  with assms show ?thesis by (intro that(1)) (simp_all add: reservations_ok_def)
next
  case (Cons r rs)
  obtain thread old where "r = (thread, old)" by fastforce
  with assms Cons show ?thesis by (intro that(2)) (auto simp: reservations_ok_def split: list.splits)
qed

lemma reservations_ok_used_low:
  assumes "reservations_ok s" "rv_used s \<le> rv_capacity s"
  shows "low_rollbacks s = []" "\<forall>(offset, len) \<in> set (rv_granted s). offset + len \<le> rv_used s"
  using one_low_rollback [OF assms(1)] assms(2) by (metis linorder_not_less)+

lemma fetch_add_step_ok:
  assumes ok: "reservations_ok s" and asked: "rv_asked (fetch_add_step thread len s) \<le> u64_max"
  shows "reservations_ok (fetch_add_step thread len s)"
proof -
  have sum: "rv_used s + len \<le> u64_max" "rv_used s \<le> rv_asked s"
    using ok asked by (auto simp: fetch_add_step_def reservations_ok_def Let_def split: if_splits)
  note exact = wrapping_add_exact [OF sum(1)] saturating_add_exact [OF sum(1)]
  show ?thesis
  proof (cases "rv_used s + len \<le> rv_capacity s")
    case True
    then have low: "low_rollbacks s = []" "\<forall>(offset, l) \<in> set (rv_granted s). offset + l \<le> rv_used s"
      using reservations_ok_used_low [OF ok] by auto
    let ?t = "fetch_add_step thread len s"
    have t: "?t = s\<lparr>rv_used := rv_used s + len, rv_asked := rv_asked s + len, rv_granted := rv_granted s @ [(rv_used s, len)]\<rparr>"
      using True by (simp add: fetch_add_step_def exact Let_def)
    have none: "low_rollbacks ?t = []" using low(1) by (simp add: t low_rollbacks_def)
    show ?thesis
      using ok low(2) sum(2) True none unfolding reservations_ok_def t
      by (auto simp: sorted_wrt_append low_rollbacks_def)
  next
    case False
    let ?t = "fetch_add_step thread len s"
    have t: "?t = s\<lparr>rv_used := rv_used s + len, rv_asked := rv_asked s + len, rv_rollbacks := (thread, rv_used s) # rv_rollbacks s\<rparr>"
      using False by (simp add: fetch_add_step_def exact Let_def)
    show ?thesis
    proof (cases "rv_used s \<le> rv_capacity s")
      case True
      then have low: "low_rollbacks ?t = [(thread, rv_used s)]"
        using reservations_ok_used_low(1) [OF ok] by (simp add: t low_rollbacks_def)
      show ?thesis
        using ok reservations_ok_used_low(2) [OF ok True] sum(2) False low unfolding reservations_ok_def
        by (fastforce simp: t)
    next
      case high: False
      have same: "low_rollbacks ?t = low_rollbacks s" using high by (simp add: t low_rollbacks_def)
      from ok show ?thesis
      proof (cases rule: one_low_rollback)
        case 1
        with ok sum(2) same show ?thesis unfolding reservations_ok_def by (fastforce simp: t)
      next
        case (2 th old)
        with ok sum(2) same show ?thesis unfolding reservations_ok_def by (fastforce simp: t)
      qed
    qed
  qed
qed

lemma rollback_step_ok:
  assumes ok: "reservations_ok s" and waiting: "(thread, old) \<in> set (rv_rollbacks s)"
  shows "reservations_ok (rollback_step thread old s)"
proof -
  let ?t = "rollback_step thread old s"
  have old: "old \<le> rv_asked s" using ok waiting by (auto simp: reservations_ok_def)
  have low_t: "low_rollbacks ?t = (if old \<le> rv_capacity s then remove1 (thread, old) (low_rollbacks s) else low_rollbacks s)"
    unfolding low_rollbacks_def rollback_step_def
    by (simp add: filter_remove1 remove1_idem)
  have rest: "\<forall>(th, offset) \<in> set (rv_rollbacks ?t). offset \<le> rv_asked ?t"
    using ok by (auto simp: reservations_ok_def rollback_step_def dest!: set_remove1_subset [THEN subsetD])
  show ?thesis
  proof (cases "old \<le> rv_capacity s")
    case True
    then have "(thread, old) \<in> set (low_rollbacks s)" using waiting by (simp add: low_rollbacks_within)
    then have low: "low_rollbacks s = [(thread, old)]"
      using one_low_rollback [OF ok] by (metis empty_iff list.set(1) prod.inject set_ConsD)
    then have "low_rollbacks ?t = []" using low_t True by simp
    then show ?thesis
      using ok low rest old unfolding reservations_ok_def by (auto simp: rollback_step_def)
  next
    case False
    then have same: "low_rollbacks ?t = low_rollbacks s" using low_t by simp
    have granted: "offset + len \<le> old" if "(offset, len) \<in> set (rv_granted s)" for offset len
      using ok that False by (fastforce simp: reservations_ok_def)
    from ok show ?thesis
    proof (cases rule: one_low_rollback)
      case 1
      with ok same rest old False granted show ?thesis unfolding reservations_ok_def by (auto simp: rollback_step_def)
    next
      case (2 th o2)
      with ok same rest old False show ?thesis unfolding reservations_ok_def by (auto simp: rollback_step_def)
    qed
  qed
qed

lemma asked_grows: "arena_step s t \<Longrightarrow> rv_asked s \<le> rv_asked t \<and> rv_capacity t = rv_capacity s"
  by (induction rule: arena_step.induct) (auto simp: fetch_add_step_def rollback_step_def Let_def)

lemma reachable_ok:
  assumes "arena_step\<^sup>*\<^sup>* (no_reservations capacity) s" "rv_asked s \<le> u64_max"
  shows "reservations_ok s \<and> rv_capacity s = capacity"
  using assms
proof (induction rule: rtranclp_induct)
  case base
  show ?case by (simp add: reservations_ok_def no_reservations_def low_rollbacks_def)
next
  case (step s t)
  have ok: "reservations_ok s" "rv_capacity s = capacity" using step asked_grows [OF step.hyps(2)] by auto
  from step.hyps(2) step.prems ok(1) have "reservations_ok t"
    by (cases rule: arena_step.cases) (auto intro: fetch_add_step_ok rollback_step_ok)
  then show ?case using asked_grows [OF step.hyps(2)] ok(2) by simp
qed

text \<open>
  C6: however the threads of a load interleave, and whatever reservations fail in between, the
  reservations that were granted lie within the arena and no two of them overlap, as long as the
  bytes asked for in total fit 64 bits.
\<close>

theorem arena_reservations_disjoint:
  assumes "arena_step\<^sup>*\<^sup>* (no_reservations capacity) s" "rv_asked s \<le> u64_max"
    and "i < j" "j < length (rv_granted s)"
  shows "fst (rv_granted s ! i) + snd (rv_granted s ! i) \<le> fst (rv_granted s ! j) \<and>
    fst (rv_granted s ! j) + snd (rv_granted s ! j) \<le> capacity"
proof -
  from reachable_ok [OF assms(1,2)] have ok: "reservations_ok s" "rv_capacity s = capacity" by auto
  from ok(1) have "sorted_wrt (\<lambda>(o1, l1) (o2, l2). o1 + l1 \<le> o2) (rv_granted s)"
    "\<forall>(offset, len) \<in> set (rv_granted s). offset + len \<le> rv_capacity s" by (auto simp: reservations_ok_def)
  with assms(3,4) ok(2) show ?thesis
    by (auto simp: sorted_wrt_iff_nth_less split_beta)
qed

section \<open>Late rollbacks and huge requests\<close>

definition late_rollback :: reservations where
  "late_rollback = rollback_step 2 110 (rollback_step 1 90 (fetch_add_step 2 5 (fetch_add_step 1 20
     (fetch_add_step 0 90 (no_reservations 100)))))"

lemmas arena_eval = fetch_add_step_def rollback_step_def no_reservations_def Let_def saturating_add_def
  wrapping_add_def u64_max_def

lemma late_rollback_reached: "arena_step\<^sup>*\<^sup>* (no_reservations 100) late_rollback"
proof -
  let ?s0 = "no_reservations 100"
  let ?s1 = "fetch_add_step 0 90 ?s0" let ?s2 = "fetch_add_step 1 20 ?s1" let ?s3 = "fetch_add_step 2 5 ?s2"
  let ?s4 = "rollback_step 1 90 ?s3"
  have "arena_step ?s0 ?s1" by (rule arena_step.add) (simp_all add: arena_eval)
  moreover have "arena_step ?s1 ?s2" by (rule arena_step.add) (simp_all add: arena_eval)
  moreover have "arena_step ?s2 ?s3" by (rule arena_step.add) (simp_all add: arena_eval)
  moreover have "arena_step ?s3 ?s4" by (rule arena_step.rollback) (simp add: arena_eval)
  moreover have "arena_step ?s4 late_rollback"
    unfolding late_rollback_def by (rule arena_step.rollback) (simp add: arena_eval)
  ultimately show ?thesis by (meson converse_rtranclp_into_rtranclp rtranclp.rtrancl_refl)
qed

text \<open>
  Two reservations fail at the same time and the one that failed second stores last: no call is under
  way, ten bytes of a hundred are free, and the counter is beyond the capacity for good, so that every
  later reservation fails.
\<close>

theorem late_rollback_closes_arena:
  "arena_step\<^sup>*\<^sup>* (no_reservations 100) late_rollback \<and> rv_rollbacks late_rollback = [] \<and>
   rv_granted late_rollback = [(0, 90)] \<and> rv_used late_rollback = 110 \<and>
   rv_granted (fetch_add_step 0 1 late_rollback) = rv_granted late_rollback"
  using late_rollback_reached by (simp add: late_rollback_def arena_eval)

text \<open>A request that wraps the counter lets another thread reserve bytes a second time before it fails.\<close>

theorem wrapped_request_overlaps:
  "rv_granted (fetch_add_step 2 50 (fetch_add_step 1 (u64_max - 89) (fetch_add_step 0 90 (no_reservations 100))))
     = [(0, 90), (0, 50)]"
  by (simp add: arena_eval)

lemma arena_reservations_disjoint_witness:
  "\<exists>s. arena_step\<^sup>*\<^sup>* (no_reservations 100) s \<and> rv_granted s = [(0, 60), (60, 30)] \<and>
     fst (rv_granted s ! 0) + snd (rv_granted s ! 0) \<le> fst (rv_granted s ! 1)"
proof -
  let ?s1 = "fetch_add_step 0 60 (no_reservations 100)" let ?s2 = "fetch_add_step 1 30 ?s1"
  have "arena_step (no_reservations 100) ?s1" by (rule arena_step.add) (simp_all add: arena_eval)
  moreover have "arena_step ?s1 ?s2" by (rule arena_step.add) (simp_all add: arena_eval)
  ultimately have run: "arena_step\<^sup>*\<^sup>* (no_reservations 100) ?s2" by (meson rtranclp.rtrancl_into_rtrancl rtranclp.rtrancl_refl)
  have granted: "rv_granted ?s2 = [(0, 60), (60, 30)]" "rv_asked ?s2 \<le> u64_max" by (simp_all add: arena_eval)
  from arena_reservations_disjoint [OF run granted(2), of 0 1] granted(1) run show ?thesis by auto
qed

end
