(* ===== verification/WorkerPool.thy ===== *)
theory WorkerPool
  imports Prelude "HOL-Library.Multiset"
begin

text \<open>
  The worker pool of \<^verbatim>\<open>aegisllm-cpu/src/persistent_pool.rs\<close>: one calling thread and
  \<open>lanes - 1\<close> workers that share a generation counter, the number of workers still running and the
  posted job. A step is one atomic access of a thread together with the thread-local work after it, and
  threads interleave freely; the release stores and acquire loads of the source order the published
  job before the generation that announces it, as the steps do. Waiting in a spin loop, a yield or a
  park with its time limit is a thread that makes no step.
\<close>

section \<open>Shards\<close>

definition shard :: "nat \<Rightarrow> nat \<Rightarrow> nat \<Rightarrow> nat list" where
  "shard lane lanes n =
     (let base = n div lanes; rem = n mod lanes;
          (start, len) = (if lane < rem then (lane * (base + 1), base + 1)
                          else (rem * (base + 1) + (lane - rem) * base, base))
      in [start..<start + len])"

definition shard_start :: "nat \<Rightarrow> nat \<Rightarrow> nat \<Rightarrow> nat" where
  "shard_start lane lanes n =
     (if lane < n mod lanes then lane * (n div lanes + 1)
      else (n mod lanes) * (n div lanes + 1) + (lane - n mod lanes) * (n div lanes))"

lemma shard_start_Suc:
  "shard_start (Suc lane) lanes n = shard_start lane lanes n + (if lane < n mod lanes then n div lanes + 1 else n div lanes)"
proof (cases "Suc lane < n mod lanes")
  case True
  then show ?thesis by (simp add: shard_start_def)
next
  case False
  then consider "Suc lane = n mod lanes" | "n mod lanes \<le> lane" by linarith
  then show ?thesis
  proof cases
    case 1
    then have "shard_start (Suc lane) lanes n = Suc lane * (n div lanes + 1)" by (simp add: shard_start_def)
    moreover have "lane < n mod lanes" using 1 by simp
    ultimately show ?thesis by (simp add: shard_start_def)
  next
    case 2
    then show ?thesis by (simp add: shard_start_def Suc_diff_le)
  qed
qed

lemma shard_between: "shard lane lanes n = [shard_start lane lanes n..<shard_start (Suc lane) lanes n]"
  unfolding shard_start_Suc by (simp add: shard_def shard_start_def Let_def)

lemma shards_join: "concat (map (\<lambda>lane. shard lane lanes n) [0..<k]) = [0..<shard_start k lanes n]"
proof (induction k)
  case (Suc k)
  have "shard_start k lanes n \<le> shard_start (Suc k) lanes n" by (simp add: shard_start_Suc)
  with Suc show ?case by (simp add: shard_between upt_join)
qed (simp add: shard_start_def)

lemma shards_partition:
  assumes "0 < lanes"
  shows "concat (map (\<lambda>lane. shard lane lanes n) [0..<lanes]) = [0..<n]"
proof -
  have "n mod lanes \<le> lanes" using assms by (meson less_imp_le mod_less_divisor)
  then have "(n mod lanes) * (n div lanes + 1) + (lanes - n mod lanes) * (n div lanes) = n mod lanes + lanes * (n div lanes)"
    by (simp add: diff_mult_distrib algebra_simps)
  moreover have "\<not> lanes < n mod lanes" using \<open>n mod lanes \<le> lanes\<close> by simp
  ultimately have "shard_start lanes lanes n = n" by (simp add: shard_start_def)
  then show ?thesis by (simp add: shards_join)
qed

section \<open>The pool\<close>

text \<open>
  \<open>Waiting g\<close> is a worker whose last generation is \<open>g\<close>; \<open>Working\<close> keeps the job it
  read and the indices of its shard still to run. The phases of the caller follow the stores of
  \<^verbatim>\<open>dispatch\<close>.
\<close>

datatype 'j worker = Waiting nat | Working nat "'j option" "nat list"

datatype 'j caller = Fresh | Published 'j nat | Counted 'j nat | Running 'j nat "nat list" | Returned 'j nat

text \<open>
  \<open>po_job\<close> is the posted pointer, null at first, and \<open>po_ran\<close> the calls made since the
  last dispatch began: which job with which index.
\<close>

record 'j pool =
  po_lanes :: nat
  po_generation :: nat
  po_pending :: nat
  po_n :: nat
  po_shared_lanes :: nat
  po_job :: "'j option"
  po_caller :: "'j caller"
  po_worker :: "nat \<Rightarrow> 'j worker"
  po_ran :: "('j option \<times> nat) list"

definition pool_created :: "nat \<Rightarrow> 'j pool" where
  "pool_created lanes =
     \<lparr>po_lanes = max lanes 1, po_generation = 0, po_pending = 0, po_n = 0, po_shared_lanes = max lanes 1,
      po_job = None, po_caller = Fresh, po_worker = (\<lambda>lane. Waiting 0), po_ran = []\<rparr>"

fun pool_idle :: "'j caller \<Rightarrow> bool" where
  "pool_idle Fresh = True"
| "pool_idle (Returned _ _) = True"
| "pool_idle _ = False"

text \<open>The calling thread: no work or one lane is done inline.\<close>

definition dispatch_inline :: "'j \<Rightarrow> nat \<Rightarrow> 'j pool \<Rightarrow> 'j pool" where
  "dispatch_inline j n s = s\<lparr>po_caller := Returned j n, po_ran := map (\<lambda>i. (Some j, i)) [0..<n]\<rparr>"

definition publish_job :: "'j \<Rightarrow> nat \<Rightarrow> 'j pool \<Rightarrow> 'j pool" where
  "publish_job j n s =
     s\<lparr>po_n := n, po_shared_lanes := po_lanes s, po_job := Some j, po_caller := Published j n, po_ran := []\<rparr>"

definition store_pending :: "'j \<Rightarrow> nat \<Rightarrow> 'j pool \<Rightarrow> 'j pool" where
  "store_pending j n s = s\<lparr>po_pending := po_lanes s - 1, po_caller := Counted j n\<rparr>"

definition bump_generation :: "'j \<Rightarrow> nat \<Rightarrow> 'j pool \<Rightarrow> 'j pool" where
  "bump_generation j n s =
     s\<lparr>po_generation := wrapping_add (po_generation s) 1, po_caller := Running j n (shard 0 (po_lanes s) n)\<rparr>"

definition own_call :: "'j \<Rightarrow> nat \<Rightarrow> nat \<Rightarrow> nat list \<Rightarrow> 'j pool \<Rightarrow> 'j pool" where
  "own_call j n i rest s = s\<lparr>po_ran := po_ran s @ [(Some j, i)], po_caller := Running j n rest\<rparr>"

text \<open>The worker of a lane.\<close>

definition observe_generation :: "nat \<Rightarrow> 'j pool \<Rightarrow> 'j pool" where
  "observe_generation lane s =
     s\<lparr>po_worker := (po_worker s)(lane := Working (po_generation s) (po_job s)
          (if lane < po_shared_lanes s then shard lane (po_shared_lanes s) (po_n s) else []))\<rparr>"

definition worker_call :: "nat \<Rightarrow> nat \<Rightarrow> 'j option \<Rightarrow> nat \<Rightarrow> nat list \<Rightarrow> 'j pool \<Rightarrow> 'j pool" where
  "worker_call lane g job i rest s =
     s\<lparr>po_ran := po_ran s @ [(job, i)], po_worker := (po_worker s)(lane := Working g job rest)\<rparr>"

definition worker_done :: "nat \<Rightarrow> nat \<Rightarrow> 'j pool \<Rightarrow> 'j pool" where
  "worker_done lane g s =
     s\<lparr>po_pending := wrapping_add (po_pending s) u64_max, po_worker := (po_worker s)(lane := Waiting g)\<rparr>"

definition worker_lane :: "'j pool \<Rightarrow> nat \<Rightarrow> bool" where
  "worker_lane s lane \<longleftrightarrow> 1 \<le> lane \<and> lane < po_lanes s"

inductive pool_step :: "'j pool \<Rightarrow> 'j pool \<Rightarrow> bool" where
  inline: "pool_idle (po_caller s) \<Longrightarrow> n = 0 \<or> po_lanes s \<le> 1 \<Longrightarrow> pool_step s (dispatch_inline j n s)"
| publish: "pool_idle (po_caller s) \<Longrightarrow> n \<noteq> 0 \<Longrightarrow> 1 < po_lanes s \<Longrightarrow> pool_step s (publish_job j n s)"
| count: "po_caller s = Published j n \<Longrightarrow> pool_step s (store_pending j n s)"
| bump: "po_caller s = Counted j n \<Longrightarrow> pool_step s (bump_generation j n s)"
| own: "po_caller s = Running j n (i # rest) \<Longrightarrow> pool_step s (own_call j n i rest s)"
| return: "po_caller s = Running j n [] \<Longrightarrow> po_pending s = 0 \<Longrightarrow> pool_step s (s\<lparr>po_caller := Returned j n\<rparr>)"
| observe: "worker_lane s lane \<Longrightarrow> po_worker s lane = Waiting g \<Longrightarrow> po_generation s \<noteq> g \<Longrightarrow>
    pool_step s (observe_generation lane s)"
| work: "worker_lane s lane \<Longrightarrow> po_worker s lane = Working g job (i # rest) \<Longrightarrow>
    pool_step s (worker_call lane g job i rest s)"
| finish: "worker_lane s lane \<Longrightarrow> po_worker s lane = Working g job [] \<Longrightarrow> pool_step s (worker_done lane g s)"

definition pool_reachable :: "nat \<Rightarrow> 'j pool \<Rightarrow> bool" where
  "pool_reachable lanes s \<longleftrightarrow> pool_step\<^sup>*\<^sup>* (pool_created lanes) s"

section \<open>The invariant\<close>

definition calls :: "'j \<Rightarrow> nat list \<Rightarrow> ('j option \<times> nat) multiset" where
  "calls j xs = mset (map (\<lambda>i. (Some j, i)) xs)"

definition left_of :: "'j pool \<Rightarrow> nat \<Rightarrow> nat \<Rightarrow> nat list" where
  "left_of s n lane =
     (case po_worker s lane of
        Waiting g \<Rightarrow> if g = po_generation s then [] else shard lane (po_lanes s) n
      | Working g job todo \<Rightarrow> todo)"

definition busy :: "'j pool \<Rightarrow> nat \<Rightarrow> nat" where
  "busy s lane = (if po_worker s lane = Waiting (po_generation s) then 0 else 1)"

definition all_waiting :: "'j pool \<Rightarrow> bool" where
  "all_waiting s \<longleftrightarrow> (\<forall>lane \<in> {1..<po_lanes s}. po_worker s lane = Waiting (po_generation s))"

definition posted :: "'j \<Rightarrow> nat \<Rightarrow> 'j pool \<Rightarrow> bool" where
  "posted j n s \<longleftrightarrow> po_n s = n \<and> po_shared_lanes s = po_lanes s \<and> po_job s = Some j \<and> 1 < po_lanes s"

definition workers_on :: "'j \<Rightarrow> 'j pool \<Rightarrow> bool" where
  "workers_on j s \<longleftrightarrow> (\<forall>lane \<in> {1..<po_lanes s}. \<forall>g job todo.
     po_worker s lane = Working g job todo \<longrightarrow> g = po_generation s \<and> job = Some j)"

fun phase_ok :: "'j caller \<Rightarrow> 'j pool \<Rightarrow> bool" where
  "phase_ok Fresh s \<longleftrightarrow> all_waiting s"
| "phase_ok (Published j n) s \<longleftrightarrow> all_waiting s \<and> posted j n s \<and> po_ran s = []"
| "phase_ok (Counted j n) s \<longleftrightarrow> all_waiting s \<and> posted j n s \<and> po_ran s = [] \<and> po_pending s = po_lanes s - 1"
| "phase_ok (Running j n rest) s \<longleftrightarrow> posted j n s \<and> workers_on j s \<and>
     mset (po_ran s) + calls j rest + (\<Sum>lane \<in> {1..<po_lanes s}. calls j (left_of s n lane)) = calls j [0..<n] \<and>
     po_pending s = (\<Sum>lane \<in> {1..<po_lanes s}. busy s lane)"
| "phase_ok (Returned j n) s \<longleftrightarrow> all_waiting s \<and> mset (po_ran s) = calls j [0..<n]"

definition pool_ok :: "'j pool \<Rightarrow> bool" where
  "pool_ok s \<longleftrightarrow> 1 \<le> po_lanes s \<and> po_lanes s \<le> u64_max \<and> po_generation s \<le> u64_max \<and> phase_ok (po_caller s) s"

lemma sum_one_changed:
  fixes f f' :: "nat \<Rightarrow> 'a::comm_monoid_add"
  assumes "finite A" "l \<in> A" "\<And>v. v \<in> A \<Longrightarrow> v \<noteq> l \<Longrightarrow> f' v = f v"
  shows "sum f' A + f l = sum f A + f' l"
proof -
  have "sum f' (A - {l}) = sum f (A - {l})" using assms(3) by (intro sum.cong) auto
  then show ?thesis
    using sum.remove [OF assms(1,2), of f] sum.remove [OF assms(1,2), of f'] by (simp add: add_ac)
qed

lemma regroup:
  fixes x y :: "'a multiset"
  assumes "x + b = y + a" "z' + a = z + b" "y + r + z = n"
  shows "x + r + z' = n"
proof -
  have "(x + r + z') + (a + b) = (x + b) + r + (z' + a)" by (simp add: ac_simps)
  also have "\<dots> = (y + r + z) + (a + b)" unfolding assms(1,2) by (simp add: ac_simps)
  finally show ?thesis using assms(3) by simp
qed

lemma calls_simps [simp]:
  "calls j [] = {#}" "calls j (i # xs) = add_mset (Some j, i) (calls j xs)" "calls j (xs @ ys) = calls j xs + calls j ys"
  by (simp_all add: calls_def)

lemma calls_concat: "calls j (concat xss) = (\<Sum>xs \<leftarrow> xss. calls j xs)"
  by (induction xss) simp_all

lemma shards_calls:
  assumes "1 \<le> lanes"
  shows "calls j (shard 0 lanes n) + (\<Sum>lane \<in> {1..<lanes}. calls j (shard lane lanes n)) = calls j [0..<n]"
proof -
  have "calls j [0..<n] = (\<Sum>lane \<leftarrow> [0..<lanes]. calls j (shard lane lanes n))"
    using assms by (simp add: shards_partition [of lanes n, symmetric] calls_concat o_def)
  also have "\<dots> = (\<Sum>lane \<in> {0..<lanes}. calls j (shard lane lanes n))"
    by (simp add: sum_list_distinct_conv_sum_set atLeast0LessThan)
  also have "\<dots> = calls j (shard 0 lanes n) + (\<Sum>lane \<in> {1..<lanes}. calls j (shard lane lanes n))"
    using assms by (simp add: sum.atLeast_Suc_lessThan)
  finally show ?thesis by simp
qed

lemma all_waiting_left:
  assumes "all_waiting s" "lane \<in> {1..<po_lanes s}"
  shows "left_of s n lane = []" "busy s lane = 0"
  using assms by (simp_all add: all_waiting_def left_of_def busy_def)

lemma pool_created_ok: "lanes \<le> u64_max \<Longrightarrow> pool_ok (pool_created lanes)"
  by (simp add: pool_ok_def pool_created_def all_waiting_def u64_max_def)

section \<open>Every step keeps it\<close>

lemma decrement: "0 < p \<Longrightarrow> p \<le> u64_max \<Longrightarrow> wrapping_add p u64_max = p - 1"
  by (cases p) (simp_all add: wrapping_add_def u64_max_def)

lemma increment_differs: "g \<le> u64_max \<Longrightarrow> wrapping_add g 1 \<noteq> g" "wrapping_add g 1 \<le> u64_max"
  by (auto simp: wrapping_add_def u64_max_def mod_Suc)

lemma bump_ok:
  assumes "pool_ok s" "po_caller s = Counted j n"
  shows "pool_ok (bump_generation j n s)"
proof -
  let ?t = "bump_generation j n s"
  from assms have waiting: "all_waiting s" and post: "posted j n s" and ran: "po_ran s = []"
    and pending: "po_pending s = po_lanes s - 1" and gen: "po_generation s \<le> u64_max" and lanes: "1 \<le> po_lanes s"
    by (auto simp: pool_ok_def)
  have fresh: "po_worker ?t lane = Waiting (po_generation s)" "po_generation ?t \<noteq> po_generation s"
    if "lane \<in> {1..<po_lanes s}" for lane
    using waiting that increment_differs(1) [OF gen] by (simp_all add: all_waiting_def bump_generation_def)
  have left: "left_of ?t n lane = shard lane (po_lanes s) n" "busy ?t lane = 1" if "lane \<in> {1..<po_lanes s}" for lane
    using fresh [OF that] by (auto simp: left_of_def busy_def bump_generation_def)
  have "workers_on j ?t" using fresh by (auto simp: workers_on_def bump_generation_def)
  moreover have "posted j n ?t" using post by (simp add: posted_def bump_generation_def)
  moreover have "mset (po_ran ?t) + calls j (shard 0 (po_lanes s) n)
      + (\<Sum>lane \<in> {1..<po_lanes ?t}. calls j (left_of ?t n lane)) = calls j [0..<n]"
    using left(1) shards_calls [OF lanes, of j n] ran by (simp add: bump_generation_def)
  moreover have "po_pending ?t = (\<Sum>lane \<in> {1..<po_lanes ?t}. busy ?t lane)"
    using left(2) pending by (simp add: bump_generation_def)
  ultimately show ?thesis
    using assms(1) increment_differs(2) by (simp add: pool_ok_def bump_generation_def)
qed

text \<open>A step of a worker while a dispatch runs.\<close>

lemma worker_step_ok:
  assumes "pool_ok s" "po_caller s = Running j n rest" "worker_lane s lane"
    and same: "po_lanes t = po_lanes s" "po_generation t = po_generation s" "po_n t = po_n s"
      "po_shared_lanes t = po_shared_lanes s" "po_job t = po_job s" "po_caller t = po_caller s"
      "po_worker t = (po_worker s)(lane := w)"
    and ran: "mset (po_ran t) + calls j (left_of t n lane) = mset (po_ran s) + calls j (left_of s n lane)"
    and pending: "po_pending t + busy s lane = po_pending s + busy t lane"
    and on: "\<And>g job todo. w = Working g job todo \<Longrightarrow> g = po_generation s \<and> job = Some j"
  shows "pool_ok t"
proof -
  let ?A = "{1..<po_lanes s}"
  have lane: "lane \<in> ?A" using assms(3) by (simp add: worker_lane_def)
  have other: "left_of t n v = left_of s n v" "busy t v = busy s v" if "v \<noteq> lane" for v
    using same that by (cases "po_worker s v"; simp add: left_of_def busy_def)+
  from assms(1,2) have inv: "posted j n s" "workers_on j s"
    "mset (po_ran s) + calls j rest + (\<Sum>v \<in> ?A. calls j (left_of s n v)) = calls j [0..<n]"
    "po_pending s = (\<Sum>v \<in> ?A. busy s v)" by (auto simp: pool_ok_def)
  have moved: "(\<Sum>v \<in> ?A. calls j (left_of t n v)) + calls j (left_of s n lane)
      = (\<Sum>v \<in> ?A. calls j (left_of s n v)) + calls j (left_of t n lane)"
    by (rule sum_one_changed) (use lane other in auto)
  have "mset (po_ran t) + calls j rest + (\<Sum>v \<in> ?A. calls j (left_of t n v)) = calls j [0..<n]"
    by (rule regroup [OF ran moved inv(3)])
  moreover have "(\<Sum>v \<in> ?A. busy t v) + busy s lane = (\<Sum>v \<in> ?A. busy s v) + busy t lane"
    by (rule sum_one_changed) (use lane other in auto)
  then have "po_pending t = (\<Sum>v \<in> ?A. busy t v)" using pending inv(4) by simp
  moreover have "posted j n t" using inv(1) same by (simp add: posted_def)
  moreover have "workers_on j t" using inv(2) same on by (auto simp: workers_on_def)
  ultimately show ?thesis using assms(1,2) same by (simp add: pool_ok_def)
qed

lemma worker_only_in_dispatch:
  assumes "pool_ok s" "worker_lane s lane" "po_worker s lane \<noteq> Waiting (po_generation s)"
  obtains j n rest where "po_caller s = Running j n rest"
proof -
  have "\<not> all_waiting s" using assms(2,3) by (auto simp: all_waiting_def worker_lane_def)
  with assms(1) show ?thesis by (cases "po_caller s") (auto simp: pool_ok_def intro: that)
qed

lemma observe_ok:
  assumes "pool_ok s" "worker_lane s lane" "po_worker s lane = Waiting g" "po_generation s \<noteq> g"
  shows "pool_ok (observe_generation lane s)"
proof -
  obtain j n rest where run: "po_caller s = Running j n rest"
    by (rule worker_only_in_dispatch [OF assms(1,2)]) (use assms(3,4) in auto)
  then have post: "posted j n s" using assms(1) by (simp add: pool_ok_def)
  have lane: "lane < po_lanes s" using assms(2) by (simp add: worker_lane_def)
  show ?thesis
    by (rule worker_step_ok [OF assms(1) run assms(2), where w = "Working (po_generation s) (Some j) (shard lane (po_lanes s) n)"])
      (use assms(3,4) post lane in \<open>auto simp: observe_generation_def posted_def left_of_def busy_def\<close>)
qed

lemma worker_call_ok:
  assumes "pool_ok s" "worker_lane s lane" "po_worker s lane = Working g job (i # todo)"
  shows "pool_ok (worker_call lane g job i todo s)"
proof -
  obtain j n rest where run: "po_caller s = Running j n rest"
    by (rule worker_only_in_dispatch [OF assms(1,2)]) (use assms(3) in auto)
  then have on: "g = po_generation s" "job = Some j"
    using assms by (auto simp: pool_ok_def workers_on_def worker_lane_def)
  show ?thesis
    by (rule worker_step_ok [OF assms(1) run assms(2), where w = "Working g job todo"])
      (use assms(3) on in \<open>auto simp: worker_call_def left_of_def busy_def\<close>)
qed

lemma worker_done_ok:
  assumes "pool_ok s" "worker_lane s lane" "po_worker s lane = Working g job []"
  shows "pool_ok (worker_done lane g s)"
proof -
  obtain j n rest where run: "po_caller s = Running j n rest"
    by (rule worker_only_in_dispatch [OF assms(1,2)]) (use assms(3) in auto)
  then have on: "g = po_generation s"
    using assms by (auto simp: pool_ok_def workers_on_def worker_lane_def)
  have lane: "lane \<in> {1..<po_lanes s}" using assms(2) by (simp add: worker_lane_def)
  from assms(1) run have pending: "po_pending s = (\<Sum>v \<in> {1..<po_lanes s}. busy s v)" and lanes: "po_lanes s \<le> u64_max"
    by (auto simp: pool_ok_def)
  have "busy s lane \<le> po_pending s" unfolding pending using lane by (intro member_le_sum) auto
  then have pos: "0 < po_pending s" using assms(3) by (simp add: busy_def)
  have "po_pending s \<le> (\<Sum>v \<in> {1..<po_lanes s}. 1)" unfolding pending by (rule sum_mono) (simp add: busy_def)
  then have "po_pending s \<le> u64_max" using lanes by simp
  with pos have dec: "wrapping_add (po_pending s) u64_max = po_pending s - 1" by (rule decrement)
  show ?thesis
    by (rule worker_step_ok [OF assms(1) run assms(2), where w = "Waiting g"])
      (use assms(3) on dec pos in \<open>auto simp: worker_done_def left_of_def busy_def\<close>)
qed

lemma return_ok:
  assumes "pool_ok s" "po_caller s = Running j n []" "po_pending s = 0"
  shows "pool_ok (s\<lparr>po_caller := Returned j n\<rparr>)"
proof -
  from assms have sum: "(\<Sum>v \<in> {1..<po_lanes s}. busy s v) = 0"
    and ran: "mset (po_ran s) + (\<Sum>v \<in> {1..<po_lanes s}. calls j (left_of s n v)) = calls j [0..<n]"
    by (auto simp: pool_ok_def)
  then have waiting: "all_waiting s"
    by (auto simp: all_waiting_def busy_def split: if_splits)
  then have "(\<Sum>v \<in> {1..<po_lanes s}. calls j (left_of s n v)) = {#}"
    by (intro sum.neutral ballI) (simp add: all_waiting_left(1))
  with ran waiting assms(1) show ?thesis by (simp add: pool_ok_def all_waiting_def)
qed

lemma pool_step_ok: "pool_step s t \<Longrightarrow> pool_ok s \<Longrightarrow> pool_ok t"
proof (induction rule: pool_step.induct)
  case (inline s n j)
  then show ?case
    by (cases "po_caller s") (auto simp: pool_ok_def dispatch_inline_def all_waiting_def calls_def)
next
  case (publish s n j)
  then show ?case
    by (cases "po_caller s") (auto simp: pool_ok_def publish_job_def all_waiting_def posted_def)
next
  case (count s j n)
  then show ?case by (auto simp: pool_ok_def store_pending_def all_waiting_def posted_def)
next
  case (own s j n i rest)
  have "left_of (own_call j n i rest s) n = left_of s n" "busy (own_call j n i rest s) = busy s"
    by (auto simp: fun_eq_iff left_of_def busy_def own_call_def split: worker.split)
  with own show ?case by (auto simp: pool_ok_def posted_def workers_on_def own_call_def)
qed (blast intro: bump_ok return_ok observe_ok worker_call_ok worker_done_ok)+

lemma reachable_pool_ok:
  assumes "pool_reachable lanes s" "lanes \<le> u64_max"
  shows "pool_ok s"
proof -
  from assms(1) have "pool_step\<^sup>*\<^sup>* (pool_created lanes) s" by (simp add: pool_reachable_def)
  then show ?thesis
    by (induction rule: rtranclp_induct) (auto intro: pool_created_ok [OF assms(2)] pool_step_ok)
qed

section \<open>What a dispatch does\<close>

text \<open>
  C7: when a dispatch returns, the job it was given was called for every index below its count exactly
  once, whatever the interleaving of the caller and the workers and whatever dispatches came before.
\<close>

theorem dispatch_runs_every_index_once:
  assumes "pool_reachable lanes s" "lanes \<le> u64_max" "po_caller s = Returned j n"
  shows "mset (po_ran s) = mset (map (\<lambda>i. (Some j, i)) [0..<n])"
  using reachable_pool_ok [OF assms(1,2)] assms(3) by (simp add: pool_ok_def calls_def)

text \<open>
  C8: a worker holds a job only while the dispatch that posted it has not returned: no worker touches
  the closure after its lifetime, and none runs with the pointer of an earlier dispatch or the null
  pointer.
\<close>

theorem workers_hold_live_jobs:
  assumes "pool_reachable lanes s" "lanes \<le> u64_max" "worker_lane s lane" "po_worker s lane = Working g job todo"
  shows "\<exists>j n rest. po_caller s = Running j n rest \<and> job = Some j \<and> g = po_generation s"
proof -
  have ok: "pool_ok s" using reachable_pool_ok assms(1,2) by blast
  obtain j n rest where run: "po_caller s = Running j n rest"
    by (rule worker_only_in_dispatch [OF ok assms(3)]) (use assms(4) in auto)
  with ok assms(3,4) show ?thesis by (auto simp: pool_ok_def workers_on_def worker_lane_def)
qed

text \<open>The steps left until the dispatch returns.\<close>

definition worker_weight :: "'j pool \<Rightarrow> nat \<Rightarrow> nat \<Rightarrow> nat" where
  "worker_weight s n lane = (if po_worker s lane = Waiting (po_generation s) then 0
     else case po_worker s lane of Waiting g \<Rightarrow> 2 + length (shard lane (po_lanes s) n) | Working g job todo \<Rightarrow> 1 + length todo)"

definition shards_weight :: "nat \<Rightarrow> nat \<Rightarrow> nat" where
  "shards_weight lanes n = 1 + length (shard 0 lanes n) + (\<Sum>lane \<in> {1..<lanes}. 2 + length (shard lane lanes n))"

definition steps_left :: "'j pool \<Rightarrow> nat" where
  "steps_left s =
     (case po_caller s of
        Published j n \<Rightarrow> shards_weight (po_lanes s) n + 2
      | Counted j n \<Rightarrow> shards_weight (po_lanes s) n + 1
      | Running j n rest \<Rightarrow> 1 + length rest + (\<Sum>lane \<in> {1..<po_lanes s}. worker_weight s n lane)
      | _ \<Rightarrow> 0)"

lemma steps_left_worker:
  assumes "po_caller s = Running j n rest" "worker_lane s lane"
    and "po_lanes t = po_lanes s" "po_generation t = po_generation s" "po_caller t = po_caller s"
    and "po_worker t = (po_worker s)(lane := w)" "worker_weight t n lane < worker_weight s n lane"
  shows "steps_left t < steps_left s"
proof -
  let ?A = "{1..<po_lanes s}"
  have "worker_weight t n v = worker_weight s n v" if "v \<noteq> lane" for v
    using assms(3,4,6) that by (cases "po_worker s v") (simp_all add: worker_weight_def)
  then have "(\<Sum>v \<in> ?A. worker_weight t n v) + worker_weight s n lane = (\<Sum>v \<in> ?A. worker_weight s n v) + worker_weight t n lane"
    using assms(2) by (intro sum_one_changed) (auto simp: worker_lane_def)
  then show ?thesis using assms(1,3,5,7) by (simp add: steps_left_def)
qed

lemma step_decreases:
  assumes "pool_step s t" "pool_ok s" "\<not> pool_idle (po_caller s)"
  shows "steps_left t < steps_left s"
  using assms
proof (induction rule: pool_step.induct)
  case (bump s j n)
  let ?t = "bump_generation j n s"
  from bump have waiting: "all_waiting s" and gen: "po_generation s \<le> u64_max" by (auto simp: pool_ok_def)
  have "worker_weight ?t n lane = 2 + length (shard lane (po_lanes s) n)" if "lane \<in> {1..<po_lanes s}" for lane
    using waiting that increment_differs(1) [OF gen]
    by (auto simp: worker_weight_def all_waiting_def bump_generation_def)
  then have "(\<Sum>lane \<in> {1..<po_lanes s}. worker_weight ?t n lane) = (\<Sum>lane \<in> {1..<po_lanes s}. 2 + length (shard lane (po_lanes s) n))"
    by (rule sum.cong [OF refl])
  then show ?case using bump by (simp add: steps_left_def shards_weight_def bump_generation_def)
next
  case (own s j n i rest)
  have "worker_weight (own_call j n i rest s) n = worker_weight s n"
    by (auto simp: fun_eq_iff worker_weight_def own_call_def split: worker.split)
  with own show ?case by (simp add: steps_left_def own_call_def)
next
  case (observe s lane g)
  obtain j n rest where run: "po_caller s = Running j n rest"
    by (rule worker_only_in_dispatch [OF observe(4,1)]) (use observe in auto)
  then have "posted j n s" using observe by (simp add: pool_ok_def)
  then show ?case
    using observe by (intro steps_left_worker [OF run observe(1)])
      (auto simp: observe_generation_def worker_weight_def posted_def)
next
  case (work s lane g job i rest)
  obtain j n todo where run: "po_caller s = Running j n todo"
    by (rule worker_only_in_dispatch [OF work(3,1)]) (use work in auto)
  show ?case
    using work by (intro steps_left_worker [OF run work(1)]) (auto simp: worker_call_def worker_weight_def)
next
  case (finish s lane g job)
  obtain j n todo where run: "po_caller s = Running j n todo"
    by (rule worker_only_in_dispatch [OF finish(3,1)]) (use finish in auto)
  then have "g = po_generation s" using finish by (auto simp: pool_ok_def workers_on_def worker_lane_def)
  then show ?case
    using finish by (intro steps_left_worker [OF run finish(1)]) (auto simp: worker_done_def worker_weight_def)
qed (simp_all add: steps_left_def store_pending_def)

lemma step_possible:
  assumes "pool_ok s" "\<not> pool_idle (po_caller s)"
  shows "\<exists>t. pool_step s t"
proof (cases "po_caller s")
  case (Running j n rest)
  show ?thesis
  proof (cases rest)
    case Nil
    show ?thesis
    proof (cases "\<exists>lane \<in> {1..<po_lanes s}. po_worker s lane \<noteq> Waiting (po_generation s)")
      case True
      then obtain lane where lane: "worker_lane s lane" "po_worker s lane \<noteq> Waiting (po_generation s)"
        by (auto simp: worker_lane_def)
      show ?thesis
      proof (cases "po_worker s lane")
        case (Waiting g)
        with lane show ?thesis by (metis pool_step.observe)
      next
        case (Working g job todo)
        with lane show ?thesis by (cases todo) (metis pool_step.finish, metis pool_step.work)
      qed
    next
      case False
      then have "po_pending s = 0" using assms(1) Running by (simp add: pool_ok_def busy_def)
      with Running Nil show ?thesis by (metis pool_step.return)
    qed
  qed (use Running in \<open>metis pool_step.own\<close>)
qed (use assms(2) in \<open>auto intro: pool_step.count pool_step.bump\<close>)

text \<open>
  C37: no wake-up is lost and no count is left behind: while a dispatch has not returned some thread can
  take a step, and every step brings the return nearer, so that every dispatch returns.
\<close>

theorem dispatch_returns:
  assumes "pool_reachable lanes s" "lanes \<le> u64_max" "\<not> pool_idle (po_caller s)"
  shows "(\<exists>t. pool_step s t) \<and> (\<forall>t. pool_step s t \<longrightarrow> steps_left t < steps_left s)"
  using step_possible step_decreases reachable_pool_ok [OF assms(1,2)] assms(3) by blast

section \<open>Two lanes, three indices\<close>

definition two_lanes :: "nat \<Rightarrow> string pool" where
  "two_lanes k =
     (let s0 = pool_created 2; s1 = publish_job ''job'' 3 s0; s2 = store_pending ''job'' 3 s1;
          s3 = bump_generation ''job'' 3 s2; s4 = observe_generation 1 s3;
          s5 = own_call ''job'' 3 0 [1] s4; s6 = worker_call 1 1 (Some ''job'') 2 [] s5;
          s7 = own_call ''job'' 3 1 [] s6; s8 = worker_done 1 1 s7; s9 = s8\<lparr>po_caller := Returned ''job'' 3\<rparr>
      in [s0, s1, s2, s3, s4, s5, s6, s7, s8, s9] ! k)"

lemma two_shards: "shard 0 2 3 = [0, 1]" "shard 0 (Suc (Suc 0)) 3 = [0, 1]" "shard 1 2 3 = [2]" "shard (Suc 0) 2 3 = [2]" "shard (Suc 0) (Suc (Suc 0)) 3 = [2]"
  by code_simp+

lemmas two_lanes_eval = two_lanes_def pool_created_def publish_job_def store_pending_def bump_generation_def
  observe_generation_def own_call_def worker_call_def worker_done_def two_shards wrapping_add_def u64_max_def Let_def

lemma two_lanes_step: "k < 9 \<Longrightarrow> pool_step (two_lanes k) (two_lanes (Suc k))"
proof -
  assume "k < 9"
  then consider "k = 0" | "k = 1" | "k = 2" | "k = 3" | "k = 4" | "k = 5" | "k = 6" | "k = 7" | "k = 8" by linarith
  then show ?thesis
  proof cases
    case 1
    have "pool_step (pool_created 2 :: string pool) (publish_job ''job'' 3 (pool_created 2))"
      by (rule pool_step.publish) (simp_all add: pool_created_def)
    then show ?thesis using 1 by (simp add: two_lanes_def Let_def)
  next
    case 2
    have "pool_step (two_lanes 1) (store_pending ''job'' 3 (two_lanes 1))"
      by (rule pool_step.count) (simp add: two_lanes_eval)
    then show ?thesis using 2 by (simp add: two_lanes_def Let_def numeral_eq_Suc)
  next
    case 3
    have "pool_step (two_lanes 2) (bump_generation ''job'' 3 (two_lanes 2))"
      by (rule pool_step.bump) (simp add: two_lanes_eval)
    then show ?thesis using 3 by (simp add: two_lanes_def Let_def numeral_eq_Suc)
  next
    case 4
    have "pool_step (two_lanes 3) (observe_generation 1 (two_lanes 3))"
      by (rule pool_step.observe [where g = 0]) (simp_all add: two_lanes_eval worker_lane_def)
    then show ?thesis using 4 by (simp add: two_lanes_def Let_def numeral_eq_Suc)
  next
    case 5
    have "pool_step (two_lanes 4) (own_call ''job'' 3 0 [1] (two_lanes 4))"
      by (rule pool_step.own) (simp add: two_lanes_eval upt_rec)
    then show ?thesis using 5 by (simp add: two_lanes_def Let_def numeral_eq_Suc)
  next
    case 6
    have "pool_step (two_lanes 5) (worker_call 1 1 (Some ''job'') 2 [] (two_lanes 5))"
      by (rule pool_step.work) (simp_all add: two_lanes_eval worker_lane_def upt_rec)
    then show ?thesis using 6 by (simp add: two_lanes_def Let_def numeral_eq_Suc)
  next
    case 7
    have "pool_step (two_lanes 6) (own_call ''job'' 3 1 [] (two_lanes 6))"
      by (rule pool_step.own) (simp add: two_lanes_eval)
    then show ?thesis using 7 by (simp add: two_lanes_def Let_def numeral_eq_Suc)
  next
    case 8
    have "pool_step (two_lanes 7) (worker_done 1 1 (two_lanes 7))"
      by (rule pool_step.finish) (simp_all add: two_lanes_eval worker_lane_def)
    then show ?thesis using 8 by (simp add: two_lanes_def Let_def numeral_eq_Suc)
  next
    case 9
    have "pool_step (two_lanes 8) ((two_lanes 8)\<lparr>po_caller := Returned ''job'' 3\<rparr>)"
      by (rule pool_step.return) (simp_all add: two_lanes_eval)
    then show ?thesis using 9 by (simp add: two_lanes_def Let_def numeral_eq_Suc)
  qed
qed

lemma two_lanes_reachable: "k \<le> 9 \<Longrightarrow> pool_reachable 2 (two_lanes k)"
proof (induction k)
  case 0
  then show ?case by (simp add: pool_reachable_def two_lanes_def Let_def)
next
  case (Suc k)
  then show ?case using two_lanes_step [of k] by (simp add: pool_reachable_def)
qed

lemma dispatch_runs_every_index_once_witness:
  "mset (po_ran (two_lanes 9)) = {#(Some ''job'', 0), (Some ''job'', 1), (Some ''job'', 2)#}"
proof -
  have "po_caller (two_lanes 9) = Returned ''job'' 3" by (simp add: two_lanes_def Let_def)
  from dispatch_runs_every_index_once [OF two_lanes_reachable _ this] show ?thesis
    by (simp add: u64_max_def upt_rec)
qed

lemma workers_hold_live_jobs_witness:
  "\<exists>n rest. po_worker (two_lanes 4) 1 = Working 1 (Some ''job'') [2] \<and> po_caller (two_lanes 4) = Running ''job'' n rest"
proof -
  have w: "po_worker (two_lanes 4) 1 = Working 1 (Some ''job'') [2]" by (simp add: two_lanes_eval upt_rec)
  moreover have "worker_lane (two_lanes 4) 1" by (simp add: worker_lane_def two_lanes_eval)
  ultimately show ?thesis
    using workers_hold_live_jobs [OF two_lanes_reachable, of 4 1 1] by (auto simp: u64_max_def)
qed

lemma dispatch_returns_witness: "\<exists>t. pool_step (two_lanes 3) t \<and> steps_left t < steps_left (two_lanes 3)"
proof -
  have "\<not> pool_idle (po_caller (two_lanes 3))" by (simp add: two_lanes_eval)
  from dispatch_returns [OF two_lanes_reachable _ this] show ?thesis by (auto simp: u64_max_def)
qed

end
