(* ===== verification/Params.thy ===== *)
theory Params
  imports Placement CudaConfig Generation
begin

text \<open>
  The parameters file (\<^verbatim>\<open>aegisllm/src/params\<close>): its sections as the JSON reader delivers
  them and their translation into a placement policy, a CUDA configuration, sampling defaults and a
  server configuration. Paths are strings, the environment is an argument, an absent field is
  \<open>None\<close>; the fields the translation never reads are left out.
\<close>

section \<open>The sections\<close>

record layer_section =
  ly_store :: "string option"
  ly_compute :: "string option"

record attention_section =
  at_mechanism :: "string option"
  at_store :: "string option"
  at_compute :: "string option"
  at_compute_quantization :: "string option"

record range_section =
  ra_start :: nat
  ra_end :: nat
  ra_store :: "string option"
  ra_compute :: "string option"

record weights_section =
  we_number :: "nat option"
  we_store :: "string option"
  we_compute :: "string option"
  we_fallback_store :: "string option"
  we_fallback_compute :: "string option"

record kv_cache_section =
  ks_number :: "nat option"
  ks_context_size :: "nat option"
  ks_store :: "string option"
  ks_fallback_store :: "string option"
  ks_type_k :: "string option"
  ks_type_v :: "string option"

record hidden_layers_section =
  hl_compute :: "string option"
  hl_store :: "string option"
  hl_weights :: "weights_section option"
  hl_experts :: "layer_section option"
  hl_kv_cache :: "kv_cache_section option"
  hl_ranges :: "range_section list option"

record other_section =
  ot_temperature :: "f32 option"
  ot_top_p :: "f32 option"
  ot_top_k :: "nat option"
  ot_min_p :: "f32 option"
  ot_batch_size :: "nat option"
  ot_ubatch_size :: "nat option"
  ot_flash_attention :: "bool option"

record model_section =
  mo_path :: string
  mo_store :: "string option"
  mo_compute :: "string option"
  mo_mmap :: "bool option"
  mo_input_layer :: "layer_section option"
  mo_output_layer :: "layer_section option"
  mo_attention :: "attention_section option"
  mo_hidden_layers :: "hidden_layers_section option"
  mo_other :: "other_section option"

record draft_section =
  dr_model :: model_section
  dr_num_draft_tokens :: "nat option"

record cuda_section =
  cu_device :: "nat option"
  cs_native_mxfp4_repack :: "bool option"
  cs_cutlass_nvfp4_repack :: "bool option"
  cs_native_mxfp4_inference :: "bool option"
  cs_prefill_attention :: "string option"
  cs_prefill_chunk_size :: "nat option"
  cs_prefill_stage_timings :: "bool option"

record server_section =
  sv_host :: "string option"
  sv_port :: "nat option"
  sv_server_api :: "string option"
  sv_api_keys :: "string list option"

record parameters_file =
  pf_server :: "server_section option"
  pf_model :: model_section
  pf_draft :: "draft_section option"
  pf_cuda :: "cuda_section option"

record engine_config_fragment =
  ef_model_path :: string
  ef_policy :: placement_policy
  ef_cuda :: cuda_runtime_config
  ef_generation :: sampling_config
  ef_draft_model :: "string option"
  ef_num_draft_tokens :: nat

record serve_config =
  sc_host :: string
  sc_port :: nat
  sc_api :: string
  sc_api_keys :: "string list"
  sc_engine :: engine_config_fragment

section \<open>Placements as text\<close>

text \<open>\<^verbatim>\<open>trim_start_matches\<close> of a pattern that is not empty: every leading occurrence of it.\<close>

function trim_start_matches :: "string \<Rightarrow> string \<Rightarrow> string" where
  "trim_start_matches p s =
     (if p = [] then s
      else case strip_prefix p s of Some rest \<Rightarrow> trim_start_matches p rest | None \<Rightarrow> s)"
  by pat_completeness auto
termination
  by (relation "measure (\<lambda>(p, s). length s)") (auto simp: strip_prefix_def prefix_def split: if_splits)

declare trim_start_matches.simps [simp del]

definition parse_storage :: "string \<Rightarrow> nat \<Rightarrow> storage_placement aegis_result" where
  "parse_storage value default_device =
     (let other = to_ascii_lowercase value
      in if other = ''ram'' then Inr Ram
         else if other = ''mmap'' then Inr Mmap
         else if other = ''vram'' \<or> other = ''gpu'' then Inr (Vram default_device)
         else if starts_with ''vram:'' other
         then (case parse_usize (trim_start_matches ''vram:'' other) of
                 Some device \<Rightarrow> Inr (Vram device)
               | None \<Rightarrow> Inl (InvalidConfig (''invalid storage `'' @ value @ ''`'')))
         else Inl (InvalidConfig (''unsupported storage placement `'' @ value @ ''` (use `ram`, `mmap`, or `vram`)'')))"

definition parse_compute :: "string \<Rightarrow> nat \<Rightarrow> compute_placement aegis_result" where
  "parse_compute value default_device =
     (let other = to_ascii_lowercase value
      in if other = ''cpu'' then Inr Cpu
         else if other = ''cuda'' \<or> other = ''gpu'' then Inr (Cuda default_device)
         else if other = ''wgpu'' then Inr (Wgpu default_device)
         else if starts_with ''cuda:'' other
         then (case parse_usize (trim_start_matches ''cuda:'' other) of
                 Some device \<Rightarrow> Inr (Cuda device)
               | None \<Rightarrow> Inl (InvalidConfig (''invalid compute `'' @ value @ ''`'')))
         else if starts_with ''wgpu:'' other
         then (case parse_usize (trim_start_matches ''wgpu:'' other) of
                 Some device \<Rightarrow> Inr (Wgpu device)
               | None \<Rightarrow> Inl (InvalidConfig (''invalid compute `'' @ value @ ''`'')))
         else Inl (InvalidConfig (''unsupported compute placement `'' @ value @ ''`'')))"

fun show_storage :: "storage_placement \<Rightarrow> string" where
  "show_storage Ram = ''ram''"
| "show_storage Mmap = ''mmap''"
| "show_storage (Vram device) = ''vram:'' @ show_nat device"

fun show_compute :: "compute_placement \<Rightarrow> string" where
  "show_compute Cpu = ''cpu''"
| "show_compute (Cuda device) = ''cuda:'' @ show_nat device"
| "show_compute (Wgpu device) = ''wgpu:'' @ show_nat device"

text \<open>\<^verbatim>\<open>.as_deref().map(parse).transpose()?\<close>\<close>

definition parse_opt :: "(string \<Rightarrow> nat \<Rightarrow> 'a aegis_result) \<Rightarrow> nat \<Rightarrow> string option \<Rightarrow> 'a option aegis_result" where
  "parse_opt parse device v =
     (case v of None \<Rightarrow> Inr None | Some s \<Rightarrow> map_sum id Some (parse s device))"

section \<open>Another default device\<close>

fun retarget_store :: "storage_placement \<Rightarrow> nat \<Rightarrow> storage_placement" where
  "retarget_store (Vram _) device = Vram device"
| "retarget_store other device = other"

fun retarget_compute :: "compute_placement \<Rightarrow> nat \<Rightarrow> compute_placement" where
  "retarget_compute (Cuda _) device = Cuda device"
| "retarget_compute other device = other"

definition retarget_rule :: "nat \<Rightarrow> placement_rule \<Rightarrow> placement_rule" where
  "retarget_rule device rule =
     rule\<lparr>ru_store := map_option (\<lambda>s. retarget_store s device) (ru_store rule),
          ru_compute := map_option (\<lambda>c. retarget_compute c device) (ru_compute rule)\<rparr>"

definition retarget_cuda_policy :: "placement_policy \<Rightarrow> nat \<Rightarrow> placement_policy" where
  "retarget_cuda_policy policy device =
     policy\<lparr>pp_weights_store := retarget_store (pp_weights_store policy) device,
            pp_spill_store := retarget_store (pp_spill_store policy) device,
            pp_kv_store := retarget_store (pp_kv_store policy) device,
            pp_weights_compute := retarget_compute (pp_weights_compute policy) device,
            pp_spill_compute := retarget_compute (pp_spill_compute policy) device,
            pp_kv_compute := retarget_compute (pp_kv_compute policy) device,
            pp_experts_compute_override := map_option (\<lambda>c. retarget_compute c device) (pp_experts_compute_override policy),
            pp_experts_store_override := map_option (\<lambda>s. retarget_store s device) (pp_experts_store_override policy),
            pp_rules := map (retarget_rule device) (pp_rules policy)\<rparr>"

section \<open>The translation, section by section\<close>

text \<open>The result says, too, whether the file chose the attention kernel itself.\<close>

definition apply_cuda_section ::
  "cuda_section option \<Rightarrow> cuda_runtime_config \<Rightarrow> (cuda_runtime_config \<times> bool) aegis_result" where
  "apply_cuda_section cuda cfg =
     (case cuda of
        None \<Rightarrow> Inr (cfg, False)
      | Some cuda \<Rightarrow>
         (let cfg = cfg\<lparr>cu_native_mxfp4_repack := unwrap_or (cs_native_mxfp4_repack cuda) (cu_native_mxfp4_repack cfg),
                        cu_cutlass_nvfp4_repack := unwrap_or (cs_cutlass_nvfp4_repack cuda) (cu_cutlass_nvfp4_repack cfg),
                        cu_native_mxfp4_inference := unwrap_or (cs_native_mxfp4_inference cuda) (cu_native_mxfp4_inference cfg)\<rparr>;
              rest = (\<lambda>cfg. cfg\<lparr>cu_prefill_chunk_size := (case cs_prefill_chunk_size cuda of
                                    Some v \<Rightarrow> Some v | None \<Rightarrow> cu_prefill_chunk_size cfg),
                        cu_prefill_stage_timings := unwrap_or (cs_prefill_stage_timings cuda) (cu_prefill_stage_timings cfg)\<rparr>)
          in case cs_prefill_attention cuda of
               None \<Rightarrow> Inr (rest cfg, False)
             | Some value \<Rightarrow> res_bind (prefill_kernel_parse value)
                 (\<lambda>kernel. Inr (rest (cfg\<lparr>cu_prefill_attention := kernel\<rparr>), True))))"

definition apply_model_defaults :: "model_section \<Rightarrow> nat \<Rightarrow> placement_policy \<Rightarrow> placement_policy aegis_result" where
  "apply_model_defaults model device policy =
     (let mmap_enabled = unwrap_or (mo_mmap model) True in
      res_bind (parse_opt parse_storage device (mo_store model)) (\<lambda>model_store.
      res_bind (parse_opt parse_compute device (mo_compute model)) (\<lambda>model_compute.
       let policy =
             (case model_store of
                Some store \<Rightarrow> policy\<lparr>pp_weights_store := store, pp_spill_store := store, pp_kv_store := store\<rparr>
              | None \<Rightarrow>
                  if \<not> mmap_enabled \<and> pp_weights_store policy = Mmap
                  then policy\<lparr>pp_weights_store := Ram, pp_spill_store := Ram\<rparr> else policy)
       in Inr (case model_compute of
                 Some compute \<Rightarrow> policy\<lparr>pp_weights_compute := compute, pp_spill_compute := compute, pp_kv_compute := compute\<rparr>
               | None \<Rightarrow> policy))))"

definition push_rule :: "layer_selector \<Rightarrow> storage_placement option \<Rightarrow> compute_placement option \<Rightarrow> placement_policy \<Rightarrow> placement_policy" where
  "push_rule selector store compute policy =
     (if store = None \<and> compute = None then policy
      else policy\<lparr>pp_rules := pp_rules policy @ [\<lparr>ru_selector = selector, ru_store = store, ru_compute = compute\<rparr>]\<rparr>)"

text \<open>\<^verbatim>\<open>input-layer\<close> and \<^verbatim>\<open>output-layer\<close>.\<close>

definition apply_bookend :: "string \<Rightarrow> layer_section option \<Rightarrow> nat \<Rightarrow> placement_policy \<Rightarrow> placement_policy aegis_result" where
  "apply_bookend region section device policy =
     (case section of
        None \<Rightarrow> Inr policy
      | Some s \<Rightarrow>
          res_bind (parse_opt parse_storage device (ly_store s)) (\<lambda>store.
          res_bind (parse_opt parse_compute device (ly_compute s)) (\<lambda>compute.
            Inr (push_rule (OfRegion region) store compute policy))))"

definition apply_attention ::
  "attention_section option \<Rightarrow> nat \<Rightarrow> cuda_runtime_config \<times> bool \<Rightarrow> placement_policy
     \<Rightarrow> ((cuda_runtime_config \<times> bool) \<times> placement_policy) aegis_result" where
  "apply_attention section device cfg policy =
     (case section of
        None \<Rightarrow> Inr (cfg, policy)
      | Some attn \<Rightarrow>
          res_bind (case at_mechanism attn of
                      None \<Rightarrow> Inr cfg
                    | Some mech \<Rightarrow> res_bind (prefill_kernel_parse mech)
                        (\<lambda>kernel. Inr ((fst cfg)\<lparr>cu_prefill_attention := kernel\<rparr>, True))) (\<lambda>cfg.
          res_bind (case at_store attn of
                      None \<Rightarrow> Inr policy
                    | Some store \<Rightarrow> res_bind (parse_storage store device)
                        (\<lambda>s. Inr (policy\<lparr>pp_attention_store_override := Some s\<rparr>))) (\<lambda>policy.
          res_bind (case at_compute attn of
                      None \<Rightarrow> Inr policy
                    | Some compute \<Rightarrow> res_bind (parse_compute compute device)
                        (\<lambda>c. Inr (policy\<lparr>pp_attention_compute_override := Some c\<rparr>))) (\<lambda>policy.
          res_bind (case at_compute_quantization attn of
                      None \<Rightarrow> Inr cfg
                    | Some q \<Rightarrow> res_bind (compute_quant_parse q)
                        (\<lambda>q. Inr ((fst cfg)\<lparr>cu_attention_compute_quant := q\<rparr>, snd cfg))) (\<lambda>cfg.
            Inr (cfg, policy))))))"

definition apply_weights ::
  "compute_placement option \<Rightarrow> weights_section option \<Rightarrow> nat \<Rightarrow> placement_policy \<Rightarrow> placement_policy aegis_result" where
  "apply_weights parent_compute section device policy =
     (case section of
        None \<Rightarrow> Inr policy
      | Some weights \<Rightarrow>
          res_bind (parse_opt parse_storage device (we_store weights)) (\<lambda>primary_store.
          res_bind (parse_opt parse_compute device (we_compute weights)) (\<lambda>own_compute.
          let primary_compute = (case own_compute of Some c \<Rightarrow> Some c | None \<Rightarrow> parent_compute) in
          res_bind (parse_opt parse_storage device (we_fallback_store weights)) (\<lambda>fallback_store.
          res_bind (parse_opt parse_compute device (we_fallback_compute weights)) (\<lambda>fallback_compute.
            let policy = policy\<lparr>pp_weights_store := unwrap_or fallback_store (pp_weights_store policy),
                                pp_weights_compute := unwrap_or fallback_compute (pp_weights_compute policy)\<rparr>;
                selector = (case we_number weights of Some n \<Rightarrow> FirstN n | None \<Rightarrow> All)
            in Inr (push_rule selector primary_store primary_compute policy))))))"

fun apply_ranges ::
  "compute_placement option \<Rightarrow> range_section list \<Rightarrow> nat \<Rightarrow> placement_policy \<Rightarrow> placement_policy aegis_result" where
  "apply_ranges parent_compute [] device policy = Inr policy"
| "apply_ranges parent_compute (r # rs) device policy =
     (if ra_end r \<le> ra_start r
      then Inl (InvalidConfig (''hidden-layers.ranges entry has end ('' @ show_nat (ra_end r) @ '') <= start (''
             @ show_nat (ra_start r) @ ''); ranges are half-open [start, end)''))
      else
       res_bind (parse_opt parse_storage device (ra_store r)) (\<lambda>store.
       res_bind (parse_opt parse_compute device (ra_compute r)) (\<lambda>own_compute.
        let compute = (case own_compute of Some c \<Rightarrow> Some c | None \<Rightarrow> parent_compute) in
        if store = None \<and> compute = None
        then Inl (InvalidConfig (''hidden-layers.ranges entry ['' @ show_nat (ra_start r) @ '', '' @ show_nat (ra_end r)
               @ '') sets neither store nor compute (and no hidden-layers.compute fallback); nothing to apply''))
        else apply_ranges parent_compute rs device (push_rule (Range (ra_start r) (ra_end r)) store compute policy))))"

definition apply_experts ::
  "compute_placement option \<Rightarrow> layer_section option \<Rightarrow> nat \<Rightarrow> placement_policy \<Rightarrow> placement_policy aegis_result" where
  "apply_experts parent_compute section device policy =
     (case section of
        None \<Rightarrow> Inr policy
      | Some experts \<Rightarrow>
          res_bind (parse_opt parse_compute device (ly_compute experts)) (\<lambda>own_compute.
          res_bind (parse_opt parse_storage device (ly_store experts)) (\<lambda>experts_store.
            Inr (policy\<lparr>pp_experts_compute_override := (case own_compute of Some c \<Rightarrow> Some c | None \<Rightarrow> parent_compute),
                        pp_experts_store_override := experts_store\<rparr>))))"

definition kv_tiers ::
  "nat option \<Rightarrow> storage_placement option \<Rightarrow> storage_placement option \<Rightarrow> placement_policy \<Rightarrow> placement_policy aegis_result" where
  "kv_tiers number primary_store fallback_store policy =
     (case (number, primary_store) of
        (Some n, Some first) \<Rightarrow>
          Inr (policy\<lparr>pp_kv_first_n_layers := Some n, pp_kv_first_store := Some first,
                      pp_kv_store := unwrap_or fallback_store (pp_kv_store policy)\<rparr>)
      | (None, Some store) \<Rightarrow>
          Inr (policy\<lparr>pp_kv_store := store, pp_kv_first_n_layers := None, pp_kv_first_store := None\<rparr>)
      | (Some _, None) \<Rightarrow> Inl (InvalidConfig ''hidden-layers.kv-cache.number set but `store` missing'')
      | (None, None) \<Rightarrow> Inr policy)"

definition apply_kv_cache :: "kv_cache_section option \<Rightarrow> nat \<Rightarrow> placement_policy \<Rightarrow> placement_policy aegis_result" where
  "apply_kv_cache section device policy =
     (case section of
        None \<Rightarrow> Inr policy
      | Some kv \<Rightarrow>
          (let policy = policy\<lparr>pp_context_size := unwrap_or (ks_context_size kv) (pp_context_size policy)\<rparr> in
          res_bind (parse_opt parse_storage device (ks_store kv)) (\<lambda>primary_store.
          res_bind (parse_opt parse_storage device (ks_fallback_store kv)) (\<lambda>fallback_store.
          res_bind (case (case ks_type_k kv of Some v \<Rightarrow> Some v | None \<Rightarrow> ks_type_v kv) of
                      None \<Rightarrow> Inr policy
                    | Some value \<Rightarrow>
                        (case kv_quant_parse value of
                           None \<Rightarrow> Inl (InvalidConfig (''unsupported kv cache quantization `'' @ value @ ''`''))
                         | Some q \<Rightarrow> Inr (policy\<lparr>pp_kv_quantization := q\<rparr>))) (\<lambda>policy.
            kv_tiers (ks_number kv) primary_store fallback_store policy)))))"

definition apply_hidden_layers :: "hidden_layers_section option \<Rightarrow> nat \<Rightarrow> placement_policy \<Rightarrow> placement_policy aegis_result" where
  "apply_hidden_layers section device policy =
     (case section of
        None \<Rightarrow> Inr policy
      | Some hidden \<Rightarrow>
          res_bind (parse_opt parse_compute device (hl_compute hidden)) (\<lambda>parent_compute.
          res_bind (parse_opt parse_storage device (hl_store hidden)) (\<lambda>parent_store.
          res_bind (apply_weights parent_compute (hl_weights hidden) device
                      (if hl_weights hidden = None
                       then push_rule (Range 0 u64_max) parent_store parent_compute policy else policy)) (\<lambda>policy.
          res_bind (apply_ranges parent_compute (unwrap_or (hl_ranges hidden) []) device policy) (\<lambda>policy.
          res_bind (apply_experts parent_compute (hl_experts hidden) device policy) (\<lambda>policy.
            apply_kv_cache (hl_kv_cache hidden) device policy))))))"

definition fp8_needs_fp8_cache :: "cuda_runtime_config \<Rightarrow> placement_policy \<Rightarrow> unit aegis_result" where
  "fp8_needs_fp8_cache cfg policy =
     (if cu_attention_compute_quant cfg = AcqFp8 \<and> pp_kv_quantization policy \<noteq> KvFp8
      then Inl (InvalidConfig (''attention.compute-quantization=fp8 requires an FP8 KV cache, but hidden-layers.kv-cache resolves to `''
             @ kv_quant_label (pp_kv_quantization policy) @ ''`''))
      else Inr ())"

definition apply_other :: "other_section option \<Rightarrow> cuda_runtime_config \<times> bool \<Rightarrow> cuda_runtime_config" where
  "apply_other section cfg =
     (case section of
        None \<Rightarrow> fst cfg
      | Some ot \<Rightarrow>
          (let c = (if \<not> snd cfg
                    then (case ot_flash_attention ot of
                            None \<Rightarrow> fst cfg
                          | Some v \<Rightarrow> (fst cfg)\<lparr>cu_prefill_attention := (if v then PkAuto else PkReference)\<rparr>)
                    else fst cfg)
           in if cu_prefill_chunk_size c = None
              then c\<lparr>cu_prefill_chunk_size := (case ot_ubatch_size ot of Some v \<Rightarrow> Some v | None \<Rightarrow> ot_batch_size ot)\<rparr>
              else c))"

definition sampling_of :: "other_section option \<Rightarrow> sampling_config" where
  "sampling_of section =
     (case section of
        None \<Rightarrow> sampling_default
      | Some ot \<Rightarrow>
          sampling_default\<lparr>temperature := unwrap_or (ot_temperature ot) (temperature sampling_default),
             top_p := unwrap_or (ot_top_p ot) (top_p sampling_default),
             top_k := unwrap_or (ot_top_k ot) (top_k sampling_default),
             min_p := unwrap_or (ot_min_p ot) (min_p sampling_default)\<rparr>)"

definition draft_of :: "draft_section option \<Rightarrow> string option \<times> nat" where
  "draft_of section =
     (case section of
        Some d \<Rightarrow> (Some (mo_path (dr_model d)), max (unwrap_or (dr_num_draft_tokens d) 4) 1)
      | None \<Rightarrow> (None, 4))"

definition into_engine_fragment ::
  "environment \<Rightarrow> parameters_file \<Rightarrow> placement_policy \<Rightarrow> engine_config_fragment aegis_result" where
  "into_engine_fragment env file policy =
     (let model = pf_model file;
          chosen = Option.bind (pf_cuda file) cu_device;
          device = unwrap_or chosen 0;
          policy = (case chosen of Some d \<Rightarrow> retarget_cuda_policy policy d | None \<Rightarrow> policy) in
      res_bind (apply_cuda_section (pf_cuda file) (from_env env)) (\<lambda>cfg.
      res_bind (apply_model_defaults model device policy) (\<lambda>policy.
      res_bind (apply_bookend ''embed'' (mo_input_layer model) device policy) (\<lambda>policy.
      res_bind (apply_bookend ''lm_head'' (mo_output_layer model) device policy) (\<lambda>policy.
      res_bind (apply_attention (mo_attention model) device cfg policy) (\<lambda>(cfg, policy).
      res_bind (apply_hidden_layers (mo_hidden_layers model) device policy) (\<lambda>policy.
      res_bind (fp8_needs_fp8_cache (fst cfg) policy) (\<lambda>_.
        Inr \<lparr>ef_model_path = mo_path model, ef_policy = policy, ef_cuda = apply_other (mo_other model) cfg,
             ef_generation = sampling_of (mo_other model), ef_draft_model = fst (draft_of (pf_draft file)),
             ef_num_draft_tokens = snd (draft_of (pf_draft file))\<rparr>))))))))"

section \<open>The server\<close>

fun split_commas :: "string \<Rightarrow> string \<Rightarrow> string list" where
  "split_commas part [] = [part]"
| "split_commas part (c # cs) = (if c = CHR '','' then part # split_commas [] cs else split_commas (part @ [c]) cs)"

text \<open>Keys of the file, then those of \<^verbatim>\<open>AEGIS_API_KEY\<close>, without empty ones, sorted, without duplicates.\<close>

definition merge_api_keys :: "string list \<Rightarrow> string option \<Rightarrow> string list" where
  "merge_api_keys file_keys env_keys =
     remdups_adj (sort (filter (\<lambda>k. k \<noteq> []) (file_keys @
       (case env_keys of None \<Rightarrow> [] | Some keys \<Rightarrow> filter (\<lambda>k. k \<noteq> []) (map str_trim (split_commas [] keys))))))"

definition into_serve_config ::
  "environment \<Rightarrow> parameters_file \<Rightarrow> placement_policy \<Rightarrow> serve_config aegis_result" where
  "into_serve_config env file default_policy =
     (let server = pf_server file in
      res_bind (into_engine_fragment env file default_policy) (\<lambda>engine.
        Inr \<lparr>sc_host = unwrap_or (Option.bind server sv_host) ''127.0.0.1'',
             sc_port = unwrap_or (Option.bind server sv_port) 1337,
             sc_api = unwrap_or (Option.bind server sv_server_api) ''openai'',
             sc_api_keys = merge_api_keys (unwrap_or (Option.bind server sv_api_keys) []) (env ''AEGIS_API_KEY''),
             sc_engine = engine\<rparr>))"

section \<open>Names are read back\<close>

lemma parse_digits_append:
  "parse_digits acc (xs @ ys) = Option.bind (parse_digits acc xs) (\<lambda>acc. parse_digits acc ys)"
  by (induction xs arbitrary: acc) (auto simp: Let_def bind_eq_None_conv split: bind_split)

lemma digit_code: "d < 10 \<Longrightarrow> of_char (digit_char d) = (48 + d :: nat)"
  by (simp add: digit_char_def of_char_of)

lemma parse_digits_show_nat: "n \<le> u64_max \<Longrightarrow> parse_digits 0 (show_nat n) = Some n"
proof (induction n rule: show_nat.induct)
  case (1 n)
  have d: "n mod 10 < 10" by simp
  show ?case
  proof (cases "n < 10")
    case True
    then show ?thesis
      using 1(2) by (subst show_nat.simps) (simp add: digit_code checked_mul_def checked_add_def Let_def)
  next
    case False
    then have "parse_digits 0 (show_nat (n div 10)) = Some (n div 10)" using 1 by simp
    moreover have "n div 10 * 10 \<le> u64_max" using 1(2) by (meson div_times_less_eq_dividend order_trans)
    ultimately show ?thesis
      using 1(2) False d
      by (subst show_nat.simps) (simp add: parse_digits_append digit_code checked_mul_def checked_add_def Let_def)
  qed
qed

lemma show_nat_digits: "c \<in> set (show_nat n) \<Longrightarrow> 48 \<le> (of_char c :: nat) \<and> (of_char c :: nat) \<le> 57"
proof (induction n rule: show_nat.induct)
  case (1 n)
  then show ?case
    by (subst (asm) (2) show_nat.simps) (auto simp: digit_code split: if_splits)
qed

lemma parse_usize_show_nat: "n \<le> u64_max \<Longrightarrow> parse_usize (show_nat n) = Some n"
proof -
  assume n: "n \<le> u64_max"
  obtain c cs where s: "show_nat n = c # cs" by (cases "show_nat n") auto
  then have "48 \<le> (of_char c :: nat)" using show_nat_digits [of c n] by simp
  then have "c \<noteq> CHR ''+''" by auto
  then show ?thesis using parse_digits_show_nat [OF n] s by (simp add: parse_usize_def Let_def)
qed

lemma lowercase_append: "to_ascii_lowercase (s @ t) = to_ascii_lowercase s @ to_ascii_lowercase t"
  by (simp add: to_ascii_lowercase_def)

lemma lowercase_digits: "to_ascii_lowercase (show_nat n) = show_nat n"
  unfolding to_ascii_lowercase_def using show_nat_digits [of _ n]
  by (intro map_idI) (fastforce simp: Let_def)

lemma trim_device:
  assumes "p \<noteq> []" "65 \<le> (of_char (hd p) :: nat)"
  shows "trim_start_matches p (p @ show_nat n) = show_nat n"
proof -
  obtain c cs where s: "show_nat n = c # cs" by (cases "show_nat n") auto
  then have "(of_char c :: nat) \<le> 57" using show_nat_digits [of c n] by simp
  then have "c \<noteq> hd p" using assms(2) by auto
  then have "strip_prefix p (show_nat n) = None"
    using assms(1) s by (cases p) (auto simp: strip_prefix_def)
  then have "trim_start_matches p (show_nat n) = show_nat n" by (subst trim_start_matches.simps) simp
  then show ?thesis using assms(1) by (subst trim_start_matches.simps) simp
qed

text \<open>
  The text of every placement is read back as that placement, whatever the default device is.
\<close>

theorem placement_names_roundtrip:
  assumes "\<forall>d. store = Vram d \<or> compute = Cuda d \<or> compute = Wgpu d \<longrightarrow> d \<le> u64_max"
  shows "parse_storage (show_storage store) default_device = Inr store \<and>
    parse_compute (show_compute compute) default_device = Inr compute"
proof -
  have lower: "to_ascii_lowercase ''ram'' = ''ram''" "to_ascii_lowercase ''mmap'' = ''mmap''" "to_ascii_lowercase ''cpu'' = ''cpu''"
    "to_ascii_lowercase ''vram:'' = ''vram:''" "to_ascii_lowercase ''cuda:'' = ''cuda:''" "to_ascii_lowercase ''wgpu:'' = ''wgpu:''"
    by (simp_all add: to_ascii_lowercase_def Let_def)
  have trim: "trim_start_matches ''vram:'' (''vram:'' @ show_nat d) = show_nat d"
    "trim_start_matches ''cuda:'' (''cuda:'' @ show_nat d) = show_nat d"
    "trim_start_matches ''wgpu:'' (''wgpu:'' @ show_nat d) = show_nat d" for d
    by (rule trim_device; simp)+
  have "parse_storage (show_storage store) default_device = Inr store"
    using assms lower lowercase_append [of "''vram:''"] trim
    by (cases store) (auto simp: parse_storage_def lowercase_digits starts_with_def Let_def parse_usize_show_nat)
  moreover have "parse_compute (show_compute compute) default_device = Inr compute"
    using assms lower lowercase_append [of "''cuda:''"] lowercase_append [of "''wgpu:''"] trim
    by (cases compute) (auto simp: parse_compute_def lowercase_digits starts_with_def Let_def parse_usize_show_nat)
  ultimately show ?thesis by simp
qed

lemma placement_names_roundtrip_witness:
  "parse_storage (show_storage (Vram 12)) 0 = Inr (Vram 12) \<and> parse_compute (show_compute (Wgpu 3)) 7 = Inr (Wgpu 3)"
  using placement_names_roundtrip [of "Vram 12" "Wgpu 3"] by (simp add: u64_max_def)

section \<open>Which section decides\<close>

text \<open>The value of an optional field, once the file has been accepted.\<close>

definition got :: "(string \<Rightarrow> nat \<Rightarrow> 'a aegis_result) \<Rightarrow> nat \<Rightarrow> string option \<Rightarrow> 'a option" where
  "got parse device v = (case parse_opt parse device v of Inr x \<Rightarrow> x | Inl _ \<Rightarrow> None)"

fun or_else :: "'a option \<Rightarrow> 'a option \<Rightarrow> 'a option" where
  "or_else (Some x) y = Some x"
| "or_else None y = y"

definition in_first :: "nat option \<Rightarrow> nat \<Rightarrow> bool" where
  "in_first number i = (case number of None \<Rightarrow> True | Some n \<Rightarrow> i < n)"

text \<open>
  The store and the device of hidden layer \<open>i\<close> as the comments of \<^verbatim>\<open>file.rs\<close> describe them. Ranges come last, in the order
  they are listed. Before them the weights section covers its first layers; its store comes before the shorthand
  \<^verbatim>\<open>hidden-layers.store\<close>, its device before \<^verbatim>\<open>hidden-layers.compute\<close>. The other layers have its fallback. What
  is not given is that of the model.
\<close>

definition covered :: "hidden_layers_section \<Rightarrow> nat \<Rightarrow> bool" where
  "covered hidden i = (case hl_weights hidden of None \<Rightarrow> True | Some w \<Rightarrow> in_first (we_number w) i)"

definition of_weights :: "hidden_layers_section \<Rightarrow> (weights_section \<Rightarrow> string option) \<Rightarrow> string option" where
  "of_weights hidden field = (case hl_weights hidden of None \<Rightarrow> None | Some w \<Rightarrow> field w)"

definition documented_store :: "hidden_layers_section \<Rightarrow> nat \<Rightarrow> storage_placement \<Rightarrow> nat \<Rightarrow> storage_placement" where
  "documented_store hidden device base i =
     fold (\<lambda>r s. if ra_start r \<le> i \<and> i < ra_end r then unwrap_or (got parse_storage device (ra_store r)) s else s)
       (unwrap_or (hl_ranges hidden) [])
       (unwrap_or
          (if covered hidden i
           then or_else (got parse_storage device (of_weights hidden we_store)) (got parse_storage device (hl_store hidden))
           else got parse_storage device (of_weights hidden we_fallback_store)) base)"

definition documented_compute :: "hidden_layers_section \<Rightarrow> nat \<Rightarrow> compute_placement \<Rightarrow> nat \<Rightarrow> compute_placement" where
  "documented_compute hidden device base i =
     (let parent = got parse_compute device (hl_compute hidden) in
     fold (\<lambda>r c. if ra_start r \<le> i \<and> i < ra_end r
                 then unwrap_or (or_else (got parse_compute device (ra_compute r)) parent) c else c)
       (unwrap_or (hl_ranges hidden) [])
       (unwrap_or
          (if covered hidden i then or_else (got parse_compute device (of_weights hidden we_compute)) parent
           else got parse_compute device (of_weights hidden we_fallback_compute)) base))"

text \<open>
  The section as the code reads it. Beside a weights section the shorthand store is dropped, and what the
  weights section leaves out for its first layers is its own fallback. Neither matters for a section that says these things.
\<close>

definition as_read :: "hidden_layers_section \<Rightarrow> hidden_layers_section" where
  "as_read hidden =
     (case hl_weights hidden of
        None \<Rightarrow> hidden
      | Some w \<Rightarrow> hidden\<lparr>hl_store := None, hl_weights := Some (w\<lparr>
          we_store := or_else (we_store w) (we_fallback_store w),
          we_compute := (if we_compute w = None \<and> hl_compute hidden = None then we_fallback_compute w else we_compute w)\<rparr>)\<rparr>)"

definition explicit_section :: "hidden_layers_section \<Rightarrow> bool" where
  "explicit_section hidden \<longleftrightarrow>
     (case hl_weights hidden of
        None \<Rightarrow> True
      | Some w \<Rightarrow> (we_store w \<noteq> None \<or> hl_store hidden = None \<and> we_fallback_store w = None)
          \<and> (we_compute w \<noteq> None \<or> hl_compute hidden \<noteq> None \<or> we_fallback_compute w = None))"

text \<open>What the rules pushed for a section give.\<close>

definition layer_store :: "hidden_layers_section \<Rightarrow> nat \<Rightarrow> storage_placement \<Rightarrow> nat \<Rightarrow> storage_placement" where
  "layer_store hidden device base i =
     fold (\<lambda>r s. if ra_start r \<le> i \<and> i < ra_end r then unwrap_or (got parse_storage device (ra_store r)) s else s)
       (unwrap_or (hl_ranges hidden) [])
       (case hl_weights hidden of
          None \<Rightarrow> unwrap_or (got parse_storage device (hl_store hidden)) base
        | Some w \<Rightarrow>
            let tail = unwrap_or (got parse_storage device (we_fallback_store w)) base
            in if in_first (we_number w) i then unwrap_or (got parse_storage device (we_store w)) tail else tail)"

definition layer_compute :: "hidden_layers_section \<Rightarrow> nat \<Rightarrow> compute_placement \<Rightarrow> nat \<Rightarrow> compute_placement" where
  "layer_compute hidden device base i =
     (let parent = got parse_compute device (hl_compute hidden) in
     fold (\<lambda>r c. if ra_start r \<le> i \<and> i < ra_end r
                 then unwrap_or (or_else (got parse_compute device (ra_compute r)) parent) c else c)
       (unwrap_or (hl_ranges hidden) [])
       (case hl_weights hidden of
          None \<Rightarrow> unwrap_or parent base
        | Some w \<Rightarrow>
            let tail = unwrap_or (got parse_compute device (we_fallback_compute w)) base
            in if in_first (we_number w) i
               then unwrap_or (or_else (got parse_compute device (we_compute w)) parent) tail else tail))"

lemma or_else_None [simp]: "or_else x None = x"
  by (cases x) simp_all

text \<open>A placement that is given and parsed is not missing.\<close>

lemma got_given: "parse_opt parse device v = Inr x \<Longrightarrow> v \<noteq> None \<Longrightarrow> got parse device v \<noteq> None"
  by (cases v; cases "parse (the v) device") (auto simp: parse_opt_def got_def)

lemma got_None [simp]: "got parse device None = None"
  by (simp add: got_def parse_opt_def)

definition weights_parse :: "hidden_layers_section \<Rightarrow> nat \<Rightarrow> bool" where
  "weights_parse hidden device \<longleftrightarrow>
     (\<exists>x. parse_opt parse_compute device (hl_compute hidden) = Inr x)
     \<and> (\<forall>w. hl_weights hidden = Some w \<longrightarrow> (\<exists>x. parse_opt parse_storage device (we_store w) = Inr x)
          \<and> (\<exists>x. parse_opt parse_compute device (we_compute w) = Inr x))"

lemma layer_store_as_read:
  assumes "weights_parse hidden device"
  shows "layer_store hidden device base i = documented_store (as_read hidden) device base i"
proof (cases "hl_weights hidden")
  case None
  then show ?thesis
    by (simp add: layer_store_def documented_store_def as_read_def covered_def of_weights_def)
next
  case (Some w)
  then obtain x where x: "parse_opt parse_storage device (we_store w) = Inr x"
    using assms by (auto simp: weights_parse_def)
  have "unwrap_or (got parse_storage device (we_store w)) (unwrap_or (got parse_storage device (we_fallback_store w)) base)
      = unwrap_or (got parse_storage device (or_else (we_store w) (we_fallback_store w))) base"
    using got_given [OF x] by (cases "we_store w") (auto simp: unwrap_or_def)
  with Some show ?thesis
    by (simp add: layer_store_def documented_store_def as_read_def covered_def of_weights_def)
qed

lemma layer_compute_as_read:
  assumes "weights_parse hidden device"
  shows "layer_compute hidden device base i = documented_compute (as_read hidden) device base i"
proof (cases "hl_weights hidden")
  case None
  then show ?thesis
    by (simp add: layer_compute_def documented_compute_def as_read_def covered_def of_weights_def)
next
  case (Some w)
  then obtain x y where x: "parse_opt parse_compute device (we_compute w) = Inr x"
    and y: "parse_opt parse_compute device (hl_compute hidden) = Inr y"
    using assms by (auto simp: weights_parse_def)
  let ?parent = "got parse_compute device (hl_compute hidden)"
  let ?own = "got parse_compute device (we_compute w)"
  let ?fallback = "got parse_compute device (we_fallback_compute w)"
  have "unwrap_or (or_else ?own ?parent) (unwrap_or ?fallback base)
      = unwrap_or (or_else (got parse_compute device
          (if we_compute w = None \<and> hl_compute hidden = None then we_fallback_compute w else we_compute w)) ?parent) base"
  proof (cases "we_compute w = None \<and> hl_compute hidden = None")
    case True
    then show ?thesis by (simp add: unwrap_or_def split: option.split)
  next
    case False
    then have "?own \<noteq> None \<or> ?parent \<noteq> None" using got_given [OF x] got_given [OF y] by blast
    with False show ?thesis by (cases ?own) auto
  qed
  with Some show ?thesis
    by (simp add: layer_compute_def documented_compute_def as_read_def covered_def of_weights_def Let_def)
qed

text \<open>For an explicit section nothing of this matters.\<close>

lemma as_read_explicit:
  assumes "explicit_section hidden"
  shows "documented_store (as_read hidden) device base i = documented_store hidden device base i
      \<or> \<not> weights_parse hidden device"
    and "documented_compute (as_read hidden) device basec i = documented_compute hidden device basec i"
proof -
  show "documented_compute (as_read hidden) device basec i = documented_compute hidden device basec i"
    using assms by (cases "hl_weights hidden")
      (auto simp: documented_compute_def as_read_def covered_def of_weights_def explicit_section_def)
  show "documented_store (as_read hidden) device base i = documented_store hidden device base i
      \<or> \<not> weights_parse hidden device"
  proof (cases "hl_weights hidden")
    case None
    then show ?thesis by (simp add: as_read_def)
  next
    case (Some w)
    show ?thesis
    proof (cases "we_store w = None \<or> \<not> weights_parse hidden device")
      case True
      with Some assms show ?thesis
        by (auto simp: documented_store_def as_read_def covered_def of_weights_def explicit_section_def)
    next
      case False
      then obtain x where "parse_opt parse_storage device (we_store w) = Inr x"
        using Some by (auto simp: weights_parse_def)
      with False obtain s where "got parse_storage device (we_store w) = Some s" "we_store w \<noteq> None"
        using got_given by blast
      with Some show ?thesis
        by (auto simp: documented_store_def as_read_def covered_def of_weights_def)
    qed
  qed
qed

lemma got_Inr [simp]: "parse_opt parse device v = Inr x \<Longrightarrow> got parse device v = x"
  by (simp add: got_def)

lemma own_or_parent: "(case own of None \<Rightarrow> parent | Some c \<Rightarrow> Some c) = or_else own parent"
  by (cases own) simp_all

lemma apply_rules_push_rule:
  "apply_rules region n (push_rule selector store compute policy) =
     (case apply_rules region n policy of (s, c) \<Rightarrow>
        if selector_matches selector region n then (unwrap_or store s, unwrap_or compute c) else (s, c))"
  by (auto simp: push_rule_def apply_rules_def rules_loop_append split: prod.splits)

text \<open>A policy none of whose rules selects the region places it by its defaults.\<close>

definition unselected :: "graph_region \<Rightarrow> nat \<Rightarrow> placement_policy \<Rightarrow> bool" where
  "unselected region n policy \<longleftrightarrow> (\<forall>rule \<in> set (pp_rules policy). \<not> selector_matches (ru_selector rule) region n)"

lemma apply_rules_unselected:
  "unselected region n policy \<Longrightarrow> apply_rules region n policy = (pp_weights_store policy, pp_weights_compute policy)"
  by (simp add: apply_rules_def rules_loop_selected unselected_def map_filter_simps)

lemma apply_bookend_unselected:
  assumes "apply_bookend name section device policy = Inr policy'" "gr_id region \<noteq> name" "unselected region n policy"
  shows "unselected region n policy' \<and> pp_weights_store policy' = pp_weights_store policy
    \<and> pp_weights_compute policy' = pp_weights_compute policy"
  using assms by (auto simp: apply_bookend_def res_simps unselected_def push_rule_def split: option.splits if_splits)

lemma apply_attention_rules:
  assumes "apply_attention section device cfg policy = Inr (cfg', policy')"
  shows "pp_rules policy' = pp_rules policy" "pp_weights_store policy' = pp_weights_store policy"
    "pp_weights_compute policy' = pp_weights_compute policy"
  using assms by (auto simp: apply_attention_def res_simps split: option.splits)

lemma apply_ranges_effect:
  assumes "apply_ranges parent rs device policy = Inr policy'" "gr_layer_index region = Some i"
  shows "apply_rules region n policy' =
    (fold (\<lambda>r s. if ra_start r \<le> i \<and> i < ra_end r then unwrap_or (got parse_storage device (ra_store r)) s else s)
       rs (fst (apply_rules region n policy)),
     fold (\<lambda>r c. if ra_start r \<le> i \<and> i < ra_end r
                 then unwrap_or (or_else (got parse_compute device (ra_compute r)) parent) c else c)
       rs (snd (apply_rules region n policy)))"
  using assms(1)
proof (induction rs arbitrary: policy)
  case (Cons r rs)
  then obtain s c where sc: "parse_opt parse_storage device (ra_store r) = Inr s"
    "parse_opt parse_compute device (ra_compute r) = Inr c"
    "apply_ranges parent rs device (push_rule (Range (ra_start r) (ra_end r)) s (or_else c parent) policy) = Inr policy'"
    by (auto simp: res_simps Let_def own_or_parent split: if_splits)
  show ?case
    using Cons.IH [OF sc(3)] sc(1, 2) assms(2)
    by (auto simp: apply_rules_push_rule split: prod.splits)
qed simp

lemma apply_weights_effect:
  assumes "apply_weights parent (Some w) device policy = Inr policy'"
    and "unselected region n policy" "gr_layer_index region = Some i"
  shows "apply_rules region n policy' =
    (let tail = unwrap_or (got parse_storage device (we_fallback_store w)) (pp_weights_store policy);
         tailc = unwrap_or (got parse_compute device (we_fallback_compute w)) (pp_weights_compute policy)
     in if in_first (we_number w) i
        then (unwrap_or (got parse_storage device (we_store w)) tail,
              unwrap_or (or_else (got parse_compute device (we_compute w)) parent) tailc)
        else (tail, tailc))"
proof -
  obtain ps oc fs fc where p: "parse_opt parse_storage device (we_store w) = Inr ps"
    "parse_opt parse_compute device (we_compute w) = Inr oc"
    "parse_opt parse_storage device (we_fallback_store w) = Inr fs"
    "parse_opt parse_compute device (we_fallback_compute w) = Inr fc"
    "policy' = push_rule (case we_number w of Some n \<Rightarrow> FirstN n | None \<Rightarrow> All) ps (or_else oc parent)
       (policy\<lparr>pp_weights_store := unwrap_or fs (pp_weights_store policy),
               pp_weights_compute := unwrap_or fc (pp_weights_compute policy)\<rparr>)"
    using assms(1) by (auto simp: apply_weights_def res_simps Let_def own_or_parent)
  have "unselected region n (policy\<lparr>pp_weights_store := x, pp_weights_compute := y\<rparr>)" for x y
    using assms(2) by (simp add: unselected_def)
  from apply_rules_unselected [OF this] show ?thesis
    using p(1-4) assms(3)
    by (auto simp: p(5) apply_rules_push_rule in_first_def Let_def split: option.splits)
qed

lemma apply_experts_rules:
  assumes "apply_experts parent section device policy = Inr policy'"
  shows "apply_rules region n policy' = apply_rules region n policy"
  using assms by (auto simp: apply_experts_def res_simps apply_rules_def split: option.splits)

lemma apply_kv_cache_rules:
  assumes "apply_kv_cache section device policy = Inr policy'"
  shows "apply_rules region n policy' = apply_rules region n policy"
  using assms
  by (auto simp: apply_kv_cache_def kv_tiers_def res_simps apply_rules_def Let_def split: option.splits)

lemma apply_weights_parse:
  "apply_weights parent (Some w) device policy = Inr policy' \<Longrightarrow>
     (\<exists>x. parse_opt parse_storage device (we_store w) = Inr x) \<and> (\<exists>x. parse_opt parse_compute device (we_compute w) = Inr x)"
  by (auto simp: apply_weights_def res_simps Let_def own_or_parent)

lemma apply_hidden_layers_parse:
  assumes "apply_hidden_layers (Some hidden) device policy = Inr policy'"
  shows "weights_parse hidden device"
proof -
  obtain pc p0 p1 where "parse_opt parse_compute device (hl_compute hidden) = Inr pc"
    "apply_weights pc (hl_weights hidden) device p0 = Inr p1"
    using assms by (auto simp: apply_hidden_layers_def res_simps)
  then show ?thesis using apply_weights_parse by (fastforce simp: weights_parse_def)
qed

lemma apply_hidden_layers_effect:
  assumes "apply_hidden_layers (Some hidden) device policy = Inr policy'"
    and "unselected region n policy" "gr_layer_index region = Some i" "i < u64_max"
  shows "apply_rules region n policy' =
    (layer_store hidden device (pp_weights_store policy) i, layer_compute hidden device (pp_weights_compute policy) i)"
proof -
  obtain pc ps p1 p2 p3 where steps: "parse_opt parse_compute device (hl_compute hidden) = Inr pc"
    "parse_opt parse_storage device (hl_store hidden) = Inr ps"
    "apply_weights pc (hl_weights hidden) device
       (if hl_weights hidden = None then push_rule (Range 0 u64_max) ps pc policy else policy) = Inr p1"
    "apply_ranges pc (unwrap_or (hl_ranges hidden) []) device p1 = Inr p2"
    "apply_experts pc (hl_experts hidden) device p2 = Inr p3"
    "apply_kv_cache (hl_kv_cache hidden) device p3 = Inr policy'"
    using assms(1) by (auto simp: apply_hidden_layers_def res_simps)
  have "apply_rules region n p1 =
     (case hl_weights hidden of
        None \<Rightarrow> (unwrap_or ps (pp_weights_store policy), unwrap_or pc (pp_weights_compute policy))
      | Some w \<Rightarrow>
         (let tail = unwrap_or (got parse_storage device (we_fallback_store w)) (pp_weights_store policy);
              tailc = unwrap_or (got parse_compute device (we_fallback_compute w)) (pp_weights_compute policy)
          in if in_first (we_number w) i
             then (unwrap_or (got parse_storage device (we_store w)) tail,
                   unwrap_or (or_else (got parse_compute device (we_compute w)) pc) tailc)
             else (tail, tailc)))"
  proof (cases "hl_weights hidden")
    case None
    then have "p1 = push_rule (Range 0 u64_max) ps pc policy" using steps(3) by (simp add: apply_weights_def)
    then show ?thesis
      using None assms(2-4) by (simp add: apply_rules_push_rule apply_rules_unselected)
  next
    case (Some w)
    then show ?thesis using apply_weights_effect [OF _ assms(2, 3)] steps(3) by simp
  qed
  then show ?thesis
    using apply_kv_cache_rules [OF steps(6)] apply_experts_rules [OF steps(5)]
      apply_ranges_effect [OF steps(4) assms(3)] steps(1, 2)
    by (auto simp: layer_store_def layer_compute_def Let_def split: option.splits)
qed

text \<open>
  C38: a parameter file that is accepted places every hidden layer as the comments of \<^verbatim>\<open>file.rs\<close> describe it: the last range over the layer that
  names a store decides its store, then \<^verbatim>\<open>weights.store\<close> and after it the shorthand \<^verbatim>\<open>hidden-layers.store\<close> for the first layers,
  the fallback for the others, then the store of the model or the default policy; the device is decided in the same way with
  \<^verbatim>\<open>hidden-layers.compute\<close> as the default of weights and ranges. That is so when the section is explicit: beside a weights section
  there is either a \<^verbatim>\<open>weights.store\<close> or neither the shorthand nor a fallback store, and the same for devices. For any section the
  placement is the documented one of \<open>as_read\<close>: the shorthand is dropped beside a weights section, and a first layer whose store or device is not
  given gets the fallback (\<open>shorthand_store_dropped\<close>, \<open>first_layers_take_fallback\<close>).
\<close>

theorem file_places_layers:
  assumes "into_engine_fragment env file policy = Inr frag" "pp_rules policy = []"
    and "mo_hidden_layers (pf_model file) = Some hidden" "chosen = Option.bind (pf_cuda file) cu_device"
    and "apply_model_defaults (pf_model file) (unwrap_or chosen 0)
           (case chosen of Some d \<Rightarrow> retarget_cuda_policy policy d | None \<Rightarrow> policy) = Inr base"
    and "gr_layer_index region = Some i" "i < u64_max" "gr_id region \<noteq> ''embed''" "gr_id region \<noteq> ''lm_head''"
  shows "apply_rules region n (ef_policy frag) =
      (documented_store (as_read hidden) (unwrap_or chosen 0) (pp_weights_store base) i,
       documented_compute (as_read hidden) (unwrap_or chosen 0) (pp_weights_compute base) i)
    \<and> (explicit_section hidden \<longrightarrow> apply_rules region n (ef_policy frag) =
      (documented_store hidden (unwrap_or chosen 0) (pp_weights_store base) i,
       documented_compute hidden (unwrap_or chosen 0) (pp_weights_compute base) i))"
proof -
  let ?d = "unwrap_or chosen 0"
  obtain cfg p1 p2 cfg' p3 p4 where steps:
    "apply_bookend ''embed'' (mo_input_layer (pf_model file)) ?d base = Inr p1"
    "apply_bookend ''lm_head'' (mo_output_layer (pf_model file)) ?d p1 = Inr p2"
    "apply_attention (mo_attention (pf_model file)) ?d cfg p2 = Inr (cfg', p3)"
    "apply_hidden_layers (Some hidden) ?d p3 = Inr p4" "ef_policy frag = p4"
    using assms(1, 3, 5) unfolding into_engine_fragment_def Let_def assms(4) [symmetric]
    by (auto simp: res_simps)
  have "pp_rules base = []"
    using assms(2, 5) by (auto simp: apply_model_defaults_def res_simps retarget_cuda_policy_def Let_def split: option.splits if_splits)
  then have u: "unselected region n base" by (simp add: unselected_def)
  note b1 = apply_bookend_unselected [OF steps(1) assms(8) u]
  note b2 = apply_bookend_unselected [OF steps(2) assms(9), of n]
  have "unselected region n p3"
    using b1 b2 apply_attention_rules [OF steps(3)] by (simp add: unselected_def)
  from apply_hidden_layers_effect [OF steps(4) this assms(6, 7)]
  have "apply_rules region n (ef_policy frag) =
      (layer_store hidden ?d (pp_weights_store base) i, layer_compute hidden ?d (pp_weights_compute base) i)"
    using b1 b2 apply_attention_rules [OF steps(3)] steps(5) by simp
  moreover have parse: "weights_parse hidden ?d" by (rule apply_hidden_layers_parse [OF steps(4)])
  ultimately show ?thesis
    using as_read_explicit [of hidden] by (auto simp: layer_store_as_read layer_compute_as_read)
qed

text \<open>
  A file that asks for FP8 attention is only accepted with an FP8 KV cache.
\<close>

theorem fp8_attention_has_fp8_cache:
  assumes "into_engine_fragment env file policy = Inr frag" "cu_attention_compute_quant (ef_cuda frag) = AcqFp8"
  shows "pp_kv_quantization (ef_policy frag) = KvFp8"
  using assms
  by (auto simp: into_engine_fragment_def res_simps Let_def fp8_needs_fp8_cache_def apply_other_def
      split: if_splits option.splits)

lemma sorted_distinct_adj: "sorted (xs :: 'a::linorder list) \<Longrightarrow> distinct (remdups_adj xs)"
proof (induction xs rule: remdups_adj.induct)
  case (3 x y xs)
  then show ?case by (cases "x = y") auto
qed simp_all

text \<open>
  The accepted keys of the server are the keys of the file and of the environment that are not
  empty, each once and in order.
\<close>

theorem api_keys_exact:
  assumes "into_serve_config env file policy = Inr config"
  shows "sorted (sc_api_keys config) \<and> distinct (sc_api_keys config) \<and>
    set (sc_api_keys config) = {k. k \<noteq> [] \<and>
      (k \<in> set (unwrap_or (Option.bind (pf_server file) sv_api_keys) []) \<or>
       (\<exists>v. env ''AEGIS_API_KEY'' = Some v \<and> k \<in> str_trim ` set (split_commas [] v)))}"
proof -
  have keys: "sc_api_keys config
      = merge_api_keys (unwrap_or (Option.bind (pf_server file) sv_api_keys) []) (env ''AEGIS_API_KEY'')"
    using assms by (auto simp: into_serve_config_def res_simps Let_def)
  have "sorted (remdups_adj (sort xs)) \<and> distinct (remdups_adj (sort xs))" for xs :: "string list"
    by (simp add: sorted_remdups_adj sorted_distinct_adj)
  then show ?thesis unfolding keys merge_api_keys_def by (cases "env ''AEGIS_API_KEY''") auto
qed

section \<open>Concrete files\<close>

definition bare_model :: model_section where
  "bare_model = \<lparr>mo_path = ''m'', mo_store = None, mo_compute = None, mo_mmap = None, mo_input_layer = None,
     mo_output_layer = None, mo_attention = None, mo_hidden_layers = None, mo_other = None\<rparr>"

definition bare_hidden :: hidden_layers_section where
  "bare_hidden = \<lparr>hl_compute = None, hl_store = None, hl_weights = None, hl_experts = None, hl_kv_cache = None, hl_ranges = None\<rparr>"

definition bare_weights :: weights_section where
  "bare_weights = \<lparr>we_number = None, we_store = None, we_compute = None, we_fallback_store = None, we_fallback_compute = None\<rparr>"

definition bare_kv :: kv_cache_section where
  "bare_kv = \<lparr>ks_number = None, ks_context_size = None, ks_store = None, ks_fallback_store = None, ks_type_k = None, ks_type_v = None\<rparr>"

definition model_file :: "model_section \<Rightarrow> parameters_file" where
  "model_file model = \<lparr>pf_server = None, pf_model = model, pf_draft = None, pf_cuda = None\<rparr>"

definition gpu_policy :: placement_policy where
  "gpu_policy = (auto_for \<lparr>hw_ram_total_bytes = 64, hw_ram_available_bytes = None, hw_avx2 = True, hw_avx512 = False,
     hw_bf16 = False, hw_gpus = []\<rparr>)\<lparr>pp_weights_store := Vram 0, pp_weights_compute := Cuda 0\<rparr>"

lemma parsed_names [simp]:
  "parse_storage ''ram'' d = Inr Ram" "parse_storage ''mmap'' d = Inr Mmap" "parse_storage ''vram'' d = Inr (Vram d)"
  "parse_compute ''cpu'' d = Inr Cpu" "parse_compute ''cuda'' d = Inr (Cuda d)"
  by (simp_all add: parse_storage_def parse_compute_def to_ascii_lowercase_def Let_def)

lemma gpu_policy_simps [simp]:
  "pp_rules gpu_policy = []" "pp_weights_store gpu_policy = Vram 0" "pp_weights_compute gpu_policy = Cuda 0"
  by (simp_all add: gpu_policy_def auto_for_def preferred_cuda_def max_by_key_def)

lemmas translate = into_engine_fragment_def apply_cuda_section_def apply_model_defaults_def apply_bookend_def
  apply_attention_def apply_hidden_layers_def apply_weights_def apply_experts_def apply_kv_cache_def kv_tiers_def
  fp8_needs_fp8_cache_def parse_opt_def push_rule_def model_file_def bare_model_def bare_hidden_def bare_weights_def
  bare_kv_def from_env_def Let_def

definition embedding :: graph_region where
  "embedding = \<lparr>gr_id = ''embed'', gr_kind = RkTokenEmbedding, gr_layer_index = None, gr_tensors = []\<rparr>"

definition block_region :: "nat \<Rightarrow> graph_region" where
  "block_region i = \<lparr>gr_id = ''layer.'' @ show_nat i, gr_kind = RkTransformerBlock, gr_layer_index = Some i, gr_tensors = []\<rparr>"

text \<open>Layers 17 to 41 on the processor, the others where the model is.\<close>

definition split_file :: parameters_file where
  "split_file = model_file (bare_model\<lparr>mo_hidden_layers := Some (bare_hidden
     \<lparr>hl_ranges := Some [\<lparr>ra_start = 17, ra_end = 42, ra_store = Some ''ram'', ra_compute = Some ''cpu''\<rparr>]\<rparr>)\<rparr>)"

lemma file_places_layers_witness:
  "\<exists>frag. into_engine_fragment (\<lambda>_. None) split_file gpu_policy = Inr frag \<and>
    apply_rules (block_region 20) 42 (ef_policy frag) = (Ram, Cpu) \<and>
    apply_rules (block_region 3) 42 (ef_policy frag) = (Vram 0, Cuda 0)"
proof -
  let ?h = "bare_hidden\<lparr>hl_ranges := Some [\<lparr>ra_start = 17, ra_end = 42, ra_store = Some ''ram'', ra_compute = Some ''cpu''\<rparr>]\<rparr>"
  obtain frag where frag: "into_engine_fragment (\<lambda>_. None) split_file gpu_policy = Inr frag"
    by (simp add: split_file_def translate)
  have base: "apply_model_defaults (pf_model split_file) (unwrap_or None 0)
      (case None of Some d \<Rightarrow> retarget_cuda_policy gpu_policy d | None \<Rightarrow> gpu_policy) = Inr gpu_policy"
    by (simp add: split_file_def translate)
  have h: "mo_hidden_layers (pf_model split_file) = Some ?h" "None = Option.bind (pf_cuda split_file) cu_device"
    by (simp_all add: split_file_def model_file_def)
  have "apply_rules (block_region i) 42 (ef_policy frag) = (documented_store ?h 0 (Vram 0) i, documented_compute ?h 0 (Cuda 0) i)"
    if "i < u64_max" for i
    using file_places_layers [OF frag gpu_policy_simps(1) h base, of "block_region i" i 42] that
    by (simp add: block_region_def explicit_section_def as_read_def bare_hidden_def)
  from this [of 20] this [of 3] show ?thesis
    using frag by (simp add: documented_store_def documented_compute_def covered_def of_weights_def bare_hidden_def
        got_def parse_opt_def u64_max_def)
qed

lemma fp8_attention_has_fp8_cache_witness:
  "\<exists>frag. into_engine_fragment (\<lambda>_. None) (model_file (bare_model
       \<lparr>mo_attention := Some \<lparr>at_mechanism = None, at_store = None, at_compute = None, at_compute_quantization = Some ''fp8''\<rparr>,
        mo_hidden_layers := Some (bare_hidden\<lparr>hl_kv_cache := Some (bare_kv\<lparr>ks_type_k := Some ''fp8''\<rparr>)\<rparr>)\<rparr>)) gpu_policy = Inr frag \<and>
     pp_kv_quantization (ef_policy frag) = KvFp8"
proof -
  have q: "compute_quant_parse ''fp8'' = Inr AcqFp8" "kv_quant_parse ''fp8'' = Some KvFp8" by code_simp+
  obtain frag where "into_engine_fragment (\<lambda>_. None) (model_file (bare_model
       \<lparr>mo_attention := Some \<lparr>at_mechanism = None, at_store = None, at_compute = None, at_compute_quantization = Some ''fp8''\<rparr>,
        mo_hidden_layers := Some (bare_hidden\<lparr>hl_kv_cache := Some (bare_kv\<lparr>ks_type_k := Some ''fp8''\<rparr>)\<rparr>)\<rparr>)) gpu_policy = Inr frag"
    "cu_attention_compute_quant (ef_cuda frag) = AcqFp8"
    by (simp add: translate q apply_other_def)
  then show ?thesis using fp8_attention_has_fp8_cache by blast
qed

lemma api_keys_exact_witness:
  "\<exists>config. into_serve_config (\<lambda>_. Some ''b, a,,b'') (model_file bare_model) gpu_policy = Inr config \<and>
     sorted (sc_api_keys config)"
proof -
  obtain config where "into_serve_config (\<lambda>_. Some ''b, a,,b'') (model_file bare_model) gpu_policy = Inr config"
    by (simp add: into_serve_config_def translate)
  then show ?thesis using api_keys_exact by blast
qed

text \<open>
  A weights section without a layer count is documented to cover the hidden layers, but it becomes a
  rule for every region and comes after the rule of \<^verbatim>\<open>input-layer\<close>: the embedding that the
  file puts in host memory is placed on the GPU.
\<close>

theorem weights_section_takes_embedding:
  "\<exists>frag. into_engine_fragment (\<lambda>_. None) (model_file (bare_model
       \<lparr>mo_input_layer := Some \<lparr>ly_store = Some ''ram'', ly_compute = None\<rparr>,
        mo_hidden_layers := Some (bare_hidden\<lparr>hl_weights := Some (bare_weights\<lparr>we_store := Some ''vram''\<rparr>)\<rparr>)\<rparr>)) gpu_policy = Inr frag \<and>
     fst (apply_rules embedding 30 (ef_policy frag)) = Vram 0"
  by (simp add: translate apply_rules_def embedding_def)

text \<open>
  The type of the cached values is only read when the type of the keys is absent: a file that asks for
  FP8 values beside F16 keys gets F16 for both, and a type that does not exist is accepted.
\<close>

theorem value_type_ignored:
  "\<exists>frag. into_engine_fragment (\<lambda>_. None) (model_file (bare_model\<lparr>mo_hidden_layers := Some (bare_hidden
       \<lparr>hl_kv_cache := Some (bare_kv\<lparr>ks_type_k := Some ''f16'', ks_type_v := Some v\<rparr>)\<rparr>)\<rparr>)) gpu_policy = Inr frag \<and>
     pp_kv_quantization (ef_policy frag) = KvF16"
proof -
  have "kv_quant_parse ''f16'' = Some KvF16" by code_simp
  then show ?thesis by (simp add: translate)
qed

text \<open>
  The shorthand store of the hidden layers is dropped as soon as a weights section is present, even one
  that names no store.
\<close>

theorem shorthand_store_dropped:
  "\<exists>frag. into_engine_fragment (\<lambda>_. None) (model_file (bare_model\<lparr>mo_hidden_layers := Some (bare_hidden
       \<lparr>hl_store := Some ''ram'', hl_weights := Some (bare_weights\<lparr>we_number := Some 4\<rparr>)\<rparr>)\<rparr>)) gpu_policy = Inr frag \<and>
     (\<forall>i n. apply_rules (block_region i) n (ef_policy frag) = (Vram 0, Cuda 0))"
  by (simp add: translate apply_rules_def block_region_def)

text \<open>
  The first layers of a weights section that names a fallback store only are placed there too, not at the store of the model.
\<close>

theorem first_layers_take_fallback:
  "\<exists>frag. into_engine_fragment (\<lambda>_. None) (model_file (bare_model\<lparr>mo_hidden_layers := Some (bare_hidden
       \<lparr>hl_weights := Some (bare_weights\<lparr>we_number := Some 4, we_fallback_store := Some ''ram''\<rparr>)\<rparr>)\<rparr>)) gpu_policy = Inr frag \<and>
     apply_rules (block_region 0) 42 (ef_policy frag) = (Ram, Cuda 0)"
  by (simp add: translate apply_rules_def block_region_def)

end
