(* ===== verification/ExecutorPlan.thy ===== *)
theory ExecutorPlan
  imports Runtime Params
begin

text \<open>
  Which executor runs a placement (\<^verbatim>\<open>aegisllm/src/executor\<close>,
  \<^verbatim>\<open>aegisllm-cuda/src/executor/planning.rs\<close>, the \<^verbatim>\<open>plan\<close> functions of the
  providers): the nodes of the execution plan, the limitations of every provider, the choice between them,
  the placement checks of the CPU and the CUDA executor, and the hybrid executor, which schedules every
  layer on the processor or on one GPU and walks the schedule for every token. What an executor loads
  and what a layer computes are arguments. \<open>None\<close> is a panic.
\<close>

section \<open>Execution nodes\<close>

datatype activation_residency = OnHost | OnDevice nat

fun residency_of_compute :: "compute_placement \<Rightarrow> activation_residency" where
  "residency_of_compute Cpu = OnHost"
| "residency_of_compute (Cuda device) = OnDevice device"
| "residency_of_compute (Wgpu device) = OnDevice device"

record kv_cache_node =
  kn_store :: storage_placement
  kn_compute :: compute_placement
  kn_quantization :: kv_cache_quantization
  kn_context_size :: nat

definition kv_node :: "kv_cache_placement \<Rightarrow> kv_cache_node" where
  "kv_node kv = \<lparr>kn_store = kc_store kv, kn_compute = kc_compute kv, kn_quantization = kc_quantization kv,
     kn_context_size = kc_context_size kv\<rparr>"

datatype execution_node =
    RegionNode region_id graph_region_kind compute_placement
  | ActivationTransfer region_id activation_residency activation_residency
  | WeightTransfer region_id storage_placement compute_placement (wt_transfer: transfer_policy)
  | KvCacheNode kv_cache_node

definition region_nodes :: "region_placement option \<Rightarrow> region_placement \<Rightarrow> execution_node list" where
  "region_nodes previous region =
     (if rp_transfer region \<noteq> NoTransfer
      then [WeightTransfer (rp_region_id region) (rp_store region) (rp_compute region) (rp_transfer region)] else [])
     @ (case previous of
          None \<Rightarrow> []
        | Some p \<Rightarrow>
            let source = residency_of_compute (rp_compute p); target = residency_of_compute (rp_compute region)
            in if source \<noteq> target then [ActivationTransfer (rp_region_id p) source target] else [])
     @ [RegionNode (rp_region_id region) (rp_kind region) (rp_compute region)]"

fun nodes_loop :: "region_placement option \<Rightarrow> region_placement list \<Rightarrow> execution_node list" where
  "nodes_loop previous [] = []"
| "nodes_loop previous (region # regions) = region_nodes previous region @ nodes_loop (Some region) regions"

definition from_resolved_placement :: "resolved_placement \<Rightarrow> execution_node list" where
  "from_resolved_placement pl = KvCacheNode (kv_node (pl_kv_cache pl)) # nodes_loop None (pl_region_placements pl)"

definition weight_transfers :: "execution_node list \<Rightarrow> transfer_policy list" where
  "weight_transfers nodes =
     List.map_filter (\<lambda>node. case node of WeightTransfer _ _ _ t \<Rightarrow> Some t | _ \<Rightarrow> None) nodes"

definition activation_transfers :: "execution_node list \<Rightarrow> execution_node list" where
  "activation_transfers nodes = filter (\<lambda>node. case node of ActivationTransfer _ _ _ \<Rightarrow> True | _ \<Rightarrow> False) nodes"

section \<open>Provider plans\<close>

record provider_plan =
  po_name :: string
  po_backends :: "backend_kind list"
  po_runnable :: bool
  po_limitations :: "string list"

text \<open>\<^verbatim>\<open>sort\<close> and \<^verbatim>\<open>dedup\<close>.\<close>

definition sort_dedup :: "string list \<Rightarrow> string list" where
  "sort_dedup xs = remdups_adj (sort xs)"

text \<open>\<^verbatim>\<open>join("; ")\<close>.\<close>

fun join_semicolons :: "string list \<Rightarrow> string" where
  "join_semicolons [] = []"
| "join_semicolons [x] = x"
| "join_semicolons (x # xs) = x @ ''; '' @ join_semicolons xs"

definition on_cpu :: "region_placement \<Rightarrow> bool" where
  "on_cpu p \<longleftrightarrow> rp_compute p = Cpu"

definition cpu_reference_limitations :: "resolved_placement \<Rightarrow> string list" where
  "cpu_reference_limitations pl =
     (let non_cpu = length (filter (\<lambda>p. \<not> on_cpu p) (pl_region_placements pl))
      in (if non_cpu > 0 then [show_nat non_cpu @ '' regions require non-CPU executor providers''] else [])
       @ (if kc_compute (pl_kv_cache pl) \<noteq> Cpu
          then [''kv-cache compute='' @ show_compute (kc_compute (pl_kv_cache pl)) @ '' needs a matching executor provider'']
          else []))"

definition cpu_reference_plan :: "resolved_placement \<Rightarrow> provider_plan" where
  "cpu_reference_plan pl =
     \<lparr>po_name = ''cpu-reference'', po_backends = [BkCpu], po_runnable = (cpu_reference_limitations pl = []),
      po_limitations = cpu_reference_limitations pl\<rparr>"

definition wgpu_plan :: provider_plan where
  "wgpu_plan = \<lparr>po_name = ''wgpu'', po_backends = [BkWgpu 0], po_runnable = True, po_limitations = []\<rparr>"

text \<open>The smallest device of a \<^verbatim>\<open>BTreeSet\<close> filled by the loop.\<close>

definition cuda_devices_of_region :: "region_placement \<Rightarrow> nat list" where
  "cuda_devices_of_region p =
     (case rp_compute p of Cuda d \<Rightarrow> [d] | _ \<Rightarrow> []) @ (case rp_store p of Vram d \<Rightarrow> [d] | _ \<Rightarrow> [])"

definition dominant_cuda_device :: "resolved_placement \<Rightarrow> nat option" where
  "dominant_cuda_device pl =
     (let devices = concat (map cuda_devices_of_region (pl_region_placements pl))
                      @ (case kc_compute (pl_kv_cache pl) of Cuda d \<Rightarrow> [d] | _ \<Rightarrow> [])
      in case sort devices of [] \<Rightarrow> None | d # _ \<Rightarrow> Some d)"

definition cuda_kernel_limitations :: "runtime_plan \<Rightarrow> string list" where
  "cuda_kernel_limitations rt = sort_dedup
     ((if count_resident_layout rt RepackedFp8 > 0
       then [''NVFP4 -> FP8 CUDA materialization is planned but the repack kernel is not implemented''] else [])
    @ (if count_resident_layout rt RepackedInt4 > 0
       then [''CUDA INT4 weight-only GEMM is planned (Phase 3.6) but the kernel is not yet implemented''] else [])
    @ (if count_resident_layout rt UnpackedI8Scales > 0
       then [''CUDA INT8 weight-only GEMM is planned (Phase 3.5) but the kernel is not yet implemented''] else [])
    @ (if count_family rt CudaGatedDeltaNet > 0
       then [''Gated DeltaNet (linear attention) kernel is planned (Phase 6) but not yet implemented''] else [])
    @ (if count_family rt CudaMambaScan > 0
       then [''Mamba selective-scan kernel is planned (Phase 7) but not yet implemented''] else []))"

definition kv_format_limitation :: "kv_cache_quantization \<Rightarrow> string list" where
  "kv_format_limitation q =
     (case q of
        KvQ8_0 \<Rightarrow> [''kv-cache q8_0 support is planned (Phase 3.4) but the store/load kernel is not yet implemented'']
      | KvNvfp4 \<Rightarrow> [''kv-cache nvfp4 (Blackwell FP4) support is planned (Phase 3.5) but the store/load kernel is not yet implemented'']
      | _ \<Rightarrow> [])"

definition cuda_limitations :: "resolved_placement \<Rightarrow> runtime_plan \<Rightarrow> nat \<Rightarrow> string list" where
  "cuda_limitations pl rt device =
     (let foreign_compute = length (filter (\<lambda>p. rp_compute p \<noteq> Cuda device) (pl_region_placements pl))
      in sort_dedup
       ((if foreign_compute > 0
         then [show_nat foreign_compute @ '' regions are not compute=cuda:'' @ show_nat device
                 @ ''; hybrid transfer/execution nodes are not wired yet''] else [])
      @ (if kc_compute (pl_kv_cache pl) \<noteq> Cuda device
         then [''kv-cache compute='' @ show_compute (kc_compute (pl_kv_cache pl))
                 @ '' does not match CUDA provider cuda:'' @ show_nat device] else [])
      @ kv_format_limitation (kc_quantization (pl_kv_cache pl))
      @ cuda_kernel_limitations rt))"

definition cuda_plan :: "resolved_placement \<Rightarrow> runtime_plan \<Rightarrow> provider_plan option" where
  "cuda_plan pl rt =
     map_option (\<lambda>device. \<lparr>po_name = ''cuda'', po_backends = [BkCuda device],
         po_runnable = (cuda_limitations pl rt device = []), po_limitations = cuda_limitations pl rt device\<rparr>)
       (dominant_cuda_device pl)"

section \<open>Checks of the executors\<close>

fun validate_cpu_regions :: "region_placement list \<Rightarrow> unit aegis_result" where
  "validate_cpu_regions [] = Inr ()"
| "validate_cpu_regions (p # ps) =
     (if rp_compute p \<noteq> Cpu
      then Inl (Unsupported (''generate CPU executor cannot run region `'' @ rp_region_id p @ ''` with compute=''
             @ show_compute (rp_compute p)))
      else validate_cpu_regions ps)"

definition validate_cpu_placement :: "resolved_placement \<Rightarrow> unit aegis_result" where
  "validate_cpu_placement pl =
     res_bind (validate_cpu_regions (pl_region_placements pl)) (\<lambda>_.
       if kc_compute (pl_kv_cache pl) \<noteq> Cpu
       then Inl (Unsupported (''generate CPU executor requires kv compute=cpu, got '' @ show_compute (kc_compute (pl_kv_cache pl))))
       else Inr ())"

fun validate_cuda_regions :: "nat \<Rightarrow> region_placement list \<Rightarrow> unit aegis_result" where
  "validate_cuda_regions device [] = Inr ()"
| "validate_cuda_regions device (p # ps) =
     (if rp_compute p \<noteq> Cuda device
      then Inl (Unsupported (''generate CUDA executor cannot run region `'' @ rp_region_id p @ ''` with compute=''
             @ show_compute (rp_compute p)))
      else case rp_store p of
        Vram store_device \<Rightarrow>
          if store_device \<noteq> device
          then Inl (Unsupported (''generate CUDA executor cannot read region `'' @ rp_region_id p @ ''` from vram:''
                 @ show_nat store_device @ '' on cuda:'' @ show_nat device))
          else validate_cuda_regions device ps
      | _ \<Rightarrow> validate_cuda_regions device ps)"

definition validate_cuda_placement :: "resolved_placement \<Rightarrow> nat \<Rightarrow> unit aegis_result" where
  "validate_cuda_placement pl device =
     res_bind (validate_cuda_regions device (pl_region_placements pl)) (\<lambda>_.
       if kc_compute (pl_kv_cache pl) \<noteq> Cuda device
       then Inl (Unsupported (''generate CUDA executor requires kv compute=cuda:'' @ show_nat device @ '', got ''
              @ show_compute (kc_compute (pl_kv_cache pl))))
       else Inr ())"

section \<open>The hybrid topology\<close>

text \<open>The devices of the \<^verbatim>\<open>BTreeSet\<close> in ascending order.\<close>

record hybrid_topology =
  ht_has_cpu :: bool
  ht_cuda_devices :: "nat list"

definition add_compute :: "compute_placement \<Rightarrow> hybrid_topology \<Rightarrow> hybrid_topology" where
  "add_compute compute t =
     (case compute of
        Cpu \<Rightarrow> t\<lparr>ht_has_cpu := True\<rparr>
      | Cuda device \<Rightarrow> t\<lparr>ht_cuda_devices := insort_insert device (ht_cuda_devices t)\<rparr>
      | Wgpu _ \<Rightarrow> t)"

definition topology_of_placement :: "resolved_placement \<Rightarrow> hybrid_topology" where
  "topology_of_placement pl =
     fold (\<lambda>p. add_compute (rp_compute p)) (pl_region_placements pl)
       (add_compute (kc_compute (pl_kv_cache pl)) \<lparr>ht_has_cpu = False, ht_cuda_devices = []\<rparr>)"

definition is_hybrid :: "hybrid_topology \<Rightarrow> bool" where
  "is_hybrid t \<longleftrightarrow> ht_has_cpu t \<and> ht_cuda_devices t \<noteq> [] \<or> length (ht_cuda_devices t) > 1"

definition topology_backends :: "hybrid_topology \<Rightarrow> backend_kind list" where
  "topology_backends t = (if ht_has_cpu t then [BkCpu] else []) @ map BkCuda (ht_cuda_devices t)"

definition hybrid_limitations :: "resolved_placement \<Rightarrow> runtime_plan \<Rightarrow> hybrid_topology \<Rightarrow> string list" where
  "hybrid_limitations pl rt topology =
     (let nodes = from_resolved_placement pl;
          device_to_host = length (filter (\<lambda>t. t = DeviceToHostEachUse) (weight_transfers nodes));
          cross_device = length (filter (\<lambda>t. t = CrossDevice) (weight_transfers nodes));
          non_cpu_bookends = length (filter (\<lambda>p. rp_layer_index p = None \<and> rp_compute p \<noteq> Cpu) (pl_region_placements pl))
      in sort_dedup
       (cuda_kernel_limitations rt
      @ (if length (ht_cuda_devices topology) > 1
         then [''multi-CUDA-device hybrid scheduling and peer transfer nodes are not wired yet''] else [])
      @ (if device_to_host > 0
         then [show_nat device_to_host @ '' CUDA-to-host weight staging nodes are not wired into the hybrid scheduler''] else [])
      @ (if cross_device > 0
         then [show_nat cross_device @ '' cross-device weight transfer nodes are not wired into the hybrid scheduler''] else [])
      @ (if non_cpu_bookends > 0
         then [show_nat non_cpu_bookends @ '' non-layer regions are not compute=cpu; hybrid MVP keeps embedding/final logits on CPU'']
         else [])))"

definition hybrid_plan :: "resolved_placement \<Rightarrow> runtime_plan \<Rightarrow> provider_plan option" where
  "hybrid_plan pl rt =
     (let topology = topology_of_placement pl; limitations = hybrid_limitations pl rt topology
      in if \<not> is_hybrid topology then None
         else Some \<lparr>po_name = ''hybrid'', po_backends = topology_backends topology,
                    po_runnable = (limitations = []), po_limitations = limitations\<rparr>)"

section \<open>The choice\<close>

record executor_readiness =
  er_selected_backend :: string
  er_runnable :: bool
  er_planned_cpu_regions :: nat
  er_planned_cuda_regions :: nat
  er_limitations :: "string list"

definition is_wgpu :: "compute_placement \<Rightarrow> bool" where
  "is_wgpu c \<longleftrightarrow> (case c of Wgpu _ \<Rightarrow> True | _ \<Rightarrow> False)"

definition select_provider_plan :: "resolved_placement \<Rightarrow> runtime_plan \<Rightarrow> nat \<Rightarrow> nat \<Rightarrow> provider_plan option" where
  "select_provider_plan pl rt planned_cpu_regions planned_cuda_regions =
     (if is_wgpu (kc_compute (pl_kv_cache pl)) \<or> list_ex (\<lambda>p. is_wgpu (rp_compute p)) (pl_region_placements pl)
      then Some wgpu_plan
      else if planned_cuda_regions = 0 then Some (cpu_reference_plan pl)
      else if planned_cpu_regions > 0 \<or> kc_compute (pl_kv_cache pl) = Cpu then hybrid_plan pl rt
      else cuda_plan pl rt)"

definition readiness_for_plan :: "resolved_placement \<Rightarrow> runtime_plan \<Rightarrow> executor_readiness" where
  "readiness_for_plan pl rt =
     (let planned_cuda_regions = length (filter (\<lambda>k. is_cuda (kp_device k)) (ru_kernels rt));
          planned_cpu_regions = length (filter (\<lambda>k. kp_device k = BkCpu) (ru_kernels rt));
          chosen = select_provider_plan pl rt planned_cpu_regions planned_cuda_regions;
          limitations = sort_dedup (case chosen of Some p \<Rightarrow> po_limitations p
                                    | None \<Rightarrow> [''no executor provider matched the resolved placement''])
      in \<lparr>er_selected_backend = (case chosen of Some p \<Rightarrow> po_name p | None \<Rightarrow> ''none''),
          er_runnable = (limitations = []), er_planned_cpu_regions = planned_cpu_regions,
          er_planned_cuda_regions = planned_cuda_regions, er_limitations = limitations\<rparr>)"

text \<open>
  The constructors of the four executors are arguments; the wgpu one is given the device of the KV cache.
\<close>

record 'x executor_builders =
  bu_cpu :: "'x aegis_result"
  bu_cuda :: "(string \<times> nat) option \<Rightarrow> 'x aegis_result"
  bu_hybrid :: "'x aegis_result"
  bu_wgpu :: "nat \<Rightarrow> 'x aegis_result"

definition build_native ::
  "'x executor_builders \<Rightarrow> resolved_placement \<Rightarrow> runtime_plan \<Rightarrow> string option \<Rightarrow> nat \<Rightarrow> 'x aegis_result" where
  "build_native bu pl rt draft_model num_draft_tokens =
     (let readiness = readiness_for_plan pl rt; selected = er_selected_backend readiness
      in if \<not> er_runnable readiness
         then Inl (Unsupported (''executor plan is not runnable yet: '' @ join_semicolons (er_limitations readiness)))
         else if draft_model \<noteq> None \<and> selected \<noteq> ''cuda''
         then Inl (Unsupported (''speculative decoding (--draft-model) is only supported on the CUDA backend; selected backend is `''
                @ selected @ ''`''))
         else if selected = ''cpu-reference'' then bu_cpu bu
         else if selected = ''cuda'' then bu_cuda bu (map_option (\<lambda>p. (p, num_draft_tokens)) draft_model)
         else if selected = ''hybrid'' then bu_hybrid bu
         else if selected = ''wgpu''
         then bu_wgpu bu (case kc_compute (pl_kv_cache pl) of Wgpu device \<Rightarrow> device | _ \<Rightarrow> 0)
         else Inl (Unsupported (selected @ '' executor plan is marked runnable but construction is not wired'')))"

section \<open>The hybrid schedule\<close>

datatype layer_backend = OnCpu | OnCuda

record hybrid_schedule =
  hs_cpu_layers :: "nat list"
  hs_cuda_layers :: "nat list"
  hs_schedule :: "layer_backend list"

text \<open>A layer beyond the schedule is a panic.\<close>

fun schedule_regions ::
  "nat \<Rightarrow> region_placement list \<Rightarrow> hybrid_schedule \<Rightarrow> hybrid_schedule aegis_result option" where
  "schedule_regions cuda_device [] hs = Some (Inr hs)"
| "schedule_regions cuda_device (p # ps) hs =
     (case rp_layer_index p of
        None \<Rightarrow> schedule_regions cuda_device ps hs
      | Some layer \<Rightarrow>
         (case rp_compute p of
            Cpu \<Rightarrow>
              if layer < length (hs_schedule hs)
              then schedule_regions cuda_device ps (hs\<lparr>hs_cpu_layers := insort_insert layer (hs_cpu_layers hs),
                     hs_schedule := (hs_schedule hs)[layer := OnCpu]\<rparr>)
              else None
          | Cuda device \<Rightarrow>
              if device \<noteq> cuda_device
              then Some (Inl (Unsupported (''hybrid executor cannot schedule layer.'' @ show_nat layer @ '' on cuda:''
                     @ show_nat device @ ''; selected cuda:'' @ show_nat cuda_device)))
              else if layer < length (hs_schedule hs)
              then schedule_regions cuda_device ps (hs\<lparr>hs_cuda_layers := insort_insert layer (hs_cuda_layers hs),
                     hs_schedule := (hs_schedule hs)[layer := OnCuda]\<rparr>)
              else None
          | Wgpu device \<Rightarrow>
              Some (Inl (Unsupported (''hybrid executor cannot schedule layer.'' @ show_nat layer @ '' on wgpu:''
                     @ show_nat device)))))"

text \<open>Every layer that shares the KV cache of another must run where that one runs.\<close>

fun kv_share_check :: "(nat \<Rightarrow> nat option) \<Rightarrow> layer_backend list \<Rightarrow> nat list \<Rightarrow> unit aegis_result option" where
  "kv_share_check parent_of schedule [] = Some (Inr ())"
| "kv_share_check parent_of schedule (layer # layers) =
     (case parent_of layer of
        None \<Rightarrow> kv_share_check parent_of schedule layers
      | Some parent \<Rightarrow>
          if parent \<ge> length schedule then None
          else if schedule ! layer \<noteq> schedule ! parent
          then Some (Inl (Unsupported (''hybrid Gemma-4: layer '' @ show_nat layer @ '' shares its KV cache with layer ''
                 @ show_nat parent @ '', but they are scheduled on different backends'')))
          else kv_share_check parent_of schedule layers)"

text \<open>
  \<open>load_cuda\<close>, \<open>load_g4\<close> (with the parent of every layer) and \<open>load_llama\<close> build
  the two sides; \<open>gemma4\<close> says whether the architecture is Gemma 4.
\<close>

datatype ('l, 'g) hybrid_cpu = LlamaCpu 'l | Gemma4Cpu 'g

definition hybrid_from_artifact ::
  "(nat \<Rightarrow> nat list \<Rightarrow> 'c aegis_result) \<Rightarrow> (nat list \<Rightarrow> 'l aegis_result) \<Rightarrow> ('g \<times> (nat \<Rightarrow> nat option)) aegis_result
   \<Rightarrow> bool \<Rightarrow> model_graph \<Rightarrow> resolved_placement \<Rightarrow> runtime_plan
   \<Rightarrow> (('l, 'g) hybrid_cpu \<times> 'c \<times> layer_backend list) aegis_result option" where
  "hybrid_from_artifact load_cuda load_llama load_g4 gemma4 graph pl rt =
     (case hybrid_plan pl rt of
        None \<Rightarrow> Some (Inl (InvalidPlan ''hybrid executor requested for non-hybrid placement''))
      | Some p \<Rightarrow>
         if \<not> po_runnable p
         then Some (Inl (Unsupported (''hybrid executor plan is not runnable yet: '' @ join_semicolons (po_limitations p))))
         else
         (case ht_cuda_devices (topology_of_placement pl) of
            [] \<Rightarrow> Some (Inl (InvalidPlan ''hybrid executor selected without CUDA device''))
          | cuda_device # _ \<Rightarrow>
             (case schedule_regions cuda_device (pl_region_placements pl)
                     \<lparr>hs_cpu_layers = [], hs_cuda_layers = [], hs_schedule = replicate (mg_num_layers graph) OnCpu\<rparr> of
                None \<Rightarrow> None
              | Some (Inl e) \<Rightarrow> Some (Inl e)
              | Some (Inr hs) \<Rightarrow>
                 (case load_cuda cuda_device (hs_cuda_layers hs) of
                    Inl e \<Rightarrow> Some (Inl e)
                  | Inr cuda \<Rightarrow>
                     if gemma4
                     then if list_ex (\<lambda>m. case lm_kind m of MoEDecoder _ _ _ \<Rightarrow> True | _ \<Rightarrow> False) (mg_layer_metadata graph)
                          then Some (Inl (Unsupported ''hybrid CPU+GPU execution for Gemma-4 is implemented for DENSE models (E2B/E4B) only''))
                          else (case load_g4 of
                                  Inl e \<Rightarrow> Some (Inl e)
                                | Inr (g4, parent_of) \<Rightarrow>
                                    map_option (map_sum id (\<lambda>_. (Gemma4Cpu g4, cuda, hs_schedule hs)))
                                      (kv_share_check parent_of (hs_schedule hs) [0..<mg_num_layers graph]))
                     else Some (map_sum id (\<lambda>llama. (LlamaCpu llama, cuda, hs_schedule hs))
                                  (load_llama (hs_cpu_layers hs)))))))"

section \<open>One token\<close>

text \<open>
  What the two sides compute: \<open>hp_cuda_layer\<close> is the step of one layer on the GPU and
  \<open>hp_cuda_block\<close> the one call for several layers. A side whose call fails keeps the state the call
  left.
\<close>

record ('l, 'g, 'c, 'h) hybrid_parts =
  hp_embed :: "nat \<Rightarrow> 'h aegis_result"
  hp_cpu_layer :: "'l \<Rightarrow> nat \<Rightarrow> nat \<Rightarrow> 'h \<Rightarrow> 'l \<times> 'h aegis_result"
  hp_cuda_layer :: "'c \<Rightarrow> nat \<Rightarrow> nat \<Rightarrow> 'h \<Rightarrow> 'c \<times> 'h aegis_result"
  hp_token_entry :: "'g \<Rightarrow> nat \<Rightarrow> 'g \<times> 'h aegis_result"
  hp_per_layer_inputs :: "'g \<Rightarrow> 'h"
  hp_g4_layer :: "'g \<Rightarrow> nat \<Rightarrow> nat \<Rightarrow> 'h \<Rightarrow> 'g \<times> 'h aegis_result"
  hp_cuda_block :: "'c \<Rightarrow> nat list \<Rightarrow> nat \<Rightarrow> 'h \<Rightarrow> 'h \<Rightarrow> 'c \<times> 'h aegis_result"
  hp_advance :: "'g \<Rightarrow> 'g"

record ('l, 'g, 'c, 'h) hybrid_state =
  hy_position :: nat
  hy_hidden :: "'h option"
  hy_cpu :: "('l, 'g) hybrid_cpu"
  hy_cuda :: 'c

fun llama_walk ::
  "('l, 'g, 'c, 'h) hybrid_parts \<Rightarrow> nat \<Rightarrow> (nat \<times> layer_backend) list \<Rightarrow> 'l \<times> 'c \<Rightarrow> 'h \<Rightarrow> ('l \<times> 'c) \<times> 'h aegis_result" where
  "llama_walk parts position [] (l, c) hidden = ((l, c), Inr hidden)"
| "llama_walk parts position ((layer, OnCpu) # rest) (l, c) hidden =
     (case hp_cpu_layer parts l layer position hidden of
        (l, Inl e) \<Rightarrow> ((l, c), Inl e)
      | (l, Inr hidden) \<Rightarrow> llama_walk parts position rest (l, c) hidden)"
| "llama_walk parts position ((layer, OnCuda) # rest) (l, c) hidden =
     (case hp_cuda_layer parts c layer position hidden of
        (c, Inl e) \<Rightarrow> ((l, c), Inl e)
      | (c, Inr hidden) \<Rightarrow> llama_walk parts position rest (l, c) hidden)"

text \<open>The loop over the schedule from \<open>layer\<close> on: a run of GPU layers is one call.\<close>

function g4_walk ::
  "('l, 'g, 'c, 'h) hybrid_parts \<Rightarrow> nat \<Rightarrow> 'h \<Rightarrow> nat \<Rightarrow> layer_backend list \<Rightarrow> 'g \<times> 'c \<Rightarrow> 'h \<Rightarrow> ('g \<times> 'c) \<times> 'h aegis_result" where
  "g4_walk parts position inputs layer [] (g, c) hidden = ((g, c), Inr hidden)"
| "g4_walk parts position inputs layer (OnCpu # rest) (g, c) hidden =
     (case hp_g4_layer parts g layer position hidden of
        (g, Inl e) \<Rightarrow> ((g, c), Inl e)
      | (g, Inr hidden) \<Rightarrow> g4_walk parts position inputs (layer + 1) rest (g, c) hidden)"
| "g4_walk parts position inputs layer (OnCuda # rest) (g, c) hidden =
     (let stop = layer + 1 + length (takeWhile (\<lambda>b. b = OnCuda) rest)
      in case hp_cuda_block parts c [layer..<stop] position hidden inputs of
           (c, Inl e) \<Rightarrow> ((g, c), Inl e)
         | (c, Inr hidden) \<Rightarrow>
             g4_walk parts position inputs stop (dropWhile (\<lambda>b. b = OnCuda) rest) (g, c) hidden)"
  by pat_completeness auto
termination
  by (relation "measure (\<lambda>(parts, position, inputs, layer, rest, st, hidden). length rest)")
    (auto simp: le_imp_less_Suc length_dropWhile_le)

definition variant_mismatch :: aegis_error where
  "variant_mismatch = InvalidPlan ''hybrid CPU executor/state variant mismatch''"

text \<open>\<open>gemma4\<close> is the variant of the executor; the state's variant is part of the state.\<close>

definition forward_hidden_host ::
  "('l, 'g, 'c, 'h) hybrid_parts \<Rightarrow> bool \<Rightarrow> layer_backend list \<Rightarrow> ('l, 'g, 'c, 'h) hybrid_state \<Rightarrow> nat
     \<Rightarrow> ('l, 'g, 'c, 'h) hybrid_state \<times> 'h aegis_result" where
  "forward_hidden_host parts gemma4 schedule st token_id =
     (case hy_cpu st of
        LlamaCpu l \<Rightarrow>
          if gemma4 then (st, Inl variant_mismatch)
          else (case hp_embed parts token_id of
                  Inl e \<Rightarrow> (st, Inl e)
                | Inr hidden \<Rightarrow>
                    (case llama_walk parts (hy_position st) (enumerate 0 schedule) (l, hy_cuda st) hidden of
                       ((l, c), Inl e) \<Rightarrow> (st\<lparr>hy_cpu := LlamaCpu l, hy_cuda := c\<rparr>, Inl e)
                     | ((l, c), Inr hidden) \<Rightarrow>
                         (st\<lparr>hy_cpu := LlamaCpu l, hy_cuda := c, hy_position := hy_position st + 1\<rparr>, Inr hidden)))
      | Gemma4Cpu g \<Rightarrow>
          if \<not> gemma4 then (st, Inl variant_mismatch)
          else (case hp_token_entry parts g token_id of
                  (g, Inl e) \<Rightarrow> (st\<lparr>hy_cpu := Gemma4Cpu g\<rparr>, Inl e)
                | (g, Inr hidden) \<Rightarrow>
                    (case g4_walk parts (hy_position st) (hp_per_layer_inputs parts g) 0 schedule (g, hy_cuda st) hidden of
                       ((g, c), Inl e) \<Rightarrow> (st\<lparr>hy_cpu := Gemma4Cpu g, hy_cuda := c\<rparr>, Inl e)
                     | ((g, c), Inr hidden) \<Rightarrow>
                         (st\<lparr>hy_cpu := Gemma4Cpu (hp_advance parts g), hy_cuda := c,
                             hy_position := hy_position st + 1\<rparr>, Inr hidden))))"

section \<open>Every layer in order\<close>

text \<open>The reference: one layer after the other, each on its side.\<close>

fun layer_by_layer ::
  "('l, 'g, 'c, 'h) hybrid_parts \<Rightarrow> ('c \<Rightarrow> nat \<Rightarrow> nat \<Rightarrow> 'h \<Rightarrow> 'h \<Rightarrow> 'c \<times> 'h aegis_result) \<Rightarrow> nat \<Rightarrow> 'h
     \<Rightarrow> (nat \<times> layer_backend) list \<Rightarrow> 'g \<times> 'c \<Rightarrow> 'h \<Rightarrow> ('g \<times> 'c) \<times> 'h aegis_result" where
  "layer_by_layer parts gpu position inputs [] (g, c) hidden = ((g, c), Inr hidden)"
| "layer_by_layer parts gpu position inputs ((layer, OnCpu) # rest) (g, c) hidden =
     (case hp_g4_layer parts g layer position hidden of
        (g, Inl e) \<Rightarrow> ((g, c), Inl e)
      | (g, Inr hidden) \<Rightarrow> layer_by_layer parts gpu position inputs rest (g, c) hidden)"
| "layer_by_layer parts gpu position inputs ((layer, OnCuda) # rest) (g, c) hidden =
     (case gpu c layer position hidden inputs of
        (c, Inl e) \<Rightarrow> ((g, c), Inl e)
      | (c, Inr hidden) \<Rightarrow> layer_by_layer parts gpu position inputs rest (g, c) hidden)"

text \<open>A GPU call for several layers does what the calls for one layer do, up to the first failure.\<close>

fun gpu_layers ::
  "('c \<Rightarrow> nat \<Rightarrow> nat \<Rightarrow> 'h \<Rightarrow> 'h \<Rightarrow> 'c \<times> 'h aegis_result) \<Rightarrow> 'c \<Rightarrow> nat list \<Rightarrow> nat \<Rightarrow> 'h \<Rightarrow> 'h \<Rightarrow> 'c \<times> 'h aegis_result" where
  "gpu_layers gpu c [] position hidden inputs = (c, Inr hidden)"
| "gpu_layers gpu c (layer # layers) position hidden inputs =
     (case gpu c layer position hidden inputs of
        (c, Inl e) \<Rightarrow> (c, Inl e)
      | (c, Inr hidden) \<Rightarrow> gpu_layers gpu c layers position hidden inputs)"

lemma gpu_run_layer_by_layer:
  "layer_by_layer parts gpu position inputs (map (\<lambda>layer. (layer, OnCuda)) layers @ rest) (g, c) hidden =
     (case gpu_layers gpu c layers position hidden inputs of
        (c, Inl e) \<Rightarrow> ((g, c), Inl e)
      | (c, Inr hidden) \<Rightarrow> layer_by_layer parts gpu position inputs rest (g, c) hidden)"
  by (induction layers arbitrary: c hidden) (auto split: prod.splits sum.splits)

lemma enumerate_cuda_run:
  "enumerate layer (OnCuda # rest) =
     map (\<lambda>layer. (layer, OnCuda)) [layer..<layer + 1 + length (takeWhile (\<lambda>b. b = OnCuda) rest)]
     @ enumerate (layer + 1 + length (takeWhile (\<lambda>b. b = OnCuda) rest)) (dropWhile (\<lambda>b. b = OnCuda) rest)"
proof -
  define run where "run = takeWhile (\<lambda>b. b = OnCuda) rest"
  define tail where "tail = dropWhile (\<lambda>b. b = OnCuda) rest"
  obtain n where n: "run = replicate n OnCuda"
    unfolding run_def by (metis (full_types) replicate_length_same set_takeWhileD)
  have "enumerate layer (OnCuda # rest) = enumerate layer (replicate (Suc n) OnCuda @ tail)"
    unfolding replicate_Suc n [symmetric] by (simp add: run_def tail_def)
  also have "\<dots> = map (\<lambda>layer. (layer, OnCuda)) [layer..<layer + Suc n] @ enumerate (layer + Suc n) tail"
    by (simp add: enumerate_append_eq enumerate_replicate_eq del: replicate_Suc upt_Suc)
  finally show ?thesis by (simp add: n flip: run_def tail_def)
qed

text \<open>
  Batching the runs of GPU layers into one call changes nothing: a token of the Gemma 4 hybrid
  passes every layer once, in order, on the side its schedule names, whatever the schedule is.
\<close>

theorem hybrid_blocks_run_in_order:
  assumes "hp_cuda_block parts = gpu_layers gpu"
  shows "g4_walk parts position inputs layer schedule (g, c) hidden =
    layer_by_layer parts gpu position inputs (enumerate layer schedule) (g, c) hidden"
  using assms
proof (induction parts position inputs layer schedule "(g, c)" hidden arbitrary: g c rule: g4_walk.induct)
  case (2 parts position inputs layer rest g c hidden)
  then show ?case by (auto split: prod.splits sum.splits)
next
  case (3 parts position inputs layer rest g c hidden)
  note run = enumerate_cuda_run [of layer rest]
  show ?case
    unfolding run gpu_run_layer_by_layer
    using 3 by (simp add: Let_def del: upt_Suc upt_conv_Cons split: prod.splits sum.splits)
qed simp

section \<open>A placement that is ready\<close>

lemma sort_dedup_Nil [simp]: "sort_dedup xs = [] \<longleftrightarrow> xs = []"
proof
  assume "sort_dedup xs = []"
  then have "set (remdups_adj (sort xs)) = {}" by (simp add: sort_dedup_def)
  then show "xs = []" by simp
qed (simp add: sort_dedup_def)

lemma planned_devices:
  assumes "runtime_build graph pl backends = Inr rt"
  shows "map kp_device (ru_kernels rt) = map (\<lambda>p. kind_of_compute (rp_compute p)) (pl_region_placements pl)"
proof -
  from assms obtain ns where "plan_kernels graph pl backends (pl_region_placements pl) = Inr (ru_kernels rt, ns)"
    by (auto simp: runtime_build_def res_bind_def split: sum.splits)
  from plan_kernels_Inr [OF this] show ?thesis
    by (induction rule: list_all2_induct) (auto elim: plan_kernel_Inr)
qed

lemma is_cuda_kind [simp]:
  "is_cuda (kind_of_compute c) \<longleftrightarrow> (\<exists>d. c = Cuda d)" "kind_of_compute c = BkCpu \<longleftrightarrow> c = Cpu"
  by (cases c; simp add: is_cuda_def)+

lemma planned_counts:
  assumes "runtime_build graph pl backends = Inr rt"
  shows "er_planned_cuda_regions (readiness_for_plan pl rt) > 0
      \<longleftrightarrow> (\<exists>p \<in> set (pl_region_placements pl). \<exists>d. rp_compute p = Cuda d)"
    "er_planned_cpu_regions (readiness_for_plan pl rt) > 0 \<longleftrightarrow> (\<exists>p \<in> set (pl_region_placements pl). rp_compute p = Cpu)"
proof -
  have count: "length (filter (\<lambda>k. P (kp_device k)) ks) > 0 \<longleftrightarrow> (\<exists>d \<in> set (map kp_device ks). P d)" for P ks
    by (auto simp: filter_empty_conv)
  show "er_planned_cuda_regions (readiness_for_plan pl rt) > 0
      \<longleftrightarrow> (\<exists>p \<in> set (pl_region_placements pl). \<exists>d. rp_compute p = Cuda d)"
    "er_planned_cpu_regions (readiness_for_plan pl rt) > 0 \<longleftrightarrow> (\<exists>p \<in> set (pl_region_placements pl). rp_compute p = Cpu)"
    using count [of is_cuda "ru_kernels rt"] count [of "\<lambda>d. d = BkCpu" "ru_kernels rt"]
    unfolding planned_devices [OF assms]
    by (simp_all add: readiness_for_plan_def Let_def image_iff eq_commute [of BkCpu] del: length_greater_0_conv)
qed

text \<open>What the chosen provider is and that it has nothing to object to, when the plan is runnable.\<close>

definition chosen_provider :: "resolved_placement \<Rightarrow> runtime_plan \<Rightarrow> provider_plan option" where
  "chosen_provider pl rt = select_provider_plan pl rt
     (er_planned_cpu_regions (readiness_for_plan pl rt)) (er_planned_cuda_regions (readiness_for_plan pl rt))"

lemma readiness_chosen:
  "er_selected_backend (readiness_for_plan pl rt)
      = (case chosen_provider pl rt of Some p \<Rightarrow> po_name p | None \<Rightarrow> ''none'')"
  "er_runnable (readiness_for_plan pl rt) \<longleftrightarrow> (\<exists>p. chosen_provider pl rt = Some p \<and> po_limitations p = [])"
  by (auto simp: readiness_for_plan_def chosen_provider_def Let_def split: option.splits)

lemma provider_names:
  "hybrid_plan pl rt = Some p \<Longrightarrow> po_name p = ''hybrid''"
  "cuda_plan pl rt = Some p \<Longrightarrow> po_name p = ''cuda''"
  "po_name (cpu_reference_plan pl) = ''cpu-reference''" "po_name wgpu_plan = ''wgpu''"
  by (auto simp: hybrid_plan_def cuda_plan_def cpu_reference_plan_def wgpu_plan_def Let_def split: if_splits)

lemma validate_cpu_regions_ok: "validate_cpu_regions ps = Inr () \<longleftrightarrow> (\<forall>p \<in> set ps. rp_compute p = Cpu)"
  by (induction ps) auto

lemma validate_cuda_regions_ok:
  "validate_cuda_regions device ps = Inr () \<longleftrightarrow>
     (\<forall>p \<in> set ps. rp_compute p = Cuda device \<and> (\<forall>d. rp_store p = Vram d \<longrightarrow> d = device))"
  by (induction ps) (auto split: storage_placement.splits)

lemma validate_cuda_ok:
  "validate_cuda_placement pl device = Inr () \<longleftrightarrow> kc_compute (pl_kv_cache pl) = Cuda device \<and>
     (\<forall>p \<in> set (pl_region_placements pl). rp_compute p = Cuda device \<and> (\<forall>d. rp_store p = Vram d \<longrightarrow> d = device))"
  using validate_cuda_regions_ok [of device "pl_region_placements pl"]
  by (auto simp: validate_cuda_placement_def res_simps)

lemma filter_length_zero: "\<not> 0 < length (filter P xs) \<longleftrightarrow> (\<forall>x \<in> set xs. \<not> P x)"
  by (auto simp: filter_empty_conv)

lemma cpu_reference_sound:
  assumes "po_limitations (cpu_reference_plan pl) = []"
  shows "validate_cpu_placement pl = Inr ()"
proof -
  from assms have "\<forall>p \<in> set (pl_region_placements pl). rp_compute p = Cpu" "kc_compute (pl_kv_cache pl) = Cpu"
    by (auto simp: cpu_reference_plan_def cpu_reference_limitations_def Let_def on_cpu_def filter_empty_conv split: if_splits)
  then show ?thesis
    using validate_cpu_regions_ok [of "pl_region_placements pl"] by (simp add: validate_cpu_placement_def res_bind_def)
qed

lemma cuda_sound:
  assumes "cuda_plan pl rt = Some p" "po_limitations p = []"
  obtains device where "dominant_cuda_device pl = Some device" "kc_compute (pl_kv_cache pl) = Cuda device"
    "\<forall>p \<in> set (pl_region_placements pl). rp_compute p = Cuda device"
    "kc_quantization (pl_kv_cache pl) \<notin> {KvQ8_0, KvNvfp4}" "cuda_kernel_limitations rt = []"
proof -
  from assms obtain device where "dominant_cuda_device pl = Some device" "cuda_limitations pl rt device = []"
    by (auto simp: cuda_plan_def)
  moreover from this have "kc_compute (pl_kv_cache pl) = Cuda device"
    "\<forall>p \<in> set (pl_region_placements pl). rp_compute p = Cuda device"
    "kv_format_limitation (kc_quantization (pl_kv_cache pl)) = []" "cuda_kernel_limitations rt = []"
    by (auto simp: cuda_limitations_def Let_def filter_empty_conv split: if_splits)
  ultimately show ?thesis
    using that by (auto simp: kv_format_limitation_def split: kv_cache_quantization.splits)
qed

text \<open>
  A placement that is announced as runnable passes the check of its executor: the CPU executor
  finds every region and the KV cache on the CPU, the CUDA executor finds all of them on its device,
  and only a region that is stored on another GPU can still make it refuse.
\<close>

theorem runnable_placement_validates:
  assumes "er_runnable (readiness_for_plan pl rt)"
  shows "(er_selected_backend (readiness_for_plan pl rt) = ''cpu-reference'' \<longrightarrow> validate_cpu_placement pl = Inr ()) \<and>
    (er_selected_backend (readiness_for_plan pl rt) = ''cuda'' \<longrightarrow>
      (\<exists>device. dominant_cuda_device pl = Some device \<and>
        (validate_cuda_placement pl device = Inr () \<longleftrightarrow>
          (\<forall>p \<in> set (pl_region_placements pl). \<forall>d. rp_store p = Vram d \<longrightarrow> d = device))))"
proof -
  from assms obtain p where p: "chosen_provider pl rt = Some p" "po_limitations p = []"
    by (auto simp: readiness_chosen)
  note pick = chosen_provider_def select_provider_plan_def
  have "validate_cpu_placement pl = Inr ()"
    if "er_selected_backend (readiness_for_plan pl rt) = ''cpu-reference''"
  proof -
    from p that have "p = cpu_reference_plan pl"
      by (auto simp: pick readiness_chosen provider_names dest: provider_names(1,2) split: if_splits)
    with p cpu_reference_sound show ?thesis by simp
  qed
  moreover have "\<exists>device. dominant_cuda_device pl = Some device \<and>
      (validate_cuda_placement pl device = Inr () \<longleftrightarrow>
        (\<forall>p \<in> set (pl_region_placements pl). \<forall>d. rp_store p = Vram d \<longrightarrow> d = device))"
    if "er_selected_backend (readiness_for_plan pl rt) = ''cuda''"
  proof -
    from p that have "cuda_plan pl rt = Some p"
      by (auto simp: pick readiness_chosen provider_names dest: provider_names(1) split: if_splits)
    from cuda_sound [OF this p(2)] obtain device where d: "dominant_cuda_device pl = Some device"
      "kc_compute (pl_kv_cache pl) = Cuda device"
      "\<forall>p \<in> set (pl_region_placements pl). rp_compute p = Cuda device" by metis
    show ?thesis by (rule exI [of _ device]) (use d in \<open>auto simp: validate_cuda_ok\<close>)
  qed
  ultimately show ?thesis by blast
qed

text \<open>
  A provider is found for every placement a runtime plan was built for: the name \<open>none\<close> is
  never announced for a plan with a region.
\<close>

lemma topology_devices:
  "set (ht_cuda_devices (topology_of_placement pl)) =
     {d. kc_compute (pl_kv_cache pl) = Cuda d \<or> (\<exists>p \<in> set (pl_region_placements pl). rp_compute p = Cuda d)}"
  "ht_has_cpu (topology_of_placement pl) \<longleftrightarrow>
     kc_compute (pl_kv_cache pl) = Cpu \<or> (\<exists>p \<in> set (pl_region_placements pl). rp_compute p = Cpu)"
proof -
  have "set (ht_cuda_devices (fold (\<lambda>p. add_compute (rp_compute p)) ps t)) =
      set (ht_cuda_devices t) \<union> {d. \<exists>p \<in> set ps. rp_compute p = Cuda d}"
    "ht_has_cpu (fold (\<lambda>p. add_compute (rp_compute p)) ps t) \<longleftrightarrow> ht_has_cpu t \<or> (\<exists>p \<in> set ps. rp_compute p = Cpu)"
    for ps :: "region_placement list" and t :: hybrid_topology
    by (induction ps arbitrary: t) (auto simp: add_compute_def set_insort_insert split: compute_placement.splits)
  then show "set (ht_cuda_devices (topology_of_placement pl)) =
     {d. kc_compute (pl_kv_cache pl) = Cuda d \<or> (\<exists>p \<in> set (pl_region_placements pl). rp_compute p = Cuda d)}"
    "ht_has_cpu (topology_of_placement pl) \<longleftrightarrow>
     kc_compute (pl_kv_cache pl) = Cpu \<or> (\<exists>p \<in> set (pl_region_placements pl). rp_compute p = Cpu)"
    by (auto simp: topology_of_placement_def add_compute_def set_insort_insert split: compute_placement.splits)
qed

theorem some_provider_chosen:
  assumes "runtime_build graph pl backends = Inr rt"
  shows "er_selected_backend (readiness_for_plan pl rt) \<in> {''cpu-reference'', ''cuda'', ''hybrid'', ''wgpu''}"
proof -
  have hybrid: "\<exists>p. hybrid_plan pl rt = Some p"
    if "\<exists>p \<in> set (pl_region_placements pl). \<exists>d. rp_compute p = Cuda d"
      "(\<exists>p \<in> set (pl_region_placements pl). rp_compute p = Cpu) \<or> kc_compute (pl_kv_cache pl) = Cpu"
  proof -
    have "set (ht_cuda_devices (topology_of_placement pl)) \<noteq> {}" "ht_has_cpu (topology_of_placement pl)"
      using that unfolding topology_devices by auto
    then show ?thesis by (simp add: hybrid_plan_def is_hybrid_def Let_def)
  qed
  have cuda: "\<exists>p. cuda_plan pl rt = Some p" if "\<exists>p \<in> set (pl_region_placements pl). \<exists>d. rp_compute p = Cuda d"
  proof -
    have "concat (map cuda_devices_of_region (pl_region_placements pl)) \<noteq> []"
      using that by (fastforce simp: cuda_devices_of_region_def)
    then have "sort (concat (map cuda_devices_of_region (pl_region_placements pl)) @ xs) \<noteq> []" for xs
      by (metis append_is_Nil_conv length_0_conv length_sort)
    then show ?thesis by (simp add: cuda_plan_def dominant_cuda_device_def Let_def split: list.split)
  qed
  have "\<exists>p. chosen_provider pl rt = Some p \<and> po_name p \<in> {''cpu-reference'', ''cuda'', ''hybrid'', ''wgpu''}"
  proof (cases "er_planned_cuda_regions (readiness_for_plan pl rt) > 0")
    case True
    with planned_counts [OF assms] have gpu: "\<exists>p \<in> set (pl_region_placements pl). \<exists>d. rp_compute p = Cuda d" by blast
    from cuda [OF gpu] hybrid [OF gpu] True planned_counts(2) [OF assms] show ?thesis
      by (simp add: chosen_provider_def select_provider_plan_def)
        (metis provider_names(1,2,4))
  qed (simp add: chosen_provider_def select_provider_plan_def provider_names)
  then show ?thesis by (auto simp: readiness_chosen)
qed

section \<open>The schedule of a runnable hybrid plan\<close>

lemma schedule_regions_ok:
  assumes "\<forall>p \<in> set ps. \<forall>layer. rp_layer_index p = Some layer \<longrightarrow> layer < length (hs_schedule hs)"
    and "\<forall>p \<in> set ps. rp_compute p = Cpu \<or> rp_compute p = Cuda device"
    and "distinct (List.map_filter rp_layer_index ps)"
  shows "\<exists>hs'. schedule_regions device ps hs = Some (Inr hs') \<and> length (hs_schedule hs') = length (hs_schedule hs) \<and>
    (\<forall>layer. layer \<notin> set (List.map_filter rp_layer_index ps) \<longrightarrow> hs_schedule hs' ! layer = hs_schedule hs ! layer) \<and>
    (\<forall>p \<in> set ps. \<forall>layer. rp_layer_index p = Some layer \<longrightarrow>
       hs_schedule hs' ! layer = (if rp_compute p = Cpu then OnCpu else OnCuda)) \<and>
    set (hs_cuda_layers hs') = set (hs_cuda_layers hs) \<union>
      {layer. \<exists>p \<in> set ps. rp_layer_index p = Some layer \<and> rp_compute p = Cuda device} \<and>
    set (hs_cpu_layers hs') = set (hs_cpu_layers hs) \<union>
      {layer. \<exists>p \<in> set ps. rp_layer_index p = Some layer \<and> rp_compute p = Cpu}"
  using assms
proof (induction ps arbitrary: hs)
  case (Cons p ps)
  show ?case
  proof (cases "rp_layer_index p")
    case None
    from Cons.IH [of hs] Cons.prems None show ?thesis by (simp add: map_filter_simps)
  next
    case (Some layer)
    have fresh: "layer \<notin> set (List.map_filter rp_layer_index ps)" "distinct (List.map_filter rp_layer_index ps)"
      using Cons.prems(3) Some by (simp_all add: map_filter_simps)
    have bound: "layer < length (hs_schedule hs)" using Cons.prems(1) Some by simp
    have other: "rp_layer_index q \<noteq> Some layer" if "q \<in> set ps" for q
      using fresh(1) that by (auto simp: map_filter_def image_iff)
    define hs1 where "hs1 = (if rp_compute p = Cpu
      then hs\<lparr>hs_cpu_layers := insort_insert layer (hs_cpu_layers hs), hs_schedule := (hs_schedule hs)[layer := OnCpu]\<rparr>
      else hs\<lparr>hs_cuda_layers := insort_insert layer (hs_cuda_layers hs), hs_schedule := (hs_schedule hs)[layer := OnCuda]\<rparr>)"
    have side: "rp_compute p = Cpu \<or> rp_compute p = Cuda device" using Cons.prems(2) by simp
    then have step: "schedule_regions device (p # ps) hs = schedule_regions device ps hs1"
      using Some bound by (auto simp: hs1_def)
    obtain hs' where IH: "schedule_regions device ps hs1 = Some (Inr hs')"
      "length (hs_schedule hs') = length (hs_schedule hs1)"
      "\<forall>l. l \<notin> set (List.map_filter rp_layer_index ps) \<longrightarrow> hs_schedule hs' ! l = hs_schedule hs1 ! l"
      "\<forall>q \<in> set ps. \<forall>l. rp_layer_index q = Some l \<longrightarrow> hs_schedule hs' ! l = (if rp_compute q = Cpu then OnCpu else OnCuda)"
      "set (hs_cuda_layers hs') = set (hs_cuda_layers hs1) \<union>
        {l. \<exists>q \<in> set ps. rp_layer_index q = Some l \<and> rp_compute q = Cuda device}"
      "set (hs_cpu_layers hs') = set (hs_cpu_layers hs1) \<union>
        {l. \<exists>q \<in> set ps. rp_layer_index q = Some l \<and> rp_compute q = Cpu}"
      using Cons.IH [of hs1] Cons.prems fresh by (auto simp: hs1_def)
    have at: "hs_schedule hs1 ! layer = (if rp_compute p = Cpu then OnCpu else OnCuda)"
      "l \<noteq> layer \<Longrightarrow> hs_schedule hs1 ! l = hs_schedule hs ! l" for l
      using bound by (simp_all add: hs1_def)
    have lists: "set (hs_cuda_layers hs1) = set (hs_cuda_layers hs) \<union> (if rp_compute p = Cpu then {} else {layer})"
      "set (hs_cpu_layers hs1) = set (hs_cpu_layers hs) \<union> (if rp_compute p = Cpu then {layer} else {})"
      by (auto simp: hs1_def set_insort_insert)
    show ?thesis
    proof (intro exI conjI)
      show "schedule_regions device (p # ps) hs = Some (Inr hs')" using step IH(1) by simp
      show "length (hs_schedule hs') = length (hs_schedule hs)" using IH(2) by (simp add: hs1_def)
      show "\<forall>l. l \<notin> set (List.map_filter rp_layer_index (p # ps)) \<longrightarrow> hs_schedule hs' ! l = hs_schedule hs ! l"
        using IH(3) at(2) Some by (simp add: map_filter_simps)
      show "\<forall>q \<in> set (p # ps). \<forall>l. rp_layer_index q = Some l \<longrightarrow>
          hs_schedule hs' ! l = (if rp_compute q = Cpu then OnCpu else OnCuda)"
        using IH(3,4) at(1) fresh(1) Some by simp
      show "set (hs_cuda_layers hs') = set (hs_cuda_layers hs) \<union>
          {l. \<exists>q \<in> set (p # ps). rp_layer_index q = Some l \<and> rp_compute q = Cuda device}"
        using IH(5) lists(1) side Some by auto
      show "set (hs_cpu_layers hs') = set (hs_cpu_layers hs) \<union>
          {l. \<exists>q \<in> set (p # ps). rp_layer_index q = Some l \<and> rp_compute q = Cpu}"
        using IH(6) lists(2) side Some by auto
    qed
  qed
qed (simp add: map_filter_simps)

lemma hybrid_sound:
  assumes "hybrid_plan pl rt = Some p" "po_limitations p = []"
  obtains device where "ht_cuda_devices (topology_of_placement pl) = [device]"
    "\<forall>q \<in> set (pl_region_placements pl). rp_layer_index q = None \<longrightarrow> rp_compute q = Cpu"
    "\<forall>d. (\<exists>q \<in> set (pl_region_placements pl). rp_compute q = Cuda d) \<longrightarrow> d = device"
    "\<forall>d. kc_compute (pl_kv_cache pl) = Cuda d \<longrightarrow> d = device"
proof -
  from assms have "is_hybrid (topology_of_placement pl)" and none: "hybrid_limitations pl rt (topology_of_placement pl) = []"
    by (auto simp: hybrid_plan_def Let_def split: if_splits)
  moreover from none have "length (ht_cuda_devices (topology_of_placement pl)) \<le> 1"
    by (auto simp: hybrid_limitations_def Let_def split: if_splits)
  ultimately obtain device where d: "ht_cuda_devices (topology_of_placement pl) = [device]"
    by (cases "ht_cuda_devices (topology_of_placement pl)") (auto simp: is_hybrid_def)
  moreover have "\<forall>q \<in> set (pl_region_placements pl). rp_layer_index q = None \<longrightarrow> rp_compute q = Cpu"
    using none by (auto simp: hybrid_limitations_def Let_def filter_empty_conv split: if_splits)
  moreover have "\<forall>d. (\<exists>q \<in> set (pl_region_placements pl). rp_compute q = Cuda d) \<longrightarrow> d = device"
    "\<forall>d. kc_compute (pl_kv_cache pl) = Cuda d \<longrightarrow> d = device"
    using topology_devices(1) [of pl] d by auto
  ultimately show ?thesis by (rule that)
qed

text \<open>
  When the hybrid executor is announced as runnable for a placement with one region per layer,
  the construction of its schedule succeeds, every layer runs where its region computes, the two
  sides load exactly the layers scheduled on them, and the only GPU is the one of the topology.
\<close>

theorem hybrid_schedule_follows_placement:
  assumes "er_runnable (readiness_for_plan pl rt)" "er_selected_backend (readiness_for_plan pl rt) = ''hybrid''"
    and "List.map_filter rp_layer_index (pl_region_placements pl) = [0..<n]"
  shows "\<exists>device hs. ht_cuda_devices (topology_of_placement pl) = [device] \<and>
    schedule_regions device (pl_region_placements pl)
      \<lparr>hs_cpu_layers = [], hs_cuda_layers = [], hs_schedule = replicate n OnCpu\<rparr> = Some (Inr hs) \<and>
    length (hs_schedule hs) = n \<and>
    (\<forall>p \<in> set (pl_region_placements pl). \<forall>layer. rp_layer_index p = Some layer \<longrightarrow>
       rp_compute p = (case hs_schedule hs ! layer of OnCpu \<Rightarrow> Cpu | OnCuda \<Rightarrow> Cuda device)) \<and>
    set (hs_cpu_layers hs) = {layer. layer < n \<and> hs_schedule hs ! layer = OnCpu} \<and>
    set (hs_cuda_layers hs) = {layer. layer < n \<and> hs_schedule hs ! layer = OnCuda}"
proof -
  let ?regions = "pl_region_placements pl"
  from assms(1,2) obtain p where p: "chosen_provider pl rt = Some p" "po_limitations p = []" "po_name p = ''hybrid''"
    by (auto simp: readiness_chosen)
  then have plan: "hybrid_plan pl rt = Some p"
    and wgpu: "\<not> list_ex (\<lambda>p. is_wgpu (rp_compute p)) ?regions"
    by (auto simp: chosen_provider_def select_provider_plan_def provider_names dest: provider_names(2) split: if_splits)
  from hybrid_sound [OF plan p(2)] obtain device where d: "ht_cuda_devices (topology_of_placement pl) = [device]"
    "\<forall>d. (\<exists>q \<in> set ?regions. rp_compute q = Cuda d) \<longrightarrow> d = device" by metis
  have sides: "\<forall>q \<in> set ?regions. rp_compute q = Cpu \<or> rp_compute q = Cuda device"
  proof
    fix q assume "q \<in> set ?regions"
    with wgpu d(2) show "rp_compute q = Cpu \<or> rp_compute q = Cuda device"
      by (cases "rp_compute q") (auto simp: list_ex_iff is_wgpu_def)
  qed
  have layer_iff: "(\<exists>q \<in> set ?regions. rp_layer_index q = Some layer) \<longleftrightarrow> layer < n" for layer
  proof -
    have "layer < n \<longleftrightarrow> layer \<in> set (List.map_filter rp_layer_index ?regions)" unfolding assms(3) by simp
    then show ?thesis by (force simp: map_filter_def image_iff)
  qed
  let ?start = "\<lparr>hs_cpu_layers = [], hs_cuda_layers = [], hs_schedule = replicate n OnCpu\<rparr>"
  have "\<forall>q \<in> set ?regions. \<forall>layer. rp_layer_index q = Some layer \<longrightarrow> layer < length (hs_schedule ?start)"
    using layer_iff by auto
  from schedule_regions_ok [OF this sides] assms(3) obtain hs where
    hs: "schedule_regions device ?regions ?start = Some (Inr hs)" "length (hs_schedule hs) = n"
    "\<forall>p \<in> set ?regions. \<forall>layer. rp_layer_index p = Some layer \<longrightarrow>
       hs_schedule hs ! layer = (if rp_compute p = Cpu then OnCpu else OnCuda)"
    "set (hs_cuda_layers hs) = {layer. \<exists>p \<in> set ?regions. rp_layer_index p = Some layer \<and> rp_compute p = Cuda device}"
    "set (hs_cpu_layers hs) = {layer. \<exists>p \<in> set ?regions. rp_layer_index p = Some layer \<and> rp_compute p = Cpu}"
    by auto
  have follows: "rp_compute p = (case hs_schedule hs ! layer of OnCpu \<Rightarrow> Cpu | OnCuda \<Rightarrow> Cuda device)"
    if "p \<in> set ?regions" "rp_layer_index p = Some layer" for p layer
    using hs(3) sides that by auto
  have "set (hs_cpu_layers hs) = {layer. layer < n \<and> hs_schedule hs ! layer = OnCpu}"
    "set (hs_cuda_layers hs) = {layer. layer < n \<and> hs_schedule hs ! layer = OnCuda}"
    unfolding hs(4,5) layer_iff [symmetric] using follows hs(3) sides by auto
  with d(1) hs(1,2) follows show ?thesis by blast
qed

section \<open>Two layers\<close>

definition two_layer_region :: "nat \<Rightarrow> storage_placement \<Rightarrow> compute_placement \<Rightarrow> region_placement" where
  "two_layer_region i store compute =
     \<lparr>rp_region_id = ''layer.'' @ show_nat i, rp_kind = RkTransformerBlock, rp_layer_index = Some i,
      rp_weight_bytes = 100, rp_store = store, rp_compute = compute, rp_transfer = NoTransfer\<rparr>"

definition two_layer_placement :: "compute_placement \<Rightarrow> region_placement list \<Rightarrow> resolved_placement" where
  "two_layer_placement kv regions =
     \<lparr>pl_model = ''m'', pl_weight_quantization = WqNone, pl_region_placements = regions,
      pl_kv_cache = \<lparr>kc_store = Ram, kc_compute = kv, kc_quantization = KvF16, kc_context_size = 8,
        kc_estimated_bytes = 96, kc_first_n_layers = None, kc_first_store = None\<rparr>,
      pl_budget = \<lparr>mb_ram_total_bytes = 1024, mb_ram_usable_bytes = 1024, mb_vram = []\<rparr>,
      pl_linear_layout = default_layout_policy, pl_warnings = [], pl_attention_quantization = OvDefault,
      pl_shared_mlp_quantization = OvDefault, pl_attention_store_override = None,
      pl_experts_compute_override = None, pl_experts_store_override = None\<rparr>"

definition two_layer_kernel :: "nat \<Rightarrow> compute_placement \<Rightarrow> kernel_plan" where
  "two_layer_kernel i compute =
     \<lparr>kp_name = ''layer.'' @ show_nat i, kp_device = kind_of_compute compute, kp_quant_format = DenseF32,
      kp_linear_layout = \<lparr>ll_source_format = DenseF32, ll_resident_layout = PackedSource,
        ll_materialization = lp_materialization default_layout_policy, ll_extra_weight_bytes = 0, ll_notes = []\<rparr>,
      kp_family = (if compute = Cpu then CpuSimd else CudaDenseTensorCores), kp_residency = Host,
      kp_sync = StreamOrdered\<rparr>"

definition two_layer_runtime :: "compute_placement \<Rightarrow> compute_placement \<Rightarrow> runtime_plan" where
  "two_layer_runtime first second =
     \<lparr>ru_kernels = [two_layer_kernel 0 first, two_layer_kernel 1 second], ru_warnings = []\<rparr>"

lemmas two_layer_defs = two_layer_region_def two_layer_placement_def two_layer_kernel_def two_layer_runtime_def
  readiness_for_plan_def select_provider_plan_def is_wgpu_def is_cuda_def sort_dedup_def Let_def

lemmas hybrid_defs = hybrid_plan_def hybrid_limitations_def topology_of_placement_def add_compute_def
  is_hybrid_def insort_insert_key_def cuda_kernel_limitations_def count_resident_layout_def count_family_def
  from_resolved_placement_def region_nodes_def weight_transfers_def map_filter_simps

definition split_placement :: resolved_placement where
  "split_placement = two_layer_placement Cpu [two_layer_region 0 Ram (Cuda 0), two_layer_region 1 Ram Cpu]"

lemma split_readiness:
  "er_runnable (readiness_for_plan split_placement (two_layer_runtime (Cuda 0) Cpu))"
  "er_selected_backend (readiness_for_plan split_placement (two_layer_runtime (Cuda 0) Cpu)) = ''hybrid''"
  by (simp_all add: split_placement_def two_layer_defs hybrid_defs)

lemma hybrid_schedule_follows_placement_witness:
  "\<exists>device hs. schedule_regions device (pl_region_placements split_placement)
      \<lparr>hs_cpu_layers = [], hs_cuda_layers = [], hs_schedule = replicate 2 OnCpu\<rparr> = Some (Inr hs) \<and>
    set (hs_cuda_layers hs) = {layer. layer < 2 \<and> hs_schedule hs ! layer = OnCuda} \<and>
    rp_compute (two_layer_region 0 Ram (Cuda 0)) = (case hs_schedule hs ! 0 of OnCpu \<Rightarrow> Cpu | OnCuda \<Rightarrow> Cuda device)"
proof -
  have "List.map_filter rp_layer_index (pl_region_placements split_placement) = [0..<2]"
    by (simp add: split_placement_def two_layer_defs map_filter_simps upt_rec)
  from hybrid_schedule_follows_placement [OF split_readiness this] obtain device hs where
    "schedule_regions device (pl_region_placements split_placement)
      \<lparr>hs_cpu_layers = [], hs_cuda_layers = [], hs_schedule = replicate 2 OnCpu\<rparr> = Some (Inr hs)"
    "set (hs_cuda_layers hs) = {layer. layer < 2 \<and> hs_schedule hs ! layer = OnCuda}"
    "\<forall>p \<in> set (pl_region_placements split_placement). \<forall>layer. rp_layer_index p = Some layer \<longrightarrow>
       rp_compute p = (case hs_schedule hs ! layer of OnCpu \<Rightarrow> Cpu | OnCuda \<Rightarrow> Cuda device)"
    by metis
  moreover have "two_layer_region 0 Ram (Cuda 0) \<in> set (pl_region_placements split_placement)"
    "rp_layer_index (two_layer_region 0 Ram (Cuda 0)) = Some 0"
    by (simp_all add: split_placement_def two_layer_placement_def two_layer_region_def)
  ultimately show ?thesis by metis
qed

definition foreign_placement :: resolved_placement where
  "foreign_placement =
     two_layer_placement (Cuda 0) [two_layer_region 0 (Vram 0) (Cuda 0), two_layer_region 1 (Vram 1) (Cuda 0)]"

text \<open>The case that is announced as runnable and refused: weights of another GPU.\<close>

lemma runnable_placement_validates_witness:
  "er_runnable (readiness_for_plan foreign_placement (two_layer_runtime (Cuda 0) (Cuda 0))) \<and>
   (\<exists>device. dominant_cuda_device foreign_placement = Some device \<and>
      validate_cuda_placement foreign_placement device \<noteq> Inr ())"
proof -
  let ?rt = "two_layer_runtime (Cuda 0) (Cuda 0)"
  have dominant: "dominant_cuda_device foreign_placement = Some 0"
    by (simp add: dominant_cuda_device_def foreign_placement_def two_layer_defs cuda_devices_of_region_def)
  have runnable: "er_runnable (readiness_for_plan foreign_placement ?rt)"
    "er_selected_backend (readiness_for_plan foreign_placement ?rt) = ''cuda''"
    using dominant
    by (simp_all add: foreign_placement_def two_layer_defs hybrid_defs cuda_plan_def cuda_limitations_def kv_format_limitation_def)
  from runnable_placement_validates [OF runnable(1)] runnable(2) obtain device where
    d: "dominant_cuda_device foreign_placement = Some device"
      "validate_cuda_placement foreign_placement device = Inr () \<longleftrightarrow>
        (\<forall>p \<in> set (pl_region_placements foreign_placement). \<forall>d. rp_store p = Vram d \<longrightarrow> d = device)" by blast
  have "two_layer_region i (Vram i) (Cuda 0) \<in> set (pl_region_placements foreign_placement)" if "i < 2" for i
    using that by (auto simp: foreign_placement_def two_layer_placement_def less_2_cases_iff)
  then have "two_layer_region 1 (Vram 1) (Cuda 0) \<in> set (pl_region_placements foreign_placement)" by simp
  moreover have "rp_store (two_layer_region 1 (Vram 1) (Cuda 0)) = Vram 1" by (simp add: two_layer_region_def)
  ultimately show ?thesis using runnable(1) d dominant by fastforce
qed

text \<open>
  The wgpu executor opens the device of the KV cache; when the cache stays on the CPU it opens
  device 0, wherever the regions are placed.
\<close>

theorem wgpu_device_of_regions_ignored:
  assumes "p \<in> set (pl_region_placements pl)" "rp_compute p = Wgpu device" "kc_compute (pl_kv_cache pl) = Cpu"
  shows "build_native bu pl rt None num_draft_tokens = bu_wgpu bu 0"
proof -
  have "list_ex (\<lambda>p. is_wgpu (rp_compute p)) (pl_region_placements pl)"
    using assms(1,2) by (force simp: list_ex_iff is_wgpu_def)
  then show ?thesis
    by (simp add: build_native_def readiness_for_plan_def select_provider_plan_def wgpu_plan_def sort_dedup_def Let_def assms(3))
qed

text \<open>A trace: every layer appends its number and its side.\<close>

definition trace_parts :: "(nat list, (nat \<times> layer_backend) list, (nat \<times> layer_backend) list, (nat \<times> layer_backend) list) hybrid_parts" where
  "trace_parts =
     \<lparr>hp_embed = \<lambda>t. Inr [], hp_cpu_layer = \<lambda>l layer position h. (l, Inr (h @ [(layer, OnCpu)])),
      hp_cuda_layer = \<lambda>c layer position h. (c, Inr (h @ [(layer, OnCuda)])),
      hp_token_entry = \<lambda>g t. (g, Inr []), hp_per_layer_inputs = \<lambda>g. [],
      hp_g4_layer = \<lambda>g layer position h. (g, Inr (h @ [(layer, OnCpu)])),
      hp_cuda_block = gpu_layers (\<lambda>c layer position h inputs. (c, Inr (h @ [(layer, OnCuda)]))),
      hp_advance = \<lambda>g. g\<rparr>"

lemma hybrid_blocks_run_in_order_witness:
  "snd (g4_walk trace_parts 7 [] 0 [OnCpu, OnCuda, OnCuda, OnCpu] ([], []) []) =
     Inr [(0, OnCpu), (1, OnCuda), (2, OnCuda), (3, OnCpu)]"
proof -
  have "hp_cuda_block trace_parts = gpu_layers (\<lambda>c layer position h inputs. (c, Inr (h @ [(layer, OnCuda)])))"
    by (simp add: trace_parts_def)
  from hybrid_blocks_run_in_order [OF this] show ?thesis by (simp add: trace_parts_def)
qed

end
