(* ===== verification/Engine.thy ===== *)
theory Engine
  imports MemoryPlan TensorStorage ExecutorPlan Generation
begin

text \<open>
  The engine (\<^verbatim>\<open>aegisllm/src/engine.rs\<close>): from a model, the hardware and a policy to the
  placement, the runtime plan, the memory plan, the storage plan and the executor, with the gates
  between them. The artifact and the inventory are what the file system and the detection return;
  \<open>executors\<close> are the constructors of the executors. \<open>None\<close> is a panic.
\<close>

section \<open>The gates\<close>

definition budget_phrase :: string where
  "budget_phrase = ''allocation exceeds usable budget''"

definition bypass_gate :: "environment \<Rightarrow> bool" where
  "bypass_gate env \<longleftrightarrow> env_set env ''AEGIS_BYPASS_BUDGET_GATE''"

definition validate_memory_budget :: "environment \<Rightarrow> memory_plan \<Rightarrow> unit aegis_result" where
  "validate_memory_budget env mem =
     (case find (\<lambda>warning. str_contains warning budget_phrase) (me_warnings mem) of
        None \<Rightarrow> Inr ()
      | Some warning \<Rightarrow>
          if bypass_gate env then Inr ()
          else Inl (InvalidPlan (''memory budget gate failed: '' @ warning)))"

definition gpu_supports_fp4 :: "gpu_info \<Rightarrow> bool" where
  "gpu_supports_fp4 gpu \<longleftrightarrow> gpu_arch gpu = Blackwell"

definition native_fp4 :: "runtime_plan \<Rightarrow> kernel_plan list" where
  "native_fp4 rt = filter (\<lambda>k. kp_family k = CudaNativeFp4TensorCores) (ru_kernels rt)"

fun check_fp4_kernels :: "hardware_inventory \<Rightarrow> kernel_plan list \<Rightarrow> unit aegis_result" where
  "check_fp4_kernels inventory [] = Inr ()"
| "check_fp4_kernels inventory (k # ks) =
     (case kp_device k of
        BkCuda device \<Rightarrow>
          (case find (\<lambda>gpu. gpu_index gpu = device) (hw_gpus inventory) of
             None \<Rightarrow> Inl (InvalidPlan (''native MXFP4 kernel `'' @ kp_name k @ ''` targets missing cuda:'' @ show_nat device))
           | Some gpu \<Rightarrow>
               if \<not> gpu_supports_fp4 gpu
               then Inl (Unsupported (''native MXFP4 kernel `'' @ kp_name k @ ''` requires a Blackwell/FP4 CUDA backend, got cuda:''
                      @ show_nat device @ '' '' @ gpu_name gpu))
               else check_fp4_kernels inventory ks)
      | _ \<Rightarrow> check_fp4_kernels inventory ks)"

definition validate_cuda_runtime_config ::
  "cuda_runtime_config \<Rightarrow> hardware_inventory \<Rightarrow> runtime_plan \<Rightarrow> unit aegis_result" where
  "validate_cuda_runtime_config cuda inventory rt =
     (if cu_native_mxfp4_inference cuda \<and> \<not> cu_native_mxfp4_repack cuda
      then Inl (InvalidConfig ''cuda.native-mxfp4-inference=true requires cuda.native-mxfp4-repack=true'')
      else if \<not> cu_native_mxfp4_inference cuda then Inr ()
      else if native_fp4 rt = []
      then Inl (InvalidConfig ''cuda.native-mxfp4-inference=true but the runtime plan has no native FP4 CUDA regions'')
      else check_fp4_kernels inventory (native_fp4 rt))"

definition check_backend :: "backend_registry \<Rightarrow> compute_placement \<Rightarrow> unit aegis_result" where
  "check_backend backends placement =
     (if contains_compute backends placement then Inr ()
      else Inl (InvalidPlan (''requested compute backend `'' @ show_compute placement @ ''` is not available'')))"

definition validate_policy_backends :: "backend_registry \<Rightarrow> placement_policy \<Rightarrow> unit aegis_result" where
  "validate_policy_backends backends policy =
     res_bind (check_backend backends (pp_weights_compute policy)) (\<lambda>_. check_backend backends (pp_kv_compute policy))"

section \<open>The engine\<close>

record engine_config =
  ec_model_path :: string
  ec_policy :: placement_policy
  ec_enable_executor :: bool
  ec_cuda :: cuda_runtime_config
  ec_draft_model :: "string option"
  ec_num_draft_tokens :: nat

definition engine_config_auto :: "environment \<Rightarrow> hardware_inventory \<Rightarrow> string \<Rightarrow> engine_config" where
  "engine_config_auto env inventory model_path =
     \<lparr>ec_model_path = model_path, ec_policy = auto_for inventory, ec_enable_executor = True,
      ec_cuda = from_env env, ec_draft_model = env ''AEGIS_DRAFT_MODEL'',
      ec_num_draft_tokens =
        (case Option.bind (env ''AEGIS_NUM_DRAFT_TOKENS'') parse_usize of
           None \<Rightarrow> 4
         | Some n \<Rightarrow> if n \<ge> 1 then n else 4)\<rparr>"

record 'x aegis_engine =
  en_artifact :: model_artifact
  en_graph :: model_graph
  en_inventory :: hardware_inventory
  en_backends :: backend_registry
  en_placement :: resolved_placement
  en_memory :: memory_plan
  en_runtime :: runtime_plan
  en_storage :: storage_plan
  en_cuda :: cuda_runtime_config
  en_draft_model :: "string option"
  en_num_draft_tokens :: nat
  en_executor :: "'x option"

type_synonym 'x executor_world =
  "model_artifact \<Rightarrow> model_graph \<Rightarrow> resolved_placement \<Rightarrow> runtime_plan \<Rightarrow> cuda_runtime_config \<Rightarrow> 'x executor_builders"

text \<open>
  What is outside: the process environment, the detected hardware and wgpu adapters, the artifact
  read from the path, and the last part of its path (\<open>None\<close> when it is no text).
\<close>

record 'x engine_world =
  ew_env :: environment
  ew_inventory :: hardware_inventory
  ew_adapters :: "(string \<times> string) list"
  ew_artifact :: "string \<Rightarrow> model_artifact aegis_result"
  ew_file_name :: "string \<Rightarrow> string option"
  ew_executors :: "'x executor_world"

definition build_plans :: "'x engine_world \<Rightarrow> engine_config \<Rightarrow> model_artifact \<Rightarrow> model_graph \<Rightarrow> 'x aegis_engine aegis_result" where
  "build_plans world config artifact graph =
     (let inventory = ew_inventory world; backends = registry_from_inventory (ew_adapters world) inventory
      in res_bind (validate_policy_backends backends (ec_policy config)) (\<lambda>_.
         res_bind (plan (case ew_file_name world (ec_model_path config) of Some name \<Rightarrow> name | None \<Rightarrow> ''model'')
                        graph inventory (ec_policy config)) (\<lambda>placement.
         res_bind (runtime_build graph placement backends) (\<lambda>rt.
         let mem = memory_plan_from (ew_env world) placement (Some rt) (Some graph) (ec_cuda config)
         in res_bind (validate_memory_budget (ew_env world) mem) (\<lambda>_.
            res_bind (validate_cuda_runtime_config (ec_cuda config) inventory rt) (\<lambda>_.
            Inr \<lparr>en_artifact = artifact, en_graph = graph, en_inventory = inventory, en_backends = backends,
                 en_placement = placement, en_memory = mem, en_runtime = rt,
                 en_storage = from_graph_and_placement graph placement, en_cuda = ec_cuda config,
                 en_draft_model = ec_draft_model config, en_num_draft_tokens = ec_num_draft_tokens config,
                 en_executor = None\<rparr>))))))"

definition native_executor :: "'x engine_world \<Rightarrow> 'x aegis_engine \<Rightarrow> 'x aegis_result" where
  "native_executor world e =
     build_native (ew_executors world (en_artifact e) (en_graph e) (en_placement e) (en_runtime e) (en_cuda e))
       (en_placement e) (en_runtime e) (en_draft_model e) (en_num_draft_tokens e)"

definition with_executor :: "'x engine_world \<Rightarrow> 'x aegis_engine \<Rightarrow> 'x aegis_engine aegis_result" where
  "with_executor world e =
     (if en_executor e \<noteq> None then Inr e
      else res_bind (native_executor world e) (\<lambda>x. Inr (e\<lparr>en_executor := Some x\<rparr>)))"

definition engine_build :: "'x engine_world \<Rightarrow> engine_config \<Rightarrow> 'x aegis_engine aegis_result option" where
  "engine_build world config =
     (case ew_artifact world (ec_model_path config) of
        Inl e \<Rightarrow> Some (Inl e)
      | Inr artifact \<Rightarrow>
         (case graph_from_artifact artifact of
            None \<Rightarrow> None
          | Some (Inl e) \<Rightarrow> Some (Inl e)
          | Some (Inr graph) \<Rightarrow>
              Some (res_bind (build_plans world config artifact graph) (\<lambda>e.
                if ec_enable_executor config
                then res_bind (native_executor world e) (\<lambda>x. Inr (e\<lparr>en_executor := Some x\<rparr>))
                else Inr e))))"

definition no_executor :: aegis_error where
  "no_executor = Unsupported ''engine was built without executor''"

text \<open>Generation on the primitives of the executor.\<close>

definition engine_generate :: "'s backend_primitives aegis_engine \<Rightarrow> generate_request \<Rightarrow> generate_output aegis_result" where
  "engine_generate e request =
     (case en_executor e of None \<Rightarrow> Inl no_executor | Some B \<Rightarrow> generate_with_backend B request)"

definition engine_generate_streaming ::
  "'s backend_primitives aegis_engine \<Rightarrow> generate_request \<Rightarrow> ('c \<Rightarrow> nat \<Rightarrow> string \<Rightarrow> bool \<times> 'c) \<Rightarrow> 'c
     \<Rightarrow> 'c \<times> generate_output aegis_result" where
  "engine_generate_streaming e request callback c =
     (case en_executor e of None \<Rightarrow> (c, Inl no_executor) | Some B \<Rightarrow> generate_streaming B request callback c)"

section \<open>The budget gate is exact\<close>

text \<open>The warnings of the spill never match the phrase of the gate: they have no letter x.\<close>

lemma show_nat_no_x: "CHR ''x'' \<notin> set (show_nat n)"
proof
  assume "CHR ''x'' \<in> set (show_nat n)"
  from show_nat_digits [OF this] show False by simp
qed

lemma spill_warning_no_phrase: "\<not> str_contains (spill_warning device used usable runtime) budget_phrase"
proof
  assume "str_contains (spill_warning device used usable runtime) budget_phrase"
  then have "set budget_phrase \<subseteq> set (spill_warning device used usable runtime)"
    by (simp add: str_contains_iff set_mono_sublist)
  moreover have "CHR ''x'' \<in> set budget_phrase" by (simp add: budget_phrase_def)
  moreover have "CHR ''x'' \<notin> set (spill_warning device used usable runtime)"
    by (simp add: spill_warning_def show_nat_no_x)
  ultimately show False by blast
qed

lemma budget_warning_phrase:
  "str_contains (ram_warning planned usable) budget_phrase"
  "str_contains (vram_warning device planned usable) budget_phrase"
  unfolding str_contains_iff sublist_def ram_warning_def vram_warning_def budget_phrase_def
  by (rule exI [of _ "''ram ''"], simp)
    (rule exI [of _ "''vram:'' @ show_nat device @ '' ''"], simp)

lemma trim_warnings:
  "trim_vram_to_budget pools kv policy ps ws = (ps', ws') \<Longrightarrow>
   \<forall>w \<in> set ws'. w \<in> set ws \<or> (\<exists>device used usable runtime. w = spill_warning device used usable runtime)"
proof (induction pools arbitrary: ps ws)
  case (Cons pool pools)
  obtain u qs where spill: "spill_rev policy (mp_device pool) (mp_usable_bytes pool)
      (wrapping_add (runtime_vram kv (mp_device pool)) (device_weight_bytes (mp_device pool) ps)) (rev ps) = (u, qs)"
    by force
  show ?case
  proof (cases "wrapping_add (runtime_vram kv (mp_device pool)) (device_weight_bytes (mp_device pool) ps) \<le> mp_usable_bytes pool")
    case True
    with Cons.prems show ?thesis by (intro Cons.IH [of ps ws]) (simp add: Let_def)
  next
    case False
    with Cons.prems spill have "trim_vram_to_budget pools kv policy (rev qs)
        (ws @ [spill_warning (mp_device pool) u (mp_usable_bytes pool) (runtime_vram kv (mp_device pool))]) = (ps', ws')"
      by (simp add: Let_def)
    note IH = Cons.IH [OF this]
    show ?thesis
    proof
      fix w assume "w \<in> set ws'"
      with IH show "w \<in> set ws \<or> (\<exists>device used usable runtime. w = spill_warning device used usable runtime)"
        unfolding set_append list.set by blast
    qed
  qed
qed simp

lemma concat_if_Nil: "concat (map (\<lambda>x. if c x then [w x] else []) xs) = [] \<longleftrightarrow> (\<forall>x \<in> set xs. \<not> c x)"
  by (induction xs) auto

lemma budget_warnings_Nil:
  "budget_warnings allocations budget = [] \<longleftrightarrow> bytes_in allocations PoolRam \<le> mb_ram_usable_bytes budget \<and>
     (\<forall>pool \<in> set (mb_vram budget). bytes_in allocations (PoolVram (mp_device pool)) \<le> mp_usable_bytes pool)"
  unfolding budget_warnings_def Let_def append_is_Nil_conv concat_if_Nil by (simp add: not_less)

lemma budget_warnings_match: "w \<in> set (budget_warnings allocations budget) \<Longrightarrow> str_contains w budget_phrase"
  by (auto simp: budget_warnings_def Let_def budget_warning_phrase split: if_splits)

definition within_budget :: "memory_plan \<Rightarrow> memory_budget \<Rightarrow> bool" where
  "within_budget mem budget \<longleftrightarrow> bytes_in_pool mem PoolRam \<le> mb_ram_usable_bytes budget \<and>
     (\<forall>pool \<in> set (mb_vram budget). bytes_in_pool mem (PoolVram (mp_device pool)) \<le> mp_usable_bytes pool)"

lemma budget_gate_iff:
  assumes "plan name graph inventory policy = Inr pl"
  shows "validate_memory_budget env (memory_plan_from env pl rt g cuda) = Inr () \<longleftrightarrow>
    bypass_gate env \<or> within_budget (memory_plan_from env pl rt g cuda) (pl_budget pl)"
proof -
  let ?mem = "memory_plan_from env pl rt g cuda"
  have spill: "\<forall>w \<in> set (pl_warnings pl). \<not> str_contains w budget_phrase"
    using trim_warnings [OF plan_Inr(4) [OF assms]] spill_warning_no_phrase by auto
  have warnings: "me_warnings ?mem = pl_warnings pl @ budget_warnings (me_allocations ?mem) (pl_budget pl)"
    by (simp add: memory_plan_from_def Let_def)
  have "find (\<lambda>w. str_contains w budget_phrase) (me_warnings ?mem) = None
      \<longleftrightarrow> budget_warnings (me_allocations ?mem) (pl_budget pl) = []"
  proof
    assume "find (\<lambda>w. str_contains w budget_phrase) (me_warnings ?mem) = None"
    then have "w \<notin> set (budget_warnings (me_allocations ?mem) (pl_budget pl))" for w
      using budget_warnings_match by (auto simp: find_None_iff warnings)
    then show "budget_warnings (me_allocations ?mem) (pl_budget pl) = []"
      by (metis list.set_intros(1) neq_Nil_conv)
  qed (use spill in \<open>auto simp: find_None_iff warnings\<close>)
  also have "\<dots> \<longleftrightarrow> within_budget ?mem (pl_budget pl)"
    by (simp add: budget_warnings_Nil within_budget_def bytes_in_pool_def)
  finally show ?thesis
    by (auto simp: validate_memory_budget_def split: option.splits)
qed

text \<open>
  The memory gate reads its verdict from the text of the warnings and is exact all the same: it
  passes if and only if it is bypassed or every pool of the memory plan, the host memory and the VRAM
  of every GPU, is within its usable budget; the warnings of a spill never trip it.
\<close>

theorem budget_gate_exact:
  assumes "plan name graph inventory policy = Inr pl"
  shows "validate_memory_budget env (memory_plan_from env pl rt g cuda) = Inr () \<longleftrightarrow>
    bypass_gate env \<or> within_budget (memory_plan_from env pl rt g cuda) (pl_budget pl)"
  by (rule budget_gate_iff [OF assms])

section \<open>What a built engine satisfies\<close>

lemma find_distinct_key:
  "distinct (map key xs) \<Longrightarrow> x \<in> set xs \<Longrightarrow> find (\<lambda>y. key y = key x) xs = Some x"
proof (induction xs)
  case (Cons a xs)
  then show ?case by (cases "key a = key x") (auto simp: image_iff)
qed simp

lemma fold_find_kind:
  "map_of (fold (\<lambda>x. insert_backend (mk x)) xs m) k = Some b \<Longrightarrow>
   map_of m k = Some b \<or> (\<exists>x \<in> set xs. b = mk x \<and> k = be_kind (mk x))"
  by (induction xs arbitrary: m) (fastforce split: if_splits)+

lemma fold_other_kind:
  "(\<And>x. k \<noteq> be_kind (mk x)) \<Longrightarrow> map_of (fold (\<lambda>x. insert_backend (mk x)) xs m) k = map_of m k"
  by (induction xs arbitrary: m) simp_all

lemma registry_cuda_backend:
  assumes "backend_get (registry_from_inventory adapters inventory) (BkCuda d) = Some b"
  obtains gpu where "gpu \<in> set (hw_gpus inventory)" "gpu_index gpu = d" "b = cuda_backend gpu"
proof -
  have wgpu: "(\<lambda>(idx, info). insert_backend (wgpu_backend idx info))
      = (\<lambda>x. insert_backend (case_prod wgpu_backend x))" by auto
  have kind: "BkCuda d \<noteq> be_kind (case_prod wgpu_backend x)" for x by (cases x) (simp add: wgpu_backend_def)
  have "map_of (fold (\<lambda>gpu. insert_backend (cuda_backend gpu)) (hw_gpus inventory)
      (insert_backend (cpu_backend inventory) [])) (BkCuda d) = Some b"
    using assms fold_other_kind [where mk = "case_prod wgpu_backend" and k = "BkCuda d"] kind
    unfolding backend_get_def registry_from_inventory_def Let_def wgpu by simp
  then obtain gpu where "gpu \<in> set (hw_gpus inventory)" "b = cuda_backend gpu" "BkCuda d = be_kind (cuda_backend gpu)"
    using fold_find_kind [of cuda_backend "hw_gpus inventory" "insert_backend (cpu_backend inventory) []"]
    by (fastforce simp: cpu_backend_def)
  then show ?thesis by (intro that) (auto simp: cuda_backend_def Let_def)
qed

lemma fp4_kernel_runs:
  assumes "runtime_build graph pl (registry_from_inventory adapters inventory) = Inr rt" "k \<in> set (native_fp4 rt)"
  shows "\<exists>gpu \<in> set (hw_gpus inventory). kp_device k = BkCuda (gpu_index gpu) \<and> gpu_supports_fp4 gpu"
proof -
  let ?reg = "registry_from_inventory adapters inventory"
  have k: "k \<in> set (ru_kernels rt)" "kp_family k = CudaNativeFp4TensorCores" using assms(2) by (auto simp: native_fp4_def)
  from built_kernels_run [OF assms(1)] k(1) obtain b where
    b: "backend_get ?reg (kp_device k) = Some b" "family_runs b (kp_quant_format k) (kp_family k)"
    unfolding list_all2_conv_all_nth in_set_conv_nth by metis
  from b(2) k(2) have run: "is_cuda (be_kind b)" "supports_tensor_core_precision b TcFp4" by (simp_all add: family_runs_def)
  have "be_kind b = kp_device k"
    using registry_from_inventory_ok b(1) by (auto simp: registry_ok_def backend_get_def descriptor_ok_def)
  with run(1) obtain d where d: "kp_device k = BkCuda d" by (cases "kp_device k") (auto simp: is_cuda_def)
  with b(1) obtain gpu where "gpu \<in> set (hw_gpus inventory)" "gpu_index gpu = d" "b = cuda_backend gpu"
    by (metis registry_cuda_backend)
  moreover from this run(2) have "gpu_supports_fp4 gpu"
    by (cases "gpu_arch gpu") (auto simp: supports_tensor_core_precision_def cuda_backend_def Let_def gpu_supports_fp4_def)
  ultimately show ?thesis using d by blast
qed

lemma check_fp4_kernels_ok:
  assumes "\<forall>k \<in> set ks. \<exists>gpu \<in> set (hw_gpus inventory). kp_device k = BkCuda (gpu_index gpu) \<and> gpu_supports_fp4 gpu"
    and "distinct (map gpu_index (hw_gpus inventory))"
  shows "check_fp4_kernels inventory ks = Inr ()"
  using assms(1)
proof (induction ks)
  case (Cons k ks)
  then obtain gpu where gpu: "gpu \<in> set (hw_gpus inventory)" "kp_device k = BkCuda (gpu_index gpu)" "gpu_supports_fp4 gpu"
    by auto
  then have "find (\<lambda>g. gpu_index g = gpu_index gpu) (hw_gpus inventory) = Some gpu"
    using find_distinct_key [OF assms(2)] by blast
  with Cons gpu show ?case by simp
qed simp

text \<open>
  For a runtime plan built from the detected hardware the inspection of the native FP4 kernels
  never fires: each of them is on a detected Blackwell GPU already, so the gate fails only when the
  repack is off or when no kernel is native FP4. GPU indices are distinct.
\<close>

theorem fp4_gate_only_needs_a_kernel:
  assumes "runtime_build graph pl (registry_from_inventory adapters inventory) = Inr rt"
    and "distinct (map gpu_index (hw_gpus inventory))"
  shows "validate_cuda_runtime_config cuda inventory rt = Inr () \<longleftrightarrow>
    (cu_native_mxfp4_inference cuda \<longrightarrow> cu_native_mxfp4_repack cuda \<and> native_fp4 rt \<noteq> [])"
proof -
  have "check_fp4_kernels inventory (native_fp4 rt) = Inr ()"
    using check_fp4_kernels_ok fp4_kernel_runs [OF assms(1)] assms(2) by blast
  then show ?thesis by (auto simp: validate_cuda_runtime_config_def)
qed

lemma build_plans_Inr:
  assumes "build_plans world config artifact graph = Inr e"
  shows "\<exists>name. plan name graph (ew_inventory world) (ec_policy config) = Inr (en_placement e)"
    "runtime_build graph (en_placement e) (registry_from_inventory (ew_adapters world) (ew_inventory world)) = Inr (en_runtime e)"
    "en_memory e = memory_plan_from (ew_env world) (en_placement e) (Some (en_runtime e)) (Some graph) (ec_cuda config)"
    "validate_memory_budget (ew_env world) (en_memory e) = Inr ()"
    "validate_cuda_runtime_config (ec_cuda config) (ew_inventory world) (en_runtime e) = Inr ()"
    "en_executor e = None" "en_graph e = graph"
  using assms by (auto simp: build_plans_def Let_def res_simps)

text \<open>
  C40: an engine that is built keeps every pool of its memory plan in the budget unless the gate is
  bypassed, has a kernel that runs on the device of every region, and, when the executor is asked for,
  an executor that was announced as runnable.
\<close>

theorem built_engine_is_sound:
  assumes "engine_build world config = Some (Inr e)"
  shows "(bypass_gate (ew_env world) \<or> within_budget (en_memory e) (pl_budget (en_placement e))) \<and>
    list_all2 (\<lambda>p k. kp_name k = rp_region_id p \<and> kp_device k = kind_of_compute (rp_compute p))
      (pl_region_placements (en_placement e)) (ru_kernels (en_runtime e)) \<and>
    (en_executor e \<noteq> None \<longleftrightarrow> ec_enable_executor config) \<and>
    (ec_enable_executor config \<longrightarrow> er_runnable (readiness_for_plan (en_placement e) (en_runtime e)))"
proof -
  from assms obtain artifact graph e0 where plans: "build_plans world config artifact graph = Inr e0"
    and built: "(if ec_enable_executor config
        then res_bind (native_executor world e0) (\<lambda>x. Inr (e0\<lparr>en_executor := Some x\<rparr>)) else Inr e0) = Inr e"
    by (auto simp: engine_build_def res_simps split: sum.splits option.splits)
  note parts = build_plans_Inr [OF plans]
  have same: "en_placement e = en_placement e0" "en_runtime e = en_runtime e0" "en_memory e = en_memory e0"
    using built by (auto simp: res_simps split: if_splits)
  have exec: "en_executor e \<noteq> None \<longleftrightarrow> ec_enable_executor config"
    using built parts(6) by (auto simp: res_simps split: if_splits)
  have ready: "er_runnable (readiness_for_plan (en_placement e0) (en_runtime e0))" if "ec_enable_executor config"
  proof -
    from that built obtain x where "native_executor world e0 = Inr x" by (auto simp: res_simps)
    then show ?thesis by (auto simp: native_executor_def build_native_def Let_def split: if_splits)
  qed
  from parts(1) obtain name where "plan name graph (ew_inventory world) (ec_policy config) = Inr (en_placement e0)" by blast
  from budget_gate_iff [OF this] parts(3,4)
  have budget: "bypass_gate (ew_env world) \<or> within_budget (en_memory e0) (pl_budget (en_placement e0))" by simp
  have "list_all2 (\<lambda>p k. kp_name k = rp_region_id p \<and> kp_device k = kind_of_compute (rp_compute p))
      (pl_region_placements (en_placement e0)) (ru_kernels (en_runtime e0))"
    using built_kernels_run [OF parts(2)] by (rule list_all2_mono) blast
  with budget exec ready show ?thesis by (simp add: same)
qed

text \<open>
  Building the plans first and the executor later, as the server does, gives the same engine and
  the same error as building both at once.
\<close>

theorem executor_may_come_later:
  assumes "ec_enable_executor config"
  shows "engine_build world config =
    map_option (\<lambda>r. res_bind r (with_executor world)) (engine_build world (config\<lparr>ec_enable_executor := False\<rparr>))"
proof -
  have plans: "build_plans world (config\<lparr>ec_enable_executor := False\<rparr>) artifact graph = build_plans world config artifact graph"
    for artifact graph by (simp add: build_plans_def)
  have "res_bind (build_plans world config artifact graph) (\<lambda>e.
      res_bind (native_executor world e) (\<lambda>x. Inr (e\<lparr>en_executor := Some x\<rparr>)))
    = res_bind (res_bind (build_plans world config artifact graph) Inr) (with_executor world)" for artifact graph
    using build_plans_Inr(6) [of world config artifact graph]
    by (cases "build_plans world config artifact graph") (auto simp: with_executor_def)
  with assms show ?thesis by (auto simp: engine_build_def plans split: sum.splits option.splits)
qed

section \<open>The automatic placement runs\<close>

lemma auto_policy_computes:
  "pp_weights_compute (auto_for inventory) =
     (case preferred_cuda inventory of None \<Rightarrow> Cpu | Some g \<Rightarrow> Cuda (gpu_index g))"
  "pp_spill_compute (auto_for inventory) = pp_weights_compute (auto_for inventory)"
  "pp_kv_compute (auto_for inventory) = pp_weights_compute (auto_for inventory)"
  "pp_weights_store (auto_for inventory) = (case preferred_cuda inventory of None \<Rightarrow> Mmap | Some g \<Rightarrow> Vram (gpu_index g))"
  "pp_spill_store (auto_for inventory) = Mmap" "pp_rules (auto_for inventory) = []"
  "pp_kv_quantization (auto_for inventory) = KvF16" "pp_linear_layout (auto_for inventory) = default_layout_policy"
  by (simp_all add: auto_for_def split: option.split)

lemma auto_regions:
  assumes "plan name graph inventory (auto_for inventory) = Inr pl" "p \<in> set (pl_region_placements pl)"
  shows "rp_compute p = pp_weights_compute (auto_for inventory)"
    "rp_store p \<in> {pp_weights_store (auto_for inventory), Mmap}"
proof -
  let ?policy = "auto_for inventory"
  have "list_all2 (\<lambda>r p. kept_or_spilled ?policy (place_region graph ?policy r) p)
      (mg_regions graph) (pl_region_placements pl)"
    using trim_moves [OF plan_Inr(4) [OF assms(1)]] by (simp add: list.rel_map)
  from list_all2_mem [OF this assms(2)] obtain r where "kept_or_spilled ?policy (place_region graph ?policy r) p" by blast
  then show "rp_compute p = pp_weights_compute ?policy" "rp_store p \<in> {pp_weights_store ?policy, Mmap}"
    by (auto simp: kept_or_spilled_def spilled_def place_region_def apply_rules_def auto_policy_computes(2,5,6))
qed

lemma default_layout_kernels:
  assumes "runtime_build graph pl backends = Inr rt" "pl_linear_layout pl = default_layout_policy"
  shows "cuda_kernel_limitations rt = []"
proof -
  from assms obtain ns where "plan_kernels graph pl backends (pl_region_placements pl) = Inr (ru_kernels rt, ns)"
    by (auto simp: runtime_build_def res_bind_def split: sum.splits)
  from plan_kernels_Inr [OF this] have kernels: "\<forall>k \<in> set (ru_kernels rt). \<exists>p n. plan_kernel graph pl backends p = Inr (k, n)"
    using list_all2_mem by fast
  have good: "ll_resident_layout (kp_linear_layout k) \<in> {PackedSource, NativeTensorCore, DenseTensorCore} \<and>
      kp_family k \<notin> {CudaGatedDeltaNet, CudaMambaScan}" if "k \<in> set (ru_kernels rt)" for k
  proof -
    from kernels that obtain p n where "plan_kernel graph pl backends p = Inr (k, n)" by blast
    then obtain b c f where c: "select_kernel kernel_registry b f = Some c"
      and family: "kp_family k = effective_family_for_layout (ca_family c) (ll_resident_layout (kp_linear_layout k))"
      and layout: "kp_linear_layout k = layout_plan (pl_linear_layout pl) b f (ca_family c) (rp_weight_bytes p)"
      by (elim plan_kernel_Inr) blast
    have res: "ll_resident_layout (kp_linear_layout k) \<in> {PackedSource, NativeTensorCore, DenseTensorCore}"
      unfolding layout assms(2)
      by (auto simp: layout_plan_def default_layout_policy_def plan_resident_layout_def plan_cuda_layout_def
          plan_cpu_layout_def native_layout_def Let_def split: prod.splits backend_kind.splits option.splits kernel_family.splits)
    have "ca_family c \<notin> {CudaGatedDeltaNet, CudaMambaScan}"
      using select_kernel_table_eq [of b f] c by (auto split: if_splits backend_kind.splits)
    with res family show ?thesis by auto
  qed
  have "count_resident_layout rt l = 0" if "l \<notin> {PackedSource, NativeTensorCore, DenseTensorCore}" for l
    using good that by (auto simp: count_resident_layout_def filter_empty_conv)
  moreover have "count_family rt family = 0" if "family \<in> {CudaGatedDeltaNet, CudaMambaScan}" for family
    using good that by (auto simp: count_family_def filter_empty_conv)
  ultimately show ?thesis by (simp add: cuda_kernel_limitations_def sort_dedup_def)
qed

lemma auto_ready:
  assumes "plan name graph inventory (auto_for inventory) = Inr pl" "runtime_build graph pl backends = Inr rt"
    and "mg_regions graph \<noteq> []"
  shows "er_runnable (readiness_for_plan pl rt) \<and>
    (case preferred_cuda inventory of
       None \<Rightarrow> er_selected_backend (readiness_for_plan pl rt) = ''cpu-reference'' \<and> validate_cpu_placement pl = Inr ()
     | Some g \<Rightarrow> er_selected_backend (readiness_for_plan pl rt) = ''cuda'' \<and>
         dominant_cuda_device pl = Some (gpu_index g) \<and> validate_cuda_placement pl (gpu_index g) = Inr ())"
proof -
  note regions = auto_regions [OF assms(1)]
  have kv: "kc_compute (pl_kv_cache pl) = pp_weights_compute (auto_for inventory)"
    "kc_quantization (pl_kv_cache pl) = KvF16"
    by (simp_all add: plan_Inr(3) [OF assms(1)] kv_placement_def auto_policy_computes(3,7))
  have layout: "pl_linear_layout pl = default_layout_policy"
    using assms(1) by (auto simp: plan_def Let_def auto_policy_computes(8) split: if_splits prod.splits)
  have nonempty: "pl_region_placements pl \<noteq> []"
    using trim_moves [OF plan_Inr(4) [OF assms(1)]] assms(3) by auto
  show ?thesis
  proof (cases "preferred_cuda inventory")
    case None
    then have cpu: "\<forall>p \<in> set (pl_region_placements pl). rp_compute p = Cpu" "kc_compute (pl_kv_cache pl) = Cpu"
      using regions(1) kv(1) by (simp_all add: auto_policy_computes(1))
    then have limits: "po_limitations (cpu_reference_plan pl) = []"
      by (simp add: cpu_reference_plan_def cpu_reference_limitations_def Let_def on_cpu_def filter_empty_conv)
    have "er_planned_cuda_regions (readiness_for_plan pl rt) = 0"
      using planned_counts(1) [OF assms(2)] cpu(1) by auto
    then have "chosen_provider pl rt = Some (cpu_reference_plan pl)"
      using cpu by (auto simp: chosen_provider_def select_provider_plan_def is_wgpu_def list_ex_iff)
    then show ?thesis
      using None limits cpu_reference_sound [OF limits] by (simp add: readiness_chosen provider_names)
  next
    case (Some g)
    let ?d = "gpu_index g"
    have gpu: "\<forall>p \<in> set (pl_region_placements pl). rp_compute p = Cuda ?d" "kc_compute (pl_kv_cache pl) = Cuda ?d"
      using Some regions(1) kv(1) by (simp_all add: auto_policy_computes(1))
    have store: "\<forall>p \<in> set (pl_region_placements pl). rp_store p \<in> {Vram ?d, Mmap}"
      using Some regions(2) by (simp add: auto_policy_computes(4))
    have devices: "set (concat (map cuda_devices_of_region (pl_region_placements pl)) @ [?d]) = {?d}"
      using gpu(1) store by (auto simp: cuda_devices_of_region_def)
    then have "set (sort (concat (map cuda_devices_of_region (pl_region_placements pl)) @ [?d])) = {?d}" by simp
    then have dominant: "dominant_cuda_device pl = Some ?d"
      using gpu(2) unfolding dominant_cuda_device_def Let_def
      by (cases "sort (concat (map cuda_devices_of_region (pl_region_placements pl)) @ [?d])") auto
    have limits: "cuda_limitations pl rt ?d = []"
      using gpu kv(2) default_layout_kernels [OF assms(2) layout]
      by (simp add: cuda_limitations_def Let_def kv_format_limitation_def filter_empty_conv)
    have "er_planned_cuda_regions (readiness_for_plan pl rt) > 0" "er_planned_cpu_regions (readiness_for_plan pl rt) = 0"
      using planned_counts [OF assms(2)] gpu(1) nonempty by (auto simp: neq_Nil_conv)
    then have "chosen_provider pl rt = cuda_plan pl rt"
      using gpu by (auto simp: chosen_provider_def select_provider_plan_def is_wgpu_def list_ex_iff)
    then have "chosen_provider pl rt = Some \<lparr>po_name = ''cuda'', po_backends = [BkCuda ?d], po_runnable = True, po_limitations = []\<rparr>"
      by (simp add: cuda_plan_def dominant limits)
    moreover have "validate_cuda_placement pl ?d = Inr ()"
      using gpu store by (auto simp: validate_cuda_ok)
    ultimately show ?thesis using Some dominant by (simp add: readiness_chosen)
  qed
qed

text \<open>
  C39: the automatic placement of any model is announced as runnable and passes the check of its
  executor: on the CPU executor when there is no GPU, else on the CUDA executor of the preferred GPU.
\<close>

theorem auto_placement_is_runnable:
  assumes "plan name graph inventory (auto_for inventory) = Inr pl" "runtime_build graph pl backends = Inr rt"
    and "mg_regions graph \<noteq> []"
  shows "er_runnable (readiness_for_plan pl rt) \<and>
    (case preferred_cuda inventory of
       None \<Rightarrow> er_selected_backend (readiness_for_plan pl rt) = ''cpu-reference'' \<and> validate_cpu_placement pl = Inr ()
     | Some g \<Rightarrow> er_selected_backend (readiness_for_plan pl rt) = ''cuda'' \<and>
         dominant_cuda_device pl = Some (gpu_index g) \<and> validate_cuda_placement pl (gpu_index g) = Inr ())"
  using assms by (rule auto_ready)

section \<open>A machine without a GPU\<close>

definition cpu_inventory :: hardware_inventory where
  "cpu_inventory = demo_inventory\<lparr>hw_gpus := []\<rparr>"

definition cpu_world :: "unit engine_world" where
  "cpu_world =
     \<lparr>ew_env = (\<lambda>name. if name = ''AEGIS_BYPASS_BUDGET_GATE'' then Some ''1'' else None),
      ew_inventory = cpu_inventory, ew_adapters = [], ew_artifact = (\<lambda>_. Inr demo_artifact),
      ew_file_name = (\<lambda>_. Some ''m''),
      ew_executors = (\<lambda>_ _ _ _ _. \<lparr>bu_cpu = Inr (), bu_cuda = \<lambda>_. Inr (), bu_hybrid = Inr (), bu_wgpu = \<lambda>_. Inr ()\<rparr>)\<rparr>"

definition cpu_config :: engine_config where
  "cpu_config = engine_config_auto (ew_env cpu_world) cpu_inventory ''m''"

lemma cpu_config_simps:
  "ec_policy cpu_config = auto_for cpu_inventory" "ec_enable_executor cpu_config"
  "\<not> cu_native_mxfp4_inference (ec_cuda cpu_config)" "ec_draft_model cpu_config = None"
  by (simp_all add: cpu_config_def engine_config_auto_def cpu_world_def from_env_def env_set_def)

lemma cpu_preferred: "preferred_cuda cpu_inventory = None"
  by (simp add: preferred_cuda_def cpu_inventory_def max_by_key_def)

lemma cpu_engine_builds:
  "\<exists>e. engine_build cpu_world cpu_config = Some (Inr e) \<and> en_executor e = Some ()"
proof -
  obtain g where g: "graph_from_artifact demo_artifact = Some (Inr g)" using demo_graph by blast
  let ?reg = "registry_from_inventory (ew_adapters cpu_world) (ew_inventory cpu_world)"
  have cpu: "contains_compute ?reg Cpu" unfolding contains_compute_def registry_has_kinds by simp
  have computes: "pp_weights_compute (auto_for cpu_inventory) = Cpu" "pp_kv_compute (auto_for cpu_inventory) = Cpu"
    by (simp_all add: auto_policy_computes(1,3) cpu_preferred)
  have "pp_context_size (auto_for cpu_inventory) \<noteq> 0" by (simp add: auto_for_def split: option.split)
  then obtain pl where pl: "plan ''m'' g cpu_inventory (auto_for cpu_inventory) = Inr pl"
    by (cases "trim_vram_to_budget (mb_vram (budget_from_inventory cpu_inventory (auto_for cpu_inventory)))
        (kv_placement g (auto_for cpu_inventory)) (auto_for cpu_inventory)
        (map (place_region g (auto_for cpu_inventory)) (mg_regions g)) []") (simp add: plan_def Let_def)
  then obtain rt where rt: "runtime_build g pl ?reg = Inr rt"
    using runtime_build_total [OF pl] cpu auto_regions(1) [OF pl] computes(1) by metis
  have "length (filter (\<lambda>r. gr_kind r = RkTransformerBlock) (mg_regions g)) = 2"
    using graph_one_block_per_layer [OF g] by (auto simp: demo_artifact_def dest: map_eq_imp_length_eq)
  then have "mg_regions g \<noteq> []" by auto
  from auto_ready [OF pl rt this] have ready: "er_runnable (readiness_for_plan pl rt)"
    "er_selected_backend (readiness_for_plan pl rt) = ''cpu-reference''" by (simp_all add: cpu_preferred)
  have gate: "validate_memory_budget (ew_env cpu_world) mem = Inr ()" for mem
    by (simp add: validate_memory_budget_def bypass_gate_def env_set_def cpu_world_def split: option.split)
  obtain e where e: "build_plans cpu_world cpu_config demo_artifact g = Inr e" "en_placement e = pl" "en_runtime e = rt"
    "en_draft_model e = None"
    using pl rt cpu gate cpu_config_simps(3,4)
    by (auto simp: build_plans_def cpu_config_simps(1) validate_policy_backends_def check_backend_def computes
        validate_cuda_runtime_config_def Let_def cpu_world_def)
  have "native_executor cpu_world e = Inr ()"
    using ready by (simp add: native_executor_def build_native_def Let_def e(2-4) cpu_world_def)
  then show ?thesis
    by (simp add: engine_build_def cpu_world_def [THEN arg_cong [where f = ew_artifact]] g e(1) cpu_config_simps(2))
qed

lemma built_engine_is_sound_witness:
  "\<exists>e. engine_build cpu_world cpu_config = Some (Inr e) \<and> en_executor e \<noteq> None \<and>
     er_runnable (readiness_for_plan (en_placement e) (en_runtime e))"
proof -
  obtain e where e: "engine_build cpu_world cpu_config = Some (Inr e)" using cpu_engine_builds by blast
  from built_engine_is_sound [OF e] e cpu_config_simps(2) show ?thesis by blast
qed

lemma executor_may_come_later_witness:
  "\<exists>e. engine_build cpu_world cpu_config = Some (Inr e) \<and>
     map_option (\<lambda>r. res_bind r (with_executor cpu_world))
       (engine_build cpu_world (cpu_config\<lparr>ec_enable_executor := False\<rparr>)) = Some (Inr e)"
  using cpu_engine_builds executor_may_come_later [OF cpu_config_simps(2), of cpu_world] by metis

lemma auto_placement_is_runnable_witness:
  "\<exists>pl rt. plan ''m'' demo_model demo_inventory (auto_for demo_inventory) = Inr pl \<and>
     runtime_build demo_model pl (registry_from_inventory [] demo_inventory) = Inr rt \<and>
     validate_cuda_placement pl 0 = Inr ()"
proof -
  let ?reg = "registry_from_inventory [] demo_inventory"
  have gpu: "preferred_cuda demo_inventory = Some (hd (hw_gpus demo_inventory))" "gpu_index (hd (hw_gpus demo_inventory)) = 0"
    by (simp_all add: preferred_cuda_def max_by_key_def demo_inventory_def)
  have "pp_context_size (auto_for demo_inventory) \<noteq> 0" by (simp add: demo_auto)
  then obtain pl where pl: "plan ''m'' demo_model demo_inventory (auto_for demo_inventory) = Inr pl"
    by (cases "trim_vram_to_budget (mb_vram (budget_from_inventory demo_inventory (auto_for demo_inventory)))
        (kv_placement demo_model (auto_for demo_inventory)) (auto_for demo_inventory)
        (map (place_region demo_model (auto_for demo_inventory)) (mg_regions demo_model)) []") (simp add: plan_def Let_def)
  have "contains_compute ?reg (Cuda 0)" unfolding contains_compute_def registry_has_kinds by (simp add: demo_inventory_def)
  then obtain rt where rt: "runtime_build demo_model pl ?reg = Inr rt"
    using runtime_build_total [OF pl, of ?reg] auto_regions(1) [OF pl] by (auto simp: auto_policy_computes(1) gpu)
  have "mg_regions demo_model \<noteq> []" by (simp add: demo_model_def)
  from auto_placement_is_runnable [OF pl rt this] pl rt show ?thesis by (auto simp: gpu)
qed

lemma budget_gate_exact_witness:
  "\<exists>pl. plan ''m'' demo_model demo_inventory demo_policy = Inr pl \<and>
     (validate_memory_budget (\<lambda>_. None) (memory_plan_from (\<lambda>_. None) pl None None (from_env (\<lambda>_. None))) = Inr () \<longleftrightarrow>
      within_budget (memory_plan_from (\<lambda>_. None) pl None None (from_env (\<lambda>_. None))) (pl_budget pl))"
proof -
  obtain pl where pl: "plan ''m'' demo_model demo_inventory demo_policy = Inr pl" using demo_plan by blast
  from budget_gate_exact [OF pl, of "\<lambda>_. None"] pl show ?thesis by (auto simp: bypass_gate_def env_set_def)
qed

lemma fp4_gate_only_needs_a_kernel_witness:
  "\<exists>pl rt. runtime_build demo_model pl (registry_from_inventory [] demo_inventory) = Inr rt \<and>
     (validate_cuda_runtime_config ((from_env (\<lambda>_. None))\<lparr>cu_native_mxfp4_inference := True,
         cu_native_mxfp4_repack := True\<rparr>) demo_inventory rt = Inr () \<longleftrightarrow> native_fp4 rt \<noteq> [])"
proof -
  let ?reg = "registry_from_inventory [] demo_inventory"
  obtain pl where pl: "plan ''m'' demo_model demo_inventory demo_policy = Inr pl" using demo_plan by blast
  have empty: "runtime_build demo_model (pl\<lparr>pl_region_placements := []\<rparr>) ?reg
      = Inr \<lparr>ru_kernels = [], ru_warnings = kernel_warnings (mg_weight_quantization demo_model) []
          @ kv_warnings (pl\<lparr>pl_region_placements := []\<rparr>)\<rparr>"
    by (simp add: runtime_build_def)
  have "distinct (map gpu_index (hw_gpus demo_inventory))" by (simp add: demo_inventory_def)
  from fp4_gate_only_needs_a_kernel [OF empty this] empty show ?thesis by (intro exI conjI) (assumption, simp)
qed

end
