(* ===== verification/HttpWire.thy ===== *)
theory HttpWire
  imports CudaConfig
begin

text \<open>
  The bytes on the wire of \<^verbatim>\<open>aegisllm/src/server/http.rs\<close>: the connection, reading a
  request, the credential it presents, plain responses and the chunked encoding of an event stream.
  A connection is the list of what successive reads return and the number of bytes the peer still
  accepts: a connection that broke stays broken. The reference for the chunked encoding is a decoder after RFC 9112.
\<close>

section \<open>The connection\<close>

record tcp_stream =
  ts_reads :: "string aegis_result list"
  ts_written :: string
  ts_accepts :: nat

definition broken_pipe :: aegis_error where
  "broken_pipe = Io ''broken pipe''"

text \<open>
  \<^verbatim>\<open>write_all\<close> and \<^verbatim>\<open>write!\<close>: the bytes go out until the peer stops accepting.
\<close>

definition write_all :: "string \<Rightarrow> tcp_stream \<Rightarrow> tcp_stream \<times> unit aegis_result" where
  "write_all s t =
     (let n = min (length s) (ts_accepts t);
          t' = t\<lparr>ts_written := ts_written t @ take n s, ts_accepts := ts_accepts t - n\<rparr>
      in (t', if n = length s then Inr () else Inl broken_pipe))"

text \<open>Writes one after the other, up to the first that fails.\<close>

fun write_each :: "string list \<Rightarrow> tcp_stream \<Rightarrow> tcp_stream \<times> unit aegis_result" where
  "write_each [] t = (t, Inr ())"
| "write_each (s # ss) t =
     (case write_all s t of
        (t, Inl e) \<Rightarrow> (t, Inl e)
      | (t, Inr _) \<Rightarrow> write_each ss t)"

lemma write_all_effect:
  "fst (write_all s t) = t\<lparr>ts_written := ts_written t @ take (ts_accepts t) s, ts_accepts := ts_accepts t - length s\<rparr>"
  "snd (write_all s t) = (if length s \<le> ts_accepts t then Inr () else Inl broken_pipe)"
  by (auto simp: write_all_def Let_def min_def)

text \<open>Writing pieces is writing their concatenation.\<close>

lemma write_each_concat: "write_each ss t = write_all (concat ss) t"
proof (induction ss arbitrary: t)
  case Nil
  then show ?case by (simp add: write_all_def)
next
  case (Cons s ss)
  show ?case
  proof (cases "length s \<le> ts_accepts t")
    case True
    then show ?thesis using Cons by (simp add: write_all_def Let_def min_def) auto
  next
    case False
    then show ?thesis by (simp add: write_all_def Let_def min_def)
  qed
qed

section \<open>Requests\<close>

definition crlf :: string where
  "crlf = [CHR 0x0D, CHR 0x0A]"

definition header_terminator :: string where
  "header_terminator = crlf @ crlf"

text \<open>\<^verbatim>\<open>haystack.windows(needle.len()).position(..)\<close>.\<close>

definition find_bytes :: "string \<Rightarrow> string \<Rightarrow> nat option" where
  "find_bytes haystack needle =
     find (\<lambda>i. take (length needle) (drop i haystack) = needle) [0..<length haystack + 1 - length needle]"

definition split_once_char :: "char \<Rightarrow> string \<Rightarrow> (string \<times> string) option" where
  "split_once_char c s =
     (if c \<in> set s then Some (takeWhile (\<lambda>x. x \<noteq> c) s, tl (dropWhile (\<lambda>x. x \<noteq> c) s)) else None)"

text \<open>\<^verbatim>\<open>str::lines\<close>: the carriage return belongs to the line end only before a newline.\<close>

definition strip_cr :: "string \<Rightarrow> string" where
  "strip_cr s = (case strip_suffix [CHR 0x0D] s of None \<Rightarrow> s | Some l \<Rightarrow> l)"

fun lines_from :: "string \<Rightarrow> string \<Rightarrow> string list" where
  "lines_from acc [] = (if acc = [] then [] else [acc])"
| "lines_from acc (c # cs) =
     (if c = CHR 0x0A then strip_cr acc # lines_from [] cs else lines_from (acc @ [c]) cs)"

definition str_lines :: "string \<Rightarrow> string list" where
  "str_lines s = lines_from [] s"

text \<open>
  \<^verbatim>\<open>split_whitespace().next()\<close>: the first word and what follows it. No unit of white
  space begins inside a character.
\<close>

fun take_word :: "string \<Rightarrow> string \<times> string" where
  "take_word [] = ([], [])"
| "take_word (c # cs) =
     (if list_ex (\<lambda>u. prefix u (c # cs)) ws_units then ([], c # cs)
      else apfst (Cons c) (take_word cs))"

definition next_word :: "string \<Rightarrow> (string \<times> string) option" where
  "next_word s = (let s = trim_start s in if s = [] then None else Some (take_word s))"

text \<open>
  \<^verbatim>\<open>String::from_utf8_lossy\<close>: an ill-formed sequence is replaced by one replacement
  character for its longest well-formed beginning. \<open>utf8_sequence\<close> gives the bytes consumed
  and whether they are a character.
\<close>

definition byte_at :: "string \<Rightarrow> nat \<Rightarrow> nat" where
  "byte_at s i = (if i < length s then of_char (s ! i) else 0)"

definition continuation :: "nat \<Rightarrow> bool" where
  "continuation b \<longleftrightarrow> 128 \<le> b \<and> b < 192"

definition second_of_three :: "nat \<Rightarrow> nat \<Rightarrow> bool" where
  "second_of_three b c \<longleftrightarrow>
     b = 224 \<and> 160 \<le> c \<and> c < 192 \<or> (225 \<le> b \<and> b \<le> 236 \<or> b = 238 \<or> b = 239) \<and> 128 \<le> c \<and> c < 192
     \<or> b = 237 \<and> 128 \<le> c \<and> c < 160"

definition second_of_four :: "nat \<Rightarrow> nat \<Rightarrow> bool" where
  "second_of_four b c \<longleftrightarrow>
     b = 240 \<and> 144 \<le> c \<and> c < 192 \<or> 241 \<le> b \<and> b \<le> 243 \<and> 128 \<le> c \<and> c < 192
     \<or> b = 244 \<and> 128 \<le> c \<and> c < 144"

definition utf8_sequence :: "string \<Rightarrow> nat \<times> bool" where
  "utf8_sequence s =
     (let b = byte_at s 0
      in if b < 128 then (1, True)
         else if 194 \<le> b \<and> b \<le> 223 then
           (if continuation (byte_at s 1) then (2, True) else (1, False))
         else if 224 \<le> b \<and> b \<le> 239 then
           (if \<not> second_of_three b (byte_at s 1) then (1, False)
            else if continuation (byte_at s 2) then (3, True) else (2, False))
         else if 240 \<le> b \<and> b \<le> 244 then
           (if \<not> second_of_four b (byte_at s 1) then (1, False)
            else if \<not> continuation (byte_at s 2) then (2, False)
            else if continuation (byte_at s 3) then (4, True) else (3, False))
         else (1, False))"

lemma utf8_sequence_pos: "0 < fst (utf8_sequence s)"
  by (simp add: utf8_sequence_def Let_def)

definition replacement_character :: string where
  "replacement_character = [CHR 0xEF, CHR 0xBF, CHR 0xBD]"

function utf8_lossy :: "string \<Rightarrow> string" where
  "utf8_lossy [] = []"
| "utf8_lossy (c # cs) =
     (let (n, valid) = utf8_sequence (c # cs)
      in (if valid then take n (c # cs) else replacement_character) @ utf8_lossy (drop n (c # cs)))"
  by pat_completeness auto
termination
  by (relation "measure length")
     (use utf8_sequence_pos in \<open>auto simp: diff_less_Suc dest: arg_cong [where f = fst]\<close>)

lemma utf8_lossy_ascii: "(\<forall>c \<in> set s. (of_char c :: nat) < 128) \<Longrightarrow> utf8_lossy s = s"
  by (induction s rule: utf8_lossy.induct) (auto simp: utf8_sequence_def byte_at_def Let_def)

record http_request =
  hr_method :: string
  hr_path :: string
  hr_body :: string
  hr_auth :: "string option"

definition credential_of_line :: "string \<Rightarrow> string option" where
  "credential_of_line line =
     (case split_once_char (CHR '':'') line of
        None \<Rightarrow> None
      | Some (name, val) \<Rightarrow>
         (let name = str_trim name; val = str_trim val
          in if eq_ignore_ascii_case name ''authorization'' then
               map_option str_trim
                 (case strip_prefix ''Bearer '' val of
                    Some t \<Rightarrow> Some t
                  | None \<Rightarrow> strip_prefix ''bearer '' val)
             else if eq_ignore_ascii_case name ''x-api-key'' then Some val
             else None))"

definition extract_credential :: "string \<Rightarrow> string option" where
  "extract_credential headers = find_map credential_of_line (drop 1 (str_lines headers))"

definition credential_authorized :: "string list \<Rightarrow> string option \<Rightarrow> bool" where
  "credential_authorized api_keys credential =
     (if api_keys = [] then True
      else case credential of None \<Rightarrow> False | Some c \<Rightarrow> c \<in> set api_keys)"

definition length_of_line :: "string \<Rightarrow> nat option" where
  "length_of_line line =
     (case split_once_char (CHR '':'') line of
        None \<Rightarrow> None
      | Some (name, val) \<Rightarrow>
          if eq_ignore_ascii_case name ''content-length'' then parse_usize (str_trim val) else None)"

definition content_length :: "string \<Rightarrow> nat" where
  "content_length headers =
     (case find_map length_of_line (drop 1 (str_lines headers)) of None \<Rightarrow> 0 | Some n \<Rightarrow> n)"

definition mib :: nat where
  "mib = 1024 * 1024"

text \<open>The loop up to the end of the headers: their length, the bytes read so far, the reads left.\<close>

fun read_headers :: "string aegis_result list \<Rightarrow> string \<Rightarrow> (nat \<times> string \<times> string aegis_result list) aegis_result" where
  "read_headers [] buf = Inl (InvalidConfig ''empty http request'')"
| "read_headers (Inl e # reads) buf = Inl e"
| "read_headers (Inr chunk # reads) buf =
     (if chunk = [] then Inl (InvalidConfig ''empty http request'')
      else
        let buf = buf @ chunk
        in case find_bytes buf header_terminator of
             Some i \<Rightarrow> Inr (i, buf, reads)
           | None \<Rightarrow>
               if length buf > mib then Inl (InvalidConfig ''http request headers exceed 1 MiB'')
               else read_headers reads buf)"

fun read_body :: "string aegis_result list \<Rightarrow> string \<Rightarrow> nat \<Rightarrow> string aegis_result" where
  "read_body reads buf needed =
     (if needed \<le> length buf then Inr buf
      else case reads of
             [] \<Rightarrow> Inr buf
           | Inl e # _ \<Rightarrow> Inl e
           | Inr chunk # reads \<Rightarrow> if chunk = [] then Inr buf else read_body reads (buf @ chunk) needed)"

declare read_body.simps [simp del] take_word.simps [simp del]

definition request_target :: "string \<Rightarrow> (string \<times> string) aegis_result" where
  "request_target headers =
     (case str_lines headers of
        [] \<Rightarrow> Inl (InvalidConfig ''missing http request line'')
      | line # _ \<Rightarrow>
         (case next_word line of
            None \<Rightarrow> Inl (InvalidConfig ''missing http method'')
          | Some (verb, rest) \<Rightarrow>
             (case next_word rest of
                None \<Rightarrow> Inl (InvalidConfig ''missing http path'')
              | Some (target, _) \<Rightarrow> Inr (verb, takeWhile (\<lambda>c. c \<noteq> CHR ''?'') target))))"

definition read_http_request :: "string aegis_result list \<Rightarrow> http_request aegis_result" where
  "read_http_request reads =
     res_bind (read_headers reads []) (\<lambda>(header_end, buf, reads).
     let headers = utf8_lossy (take header_end buf)
     in res_bind (request_target headers) (\<lambda>(verb, target).
        let len = content_length headers
        in if len > 16 * mib then Inl (InvalidConfig (''http body exceeds 16 MiB limit: '' @ show_nat len @ '' bytes''))
           else
             let body_start = header_end + 4; total_len = body_start + len
             in res_bind (read_body reads buf total_len) (\<lambda>buf.
                if length buf < total_len then Inl (InvalidConfig (''http body truncated: expected '' @ show_nat len @ '' bytes''))
                else Inr \<lparr>hr_method = verb, hr_path = target,
                          hr_body = drop body_start (take total_len buf),
                          hr_auth = extract_credential headers\<rparr>)))"

section \<open>Responses\<close>

definition status_reason :: "nat \<Rightarrow> string" where
  "status_reason status =
     (if status = 200 then ''OK'' else if status = 400 then ''Bad Request''
      else if status = 404 then ''Not Found'' else if status = 500 then ''Internal Server Error''
      else if status = 503 then ''Service Unavailable'' else ''OK'')"

text \<open>The response of \<^verbatim>\<open>write_json_response\<close>, for the body that serde printed.\<close>

definition json_response :: "nat \<Rightarrow> string \<Rightarrow> string" where
  "json_response status body =
     ''HTTP/1.1 '' @ show_nat status @ '' '' @ status_reason status @ crlf
     @ ''content-type: application/json'' @ crlf
     @ ''access-control-allow-origin: *'' @ crlf
     @ ''access-control-allow-headers: content-type, authorization'' @ crlf
     @ ''access-control-allow-methods: GET, POST, OPTIONS'' @ crlf
     @ ''content-length: '' @ show_nat (length body) @ crlf
     @ ''connection: close'' @ crlf @ crlf"

definition write_json_response :: "nat \<Rightarrow> string \<Rightarrow> tcp_stream \<Rightarrow> tcp_stream \<times> unit aegis_result" where
  "write_json_response status body t = write_each [json_response status body, body] t"

definition text_response :: "nat \<Rightarrow> string \<Rightarrow> string \<Rightarrow> string" where
  "text_response status content_type body =
     ''HTTP/1.1 '' @ show_nat status @ '' OK'' @ crlf @ ''content-type: '' @ content_type @ crlf
     @ ''access-control-allow-origin: *'' @ crlf @ ''content-length: '' @ show_nat (length body) @ crlf
     @ ''connection: close'' @ crlf @ crlf"

definition write_text_response :: "nat \<Rightarrow> string \<Rightarrow> string \<Rightarrow> tcp_stream \<Rightarrow> tcp_stream \<times> unit aegis_result" where
  "write_text_response status content_type body t =
     write_each [text_response status content_type body, body] t"

section \<open>Event streams\<close>

definition sse_headers :: string where
  "sse_headers =
     ''HTTP/1.1 200 OK'' @ crlf @ ''content-type: text/event-stream'' @ crlf
     @ ''access-control-allow-origin: *'' @ crlf
     @ ''access-control-allow-headers: content-type, authorization'' @ crlf
     @ ''access-control-allow-methods: GET, POST, OPTIONS'' @ crlf
     @ ''transfer-encoding: chunked'' @ crlf @ ''cache-control: no-cache'' @ crlf
     @ ''connection: close'' @ crlf @ crlf"

definition write_sse_headers :: "tcp_stream \<Rightarrow> tcp_stream \<times> unit aegis_result" where
  "write_sse_headers t = write_all sse_headers t"

fun show_hex :: "nat \<Rightarrow> string" where
  "show_hex n = (if n < 16 then [hex_digit n] else show_hex (n div 16) @ [hex_digit (n mod 16)])"

declare show_hex.simps [simp del]

definition write_sse_chunk :: "string \<Rightarrow> tcp_stream \<Rightarrow> tcp_stream \<times> unit aegis_result" where
  "write_sse_chunk frame t = write_each [show_hex (length frame) @ crlf, frame, crlf] t"

definition sse_end :: string where
  "sse_end = ''0'' @ crlf @ crlf"

definition write_sse_end :: "tcp_stream \<Rightarrow> tcp_stream \<times> unit aegis_result" where
  "write_sse_end t = write_all sse_end t"

definition sse_chunk :: "string \<Rightarrow> string" where
  "sse_chunk frame = show_hex (length frame) @ crlf @ frame @ crlf"

lemma write_sse_chunk_all: "write_sse_chunk frame t = write_all (sse_chunk frame) t"
  by (simp add: write_sse_chunk_def write_each_concat sse_chunk_def)

section \<open>How the socket cuts the bytes does not matter\<close>

lemma find_upt_shift: "find P [Suc m..<Suc n] = map_option Suc (find (\<lambda>i. P (Suc i)) [m..<n])"
proof (induction n)
  case (Suc n)
  show ?case
  proof (cases "m \<le> n")
    case True
    have split: "find Q (xs @ [x]) = (case find Q xs of None \<Rightarrow> if Q x then Some x else None | Some y \<Rightarrow> Some y)" for Q xs and x :: nat
      by (induction xs) auto
    from True Suc show ?thesis by (simp add: split split: option.split)
  qed simp
qed simp

lemma find_bytes_eq: "needle \<noteq> [] \<Longrightarrow> find_bytes s needle = str_find needle s"
proof (induction s)
  case Nil
  then show ?case by (cases needle) (simp_all add: find_bytes_def)
next
  case (Cons c cs)
  have tk: "take (length needle) t = needle \<longleftrightarrow> prefix needle t" for t :: string
    by (metis append_eq_conv_conj prefix_def append_take_drop_id)
  show ?case
  proof (cases "length needle \<le> Suc (length cs)")
    case True
    then have n: "length (c # cs) + 1 - length needle = Suc (length cs + 1 - length needle)" by simp
    show ?thesis
      unfolding find_bytes_def n
      using Cons
      by (simp add: upt_conv_Cons find_upt_shift tk del: upt_Suc) (simp add: find_bytes_def tk)
  next
    case False
    then have "\<not> prefix needle (c # cs)" "find_bytes cs needle = None"
      using prefix_length_le [of needle "c # cs"] by (auto simp: find_bytes_def)
    with False Cons show ?thesis by (simp add: find_bytes_def)
  qed
qed

lemma header_terminator_nonempty [simp]: "header_terminator \<noteq> []"
  by (simp add: header_terminator_def crlf_def)

lemma read_headers_chunks:
  assumes "[] \<notin> set chunks" "buf @ concat chunks = bytes" "find_bytes buf header_terminator = None"
    and "case find_bytes bytes header_terminator of None \<Rightarrow> length bytes \<le> mib | Some i \<Rightarrow> i + 4 \<le> mib"
  shows "case read_headers (map Inr chunks) buf of
           Inl e \<Rightarrow> find_bytes bytes header_terminator = None \<and> e = InvalidConfig ''empty http request''
         | Inr (i, buf', reads) \<Rightarrow>
             find_bytes bytes header_terminator = Some i
             \<and> (\<exists>rest. reads = map Inr rest \<and> [] \<notin> set rest \<and> buf' @ concat rest = bytes)"
  using assms
proof (induction chunks arbitrary: buf)
  case Nil
  then show ?case by simp
next
  case (Cons c cs)
  let ?buf = "buf @ c"
  note f = find_bytes_eq [OF header_terminator_nonempty]
  have bytes: "?buf @ concat cs = bytes" using Cons.prems(2) by simp
  show ?case
  proof (cases "find_bytes ?buf header_terminator")
    case (Some i)
    then have "find_bytes bytes header_terminator = Some i"
      using str_find_append [of header_terminator ?buf i "concat cs"] bytes by (simp add: f)
    with Some Cons.prems show ?thesis by (auto simp: Let_def)
  next
    case None
    have "length ?buf \<le> mib"
    proof (cases "find_bytes bytes header_terminator")
      case None
      with Cons.prems(4) bytes show ?thesis by (auto simp flip: bytes)
    next
      case (Some i)
      have "length ?buf < i + 4"
      proof (rule ccontr)
        assume "\<not> length ?buf < i + 4"
        then have le: "i + length header_terminator \<le> length ?buf"
          by (simp add: header_terminator_def crlf_def)
        have at: "prefix header_terminator (drop i bytes)"
          using str_find_Some [of header_terminator bytes i] Some
          by (metis f append_eq_conv_conj drop_take length_take min.absorb2 prefixI append.assoc add_leD1)
        have "prefix header_terminator (drop i ?buf)"
        proof (rule prefix_length_prefix [OF at])
          show "prefix (drop i ?buf) (drop i bytes)"
            using le unfolding bytes [symmetric] by (simp add: prefix_def)
          show "length header_terminator \<le> length (drop i ?buf)" using le by simp
        qed
        then have "sublist header_terminator ?buf"
          by (meson prefix_imp_sublist sublist_drop sublist_order.order_trans)
        with None show False by (simp add: f str_find_None)
      qed
      with Some Cons.prems(4) show ?thesis by simp
    qed
    moreover have "c \<noteq> []" "[] \<notin> set cs" using Cons.prems(1) by auto
    ultimately show ?thesis
      using Cons.IH [OF _ bytes None Cons.prems(4)] None by (simp add: Let_def)
  qed
qed

lemma read_body_chunks:
  assumes "[] \<notin> set chunks"
  shows "\<exists>out. read_body (map Inr chunks) buf needed = Inr out \<and> prefix out (buf @ concat chunks)
           \<and> (needed \<le> length out \<or> out = buf @ concat chunks)"
  using assms
proof (induction chunks arbitrary: buf)
  case Nil
  then show ?case by (simp add: read_body.simps)
next
  case (Cons c cs)
  show ?case
  proof (cases "needed \<le> length buf")
    case True
    then show ?thesis by (simp add: read_body.simps)
  next
    case False
    moreover have "c \<noteq> []" using Cons.prems by auto
    ultimately have "read_body (map Inr (c # cs)) buf needed = read_body (map Inr cs) (buf @ c) needed"
      by (subst read_body.simps) simp
    with Cons.prems Cons.IH [of "buf @ c"] show ?thesis by auto
  qed
qed

lemma read_body_enough:
  assumes "[] \<notin> set chunks"
  shows "\<exists>out. read_body (map Inr chunks) buf needed = Inr out
           \<and> (length out < needed \<longleftrightarrow> length (buf @ concat chunks) < needed)
           \<and> (needed \<le> length out \<longrightarrow> take needed out = take needed (buf @ concat chunks))"
proof -
  obtain out where out: "read_body (map Inr chunks) buf needed = Inr out"
    "prefix out (buf @ concat chunks)" "needed \<le> length out \<or> out = buf @ concat chunks"
    using read_body_chunks [OF assms] by blast
  have "length out \<le> length (buf @ concat chunks)" using out(2) by (rule prefix_length_le)
  moreover have "take needed out = take needed (buf @ concat chunks)" if "needed \<le> length out"
  proof -
    from out(2) obtain zs where zs: "buf @ concat chunks = out @ zs" by (auto simp: prefix_def)
    show ?thesis unfolding zs using that by simp
  qed
  ultimately show ?thesis using out(1,3) by (intro exI [of _ out]) auto
qed

lemma read_headers_cover: "read_headers reads buf = Inr (i, out, rest) \<Longrightarrow> i + 4 \<le> length out"
proof (induction reads buf rule: read_headers.induct)
  case (3 chunk reads buf)
  then show ?case
    using str_find_Some [of header_terminator "buf @ chunk"]
    by (auto simp: Let_def find_bytes_eq header_terminator_def crlf_def split: if_splits option.splits)
qed simp_all

text \<open>The request that is made of a body depends on the bytes alone.\<close>

lemma request_of_bytes:
  assumes "[] \<notin> set rest" "buf @ concat rest = bytes"
  shows "res_bind (read_body (map Inr rest) buf (i + 4 + len))
      (\<lambda>out. if length out < i + 4 + len then Inl e
             else Inr \<lparr>hr_method = v, hr_path = p, hr_body = drop (i + 4) (take (i + 4 + len) out), hr_auth = a\<rparr>)
    = (if length bytes < i + 4 + len then Inl e
       else Inr \<lparr>hr_method = v, hr_path = p, hr_body = drop (i + 4) (take (i + 4 + len) bytes), hr_auth = a\<rparr>)"
  using read_body_enough [OF assms(1), of buf "i + 4 + len"] assms(2) by auto

text \<open>
  C34: the request that is read depends on the bytes the client sent, not on how the socket cut
  them into reads, as long as the headers end within the first mebibyte.
\<close>

theorem request_reads_any_cut:
  assumes "[] \<notin> set chunks" "concat chunks = bytes" "bytes \<noteq> []"
    and "case find_bytes bytes header_terminator of None \<Rightarrow> length bytes \<le> mib | Some i \<Rightarrow> i + 4 \<le> mib"
  shows "read_http_request (map Inr chunks) = read_http_request [Inr bytes]"
proof -
  have empty: "find_bytes [] header_terminator = None"
    by (simp add: find_bytes_eq)
  note whole = read_headers_chunks [OF assms(1) _ empty assms(4)]
  have one: "[] \<notin> set [bytes]" "[] @ concat [bytes] = bytes" using assms(3) by auto
  note single = read_headers_chunks [OF one(1,2) empty assms(4)]
  show ?thesis
  proof (cases "find_bytes bytes header_terminator")
    case None
    have "read_headers (map Inr chunks) [] = Inl (InvalidConfig ''empty http request'')"
      using whole None assms(2) by (auto split: sum.splits prod.splits)
    moreover have "read_headers [Inr bytes] [] = Inl (InvalidConfig ''empty http request'')"
      using single None by (auto simp del: read_headers.simps split: sum.splits prod.splits)
    ultimately show ?thesis by (simp only: read_http_request_def)
  next
    case (Some i)
    obtain buf rest where many: "read_headers (map Inr chunks) [] = Inr (i, buf, map Inr rest)"
      "[] \<notin> set rest" "buf @ concat rest = bytes"
      using whole Some assms(2) by (auto split: sum.splits prod.splits)
    obtain buf' rest' where once: "read_headers [Inr bytes] [] = Inr (i, buf', map Inr rest')"
      "[] \<notin> set rest'" "buf' @ concat rest' = bytes"
      using single Some by (auto split: sum.splits prod.splits)
    have "take i buf' = take i (buf' @ concat rest')" using read_headers_cover [OF once(1)] by simp
    moreover have "take i buf = take i (buf @ concat rest)" using read_headers_cover [OF many(1)] by simp
    ultimately have head: "take i buf = take i bytes" "take i buf' = take i bytes"
      unfolding many(3) once(3) by simp_all
    show ?thesis
      unfolding read_http_request_def many(1) once(1)
      by (simp only: head Let_def res_bind_Inr case_prod_conv request_of_bytes [OF many(2,3)] request_of_bytes [OF once(2,3)])
  qed
qed

text \<open>Words without the first byte of any white space.\<close>

definition ws_heads :: "char list" where
  "ws_heads = map hd ws_units"

lemma ws_units_nonempty: "u \<in> set ws_units \<Longrightarrow> u \<noteq> []"
  by (auto simp: ws_units_def)

lemma no_unit_starts: "c \<notin> set ws_heads \<Longrightarrow> u \<in> set ws_units \<Longrightarrow> \<not> prefix u (c # cs)"
  using ws_units_nonempty [of u] by (cases u) (force simp: ws_heads_def image_iff)+

lemma take_word_plain:
  "\<forall>c \<in> set w. c \<notin> set ws_heads \<Longrightarrow> u \<in> set ws_units \<Longrightarrow> prefix u t \<Longrightarrow> take_word (w @ t) = (w, t)"
proof (induction w)
  case Nil
  then show ?case using ws_units_nonempty [of u] by (cases t) (auto simp: list_ex_iff take_word.simps)
next
  case (Cons c w)
  then show ?case using no_unit_starts [of c] by (auto simp: list_ex_iff take_word.simps)
qed

lemma trim_start_plain: "c \<notin> set ws_heads \<Longrightarrow> trim_start (c # cs) = c # cs"
  unfolding trim_start_def using no_unit_starts [of c]
  by (subst strip_units.simps) (auto simp: find_None_iff split: option.split dest!: find_Some_iff [THEN iffD1] nth_mem)

definition sample_headers :: string where
  "sample_headers =
     ''POST /v1/messages?beta=true HTTP/1.1'' @ crlf @ ''Content-Length: 2'' @ crlf
     @ ''Authorization: Bearer sk-1''"

definition sample_request :: string where
  "sample_request = sample_headers @ header_terminator @ ''{}''"

lemma sample_request_read:
  "read_http_request [Inr sample_request]
     = Inr \<lparr>hr_method = ''POST'', hr_path = ''/v1/messages'', hr_body = ''{}'', hr_auth = Some ''sk-1''\<rparr>"
proof -
  have h: "read_headers [Inr sample_request] [] = Inr (83, sample_request, [])" by code_simp
  have t: "take 83 sample_request = sample_headers" by code_simp
  have "\<forall>c \<in> set sample_headers. (of_char c :: nat) < 128" by code_simp
  then have u: "utf8_lossy sample_headers = sample_headers" by (rule utf8_lossy_ascii)
  have l: "str_lines sample_headers
      = [''POST /v1/messages?beta=true HTTP/1.1'', ''Content-Length: 2'', ''Authorization: Bearer sk-1'']"
    by code_simp
  have p: "CHR ''P'' \<notin> set ws_heads" "CHR ''/'' \<notin> set ws_heads"
    "\<forall>c \<in> set ''POST''. c \<notin> set ws_heads" "\<forall>c \<in> set ''/v1/messages?beta=true''. c \<notin> set ws_heads"
    by code_simp+
  have s: "'' '' \<in> set ws_units" by (simp add: ws_units_def)
  have w: "take_word (''POST'' @ '' /v1/messages?beta=true HTTP/1.1'') = (''POST'', '' /v1/messages?beta=true HTTP/1.1'')"
    "take_word (''/v1/messages?beta=true'' @ '' HTTP/1.1'') = (''/v1/messages?beta=true'', '' HTTP/1.1'')"
    by (rule take_word_plain [OF p(3) s], simp) (rule take_word_plain [OF p(4) s], simp)
  have "trim_start '' /v1/messages?beta=true HTTP/1.1'' = ''/v1/messages?beta=true HTTP/1.1''"
    by code_simp
  with w p have w: "trim_start ''POST /v1/messages?beta=true HTTP/1.1'' = ''POST /v1/messages?beta=true HTTP/1.1''"
    "trim_start '' /v1/messages?beta=true HTTP/1.1'' = ''/v1/messages?beta=true HTTP/1.1''"
    "take_word ''POST /v1/messages?beta=true HTTP/1.1'' = (''POST'', '' /v1/messages?beta=true HTTP/1.1'')"
    "take_word ''/v1/messages?beta=true HTTP/1.1'' = (''/v1/messages?beta=true'', '' HTTP/1.1'')"
    by (simp_all add: trim_start_plain)
  have "split_once_char (CHR '':'') ''Content-Length: 2'' = Some (''Content-Length'', '' 2'')"
    "eq_ignore_ascii_case ''Content-Length'' ''content-length''" "str_trim '' 2'' = ''2''"
    by code_simp+
  then have c: "length_of_line ''Content-Length: 2'' = Some 2"
    by (simp add: length_of_line_def parse_usize_def checked_mul_def checked_add_def u64_max_def)
  have a: "credential_of_line ''Content-Length: 2'' = None"
    "credential_of_line ''Authorization: Bearer sk-1'' = Some ''sk-1''"
    by code_simp+
  have r: "request_target sample_headers = Inr (''POST'', ''/v1/messages'')"
    by (simp add: request_target_def l next_word_def w Let_def)
  have b: "read_body [] sample_request 89 = Inr sample_request" "length sample_request = 89"
    "drop 87 sample_request = ''{}''"
    by code_simp+
  show ?thesis
    by (simp add: read_http_request_def h t u r content_length_def extract_credential_def l c a Let_def
        mib_def b del: read_headers.simps)
qed

theorem request_reads_any_cut_witness:
  "read_http_request (map Inr [take 50 sample_request, drop 50 sample_request])
     = Inr \<lparr>hr_method = ''POST'', hr_path = ''/v1/messages'', hr_body = ''{}'', hr_auth = Some ''sk-1''\<rparr>"
proof -
  have "[] \<notin> set [take 50 sample_request, drop 50 sample_request]" by code_simp
  moreover have "concat [take 50 sample_request, drop 50 sample_request] = sample_request" by simp
  moreover have "sample_request \<noteq> []" by code_simp
  moreover have "find_bytes sample_request header_terminator = Some 83" by code_simp
  then have "case find_bytes sample_request header_terminator of
      None \<Rightarrow> length sample_request \<le> mib | Some i \<Rightarrow> i + 4 \<le> mib"
    by (simp add: mib_def)
  ultimately have "read_http_request (map Inr [take 50 sample_request, drop 50 sample_request])
      = read_http_request [Inr sample_request]"
    by (rule request_reads_any_cut)
  also have "\<dots> = Inr \<lparr>hr_method = ''POST'', hr_path = ''/v1/messages'', hr_body = ''{}'', hr_auth = Some ''sk-1''\<rparr>"
    by (rule sample_request_read)
  finally show ?thesis .
qed

section \<open>The chunked encoding is decoded again\<close>

definition hex_digit_value :: "char \<Rightarrow> nat option" where
  "hex_digit_value c =
     (let n = of_char c :: nat
      in if 48 \<le> n \<and> n \<le> 57 then Some (n - 48) else if 97 \<le> n \<and> n \<le> 102 then Some (n - 87) else None)"

fun parse_hex :: "nat \<Rightarrow> string \<Rightarrow> nat option" where
  "parse_hex acc [] = Some acc"
| "parse_hex acc (c # cs) = Option.bind (hex_digit_value c) (\<lambda>d. parse_hex (16 * acc + d) cs)"

text \<open>The chunks of a message without extensions and trailers: their content and what follows.\<close>

function decode_chunked :: "string \<Rightarrow> (string \<times> string) option" where
  "decode_chunked s =
     (case str_find crlf s of
        None \<Rightarrow> None
      | Some i \<Rightarrow>
         (let rest = drop (i + 2) s
          in if i = 0 then None
             else case parse_hex 0 (take i s) of
                    None \<Rightarrow> None
                  | Some n \<Rightarrow>
                     (if n = 0 then (if prefix crlf rest then Some ([], drop 2 rest) else None)
                      else if prefix crlf (drop n rest)
                      then map_option (apfst (append (take n rest))) (decode_chunked (drop (n + 2) rest))
                      else None)))"
  by pat_completeness auto
termination
  by (relation "measure length") (auto dest!: str_find_Some simp: crlf_def)

declare decode_chunked.simps [simp del]

lemma parse_hex_append:
  "parse_hex acc (xs @ ys) = Option.bind (parse_hex acc xs) (\<lambda>a. parse_hex a ys)"
  by (induction acc xs rule: parse_hex.induct) (auto split: option.split intro: bind_option_cong simp: Option.bind_assoc)

lemma hex_digit_value_digit: "d < 16 \<Longrightarrow> hex_digit_value (hex_digit d) = Some d"
  by (auto simp: hex_digit_value_def hex_digit_def Let_def)

lemma parse_show_hex: "parse_hex 0 (show_hex n) = Some n"
proof (induction n rule: show_hex.induct)
  case (1 n)
  show ?case
  proof (cases "n < 16")
    case True
    then show ?thesis by (subst show_hex.simps) (simp add: hex_digit_value_digit)
  next
    case False
    with 1 show ?thesis
      by (subst show_hex.simps) (simp add: parse_hex_append hex_digit_value_digit)
  qed
qed

lemma hex_digit_not_crlf: "d < 16 \<Longrightarrow> hex_digit d \<noteq> CHR 0x0D \<and> hex_digit d \<noteq> CHR 0x0A"
  by (auto simp: hex_digit_def dest: arg_cong [where f = "of_char :: char \<Rightarrow> nat"] split: if_splits)

lemma show_hex_digits: "show_hex n \<noteq> [] \<and> CHR 0x0A \<notin> set (show_hex n)"
proof (induction n rule: show_hex.induct)
  case (1 n)
  then show ?case
    using hex_digit_not_crlf [of n] hex_digit_not_crlf [of "n mod 16"]
    by (subst (1 2) show_hex.simps) auto
qed

lemma find_size_line: "str_find crlf (show_hex n @ crlf @ t) = Some (length (show_hex n))"
proof (rule str_find_skip)
  show "\<not> sublist crlf (show_hex n @ butlast crlf)"
    using show_hex_digits [of n] set_mono_sublist [of crlf "show_hex n @ butlast crlf"]
    by (auto simp: crlf_def)
qed

lemma drop_crlf:
  "length crlf = 2" "drop (length a + 2) (a @ crlf @ u) = u" "drop 2 (crlf @ u) = u"
  by (simp_all add: crlf_def)

lemma decode_one_chunk:
  assumes "frame \<noteq> []"
  shows "decode_chunked (sse_chunk frame @ t) = map_option (apfst (append frame)) (decode_chunked t)"
proof -
  have s: "sse_chunk frame @ t = show_hex (length frame) @ crlf @ (frame @ crlf @ t)"
    by (simp add: sse_chunk_def)
  show ?thesis
    unfolding s using assms show_hex_digits [of "length frame"]
    by (subst decode_chunked.simps) (simp add: find_size_line parse_show_hex drop_crlf Let_def)
qed

text \<open>
  C35: what a client gets by decoding the body of an event stream is the frames the server wrote,
  one after the other, and the body ends where the server ended it.
\<close>

theorem sse_body_decodes:
  assumes "\<forall>frame \<in> set frames. frame \<noteq> []"
  shows "decode_chunked (concat (map sse_chunk frames) @ sse_end @ rest) = Some (concat frames, rest)"
  using assms
proof (induction frames)
  case Nil
  have "show_hex 0 = ''0''" by code_simp
  then have e: "concat (map sse_chunk []) @ sse_end @ rest = show_hex 0 @ crlf @ (crlf @ rest)"
    by (simp add: sse_end_def)
  show ?case
    unfolding e using show_hex_digits [of 0]
    by (subst decode_chunked.simps) (simp add: find_size_line parse_show_hex drop_crlf Let_def)
next
  case (Cons f fs)
  then show ?case by (simp add: decode_one_chunk)
qed

theorem sse_body_decodes_witness:
  "decode_chunked (concat (map sse_chunk [''data: {}'', ''data: [DONE]'']) @ sse_end @ [])
     = Some (''data: {}data: [DONE]'', [])"
  using sse_body_decodes [of "[''data: {}'', ''data: [DONE]'']" "[]"] by simp

end
