(* ===== verification/JsonValue.thy ===== *)
theory JsonValue
  imports ChatParse "HOL-Library.Word"
begin

text \<open>
  Values of serde_json and the accessors the source calls on them. An object is a map in key order,
  because the crate is built without \<^verbatim>\<open>preserve_order\<close>. Parsing and printing belong to the crate:
  they are a record of functions, with the conversion of a number to \<^verbatim>\<open>f32\<close>.
\<close>

section \<open>Values\<close>

datatype json_number = PosInt nat | NegInt int | Float "64 word"

datatype json =
    JsNull
  | JsBool bool
  | JsNumber json_number
  | JsString string
  | JsArray "json list"
  | JsObject "(string, json) btree_map"

text \<open>
  \<^verbatim>\<open>from_slice\<close> and \<^verbatim>\<open>from_str\<close>, which fail with a message, \<^verbatim>\<open>to_string\<close>, and
  \<^verbatim>\<open>as_f64() as f32\<close> on a number.
\<close>

record serde =
  sd_parse :: "string \<Rightarrow> string + json"
  sd_print :: "json \<Rightarrow> string"
  sd_f32 :: "json_number \<Rightarrow> 32 word"

definition json_kind_of :: "json \<Rightarrow> json_kind" where
  "json_kind_of v =
     (case v of JsNull \<Rightarrow> JNull | JsBool _ \<Rightarrow> JBool | JsNumber _ \<Rightarrow> JNumber | JsString _ \<Rightarrow> JString
      | JsArray _ \<Rightarrow> JArray | JsObject _ \<Rightarrow> JObject)"

definition serde_from_str :: "serde \<Rightarrow> serde_from_str" where
  "serde_from_str sd s = (case sd_parse sd s of Inl _ \<Rightarrow> None | Inr v \<Rightarrow> Some (json_kind_of v))"

section \<open>Accessors\<close>

definition js_get :: "json \<Rightarrow> string \<Rightarrow> json option" where
  "js_get v key = (case v of JsObject m \<Rightarrow> map_of m key | _ \<Rightarrow> None)"

definition js_str :: "json \<Rightarrow> string option" where
  "js_str v = (case v of JsString s \<Rightarrow> Some s | _ \<Rightarrow> None)"

definition js_array :: "json \<Rightarrow> json list option" where
  "js_array v = (case v of JsArray vs \<Rightarrow> Some vs | _ \<Rightarrow> None)"

definition js_bool :: "json \<Rightarrow> bool option" where
  "js_bool v = (case v of JsBool b \<Rightarrow> Some b | _ \<Rightarrow> None)"

definition js_u64 :: "json \<Rightarrow> nat option" where
  "js_u64 v = (case v of JsNumber (PosInt n) \<Rightarrow> Some n | _ \<Rightarrow> None)"

definition js_number :: "json \<Rightarrow> json_number option" where
  "js_number v = (case v of JsNumber n \<Rightarrow> Some n | _ \<Rightarrow> None)"

definition get_str :: "json \<Rightarrow> string \<Rightarrow> string option" where
  "get_str v key = Option.bind (js_get v key) js_str"

definition get_array :: "json \<Rightarrow> string \<Rightarrow> json list option" where
  "get_array v key = Option.bind (js_get v key) js_array"

text \<open>An object with the members of \<^verbatim>\<open>json!\<close>, inserted in the order they are written.\<close>

definition js_object :: "(string \<times> json) list \<Rightarrow> json" where
  "js_object members = JsObject (foldl (\<lambda>m (k, v). bt_insert k v m) [] members)"

abbreviation js_nat :: "nat \<Rightarrow> json" where
  "js_nat n \<equiv> JsNumber (PosInt n)"

lemmas js_simps = js_get_def js_str_def js_array_def js_bool_def js_u64_def js_number_def get_str_def get_array_def

lemma map_of_foldl_insert:
  "map_of (foldl (\<lambda>m (k, v). bt_insert k v m) m0 members) key
     = (case map_of (rev members) key of None \<Rightarrow> map_of m0 key | Some v \<Rightarrow> Some v)"
  by (induction members arbitrary: m0) (auto simp: map_add_def split: option.splits)

lemma js_get_object: "js_get (js_object members) key = map_of (rev members) key"
  by (simp add: js_get_def js_object_def map_of_foldl_insert split: option.split)

section \<open>Fields of a request\<close>

definition json_usize :: "json \<Rightarrow> string \<Rightarrow> nat \<Rightarrow> nat" where
  "json_usize v key dflt = (case Option.bind (js_get v key) js_u64 of None \<Rightarrow> dflt | Some n \<Rightarrow> n)"

definition json_usize_any :: "json \<Rightarrow> string list \<Rightarrow> nat \<Rightarrow> nat" where
  "json_usize_any v keys dflt =
     (case find_map (\<lambda>key. Option.bind (js_get v key) js_u64) keys of None \<Rightarrow> dflt | Some n \<Rightarrow> n)"

definition json_f32 :: "serde \<Rightarrow> json \<Rightarrow> string \<Rightarrow> 32 word \<Rightarrow> 32 word" where
  "json_f32 sd v key dflt =
     (case Option.bind (js_get v key) js_number of None \<Rightarrow> dflt | Some n \<Rightarrow> sd_f32 sd n)"

end
