(* ===== verification/ChatTemplate.thy ===== *)
theory ChatTemplate
  imports JsonValue CudaConfig
begin

text \<open>
  The text side of a model (\<^verbatim>\<open>aegisllm-base/src/text.rs\<close>): encoding a prompt with its chat
  template and its first token, decoding tokens, end tokens and stop markers. The tokenizer and the
  template engine are crates and enter as functions; the process environment is an argument. The
  dump of token ids for debugging is left out.
\<close>

section \<open>Messages\<close>

record chat_message =
  cm_role :: string
  cm_content :: string
  cm_tool_calls :: "tool_call list"
  cm_tool_call_id :: "string option"
  cm_name :: "string option"
  cm_reasoning_content :: "string option"

definition chat_message_default :: chat_message where
  "chat_message_default =
     \<lparr>cm_role = [], cm_content = [], cm_tool_calls = [], cm_tool_call_id = None, cm_name = None,
      cm_reasoning_content = None\<rparr>"

text \<open>
  What a template sees. The arguments of a call are the parsed value, or the text where it does not parse.
\<close>

record jinja_call =
  jc_id :: string
  jc_type :: string
  jc_name :: string
  jc_arguments :: "json + string"

record jinja_message =
  jm_role :: string
  jm_content :: string
  jm_tool_calls :: "jinja_call list"
  jm_tool_call_id :: "string option"
  jm_name :: "string option"
  jm_reasoning_content :: "string option"

record jinja_context =
  jx_messages :: "jinja_message list"
  jx_tools :: "json option"
  jx_bos_token :: string
  jx_add_generation_prompt :: bool
  jx_enable_thinking :: bool

definition jinja_call_of :: "serde \<Rightarrow> tool_call \<Rightarrow> jinja_call" where
  "jinja_call_of sd tc =
     \<lparr>jc_id = tc_id tc, jc_type = tc_call_type tc, jc_name = fn_name (tc_function tc),
      jc_arguments =
        (case sd_parse sd (fn_arguments (tc_function tc)) of
           Inl _ \<Rightarrow> Inr (fn_arguments (tc_function tc))
         | Inr v \<Rightarrow> Inl v)\<rparr>"

definition messages_to_jinja :: "serde \<Rightarrow> chat_message list \<Rightarrow> jinja_message list" where
  "messages_to_jinja sd messages =
     map (\<lambda>m. \<lparr>jm_role = cm_role m, jm_content = cm_content m,
                jm_tool_calls = map (jinja_call_of sd) (cm_tool_calls m),
                jm_tool_call_id = cm_tool_call_id m, jm_name = cm_name m,
                jm_reasoning_content = cm_reasoning_content m\<rparr>) messages"

section \<open>Templates\<close>

record chat_template =
  ct_template :: string
  ct_bos_token :: string
  ct_is_fallback :: bool

text \<open>
  The engine: a template and a context give a text, or fail with a message that names the step
  (parse, lookup, render).
\<close>

type_synonym jinja = "string \<Rightarrow> jinja_context \<Rightarrow> string + string"

text \<open>The template file wins over the one of the tokenizer configuration.\<close>

definition template_from_artifact :: "string option \<Rightarrow> string option \<Rightarrow> string \<Rightarrow> chat_template" where
  "template_from_artifact template_file config_template bos_token =
     (case (case template_file of Some t \<Rightarrow> Some t | None \<Rightarrow> config_template) of
        Some t \<Rightarrow>
          if t \<noteq> [] then \<lparr>ct_template = t, ct_bos_token = bos_token, ct_is_fallback = False\<rparr>
          else \<lparr>ct_template = [], ct_bos_token = bos_token, ct_is_fallback = True\<rparr>
      | None \<Rightarrow> \<lparr>ct_template = [], ct_bos_token = bos_token, ct_is_fallback = True\<rparr>)"

definition fallback_render :: "chat_message list \<Rightarrow> bool \<Rightarrow> string" where
  "fallback_render messages add_generation_prompt =
     concat (map (\<lambda>m. cm_role m @ '': '' @ str_trim (cm_content m) @ [nl]) messages)
     @ (if add_generation_prompt then ''assistant: '' else [])"

definition template_render ::
  "serde \<Rightarrow> jinja \<Rightarrow> chat_template \<Rightarrow> chat_message list \<Rightarrow> json option \<Rightarrow> bool \<Rightarrow> bool \<Rightarrow> string aegis_result" where
  "template_render sd jinja ct messages tools enable_thinking add_generation_prompt =
     (if ct_is_fallback ct then Inr (fallback_render messages add_generation_prompt)
      else case jinja (ct_template ct)
                  \<lparr>jx_messages = messages_to_jinja sd messages, jx_tools = tools, jx_bos_token = ct_bos_token ct,
                   jx_add_generation_prompt = add_generation_prompt, jx_enable_thinking = enable_thinking\<rparr> of
             Inl e \<Rightarrow> Inl (Unsupported (''chat template '' @ e))
           | Inr s \<Rightarrow> Inr s)"

definition turn_markers :: "string list" where
  "turn_markers =
     [''<|start_header_id|>'', ''<|begin_of_text|>'', ''<|eot_id|>'', ''<|turn>'', ''<turn|>'',
      ''<|im_start|>'', ''<|im_end|>'']"

definition looks_preformatted :: "string \<Rightarrow> bool" where
  "looks_preformatted prompt \<longleftrightarrow> list_ex (str_contains prompt) turn_markers"

definition thinking_enabled :: "environment \<Rightarrow> bool" where
  "thinking_enabled env =
     (case env ''AEGIS_ENABLE_THINKING'' of
        None \<Rightarrow> True
      | Some v \<Rightarrow> v \<noteq> ''0'' \<and> \<not> eq_ignore_ascii_case v ''false'')"

definition apply_user_prompt ::
  "environment \<Rightarrow> serde \<Rightarrow> jinja \<Rightarrow> chat_template \<Rightarrow> string \<Rightarrow> string aegis_result" where
  "apply_user_prompt env sd jinja ct prompt =
     (if ct_is_fallback ct then Inr prompt
      else if looks_preformatted prompt then Inr prompt
      else template_render sd jinja ct
             [chat_message_default\<lparr>cm_role := ''user'', cm_content := str_trim prompt\<rparr>]
             None (thinking_enabled env) True)"

section \<open>The tokenizer\<close>

record tokenizer =
  tk_encode :: "string \<Rightarrow> string + nat list"
  tk_decode :: "nat list \<Rightarrow> string + string"
  tk_id_to_token :: "nat \<Rightarrow> string option"
  tk_token_to_id :: "string \<Rightarrow> nat option"

record text_processor =
  tp_tokenizer :: tokenizer
  tp_bos_token_id :: "nat option"
  tp_eos_token_ids :: "nat list"
  tp_chat_template :: chat_template

text \<open>What the files of a model give: tokenizer, begin token, end tokens of two files, templates.\<close>

record text_files =
  tf_tokenizer :: "string + tokenizer"
  tf_bos_token_id :: "nat option"
  tf_config_eos :: "json option"
  tf_generation_eos :: "json option"
  tf_template_file :: "string option"
  tf_config_template :: "string option"

definition push_ids :: "json option \<Rightarrow> nat list" where
  "push_ids v =
     (case v of
        Some (JsNumber n) \<Rightarrow> (case js_u64 (JsNumber n) of None \<Rightarrow> [] | Some i \<Rightarrow> [i])
      | Some (JsArray vs) \<Rightarrow> List.map_filter js_u64 vs
      | _ \<Rightarrow> [])"

definition extract_eos_token_ids :: "json option \<Rightarrow> json option \<Rightarrow> nat list" where
  "extract_eos_token_ids config_eos generation_eos =
     remdups_adj (sort (push_ids config_eos @ push_ids generation_eos))"

definition bos_token_string :: "tokenizer \<Rightarrow> nat option \<Rightarrow> string" where
  "bos_token_string tk bos = (case Option.bind bos (tk_id_to_token tk) of None \<Rightarrow> [] | Some s \<Rightarrow> s)"

definition text_from_artifact :: "text_files \<Rightarrow> text_processor aegis_result" where
  "text_from_artifact files =
     (case tf_tokenizer files of
        Inl e \<Rightarrow> Inl (Unsupported (''failed to load tokenizer: '' @ e))
      | Inr tk \<Rightarrow>
          Inr \<lparr>tp_tokenizer = tk, tp_bos_token_id = tf_bos_token_id files,
               tp_eos_token_ids = extract_eos_token_ids (tf_config_eos files) (tf_generation_eos files),
               tp_chat_template = template_from_artifact (tf_template_file files) (tf_config_template files)
                 (bos_token_string tk (tf_bos_token_id files))\<rparr>)"

definition encode_with_options ::
  "environment \<Rightarrow> serde \<Rightarrow> jinja \<Rightarrow> text_processor \<Rightarrow> string \<Rightarrow> bool \<Rightarrow> nat list aegis_result" where
  "encode_with_options env sd jinja tp prompt apply_chat_template =
     res_bind (if apply_chat_template then apply_user_prompt env sd jinja (tp_chat_template tp) prompt
               else Inr prompt) (\<lambda>prompt.
     case tk_encode (tp_tokenizer tp) prompt of
       Inl e \<Rightarrow> Inl (Unsupported (''tokenizer encode failed: '' @ e))
     | Inr ids \<Rightarrow>
         Inr (case tp_bos_token_id tp of
                None \<Rightarrow> ids
              | Some bos \<Rightarrow> if ids \<noteq> [] \<and> hd ids = bos then ids else bos # ids))"

definition encode_prompt ::
  "environment \<Rightarrow> serde \<Rightarrow> jinja \<Rightarrow> text_processor \<Rightarrow> string \<Rightarrow> nat list aegis_result" where
  "encode_prompt env sd jinja tp prompt = encode_with_options env sd jinja tp prompt True"

definition encode_text_raw ::
  "environment \<Rightarrow> serde \<Rightarrow> jinja \<Rightarrow> text_processor \<Rightarrow> string \<Rightarrow> nat list aegis_result" where
  "encode_text_raw env sd jinja tp txt = encode_with_options env sd jinja tp txt False"

definition fits_u32 :: "nat \<Rightarrow> nat aegis_result" where
  "fits_u32 n = (if n \<le> u32_max then Inr n else Inl (Unsupported ''token id overflow''))"

fun all_fit_u32 :: "nat list \<Rightarrow> nat list aegis_result" where
  "all_fit_u32 [] = Inr []"
| "all_fit_u32 (n # ns) = res_bind (fits_u32 n) (\<lambda>n. res_bind (all_fit_u32 ns) (\<lambda>ns. Inr (n # ns)))"

definition special_tokens :: "text_processor \<Rightarrow> string list" where
  "special_tokens tp =
     List.map_filter (\<lambda>i. if i \<le> u32_max then tk_id_to_token (tp_tokenizer tp) i else None)
       ((case tp_bos_token_id tp of None \<Rightarrow> [] | Some b \<Rightarrow> [b]) @ tp_eos_token_ids tp)"

definition decode_tokens :: "text_processor \<Rightarrow> nat list \<Rightarrow> string aegis_result" where
  "decode_tokens tp token_ids =
     res_bind (all_fit_u32 token_ids) (\<lambda>ids.
     case tk_decode (tp_tokenizer tp) ids of
       Inl e \<Rightarrow> Inl (Unsupported (''tokenizer decode failed: '' @ e))
     | Inr txt \<Rightarrow> Inr (remove_all (special_tokens tp) txt))"

definition text_is_eos :: "text_processor \<Rightarrow> nat \<Rightarrow> bool" where
  "text_is_eos tp token_id \<longleftrightarrow> token_id \<in> set (tp_eos_token_ids tp)"

definition tool_call_stop_token_ids :: "text_processor \<Rightarrow> nat list" where
  "tool_call_stop_token_ids tp =
     List.map_filter (tk_token_to_id (tp_tokenizer tp)) [''<tool_call|>'', ''<turn|>'', ''</tool_call>'']"

definition text_parser_kind :: "text_processor \<Rightarrow> parser_kind" where
  "text_parser_kind tp = detect (ct_template (tp_chat_template tp))"

text \<open>Rendering for an artifact without a text processor: a missing tokenizer gives an empty begin token.\<close>

definition render_chat_for_artifact ::
  "serde \<Rightarrow> jinja \<Rightarrow> text_files \<Rightarrow> chat_message list \<Rightarrow> json option \<Rightarrow> bool \<Rightarrow> string aegis_result" where
  "render_chat_for_artifact sd jinja files messages tools enable_thinking =
     (let bos = (case tf_tokenizer files of Inl _ \<Rightarrow> [] | Inr tk \<Rightarrow> bos_token_string tk (tf_bos_token_id files))
      in template_render sd jinja (template_from_artifact (tf_template_file files) (tf_config_template files) bos)
           messages tools enable_thinking True)"

section \<open>Tokens at the beginning and the end\<close>

lemma distinct_remdups_sorted: "sorted xs \<Longrightarrow> distinct (remdups_adj xs)"
  by (induction xs rule: remdups_adj.induct) (auto simp: order.antisym)

lemma eos_ids_sorted: "sorted (extract_eos_token_ids a b)" "distinct (extract_eos_token_ids a b)"
  by (simp_all add: extract_eos_token_ids_def sorted_remdups_adj distinct_remdups_sorted)

lemma eos_ids_both_files:
  "set (extract_eos_token_ids a b) = set (push_ids a) \<union> set (push_ids b)"
  by (simp add: extract_eos_token_ids_def)

lemma encoded_prompt_begins:
  assumes "encode_with_options env sd jinja tp prompt templated = Inr ids" "tp_bos_token_id tp = Some bos"
  shows "ids \<noteq> [] \<and> hd ids = bos"
proof -
  obtain p where p: "(case tk_encode (tp_tokenizer tp) p of
       Inl e \<Rightarrow> Inl (Unsupported (''tokenizer encode failed: '' @ e))
     | Inr ids \<Rightarrow> Inr (case tp_bos_token_id tp of
                None \<Rightarrow> ids
              | Some bos \<Rightarrow> if ids \<noteq> [] \<and> hd ids = bos then ids else bos # ids)) = Inr ids"
    using assms(1) by (auto simp: encode_with_options_def res_bind_eq_Inr)
  then show ?thesis
    by (cases "tk_encode (tp_tokenizer tp) p") (auto simp: assms(2) split: if_splits)
qed

lemma all_fit_u32_eq: "all_fit_u32 ns = (if list_all (\<lambda>n. n \<le> u32_max) ns then Inr ns
    else Inl (Unsupported ''token id overflow''))"
  by (induction ns) (auto simp: fits_u32_def)

text \<open>A prompt that already carries turn markers is encoded as it is.\<close>

lemma preformatted_prompt:
  "looks_preformatted prompt \<Longrightarrow> apply_user_prompt env sd jinja ct prompt = Inr prompt"
  by (simp add: apply_user_prompt_def)

end
