(* ===== verification/HttpServer.thy ===== *)
theory HttpServer
  imports HttpWire ChatTemplate ChatCorrect Engine
begin

text \<open>
  The HTTP server (\<^verbatim>\<open>aegisllm/src/server/http.rs\<close>) above the wire: what a request asks for,
  its answer in the shapes of the three interfaces, event streams, authorization, routing and the
  metrics. The engine is the one of \<open>Engine\<close>, over any backend; serde, the template engine, the files of
  the model and the clock are arguments. Connections are served one after the other. Log lines are left out.
\<close>

section \<open>Prompts\<close>

definition completion_prompt_from_json :: "json \<Rightarrow> string + string" where
  "completion_prompt_from_json v =
     (case get_str v ''prompt'' of
        Some prompt \<Rightarrow> Inr prompt
      | None \<Rightarrow>
         (case get_array v ''prompt'' of
            Some prompts \<Rightarrow>
              if length prompts \<noteq> 1 then Inl ''prompt arrays with more than one item are not supported yet''
              else (case js_str (hd prompts) of
                      Some prompt \<Rightarrow> Inr prompt
                    | None \<Rightarrow> Inl ''request requires string `prompt`'')
          | None \<Rightarrow> Inl ''request requires string `prompt`''))"

definition unsupported_fields :: "string list" where
  "unsupported_fields =
     [''stop'', ''logprobs'', ''top_logprobs'', ''presence_penalty'', ''frequency_penalty'', ''response_format'']"

definition validate_openai_request_for_model :: "string \<Rightarrow> json \<Rightarrow> string + unit" where
  "validate_openai_request_for_model loaded_model v =
     (if (case get_str v ''model'' of None \<Rightarrow> False | Some m \<Rightarrow> m \<noteq> loaded_model \<and> m \<noteq> ''aegisllm'')
      then Inl (''requested model `'' @ the (get_str v ''model'') @ ''` does not match loaded model `''
                @ loaded_model @ ''`'')
      else if (case Option.bind (js_get v ''n'') js_u64 of None \<Rightarrow> False | Some n \<Rightarrow> n \<noteq> 1)
      then Inl ''only n=1 is supported''
      else case find (\<lambda>key. js_get v key \<noteq> None) unsupported_fields of
             Some key \<Rightarrow> Inl (''request field `'' @ key @ ''` is not supported yet'')
           | None \<Rightarrow> Inr ())"

text \<open>Tools in the shape of OpenAI; a flat tool of Anthropic is wrapped.\<close>

definition normalize_tool :: "json \<Rightarrow> json option" where
  "normalize_tool tool =
     (if get_str tool ''type'' = Some ''function'' \<and> js_get tool ''function'' \<noteq> None then Some tool
      else case js_get tool ''name'' of
             None \<Rightarrow> None
           | Some name \<Rightarrow>
              (let schema = (case js_get tool ''input_schema'' of None \<Rightarrow> js_get tool ''parameters'' | Some s \<Rightarrow> Some s)
               in Some (js_object
                    [(''type'', JsString ''function''),
                     (''function'', js_object
                        ([(''name'', name)]
                         @ (case js_get tool ''description'' of None \<Rightarrow> [] | Some d \<Rightarrow> [(''description'', d)])
                         @ (case schema of None \<Rightarrow> [] | Some s \<Rightarrow> [(''parameters'', s)])))])))"

definition extract_tools :: "json \<Rightarrow> json option" where
  "extract_tools v =
     (case get_array v ''tools'' of
        None \<Rightarrow> None
      | Some arr \<Rightarrow>
         (let normalized = List.map_filter normalize_tool arr
          in if normalized = [] then None else Some (JsArray normalized)))"

fun join_text_parts :: "json list \<Rightarrow> string \<Rightarrow> string" where
  "join_text_parts [] buf = buf"
| "join_text_parts (part # parts) buf =
     (let kind = (case get_str part ''type'' of None \<Rightarrow> ''text'' | Some k \<Rightarrow> k)
      in case (if kind = ''text'' then get_str part ''text'' else None) of
           None \<Rightarrow> join_text_parts parts buf
         | Some t \<Rightarrow> join_text_parts parts ((if buf = [] then buf else buf @ [nl]) @ t))"

definition extract_message_text :: "json \<Rightarrow> string option" where
  "extract_message_text v =
     (case js_str v of
        Some s \<Rightarrow> Some s
      | None \<Rightarrow> (case js_array v of Some arr \<Rightarrow> Some (join_text_parts arr []) | None \<Rightarrow> None))"

definition tool_call_from_json :: "serde \<Rightarrow> json \<Rightarrow> tool_call option" where
  "tool_call_from_json sd tc =
     (case js_get tc ''function'' of
        None \<Rightarrow> None
      | Some f \<Rightarrow>
         (case get_str f ''name'' of
            None \<Rightarrow> None
          | Some name \<Rightarrow>
              Some \<lparr>tc_id = (case get_str tc ''id'' of None \<Rightarrow> ''call_0'' | Some i \<Rightarrow> i),
                    tc_call_type = (case get_str tc ''type'' of None \<Rightarrow> ''function'' | Some t \<Rightarrow> t),
                    tc_function = \<lparr>fn_name = name,
                      fn_arguments =
                        (case js_get f ''arguments'' of
                           Some (JsString s) \<Rightarrow> s
                         | Some other \<Rightarrow> sd_print sd other
                         | None \<Rightarrow> ''{}'')\<rparr>\<rparr>))"

definition extract_tool_calls :: "serde \<Rightarrow> json \<Rightarrow> tool_call list" where
  "extract_tool_calls sd v =
     (case js_array v of None \<Rightarrow> [] | Some arr \<Rightarrow> List.map_filter (tool_call_from_json sd) arr)"

definition message_from_json :: "serde \<Rightarrow> json \<Rightarrow> string + chat_message" where
  "message_from_json sd message =
     (let role = (case get_str message ''role'' of None \<Rightarrow> ''user'' | Some r \<Rightarrow> r);
          content = (case Option.bind (js_get message ''content'') extract_message_text of None \<Rightarrow> [] | Some c \<Rightarrow> c);
          calls = (case js_get message ''tool_calls'' of None \<Rightarrow> [] | Some v \<Rightarrow> extract_tool_calls sd v)
      in if content = [] \<and> calls = [] \<and> role \<noteq> ''tool'' \<and> role \<noteq> ''assistant''
         then Inl ''each non-tool message requires `content`''
         else Inr \<lparr>cm_role = role, cm_content = content, cm_tool_calls = calls,
                   cm_tool_call_id = get_str message ''tool_call_id'', cm_name = get_str message ''name'',
                   cm_reasoning_content = get_str message ''reasoning_content''\<rparr>)"

fun messages_loop :: "serde \<Rightarrow> json list \<Rightarrow> string + chat_message list" where
  "messages_loop sd [] = Inr []"
| "messages_loop sd (m # ms) =
     (case message_from_json sd m of
        Inl e \<Rightarrow> Inl e
      | Inr m \<Rightarrow> (case messages_loop sd ms of Inl e \<Rightarrow> Inl e | Inr ms \<Rightarrow> Inr (m # ms)))"

definition parse_chat_messages :: "serde \<Rightarrow> json \<Rightarrow> string + chat_message list" where
  "parse_chat_messages sd v =
     (case get_array v ''messages'' of
        None \<Rightarrow> Inl ''request requires array `messages`''
      | Some messages \<Rightarrow> messages_loop sd messages)"

fun google_parts :: "string \<Rightarrow> json list \<Rightarrow> string + string" where
  "google_parts role [] = Inr []"
| "google_parts role (part # parts) =
     (case get_str part ''text'' of
        None \<Rightarrow> Inl ''only text parts are supported''
      | Some t \<Rightarrow>
         (case google_parts role parts of
            Inl e \<Rightarrow> Inl e
          | Inr rest \<Rightarrow> Inr (role @ '': '' @ t @ [nl] @ rest)))"

fun google_contents :: "json list \<Rightarrow> string + string" where
  "google_contents [] = Inr []"
| "google_contents (content # contents) =
     (case get_array content ''parts'' of
        None \<Rightarrow> Inl ''each content item requires array `parts`''
      | Some parts \<Rightarrow>
         (case google_parts (case get_str content ''role'' of None \<Rightarrow> ''user'' | Some r \<Rightarrow> r) parts of
            Inl e \<Rightarrow> Inl e
          | Inr t \<Rightarrow> (case google_contents contents of Inl e \<Rightarrow> Inl e | Inr rest \<Rightarrow> Inr (t @ rest))))"

definition google_prompt_from_json :: "json \<Rightarrow> string + string" where
  "google_prompt_from_json v =
     (case get_array v ''contents'' of
        None \<Rightarrow> Inl ''request requires array `contents`''
      | Some contents \<Rightarrow>
         (case google_contents contents of
            Inl e \<Rightarrow> Inl e
          | Inr t \<Rightarrow> if t = [] then Inl ''request contains no text parts'' else Inr t))"

definition openai_finish_reason :: "string \<Rightarrow> string" where
  "openai_finish_reason reason =
     (if reason = ''eos_token'' then ''stop'' else if reason = ''length'' then ''length'' else ''stop'')"

definition anthropic_stop_reason :: "string \<Rightarrow> string" where
  "anthropic_stop_reason reason = (if reason = ''length'' then ''max_tokens'' else ''end_turn'')"

definition google_finish_reason :: "string \<Rightarrow> string" where
  "google_finish_reason reason = (if reason = ''length'' then ''MAX_TOKENS'' else ''STOP'')"

section \<open>State of the server\<close>

datatype api_compatibility = ApiOpenAi | ApiAnthropic | ApiGoogle

fun api_name :: "api_compatibility \<Rightarrow> string" where
  "api_name ApiOpenAi = ''openai''"
| "api_name ApiAnthropic = ''anthropic''"
| "api_name ApiGoogle = ''google''"

definition normalize_api_compatibility :: "string \<Rightarrow> api_compatibility aegis_result" where
  "normalize_api_compatibility api =
     (let a = to_ascii_lowercase (str_trim api)
      in if a \<in> set [''openai'', ''openai-compatible'', ''openai-chat'', ''v1''] then Inr ApiOpenAi
         else if a \<in> set [''anthropic'', ''claude''] then Inr ApiAnthropic
         else if a \<in> set [''google'', ''gemini''] then Inr ApiGoogle
         else Inl (InvalidConfig (''unsupported server-api `'' @ a @ ''`; expected openai|anthropic|google'')))"

text \<open>Latencies are \<^verbatim>\<open>f64\<close>: their arithmetic and their decimal form are arguments.\<close>

type_synonym f64 = "64 word"

record f64_ops =
  fd_add :: "f64 \<Rightarrow> f64 \<Rightarrow> f64"
  fd_div :: "f64 \<Rightarrow> f64 \<Rightarrow> f64"
  fd_of_nat :: "nat \<Rightarrow> f64"
  fd_show :: "f64 \<Rightarrow> string"

record server_metrics =
  mt_requests :: nat
  mt_generations :: nat
  mt_errors :: nat
  mt_rejected :: nat
  mt_prompt_tokens :: nat
  mt_completion_tokens :: nat
  mt_latency_total :: f64
  mt_latency_last :: "f64 option"

record server_state =
  sv_metrics :: server_metrics
  sv_active :: int
  sv_stop_token_ids :: "nat list"
  sv_parser_kind :: parser_kind
  sv_api_keys :: "string list"

definition metrics_default :: server_metrics where
  "metrics_default =
     \<lparr>mt_requests = 0, mt_generations = 0, mt_errors = 0, mt_rejected = 0, mt_prompt_tokens = 0,
      mt_completion_tokens = 0, mt_latency_total = 0, mt_latency_last = None\<rparr>"

definition server_new :: "text_processor aegis_result \<Rightarrow> string list \<Rightarrow> server_state" where
  "server_new tp api_keys =
     \<lparr>sv_metrics = metrics_default, sv_active = 0,
      sv_stop_token_ids = (case tp of Inl _ \<Rightarrow> [] | Inr tp \<Rightarrow> tool_call_stop_token_ids tp),
      sv_parser_kind = (case tp of Inl _ \<Rightarrow> Passthrough | Inr tp \<Rightarrow> text_parser_kind tp),
      sv_api_keys = api_keys\<rparr>"

text \<open>
  What a connection is served with. The clock of a connection is what it reads: the time in
  milliseconds and in seconds, and the elapsed time of the generation.
\<close>

record clock =
  ck_millis :: nat
  ck_secs :: nat
  ck_elapsed_ms :: f64

record 's server_world =
  sw_engine :: "'s backend_primitives aegis_engine"
  sw_readiness :: executor_readiness
  sw_api :: api_compatibility
  sw_sampling :: sampling_config
  sw_serde :: serde
  sw_jinja :: jinja
  sw_text_files :: text_files
  sw_f64 :: f64_ops

definition model_name :: "'s server_world \<Rightarrow> string" where
  "model_name w = pl_model (en_placement (sw_engine w))"

definition record_request :: "server_state \<Rightarrow> server_state" where
  "record_request st = st\<lparr>sv_metrics := (sv_metrics st)\<lparr>mt_requests := mt_requests (sv_metrics st) + 1\<rparr>\<rparr>"

definition record_generation :: "f64_ops \<Rightarrow> f64 \<Rightarrow> (nat \<times> nat) option \<Rightarrow> server_state \<Rightarrow> server_state" where
  "record_generation ops elapsed stats st =
     (let m = (sv_metrics st)\<lparr>mt_generations := mt_generations (sv_metrics st) + 1,
                mt_latency_total := fd_add ops (mt_latency_total (sv_metrics st)) elapsed,
                mt_latency_last := Some elapsed\<rparr>
      in st\<lparr>sv_metrics :=
              (case stats of
                 Some (prompt, completion) \<Rightarrow>
                   m\<lparr>mt_prompt_tokens := mt_prompt_tokens m + prompt,
                     mt_completion_tokens := mt_completion_tokens m + completion\<rparr>
               | None \<Rightarrow> m\<lparr>mt_errors := mt_errors m + 1\<rparr>)\<rparr>)"

definition record_generation_rejected :: "server_state \<Rightarrow> server_state" where
  "record_generation_rejected st =
     st\<lparr>sv_metrics := (sv_metrics st)\<lparr>mt_generations := mt_generations (sv_metrics st) + 1,
          mt_errors := mt_errors (sv_metrics st) + 1, mt_rejected := mt_rejected (sv_metrics st) + 1\<rparr>\<rparr>"

text \<open>\<^verbatim>\<open>GenerationGuard\<close>: one more active generation while \<open>f\<close> runs.\<close>

definition with_guard :: "(server_state \<Rightarrow> server_state \<times> 'r) \<Rightarrow> server_state \<Rightarrow> server_state \<times> 'r" where
  "with_guard f st =
     (case f (st\<lparr>sv_active := sv_active st + 1\<rparr>) of (st, r) \<Rightarrow> (st\<lparr>sv_active := sv_active st - 1\<rparr>, r))"

section \<open>Answers\<close>

definition json_error :: "nat \<Rightarrow> string \<Rightarrow> nat \<times> json" where
  "json_error status message =
     (status, js_object [(''error'', js_object
        [(''message'', JsString message), (''type'', JsString ''invalid_request_error'')])])"

definition readiness_json :: "executor_readiness \<Rightarrow> json" where
  "readiness_json r =
     js_object
       [(''selected'', JsString (er_selected_backend r)), (''runnable'', JsBool (er_runnable r)),
        (''planned_cpu_regions'', js_nat (er_planned_cpu_regions r)),
        (''planned_cuda_regions'', js_nat (er_planned_cuda_regions r)),
        (''limitations'', JsArray (map JsString (er_limitations r)))]"

definition executor_not_ready :: "executor_readiness \<Rightarrow> nat \<times> json" where
  "executor_not_ready r =
     (503, js_object [(''error'', js_object
        [(''message'', JsString ''executor plan is not runnable yet''), (''type'', JsString ''executor_not_ready''),
         (''executor'', readiness_json r)])])"

definition measured_generations :: "server_metrics \<Rightarrow> nat" where
  "measured_generations m = mt_generations m - mt_rejected m"

definition js_f64 :: "f64 \<Rightarrow> json" where
  "js_f64 x = JsNumber (Float x)"

definition metrics_json :: "f64_ops \<Rightarrow> server_metrics \<Rightarrow> json" where
  "metrics_json ops m =
     js_object
       [(''requests_total'', js_nat (mt_requests m)), (''generation_requests_total'', js_nat (mt_generations m)),
        (''generation_errors_total'', js_nat (mt_errors m)), (''generation_rejected_total'', js_nat (mt_rejected m)),
        (''generation_measured_requests_total'', js_nat (measured_generations m)),
        (''prompt_tokens_total'', js_nat (mt_prompt_tokens m)),
        (''completion_tokens_total'', js_nat (mt_completion_tokens m)),
        (''generation_latency_ms_total'', js_f64 (mt_latency_total m)),
        (''generation_latency_ms_avg'',
           if measured_generations m = 0 then JsNull
           else js_f64 (fd_div ops (mt_latency_total m) (fd_of_nat ops (measured_generations m)))),
        (''generation_latency_ms_last'', (case mt_latency_last m of None \<Rightarrow> JsNull | Some l \<Rightarrow> js_f64 l))]"

definition prom_metric :: "string \<Rightarrow> string \<Rightarrow> string \<Rightarrow> string \<Rightarrow> string" where
  "prom_metric name help kind shown =
     ''# HELP '' @ name @ '' '' @ help @ [nl] @ ''# TYPE '' @ name @ '' '' @ kind @ [nl]
     @ name @ '' '' @ shown @ [nl]"

definition metrics_prometheus :: "f64_ops \<Rightarrow> server_state \<Rightarrow> string" where
  "metrics_prometheus ops st =
     (let m = sv_metrics st; thousand = fd_of_nat ops 1000;
          total_s = fd_div ops (mt_latency_total m) thousand;
          avg_s = (if measured_generations m = 0 then fd_of_nat ops 0
                   else fd_div ops total_s (fd_of_nat ops (measured_generations m)));
          last_s = fd_div ops (case mt_latency_last m of None \<Rightarrow> fd_of_nat ops 0 | Some l \<Rightarrow> l) thousand
      in concat
        [prom_metric ''aegis_http_requests_total'' ''Total HTTP requests received'' ''counter'' (show_nat (mt_requests m)),
         prom_metric ''aegis_generation_requests_total'' ''Total generation requests'' ''counter'' (show_nat (mt_generations m)),
         prom_metric ''aegis_generation_errors_total'' ''Total generation errors'' ''counter'' (show_nat (mt_errors m)),
         prom_metric ''aegis_generation_rejected_total'' ''Total rejected generation requests'' ''counter'' (show_nat (mt_rejected m)),
         prom_metric ''aegis_engine_prefill_tokens_total'' ''Total prompt tokens processed'' ''counter'' (show_nat (mt_prompt_tokens m)),
         prom_metric ''aegis_engine_decode_tokens_total'' ''Total completion tokens generated'' ''counter'' (show_nat (mt_completion_tokens m)),
         prom_metric ''aegis_engine_request_latency_seconds_total'' ''Total generation latency in seconds'' ''counter'' (fd_show ops total_s),
         prom_metric ''aegis_engine_request_latency_seconds_avg'' ''Average generation latency in seconds'' ''gauge'' (fd_show ops avg_s),
         prom_metric ''aegis_engine_request_latency_seconds_last'' ''Last generation latency in seconds'' ''gauge'' (fd_show ops last_s),
         prom_metric ''aegis_engine_kv_pages_used'' ''KV cache pages currently in use'' ''gauge'' (show_nat (nat (max (sv_active st) 0))),
         prom_metric ''aegis_engine_kv_pages_free'' ''KV cache pages currently free'' ''gauge'' (show_nat 0)])"

definition completion_id :: "string \<Rightarrow> clock \<Rightarrow> string" where
  "completion_id pre ck = pre @ ''-'' @ show_nat (ck_millis ck)"

definition system_fingerprint :: "'s server_world \<Rightarrow> string" where
  "system_fingerprint w = ''aegis-'' @ er_selected_backend (sw_readiness w)"

text \<open>\<^verbatim>\<open>AegisError\<close> as text.\<close>

fun show_error :: "aegis_error \<Rightarrow> string" where
  "show_error (InvalidConfig m) = ''invalid configuration: '' @ m"
| "show_error (InvalidPlan m) = ''invalid execution plan: '' @ m"
| "show_error (Unsupported m) = ''unsupported operation: '' @ m"
| "show_error (MissingFile m) = ''missing required file: '' @ m"
| "show_error (Io m) = ''io error: '' @ m"
| "show_error (Json m) = ''json error: '' @ m"

section \<open>Requests to the engine\<close>

definition chat_prompt_from_json :: "'s server_world \<Rightarrow> json \<Rightarrow> string + string" where
  "chat_prompt_from_json w v =
     (case parse_chat_messages (sw_serde w) v of
        Inl e \<Rightarrow> Inl e
      | Inr messages \<Rightarrow>
         (case render_chat_for_artifact (sw_serde w) (sw_jinja w) (sw_text_files w) messages (extract_tools v)
                 (case Option.bind (js_get v ''enable_thinking'') js_bool of None \<Rightarrow> True | Some b \<Rightarrow> b) of
            Inl e \<Rightarrow> Inl (show_error e)
          | Inr prompt \<Rightarrow> Inr prompt))"

definition openai_prompt :: "'s server_world \<Rightarrow> bool \<Rightarrow> json \<Rightarrow> string + string" where
  "openai_prompt w chat v = (if chat then chat_prompt_from_json w v else completion_prompt_from_json v)"

definition request_from_json :: "'s server_world \<Rightarrow> json \<Rightarrow> nat list \<Rightarrow> string \<Rightarrow> generate_request" where
  "request_from_json w v stops prompt =
     \<lparr>rq_prompt = prompt, rq_max_tokens = json_usize_any v [''max_tokens'', ''max_completion_tokens''] 32,
      rq_sampling =
        \<lparr>temperature = json_f32 (sw_serde w) v ''temperature'' (temperature (sw_sampling w)),
         top_k = json_usize v ''top_k'' (top_k (sw_sampling w)),
         top_p = json_f32 (sw_serde w) v ''top_p'' (top_p (sw_sampling w)),
         min_p = json_f32 (sw_serde w) v ''min_p'' (min_p (sw_sampling w))\<rparr>,
      rq_stop_token_ids = stops, rq_image_injection = None, rq_audio_injection = None\<rparr>"

definition google_request_from_json :: "'s server_world \<Rightarrow> json \<Rightarrow> string \<Rightarrow> generate_request" where
  "google_request_from_json w v prompt =
     (let config = (case js_get v ''generationConfig'' of None \<Rightarrow> JsNull | Some c \<Rightarrow> c)
      in \<lparr>rq_prompt = prompt,
          rq_max_tokens = json_usize_any config [''maxOutputTokens'', ''max_tokens'', ''max_completion_tokens''] 32,
          rq_sampling =
            \<lparr>temperature = json_f32 (sw_serde w) config ''temperature'' (temperature (sw_sampling w)),
             top_k = json_usize config ''topK'' (top_k (sw_sampling w)),
             top_p = json_f32 (sw_serde w) config ''topP'' (top_p (sw_sampling w)),
             min_p = json_f32 (sw_serde w) config ''minP'' (min_p (sw_sampling w))\<rparr>,
          rq_stop_token_ids = [], rq_image_injection = None, rq_audio_injection = None\<rparr>)"

definition output_stats :: "generate_output \<Rightarrow> nat \<times> nat" where
  "output_stats out = (go_prompt_tokens out, go_completion_tokens out)"

section \<open>Complete answers\<close>

definition openai_usage :: "generate_output \<Rightarrow> json" where
  "openai_usage out =
     js_object
       [(''prompt_tokens'', js_nat (go_prompt_tokens out)), (''completion_tokens'', js_nat (go_completion_tokens out)),
        (''total_tokens'', js_nat (go_prompt_tokens out + go_completion_tokens out))]"

definition openai_tool_call :: "tool_call \<Rightarrow> json" where
  "openai_tool_call tc =
     js_object
       [(''id'', JsString (tc_id tc)), (''type'', JsString (tc_call_type tc)),
        (''function'', js_object [(''name'', JsString (fn_name (tc_function tc))),
                                (''arguments'', JsString (fn_arguments (tc_function tc)))])]"

definition openai_message :: "parsed_assistant \<Rightarrow> json" where
  "openai_message p =
     js_object
       ([(''role'', JsString ''assistant''),
         (''content'', if pa_content p = [] then JsNull else JsString (pa_content p))]
        @ (case pa_reasoning p of None \<Rightarrow> [] | Some r \<Rightarrow> [(''reasoning_content'', JsString r)])
        @ (if pa_tool_calls p = [] then []
           else [(''tool_calls'', JsArray (map openai_tool_call (pa_tool_calls p)))]))"

definition openai_chat_answer :: "'s server_world \<Rightarrow> clock \<Rightarrow> parsed_assistant \<Rightarrow> generate_output \<Rightarrow> json" where
  "openai_chat_answer w ck p out =
     js_object
       [(''id'', JsString (completion_id ''chatcmpl'' ck)), (''object'', JsString ''chat.completion''),
        (''created'', js_nat (ck_secs ck)), (''model'', JsString (model_name w)),
        (''system_fingerprint'', JsString (system_fingerprint w)),
        (''choices'', JsArray [js_object
           [(''index'', js_nat 0), (''message'', openai_message p),
            (''finish_reason'', JsString (if pa_tool_calls p \<noteq> [] then ''tool_calls''
                                        else openai_finish_reason (go_finish_reason out)))]]),
        (''usage'', openai_usage out)]"

definition openai_completion_answer :: "'s server_world \<Rightarrow> clock \<Rightarrow> generate_output \<Rightarrow> json" where
  "openai_completion_answer w ck out =
     js_object
       [(''id'', JsString (completion_id ''cmpl'' ck)), (''object'', JsString ''text_completion''),
        (''created'', js_nat (ck_secs ck)), (''model'', JsString (model_name w)),
        (''system_fingerprint'', JsString (system_fingerprint w)),
        (''choices'', JsArray [js_object
           [(''index'', js_nat 0), (''text'', JsString (go_text out)),
            (''finish_reason'', JsString (openai_finish_reason (go_finish_reason out)))]]),
        (''usage'', openai_usage out)]"

definition generate_http_response ::
  "'s server_world \<Rightarrow> clock \<Rightarrow> string \<Rightarrow> bool \<Rightarrow> server_state \<Rightarrow> server_state \<times> nat \<times> json" where
  "generate_http_response w ck body chat st =
     (if \<not> er_runnable (sw_readiness w)
      then (record_generation_rejected st, executor_not_ready (sw_readiness w))
      else case sd_parse (sw_serde w) body of
             Inl e \<Rightarrow> (st, json_error 400 (''invalid json body: '' @ e))
           | Inr v \<Rightarrow>
              (case validate_openai_request_for_model (model_name w) v of
                 Inl e \<Rightarrow> (st, json_error 400 e)
               | Inr _ \<Rightarrow>
                  (case openai_prompt w chat v of
                     Inl e \<Rightarrow> (st, json_error 400 e)
                   | Inr prompt \<Rightarrow>
                      with_guard (\<lambda>st.
                        case engine_generate (sw_engine w)
                               (request_from_json w v (if chat then sv_stop_token_ids st else []) prompt) of
                          Inl e \<Rightarrow>
                            (record_generation (sw_f64 w) (ck_elapsed_ms ck) None st, json_error 503 (show_error e))
                        | Inr out \<Rightarrow>
                            (record_generation (sw_f64 w) (ck_elapsed_ms ck) (Some (output_stats out)) st,
                             200,
                             if chat
                             then openai_chat_answer w ck
                                    (parse_assistant (serde_from_str (sw_serde w)) (sv_parser_kind st) (go_text out)) out
                             else openai_completion_answer w ck out)) st)))"

definition anthropic_tool_use :: "serde \<Rightarrow> tool_call \<Rightarrow> json" where
  "anthropic_tool_use sd tc =
     js_object
       [(''type'', JsString ''tool_use''), (''id'', JsString (tc_id tc)),
        (''name'', JsString (fn_name (tc_function tc))),
        (''input'', (case sd_parse sd (fn_arguments (tc_function tc)) of Inl _ \<Rightarrow> js_object [] | Inr v \<Rightarrow> v))]"

definition text_block :: "string \<Rightarrow> json" where
  "text_block txt = js_object [(''type'', JsString ''text''), (''text'', JsString txt)]"

definition anthropic_blocks :: "serde \<Rightarrow> parsed_assistant \<Rightarrow> string \<Rightarrow> json list" where
  "anthropic_blocks sd p raw =
     (let blocks =
        (case pa_reasoning p of None \<Rightarrow> []
         | Some r \<Rightarrow> [js_object [(''type'', JsString ''thinking''), (''thinking'', JsString r)]])
        @ (if pa_content p = [] then [] else [text_block (pa_content p)])
        @ map (anthropic_tool_use sd) (pa_tool_calls p)
      in if blocks = [] then [text_block raw] else blocks)"

definition anthropic_answer :: "'s server_world \<Rightarrow> clock \<Rightarrow> parsed_assistant \<Rightarrow> generate_output \<Rightarrow> json" where
  "anthropic_answer w ck p out =
     js_object
       [(''id'', JsString (completion_id ''msg'' ck)), (''type'', JsString ''message''), (''role'', JsString ''assistant''),
        (''model'', JsString (model_name w)), (''content'', JsArray (anthropic_blocks (sw_serde w) p (go_text out))),
        (''stop_reason'', JsString (if pa_tool_calls p \<noteq> [] then ''tool_use''
                                  else anthropic_stop_reason (go_finish_reason out))),
        (''usage'', js_object [(''input_tokens'', js_nat (go_prompt_tokens out)),
                             (''output_tokens'', js_nat (go_completion_tokens out))])]"

definition generate_anthropic_response ::
  "'s server_world \<Rightarrow> clock \<Rightarrow> string \<Rightarrow> server_state \<Rightarrow> server_state \<times> nat \<times> json" where
  "generate_anthropic_response w ck body st =
     (if \<not> er_runnable (sw_readiness w)
      then (record_generation_rejected st, executor_not_ready (sw_readiness w))
      else case sd_parse (sw_serde w) body of
             Inl e \<Rightarrow> (st, json_error 400 (''invalid json body: '' @ e))
           | Inr v \<Rightarrow>
              (case chat_prompt_from_json w v of
                 Inl e \<Rightarrow> (st, json_error 400 e)
               | Inr prompt \<Rightarrow>
                  with_guard (\<lambda>st.
                    case engine_generate (sw_engine w) (request_from_json w v (sv_stop_token_ids st) prompt) of
                      Inl e \<Rightarrow>
                        (record_generation (sw_f64 w) (ck_elapsed_ms ck) None st, json_error 500 (show_error e))
                    | Inr out \<Rightarrow>
                        (record_generation (sw_f64 w) (ck_elapsed_ms ck) (Some (output_stats out)) st,
                         200,
                         anthropic_answer w ck
                           (parse_assistant (serde_from_str (sw_serde w)) (sv_parser_kind st) (go_text out)) out)) st))"

definition google_answer :: "'s server_world \<Rightarrow> generate_output \<Rightarrow> json" where
  "google_answer w out =
     js_object
       [(''candidates'', JsArray [js_object
           [(''content'', js_object [(''role'', JsString ''model''),
                                   (''parts'', JsArray [js_object [(''text'', JsString (go_text out))]])]),
            (''finishReason'', JsString (google_finish_reason (go_finish_reason out)))]]),
        (''usageMetadata'', js_object
           [(''promptTokenCount'', js_nat (go_prompt_tokens out)),
            (''candidatesTokenCount'', js_nat (go_completion_tokens out)),
            (''totalTokenCount'', js_nat (go_prompt_tokens out + go_completion_tokens out))]),
        (''modelVersion'', JsString (model_name w))]"

definition generate_google_response ::
  "'s server_world \<Rightarrow> clock \<Rightarrow> string \<Rightarrow> server_state \<Rightarrow> server_state \<times> nat \<times> json" where
  "generate_google_response w ck body st =
     (if \<not> er_runnable (sw_readiness w)
      then (record_generation_rejected st, executor_not_ready (sw_readiness w))
      else case sd_parse (sw_serde w) body of
             Inl e \<Rightarrow> (st, json_error 400 (''invalid json body: '' @ e))
           | Inr v \<Rightarrow>
              (case google_prompt_from_json v of
                 Inl e \<Rightarrow> (st, json_error 400 e)
               | Inr prompt \<Rightarrow>
                  with_guard (\<lambda>st.
                    case engine_generate (sw_engine w) (google_request_from_json w v prompt) of
                      Inl e \<Rightarrow>
                        (record_generation (sw_f64 w) (ck_elapsed_ms ck) None st, json_error 500 (show_error e))
                    | Inr out \<Rightarrow>
                        (record_generation (sw_f64 w) (ck_elapsed_ms ck) (Some (output_stats out)) st,
                         200, google_answer w out)) st))"

section \<open>Routes\<close>

definition health_answer :: "'s server_world \<Rightarrow> server_state \<Rightarrow> json" where
  "health_answer w st =
     js_object
       [(''status'', JsString (if er_runnable (sw_readiness w) then ''ok'' else ''degraded'')),
        (''model'', JsString (model_name w)),
        (''api'', js_object
           [(''compatibility'', JsString (api_name (sw_api w))), (''streaming'', JsBool True),
            (''chat_completions'', JsBool (sw_api w = ApiOpenAi)), (''completions'', JsBool (sw_api w = ApiOpenAi)),
            (''messages'', JsBool (sw_api w = ApiAnthropic)), (''generate_content'', JsBool (sw_api w = ApiGoogle))]),
        (''executor'', readiness_json (sw_readiness w)),
        (''metrics'', metrics_json (sw_f64 w) (sv_metrics st))]"

definition models_answer :: "'s server_world \<Rightarrow> json" where
  "models_answer w =
     js_object
       [(''object'', JsString ''list''),
        (''data'', JsArray [js_object
           [(''id'', JsString (model_name w)), (''object'', JsString ''model''), (''owned_by'', JsString ''aegisllm''),
            (''metadata'', js_object
               [(''backend'', JsString (er_selected_backend (sw_readiness w))),
                (''runnable'', JsBool (er_runnable (sw_readiness w))),
                (''api_compatibility'', JsString (api_name (sw_api w)))])]])]"

definition route_http_request ::
  "'s server_world \<Rightarrow> clock \<Rightarrow> http_request \<Rightarrow> server_state \<Rightarrow> server_state \<times> nat \<times> json" where
  "route_http_request w ck req st =
     (let verb = hr_method req; path = hr_path req
      in if verb = ''GET'' \<and> path \<in> set [''/'', ''/health'', ''/healthz''] then (st, 200, health_answer w st)
         else if verb = ''GET'' \<and> path \<in> set [''/ready'', ''/readyz''] then
           (st, if er_runnable (sw_readiness w) then 200 else 503,
            js_object [(''ready'', JsBool (er_runnable (sw_readiness w))), (''executor'', readiness_json (sw_readiness w))])
         else if verb = ''GET'' \<and> path = ''/metrics'' then
           (st, 200, js_object
              [(''model'', JsString (model_name w)), (''api'', JsString (api_name (sw_api w))),
               (''executor'', readiness_json (sw_readiness w)), (''metrics'', metrics_json (sw_f64 w) (sv_metrics st))])
         else if verb = ''GET'' \<and> path = ''/v1/models'' then (st, 200, models_answer w)
         else if verb = ''POST'' \<and> path = ''/v1/completions'' \<and> sw_api w = ApiOpenAi then
           generate_http_response w ck (hr_body req) False st
         else if verb = ''POST'' \<and> path = ''/v1/chat/completions'' \<and> sw_api w = ApiOpenAi then
           generate_http_response w ck (hr_body req) True st
         else if verb = ''POST'' \<and> path = ''/v1/messages'' \<and> sw_api w = ApiAnthropic then
           generate_anthropic_response w ck (hr_body req) st
         else if verb = ''POST'' \<and> sw_api w = ApiGoogle \<and> prefix ''/v1beta/models/'' path
              \<and> suffix '':generateContent'' path then
           generate_google_response w ck (hr_body req) st
         else if verb = ''OPTIONS'' then (st, 200, js_object [])
         else (st, 404, js_object [(''error'', js_object
                [(''message'', JsString (''unknown route `'' @ verb @ ''` '' @ path)),
                 (''type'', JsString ''not_found'')])]))"

end
