(* ===== verification/HttpStream.thy ===== *)
theory HttpStream
  imports HttpServer
begin

text \<open>
  Event streams of the HTTP server (\<^verbatim>\<open>aegisllm/src/server/http.rs\<close>) and the handling of a
  connection: the frames of the three interfaces, the callback that writes them while the model generates,
  the authorization in front of the routes, and the accept loop. What they promise is in \<open>HttpCorrect\<close>.
\<close>

section \<open>Frames\<close>

definition data_frame :: "serde \<Rightarrow> json \<Rightarrow> string" where
  "data_frame sd v = ''data: '' @ sd_print sd v @ [nl, nl]"

definition event_frame :: "string \<Rightarrow> string \<Rightarrow> string" where
  "event_frame event data = ''event: '' @ event @ [nl] @ ''data: '' @ data @ [nl, nl]"

text \<open>The fields every chunk of an OpenAI stream starts with.\<close>

record chunk_head =
  ch_id :: string
  ch_object :: string
  ch_created :: nat
  ch_model :: string
  ch_fingerprint :: string

definition openai_head :: "'s server_world \<Rightarrow> clock \<Rightarrow> bool \<Rightarrow> chunk_head" where
  "openai_head w ck chat =
     \<lparr>ch_id = completion_id (if chat then ''chatcmpl'' else ''cmpl'') ck,
      ch_object = (if chat then ''chat.completion.chunk'' else ''text_completion.chunk''),
      ch_created = ck_secs ck, ch_model = model_name w, ch_fingerprint = system_fingerprint w\<rparr>"

definition openai_chunk :: "chunk_head \<Rightarrow> (string \<times> json) list \<Rightarrow> (string \<times> json) list \<Rightarrow> json" where
  "openai_chunk h extra choice =
     js_object
       ([(''id'', JsString (ch_id h)), (''object'', JsString (ch_object h)), (''created'', js_nat (ch_created h)),
         (''model'', JsString (ch_model h))] @ extra
        @ [(''choices'', JsArray [js_object ((''index'', js_nat 0) # choice)])])"

definition role_chunk :: "chunk_head \<Rightarrow> json" where
  "role_chunk h =
     openai_chunk h [(''system_fingerprint'', JsString (ch_fingerprint h))]
       [(''delta'', js_object [(''role'', JsString ''assistant''), (''content'', JsString [])]), (''finish_reason'', JsNull)]"

text \<open>The chunk of a parser event; \<open>None\<close> where the event is not sent.\<close>

definition delta_chunk :: "chunk_head \<Rightarrow> (string \<times> json) list \<Rightarrow> json" where
  "delta_chunk h delta = openai_chunk h [] [(''delta'', js_object delta), (''finish_reason'', JsNull)]"

definition openai_event :: "chunk_head \<Rightarrow> bool \<Rightarrow> stream_event \<Rightarrow> json option" where
  "openai_event h chat event =
     (if chat then
        (case event of
           Text s \<Rightarrow> Some (delta_chunk h [(''content'', JsString s)])
         | Reasoning s \<Rightarrow> Some (delta_chunk h [(''reasoning_content'', JsString s)])
         | ToolCallBegin index i name \<Rightarrow>
             Some (delta_chunk h [(''tool_calls'', JsArray [js_object
               [(''index'', js_nat index), (''id'', JsString i), (''type'', JsString ''function''),
                (''function'', js_object [(''name'', JsString name), (''arguments'', JsString [])])]])])
         | ToolCallArgsDelta index part \<Rightarrow>
             Some (delta_chunk h [(''tool_calls'', JsArray [js_object
               [(''index'', js_nat index), (''function'', js_object [(''arguments'', JsString part)])]])])
         | ToolCallEnd _ \<Rightarrow> None)
      else
        (case event of
           Text s \<Rightarrow> Some (openai_chunk h [] [(''text'', JsString s), (''finish_reason'', JsNull)])
         | _ \<Rightarrow> None))"

definition begins_call :: "bool \<Rightarrow> stream_event \<Rightarrow> bool" where
  "begins_call chat event \<longleftrightarrow> chat \<and> (case event of ToolCallBegin _ _ _ \<Rightarrow> True | _ \<Rightarrow> False)"

definition openai_final_chunk :: "chunk_head \<Rightarrow> bool \<Rightarrow> string \<Rightarrow> json" where
  "openai_final_chunk h chat reason =
     (if chat then openai_chunk h [] [(''delta'', js_object []), (''finish_reason'', JsString reason)]
      else openai_chunk h [] [(''text'', JsString []), (''finish_reason'', JsString reason)])"

section \<open>Writing while the model generates\<close>

text \<open>\<^verbatim>\<open>write_sse_chunk(..).ok()\<close>.\<close>

definition send :: "string \<Rightarrow> tcp_stream \<Rightarrow> tcp_stream" where
  "send frame t = fst (write_sse_chunk frame t)"

text \<open>
  The state of the OpenAI callback: the parser, whether a tool call was announced, the connection.
  \<open>emit_event\<close> notes the call before it writes.
\<close>

type_synonym openai_sink = "streaming_parser \<times> bool \<times> tcp_stream"

definition emit_event ::
  "serde \<Rightarrow> chunk_head \<Rightarrow> bool \<Rightarrow> stream_event \<Rightarrow> bool \<times> tcp_stream \<Rightarrow> (bool \<times> tcp_stream) \<times> unit aegis_result" where
  "emit_event sd h chat event sink =
     (let called = fst sink \<or> begins_call chat event
      in case openai_event h chat event of
           None \<Rightarrow> ((called, snd sink), Inr ())
         | Some v \<Rightarrow> (case write_sse_chunk (data_frame sd v) (snd sink) of (t, r) \<Rightarrow> ((called, t), r)))"

fun emit_events ::
  "serde \<Rightarrow> chunk_head \<Rightarrow> bool \<Rightarrow> stream_event list \<Rightarrow> bool \<times> tcp_stream \<Rightarrow> (bool \<times> tcp_stream) \<times> bool" where
  "emit_events sd h chat [] sink = (sink, False)"
| "emit_events sd h chat (event # events) sink =
     (case emit_event sd h chat event sink of
        (sink, Inl _) \<Rightarrow> (sink, True)
      | (sink, Inr _) \<Rightarrow> emit_events sd h chat events sink)"

definition openai_callback ::
  "serde \<Rightarrow> chunk_head \<Rightarrow> bool \<Rightarrow> openai_sink \<Rightarrow> nat \<Rightarrow> string \<Rightarrow> bool \<times> openai_sink" where
  "openai_callback sd h chat sink tok tok_text =
     (case sp_push (serde_from_str sd) (fst sink) tok_text of
        (parser, events) \<Rightarrow>
          (case emit_events sd h chat events (snd sink) of (rest, brk) \<Rightarrow> (brk, parser, rest)))"

definition respond_json :: "serde \<Rightarrow> nat \<times> json \<Rightarrow> tcp_stream \<Rightarrow> tcp_stream \<times> unit aegis_result" where
  "respond_json sd answer t = write_json_response (fst answer) (sd_print sd (snd answer)) t"

definition bad_request :: "serde \<Rightarrow> string \<Rightarrow> tcp_stream \<times> server_state \<Rightarrow> (tcp_stream \<times> server_state) \<times> unit aegis_result" where
  "bad_request sd message ts =
     (case respond_json sd (json_error 400 message) (fst ts) of (t, r) \<Rightarrow> ((t, snd ts), r))"

definition finish_of :: "(string \<Rightarrow> string) \<Rightarrow> string \<Rightarrow> generate_output aegis_result \<Rightarrow> string" where
  "finish_of reason dflt result = (case result of Inl _ \<Rightarrow> dflt | Inr out \<Rightarrow> reason (go_finish_reason out))"

definition record_result :: "'s server_world \<Rightarrow> clock \<Rightarrow> generate_output aegis_result \<Rightarrow> server_state \<Rightarrow> server_state" where
  "record_result w ck result st =
     record_generation (sw_f64 w) (ck_elapsed_ms ck)
       (case result of Inl _ \<Rightarrow> None | Inr out \<Rightarrow> Some (output_stats out)) st"

definition done_frame :: string where
  "done_frame = ''data: [DONE]'' @ [nl, nl]"

text \<open>The generation between the headers and the end of an OpenAI stream.\<close>

definition openai_stream ::
  "'s server_world \<Rightarrow> clock \<Rightarrow> bool \<Rightarrow> generate_request \<Rightarrow> tcp_stream \<Rightarrow> server_state \<Rightarrow> server_state \<times> tcp_stream" where
  "openai_stream w ck chat request t st =
     (let sd = sw_serde w; h = openai_head w ck chat;
          t = (if chat then send (data_frame sd (role_chunk h)) t else t)
      in case engine_generate_streaming (sw_engine w) request (openai_callback sd h chat)
                (sp_new (sv_parser_kind st), False, t) of
           ((parser, called, t), result) \<Rightarrow>
             let (called, t) = foldl (\<lambda>sink event. fst (emit_event sd h chat event sink)) (called, t)
                                 (snd (sp_flush parser));
                 finish = finish_of openai_finish_reason ''stop'' result;
                 finish = (if chat \<and> called then ''tool_calls'' else finish);
                 t = send done_frame (send (data_frame sd (openai_final_chunk h chat finish)) t)
             in (record_result w ck result st, fst (write_sse_end t)))"

definition sse_openai ::
  "'s server_world \<Rightarrow> clock \<Rightarrow> json \<Rightarrow> bool \<Rightarrow> tcp_stream \<times> server_state \<Rightarrow> (tcp_stream \<times> server_state) \<times> unit aegis_result" where
  "sse_openai w ck v chat ts =
     (case validate_openai_request_for_model (model_name w) v of
        Inl e \<Rightarrow> bad_request (sw_serde w) e ts
      | Inr _ \<Rightarrow>
         (case openai_prompt w chat v of
            Inl e \<Rightarrow> bad_request (sw_serde w) e ts
          | Inr prompt \<Rightarrow>
             (case write_sse_headers (fst ts) of
                (t, Inl e) \<Rightarrow> ((t, snd ts), Inl e)
              | (t, Inr _) \<Rightarrow>
                 (let request = request_from_json w v (if chat then sv_stop_token_ids (snd ts) else []) prompt
                  in case with_guard (openai_stream w ck chat request t) (snd ts) of
                       (st, t) \<Rightarrow> ((t, st), Inr ())))))"

text \<open>The other interfaces send the text of every token as it is.\<close>

definition token_callback :: "(string \<Rightarrow> string) \<Rightarrow> tcp_stream \<Rightarrow> nat \<Rightarrow> string \<Rightarrow> bool \<times> tcp_stream" where
  "token_callback frame t tok tok_text =
     (case write_sse_chunk (frame tok_text) t of (t, Inl _) \<Rightarrow> (True, t) | (t, Inr _) \<Rightarrow> (False, t))"

definition anthropic_start :: "'s server_world \<Rightarrow> clock \<Rightarrow> json" where
  "anthropic_start w ck =
     js_object
       [(''type'', JsString ''message_start''),
        (''message'', js_object
           [(''id'', JsString (completion_id ''msg'' ck)), (''type'', JsString ''message''),
            (''role'', JsString ''assistant''), (''model'', JsString (model_name w)),
            (''system_fingerprint'', JsString (system_fingerprint w)), (''content'', JsArray []),
            (''stop_reason'', JsNull),
            (''usage'', js_object [(''input_tokens'', js_nat 0), (''output_tokens'', js_nat 0)])])]"

definition anthropic_block_start :: json where
  "anthropic_block_start =
     js_object [(''type'', JsString ''content_block_start''), (''index'', js_nat 0), (''content_block'', text_block [])]"

definition anthropic_delta :: "serde \<Rightarrow> string \<Rightarrow> string" where
  "anthropic_delta sd tok_text =
     event_frame ''content_block_delta''
       (sd_print sd (js_object
          [(''type'', JsString ''content_block_delta''), (''index'', js_nat 0),
           (''delta'', js_object [(''type'', JsString ''text_delta''), (''text'', JsString tok_text)])]))"

definition anthropic_stop :: "string \<Rightarrow> nat \<Rightarrow> json" where
  "anthropic_stop reason output_tokens =
     js_object
       [(''type'', JsString ''message_delta''),
        (''delta'', js_object [(''stop_reason'', JsString reason), (''stop_sequence'', JsNull)]),
        (''usage'', js_object [(''output_tokens'', js_nat output_tokens)])]"

definition ping_frame :: string where
  "ping_frame = event_frame ''ping'' ''{\"type\":\"ping\"}''"

definition block_stop_frame :: string where
  "block_stop_frame = event_frame ''content_block_stop'' ''{\"type\":\"content_block_stop\",\"index\":0}''"

definition message_stop_frame :: string where
  "message_stop_frame = event_frame ''message_stop'' ''{\"type\":\"message_stop\"}''"

definition anthropic_stream ::
  "'s server_world \<Rightarrow> clock \<Rightarrow> generate_request \<Rightarrow> tcp_stream \<Rightarrow> server_state \<Rightarrow> server_state \<times> tcp_stream" where
  "anthropic_stream w ck request t st =
     (let sd = sw_serde w;
          t = send (event_frame ''message_start'' (sd_print sd (anthropic_start w ck))) t;
          t = send (event_frame ''content_block_start'' (sd_print sd anthropic_block_start)) t;
          t = send ping_frame t
      in case engine_generate_streaming (sw_engine w) request (token_callback (anthropic_delta sd)) t of
           (t, result) \<Rightarrow>
             let tokens = (case result of Inl _ \<Rightarrow> 0 | Inr out \<Rightarrow> go_completion_tokens out);
                 t = send block_stop_frame t;
                 t = send (event_frame ''message_delta''
                       (sd_print sd (anthropic_stop (finish_of anthropic_stop_reason ''end_turn'' result) tokens))) t;
                 t = send message_stop_frame t
             in (record_result w ck result st, fst (write_sse_end t)))"

definition sse_anthropic ::
  "'s server_world \<Rightarrow> clock \<Rightarrow> json \<Rightarrow> tcp_stream \<times> server_state \<Rightarrow> (tcp_stream \<times> server_state) \<times> unit aegis_result" where
  "sse_anthropic w ck v ts =
     (case chat_prompt_from_json w v of
        Inl e \<Rightarrow> bad_request (sw_serde w) e ts
      | Inr prompt \<Rightarrow>
         (case write_sse_headers (fst ts) of
            (t, Inl e) \<Rightarrow> ((t, snd ts), Inl e)
          | (t, Inr _) \<Rightarrow>
              (case with_guard (anthropic_stream w ck (request_from_json w v [] prompt) t) (snd ts) of
                 (st, t) \<Rightarrow> ((t, st), Inr ()))))"

definition google_chunk :: "'s server_world \<Rightarrow> string \<Rightarrow> string" where
  "google_chunk w tok_text =
     data_frame (sw_serde w)
       (js_object
          [(''candidates'', JsArray [js_object
              [(''content'', js_object [(''role'', JsString ''model''),
                                      (''parts'', JsArray [js_object [(''text'', JsString tok_text)]])]),
               (''index'', js_nat 0)]]),
           (''modelVersion'', JsString (model_name w))])"

definition google_final :: "'s server_world \<Rightarrow> generate_output \<Rightarrow> json" where
  "google_final w out =
     js_object
       [(''candidates'', JsArray [js_object
           [(''content'', js_object [(''role'', JsString ''model''), (''parts'', JsArray [js_object [(''text'', JsString [])]])]),
            (''finishReason'', JsString (google_finish_reason (go_finish_reason out))), (''index'', js_nat 0)]]),
        (''usageMetadata'', js_object
           [(''promptTokenCount'', js_nat (go_prompt_tokens out)),
            (''candidatesTokenCount'', js_nat (go_completion_tokens out)),
            (''totalTokenCount'', js_nat (go_prompt_tokens out + go_completion_tokens out))]),
        (''modelVersion'', JsString (model_name w))]"

definition google_stream ::
  "'s server_world \<Rightarrow> clock \<Rightarrow> generate_request \<Rightarrow> tcp_stream \<Rightarrow> server_state \<Rightarrow> server_state \<times> tcp_stream" where
  "google_stream w ck request t st =
     (case engine_generate_streaming (sw_engine w) request (token_callback (google_chunk w)) t of
        (t, result) \<Rightarrow>
          let t = (case result of Inl _ \<Rightarrow> t | Inr out \<Rightarrow> send (data_frame (sw_serde w) (google_final w out)) t)
          in (record_result w ck result st, fst (write_sse_end t)))"

definition sse_google ::
  "'s server_world \<Rightarrow> clock \<Rightarrow> json \<Rightarrow> tcp_stream \<times> server_state \<Rightarrow> (tcp_stream \<times> server_state) \<times> unit aegis_result" where
  "sse_google w ck v ts =
     (case google_prompt_from_json v of
        Inl e \<Rightarrow> bad_request (sw_serde w) e ts
      | Inr prompt \<Rightarrow>
         (case write_sse_headers (fst ts) of
            (t, Inl e) \<Rightarrow> ((t, snd ts), Inl e)
          | (t, Inr _) \<Rightarrow>
              (case with_guard (google_stream w ck (google_request_from_json w v prompt) t) (snd ts) of
                 (st, t) \<Rightarrow> ((t, st), Inr ()))))"

section \<open>A connection\<close>

definition handle_streaming_request ::
  "'s server_world \<Rightarrow> clock \<Rightarrow> http_request \<Rightarrow> tcp_stream \<times> server_state \<Rightarrow> (tcp_stream \<times> server_state) \<times> unit aegis_result" where
  "handle_streaming_request w ck req ts =
     (if \<not> er_runnable (sw_readiness w)
      then (case respond_json (sw_serde w) (executor_not_ready (sw_readiness w)) (fst ts) of
              (t, r) \<Rightarrow> ((t, record_generation_rejected (snd ts)), r))
      else case sd_parse (sw_serde w) (hr_body req) of
             Inl e \<Rightarrow> bad_request (sw_serde w) (''invalid json body: '' @ e) ts
           | Inr v \<Rightarrow>
              if sw_api w = ApiOpenAi \<and> hr_path req = ''/v1/chat/completions'' then sse_openai w ck v True ts
              else if sw_api w = ApiOpenAi \<and> hr_path req = ''/v1/completions'' then sse_openai w ck v False ts
              else if sw_api w = ApiAnthropic \<and> hr_path req = ''/v1/messages'' then sse_anthropic w ck v ts
              else if sw_api w = ApiGoogle \<and> prefix ''/v1beta/models/'' (hr_path req)
                   \<and> (suffix '':streamGenerateContent'' (hr_path req) \<or> suffix '':generateContent'' (hr_path req))
                   then sse_google w ck v ts
              else (case respond_json (sw_serde w)
                           (404, js_object [(''error'', js_object
                              [(''message'', JsString (''streaming not supported for '' @ hr_method req @ '' '' @ hr_path req)),
                               (''type'', JsString ''not_found'')])]) (fst ts) of
                      (t, r) \<Rightarrow> ((t, snd ts), r)))"

definition needs_auth :: "http_request \<Rightarrow> bool" where
  "needs_auth req \<longleftrightarrow>
     hr_method req \<noteq> ''OPTIONS'' \<and> (prefix ''/v1/'' (hr_path req) \<or> prefix ''/v1beta/models/'' (hr_path req))"

definition is_streaming :: "serde \<Rightarrow> http_request \<Rightarrow> bool" where
  "is_streaming sd req \<longleftrightarrow>
     hr_method req = ''POST''
     \<and> (suffix '':streamGenerateContent'' (hr_path req)
        \<or> (case sd_parse sd (hr_body req) of
             Inl _ \<Rightarrow> False
           | Inr v \<Rightarrow> (case Option.bind (js_get v ''stream'') js_bool of None \<Rightarrow> False | Some b \<Rightarrow> b)))"

definition unauthorized :: "nat \<times> json" where
  "unauthorized =
     (401, js_object [(''error'', js_object
        [(''message'', JsString ''missing or invalid API key''), (''type'', JsString ''authentication_error'')])])"

definition handle_http_connection ::
  "'s server_world \<Rightarrow> clock \<Rightarrow> tcp_stream \<times> server_state \<Rightarrow> (tcp_stream \<times> server_state) \<times> unit aegis_result" where
  "handle_http_connection w ck ts =
     (case read_http_request (ts_reads (fst ts)) of
        Inl e \<Rightarrow> (ts, Inl e)
      | Inr req \<Rightarrow>
         (let t = fst ts; st = record_request (snd ts)
          in if hr_method req = ''GET'' \<and> hr_path req = ''/metrics'' then
               (case write_text_response 200 ''text/plain; version=0.0.4; charset=utf-8''
                       (metrics_prometheus (sw_f64 w) st) t of (t, r) \<Rightarrow> ((t, st), r))
             else if needs_auth req \<and> \<not> credential_authorized (sv_api_keys st) (hr_auth req) then
               (case respond_json (sw_serde w) unauthorized t of (t, r) \<Rightarrow> ((t, st), r))
             else if is_streaming (sw_serde w) req then handle_streaming_request w ck req (t, st)
             else (case route_http_request w ck req st of
                     (st, answer) \<Rightarrow> (case respond_json (sw_serde w) answer t of (t, r) \<Rightarrow> ((t, st), r)))))"

text \<open>One round of the accept loop; an error is answered, if the connection still takes it.\<close>

definition serve_connection :: "'s server_world \<Rightarrow> clock \<Rightarrow> tcp_stream \<times> server_state \<Rightarrow> tcp_stream \<times> server_state" where
  "serve_connection w ck ts =
     (case handle_http_connection w ck ts of
        (ts, Inr _) \<Rightarrow> ts
      | ((t, st), Inl e) \<Rightarrow>
          (fst (respond_json (sw_serde w)
                  (500, js_object [(''error'', js_object
                     [(''message'', JsString (show_error e)), (''type'', JsString ''internal_error'')])]) t), st))"

text \<open>The accept loop over the connections that arrive, with what the clock shows at each.\<close>

definition serve_all :: "'s server_world \<Rightarrow> (clock \<times> tcp_stream) list \<Rightarrow> server_state \<Rightarrow> server_state" where
  "serve_all w connections st = foldl (\<lambda>st (ck, t). snd (serve_connection w ck (t, st))) st connections"

end
