(* ===== verification/HttpCorrect.thy ===== *)
theory HttpCorrect
  imports HttpStream
begin

text \<open>
  What the HTTP server promises: a client of an event stream receives a beginning of the stream that an
  unbroken connection gets, for every interface; the tool calls of a stream depend on the text only; without a key
  nothing is generated; the counters stay consistent over any sequence of connections.
\<close>

section \<open>Bytes that go out\<close>

definition advance :: "string \<Rightarrow> tcp_stream \<Rightarrow> tcp_stream" where
  "advance s t = fst (write_all s t)"

lemma advance_written: "ts_written (advance s t) = ts_written t @ take (ts_accepts t) s"
  by (simp add: advance_def write_all_effect)

lemma advance_accepts: "ts_accepts (advance s t) = ts_accepts t - length s"
  by (simp add: advance_def write_all_effect)

lemma advance_Nil [simp]: "advance [] t = t"
  by (simp add: advance_def write_all_effect)

lemma advance_append [simp]: "advance b (advance a t) = advance (a @ b) t"
  by (simp add: advance_def write_all_effect)

lemma advance_broken: "ts_accepts t = 0 \<Longrightarrow> advance s t = t"
  by (simp add: advance_def write_all_effect)

lemma write_all_advance: "write_all s t = (advance s t, if length s \<le> ts_accepts t then Inr () else Inl broken_pipe)"
  by (simp add: advance_def write_all_effect(2) [symmetric])

lemma write_sse_chunk_advance:
  "write_sse_chunk frame t
     = (advance (sse_chunk frame) t,
        if length (sse_chunk frame) \<le> ts_accepts t then Inr () else Inl broken_pipe)"
  by (simp only: write_sse_chunk_all write_all_advance)

lemma send_advance: "send frame t = advance (sse_chunk frame) t"
  by (simp add: send_def write_sse_chunk_advance)

section \<open>The generation loop and a callback\<close>

text \<open>Feeding the tokens to a callback until it breaks.\<close>

fun feed :: "('c \<Rightarrow> nat \<Rightarrow> string \<Rightarrow> bool \<times> 'c) \<Rightarrow> 'c \<Rightarrow> (nat \<times> string) list \<Rightarrow> bool \<times> 'c" where
  "feed cb c [] = (False, c)"
| "feed cb c (x # xs) =
     (case cb c (fst x) (snd x) of (brk, c) \<Rightarrow> if brk then (True, c) else feed cb c xs)"

definition collect :: "(nat \<times> string) list \<Rightarrow> nat \<Rightarrow> string \<Rightarrow> bool \<times> (nat \<times> string) list" where
  "collect xs tok txt = (False, xs @ [(tok, txt)])"

text \<open>A run with a callback follows a run that only collects.\<close>

definition follows ::
  "('c \<Rightarrow> nat \<Rightarrow> string \<Rightarrow> bool \<times> 'c) \<Rightarrow> 'c \<Rightarrow> (nat \<times> string) list \<Rightarrow> 'c \<times> 'r \<Rightarrow> (nat \<times> string) list \<times> 'r \<Rightarrow> bool" where
  "follows cb c acc run quiet \<longleftrightarrow>
     (\<exists>seen. fst quiet = acc @ seen
        \<and> (case feed cb c seen of (brk, c') \<Rightarrow> fst run = c' \<and> (\<not> brk \<longrightarrow> snd run = snd quiet)))"

lemma follows_stop: "follows cb c acc (c, r) (acc, r)"
  by (auto simp: follows_def)

lemma follows_break:
  "cb c t x = (True, d) \<Longrightarrow> prefix (acc @ [(t, x)]) (fst quiet) \<Longrightarrow> follows cb c acc (d, r) quiet"
  by (auto simp: follows_def prefix_def)

lemma follows_step:
  assumes "cb c t x = (False, d)" "follows cb d (acc @ [(t, x)]) run quiet"
  shows "follows cb c acc run quiet"
proof -
  obtain seen where "fst quiet = acc @ (t, x) # seen"
    "case feed cb d seen of (brk, c') \<Rightarrow> fst run = c' \<and> (\<not> brk \<longrightarrow> snd run = snd quiet)"
    using assms(2) by (auto simp: follows_def)
  then show ?thesis using assms(1) unfolding follows_def by (intro exI [of _ "(t, x) # seen"]) simp
qed

lemma collect_loop_step:
  "stream_loop B request collect (Suc rem) acc state nxt generated =
     (let acc = acc @ [(nxt, token_text B nxt)]
      in if gb_is_eos B nxt then (butlast acc, Inr (generated, ''eos_token''))
         else if nxt \<in> set (rq_stop_token_ids request) then (acc, Inr (generated @ [nxt], ''stop''))
         else if length (generated @ [nxt]) < rq_max_tokens request
         then (case gb_forward_next_token B state nxt (rq_sampling request) of
                 Inl e \<Rightarrow> (acc, Inl e)
               | Inr (nxt', state) \<Rightarrow> stream_loop B request collect rem acc state nxt' (generated @ [nxt]))
         else stream_loop B request collect rem acc state nxt (generated @ [nxt]))"
proof -
  have "collect acc nxt (token_text B nxt) = (False, acc @ [(nxt, token_text B nxt)])" by (simp add: collect_def)
  then show ?thesis by (simp add: Let_def)
qed

lemma collect_extends: "prefix acc (fst (stream_loop B request collect rem acc state nxt generated))"
proof (induction rem arbitrary: acc state nxt generated)
  case (Suc rem)
  let ?acc = "acc @ [(nxt, token_text B nxt)]"
  have "prefix acc ?acc" by simp
  moreover have "prefix ?acc (fst (stream_loop B request collect rem ?acc s t g))" for s t g by (rule Suc.IH)
  ultimately have "prefix acc (fst (stream_loop B request collect rem ?acc s t g))" for s t g
    using prefix_order.trans by blast
  then show ?case
    by (auto simp: collect_loop_step Let_def simp del: stream_loop.simps split: sum.split prod.split)
qed simp

lemma stream_loop_follows:
  "follows cb c acc (stream_loop B request cb rem c state nxt generated)
     (stream_loop B request collect rem acc state nxt generated)"
proof (induction rem arbitrary: acc c state nxt generated)
  case 0
  show ?case by (simp add: follows_stop)
next
  case (Suc rem)
  let ?acc = "acc @ [(nxt, token_text B nxt)]"
  show ?case
  proof (cases "gb_is_eos B nxt")
    case True
    then show ?thesis by (simp add: follows_stop)
  next
    case live: False
    obtain brk d where cb: "cb c nxt (token_text B nxt) = (brk, d)" by fastforce
    have ext: "prefix ?acc (fst (stream_loop B request collect rem ?acc s t g))" for s t g
      by (rule collect_extends)
    show ?thesis
    proof (cases brk)
      case True
      with cb have b: "cb c nxt (token_text B nxt) = (True, d)" by simp
      have p: "prefix ?acc (fst (stream_loop B request collect (Suc rem) acc state nxt generated))"
        using ext live
        by (auto simp: collect_loop_step Let_def simp del: stream_loop.simps split: sum.split prod.split)
      have "stream_loop B request cb (Suc rem) c state nxt generated = (d, Inr (generated @ [nxt], ''length''))"
        using live b by simp
      then show ?thesis
        using follows_break [where cb = cb, OF b p] by (simp del: stream_loop.simps)
    next
      case False
      with cb have b: "cb c nxt (token_text B nxt) = (False, d)" by simp
      have "follows cb d ?acc (d, r) (?acc, r)" for r :: "(nat list \<times> string) aegis_result"
        by (rule follows_stop)
      moreover have "follows cb d ?acc (stream_loop B request cb rem d s t (generated @ [nxt]))
          (stream_loop B request collect rem ?acc s t (generated @ [nxt]))" for s t
        by (rule Suc.IH)
      ultimately show ?thesis
        using live unfolding collect_loop_step
        by (intro follows_step [where cb = cb, OF b]) (auto simp: b Let_def split: sum.split prod.split)
    qed
  qed
qed

text \<open>
  A stream without a listener: the tokens it delivers, with their texts, and its result. Any other
  callback gets these tokens until it breaks, and without a break the same result.
\<close>

definition spoken :: "'s backend_primitives aegis_engine \<Rightarrow> generate_request
    \<Rightarrow> (nat \<times> string) list \<times> generate_output aegis_result" where
  "spoken e request = engine_generate_streaming e request collect []"

lemma generate_streaming_feed:
  assumes "feed cb c (fst (spoken e request)) = (brk, c')"
  shows "fst (engine_generate_streaming e request cb c) = c'"
    and "\<not> brk \<Longrightarrow> snd (engine_generate_streaming e request cb c) = snd (spoken e request)"
proof -
  have "fst (engine_generate_streaming e request cb c) = c'
    \<and> (\<not> brk \<longrightarrow> snd (engine_generate_streaming e request cb c) = snd (spoken e request))"
  proof (cases "en_executor e")
    case None
    with assms show ?thesis by (simp add: spoken_def engine_generate_streaming_def)
  next
    case (Some B)
    show ?thesis
    proof (cases "start_generation B request")
      case (Inl err)
      with Some assms show ?thesis
        by (simp add: spoken_def engine_generate_streaming_def generate_streaming_def)
    next
      case (Inr r)
      obtain tokens nxt state where r: "r = (tokens, nxt, state)" by (cases r)
      have "follows cb c [] (stream_loop B request cb (rq_max_tokens request) c state nxt [])
          (stream_loop B request collect (rq_max_tokens request) [] state nxt [])"
        by (rule stream_loop_follows)
      with assms Some Inr r show ?thesis
        by (auto simp: follows_def spoken_def engine_generate_streaming_def generate_streaming_def split: prod.splits)
    qed
  qed
  then show "fst (engine_generate_streaming e request cb c) = c'"
    and "\<not> brk \<Longrightarrow> snd (engine_generate_streaming e request cb c) = snd (spoken e request)" by blast+
qed

section \<open>Complete streams\<close>

text \<open>What a list of frames is on the wire.\<close>

definition wire :: "string list \<Rightarrow> string" where
  "wire frames = concat (map sse_chunk frames)"

lemma wire_simps [simp]: "wire [] = []" "wire (f # fs) = sse_chunk f @ wire fs" "wire (fs @ gs) = wire fs @ wire gs"
  by (simp_all add: wire_def)

definition event_frames :: "serde \<Rightarrow> chunk_head \<Rightarrow> bool \<Rightarrow> stream_event list \<Rightarrow> string list" where
  "event_frames sd h chat events = map (data_frame sd) (List.map_filter (openai_event h chat) events)"

lemma event_frames_simps [simp]:
  "event_frames sd h chat [] = []"
  "event_frames sd h chat (e # es) =
     (case openai_event h chat e of None \<Rightarrow> [] | Some v \<Rightarrow> [data_frame sd v]) @ event_frames sd h chat es"
  "event_frames sd h chat (es @ es') = event_frames sd h chat es @ event_frames sd h chat es'"
  by (simp_all add: event_frames_def map_filter_simps map_filter_def split: option.split)

lemma emit_event_advance:
  "\<exists>r. emit_event sd h chat event (called, t)
     = ((called \<or> begins_call chat event, advance (wire (event_frames sd h chat [event])) t), r)
   \<and> (r \<noteq> Inr () \<longrightarrow> ts_accepts (advance (wire (event_frames sd h chat [event])) t) = 0)"
  by (auto simp: emit_event_def write_sse_chunk_advance advance_accepts split: option.split)

lemma emit_events_advance:
  assumes "emit_events sd h chat events (called, t) = ((called', t'), brk)"
  shows "t' = advance (wire (event_frames sd h chat events)) t"
    and "brk \<Longrightarrow> ts_accepts t' = 0"
    and "\<not> brk \<Longrightarrow> called' \<longleftrightarrow> called \<or> list_ex (begins_call chat) events"
proof -
  have "t' = advance (wire (event_frames sd h chat events)) t
      \<and> (brk \<longrightarrow> ts_accepts t' = 0) \<and> (\<not> brk \<longrightarrow> (called' \<longleftrightarrow> called \<or> list_ex (begins_call chat) events))"
    using assms
  proof (induction events arbitrary: called t)
    case Nil
    then show ?case by auto
  next
    case (Cons e es)
    let ?c = "called \<or> begins_call chat e" and ?t = "advance (wire (event_frames sd h chat [e])) t"
    have all: "advance (wire (event_frames sd h chat (e # es))) t = advance (wire (event_frames sd h chat es)) ?t"
      by simp
    from emit_event_advance [of sd h chat e called t] obtain r where
      r: "emit_event sd h chat e (called, t) = ((?c, ?t), r)" "r \<noteq> Inr () \<longrightarrow> ts_accepts ?t = 0" by blast
    show ?case
    proof (cases r)
      case (Inl err)
      with Cons.prems r have h: "called' = ?c" "t' = ?t" "brk" by auto
      have z: "ts_accepts ?t = 0" using r(2) Inl by blast
      then have "advance (wire (event_frames sd h chat (e # es))) t = ?t"
        unfolding all by (rule advance_broken)
      with h z show ?thesis by metis
    next
      case (Inr u)
      with Cons.prems r(1) have "emit_events sd h chat es (?c, ?t) = ((called', t'), brk)" by simp
      from Cons.IH [OF this] show ?thesis unfolding all by auto
    qed
  qed
  then show "t' = advance (wire (event_frames sd h chat events)) t"
    and "brk \<Longrightarrow> ts_accepts t' = 0"
    and "\<not> brk \<Longrightarrow> called' \<longleftrightarrow> called \<or> list_ex (begins_call chat) events" by blast+
qed

lemma feed_openai:
  assumes "feed (openai_callback sd h chat) (p, called, t) toks = (brk, p', called', t')"
  shows "t' = advance (wire (event_frames sd h chat (snd (sp_run (serde_from_str sd) p (map snd toks))))) t"
    and "brk \<Longrightarrow> ts_accepts t' = 0"
    and "\<not> brk \<Longrightarrow> called' \<longleftrightarrow>
           called \<or> list_ex (begins_call chat) (snd (sp_run (serde_from_str sd) p (map snd toks)))"
proof -
  have "t' = advance (wire (event_frames sd h chat (snd (sp_run (serde_from_str sd) p (map snd toks))))) t
      \<and> (brk \<longrightarrow> ts_accepts t' = 0)
      \<and> (\<not> brk \<longrightarrow> (called' \<longleftrightarrow> called \<or> list_ex (begins_call chat) (snd (sp_run (serde_from_str sd) p (map snd toks)))))"
    using assms
  proof (induction toks arbitrary: p called t)
    case Nil
    then show ?case by simp
  next
    case (Cons x xs)
    let ?sj = "serde_from_str sd"
    obtain q events where push: "sp_push ?sj p (snd x) = (q, events)" by fastforce
    obtain c1 t1 b where emit: "emit_events sd h chat events (called, t) = ((c1, t1), b)"
      by (metis prod.exhaust)
    note e = emit_events_advance [OF emit]
    have run: "snd (sp_run ?sj p (map snd (x # xs))) = events @ snd (sp_run ?sj q (map snd xs))"
      by (simp add: snd_sp_run_Cons push del: sp_run.simps)
    have all: "advance (wire (event_frames sd h chat (snd (sp_run ?sj p (map snd (x # xs)))))) t
        = advance (wire (event_frames sd h chat (snd (sp_run ?sj q (map snd xs))))) t1"
      unfolding run e(1) by simp
    have cb: "openai_callback sd h chat (p, called, t) (fst x) (snd x) = (b, q, c1, t1)"
      by (simp add: openai_callback_def push emit)
    show ?case
    proof (cases b)
      case True
      with Cons.prems cb e(2) have "brk" "t' = t1" "ts_accepts t1 = 0" by auto
      then show ?thesis unfolding all by (simp add: advance_broken)
    next
      case False
      with Cons.prems cb have "feed (openai_callback sd h chat) (q, c1, t1) xs = (brk, p', called', t')" by simp
      from Cons.IH [OF this] e(3) [OF False] show ?thesis unfolding all unfolding run by auto
    qed
  qed
  then show "t' = advance (wire (event_frames sd h chat (snd (sp_run (serde_from_str sd) p (map snd toks))))) t"
    and "brk \<Longrightarrow> ts_accepts t' = 0"
    and "\<not> brk \<Longrightarrow> called' \<longleftrightarrow>
           called \<or> list_ex (begins_call chat) (snd (sp_run (serde_from_str sd) p (map snd toks)))" by blast+
qed

text \<open>
  The frames of an OpenAI stream, from what the model says alone: the role, the events of the parser over
  the texts of the tokens, the reason it finished, and the end mark.
\<close>

definition spoken_events :: "'s server_world \<Rightarrow> generate_request \<Rightarrow> parser_kind \<Rightarrow> stream_event list" where
  "spoken_events w request kind =
     snd (sp_run (serde_from_str (sw_serde w)) (sp_new kind) (map snd (fst (spoken (sw_engine w) request))))"

definition openai_frames :: "'s server_world \<Rightarrow> clock \<Rightarrow> bool \<Rightarrow> generate_request \<Rightarrow> parser_kind \<Rightarrow> string list" where
  "openai_frames w ck chat request kind =
     (let sd = sw_serde w; h = openai_head w ck chat; events = spoken_events w request kind;
          finish = (if list_ex (begins_call chat) events then ''tool_calls''
                    else finish_of openai_finish_reason ''stop'' (snd (spoken (sw_engine w) request)))
      in (if chat then [data_frame sd (role_chunk h)] else []) @ event_frames sd h chat events
         @ [data_frame sd (openai_final_chunk h chat finish), done_frame])"

lemma begins_call_completion: "\<not> chat \<Longrightarrow> \<not> list_ex (begins_call chat) events"
  by (auto simp: list_ex_iff begins_call_def)

lemma write_sse_end_advance: "fst (write_sse_end t) = advance sse_end t"
  by (simp add: write_sse_end_def advance_def)

lemma openai_stream_writes:
  "snd (openai_stream w ck chat request t st)
     = advance (wire (openai_frames w ck chat request (sv_parser_kind st)) @ sse_end) t"
proof -
  let ?sd = "sw_serde w" and ?h = "openai_head w ck chat" and ?kind = "sv_parser_kind st"
  let ?t0 = "if chat then send (data_frame ?sd (role_chunk ?h)) t else t"
  let ?start = "if chat then [data_frame ?sd (role_chunk ?h)] else []"
  let ?events = "spoken_events w request ?kind"
  have t0: "?t0 = advance (wire ?start) t" by (simp add: send_advance)
  obtain brk p' called' t' where feed: "feed (openai_callback ?sd ?h chat) (sp_new ?kind, False, ?t0)
      (fst (spoken (sw_engine w) request)) = (brk, p', called', t')"
    by (metis prod.exhaust)
  note f = feed_openai [OF feed, folded spoken_events_def]
  note g = generate_streaming_feed [OF feed]
  obtain result where gen: "engine_generate_streaming (sw_engine w) request (openai_callback ?sd ?h chat)
      (sp_new ?kind, False, ?t0) = ((p', called', t'), result)"
    using g(1) by (metis prod.collapse)
  let ?finish = "if chat \<and> called' then ''tool_calls'' else finish_of openai_finish_reason ''stop'' result"
  have out: "snd (openai_stream w ck chat request t st)
      = advance (wire [data_frame ?sd (openai_final_chunk ?h chat ?finish), done_frame] @ sse_end) t'"
    by (simp add: openai_stream_def gen sp_flush_def Let_def send_advance write_sse_end_advance)
  have all: "advance (wire (openai_frames w ck chat request ?kind) @ sse_end) t
      = advance (wire [data_frame ?sd (openai_final_chunk ?h chat
            (if list_ex (begins_call chat) ?events then ''tool_calls''
             else finish_of openai_finish_reason ''stop'' (snd (spoken (sw_engine w) request)))), done_frame] @ sse_end) t'"
    unfolding f(1) t0 openai_frames_def Let_def by (simp del: advance_append add: advance_append [symmetric])
  show ?thesis
  proof (cases brk)
    case True
    with f(2) have "ts_accepts t' = 0" by simp
    then show ?thesis unfolding out all by (simp only: advance_broken)
  next
    case False
    have "result = snd (spoken (sw_engine w) request)" using g(2) [OF False] gen by simp
    moreover have "chat \<and> called' \<longleftrightarrow> list_ex (begins_call chat) ?events"
      using f(3) [OF False] begins_call_completion [of chat ?events] by blast
    ultimately show ?thesis unfolding out all by simp
  qed
qed

text \<open>Streams of tokens, for the other interfaces.\<close>

lemma feed_token:
  "\<exists>brk. feed (token_callback frame) t toks = (brk, advance (wire (map (frame \<circ> snd) toks)) t)
     \<and> (brk \<longrightarrow> ts_accepts (advance (wire (map (frame \<circ> snd) toks)) t) = 0)"
proof (induction toks arbitrary: t)
  case (Cons x xs)
  let ?t = "advance (sse_chunk (frame (snd x))) t"
  have all: "advance (wire (map (frame \<circ> snd) (x # xs))) t = advance (wire (map (frame \<circ> snd) xs)) ?t"
    by simp
  show ?case
  proof (cases "length (sse_chunk (frame (snd x))) \<le> ts_accepts t")
    case True
    then have "token_callback frame t (fst x) (snd x) = (False, ?t)"
      by (simp add: token_callback_def write_sse_chunk_advance)
    with Cons [of ?t] show ?thesis unfolding all by (simp add: comp_def)
  next
    case False
    then have cb: "token_callback frame t (fst x) (snd x) = (True, ?t)"
      by (simp add: token_callback_def write_sse_chunk_advance)
    have z: "ts_accepts ?t = 0" using False by (simp add: advance_accepts)
    have whole: "advance (wire (map (frame \<circ> snd) (x # xs))) t = ?t"
      unfolding all by (rule advance_broken [OF z])
    have "feed (token_callback frame) t (x # xs) = (True, ?t)" using cb by simp
    with z show ?thesis unfolding whole by blast
  qed
qed (intro exI [of _ False], simp)

lemma token_stream:
  obtains t' result where
    "engine_generate_streaming e request (token_callback frame) t = (t', result)"
    "t' = advance (wire (map (frame \<circ> snd) (fst (spoken e request)))) t"
    "ts_accepts t' = 0 \<or> result = snd (spoken e request)"
proof -
  obtain brk where f: "feed (token_callback frame) t (fst (spoken e request))
      = (brk, advance (wire (map (frame \<circ> snd) (fst (spoken e request)))) t)"
    "brk \<longrightarrow> ts_accepts (advance (wire (map (frame \<circ> snd) (fst (spoken e request)))) t) = 0"
    using feed_token by blast
  note g = generate_streaming_feed [OF f(1)]
  obtain t' result where run: "engine_generate_streaming e request (token_callback frame) t = (t', result)"
    by fastforce
  show thesis
  proof (rule that [OF run])
    show "t' = advance (wire (map (frame \<circ> snd) (fst (spoken e request)))) t" using g(1) run by simp
    show "ts_accepts t' = 0 \<or> result = snd (spoken e request)" using f(2) g run by auto
  qed
qed

definition anthropic_frames :: "'s server_world \<Rightarrow> clock \<Rightarrow> generate_request \<Rightarrow> string list" where
  "anthropic_frames w ck request =
     (let sd = sw_serde w; result = snd (spoken (sw_engine w) request)
      in [event_frame ''message_start'' (sd_print sd (anthropic_start w ck)),
          event_frame ''content_block_start'' (sd_print sd anthropic_block_start), ping_frame]
         @ map (anthropic_delta sd \<circ> snd) (fst (spoken (sw_engine w) request))
         @ [block_stop_frame,
            event_frame ''message_delta'' (sd_print sd (anthropic_stop (finish_of anthropic_stop_reason ''end_turn'' result)
              (case result of Inl _ \<Rightarrow> 0 | Inr out \<Rightarrow> go_completion_tokens out))),
            message_stop_frame])"

definition google_frames :: "'s server_world \<Rightarrow> generate_request \<Rightarrow> string list" where
  "google_frames w request =
     map (google_chunk w \<circ> snd) (fst (spoken (sw_engine w) request))
     @ (case snd (spoken (sw_engine w) request) of
          Inl _ \<Rightarrow> []
        | Inr out \<Rightarrow> [data_frame (sw_serde w) (google_final w out)])"

lemma anthropic_stream_writes:
  "snd (anthropic_stream w ck request t st) = advance (wire (anthropic_frames w ck request) @ sse_end) t"
proof -
  let ?sd = "sw_serde w"
  let ?frames = "[event_frame ''message_start'' (sd_print ?sd (anthropic_start w ck)),
          event_frame ''content_block_start'' (sd_print ?sd anthropic_block_start), ping_frame]"
  obtain t' result where run: "engine_generate_streaming (sw_engine w) request
      (token_callback (anthropic_delta ?sd)) (advance (wire ?frames) t) = (t', result)"
    "t' = advance (wire (map (anthropic_delta ?sd \<circ> snd) (fst (spoken (sw_engine w) request)))) (advance (wire ?frames) t)"
    "ts_accepts t' = 0 \<or> result = snd (spoken (sw_engine w) request)"
    by (rule token_stream)
  let ?tail = "\<lambda>r. wire [block_stop_frame,
      event_frame ''message_delta'' (sd_print ?sd (anthropic_stop (finish_of anthropic_stop_reason ''end_turn'' r)
              (case r of Inl _ \<Rightarrow> 0 | Inr out \<Rightarrow> go_completion_tokens out))), message_stop_frame] @ sse_end"
  have pre: "send ping_frame (send (event_frame ''content_block_start'' (sd_print ?sd anthropic_block_start))
      (send (event_frame ''message_start'' (sd_print ?sd (anthropic_start w ck))) t)) = advance (wire ?frames) t"
    by (simp add: send_advance)
  have out: "snd (anthropic_stream w ck request t st) = advance (?tail result) t'"
    unfolding anthropic_stream_def Let_def pre run(1) by (simp add: send_advance write_sse_end_advance)
  have all: "advance (wire (anthropic_frames w ck request) @ sse_end) t
      = advance (?tail (snd (spoken (sw_engine w) request))) t'"
    unfolding run(2) by (simp add: anthropic_frames_def Let_def)
  show ?thesis using run(3) unfolding out all by (auto simp only: advance_broken)
qed

lemma google_stream_writes:
  "snd (google_stream w ck request t st) = advance (wire (google_frames w request) @ sse_end) t"
proof -
  obtain t' result where run: "engine_generate_streaming (sw_engine w) request (token_callback (google_chunk w)) t
      = (t', result)"
    "t' = advance (wire (map (google_chunk w \<circ> snd) (fst (spoken (sw_engine w) request)))) t"
    "ts_accepts t' = 0 \<or> result = snd (spoken (sw_engine w) request)"
    by (rule token_stream)
  let ?tail = "\<lambda>r. wire (case r of Inl _ \<Rightarrow> [] | Inr out \<Rightarrow> [data_frame (sw_serde w) (google_final w out)]) @ sse_end"
  have out: "snd (google_stream w ck request t st) = advance (?tail result) t'"
    by (cases result) (simp_all add: google_stream_def run(1) send_advance write_sse_end_advance)
  have all: "advance (wire (google_frames w request) @ sse_end) t
      = advance (?tail (snd (spoken (sw_engine w) request))) t'"
    unfolding run(2) by (simp add: google_frames_def)
  show ?thesis using run(3) unfolding out all by (auto simp only: advance_broken)
qed

section \<open>What a client of a stream receives\<close>

lemma parser_kind_active [simp]: "sv_parser_kind (st\<lparr>sv_active := a\<rparr>) = sv_parser_kind st"
  by simp

lemma snd_with_guard: "snd (with_guard f st) = snd (f (st\<lparr>sv_active := sv_active st + 1\<rparr>))"
  by (simp add: with_guard_def split: prod.split)

lemma written_after_headers:
  assumes "t' = advance body (advance sse_headers t)"
  shows "ts_written t' = ts_written t @ take (ts_accepts t) (sse_headers @ body)"
  using assms by (simp add: advance_written)

lemma headers_fail: "ts_accepts t < length sse_headers \<Longrightarrow> take (ts_accepts t) (sse_headers @ body) = take (ts_accepts t) sse_headers"
  by simp

text \<open>
  C10: a client of an OpenAI stream receives a beginning of the stream that the text of the model determines:
  the headers, one chunk for every frame in order, and the end. How much it receives depends on when
  the connection breaks; what it receives does not.
\<close>

theorem openai_client_sees:
  assumes "validate_openai_request_for_model (model_name w) v = Inr u" "openai_prompt w chat v = Inr prompt"
  shows "ts_written (fst (fst (sse_openai w ck v chat (t, st))))
    = ts_written t @ take (ts_accepts t)
        (sse_headers
         @ wire (openai_frames w ck chat
             (request_from_json w v (if chat then sv_stop_token_ids st else []) prompt) (sv_parser_kind st))
         @ sse_end)"
proof (cases "length sse_headers \<le> ts_accepts t")
  case True
  let ?request = "request_from_json w v (if chat then sv_stop_token_ids st else []) prompt"
  have "write_sse_headers t = (advance sse_headers t, Inr ())"
    using True by (simp add: write_sse_headers_def write_all_advance)
  then have "fst (fst (sse_openai w ck v chat (t, st)))
      = snd (with_guard (openai_stream w ck chat ?request (advance sse_headers t)) st)"
    using assms by (simp add: sse_openai_def split: prod.split)
  also have "\<dots> = advance (wire (openai_frames w ck chat ?request (sv_parser_kind st)) @ sse_end) (advance sse_headers t)"
    unfolding snd_with_guard openai_stream_writes by simp
  finally show ?thesis by (rule written_after_headers)
next
  case False
  then have "write_sse_headers t = (advance sse_headers t, Inl broken_pipe)"
    by (simp add: write_sse_headers_def write_all_advance)
  with assms False show ?thesis
    by (simp add: sse_openai_def advance_written)
qed

section \<open>Tool calls of a stream\<close>

lemma begin_event_is_call: "list_ex (begins_call True) events \<longleftrightarrow> list_ex (begins_call True) (filter is_call_event events)"
  by (induction events) (auto simp: begins_call_def is_call_event_def split: stream_event.splits)

lemma announce_begins: "list_ex (begins_call True) (announce i tcs) \<longleftrightarrow> tcs \<noteq> []"
  by (cases tcs) (simp_all add: begin_events_def begins_call_def)

lemma run_calls:
  "kind \<noteq> Passthrough \<Longrightarrow> filter is_call_event (snd (sp_run sj (sp_new kind) chunks))
     = announce 0 (pa_tool_calls (snapshot sj kind (concat chunks)))"
  using run_call_events [OF sp_inv_new, of kind sj chunks] snapshot_stream.run_announces [of sj kind chunks]
  by (simp add: sp_new_def)

text \<open>
  C12: let the generation of a chat stream deliver tokens with the texts \<open>delivered\<close>, and let \<open>calls\<close> be the tool
  calls of the concatenated text. The bytes \<open>openai_stream\<close> writes are a beginning of: the role, one chunk for every
  parser event that has one, the final chunk, \<^verbatim>\<open>[DONE]\<close> and the end, where the call events announce \<open>calls\<close>, once each and in
  order, and the final chunk gives the reason \<open>tool_calls\<close> if there is a call and the reason of the generation
  otherwise. How the text was cut into tokens is irrelevant. The server parses tool calls (its parser is not \<open>Passthrough\<close>).
\<close>

theorem chat_stream_calls:
  assumes "sv_parser_kind st \<noteq> Passthrough"
    and "engine_generate_streaming (sw_engine w) request collect [] = (delivered, result)"
    and "calls = pa_tool_calls (snapshot (serde_from_str (sw_serde w)) (sv_parser_kind st) (concat (map snd delivered)))"
    and "events = snd (sp_run (serde_from_str (sw_serde w)) (sp_new (sv_parser_kind st)) (map snd delivered))"
  shows "filter is_call_event events = announce 0 calls
    \<and> ts_written (snd (openai_stream w ck True request t st)) = ts_written t @ take (ts_accepts t)
        (concat (map sse_chunk
           (data_frame (sw_serde w) (role_chunk (openai_head w ck True))
            # map (data_frame (sw_serde w)) (List.map_filter (openai_event (openai_head w ck True) True) events)
            @ [data_frame (sw_serde w) (openai_final_chunk (openai_head w ck True) True
                 (if calls \<noteq> [] then ''tool_calls'' else finish_of openai_finish_reason ''stop'' result)),
               done_frame])) @ sse_end)"
proof -
  have spoken: "spoken (sw_engine w) request = (delivered, result)" by (simp add: spoken_def assms(2))
  have events: "spoken_events w request (sv_parser_kind st) = events"
    by (simp add: spoken_events_def spoken assms(4))
  have calls: "filter is_call_event events = announce 0 calls"
    unfolding assms(3,4) by (rule run_calls [OF assms(1)])
  have "list_ex (begins_call True) events \<longleftrightarrow> calls \<noteq> []"
    unfolding begin_event_is_call [of events] calls by (rule announce_begins)
  then show ?thesis
    by (simp add: calls openai_stream_writes advance_written openai_frames_def event_frames_def events spoken
        Let_def wire_def)
qed

section \<open>Keys\<close>

lemma respond_engine_free:
  "model_name (w\<lparr>sw_engine := (sw_engine w)\<lparr>en_executor := x\<rparr>\<rparr>) = model_name w"
  by (simp add: model_name_def)

text \<open>Without its route a request does not reach the engine, whatever it asks for.\<close>

definition open_path :: "http_request \<Rightarrow> bool" where
  "open_path req \<longleftrightarrow>
     hr_method req = ''OPTIONS''
     \<or> \<not> prefix ''/v1/'' (hr_path req) \<and> \<not> prefix ''/v1beta/models/'' (hr_path req)"

lemma needs_auth_iff: "needs_auth req \<longleftrightarrow> \<not> open_path req"
  by (auto simp: needs_auth_def open_path_def)

lemma open_path_routes:
  assumes "open_path req" "hr_method req = ''POST''"
  shows "hr_path req \<noteq> ''/v1/completions''" "hr_path req \<noteq> ''/v1/chat/completions''"
    "hr_path req \<noteq> ''/v1/messages''" "\<not> prefix ''/v1beta/models/'' (hr_path req)"
  using assms by (auto simp: open_path_def)

definition counts_of :: "server_state \<Rightarrow> nat \<times> nat \<times> f64 \<times> f64 option" where
  "counts_of st =
     (mt_prompt_tokens (sv_metrics st), mt_completion_tokens (sv_metrics st), mt_latency_total (sv_metrics st),
      mt_latency_last (sv_metrics st))"

lemma streaming_open:
  assumes "open_path req" "is_streaming sd req"
  shows "handle_streaming_request (w\<lparr>sw_engine := (sw_engine w)\<lparr>en_executor := x\<rparr>\<rparr>) ck req ts
           = handle_streaming_request w ck req ts
         \<and> counts_of (snd (fst (handle_streaming_request w ck req ts))) = counts_of (snd ts)"
proof -
  have post: "hr_method req = ''POST''" using assms(2) by (simp add: is_streaming_def)
  note r = open_path_routes [OF assms(1) post]
  show ?thesis
    using r
    by (auto simp: handle_streaming_request_def bad_request_def counts_of_def record_generation_rejected_def
        split: prod.split sum.split)
qed

lemma route_open:
  assumes "open_path req"
  shows "route_http_request (w\<lparr>sw_engine := (sw_engine w)\<lparr>en_executor := x\<rparr>\<rparr>) ck req st
           = route_http_request w ck req st
         \<and> fst (route_http_request w ck req st) = st"
proof (cases "hr_method req = ''POST''")
  case True
  note r = open_path_routes [OF assms True]
  show ?thesis using r True by (simp add: route_http_request_def Let_def)
next
  case False
  then show ?thesis
    by (auto simp: route_http_request_def Let_def health_answer_def models_answer_def respond_engine_free)
qed

text \<open>
  C9: when keys are configured, a request without one of them never reaches the engine: the answer
  and the state are the same whatever executor is loaded, and no token is counted.
\<close>

theorem no_generation_without_key:
  assumes "sv_api_keys st \<noteq> []" "read_http_request (ts_reads t) = Inr req"
    and "\<forall>key \<in> set (sv_api_keys st). hr_auth req \<noteq> Some key"
  shows "serve_connection (w\<lparr>sw_engine := (sw_engine w)\<lparr>en_executor := x\<rparr>\<rparr>) ck (t, st) = serve_connection w ck (t, st)
    \<and> counts_of (snd (serve_connection w ck (t, st))) = counts_of st"
proof -
  let ?w = "w\<lparr>sw_engine := (sw_engine w)\<lparr>en_executor := x\<rparr>\<rparr>"
  have no: "\<not> credential_authorized (sv_api_keys (record_request st)) (hr_auth req)"
    using assms(1,3) by (auto simp: credential_authorized_def record_request_def split: option.split)
  have cnt: "counts_of (record_request st) = counts_of st" by (simp add: counts_of_def record_request_def)
  have "handle_http_connection ?w ck (t, st) = handle_http_connection w ck (t, st)
      \<and> counts_of (snd (fst (handle_http_connection w ck (t, st)))) = counts_of st"
  proof (cases "open_path req")
    case False
    then show ?thesis
      using assms(2) no cnt by (simp add: handle_http_connection_def needs_auth_iff Let_def split: prod.split)
  next
    case True
    show ?thesis
    proof (cases "is_streaming (sw_serde w) req")
      case streaming: True
      show ?thesis
        using assms(2) cnt streaming_open [OF True streaming, where w = w and x = x and ck = ck and ts = "(t, record_request st)"] streaming True
        by (simp add: handle_http_connection_def needs_auth_iff Let_def split: prod.split)
    next
      case False
      show ?thesis
        using assms(2) cnt route_open [OF True, where w = w and x = x and ck = ck and st = "record_request st"] False True
        by (auto simp: handle_http_connection_def needs_auth_iff Let_def split: prod.split)
    qed
  qed
  moreover obtain t' st' r where "handle_http_connection w ck (t, st) = ((t', st'), r)"
    by (metis prod.exhaust)
  ultimately show ?thesis by (cases r) (simp_all add: serve_connection_def)
qed

section \<open>Counters\<close>

text \<open>
  Between connections no generation is counted as active, and every rejection is an error, every error a
  generation, every generation a request.
\<close>

definition server_ok :: "server_state \<Rightarrow> bool" where
  "server_ok st \<longleftrightarrow>
     sv_active st = 0
     \<and> mt_rejected (sv_metrics st) \<le> mt_errors (sv_metrics st)
     \<and> mt_errors (sv_metrics st) \<le> mt_generations (sv_metrics st)
     \<and> mt_generations (sv_metrics st) \<le> mt_requests (sv_metrics st)"

text \<open>A step that counts at most one generation, for a request that was counted before.\<close>

definition at_most_one :: "server_state \<Rightarrow> server_state \<Rightarrow> bool" where
  "at_most_one st st' \<longleftrightarrow>
     (let m = sv_metrics st; m' = sv_metrics st'
      in sv_active st' = sv_active st \<and> mt_requests m' = mt_requests m
         \<and> sv_api_keys st' = sv_api_keys st \<and> sv_parser_kind st' = sv_parser_kind st
         \<and> sv_stop_token_ids st' = sv_stop_token_ids st
         \<and> (\<exists>r e g. mt_rejected m' = mt_rejected m + r \<and> mt_errors m' = mt_errors m + e
                  \<and> mt_generations m' = mt_generations m + g \<and> r \<le> e \<and> e \<le> g \<and> g \<le> 1))"

lemma at_most_one_refl [simp, intro]: "at_most_one st st"
  by (simp add: at_most_one_def Let_def)

lemma at_most_one_rejected [simp, intro]: "at_most_one st (record_generation_rejected st)"
  by (auto simp: at_most_one_def record_generation_rejected_def Let_def intro!: exI [of _ 1])

lemma at_most_one_recorded [simp, intro]: "at_most_one st (record_generation ops elapsed stats st)"
  by (cases stats)
     (auto simp: at_most_one_def record_generation_def Let_def intro!: exI [of _ 0] exI [of _ 1] split: prod.split)

lemma at_most_one_guard:
  "(\<And>s. at_most_one s (fst (f s))) \<Longrightarrow> at_most_one st (fst (with_guard f st))"
proof -
  assume f: "\<And>s. at_most_one s (fst (f s))"
  obtain s r where s: "f (st\<lparr>sv_active := sv_active st + 1\<rparr>) = (s, r)" by fastforce
  have "at_most_one (st\<lparr>sv_active := sv_active st + 1\<rparr>) s"
    using f [of "st\<lparr>sv_active := sv_active st + 1\<rparr>"] by (simp add: s)
  then show ?thesis by (simp add: at_most_one_def with_guard_def Let_def s)
qed

lemma at_most_one_result [simp, intro]: "at_most_one st (record_result w ck result st)"
  by (simp add: record_result_def)

lemma at_most_one_streams:
  "at_most_one st (fst (openai_stream w ck chat request t st))"
  "at_most_one st (fst (anthropic_stream w ck request t st))"
  "at_most_one st (fst (google_stream w ck request t st))"
  by (auto simp: openai_stream_def anthropic_stream_def google_stream_def Let_def split: prod.split)

text \<open>What the handlers do to the state, whatever they write.\<close>

lemma bad_request_state: "snd (fst (bad_request sd e ts)) = snd ts"
  by (simp add: bad_request_def split: prod.split)

lemma guarded: "with_guard f st = (st', r) \<Longrightarrow> (\<And>s. at_most_one s (fst (f s))) \<Longrightarrow> at_most_one st st'"
  using at_most_one_guard [of f st] by simp

lemmas guarded_streams = guarded [OF _ at_most_one_streams(1)] guarded [OF _ at_most_one_streams(2)]
  guarded [OF _ at_most_one_streams(3)]

lemma sse_states:
  "at_most_one (snd ts) (snd (fst (sse_openai w ck v chat ts)))"
  "at_most_one (snd ts) (snd (fst (sse_anthropic w ck v ts)))"
  "at_most_one (snd ts) (snd (fst (sse_google w ck v ts)))"
  by (auto simp: sse_openai_def sse_anthropic_def sse_google_def bad_request_state Let_def
      dest: guarded_streams split: sum.split prod.split)

lemma streaming_state: "at_most_one (snd ts) (snd (fst (handle_streaming_request w ck req ts)))"
  by (auto simp: handle_streaming_request_def bad_request_state sse_states split: sum.split prod.split)

lemma route_state: "at_most_one st (fst (route_http_request w ck req st))"
proof -
  have "at_most_one s (fst (generate_http_response w ck body chat s))" for body chat s
    unfolding generate_http_response_def
    by (auto intro!: at_most_one_guard split: sum.split)
  moreover have "at_most_one s (fst (generate_anthropic_response w ck body s))" for body s
    unfolding generate_anthropic_response_def
    by (auto intro!: at_most_one_guard split: sum.split)
  moreover have "at_most_one s (fst (generate_google_response w ck body s))" for body s
    unfolding generate_google_response_def
    by (auto intro!: at_most_one_guard split: sum.split)
  ultimately show ?thesis by (simp add: route_http_request_def Let_def)
qed

lemma route_state_of: "route_http_request w ck req st = (st', answer) \<Longrightarrow> at_most_one st st'"
  using route_state [of st w ck req] by simp

lemma connection_state:
  "snd (serve_connection w ck (t, st)) = st \<or> at_most_one (record_request st) (snd (serve_connection w ck (t, st)))"
proof -
  have "snd (serve_connection w ck (t, st)) = snd (fst (handle_http_connection w ck (t, st)))"
    by (simp add: serve_connection_def split: prod.split sum.split)
  moreover have "snd (fst (handle_http_connection w ck (t, st))) = st
      \<or> at_most_one (record_request st) (snd (fst (handle_http_connection w ck (t, st))))"
    using streaming_state [of "(t, record_request st)" w ck]
    by (auto simp: handle_http_connection_def Let_def dest: route_state_of split: sum.split prod.split)
  ultimately show ?thesis by simp
qed

lemma server_ok_step:
  assumes "server_ok st"
  shows "server_ok (snd (serve_connection w ck (t, st)))
    \<and> sv_api_keys (snd (serve_connection w ck (t, st))) = sv_api_keys st"
proof -
  have "server_ok st'\<and> sv_api_keys st' = sv_api_keys st" if "at_most_one (record_request st) st'" for st'
    using that assms by (auto simp: at_most_one_def server_ok_def record_request_def Let_def)
  then show ?thesis using connection_state [of w ck t st] assms by auto
qed

text \<open>
  C36: over any sequence of connections, well-formed or not, the counters stay consistent, no generation
  stays counted as active, and the keys are those the server was started with.
\<close>

theorem server_counters_consistent:
  "server_ok (serve_all w connections (server_new tp api_keys))
    \<and> sv_api_keys (serve_all w connections (server_new tp api_keys)) = api_keys"
proof -
  have "server_ok (serve_all w connections st) \<and> sv_api_keys (serve_all w connections st) = sv_api_keys st"
    if "server_ok st" for st
    using that
  proof (induction connections arbitrary: st)
    case (Cons c cs)
    obtain ck t where c: "c = (ck, t)" by (cases c)
    from server_ok_step [OF Cons.prems, of w ck t] Cons.IH [of "snd (serve_connection w ck (t, st))"]
    show ?case by (simp add: serve_all_def c)
  qed (simp add: serve_all_def)
  moreover have "server_ok (server_new tp api_keys)" by (simp add: server_ok_def server_new_def metrics_default_def)
  ultimately show ?thesis by (simp add: server_new_def)
qed

section \<open>A small server\<close>

text \<open>The backend of \<open>Generation\<close> speaks a tool call in two tokens; the key of the server is \<open>sk-2\<close>.\<close>

definition speaking_backend :: "nat backend_primitives" where
  "speaking_backend =
     demo_backend\<lparr>gb_decode_tokens := (\<lambda>tokens.
       Inr (if tokens = [3] then ''<|tool_call>call:f{}<tool'' else ''_call|>''))\<rparr>"

definition demo_placement :: resolved_placement where
  "demo_placement = projr (plan ''m'' demo_model demo_inventory demo_policy)"

definition demo_engine :: "nat backend_primitives aegis_engine" where
  "demo_engine =
     \<lparr>en_artifact = demo_artifact, en_graph = demo_model, en_inventory = demo_inventory,
      en_backends = registry_from_inventory [] demo_inventory, en_placement = demo_placement,
      en_memory = memory_plan_from (\<lambda>_. None) demo_placement None None (from_env (\<lambda>_. None)),
      en_runtime = \<lparr>ru_kernels = [], ru_warnings = []\<rparr>,
      en_storage = from_graph_and_placement demo_model demo_placement, en_cuda = from_env (\<lambda>_. None),
      en_draft_model = None, en_num_draft_tokens = 4, en_executor = Some speaking_backend\<rparr>"

definition demo_server :: "nat server_world" where
  "demo_server =
     \<lparr>sw_engine = demo_engine,
      sw_readiness = \<lparr>er_selected_backend = ''cpu-reference'', er_runnable = True, er_planned_cpu_regions = 1,
                      er_planned_cuda_regions = 0, er_limitations = []\<rparr>,
      sw_api = ApiOpenAi, sw_sampling = sampling_default,
      sw_serde = \<lparr>sd_parse = (\<lambda>s. Inr JsNull), sd_print = (\<lambda>_. ''{}''), sd_f32 = (\<lambda>_. 0)\<rparr>,
      sw_jinja = (\<lambda>_ _. Inr ''p''),
      sw_text_files = \<lparr>tf_tokenizer = Inl ''none'', tf_bos_token_id = None, tf_config_eos = None,
                       tf_generation_eos = None, tf_template_file = None, tf_config_template = None\<rparr>,
      sw_f64 = \<lparr>fd_add = (+), fd_div = (\<lambda>x y. x div y), fd_of_nat = of_nat, fd_show = (\<lambda>_. ''0'')\<rparr>\<rparr>"

definition demo_clock :: clock where
  "demo_clock = \<lparr>ck_millis = 1, ck_secs = 0, ck_elapsed_ms = 0\<rparr>"

definition demo_state :: server_state where
  "demo_state = (server_new (Inl (Unsupported [])) [''sk-2''])\<lparr>sv_parser_kind := Gemma\<rparr>"

definition demo_body :: json where
  "demo_body = js_object [(''prompt'', JsString ''hi'')]"

lemma demo_prompt:
  "validate_openai_request_for_model (model_name demo_server) demo_body = Inr ()"
  "openai_prompt demo_server False demo_body = Inr ''hi''"
  by (simp_all add: validate_openai_request_for_model_def openai_prompt_def completion_prompt_from_json_def
      demo_body_def get_str_def js_get_object js_str_def unsupported_fields_def)

theorem openai_client_sees_witness:
  "ts_written (fst (fst (sse_openai demo_server demo_clock demo_body False
      (\<lparr>ts_reads = [], ts_written = [], ts_accepts = 500\<rparr>, demo_state))))
    = take 500 (sse_headers
        @ wire (openai_frames demo_server demo_clock False (request_from_json demo_server demo_body [] ''hi'') Gemma)
        @ sse_end)"
  using openai_client_sees [OF demo_prompt, of demo_clock "\<lparr>ts_reads = [], ts_written = [], ts_accepts = 500\<rparr>" demo_state]
  by (simp add: demo_state_def)

definition two_tokens :: generate_request where
  "two_tokens = request_default\<lparr>rq_max_tokens := 2\<rparr>"

lemma demo_spoken:
  "fst (spoken (sw_engine demo_server) two_tokens) = [(3, ''<|tool_call>call:f{}<tool''), (4, ''_call|>'')]"
  by (simp add: spoken_def engine_generate_streaming_def demo_server_def demo_engine_def speaking_backend_def
      generate_streaming_def start_generation_def inject_def finish_output_def demo_backend_def two_tokens_def
      request_default_def collect_def token_text_def numeral_2_eq_2 Let_def)

theorem chat_stream_calls_witness:
  "\<exists>events result. filter is_call_event events = [ToolCallBegin 0 ''call_0'' ''f'', ToolCallArgsDelta 0 ''{}'']
     \<and> ts_written (snd (openai_stream demo_server demo_clock True two_tokens
           \<lparr>ts_reads = [], ts_written = [], ts_accepts = 500\<rparr> demo_state)) = take 500
        (concat (map sse_chunk
           (data_frame (sw_serde demo_server) (role_chunk (openai_head demo_server demo_clock True))
            # map (data_frame (sw_serde demo_server))
                (List.map_filter (openai_event (openai_head demo_server demo_clock True) True) events)
            @ [data_frame (sw_serde demo_server)
                 (openai_final_chunk (openai_head demo_server demo_clock True) True ''tool_calls''),
               done_frame])) @ sse_end)"
proof -
  let ?X = "''<|tool_call>call:f{}<tool_call|>''"
  have c: "gemma_outside ?X = ?X"
    "blocks ''<|tool_call>'' ''<tool_call|>'' ?X = [''call:f{}'']"
    "str_trim ''call:f{}'' = ''call:f{}''" "str_trim ''f'' = ''f''" "trim_end ''}'' = ''}''"
    "str_find ''{'' ''f{}'' = Some 1"
    "gemma_args_to_json [] = ''{}''"
    by code_simp+
  have p: "pa_tool_calls (snapshot sj Gemma ?X) = [mk_tool_call 0 ''f'' ''{}'']" for sj
    by (simp add: snapshot_def gemma_streaming_calls c number_calls.simps
        parse_gemma_tool_call_def strip_prefix_def strip_suffix_def suffix_def)
  have s: "show_nat 0 = ''0''" by code_simp
  have a: "announce 0 [mk_tool_call 0 ''f'' ''{}''] = [ToolCallBegin 0 ''call_0'' ''f'', ToolCallArgsDelta 0 ''{}'']"
    by (simp add: begin_events_def mk_tool_call_def s del: show_nat.simps)
  let ?D = "[(3, ''<|tool_call>call:f{}<tool''), (4, ''_call|>'')] :: (nat \<times> string) list"
  obtain result where gen: "engine_generate_streaming (sw_engine demo_server) two_tokens collect [] = (?D, result)"
    using demo_spoken unfolding spoken_def by (metis prod.collapse)
  have kind: "sv_parser_kind demo_state = Gemma" by (simp add: demo_state_def)
  have "[mk_tool_call 0 ''f'' ''{}''] = pa_tool_calls (snapshot (serde_from_str (sw_serde demo_server))
      (sv_parser_kind demo_state) (concat (map snd ?D)))"
    using p unfolding kind by simp
  from chat_stream_calls [OF _ gen this refl, of demo_clock "\<lparr>ts_reads = [], ts_written = [], ts_accepts = 500\<rparr>"]
  show ?thesis unfolding a kind
    by (intro exI [of _ "snd (sp_run (serde_from_str (sw_serde demo_server)) (sp_new Gemma) (map snd ?D))"] exI [of _ result])
      simp
qed

theorem no_generation_without_key_witness:
  "\<exists>t. ts_reads t = [Inr sample_request]
     \<and> serve_connection (demo_server\<lparr>sw_engine := (sw_engine demo_server)\<lparr>en_executor := None\<rparr>\<rparr>) demo_clock (t, demo_state)
         = serve_connection demo_server demo_clock (t, demo_state)
     \<and> counts_of (snd (serve_connection demo_server demo_clock (t, demo_state))) = (0, 0, 0, None)"
proof -
  let ?t = "\<lparr>ts_reads = [Inr sample_request], ts_written = [], ts_accepts = 500\<rparr>"
  have "sv_api_keys demo_state \<noteq> []" by (simp add: demo_state_def server_new_def)
  moreover have "read_http_request (ts_reads ?t)
      = Inr \<lparr>hr_method = ''POST'', hr_path = ''/v1/messages'', hr_body = ''{}'', hr_auth = Some ''sk-1''\<rparr>"
    by (simp add: sample_request_read)
  moreover have "\<forall>key \<in> set (sv_api_keys demo_state).
      hr_auth \<lparr>hr_method = ''POST'', hr_path = ''/v1/messages'', hr_body = ''{}'', hr_auth = Some ''sk-1''\<rparr> \<noteq> Some key"
    by (simp add: demo_state_def server_new_def)
  ultimately have "serve_connection (demo_server\<lparr>sw_engine := (sw_engine demo_server)\<lparr>en_executor := None\<rparr>\<rparr>) demo_clock (?t, demo_state)
      = serve_connection demo_server demo_clock (?t, demo_state)
    \<and> counts_of (snd (serve_connection demo_server demo_clock (?t, demo_state))) = counts_of demo_state"
    by (rule no_generation_without_key)
  moreover have "counts_of demo_state = (0, 0, 0, None)"
    by (simp add: counts_of_def demo_state_def server_new_def metrics_default_def)
  ultimately show ?thesis by (intro exI [of _ ?t]) simp
qed

end
