(* ===== verification/Spec2Isabelle.thy ===== *)
theory Spec2Isabelle
  imports ChatCorrect PrefixCache Scheduler KvPages PrefillRun PrefillPaged TensorStorage MemoryPlan MRope RepackCache Speculative HostArena WorkerPool Engine HttpCorrect
begin

text \<open>
  LumenLLM is an inference engine for language models. A parameter file says where the weights of
  every part of a model are stored and which device computes them. The engine reads the tensors of
  a model, places them, plans kernels, memory and transfers, builds an executor, and then answers
  prompts: the prompt is encoded in batches (prefill), tokens are generated one by one, and the
  text is parsed into content, reasoning and tool calls. This development models the host code
  that decides these things, in \<^verbatim>\<open>src/crates\<close>, and proves what makes it correct.

  \<^bold>\<open>How the parts interact.\<close>

  A model directory is an artifact: its configuration (ModelArch) and its registry of safetensors
  (TensorCore, formats in Quant). The architecture of the configuration gives the graph of regions
  with their tensors (Graph). The parameter file is translated into a policy (Params), and the policy
  places every region (Placement). From the placement follow the kernels (Runtime, with the layouts of
  Layout), the memory plan and its warnings (MemoryPlan, with CudaConfig), the storage plan
  (TensorStorage) and the executor (ExecutorPlan). Engine composes them, with the gates in between.
  The CUDA executor loads weights through the repacking cache (Repack, RepackCache) and the pinned
  arena (HostArena), streams the weights that stay on the host through slots (Staging), allocates KV
  pages (KvPages), reuses those of earlier prompts (PrefixCache), schedules requests (Scheduler) and
  prefills them in batches (PrefillBatch, PrefillRun, PrefillPaged; positions in MRope). The CPU executor
  splits rows over a pool of threads (WorkerPool). Generation draws tokens (Sampling) in a loop that is
  the same for every backend (Generation) or drafts several and verifies them (Speculative). The text
  is parsed as it arrives (ChatParse, ChatStream).

  The server takes connections one after the other. It reads a request from the bytes (HttpWire), checks its
  key, turns its JSON (JsonValue) into messages and these into a prompt (HttpServer, ChatTemplate), and
  calls the engine. The answer is either complete (HttpServer) or a stream of events that the callback of the generation
  loop writes while tokens arrive (HttpStream); a connection that breaks stops the generation.

  \<^bold>\<open>Theories and sources.\<close>

  Paths are below \<^verbatim>\<open>src/crates\<close>; a definition has the name of the function, method or field it
  models, with a prefix where several types share it.

  \<^item> Prelude and RustStr: errors (\<^verbatim>\<open>aegisllm-base/src/error.rs\<close>), results, the iterator and integer operations and
    the \<^verbatim>\<open>str\<close> operations that the source calls. No component of their own.
  \<^item> ChatParse, ChatScan, ChatStream, ChatCorrect: \<^verbatim>\<open>aegisllm-base/src/chat_parse.rs\<close>. The parsers of a turn; how their
    scanning loops react to more text; \<open>StreamingParser\<close> as a step from state and chunk to events; what both promise.
  \<^item> TensorCore, Quant: \<^verbatim>\<open>aegisllm-base/src/tensor/core.rs\<close>, \<^verbatim>\<open>tensor/quant.rs\<close>. Headers of shards, the checks of a tensor,
    aliases of packed weights; quantisation formats and tables.
  \<^item> ModelArch, Graph: \<^verbatim>\<open>aegisllm-base/src/model\<close>, \<^verbatim>\<open>artifact.rs\<close>, \<^verbatim>\<open>graph.rs\<close>. The families and their layers; the regions of a model.
  \<^item> Layout, Placement, Runtime, MemoryPlan, TensorStorage, CudaConfig: \<^verbatim>\<open>aegisllm-base/src/tensor/layout.rs\<close>, \<^verbatim>\<open>backend.rs\<close>,
    \<^verbatim>\<open>planning/placement.rs\<close>, \<^verbatim>\<open>planning/runtime.rs\<close>, \<^verbatim>\<open>planning/memory.rs\<close>, \<^verbatim>\<open>tensor/storage.rs\<close>, \<^verbatim>\<open>cuda_config.rs\<close>, with the fields of
    \<^verbatim>\<open>hardware.rs\<close> that planning reads.
  \<^item> Params: \<^verbatim>\<open>aegisllm/src/params\<close>. The translation of a parameter file, with every error.
  \<^item> ExecutorPlan: \<^verbatim>\<open>aegisllm/src/executor\<close>, and the \<open>plan\<close> functions and placement checks of \<^verbatim>\<open>aegisllm-cuda/src/executor/planning.rs\<close>,
    \<^verbatim>\<open>aegisllm-cpu/src/cpu/provider.rs\<close>, \<^verbatim>\<open>aegisllm-wgpu/src/wgpu/provider.rs\<close>. The choice of an executor, the hybrid schedule and its walk.
  \<^item> Engine: \<^verbatim>\<open>aegisllm/src/engine.rs\<close>.
  \<^item> PrefixTrie, PrefixEntries, PrefixCache: \<^verbatim>\<open>aegisllm-cuda/src/executor/prefix_cache.rs\<close>. The radix trie; the map it represents;
    the cache with its clock and its eviction.
  \<^item> Scheduler, KvPages: \<^verbatim>\<open>aegisllm-cuda/src/executor/prefill/scheduler.rs\<close>, \<^verbatim>\<open>prefill/kv.rs\<close>.
  \<^item> PrefillBatch, PrefillPaged, PrefillRun: \<^verbatim>\<open>aegisllm-cuda/src/executor/prefill/batch\<close>, \<^verbatim>\<open>prefill/mod.rs\<close>, and the identity metadata of
    \<^verbatim>\<open>cuda/types.rs\<close>. Descriptors with validation; what a paged descriptor guarantees; the chunk loop.
  \<^item> MRope: \<^verbatim>\<open>aegisllm-base/src/modalities/mrope.rs\<close>.
  \<^item> Repack, RepackCache: \<^verbatim>\<open>aegisllm-cuda/src/cuda/repack.rs\<close>. The interleaved scale layout; MXFP4 blocks and the cache on disk.
  \<^item> HostArena, Staging: \<^verbatim>\<open>aegisllm-cuda/src/cuda/host_arena.rs\<close>, \<^verbatim>\<open>cuda/staging.rs\<close> with its callers in \<^verbatim>\<open>cuda/runtime/linear.rs\<close>.
  \<^item> WorkerPool: \<^verbatim>\<open>aegisllm-cpu/src/persistent_pool.rs\<close>.
  \<^item> Sampling, Generation: \<^verbatim>\<open>aegisllm-base/src/executor/generation.rs\<close>, \<^verbatim>\<open>executor/traits.rs\<close>, \<^verbatim>\<open>generation.rs\<close>.
  \<^item> Speculative: \<^verbatim>\<open>aegisllm-cuda/src/executor/speculative.rs\<close>, \<^verbatim>\<open>executor/mtp.rs\<close> and their verification in \<^verbatim>\<open>prefill/mod.rs\<close>.
  \<^item> JsonValue, ChatTemplate: \<^verbatim>\<open>aegisllm-base/src/text.rs\<close> over the values of serde_json. Loading, prompts, encoding, decoding.
  \<^item> HttpWire, HttpServer, HttpStream, HttpCorrect: \<^verbatim>\<open>aegisllm/src/server/http.rs\<close>. Bytes of a connection; requests, answers,
    routes, counters; event streams and the accept loop; what a client sees.

  \<^bold>\<open>What the lemmas show.\<close>

  \<^item> Parsing: escaped JSON is read back, lists of string arguments become objects with the same members, and the
    tool calls a client receives do not depend on how the text was cut into chunks.
  \<^item> Loading and planning: registered tensors lie in their files, behind the header; every region holds registered tensors once;
    what is kept on a device is the longest prefix that fits beside the KV bytes reserved there, which are none for layers that a split puts
    there; the memory plan of the engine counts what the placement, streamed dense weights, layouts and scratch take on every device, and warns when
    it is too much; every planned kernel can run on its backend; the automatic placement can always be run;
    explicit sections of a parameter file mean what its documentation says, and the two departures for others are stated.
  \<^item> Repacking: places and errors of repacked weights; a cached run returns its own repacking, an I/O error or a complete
    blob stored under its key, which need not be of the same weights.
  \<^item> KV memory: no two positions share a slot, pages are neither lost nor duplicated, a cache hit
    returns pages stored for these tokens and is the longest there is; insertion ends, with the count of pages within the
    capacity or the new prefix alone in the cache.
  \<^item> Prefill: when tokens are in the vocabulary and sizes in 32 bits, every position of a prompt is computed once and in order, and otherwise the
    prefill ends with an error; batches stay in their budgets, and a paged descriptor names the pages of its sequences.
  \<^item> Generation: the output is the token stream of the model, cut at an end token or the limit; up to the limit both
    speculative drivers emit the tokens of greedy decoding by the verifier's choice, and behind it at most one stop token.
  \<^item> Serving: a request is read the same however the network cuts it; without a valid key the answer does not
    depend on the executor; a client receives a beginning of the stream that the text of the model determines, with the tool
    calls of the whole text; the counters agree after any connections.
  \<^item> Concurrency: in every interleaving of the streams a staged kernel reads the weights it was launched for when they are in
    pinned memory, and no copy into a slot runs beside a kernel on it, whatever memory the weights are in; reservations of the arena never overlap; a dispatch of the worker pool calls every index once
    and returns.
  \<^item> Interfaces: the contracts \<^verbatim>\<open>stream_grammar\<close>, \<^verbatim>\<open>token_cache\<close>, \<^verbatim>\<open>page_store\<close>, \<^verbatim>\<open>device_tally\<close> and \<^verbatim>\<open>speculative_round\<close>
    are locales; the model's definitions interpret them, and the properties rest on the facts these yield.
  \<^item> Findings: lemmas at the end of a theory evaluate inputs on which the code departs from its
    own description.

  \<^bold>\<open>Integers, bounds and fuel.\<close>

  Unsigned values are natural numbers. Where a value can leave its width, the operation of the source is
  written out: \<open>wrapping_add\<close>, \<open>saturating\<close>, \<open>checked\<close> operations and the casts \<^verbatim>\<open>as u32\<close>. A counter that would
  need \<^verbatim>\<open>2^64\<close> calls to wrap does not wrap. In the arena the bytes asked for in total fit 64 bits, an assumption that the
  property states because an overlap follows without it. In the pool the number of lanes fits 64 bits.
  An \<^verbatim>\<open>f32\<close> in the sampler is its 32 bits. In the repacking it is a rational number, because every operation
  there is exact in 24 bits of mantissa. The latencies of the server are \<^verbatim>\<open>f64\<close> bits
  with arithmetic as an argument. The speculative loops have fuel, and \<open>max_tokens\<close> is enough
  because every round emits a token (\<open>spec_loop_fuel\<close>); the properties fix this fuel. The eviction loop of the prefix cache is a partial function that is
  shown to return. Every other loop is a total function.

  \<^bold>\<open>Parameters of the model.\<close>

  Arguments stand for what is not in the source: the process environment (a map from names to
  strings), the file system and which of its calls fail, memory maps, serde_json (which texts
  parse, the values they give and how values are printed), the tokenizer, the template engine, the clock of a connection,
  what each read of a connection returns and how many bytes its peer accepts before the connection stays broken, the adapters that wgpu enumerates, rounding arithmetic on \<^verbatim>\<open>f32\<close>, the random
  draw, the forward passes on a device, and the constructors of executors. The CUDA driver is its documented
  stream order. Threads interleave at atomic accesses; the release and acquire orders of the source give the
  orders that these steps have. A panic is \<open>None\<close>; an error is \<open>Inl\<close> with the variant of \<^verbatim>\<open>AegisError\<close>. Messages keep their
  constant text; where they interpolate numbers or paths, those are shortened or left out.

  \<^bold>\<open>Not modelled.\<close>

  Device code (\<^verbatim>\<open>cuda/kernels\<close>, the shaders of wgpu) and the host code that packs arguments and
  launches it (\<^verbatim>\<open>cuda/runtime\<close>, the layers in \<^verbatim>\<open>executor\<close>, \<^verbatim>\<open>executor/prefill/layer.rs\<close>, \<^verbatim>\<open>moe.rs\<close>, the vision and audio towers):
  their effect is arithmetic on device memory, which no source here defines; they are parameters above. The kernels and forward passes of the CPU and of wgpu: rounding
  vector arithmetic, about whose results nothing exact holds. Loaders of weights, which copy what the storage plan
  decided. Preprocessing of images, audio and video and the interpolation weights of positions: resampling in floating point with outside crates. The command line, evaluation
  and reports: input and output around the modelled parts. Detection of the hardware and reading of the JSON files of
  a model. Timings, traces, log lines, progress output and page-cache hints have no effect on results and are dropped
  inside modelled functions. The RoPE settings, soft caps and embedding scale of a model are passed on unchanged.
\<close>

end
